(* ===== verification/Pakka_Prelude.thy ===== *)
theory Pakka_Prelude
  imports Main "HOL-Library.Word"
begin

text \<open>
  Shared vocabulary of the development: the machine integers of the C code, the status
  codes of the library, results of code that can fail, and C memory.

  A C computation has three kinds of outcome. \<open>Ok\<close> is a value, \<open>Fail\<close> is a status
  returned on an error path, and \<open>Fault\<close> is undefined behaviour: an access outside the
  buffer it goes to. Buffers are lists; \<open>mem_load\<close>, \<open>mem_store\<close>, \<open>mem_copy\<close> and
  \<open>mem_set\<close> are the C accesses (\<open>b[i]\<close>, \<open>b[i] = v\<close>, \<open>memcpy\<close>, \<open>memset\<close>) and fault outside
  the buffer, so that memory safety is the statement that no \<open>Fault\<close> is reached.
\<close>

unbundle bit_operations_syntax

type_synonym u8 = "8 word"
type_synonym u16 = "16 word"
type_synonym u32 = "32 word"
type_synonym u64 = "64 word"

text \<open>A C string is the bytes before its terminating NUL; \<open>cstr\<close> reads one from a buffer.\<close>

type_synonym cstring = "u8 list"
type_synonym path = "u8 list"

definition cstr :: "u8 list \<Rightarrow> cstring" where
  "cstr b = takeWhile (\<lambda>c. c \<noteq> 0) b"

definition c_string :: "cstring \<Rightarrow> bool" where
  "c_string s \<longleftrightarrow> 0 \<notin> set s"

named_theorems mem_simps \<open>unfolding of in-bounds memory accesses\<close>
named_theorems pak_defs \<open>definitions the archive proofs unfold together\<close>

section \<open>Status codes\<close>

datatype status =
    PAKKA_OK
  | PAKKA_ERR_IO
  | PAKKA_ERR_FORMAT
  | PAKKA_ERR_UNSUPPORTED
  | PAKKA_ERR_UNSAFE_NAME
  | PAKKA_ERR_DUPLICATE
  | PAKKA_ERR_NOT_FOUND
  | PAKKA_ERR_EXISTS
  | PAKKA_ERR_NOMEM
  | PAKKA_ERR_LIMIT
  | PAKKA_ERR_INVALID_ARGUMENT

section \<open>Results of C code\<close>

datatype 'a cres = Fault | Fail status | Ok 'a

fun cbind :: "'a cres \<Rightarrow> ('a \<Rightarrow> 'b cres) \<Rightarrow> 'b cres" where
  "cbind Fault f = Fault"
| "cbind (Fail s) f = Fail s"
| "cbind (Ok x) f = f x"

lemma cbind_cong [fundef_cong]:
  "m = m' \<Longrightarrow> (\<And>x. m' = Ok x \<Longrightarrow> f x = g x) \<Longrightarrow> cbind m f = cbind m' g"
  by (cases m) auto

lemma cbind_Ok_iff: "cbind m f = Ok y \<longleftrightarrow> (\<exists>x. m = Ok x \<and> f x = Ok y)"
  by (cases m) auto

lemma cbind_Fault_iff: "cbind m f = Fault \<longleftrightarrow> m = Fault \<or> (\<exists>x. m = Ok x \<and> f x = Fault)"
  by (cases m) auto

lemma cbind_split:
  "P (cbind m f) \<longleftrightarrow>
     (m = Fault \<longrightarrow> P Fault) \<and> (\<forall>s. m = Fail s \<longrightarrow> P (Fail s)) \<and> (\<forall>x. m = Ok x \<longrightarrow> P (f x))"
  by (cases m) auto

definition is_ok :: "'a cres \<Rightarrow> bool" where
  "is_ok r \<longleftrightarrow> (\<exists>x. r = Ok x)"

lemma is_ok_simps [simp]: "is_ok (Ok x)" "\<not> is_ok Fault" "\<not> is_ok (Fail s)"
  by (auto simp: is_ok_def)

section \<open>C memory\<close>

definition mem_load :: "'a list \<Rightarrow> nat \<Rightarrow> 'a cres" where
  "mem_load b i = (if i < length b then Ok (b ! i) else Fault)"

definition mem_store :: "'a list \<Rightarrow> nat \<Rightarrow> 'a \<Rightarrow> 'a list cres" where
  "mem_store b i v = (if i < length b then Ok (b[i := v]) else Fault)"

definition mem_copy :: "'a list \<Rightarrow> nat \<Rightarrow> 'a list \<Rightarrow> nat \<Rightarrow> nat \<Rightarrow> 'a list cres" where
  "mem_copy dst d src s n =
     (if d + n \<le> length dst \<and> s + n \<le> length src
      then Ok (take d dst @ take n (drop s src) @ drop (d + n) dst) else Fault)"

definition mem_set :: "'a list \<Rightarrow> nat \<Rightarrow> 'a \<Rightarrow> nat \<Rightarrow> 'a list cres" where
  "mem_set dst d v n =
     (if d + n \<le> length dst then Ok (take d dst @ replicate n v @ drop (d + n) dst) else Fault)"

lemma mem_load_ok [mem_simps]: "i < length b \<Longrightarrow> mem_load b i = Ok (b ! i)"
  by (simp add: mem_load_def)

lemma mem_store_ok [mem_simps]: "i < length b \<Longrightarrow> mem_store b i v = Ok (b[i := v])"
  by (simp add: mem_store_def)

lemma mem_copy_ok [mem_simps]:
  "d + n \<le> length dst \<Longrightarrow> s + n \<le> length src \<Longrightarrow>
   mem_copy dst d src s n = Ok (take d dst @ take n (drop s src) @ drop (d + n) dst)"
  by (simp add: mem_copy_def)

lemma mem_set_ok [mem_simps]:
  "d + n \<le> length dst \<Longrightarrow> mem_set dst d v n = Ok (take d dst @ replicate n v @ drop (d + n) dst)"
  by (simp add: mem_set_def)

lemma mem_load_Ok_iff: "mem_load b i = Ok x \<longleftrightarrow> i < length b \<and> x = b ! i"
  by (auto simp: mem_load_def)

lemma mem_copy_length: "mem_copy dst d src s n = Ok r \<Longrightarrow> length r = length dst"
  by (auto simp: mem_copy_def split: if_splits)

text \<open>What a store or a copy leaves in the first bytes of the buffer.\<close>

lemma take_Suc_list_update:
  "i < length b \<Longrightarrow> take (Suc i) (b[i := v]) = take i b @ [v]"
  by (simp add: take_Suc_conv_app_nth)

lemma take_splice:
  "p \<le> length b \<Longrightarrow> length xs = n \<Longrightarrow> p + n \<le> length b \<Longrightarrow>
   take (p + n) (take p b @ xs @ drop (p + n) b) = take p b @ xs"
  by simp

lemma length_splice:
  "p + n \<le> length b \<Longrightarrow> length xs = n \<Longrightarrow> length (take p b @ xs @ drop (p + n) b) = length b"
  by simp

section \<open>Bytes as numbers\<close>

lemma unat_of_nat_u8: "n < 256 \<Longrightarrow> unat (word_of_nat n :: u8) = n"
  by (simp add: unat_of_nat)

lemma unat_u8_bound: "unat (b :: u8) < 256"
  using unsigned_less [of b] by simp

lemma unat_u32_bound: "unat (w :: u32) < 2 ^ 32"
  using unsigned_less [of w] by simp

lemma unat_of_nat_u32: "n < 2 ^ 32 \<Longrightarrow> unat (word_of_nat n :: u32) = n"
  by (simp add: unat_of_nat)

lemma unat_of_nat_u64: "n < 2 ^ 64 \<Longrightarrow> unat (word_of_nat n :: u64) = n"
  by (simp add: unat_of_nat)

lemma cstr_c_string [simp]: "c_string (cstr b)"
  by (auto simp: c_string_def cstr_def dest: set_takeWhileD)

lemma cstr_id: "c_string s \<Longrightarrow> cstr s = s"
  by (auto simp: c_string_def cstr_def takeWhile_eq_all_conv)

lemma cstr_append_nul: "c_string s \<Longrightarrow> cstr (s @ 0 # r) = s"
  by (auto simp: c_string_def cstr_def takeWhile_append)

end
