(* ===== verification/Utf8.thy ===== *)
theory Utf8
  imports Pakka_Prelude "HOL-Library.Sublist"
begin

text \<open>
  UTF-8 checking of \<^verbatim>\<open>src/common.c\<close>: the validator \<open>pakka_is_valid_utf8\<close>, the sequence length
  \<open>pakka_utf8_seq_len\<close> and the substitution \<open>pakka_utf8_substitute_invalid\<close>. The reference is the
  encoding of Unicode scalar values; the lemmas show that the validator accepts exactly the
  encodings of sequences of scalar values and that the substitution always writes one.
\<close>

section \<open>The code\<close>

definition is_cont :: "u8 \<Rightarrow> bool" where
  "is_cont b \<longleftrightarrow> b AND 0xC0 = 0x80"

definition cp3 :: "u8 \<Rightarrow> u8 \<Rightarrow> u8 \<Rightarrow> u32" where
  "cp3 c b1 b2 = push_bit 12 (ucast (c AND 0x0F)) OR push_bit 6 (ucast (b1 AND 0x3F))
     OR ucast (b2 AND 0x3F)"

definition cp4 :: "u8 \<Rightarrow> u8 \<Rightarrow> u8 \<Rightarrow> u8 \<Rightarrow> u32" where
  "cp4 c b1 b2 b3 = push_bit 18 (ucast (c AND 0x07)) OR push_bit 12 (ucast (b1 AND 0x3F))
     OR push_bit 6 (ucast (b2 AND 0x3F)) OR ucast (b3 AND 0x3F)"

text \<open>\<open>s\<close> is the buffer and \<open>n\<close> the length passed with it.\<close>

function utf8_valid_loop :: "u8 list \<Rightarrow> nat \<Rightarrow> nat \<Rightarrow> bool cres" where
  "utf8_valid_loop s n i =
     (if i < n then
        cbind (mem_load s i) (\<lambda>c.
        if c < 0x80 then utf8_valid_loop s n (i + 1)
        else if c AND 0xE0 = 0xC0 then
          (if c < 0xC2 then Ok False
           else if i + 1 \<ge> n then Ok False
           else cbind (mem_load s (i + 1)) (\<lambda>b1.
             if \<not> is_cont b1 then Ok False
             else utf8_valid_loop s n (i + 2)))
        else if c AND 0xF0 = 0xE0 then
          (if i + 2 \<ge> n then Ok False
           else cbind (mem_load s (i + 1)) (\<lambda>b1.
             if \<not> is_cont b1 then Ok False
             else cbind (mem_load s (i + 2)) (\<lambda>b2.
               if \<not> is_cont b2 then Ok False
               else if cp3 c b1 b2 < 0x800 then Ok False
               else if cp3 c b1 b2 \<ge> 0xD800 \<and> cp3 c b1 b2 \<le> 0xDFFF then Ok False
               else utf8_valid_loop s n (i + 3))))
        else if c AND 0xF8 = 0xF0 then
          (if c > 0xF4 then Ok False
           else if i + 3 \<ge> n then Ok False
           else cbind (mem_load s (i + 1)) (\<lambda>b1.
             if \<not> is_cont b1 then Ok False
             else cbind (mem_load s (i + 2)) (\<lambda>b2.
               if \<not> is_cont b2 then Ok False
               else cbind (mem_load s (i + 3)) (\<lambda>b3.
                 if \<not> is_cont b3 then Ok False
                 else if cp4 c b1 b2 b3 < 0x10000 then Ok False
                 else if cp4 c b1 b2 b3 > 0x10FFFF then Ok False
                 else utf8_valid_loop s n (i + 4)))))
        else Ok False)
      else Ok True)"
  by pat_completeness auto
termination
  by (relation "measure (\<lambda>(s, n, i). n - i)") auto

declare utf8_valid_loop.simps [simp del]

definition pakka_is_valid_utf8 :: "u8 list \<Rightarrow> nat \<Rightarrow> bool cres" where
  "pakka_is_valid_utf8 s n = utf8_valid_loop s n 0"

definition pakka_utf8_seq_len :: "u8 list \<Rightarrow> nat \<Rightarrow> nat cres" where
  "pakka_utf8_seq_len s n =
     (if n = 0 then Ok 0
      else cbind (mem_load s 0) (\<lambda>c.
        if c < 0x80 then Ok 1
        else if c AND 0xE0 = 0xC0 then
          (if c < 0xC2 then Ok 0
           else if n < 2 then Ok 0
           else cbind (mem_load s 1) (\<lambda>b1. if \<not> is_cont b1 then Ok 0 else Ok 2))
        else if c AND 0xF0 = 0xE0 then
          (if n < 3 then Ok 0
           else cbind (mem_load s 1) (\<lambda>b1.
             if \<not> is_cont b1 then Ok 0
             else cbind (mem_load s 2) (\<lambda>b2.
               if \<not> is_cont b2 then Ok 0
               else if cp3 c b1 b2 < 0x800 then Ok 0
               else if cp3 c b1 b2 \<ge> 0xD800 \<and> cp3 c b1 b2 \<le> 0xDFFF then Ok 0
               else Ok 3)))
        else if c AND 0xF8 = 0xF0 then
          (if c > 0xF4 then Ok 0
           else if n < 4 then Ok 0
           else cbind (mem_load s 1) (\<lambda>b1.
             if \<not> is_cont b1 then Ok 0
             else cbind (mem_load s 2) (\<lambda>b2.
               if \<not> is_cont b2 then Ok 0
               else cbind (mem_load s 3) (\<lambda>b3.
                 if \<not> is_cont b3 then Ok 0
                 else if cp4 c b1 b2 b3 < 0x10000 then Ok 0
                 else if cp4 c b1 b2 b3 > 0x10FFFF then Ok 0
                 else Ok 4))))
        else Ok 0))"

text \<open>
  The substitution loop; \<open>src\<close> is the string without its NUL, \<open>n\<close> its length. A sequence
  length is at most the remaining input, which the termination argument needs.
\<close>

lemma utf8_seq_len_le: "pakka_utf8_seq_len s n = Ok k \<Longrightarrow> k \<le> n"
  by (auto simp: pakka_utf8_seq_len_def cbind_Ok_iff split: if_splits)

function utf8_subst_loop ::
  "u8 list \<Rightarrow> nat \<Rightarrow> nat \<Rightarrow> u8 \<Rightarrow> nat \<Rightarrow> nat \<Rightarrow> bool \<Rightarrow> u8 list \<Rightarrow> (nat \<times> bool \<times> u8 list) cres" where
  "utf8_subst_loop src n cap fill i out substituted dst =
     (if i < n then
        cbind (pakka_utf8_seq_len (drop i src) (n - i)) (\<lambda>k.
        if k = 0 then
          (if out + 1 \<ge> cap then Ok (out, substituted, dst)
           else cbind (mem_store dst out fill) (\<lambda>dst'.
             utf8_subst_loop src n cap fill (i + 1) (out + 1) True dst'))
        else
          (if out + k \<ge> cap then Ok (out, substituted, dst)
           else cbind (mem_copy dst out src i k) (\<lambda>dst'.
             utf8_subst_loop src n cap fill (i + k) (out + k) substituted dst')))
      else Ok (out, substituted, dst))"
  by pat_completeness auto
termination
  by (relation "measure (\<lambda>(src, n, cap, fill, i, out, substituted, dst). n - i)") auto

declare utf8_subst_loop.simps [simp del]

definition pakka_utf8_substitute_invalid ::
  "cstring \<Rightarrow> u8 list \<Rightarrow> nat \<Rightarrow> u8 \<Rightarrow> (bool \<times> u8 list) cres" where
  "pakka_utf8_substitute_invalid src dst cap fill =
     (if cap = 0 then Ok (False, dst)
      else cbind (utf8_subst_loop src (length src) cap fill 0 0 False dst) (\<lambda>(out, substituted, dst1).
        cbind (mem_store dst1 (if out < cap then out else cap - 1) 0) (\<lambda>dst2.
          Ok (substituted, dst2))))"

section \<open>Bytes by their value\<close>

lemma and_high_bits: "c AND NOT (mask k) = push_bit k (drop_bit k c)" for c :: "'a::len word"
  by (rule bit_word_eqI) (auto simp: bit_simps)

lemma unat_high_bits: "unat (c AND NOT (mask k)) = unat c div 2 ^ k * 2 ^ k" for c :: u8
proof -
  have "unat c div 2 ^ k * 2 ^ k < 2 ^ 8"
    by (rule le_less_trans [OF div_times_less_eq_dividend]) (simp add: unat_u8_bound)
  then have "take_bit 8 (unat c div 2 ^ k * 2 ^ k) = unat c div 2 ^ k * 2 ^ k"
    by (rule take_bit_nat_eq_self)
  then show ?thesis
    by (simp only: and_high_bits unsigned_push_bit_eq unat_drop_bit_eq)
      (simp add: push_bit_eq_mult drop_bit_eq_div)
qed

lemma unat_low_bits: "unat (c AND mask k) = unat c mod 2 ^ k" for c :: u8
  by (simp only: take_bit_eq_mask [symmetric] unsigned_take_bit_eq) (simp add: take_bit_eq_mod)

lemma byte_masks:
  "(0xE0 :: u8) = NOT (mask 5)" "(0xF0 :: u8) = NOT (mask 4)" "(0xF8 :: u8) = NOT (mask 3)"
  "(0xC0 :: u8) = NOT (mask 6)"
  "(0x0F :: u8) = mask 4" "(0x07 :: u8) = mask 3" "(0x3F :: u8) = mask 6"
  by (simp_all add: mask_eq_exp_minus_1)

lemma div_times_eq_iff:
  "0 < k \<Longrightarrow> v div k * k = m * k \<longleftrightarrow> m * k \<le> v \<and> v < m * k + k" for v :: nat
proof -
  assume k: "0 < k"
  have "v div k * k \<le> v" "v < v div k * k + k"
    using k by (simp_all add: dividend_less_div_times add.commute)
  moreover have "v div k = m" if "m * k \<le> v" "v < m * k + k"
    using that by (intro div_nat_eqI) (simp_all add: mult.commute)
  ultimately show ?thesis by auto
qed

lemma byte_classes:
  "(c AND 0xE0 = 0xC0) = (192 \<le> unat c \<and> unat c < 224)"
  "(c AND 0xF0 = 0xE0) = (224 \<le> unat c \<and> unat c < 240)"
  "(c AND 0xF8 = 0xF0) = (240 \<le> unat c \<and> unat c < 248)"
  "is_cont c = (128 \<le> unat c \<and> unat c < 192)" for c :: u8
proof -
  have e: "(x = y) = (unat x = unat y)" for x y :: u8 by (rule word_unat_eq_iff)
  show "(c AND 0xE0 = 0xC0) = (192 \<le> unat c \<and> unat c < 224)"
    unfolding e byte_masks(1) unat_high_bits using div_times_eq_iff [of 32 "unat c" 6] by simp
  show "(c AND 0xF0 = 0xE0) = (224 \<le> unat c \<and> unat c < 240)"
    unfolding e byte_masks(2) unat_high_bits using div_times_eq_iff [of 16 "unat c" 14] by simp
  show "(c AND 0xF8 = 0xF0) = (240 \<le> unat c \<and> unat c < 248)"
    unfolding e byte_masks(3) unat_high_bits using div_times_eq_iff [of 8 "unat c" 30] by simp
  show "is_cont c = (128 \<le> unat c \<and> unat c < 192)"
    unfolding is_cont_def e byte_masks(4) unat_high_bits using div_times_eq_iff [of 64 "unat c" 2] by simp
qed

lemma low_bits:
  "unat (c AND 0x0F) = unat c mod 16" "unat (c AND 0x07) = unat c mod 8"
  "unat (c AND 0x3F) = unat c mod 64" for c :: u8
  unfolding byte_masks unat_low_bits by simp_all

lemma or_shifted:
  fixes a b :: u32
  assumes b: "unat b < 2 ^ k" and a: "unat a * 2 ^ k < 2 ^ 32"
  shows "unat (push_bit k a OR b) = unat a * 2 ^ k + unat b"
proof -
  have "unat (push_bit k a OR b) = (unat (push_bit k a) OR unat b)"
    by (simp only: unsigned_or_eq)
  also have "unat (push_bit k a) = push_bit k (unat a)"
    using a by (simp only: unsigned_push_bit_eq push_bit_eq_mult [of _ "unat a"])
      (simp add: take_bit_nat_eq_self)
  also have "(push_bit k (unat a) OR unat b) = push_bit k (unat a) + unat b"
  proof (rule disjunctive_add_eq_or [symmetric])
    have "unat b = take_bit k (unat b)" using b by (simp add: take_bit_nat_eq_self)
    then show "push_bit k (unat a) AND unat b = 0"
      by (metis (no_types, lifting) bit_and_iff bit_push_bit_iff bit_take_bit_iff bit_0_eq
          bit_eq_iff bot_apply bot_bool_def not_le)
  qed
  finally show ?thesis by (simp add: push_bit_eq_mult)
qed

lemma unat_ucast_u8: "unat (ucast (b :: u8) :: u32) = unat b"
  by (simp add: unsigned_ucast_eq take_bit_nat_eq_self less_trans [OF unat_u8_bound])

lemma unat_cp3: "unat (cp3 c b1 b2) = unat c mod 16 * 4096 + unat b1 mod 64 * 64 + unat b2 mod 64"
proof -
  have "unat (push_bit 6 (ucast (b1 AND 0x3F)) OR ucast (b2 AND 0x3F) :: u32)
      = unat b1 mod 64 * 64 + unat b2 mod 64"
    by (subst or_shifted) (simp_all add: unat_ucast_u8 low_bits less_le_trans [of _ 64])
  then show ?thesis
    unfolding cp3_def or.assoc
    by (subst or_shifted) (auto simp: unat_ucast_u8 low_bits)
qed

lemma unat_cp4:
  "unat (cp4 c b1 b2 b3)
   = unat c mod 8 * 262144 + unat b1 mod 64 * 4096 + unat b2 mod 64 * 64 + unat b3 mod 64"
proof -
  have l: "unat (push_bit 6 (ucast (b2 AND 0x3F)) OR ucast (b3 AND 0x3F) :: u32)
      = unat b2 mod 64 * 64 + unat b3 mod 64"
    by (subst or_shifted) (simp_all add: unat_ucast_u8 low_bits less_le_trans [of _ 64])
  have "unat b2 mod 64 < 64" "unat b3 mod 64 < 64" "unat b1 mod 64 < 64" by simp_all
  then have bnd: "unat b2 mod 64 * 64 + unat b3 mod 64 < 2 ^ 12"
    "unat b1 mod 64 * 4096 + (unat b2 mod 64 * 64 + unat b3 mod 64) < 2 ^ 18"
    "unat b1 mod 64 * 2 ^ 12 < 2 ^ 32"
    by simp_all
  have l2: "unat (push_bit 12 (ucast (b1 AND 0x3F)) OR (push_bit 6 (ucast (b2 AND 0x3F)) OR ucast (b3 AND 0x3F)) :: u32)
      = unat b1 mod 64 * 4096 + (unat b2 mod 64 * 64 + unat b3 mod 64)"
    by (subst or_shifted) (use bnd in \<open>simp_all add: unat_ucast_u8 low_bits l\<close>)
  have "unat c mod 8 < 8" by simp
  then have "unat c mod 8 * 2 ^ 18 < 2 ^ 32" by simp
  then show ?thesis
    unfolding cp4_def or.assoc
    by (subst or_shifted) (use bnd in \<open>simp_all add: unat_ucast_u8 low_bits l2\<close>)
qed

section \<open>Unicode scalar values and their encoding\<close>

definition scalar :: "nat \<Rightarrow> bool" where
  "scalar cp \<longleftrightarrow> cp < 0xD800 \<or> 0xE000 \<le> cp \<and> cp \<le> 0x10FFFF"

definition utf8_encode :: "nat \<Rightarrow> u8 list" where
  "utf8_encode cp =
     (if cp < 0x80 then [word_of_nat cp]
      else if cp < 0x800 then [word_of_nat (0xC0 + cp div 64), word_of_nat (0x80 + cp mod 64)]
      else if cp < 0x10000 then
        [word_of_nat (0xE0 + cp div 4096), word_of_nat (0x80 + cp div 64 mod 64),
         word_of_nat (0x80 + cp mod 64)]
      else [word_of_nat (0xF0 + cp div 262144), word_of_nat (0x80 + cp div 4096 mod 64),
            word_of_nat (0x80 + cp div 64 mod 64), word_of_nat (0x80 + cp mod 64)])"

lemma utf8_encode_length: "0 < length (utf8_encode cp)" "length (utf8_encode cp) \<le> 4"
  by (simp_all add: utf8_encode_def)

lemma u8_eq_iff: "(a :: u8) = b \<longleftrightarrow> unat a = unat b"
  by (rule word_unat_eq_iff)

lemma u8_less_numeral: "(c :: u8) < numeral k \<longleftrightarrow> unat c < unat (numeral k :: u8)"
  by (simp only: word_less_nat_alt)

lemma u8_value: "n < 256 \<Longrightarrow> unat c = n \<Longrightarrow> c = (word_of_nat n :: u8)"
  by (simp add: u8_eq_iff unat_of_nat_u8)

text \<open>The tests of the code in terms of byte values.\<close>

lemmas utf8_tests = byte_classes word_less_nat_alt word_le_nat_alt unat_cp3 unat_cp4


definition cont :: "u8 \<Rightarrow> bool" where
  "cont b \<longleftrightarrow> 128 \<le> unat b \<and> unat b < 192"

definition cp3v :: "u8 \<Rightarrow> u8 \<Rightarrow> u8 \<Rightarrow> nat" where
  "cp3v c b1 b2 = unat c mod 16 * 4096 + unat b1 mod 64 * 64 + unat b2 mod 64"

definition cp4v :: "u8 \<Rightarrow> u8 \<Rightarrow> u8 \<Rightarrow> u8 \<Rightarrow> nat" where
  "cp4v c b1 b2 b3 = unat c mod 8 * 262144 + unat b1 mod 64 * 4096 + unat b2 mod 64 * 64 + unat b3 mod 64"

definition seq_len_at :: "u8 list \<Rightarrow> nat \<Rightarrow> nat" where
  "seq_len_at s n =
     (if unat (s ! 0) < 128 then 1
      else if 194 \<le> unat (s ! 0) \<and> unat (s ! 0) < 224 \<and> 2 \<le> n \<and> cont (s ! 1) then 2
      else if 224 \<le> unat (s ! 0) \<and> unat (s ! 0) < 240 \<and> 3 \<le> n \<and> cont (s ! 1) \<and> cont (s ! 2)
        \<and> 0x800 \<le> cp3v (s ! 0) (s ! 1) (s ! 2) \<and> scalar (cp3v (s ! 0) (s ! 1) (s ! 2)) then 3
      else if 240 \<le> unat (s ! 0) \<and> unat (s ! 0) \<le> 244 \<and> 4 \<le> n \<and> cont (s ! 1) \<and> cont (s ! 2)
        \<and> cont (s ! 3) \<and> 0x10000 \<le> cp4v (s ! 0) (s ! 1) (s ! 2) (s ! 3)
        \<and> cp4v (s ! 0) (s ! 1) (s ! 2) (s ! 3) \<le> 0x10FFFF then 4
      else 0)"

lemma cp3v_bound: "cp3v a b c < 65536"
proof -
  have "unat a mod 16 < 16" "unat b mod 64 < 64" "unat c mod 64 < 64" by simp_all
  then show ?thesis unfolding cp3v_def by linarith
qed

lemma seq_len_eq:
  assumes "n \<le> length s" "0 < n"
  shows "pakka_utf8_seq_len s n = Ok (seq_len_at s n)"
proof -
  have ld: "mem_load s 0 = Ok (s ! 0)" "2 \<le> n \<Longrightarrow> mem_load s 1 = Ok (s ! 1)"
    "3 \<le> n \<Longrightarrow> mem_load s 2 = Ok (s ! 2)" "4 \<le> n \<Longrightarrow> mem_load s 3 = Ok (s ! 3)"
    using assms by (auto simp: mem_load_def)
  consider "unat (s ! 0) < 194" | "194 \<le> unat (s ! 0)" "unat (s ! 0) < 224"
    | "224 \<le> unat (s ! 0)" "unat (s ! 0) < 240" | "240 \<le> unat (s ! 0)" "unat (s ! 0) < 248"
    | "248 \<le> unat (s ! 0)"
    by linarith
  then show ?thesis
  proof cases
    case 3
    have "\<not> (55296 \<le> v \<and> v \<le> 57343) \<longleftrightarrow> scalar v" if "v < 65536" for v
      using that by (auto simp: scalar_def)
    from this [OF cp3v_bound] 3 assms ld show ?thesis
      by (auto simp: pakka_utf8_seq_len_def seq_len_at_def utf8_tests cont_def cp3v_def [symmetric])
  qed (use assms ld in \<open>auto simp: pakka_utf8_seq_len_def seq_len_at_def utf8_tests cont_def
        cp4v_def [symmetric]\<close>)
qed

lemma seq_len_zero: "pakka_utf8_seq_len s 0 = Ok 0"
  by (simp add: pakka_utf8_seq_len_def)

lemma seq_len_total: "n \<le> length s \<Longrightarrow> \<exists>k \<le> n. pakka_utf8_seq_len s n = Ok k"
  using seq_len_eq [of n s] utf8_seq_len_le [of s n] by (cases "n = 0") (auto simp: seq_len_zero)

lemma take_2: "2 \<le> length s \<Longrightarrow> take 2 s = [s ! 0, s ! 1]"
  by (cases s; cases "tl s") (auto simp: eval_nat_numeral)

lemma take_3: "3 \<le> length s \<Longrightarrow> take 3 s = [s ! 0, s ! 1, s ! 2]"
  by (cases s; cases "tl s"; cases "tl (tl s)") (auto simp: eval_nat_numeral)

lemma take_4: "4 \<le> length s \<Longrightarrow> take 4 s = [s ! 0, s ! 1, s ! 2, s ! 3]"
  by (cases s; cases "tl s"; cases "tl (tl s)"; cases "tl (tl (tl s))") (auto simp: eval_nat_numeral)


lemma mod_offset: "(q * k + r) mod k = r" if "r < k" for q k r :: nat
  using that by simp

lemma cont_mod: "cont b \<Longrightarrow> unat b = 128 + unat b mod 64"
  using mod_offset [of "unat b - 128" 64 2] by (simp add: cont_def) linarith

lemma digits2: "y < b \<Longrightarrow> (x * b + y) div b = x" "y < b \<Longrightarrow> (x * b + y) mod b = y" for x y b :: nat
  by simp_all

text \<open>A sequence the code accepts is the encoding of the scalar value it computed.\<close>

lemma encode2:
  assumes "194 \<le> unat c" "unat c < 224" "cont b"
  shows "[c, b] = utf8_encode (unat c mod 32 * 64 + unat b mod 64)"
    and "scalar (unat c mod 32 * 64 + unat b mod 64)"
proof -
  let ?cp = "unat c mod 32 * 64 + unat b mod 64"
  have m: "unat c mod 32 = unat c - 192"
    using assms mod_offset [of "unat c - 192" 32 6] by simp
  have d: "?cp div 64 = unat c mod 32" "?cp mod 64 = unat b mod 64" by simp_all
  have b: "\<not> ?cp < 128" "?cp < 2048" using assms m by auto
  have "c = word_of_nat (0xC0 + unat c mod 32)" "b = word_of_nat (0x80 + unat b mod 64)"
    using assms m cont_mod [OF assms(3)] by (auto intro!: u8_value [symmetric])
  with b d show "[c, b] = utf8_encode ?cp" by (simp add: utf8_encode_def)
  show "scalar ?cp" using b by (simp add: scalar_def)
qed

lemma encode3:
  assumes "224 \<le> unat c" "unat c < 240" "cont b1" "cont b2" "0x800 \<le> cp3v c b1 b2"
  shows "[c, b1, b2] = utf8_encode (cp3v c b1 b2)"
proof -
  have m: "unat c mod 16 = unat c - 224"
    using assms mod_offset [of "unat c - 224" 16 14] by simp
  have split: "cp3v c b1 b2 = (unat c mod 16 * 64 + unat b1 mod 64) * 64 + unat b2 mod 64"
    by (simp add: cp3v_def)
  have d: "cp3v c b1 b2 mod 64 = unat b2 mod 64" "cp3v c b1 b2 div 64 mod 64 = unat b1 mod 64"
    "cp3v c b1 b2 div 64 div 64 = unat c mod 16"
    unfolding split by (simp_all only: digits2 mod_less_divisor zero_less_numeral)
  have "c = word_of_nat (0xE0 + unat c mod 16)" "b1 = word_of_nat (0x80 + unat b1 mod 64)"
    "b2 = word_of_nat (0x80 + unat b2 mod 64)"
    using assms m cont_mod [OF assms(3)] cont_mod [OF assms(4)] by (auto intro!: u8_value [symmetric])
  moreover have "cp3v c b1 b2 div 4096 = unat c mod 16"
    using d div_mult2_eq [of "cp3v c b1 b2" 64 64] by simp
  ultimately show ?thesis
    using d(1,2) assms(5) cp3v_bound [of c b1 b2] by (simp only: utf8_encode_def) simp
qed

lemma encode4:
  assumes "240 \<le> unat c" "unat c < 245" "cont b1" "cont b2" "cont b3" "0x10000 \<le> cp4v c b1 b2 b3"
  shows "[c, b1, b2, b3] = utf8_encode (cp4v c b1 b2 b3)"
proof -
  have m: "unat c mod 8 = unat c - 240"
    using assms mod_offset [of "unat c - 240" 8 30] by simp
  have split: "cp4v c b1 b2 b3
      = ((unat c mod 8 * 64 + unat b1 mod 64) * 64 + unat b2 mod 64) * 64 + unat b3 mod 64"
    by (simp add: cp4v_def)
  have d: "cp4v c b1 b2 b3 mod 64 = unat b3 mod 64" "cp4v c b1 b2 b3 div 64 mod 64 = unat b2 mod 64"
    "cp4v c b1 b2 b3 div 64 div 64 mod 64 = unat b1 mod 64"
    "cp4v c b1 b2 b3 div 64 div 64 div 64 = unat c mod 8"
    unfolding split by (simp_all only: digits2 mod_less_divisor zero_less_numeral)
  have "c = word_of_nat (0xF0 + unat c mod 8)" "b1 = word_of_nat (0x80 + unat b1 mod 64)"
    "b2 = word_of_nat (0x80 + unat b2 mod 64)" "b3 = word_of_nat (0x80 + unat b3 mod 64)"
    using assms m cont_mod [OF assms(3)] cont_mod [OF assms(4)] cont_mod [OF assms(5)]
    by (auto intro!: u8_value [symmetric])
  moreover have "cp4v c b1 b2 b3 div 4096 mod 64 = unat b1 mod 64"
    "cp4v c b1 b2 b3 div 262144 = unat c mod 8"
    using d div_mult2_eq [of "cp4v c b1 b2 b3" 64 64] div_mult2_eq [of "cp4v c b1 b2 b3" 4096 64]
    by simp_all
  ultimately show ?thesis
    using d(1,2) assms(6) by (simp only: utf8_encode_def) simp
qed

lemma seq_len_sound:
  assumes "n \<le> length s" "pakka_utf8_seq_len s n = Ok k" "0 < k"
  shows "\<exists>cp. scalar cp \<and> take k s = utf8_encode cp"
proof -
  have n: "0 < n" using assms by (cases n) (auto simp: seq_len_zero)
  have k: "k = seq_len_at s n" using seq_len_eq [OF assms(1) n] assms(2) by simp
  consider (one) "k = 1" "unat (s ! 0) < 128"
    | (two) "k = 2" "194 \<le> unat (s ! 0)" "unat (s ! 0) < 224" "cont (s ! 1)" "2 \<le> n"
    | (three) "k = 3" "224 \<le> unat (s ! 0)" "unat (s ! 0) < 240" "cont (s ! 1)" "cont (s ! 2)"
        "0x800 \<le> cp3v (s ! 0) (s ! 1) (s ! 2)" "scalar (cp3v (s ! 0) (s ! 1) (s ! 2))" "3 \<le> n"
    | (four) "k = 4" "240 \<le> unat (s ! 0)" "unat (s ! 0) < 245" "cont (s ! 1)" "cont (s ! 2)"
        "cont (s ! 3)" "0x10000 \<le> cp4v (s ! 0) (s ! 1) (s ! 2) (s ! 3)"
        "cp4v (s ! 0) (s ! 1) (s ! 2) (s ! 3) \<le> 0x10FFFF" "4 \<le> n"
    using assms(3) k by (auto simp: seq_len_at_def split: if_splits)
  then show ?thesis
  proof cases
    case one
    then have "take 1 s = utf8_encode (unat (s ! 0))" "scalar (unat (s ! 0))"
      using n assms(1) by (cases s; simp add: utf8_encode_def scalar_def)+
    with one show ?thesis by blast
  next
    case two
    with encode2 [of "s ! 0" "s ! 1"] take_2 [of s] assms(1) show ?thesis by force
  next
    case three
    with encode3 [of "s ! 0" "s ! 1" "s ! 2"] take_3 [of s] assms(1) show ?thesis by force
  next
    case four
    with encode4 [of "s ! 0" "s ! 1" "s ! 2" "s ! 3"] take_4 [of s] assms(1)
    show ?thesis by (intro exI [of _ "cp4v (s ! 0) (s ! 1) (s ! 2) (s ! 3)"]) (simp add: scalar_def)
  qed
qed


lemma cp3v_digits:
  assumes "x < 16" "y < 64" "z < 64" "x * 4096 + y * 64 + z = v"
  shows "cp3v (word_of_nat (224 + x)) (word_of_nat (128 + y)) (word_of_nat (128 + z)) = v"
  using assms mod_offset [of x 16 14] mod_offset [of y 64 2] mod_offset [of z 64 2]
  by (simp add: cp3v_def unat_of_nat_u8 del: of_nat_add)

lemma cp4v_digits:
  assumes "w < 8" "x < 64" "y < 64" "z < 64" "w * 262144 + x * 4096 + y * 64 + z = v"
  shows "cp4v (word_of_nat (240 + w)) (word_of_nat (128 + x)) (word_of_nat (128 + y))
    (word_of_nat (128 + z)) = v"
  using assms mod_offset [of w 8 30] mod_offset [of x 64 2] mod_offset [of y 64 2]
    mod_offset [of z 64 2]
  by (simp add: cp4v_def unat_of_nat_u8 del: of_nat_add)

text \<open>Conversely the encoding of a scalar value is accepted with its own length.\<close>

lemma seq_len_complete:
  assumes "scalar cp" "n \<le> length s" "length (utf8_encode cp) \<le> n"
    and s: "s = utf8_encode cp @ r"
  shows "pakka_utf8_seq_len s n = Ok (length (utf8_encode cp))"
proof -
  have n: "0 < n" using utf8_encode_length(1) [of cp] assms by linarith
  have u: "unat (word_of_nat (c + x) :: u8) = c + x" if "c + x < 256" for c x
    using that by (rule unat_of_nat_u8)
  have m: "x mod 64 < 64" for x :: nat by simp
  have q: "cp div 4096 = cp div 64 div 64" "cp div 262144 = cp div 4096 div 64"
    using div_mult2_eq [of cp 64 64] div_mult2_eq [of cp 4096 64] by simp_all
  consider (one) "cp < 128" | (two) "128 \<le> cp" "cp < 2048" | (three) "2048 \<le> cp" "cp < 65536"
    | (four) "65536 \<le> cp" "cp \<le> 1114111"
    using assms(1) by (fastforce simp: scalar_def)
  then have "seq_len_at s n = length (utf8_encode cp)"
  proof cases
    case one
    then show ?thesis by (simp add: s seq_len_at_def utf8_encode_def unat_of_nat_u8)
  next
    case two
    then have d: "cp div 64 < 32" "2 \<le> cp div 64" by (simp_all add: less_mult_imp_div_less less_eq_div_iff_mult_less_eq)
    with two assms(3) m [of cp] show ?thesis
      by (simp add: s seq_len_at_def utf8_encode_def u cont_def del: of_nat_add)
  next
    case three
    have d: "cp div 4096 < 16" using three by (simp add: less_mult_imp_div_less)
    have e: "cp div 4096 * 4096 + cp div 64 mod 64 * 64 + cp mod 64 = cp"
      using div_mult_mod_eq [of cp 64] div_mult_mod_eq [of "cp div 64" 64] q by linarith
    have c: "cp3v (word_of_nat (224 + cp div 4096)) (word_of_nat (128 + cp div 64 mod 64))
        (word_of_nat (128 + cp mod 64)) = cp"
      by (rule cp3v_digits [OF d m m e])
    from three d m [of cp] m [of "cp div 64"] assms(1,3) show ?thesis
      by (simp add: s seq_len_at_def utf8_encode_def u cont_def c del: of_nat_add)
  next
    case four
    have d: "cp div 262144 < 5" using four by (simp add: less_mult_imp_div_less)
    have e: "cp div 262144 * 262144 + cp div 4096 mod 64 * 4096 + cp div 64 mod 64 * 64 + cp mod 64 = cp"
      using div_mult_mod_eq [of cp 64] div_mult_mod_eq [of "cp div 64" 64]
        div_mult_mod_eq [of "cp div 4096" 64] q by linarith
    have d8: "cp div 262144 < 8" using d by simp
    have c: "cp4v (word_of_nat (240 + cp div 262144)) (word_of_nat (128 + cp div 4096 mod 64))
        (word_of_nat (128 + cp div 64 mod 64)) (word_of_nat (128 + cp mod 64)) = cp"
      by (rule cp4v_digits [OF d8 m m m e])
    from four d m [of cp] m [of "cp div 64"] m [of "cp div 4096"] assms(3) show ?thesis
      by (simp add: s seq_len_at_def utf8_encode_def u cont_def c del: of_nat_add)
  qed
  with seq_len_eq [OF assms(2) n] show ?thesis by simp
qed

lemma seq_len_prefix: "n \<le> length s \<Longrightarrow> pakka_utf8_seq_len (take n s) n = pakka_utf8_seq_len s n"
  by (cases "n = 0") (auto simp: seq_len_zero seq_len_eq seq_len_at_def)

section \<open>UTF-8 text\<close>

definition utf8_text :: "u8 list \<Rightarrow> bool" where
  "utf8_text b \<longleftrightarrow> (\<exists>cps. (\<forall>cp \<in> set cps. scalar cp) \<and> b = concat (map utf8_encode cps))"

lemma utf8_text_Nil [simp]: "utf8_text []"
  by (simp add: utf8_text_def exI [of _ "[]"])

lemma utf8_text_encode: "scalar cp \<Longrightarrow> utf8_text (utf8_encode cp)"
  unfolding utf8_text_def by (rule exI [of _ "[cp]"]) simp

lemma utf8_text_append: "utf8_text a \<Longrightarrow> utf8_text b \<Longrightarrow> utf8_text (a @ b)"
  unfolding utf8_text_def by (metis Un_iff concat_append map_append set_append)

lemma utf8_text_step:
  assumes "t \<noteq> []" "pakka_utf8_seq_len t (length t) = Ok k"
  shows "utf8_text t \<longleftrightarrow> 0 < k \<and> utf8_text (drop k t)"
proof
  assume "utf8_text t"
  then obtain cp cps where c: "scalar cp" "\<forall>c \<in> set cps. scalar c"
    and t: "t = utf8_encode cp @ concat (map utf8_encode cps)"
    using assms(1) by (auto simp: utf8_text_def) (case_tac cps; auto)
  have "k = length (utf8_encode cp)"
    using seq_len_complete [OF c(1) order_refl _ t] t assms(2) by simp
  with c t show "0 < k \<and> utf8_text (drop k t)"
    using utf8_encode_length(1) [of cp] by (auto simp: utf8_text_def)
next
  assume k: "0 < k \<and> utf8_text (drop k t)"
  then obtain cp where "scalar cp" "take k t = utf8_encode cp"
    using seq_len_sound [OF order_refl assms(2)] by blast
  then have "utf8_text (take k t @ drop k t)"
    using k utf8_text_append [OF utf8_text_encode] by metis
  then show "utf8_text t" by simp
qed

lemma cbind_assoc: "cbind (cbind m f) g = cbind m (\<lambda>x. cbind (f x) g)"
  by (cases m) auto

lemma cbind_if: "cbind (if c then m else m') f = (if c then cbind m f else cbind m' f)"
  by simp

lemma utf8_valid_step:
  assumes "n \<le> length s" "i < n"
  shows "utf8_valid_loop s n i =
    cbind (pakka_utf8_seq_len (drop i s) (n - i)) (\<lambda>k.
      if k = 0 then Ok False else utf8_valid_loop s n (i + k))"
proof -
  have l: "mem_load (drop i s) 0 = mem_load s i" "mem_load (drop i s) 1 = mem_load s (i + 1)"
    "mem_load (drop i s) 2 = mem_load s (i + 2)" "mem_load (drop i s) 3 = mem_load s (i + 3)"
    using assms by (auto simp: mem_load_def)
  have b: "\<not> n - i = 0" "n - i < 2 \<longleftrightarrow> i + 1 \<ge> n" "n - i < 3 \<longleftrightarrow> i + 2 \<ge> n" "n - i < 4 \<longleftrightarrow> i + 3 \<ge> n"
    using assms by auto
  show ?thesis
    unfolding pakka_utf8_seq_len_def l b using assms
    by (subst utf8_valid_loop.simps)
      (simp add: cbind_assoc cbind_if cong: if_cong del: One_nat_def)
qed

lemma utf8_valid_loop_iff:
  assumes "n \<le> length s"
  shows "utf8_valid_loop s n i = Ok (utf8_text (drop i (take n s)))"
proof (induction "n - i" arbitrary: i rule: less_induct)
  case less
  show ?case
  proof (cases "i < n")
    case True
    let ?t = "drop i (take n s)"
    have len: "length ?t = n - i" "?t \<noteq> []" "n - i \<le> length (drop i s)"
      using True assms by auto
    have t: "?t = take (n - i) (drop i s)" by (simp add: drop_take)
    obtain k where k: "k \<le> n - i" "pakka_utf8_seq_len (drop i s) (n - i) = Ok k"
      using seq_len_total [OF len(3)] by blast
    then have "pakka_utf8_seq_len ?t (length ?t) = Ok k"
      using seq_len_prefix [OF len(3)] len(1) t by simp
    then have step: "utf8_text ?t \<longleftrightarrow> 0 < k \<and> utf8_text (drop k ?t)"
      by (rule utf8_text_step [OF len(2)])
    show ?thesis
    proof (cases "k = 0")
      case False
      then have "utf8_valid_loop s n (i + k) = Ok (utf8_text (drop (i + k) (take n s)))"
        using True by (intro less) simp
      with False step show ?thesis
        by (simp add: utf8_valid_step [OF assms True] k(2) add.commute)
    qed (use step in \<open>simp add: utf8_valid_step [OF assms True] k(2)\<close>)
  qed (simp add: utf8_valid_loop.simps)
qed

text \<open>C9: the validator accepts exactly the encodings of sequences of Unicode scalar values.\<close>

theorem utf8_valid_iff:
  assumes "n \<le> length s"
  shows "pakka_is_valid_utf8 s n =
    Ok (\<exists>cps. (\<forall>cp \<in> set cps. scalar cp) \<and> take n s = concat (map utf8_encode cps))"
  using utf8_valid_loop_iff [OF assms, of 0] by (simp add: pakka_is_valid_utf8_def utf8_text_def)

lemma utf8_valid_iff_witness:
  "pakka_is_valid_utf8 [0xC3, 0xA9, 0x41] 3 = Ok True"
proof -
  have "\<exists>cps. (\<forall>cp \<in> set cps. scalar cp) \<and> take 3 [0xC3, 0xA9, 0x41] = concat (map utf8_encode cps)"
    by (rule exI [of _ "[0xE9, 0x41]"]) (simp add: scalar_def utf8_encode_def)
  then show ?thesis using utf8_valid_iff [of 3 "[0xC3, 0xA9, 0x41]"] by simp
qed

section \<open>Substitution\<close>

text \<open>What the loop keeps: the bytes written so far are UTF-8 text that fits.\<close>

definition subst_inv :: "u8 list \<Rightarrow> nat \<Rightarrow> nat \<Rightarrow> nat \<Rightarrow> bool \<Rightarrow> u8 list \<Rightarrow> bool" where
  "subst_inv src cap i out sub dst \<longleftrightarrow>
     i \<le> length src \<and> out < cap \<and> cap \<le> length dst \<and> utf8_text (take out dst) \<and>
     0 \<notin> set (take out dst) \<and> (\<not> sub \<longrightarrow> out = i \<and> take out dst = take i src)"

lemma subst_inv_fill:
  assumes "subst_inv src cap i out sub dst" "i < length src" "out + 1 < cap" "0 < fill" "fill < 0x80"
  shows "subst_inv src cap (i + 1) (out + 1) True (dst[out := fill])"
proof -
  have "out < length dst" using assms by (simp add: subst_inv_def)
  then have t: "take (out + 1) (dst[out := fill]) = take out dst @ [fill]"
    by (simp add: take_Suc_list_update)
  have "unat fill < 128" using assms(5) by (simp add: word_less_nat_alt)
  then have "utf8_text [fill]"
    using utf8_text_encode [of "unat fill"] by (simp add: utf8_encode_def scalar_def)
  with assms t show ?thesis
    by (auto simp: subst_inv_def simp del: take_append intro!: utf8_text_append)
qed

lemma subst_inv_copy:
  assumes "subst_inv src cap i out sub dst" "c_string src" "i < length src" "out + k < cap" "0 < k"
    and k: "pakka_utf8_seq_len (drop i src) (length src - i) = Ok k"
  shows "subst_inv src cap (i + k) (out + k) sub (take out dst @ take k (drop i src) @ drop (out + k) dst)"
proof -
  have kb: "k \<le> length src - i" using utf8_seq_len_le [OF k] .
  have l: "length (take out dst) = out" "length (take k (drop i src)) = k"
    using assms(1,3,4) kb by (auto simp: subst_inv_def)
  have t: "take (out + k) (take out dst @ take k (drop i src) @ drop (out + k) dst)
      = take out dst @ take k (drop i src)"
    using l by simp
  obtain cp where "scalar cp" "take k (drop i src) = utf8_encode cp"
    using seq_len_sound [OF _ k assms(5)] by auto
  then have "utf8_text (take k (drop i src))" by (simp add: utf8_text_encode)
  moreover have "0 \<notin> set (take k (drop i src))"
    using assms(2) by (auto simp: c_string_def dest: in_set_takeD in_set_dropD)
  ultimately show ?thesis
    using assms(1,4) kb l t
    by (auto simp: subst_inv_def take_add intro!: utf8_text_append simp del: take_append)
qed

lemma utf8_subst_loop_inv:
  assumes "subst_inv src cap i out sub dst" "c_string src" "0 < fill" "fill < 0x80"
  shows "\<exists>i' out' sub' dst'. utf8_subst_loop src (length src) cap fill i out sub dst = Ok (out', sub', dst')
    \<and> subst_inv src cap i' out' sub' dst' \<and> length dst' = length dst
    \<and> (i' = length src \<or> cap \<le> out' + (length src - i') \<or> sub')"
  using assms
proof (induction "length src - i" arbitrary: i out sub dst rule: less_induct)
  case less
  note inv = less.prems(1)
  show ?case
  proof (cases "i < length src")
    case False
    with inv have "i = length src" by (simp add: subst_inv_def)
    with inv False show ?thesis by (auto simp: utf8_subst_loop.simps)
  next
    case True
    obtain k where k: "pakka_utf8_seq_len (drop i src) (length src - i) = Ok k" "k \<le> length src - i"
      using seq_len_total [of "length src - i" "drop i src"] by auto
    consider (fill) "k = 0" "out + 1 < cap" | (copy) "0 < k" "out + k < cap"
      | (stop0) "k = 0" "cap \<le> out + 1" | (stop) "0 < k" "cap \<le> out + k"
      by linarith
    then show ?thesis
    proof cases
      case fill
      have o: "out < length dst" using inv by (simp add: subst_inv_def)
      have "utf8_subst_loop src (length src) cap fill i out sub dst
        = utf8_subst_loop src (length src) cap fill (i + 1) (out + 1) True (dst[out := fill])"
        using fill True k o by (subst utf8_subst_loop.simps) (simp add: mem_store_ok)
      with less.hyps [OF _ subst_inv_fill [OF inv True fill(2) less.prems(3,4)] less.prems(2-4)] True
      show ?thesis by simp
    next
      case copy
      let ?d = "take out dst @ take k (drop i src) @ drop (out + k) dst"
      have o: "out + k \<le> length dst" using inv copy by (simp add: subst_inv_def)
      then have m: "mem_copy dst out src i k = Ok ?d"
        using k(2) True by (simp add: mem_copy_ok)
      have ld: "length ?d = length dst" using o k(2) True by simp
      have "utf8_subst_loop src (length src) cap fill i out sub dst
        = utf8_subst_loop src (length src) cap fill (i + k) (out + k) sub ?d"
        using copy True k m by (subst utf8_subst_loop.simps) simp
      moreover have "length src - (i + k) < length src - i" using True copy by simp
      ultimately show ?thesis
        using less.hyps [OF _ subst_inv_copy [OF inv less.prems(2) True copy(2,1) k(1)] less.prems(2-4)]
        by (simp only: ld)
    next
      case stop0
      then have "utf8_subst_loop src (length src) cap fill i out sub dst = Ok (out, sub, dst)"
        using True k by (subst utf8_subst_loop.simps) simp
      with inv stop0 True show ?thesis by (simp; rule_tac x = i in exI; auto)
    next
      case stop
      then have "utf8_subst_loop src (length src) cap fill i out sub dst = Ok (out, sub, dst)"
        using True k by (subst utf8_subst_loop.simps) simp
      with inv stop k(2) show ?thesis by (simp; rule_tac x = i in exI; auto)
    qed
  qed
qed

lemma utf8_text_no_subst:
  assumes "utf8_text src" "c_string src"
  shows "\<forall>i out dst o' d'. utf8_text (drop i src) \<longrightarrow>
    utf8_subst_loop src (length src) cap fill i out False dst \<noteq> Ok (o', True, d')"
proof (intro allI impI)
  fix i out dst o' d'
  assume "utf8_text (drop i src)"
  then show "utf8_subst_loop src (length src) cap fill i out False dst \<noteq> Ok (o', True, d')"
  proof (induction "length src - i" arbitrary: i out dst rule: less_induct)
    case less
    show ?case
    proof (cases "i < length src")
      case True
      obtain k where k: "pakka_utf8_seq_len (drop i src) (length src - i) = Ok k"
        using seq_len_total [of "length src - i" "drop i src"] by auto
      then have st: "0 < k" "utf8_text (drop (i + k) src)"
        using utf8_text_step [of "drop i src" k] less.prems True by (auto simp: add.commute)
      have "utf8_subst_loop src (length src) cap fill (i + k) (out + k) False d \<noteq> Ok (o', True, d')" for d
        using st True by (intro less.hyps) auto
      then show ?thesis
        using True k st by (subst utf8_subst_loop.simps) (auto simp: cbind_Ok_iff)
    qed (simp add: utf8_subst_loop.simps)
  qed
qed

text \<open>Substitution never leaves the destination, always leaves a NUL-terminated UTF-8 string
  there, and copies a string that is valid UTF-8 and fits unchanged, reporting no substitution.\<close>

theorem utf8_substitute_spec:
  assumes "c_string src" "0 < cap" "cap \<le> length dst" "0 < fill" "fill < 0x80"
  shows "\<exists>sub dst'. pakka_utf8_substitute_invalid src dst cap fill = Ok (sub, dst')
    \<and> length dst' = length dst \<and> utf8_text (cstr dst') \<and> length (cstr dst') < cap
    \<and> (utf8_text src \<longrightarrow> \<not> sub) \<and> (\<not> sub \<longrightarrow> prefix (cstr dst') src)
    \<and> (\<not> sub \<and> length src < cap \<longrightarrow> cstr dst' = src)"
proof -
  have "subst_inv src cap 0 0 False dst" using assms by (simp add: subst_inv_def)
  from utf8_subst_loop_inv [OF this assms(1,4,5)]
  obtain i out sub d where r: "utf8_subst_loop src (length src) cap fill 0 0 False dst = Ok (out, sub, d)"
    and inv: "subst_inv src cap i out sub d" and ld: "length d = length dst"
    and e: "i = length src \<or> cap \<le> out + (length src - i) \<or> sub"
    by blast
  have o: "out < cap" "out < length d" "i \<le> length src" using inv by (auto simp: subst_inv_def)
  have c: "cstr (d[out := 0]) = take out d"
    using o inv cstr_append_nul [of "take out d" "drop (Suc out) d"]
    by (simp add: upd_conv_take_nth_drop subst_inv_def c_string_def)
  have ns: "utf8_text src \<Longrightarrow> \<not> sub"
    using utf8_text_no_subst [of src cap fill] r assms(1) by (metis (full_types) drop0)
  have "pakka_utf8_substitute_invalid src dst cap fill = Ok (sub, d[out := 0])"
    using assms(2) o r by (simp add: pakka_utf8_substitute_invalid_def mem_store_ok)
  moreover have "\<not> sub \<Longrightarrow> prefix (take out d) src"
    using inv by (auto simp: subst_inv_def take_is_prefix)
  moreover have "\<not> sub \<and> length src < cap \<Longrightarrow> take out d = src"
    using inv e by (auto simp: subst_inv_def)
  moreover have "utf8_text (take out d)" "length (take out d) < cap"
    using inv by (auto simp: subst_inv_def)
  ultimately show ?thesis using c ld ns by auto
qed

lemma utf8_substitute_spec_witness:
  "\<exists>sub dst'. pakka_utf8_substitute_invalid [0x41, 0xC3] (replicate 4 7) 4 0x3F = Ok (sub, dst')
    \<and> length dst' = 4 \<and> utf8_text (cstr dst') \<and> length (cstr dst') < 4"
  using utf8_substitute_spec [where src = "[0x41, 0xC3]" and cap = 4 and dst = "replicate 4 7" and fill = "0x3F"]
  by (auto simp: c_string_def)

text \<open>A valid string that does not fit is truncated although the result is 0.\<close>

lemma utf8_substitute_truncates:
  "pakka_utf8_substitute_invalid [0x41, 0x42] [7, 7] 2 0x3F = Ok (False, [0x41, 0])"
  by code_simp

end
