(* ===== verification/Stdio.thy ===== *)
theory Stdio
  imports Pakka_Prelude "HOL-Library.Code_Target_Nat"
begin

text \<open>
  The stdio streams the library reads and writes, and the little-endian fields of
  \<^verbatim>\<open>src/common.c\<close> on top of them.

  A stream carries the bytes of its file and a position. What can go wrong with it is part of
  it: the file can grow to \<open>f_room\<close> bytes only (a full disk, a quota), bytes from \<open>f_readable\<close>
  on cannot be read (an I/O error), positioning may be refused, and closing may fail to flush.
  \<open>f_error\<close> is the error indicator, \<open>f_locked\<close> the advisory lock held through the stream.
\<close>

section \<open>Streams\<close>

record cfile =
  f_data :: "u8 list"
  f_pos :: nat
  f_room :: nat
  f_readable :: nat
  f_seekable :: bool
  f_close_ok :: bool
  f_error :: bool
  f_locked :: bool

text \<open>Overwriting \<open>bs\<close> at position \<open>p\<close>, extending the file with zeros when \<open>p\<close> is past its end.\<close>

definition splice :: "u8 list \<Rightarrow> nat \<Rightarrow> u8 list \<Rightarrow> u8 list" where
  "splice d p bs =
     (if bs = [] then d
      else take p d @ replicate (p - length d) 0 @ bs @ drop (p + length bs) d)"

definition fread :: "cfile \<Rightarrow> nat \<Rightarrow> u8 list \<times> cfile" where
  "fread f n =
     (let avail = min (length (f_data f)) (f_readable f) - f_pos f;
          got = min n avail
      in (take got (drop (f_pos f) (f_data f)),
          f\<lparr>f_pos := f_pos f + got,
            f_error := f_error f \<or> got < n \<and> f_readable f < length (f_data f)\<rparr>))"

definition fwrite :: "cfile \<Rightarrow> u8 list \<Rightarrow> nat \<times> cfile" where
  "fwrite f bs =
     (let n = min (length bs) (f_room f - f_pos f)
      in (n, f\<lparr>f_data := splice (f_data f) (f_pos f) (take n bs),
               f_pos := f_pos f + n,
               f_error := f_error f \<or> n < length bs\<rparr>))"

definition fseek_set :: "cfile \<Rightarrow> nat \<Rightarrow> bool \<times> cfile" where
  "fseek_set f p = (if f_seekable f then (True, f\<lparr>f_pos := p\<rparr>) else (False, f))"

definition fseek_end :: "cfile \<Rightarrow> bool \<times> cfile" where
  "fseek_end f = (if f_seekable f then (True, f\<lparr>f_pos := length (f_data f)\<rparr>) else (False, f))"

text \<open>\<open>ftell\<close> returns a negative value, here \<open>None\<close>, when the position does not fit an int64.\<close>

definition ftell :: "cfile \<Rightarrow> nat option" where
  "ftell f = (if f_seekable f \<and> f_pos f < 2 ^ 63 then Some (f_pos f) else None)"

definition rewind :: "cfile \<Rightarrow> cfile" where
  "rewind f = (if f_seekable f then f\<lparr>f_pos := 0, f_error := False\<rparr> else f\<lparr>f_error := False\<rparr>)"

definition fread_all :: "cfile \<Rightarrow> nat \<Rightarrow> u8 list option \<times> cfile" where
  "fread_all f n = (let (bs, f') = fread f n in (if length bs = n then Some bs else None, f'))"

definition fwrite_all :: "cfile \<Rightarrow> u8 list \<Rightarrow> bool \<times> cfile" where
  "fwrite_all f bs = (let (n, f') = fwrite f bs in (n = length bs, f'))"

definition pakka_filesize :: "cfile \<Rightarrow> nat option \<times> cfile" where
  "pakka_filesize fd =
     (let (sought, fd1) = fseek_end fd in
      if \<not> sought then (None, fd1)
      else case ftell fd1 of
        None \<Rightarrow> (None, fd1)
      | Some sz \<Rightarrow> (Some sz, rewind fd1))"

section \<open>Little-endian fields\<close>

definition pakka_read_u32_le :: "cfile \<Rightarrow> u32 option \<times> cfile" where
  "pakka_read_u32_le fp =
     (let (got, fp') = fread fp 4 in
      if length got \<noteq> 4 then (None, fp')
      else (Some (ucast (got ! 0) OR push_bit 8 (ucast (got ! 1)) OR push_bit 16 (ucast (got ! 2))
                  OR push_bit 24 (ucast (got ! 3))), fp'))"

definition pakka_write_u32_le :: "cfile \<Rightarrow> u32 \<Rightarrow> bool \<times> cfile" where
  "pakka_write_u32_le fp v =
     (let b = [ucast (v AND 0xFF), ucast (drop_bit 8 v AND 0xFF),
               ucast (drop_bit 16 v AND 0xFF), ucast (drop_bit 24 v AND 0xFF)];
          (n, fp') = fwrite fp b
      in (n = 4, fp'))"

text \<open>A chain \<open>write(a) != 0 || write(b) != 0\<close> stops at the first call that fails; so does a chain of
  reads, which hands on what it read.\<close>

definition andthen :: "bool \<times> cfile \<Rightarrow> (cfile \<Rightarrow> bool \<times> cfile) \<Rightarrow> bool \<times> cfile" where
  "andthen r k = (case r of (True, f) \<Rightarrow> k f | (False, f) \<Rightarrow> (False, f))"

definition rbind :: "'a option \<times> cfile \<Rightarrow> ('a \<Rightarrow> cfile \<Rightarrow> 'b option \<times> cfile) \<Rightarrow> 'b option \<times> cfile" where
  "rbind r k = (case r of (Some x, f) \<Rightarrow> k x f | (None, f) \<Rightarrow> (None, f))"

section \<open>Writing as splicing\<close>

text \<open>\<open>f_put\<close> is the stream after bytes that all fit; writes of the code compose to one of them.\<close>

definition f_put :: "cfile \<Rightarrow> u8 list \<Rightarrow> cfile" where
  "f_put f bs = f\<lparr>f_data := splice (f_data f) (f_pos f) bs, f_pos := f_pos f + length bs\<rparr>"

definition f_fits :: "cfile \<Rightarrow> u8 list \<Rightarrow> bool" where
  "f_fits f bs \<longleftrightarrow> f_pos f + length bs \<le> f_room f"

lemma splice_Nil [simp]: "splice d p [] = d"
  by (simp add: splice_def)

lemma length_splice_le: "length d \<le> length (splice d p bs)"
  by (auto simp: splice_def)

lemma length_splice_eq: "bs \<noteq> [] \<Longrightarrow> length (splice d p bs) = max (length d) (p + length bs)"
  by (auto simp: splice_def)

lemma take_splice_before: "n \<le> p \<Longrightarrow> n \<le> length d \<Longrightarrow> take n (splice d p bs) = take n d"
  by (auto simp: splice_def min_def)

lemma drop_splice_after: "p + length bs \<le> n \<Longrightarrow> drop n (splice d p bs) = drop n d"
proof (cases "bs = []")
  case False
  assume n: "p + length bs \<le> n"
  have "splice d p bs = (take p d @ replicate (p - length d) 0 @ bs) @ drop (p + length bs) d"
    using False by (simp add: splice_def)
  moreover have "length (take p d @ replicate (p - length d) 0 @ bs) = p + length bs" by simp
  ultimately show ?thesis using n by simp
qed simp

lemma splice_at: "take (length bs) (drop p (splice d p bs)) = bs"
proof (cases "bs = []")
  case False
  then have "splice d p bs = (take p d @ replicate (p - length d) 0) @ bs @ drop (p + length bs) d"
    by (simp add: splice_def)
  moreover have "length (take p d @ replicate (p - length d) 0) = p" by simp
  ultimately show ?thesis by simp
qed simp

lemma splice_splice_adjacent: "splice (splice d p a) (p + length a) b = splice d p (a @ b)"
proof (cases "a = [] \<or> b = []")
  case False
  let ?h = "take p d @ replicate (p - length d) 0 @ a"
  have h: "length ?h = p + length a" by simp
  have s: "splice d p a = ?h @ drop (p + length a) d" using False by (simp add: splice_def)
  have "take (p + length a) (splice d p a) = ?h" unfolding s using h by simp
  moreover have "p + length a \<le> length (splice d p a)" using False by (simp add: length_splice_eq)
  moreover have "drop (p + length a + length b) (splice d p a) = drop (p + length a + length b) d"
    by (rule drop_splice_after) simp
  ultimately show ?thesis
    using False by (simp add: splice_def [of "splice d p a"]) (simp add: splice_def add.assoc)
qed auto

lemma splice_end: "splice d (length d) bs = d @ bs"
  by (simp add: splice_def)

lemma f_put_simps [simp]:
  "f_pos (f_put f bs) = f_pos f + length bs" "f_data (f_put f bs) = splice (f_data f) (f_pos f) bs"
  "f_room (f_put f bs) = f_room f" "f_readable (f_put f bs) = f_readable f"
  "f_seekable (f_put f bs) = f_seekable f" "f_close_ok (f_put f bs) = f_close_ok f"
  "f_error (f_put f bs) = f_error f" "f_locked (f_put f bs) = f_locked f"
  "f_put f [] = f"
  by (simp_all add: f_put_def)

lemma f_put_append: "f_put f (a @ b) = f_put (f_put f a) b"
  by (simp add: f_put_def splice_splice_adjacent add.assoc)

lemma f_fits_append: "f_fits f (a @ b) \<longleftrightarrow> f_fits f a \<and> f_fits (f_put f a) b"
  by (auto simp: f_fits_def)

lemma fwrite_fits: "f_fits f bs \<Longrightarrow> fwrite f bs = (length bs, f_put f bs)"
  by (simp add: fwrite_def f_fits_def f_put_def Let_def min_absorb1)

lemma fwrite_all_iff:
  "fst (fwrite_all f bs) \<longleftrightarrow> bs = [] \<or> f_fits f bs"
  by (cases "f_pos f \<le> f_room f") (auto simp: fwrite_all_def fwrite_def f_fits_def Let_def min_def)

lemma fwrite_nil [simp]: "fwrite f [] = (0, f)"
  by (simp add: fwrite_def)

lemma fwrite_all_True: "fwrite_all f bs = (True, f') \<longleftrightarrow> (bs = [] \<or> f_fits f bs) \<and> f' = f_put f bs"
proof (cases "bs = [] \<or> f_fits f bs")
  case True
  then show ?thesis by (auto simp: fwrite_all_def fwrite_fits)
next
  case False
  with fwrite_all_iff [of f bs] show ?thesis by (metis fst_conv)
qed

text \<open>Whatever a write does, it leaves what is before the position alone and the environment of
  the stream as it was.\<close>

definition f_same_env :: "cfile \<Rightarrow> cfile \<Rightarrow> bool" where
  "f_same_env f g \<longleftrightarrow> f_room g = f_room f \<and> f_readable g = f_readable f \<and> f_seekable g = f_seekable f
     \<and> f_close_ok g = f_close_ok f \<and> f_locked g = f_locked f"

text \<open>\<open>f_keeps P f g\<close>: \<open>g\<close> still has every byte of \<open>f\<close> whose place satisfies \<open>P\<close>; \<open>f_extends p f g\<close>:
  it may differ only from byte \<open>p\<close> on.\<close>

definition f_keeps :: "(nat \<Rightarrow> bool) \<Rightarrow> cfile \<Rightarrow> cfile \<Rightarrow> bool" where
  "f_keeps P f g \<longleftrightarrow> f_same_env f g \<and> length (f_data f) \<le> length (f_data g)
     \<and> (\<forall>i < length (f_data f). P i \<longrightarrow> f_data g ! i = f_data f ! i)"

abbreviation f_extends :: "nat \<Rightarrow> cfile \<Rightarrow> cfile \<Rightarrow> bool" where
  "f_extends p \<equiv> f_keeps (\<lambda>i. i < p)"

lemma f_same_env_refl [simp]: "f_same_env f f"
  by (simp add: f_same_env_def)

lemma f_same_env_trans: "f_same_env f g \<Longrightarrow> f_same_env g h \<Longrightarrow> f_same_env f h"
  by (simp add: f_same_env_def)

lemma f_keeps_refl [simp]: "f_keeps P f f"
  by (simp add: f_keeps_def)

lemma f_keeps_trans: "f_keeps P f g \<Longrightarrow> f_keeps P g h \<Longrightarrow> f_keeps P f h"
  unfolding f_keeps_def by (auto intro: f_same_env_trans)

lemma f_keeps_mono: "f_keeps P f g \<Longrightarrow> (\<And>i. Q i \<Longrightarrow> P i) \<Longrightarrow> f_keeps Q f g"
  unfolding f_keeps_def by blast

lemma f_keeps_same_data:
  "f_same_env f g \<Longrightarrow> f_data g = f_data f \<Longrightarrow> f_keeps P f g"
  by (simp add: f_keeps_def)

text \<open>A range of kept bytes reads the same.\<close>

lemma f_keeps_range:
  assumes "f_keeps P f g" "\<And>i. lo \<le> i \<Longrightarrow> i < lo + n \<Longrightarrow> P i" "lo + n \<le> length (f_data f)"
  shows "take n (drop lo (f_data g)) = take n (drop lo (f_data f))"
  using assms by (intro nth_equalityI) (auto simp: f_keeps_def)

lemma splice_nth:
  "i < length d \<Longrightarrow> splice d p bs ! i = (if p \<le> i \<and> i < p + length bs then bs ! (i - p) else d ! i)"
  by (auto simp: splice_def nth_append min_def)

lemma f_keeps_put:
  assumes "\<And>i. P i \<Longrightarrow> i < f_pos f \<or> f_pos f + length bs \<le> i"
  shows "f_keeps P f (f_put f bs)"
proof -
  have "f_data (f_put f bs) ! i = f_data f ! i" if "i < length (f_data f)" "P i" for i
    using assms [OF that(2)] that(1) by (auto simp: splice_nth)
  then show ?thesis by (simp add: f_keeps_def f_same_env_def length_splice_le)
qed

lemma f_extends_put: "p \<le> f_pos f \<Longrightarrow> f_extends p f (f_put f bs)"
  by (rule f_keeps_put) simp

lemma fwrite_shape: "fwrite f bs = (n, g) \<Longrightarrow>
  g = (f_put f (take n bs))\<lparr>f_error := f_error f \<or> n < length bs\<rparr> \<and> n \<le> length bs"
  by (cases f) (auto simp: fwrite_def f_put_def Let_def)

lemma f_keeps_fields [simp]:
  "f_keeps P f (g\<lparr>f_pos := q\<rparr>) \<longleftrightarrow> f_keeps P f g"
  "f_keeps P (f\<lparr>f_pos := q\<rparr>) g \<longleftrightarrow> f_keeps P f g"
  "f_keeps P f (g\<lparr>f_error := e\<rparr>) \<longleftrightarrow> f_keeps P f g"
  by (simp_all add: f_keeps_def f_same_env_def)

lemma f_keeps_fwrite:
  assumes "fwrite f bs = (n, g)" "\<And>i. P i \<Longrightarrow> i < f_pos f \<or> f_pos f + length bs \<le> i"
  shows "f_keeps P f g" "f_pos f \<le> f_pos g"
proof -
  have g: "g = (f_put f (take n bs))\<lparr>f_error := f_error f \<or> n < length bs\<rparr>" and n: "n \<le> length bs"
    using fwrite_shape [OF assms(1)] by auto
  have "f_keeps P f (f_put f (take n bs))"
    by (rule f_keeps_put) (use assms(2) n in fastforce)
  then show "f_keeps P f g" "f_pos f \<le> f_pos g" by (simp_all add: g)
qed

lemma f_keeps_fwrite_all:
  assumes "fwrite_all f bs = (r, g)" "\<And>i. P i \<Longrightarrow> i < f_pos f \<or> f_pos f + length bs \<le> i"
  shows "f_keeps P f g" "f_pos f \<le> f_pos g"
  using f_keeps_fwrite [of f bs _ g P] assms by (auto simp: fwrite_all_def split: prod.splits)

section \<open>Reading\<close>

text \<open>\<open>f_has f bs\<close>: the bytes \<open>bs\<close> are at the position, readable.\<close>

definition f_has :: "cfile \<Rightarrow> u8 list \<Rightarrow> bool" where
  "f_has f bs \<longleftrightarrow> take (length bs) (drop (f_pos f) (f_data f)) = bs
     \<and> f_pos f + length bs \<le> min (length (f_data f)) (f_readable f)"

definition f_skip :: "cfile \<Rightarrow> nat \<Rightarrow> cfile" where
  "f_skip f n = f\<lparr>f_pos := f_pos f + n\<rparr>"

lemma f_skip_simps [simp]:
  "f_pos (f_skip f n) = f_pos f + n" "f_data (f_skip f n) = f_data f" "f_room (f_skip f n) = f_room f"
  "f_readable (f_skip f n) = f_readable f" "f_seekable (f_skip f n) = f_seekable f"
  "f_close_ok (f_skip f n) = f_close_ok f" "f_error (f_skip f n) = f_error f"
  "f_locked (f_skip f n) = f_locked f" "f_skip (f_skip f n) m = f_skip f (n + m)" "f_skip f 0 = f"
  by (simp_all add: f_skip_def add.assoc)

lemma fread_has: "f_has f bs \<Longrightarrow> fread f (length bs) = (bs, f_skip f (length bs))"
  by (auto simp: f_has_def fread_def f_skip_def Let_def min_def)

lemma fread_all_has: "f_has f bs \<Longrightarrow> length bs = n \<Longrightarrow> fread_all f n = (Some bs, f_skip f n)"
  using fread_has [of f bs] by (auto simp: fread_all_def)

lemma f_has_append: "f_has f (a @ b) \<longleftrightarrow> f_has f a \<and> f_has (f_skip f (length a)) b"
  by (auto simp: f_has_def take_add add.assoc add.commute)

lemma fread_all_Some:
  assumes "fread_all f n = (Some bs, g)" "0 < n"
  shows "f_has f bs \<and> length bs = n \<and> g = f_skip f n"
proof -
  have le: "n \<le> min (length (f_data f)) (f_readable f) - f_pos f" and bs: "bs = take n (drop (f_pos f) (f_data f))"
    using assms by (auto simp: fread_all_def fread_def Let_def min_def split: if_splits)
  then have fit: "f_pos f + n \<le> min (length (f_data f)) (f_readable f)" using assms(2) by arith
  then have "f_has f bs" "length bs = n" using bs by (auto simp: f_has_def)
  then show ?thesis using fread_all_has [of f bs n] assms(1) by simp
qed

lemma fread_frame: "fread f n = (bs, g) \<Longrightarrow> \<exists>p e. g = f\<lparr>f_pos := p, f_error := e\<rparr>"
  by (auto simp: fread_def Let_def)

definition u32_le :: "u32 \<Rightarrow> u8 list" where
  "u32_le v = [ucast (v AND 0xFF), ucast (drop_bit 8 v AND 0xFF),
               ucast (drop_bit 16 v AND 0xFF), ucast (drop_bit 24 v AND 0xFF)]"

definition le_u32 :: "u8 list \<Rightarrow> u32" where
  "le_u32 b = ucast (b ! 0) OR push_bit 8 (ucast (b ! 1)) OR push_bit 16 (ucast (b ! 2))
     OR push_bit 24 (ucast (b ! 3))"

lemma length_u32_le [simp]: "length (u32_le v) = 4"
  by (simp add: u32_le_def)

lemma mask8: "(0xFF :: u32) = mask 8"
  by (simp add: mask_eq_exp_minus_1)

lemma le_u32_le: "le_u32 (u32_le v) = v"
proof (rule bit_word_eqI)
  fix n assume "n < LENGTH(32)"
  then consider "n < 8" | "8 \<le> n" "n < 16" | "16 \<le> n" "n < 24" | "24 \<le> n" "n < 32"
    by fastforce
  then show "bit (le_u32 (u32_le v)) n = bit v n"
    unfolding u32_le_def le_u32_def mask8
    by cases (auto simp: bit_simps)
qed

lemma no_bit_u8: "8 \<le> n \<Longrightarrow> \<not> bit (b :: u8) n"
  using bit_imp_le_length [of b n] by auto

lemma u32_le_of: "length b = 4 \<Longrightarrow> u32_le (le_u32 b) = b"
proof -
  assume "length b = 4"
  then obtain b0 b1 b2 b3 where b: "b = [b0, b1, b2, b3]"
    by (auto simp: eval_nat_numeral length_Suc_conv)
  show ?thesis
    unfolding b u32_le_def le_u32_def mask8
    by (auto intro!: bit_word_eqI simp: bit_simps no_bit_u8)
qed

text \<open>Codes of a fixed width: rows of a table, fields of a header.\<close>

locale fixed_codec =
  fixes enc :: "'a \<Rightarrow> u8 list" and dec :: "u8 list \<Rightarrow> 'a" and width :: nat and ok :: "'a \<Rightarrow> bool"
  assumes enc_length: "ok x \<Longrightarrow> length (enc x) = width"
    and dec_enc: "ok x \<Longrightarrow> dec (enc x) = x"
begin

lemma enc_inj: "ok x \<Longrightarrow> ok y \<Longrightarrow> enc x = enc y \<Longrightarrow> x = y"
  by (metis dec_enc)

lemma table_length: "list_all ok xs \<Longrightarrow> length (concat (map enc xs)) = length xs * width"
  by (induction xs) (auto simp: enc_length)

lemma table_row:
  "list_all ok xs \<Longrightarrow> i < length xs \<Longrightarrow>
   take width (drop (i * width) (concat (map enc xs) @ r)) = enc (xs ! i)"
proof (induction xs arbitrary: i)
  case (Cons x xs)
  then show ?case by (cases i) (auto simp: enc_length)
qed simp

lemma table_decode:
  "list_all ok xs \<Longrightarrow> i < length xs \<Longrightarrow>
   dec (take width (drop (i * width) (concat (map enc xs) @ r))) = xs ! i"
  by (simp only: table_row) (simp add: dec_enc list_all_length)

end

interpretation u32c: fixed_codec u32_le le_u32 4 "\<lambda>_. True"
  by unfold_locales (simp_all add: le_u32_le)

lemma pakka_write_u32_le_all: "pakka_write_u32_le fp v = fwrite_all fp (u32_le v)"
  by (simp add: pakka_write_u32_le_def fwrite_all_def u32_le_def Let_def eval_nat_numeral)

lemma pakka_read_u32_le_all:
  "pakka_read_u32_le fp = (let (b, fp') = fread_all fp 4 in (map_option le_u32 b, fp'))"
  by (simp add: pakka_read_u32_le_def fread_all_def le_u32_def split: prod.splits)

lemma read_u32_has: "f_has f (u32_le v) \<Longrightarrow> pakka_read_u32_le f = (Some v, f_skip f 4)"
  by (simp add: pakka_read_u32_le_all fread_all_has le_u32_le)

text \<open>A u32 written to a stream reads back as itself from the place it was written to, whatever
  the host's byte order, and the bytes before that place stay as they were.\<close>

theorem u32_le_roundtrip:
  assumes "pakka_write_u32_le f v = (True, g)" "f_pos f + 4 \<le> f_readable f"
  shows "fst (pakka_read_u32_le (g\<lparr>f_pos := f_pos f\<rparr>)) = Some v
    \<and> f_pos g = f_pos f + 4 \<and> f_extends (f_pos f) f g"
proof -
  have g: "g = f_put f (u32_le v)"
    using assms(1) by (simp add: pakka_write_u32_le_all fwrite_all_True)
  have "take 4 (drop (f_pos f) (f_data g)) = u32_le v"
    using splice_at [of "u32_le v" "f_pos f" "f_data f"] by (simp add: g)
  moreover have "f_pos f + 4 \<le> length (f_data g)"
    using length_splice_eq [of "u32_le v" "f_data f" "f_pos f"] by (simp add: g u32_le_def)
  ultimately have "f_has (g\<lparr>f_pos := f_pos f\<rparr>) (u32_le v)"
    using assms(2) by (simp add: f_has_def g)
  then show ?thesis by (simp add: read_u32_has f_extends_put g)
qed

definition empty_stream :: cfile where
  "empty_stream = \<lparr>f_data = [], f_pos = 0, f_room = 1000000, f_readable = 1000000, f_seekable = True,
     f_close_ok = True, f_error = False, f_locked = False\<rparr>"

lemma u32_le_roundtrip_witness:
  "\<exists>g. fst (pakka_read_u32_le (g\<lparr>f_pos := f_pos empty_stream\<rparr>)) = Some 0x12345678
    \<and> f_pos g = f_pos empty_stream + 4 \<and> f_extends (f_pos empty_stream) empty_stream g"
proof (rule exI, rule u32_le_roundtrip)
  show "pakka_write_u32_le empty_stream 0x12345678 = (True, f_put empty_stream (u32_le 0x12345678))"
    by (simp add: pakka_write_u32_le_all fwrite_all_True f_fits_def empty_stream_def)
qed (simp add: empty_stream_def)

section \<open>Chains of writes and reads\<close>

lemma andthen_True: "andthen r k = (True, g) \<longleftrightarrow> (\<exists>f. r = (True, f) \<and> k f = (True, g))"
  by (auto simp: andthen_def split: prod.splits bool.splits)

lemma rbind_Some: "rbind r k = (Some y, g) \<longleftrightarrow> (\<exists>x f. r = (Some x, f) \<and> k x f = (Some y, g))"
  by (auto simp: rbind_def split: prod.splits option.splits)

lemma rbind_simps [simp]: "rbind (Some x, f) k = k x f" "rbind (None, f) k = (None, f)"
  by (simp_all add: rbind_def)

lemma andthen_writes:
  "andthen (fwrite_all f a) (\<lambda>f. fwrite_all f b) = (True, g) \<longleftrightarrow>
   (a = [] \<or> f_fits f a) \<and> (b = [] \<or> f_fits (f_put f a) b) \<and> g = f_put f (a @ b)"
  by (auto simp: andthen_True fwrite_all_True f_put_append)

lemma fwrite_all_append:
  "fwrite_all f (a @ b) = andthen (fwrite_all f a) (\<lambda>f. fwrite_all f b)"
proof (cases "length a \<le> f_room f - f_pos f")
  case True
  let ?r = "f_room f - f_pos f"
  have r: "f_room f - (f_pos f + length a) = ?r - length a" by simp
  have n: "min (length a + length b) ?r = length a + min (length b) (?r - length a)"
    using True by simp
  have s: "splice (f_data f) (f_pos f) (a @ take (min (length b) (?r - length a)) b)
    = splice (splice (f_data f) (f_pos f) a) (f_pos f + length a) (take (min (length b) (?r - length a)) b)"
    by (rule splice_splice_adjacent [symmetric])
  have w: "fwrite f a = (length a, f_put f a)"
    using True by (cases "a = []") (simp_all add: fwrite_def f_put_def min_absorb1 Let_def)
  have "fwrite f (a @ b) = (length a + fst (fwrite (f_put f a) b), snd (fwrite (f_put f a) b))"
    unfolding fwrite_def Let_def
    by (simp add: n s r f_put_def less_diff_conv add.commute add.left_commute splice_splice_adjacent [symmetric])
  with w show ?thesis
    by (simp add: fwrite_all_def andthen_def split: prod.splits)
next
  case False
  then have m: "min (length a + length b) (f_room f - f_pos f) = f_room f - f_pos f"
    "min (length a) (f_room f - f_pos f) = f_room f - f_pos f" by simp_all
  with False have "fwrite f (a @ b) = fwrite f a" "fst (fwrite f a) \<noteq> length a" "fst (fwrite f a) \<noteq> length a + length b"
    unfolding fwrite_def Let_def by auto
  then show ?thesis
    by (cases "fwrite f a") (simp add: fwrite_all_def andthen_def)
qed

lemma fwrite_all_Nil [simp]: "fwrite_all f [] = (True, f)"
  by (simp add: fwrite_all_def)

end
