(* ===== verification/Entry_Names.thy ===== *)
theory Entry_Names
  imports Pakka_Prelude
begin

text \<open>
  Entry names of an archive (\<^verbatim>\<open>src/pakfile.c\<close>): the validator \<open>pakka_unsafe_entry_name\<close> with its
  segment test, and the normal form \<open>pakka_normalize_entry_name\<close> under which two names collide on a
  case-insensitive file system. The reference splits a name into its segments; the lemmas show that
  a name the validator accepts resolves below the directory it is extracted to, and that the
  normal form is the segment-wise one when the destination has room for it.
\<close>

section \<open>The code\<close>

definition ascii :: "string \<Rightarrow> u8 list" where
  "ascii s = map of_char s"

definition is_sep :: "u8 \<Rightarrow> bool" where
  "is_sep c \<longleftrightarrow> c = 0x2F \<or> c = 0x5C"

definition win_reserved_names :: "cstring list" where
  "win_reserved_names =
     [ascii ''CON'', ascii ''PRN'', ascii ''AUX'', ascii ''NUL'',
      ascii ''COM0'', ascii ''COM1'', ascii ''COM2'', ascii ''COM3'', ascii ''COM4'',
      ascii ''COM5'', ascii ''COM6'', ascii ''COM7'', ascii ''COM8'', ascii ''COM9'',
      ascii ''LPT0'', ascii ''LPT1'', ascii ''LPT2'', ascii ''LPT3'', ascii ''LPT4'',
      ascii ''LPT5'', ascii ''LPT6'', ascii ''LPT7'', ascii ''LPT8'', ascii ''LPT9'']"

definition upper :: "u8 \<Rightarrow> u8" where
  "upper a = (if a \<ge> 0x61 \<and> a \<le> 0x7A then a - 32 else a)"

definition lower :: "u8 \<Rightarrow> u8" where
  "lower c = (if c \<ge> 0x41 \<and> c \<le> 0x5A then c - 0x41 + 0x61 else c)"

text \<open>A segment is passed as a pointer and a length: here the bytes of that range.\<close>

function reserved_base_len :: "u8 list \<Rightarrow> nat \<Rightarrow> nat" where
  "reserved_base_len seg base_len =
     (if base_len < length seg \<and> seg ! base_len \<noteq> 0x2E
      then reserved_base_len seg (base_len + 1) else base_len)"
  by pat_completeness auto
termination
  by (relation "measure (\<lambda>(seg, base_len). length seg - base_len)") auto

declare reserved_base_len.simps [simp del]

definition is_reserved_device_name :: "u8 list \<Rightarrow> bool" where
  "is_reserved_device_name seg =
     (let base_len = reserved_base_len seg 0 in
      list_ex (\<lambda>name. length name = base_len \<and>
        list_all (\<lambda>j. upper (seg ! j) = name ! j) [0..<base_len]) win_reserved_names)"

definition is_unsafe_segment :: "u8 list \<Rightarrow> bool" where
  "is_unsafe_segment seg =
     (if length seg = 0 then True
      else if length seg = 1 \<and> seg ! 0 = 0x2E then True
      else if length seg = 2 \<and> seg ! 0 = 0x2E \<and> seg ! 1 = 0x2E then True
      else if list_ex (\<lambda>c. c < 0x20 \<or> c = 0x7F \<or> c = 0x3A) seg then True
      else if seg ! (length seg - 1) = 0x2E \<or> seg ! (length seg - 1) = 0x20 then True
      else is_reserved_device_name seg)"

text \<open>The walk over the name; \<open>path @ [0]\<close> is the string with its NUL.\<close>

function unsafe_loop :: "cstring \<Rightarrow> nat \<Rightarrow> nat \<Rightarrow> bool cres" where
  "unsafe_loop path seg p =
     cbind (mem_load (path @ [0]) p) (\<lambda>c.
       if is_sep c \<or> c = 0 then
         (if is_unsafe_segment (take (p - seg) (drop seg path)) then Ok True
          else if c = 0 then Ok False
          else unsafe_loop path (p + 1) (p + 1))
       else unsafe_loop path seg (p + 1))"
  by pat_completeness auto
termination
  by (relation "measure (\<lambda>(path, seg, p). length path + 1 - p)") (auto simp: mem_load_Ok_iff)

declare unsafe_loop.simps [simp del]

definition pakka_unsafe_entry_name :: "cstring option \<Rightarrow> bool cres" where
  "pakka_unsafe_entry_name path =
     (case path of None \<Rightarrow> Ok True
      | Some path \<Rightarrow>
          cbind (mem_load (path @ [0]) 0) (\<lambda>c.
            if c = 0 then Ok True
            else if is_sep c then Ok True
            else unsafe_loop path 0 0))"

text \<open>Stripping the dots and spaces at the end of a segment.\<close>

fun norm_strip :: "u8 list \<Rightarrow> nat \<Rightarrow> nat \<Rightarrow> nat cres" where
  "norm_strip dst seg_start 0 = Ok 0"
| "norm_strip dst seg_start (Suc out) =
     (if seg_start < Suc out then
        cbind (mem_load dst out) (\<lambda>c.
          if c = 0x2E \<or> c = 0x20 then norm_strip dst seg_start out else Ok (Suc out))
      else Ok (Suc out))"

function norm_loop ::
  "cstring \<Rightarrow> u8 list \<Rightarrow> nat \<Rightarrow> nat \<Rightarrow> nat \<Rightarrow> nat \<Rightarrow> (u8 list \<times> nat) cres" where
  "norm_loop src dst dstsz inp out seg_start =
     (if out + 1 < dstsz then
        cbind (mem_load (src @ [0]) inp) (\<lambda>c.
          if c = 0 \<or> is_sep c then
            cbind (norm_strip dst seg_start out) (\<lambda>out'.
              if c = 0 then Ok (dst, out')
              else cbind (mem_store dst out' 0x2F) (\<lambda>dst'.
                norm_loop src dst' dstsz (inp + 1) (out' + 1) (out' + 1)))
          else cbind (mem_store dst out (lower c)) (\<lambda>dst'.
            norm_loop src dst' dstsz (inp + 1) (out + 1) seg_start))
      else Ok (dst, out))"
  by pat_completeness auto
termination
  by (relation "measure (\<lambda>(src, dst, dstsz, inp, out, seg_start). length src + 1 - inp)")
    (auto simp: mem_load_Ok_iff)

declare norm_loop.simps [simp del]

definition pakka_normalize_entry_name :: "cstring \<Rightarrow> u8 list \<Rightarrow> nat \<Rightarrow> u8 list cres" where
  "pakka_normalize_entry_name src dst dstsz =
     (if dstsz = 0 then Ok dst
      else cbind (norm_loop src dst dstsz 0 0 0) (\<lambda>(dst', out). mem_store dst' out 0))"

section \<open>Segments\<close>

fun split_at :: "(u8 \<Rightarrow> bool) \<Rightarrow> cstring \<Rightarrow> cstring list" where
  "split_at P [] = [[]]"
| "split_at P (c # s) =
     (if P c then [] # split_at P s
      else (c # hd (split_at P s)) # tl (split_at P s))"

definition segments :: "cstring \<Rightarrow> cstring list" where
  "segments s = split_at is_sep s"

fun join_segments :: "cstring list \<Rightarrow> cstring" where
  "join_segments [] = []"
| "join_segments [x] = x"
| "join_segments (x # xs) = x @ 0x2F # join_segments xs"

lemma split_at_not_Nil [simp]: "split_at P s \<noteq> []"
  by (cases s) auto

lemma split_at_prefix:
  "\<forall>c \<in> set a. \<not> P c \<Longrightarrow> split_at P (a @ s) = (a @ hd (split_at P s)) # tl (split_at P s)"
  by (induction a) auto

lemma split_at_whole: "\<forall>c \<in> set a. \<not> P c \<Longrightarrow> split_at P a = [a]"
  using split_at_prefix [of a P "[]"] by simp

lemma split_at_piece: "\<forall>c \<in> set a. \<not> P c \<Longrightarrow> P c \<Longrightarrow> split_at P (a @ c # s) = a # split_at P s"
  by (simp add: split_at_prefix)

lemma split_at_clean: "\<forall>x \<in> set (split_at P s). \<forall>c \<in> set x. \<not> P c"
proof (induction s)
  case (Cons a s)
  then show ?case by (cases "split_at P s") auto
qed simp

lemma split_at_subset: "\<forall>x \<in> set (split_at P s). set x \<subseteq> set s"
proof (induction s)
  case (Cons a s)
  then show ?case by (cases "split_at P s") auto
qed simp

text \<open>Splitting at fewer separators gives pieces that split further into the same ones.\<close>

lemma split_at_coarser_aux:
  assumes "\<And>c. P c \<Longrightarrow> Q c"
  shows "hd (split_at Q (hd (split_at P s))) = hd (split_at Q s) \<and>
    set (tl (split_at Q (hd (split_at P s)))) \<subseteq> set (tl (split_at Q s)) \<and>
    (\<forall>x \<in> set (tl (split_at P s)). set (split_at Q x) \<subseteq> set (tl (split_at Q s)))"
proof (induction s)
  case (Cons a s)
  have e: "set xs = insert (hd xs) (set (tl xs))" if "xs \<noteq> []" for xs :: "cstring list"
    using that by (cases xs) auto
  have "set (split_at P s) = insert (hd (split_at P s)) (set (tl (split_at P s)))"
    "set (split_at Q s) = insert (hd (split_at Q s)) (set (tl (split_at Q s)))"
    "set (split_at Q (hd (split_at P s))) =
       insert (hd (split_at Q (hd (split_at P s)))) (set (tl (split_at Q (hd (split_at P s)))))"
    by (simp_all add: e)
  with Cons assms [of a] show ?case by auto
qed simp

lemma split_at_coarser:
  assumes "\<And>c. P c \<Longrightarrow> Q c" "x \<in> set (split_at P s)"
  shows "set (split_at Q x) \<subseteq> set (split_at Q s)"
proof -
  have e: "set xs = insert (hd xs) (set (tl xs))" if "xs \<noteq> []" for xs :: "cstring list"
    using that by (cases xs) auto
  have aux: "hd (split_at Q (hd (split_at P s))) = hd (split_at Q s)"
    "set (tl (split_at Q (hd (split_at P s)))) \<subseteq> set (tl (split_at Q s))"
    "\<And>x. x \<in> set (tl (split_at P s)) \<Longrightarrow> set (split_at Q x) \<subseteq> set (tl (split_at Q s))"
    using split_at_coarser_aux [of P Q s, OF assms(1)] by auto
  have "x = hd (split_at P s) \<or> x \<in> set (tl (split_at P s))"
    using assms(2) e [of "split_at P s"] by auto
  then show ?thesis
    using aux e [of "split_at Q s"] e [of "split_at Q (hd (split_at P s))"] by fastforce
qed

text \<open>What the code tests of a segment, without indices.\<close>

lemma reserved_base_len_from:
  "k \<le> length seg \<Longrightarrow>
   reserved_base_len seg k = k + length (takeWhile (\<lambda>c. c \<noteq> 0x2E) (drop k seg))"
proof (induction seg k rule: reserved_base_len.induct)
  case (1 seg k)
  show ?case
  proof (cases "k < length seg")
    case True
    then have "drop k seg = seg ! k # drop (Suc k) seg" by (simp add: Cons_nth_drop_Suc)
    with True 1 show ?thesis by (subst reserved_base_len.simps) auto
  qed (use 1 in \<open>simp add: reserved_base_len.simps\<close>)
qed

definition base_name :: "cstring \<Rightarrow> cstring" where
  "base_name seg = takeWhile (\<lambda>c. c \<noteq> 0x2E) seg"

lemma is_reserved_iff:
  "is_reserved_device_name seg \<longleftrightarrow> map upper (base_name seg) \<in> set win_reserved_names"
proof -
  have n: "reserved_base_len seg 0 = length (base_name seg)"
    using reserved_base_len_from [of 0 seg] by (simp add: base_name_def)
  have j: "j < length (base_name seg) \<Longrightarrow> seg ! j = base_name seg ! j" for j
    unfolding base_name_def by (rule takeWhile_nth [symmetric])
  have eq: "(length name = length (base_name seg) \<and>
      list_all (\<lambda>j. upper (seg ! j) = name ! j) [0..<length (base_name seg)])
      \<longleftrightarrow> name = map upper (base_name seg)" for name
    unfolding list_all_iff using j by (auto intro!: nth_equalityI)
  show ?thesis
    by (simp only: is_reserved_device_name_def n list_ex_iff Let_def eq bex_triv_one_point1)
qed

definition dots_or_spaces :: "u8 \<Rightarrow> bool" where
  "dots_or_spaces c \<longleftrightarrow> c = 0x2E \<or> c = 0x20"

definition safe_segment :: "cstring \<Rightarrow> bool" where
  "safe_segment seg \<longleftrightarrow> seg \<noteq> [] \<and> (\<forall>c \<in> set seg. 0x20 \<le> c \<and> c \<noteq> 0x7F \<and> c \<noteq> 0x3A)
     \<and> \<not> dots_or_spaces (last seg) \<and> map upper (base_name seg) \<notin> set win_reserved_names"

lemma is_unsafe_segment_iff: "is_unsafe_segment seg \<longleftrightarrow> \<not> safe_segment seg"
proof (cases "seg = []")
  case False
  then have l: "seg ! (length seg - 1) = last seg" by (simp add: last_conv_nth)
  have one: "last seg = 0x2E" if "length seg = 1 \<and> seg ! 0 = 0x2E"
    using l that by simp
  have two: "last seg = 0x2E" if "length seg = 2 \<and> seg ! 0 = 0x2E \<and> seg ! 1 = 0x2E"
    using l that by simp
  have chars: "list_ex (\<lambda>c. c < 0x20 \<or> c = 0x7F \<or> c = 0x3A) seg
      \<longleftrightarrow> \<not> (\<forall>c \<in> set seg. 0x20 \<le> c \<and> c \<noteq> 0x7F \<and> c \<noteq> 0x3A)"
    by (simp only: list_ex_iff not_less [symmetric]) blast
  have ne: "length seg \<noteq> 0" using False by simp
  show ?thesis
    unfolding is_unsafe_segment_def safe_segment_def is_reserved_iff dots_or_spaces_def chars l
    using one two ne False by argo
qed (simp add: is_unsafe_segment_def safe_segment_def)

section \<open>The validator\<close>

definition safe_name :: "cstring \<Rightarrow> bool" where
  "safe_name s \<longleftrightarrow> (\<forall>x \<in> set (segments s). safe_segment x)"

lemma load_nul: "p \<le> length s \<Longrightarrow> mem_load (s @ [0]) p = Ok (if p < length s then s ! p else 0)"
  by (simp add: mem_load_def nth_append)

lemma c_string_nth: "c_string s \<Longrightarrow> p < length s \<Longrightarrow> s ! p \<noteq> 0"
  by (metis c_string_def nth_mem)

lemma unsafe_loop_eq:
  assumes "c_string path" "seg \<le> p" "p \<le> length path"
    and "\<forall>c \<in> set (take (p - seg) (drop seg path)). \<not> is_sep c"
  shows "unsafe_loop path seg p = Ok (\<exists>x \<in> set (segments (drop seg path)). \<not> safe_segment x)"
  using assms
proof (induction path seg p rule: unsafe_loop.induct)
  case (1 path seg p)
  show ?case
  proof (cases "p < length path")
    case False
    then have "drop seg path = take (p - seg) (drop seg path)" using "1.prems" by simp
    then have "segments (drop seg path) = [take (p - seg) (drop seg path)]"
      using "1.prems"(4) split_at_whole [of "take (p - seg) (drop seg path)" is_sep]
      by (simp add: segments_def)
    with False "1.prems" show ?thesis
      by (subst unsafe_loop.simps) (simp add: load_nul is_unsafe_segment_iff)
  next
    case True
    let ?a = "take (p - seg) (drop seg path)"
    have d: "drop seg path = ?a @ path ! p # drop (Suc p) path"
      using True "1.prems"(2) id_take_nth_drop [of "p - seg" "drop seg path"] by simp
    have nz: "path ! p \<noteq> 0" using "1.prems"(1) True by (rule c_string_nth)
    show ?thesis
    proof (cases "is_sep (path ! p)")
      case sep: True
      have "unsafe_loop path (p + 1) (p + 1)
          = Ok (\<exists>x \<in> set (segments (drop (p + 1) path)). \<not> safe_segment x)"
        if "\<not> is_unsafe_segment ?a"
        using that sep nz True "1.prems" by (intro "1.IH"(1)) (simp_all add: load_nul)
      moreover have "segments (drop seg path) = ?a # segments (drop (Suc p) path)"
        unfolding segments_def by (subst d) (rule split_at_piece [OF "1.prems"(4) sep])
      ultimately show ?thesis
        using True nz sep "1.prems" by (subst unsafe_loop.simps) (auto simp: load_nul is_unsafe_segment_iff)
    next
      case nsep: False
      have "take (p + 1 - seg) (drop seg path) = ?a @ [path ! p]"
        using True "1.prems"(2) take_Suc_conv_app_nth [of "p - seg" "drop seg path"]
        by (simp add: Suc_diff_le)
      then have "unsafe_loop path seg (p + 1)
          = Ok (\<exists>x \<in> set (segments (drop seg path)). \<not> safe_segment x)"
        using nsep nz True "1.prems" by (intro "1.IH"(2)) (auto simp: load_nul)
      then show ?thesis
        using True nz nsep "1.prems" by (subst unsafe_loop.simps) (simp add: load_nul)
    qed
  qed
qed

lemma not_safe_Nil: "\<not> safe_segment []"
  by (simp add: safe_segment_def)

lemma unsafe_entry_name_iff:
  assumes "c_string s"
  shows "pakka_unsafe_entry_name (Some s) = Ok (\<not> safe_name s)"
proof (cases s)
  case Nil
  then show ?thesis
    by (simp add: pakka_unsafe_entry_name_def mem_load_def safe_name_def segments_def not_safe_Nil)
next
  case (Cons c r)
  with assms have "c \<noteq> 0" by (auto simp: c_string_def)
  with Cons unsafe_loop_eq [OF assms, of 0 0] show ?thesis
    by (auto simp: pakka_unsafe_entry_name_def mem_load_def safe_name_def segments_def not_safe_Nil)
qed

text \<open>The validator accepts a name exactly when every segment of it is safe: not empty, no
  control byte, DEL or colon, no dot or space at its end, not a device name whatever the case and
  the extension.\<close>

theorem unsafe_entry_name_spec:
  assumes "c_string s"
  shows "pakka_unsafe_entry_name (Some s) =
    Ok (\<exists>x \<in> set (segments s). x = [] \<or> (\<exists>c \<in> set x. c < 0x20 \<or> c = 0x7F \<or> c = 0x3A)
      \<or> last x = 0x2E \<or> last x = 0x20 \<or> map upper (base_name x) \<in> set win_reserved_names)"
  unfolding unsafe_entry_name_iff [OF assms]
  by (auto simp: safe_name_def safe_segment_def dots_or_spaces_def not_less [symmetric])

lemma unsafe_entry_name_spec_witness:
  "pakka_unsafe_entry_name (Some (ascii ''a/../b'')) = Ok True
    \<and> pakka_unsafe_entry_name (Some (ascii ''maps/e1m1.bsp'')) = Ok False"
  using unsafe_entry_name_spec [of "ascii ''a/../b''"] unsafe_entry_name_spec [of "ascii ''maps/e1m1.bsp''"]
  by (simp_all add: c_string_def ascii_def segments_def is_sep_def base_name_def upper_def win_reserved_names_def)

text \<open>How a host resolves the segments of a path from a directory.\<close>

fun resolve :: "cstring list \<Rightarrow> cstring list \<Rightarrow> cstring list option" where
  "resolve dir [] = Some dir"
| "resolve dir (x # xs) =
     (if x = [] \<or> x = [0x2E] then resolve dir xs
      else if x = [0x2E, 0x2E] then (if dir = [] then None else resolve (butlast dir) xs)
      else resolve (dir @ [x]) xs)"

lemma resolve_plain:
  "\<forall>x \<in> set xs. x \<noteq> [] \<and> x \<noteq> [0x2E] \<and> x \<noteq> [0x2E, 0x2E] \<Longrightarrow> resolve dir xs = Some (dir @ xs)"
  by (induction xs arbitrary: dir) auto

lemma safe_segment_plain:
  "safe_segment x \<Longrightarrow> x \<noteq> [] \<and> x \<noteq> [0x2E] \<and> x \<noteq> [0x2E, 0x2E]"
  by (auto simp: safe_segment_def dots_or_spaces_def)

lemma safe_name_split_plain:
  assumes "safe_name s" "\<And>c. P c \<Longrightarrow> is_sep c" "x \<in> set (split_at P s)"
  shows "x \<noteq> [] \<and> x \<noteq> [0x2E] \<and> x \<noteq> [0x2E, 0x2E]"
proof -
  have "set (split_at is_sep x) \<subseteq> set (segments s)"
    using split_at_coarser [of P is_sep, OF assms(2) assms(3)] by (simp add: segments_def)
  moreover have "split_at is_sep x = [x]" if "x = [] \<or> x = [0x2E] \<or> x = [0x2E, 0x2E]"
    using that by (auto simp: is_sep_def)
  ultimately show ?thesis
    using assms(1) safe_segment_plain [of x] by (auto simp: safe_name_def)
qed



section \<open>The normal form\<close>

definition rstrip :: "cstring \<Rightarrow> cstring" where
  "rstrip x = rev (dropWhile dots_or_spaces (rev x))"

definition norm_name :: "cstring \<Rightarrow> cstring" where
  "norm_name s = join_segments (map (\<lambda>x. rstrip (map lower x)) (segments s))"

lemma rstrip_Nil [simp]: "rstrip [] = []"
  by (simp add: rstrip_def)

lemma rstrip_snoc: "rstrip (x @ [c]) = (if dots_or_spaces c then rstrip x else x @ [c])"
  by (simp add: rstrip_def)

lemma rstrip_id: "x = [] \<or> \<not> dots_or_spaces (last x) \<Longrightarrow> rstrip x = x"
  by (cases x rule: rev_cases) (auto simp: rstrip_snoc)

lemma rstrip_length: "length (rstrip x) \<le> length x"
  using length_dropWhile_le [of dots_or_spaces "rev x"] by (simp add: rstrip_def)

lemma rstrip_prefix: "rstrip x = take (length (rstrip x)) x"
  by (induction x rule: rev_induct) (use rstrip_length in \<open>auto simp: rstrip_snoc\<close>)

lemma rstrip_idem [simp]: "rstrip (rstrip x) = rstrip x"
  by (induction x rule: rev_induct) (auto simp: rstrip_snoc)

lemma lower_dots: "dots_or_spaces (lower c) \<longleftrightarrow> dots_or_spaces c"
  by (auto simp: dots_or_spaces_def lower_def word_le_nat_alt word_unat_eq_iff unat_arith_simps
      split: if_splits)

text \<open>The same with the finished segments and the current one kept apart, as the loop has them.\<close>

fun norm_acc :: "cstring \<Rightarrow> cstring \<Rightarrow> cstring \<Rightarrow> cstring" where
  "norm_acc fin seg [] = fin @ rstrip seg"
| "norm_acc fin seg (c # r) =
     (if is_sep c then norm_acc (fin @ rstrip seg @ [0x2F]) [] r
      else norm_acc fin (seg @ [lower c]) r)"

lemma join_segments_Cons: "xs \<noteq> [] \<Longrightarrow> join_segments (x # xs) = x @ 0x2F # join_segments xs"
  by (cases xs) auto

lemma norm_acc_join:
  "norm_acc fin seg r = fin @ join_segments (rstrip (seg @ map lower (hd (segments r)))
     # map (\<lambda>x. rstrip (map lower x)) (tl (segments r)))"
proof (induction fin seg r rule: norm_acc.induct)
  case (2 fin seg c r)
  have "join_segments (rstrip seg # map (\<lambda>x. rstrip (map lower x)) (segments r))
    = rstrip seg @ 0x2F # join_segments (map (\<lambda>x. rstrip (map lower x)) (segments r))"
    by (rule join_segments_Cons) (simp add: segments_def)
  moreover have "map f (segments r) = f (hd (segments r)) # map f (tl (segments r))"
    for f :: "cstring \<Rightarrow> cstring"
    by (simp add: segments_def flip: list.map)
  ultimately show ?case
    using 2 by (auto simp: segments_def)
qed (simp add: segments_def)

lemma norm_acc_norm_name: "norm_acc [] [] s = norm_name s"
proof -
  have "map f (segments s) = f (hd (segments s)) # map f (tl (segments s))"
    for f :: "cstring \<Rightarrow> cstring"
    by (simp add: segments_def flip: list.map)
  then show ?thesis by (simp add: norm_acc_join norm_name_def)
qed

lemma norm_strip_eq:
  assumes "take (length fin + length seg) dst = fin @ seg" "length fin + length seg \<le> length dst"
  shows "norm_strip dst (length fin) (length fin + length seg) = Ok (length fin + length (rstrip seg))"
  using assms
proof (induction seg rule: rev_induct)
  case Nil
  then show ?case by (cases "length fin") auto
next
  case (snoc c seg)
  have "dst ! (length fin + length seg) = take (length fin + length (seg @ [c])) dst ! (length fin + length seg)"
    by simp
  also have "\<dots> = c" unfolding snoc.prems(1) by (simp add: nth_append)
  finally have c: "dst ! (length fin + length seg) = c" .
  have "take (length fin + length seg) (take (length fin + length (seg @ [c])) dst) = fin @ seg"
    unfolding snoc.prems(1) by simp
  then have t: "take (length fin + length seg) dst = fin @ seg" by (simp add: min_def)
  have "norm_strip dst (length fin) (length fin + length (seg @ [c]))
    = (if dots_or_spaces c then norm_strip dst (length fin) (length fin + length seg)
       else Ok (Suc (length fin + length seg)))"
    using snoc.prems(2) c by (simp add: mem_load_def dots_or_spaces_def)
  then show ?case
    using snoc.IH [OF t] snoc.prems(2) by (simp add: rstrip_snoc)
qed

lemma norm_loop_eq:
  assumes "take out dst = fin @ seg" "out = length fin + length seg" "out < dstsz" "dstsz \<le> length dst"
    and "inp \<le> length src" "out \<le> inp" "c_string src"
    and "seg = [] \<or> 0 < inp \<and> last seg = lower (src ! (inp - 1))"
  shows "\<exists>dst' out'. norm_loop src dst dstsz inp out (length fin) = Ok (dst', out')
    \<and> length dst' = length dst \<and> out' < dstsz
    \<and> (length src < dstsz \<and> (length src + 1 < dstsz \<or> src = [] \<or> \<not> dots_or_spaces (last src))
        \<longrightarrow> take out' dst' = norm_acc fin seg (drop inp src))"
  using assms
proof (induction "length src - inp" arbitrary: inp out dst fin seg)
  case 0
  then have i: "inp = length src" by simp
  show ?case
  proof (cases "out + 1 < dstsz")
    case True
    have "norm_strip dst (length fin) out = Ok (length fin + length (rstrip seg))"
      using norm_strip_eq [of fin seg dst] 0 by simp
    then have r: "norm_loop src dst dstsz inp out (length fin) = Ok (dst, length fin + length (rstrip seg))"
      using True i by (subst norm_loop.simps) (simp add: mem_load_def nth_append)
    have "take (length fin + length (rstrip seg)) (take out dst) = fin @ rstrip seg"
      unfolding 0(2) using rstrip_prefix [of seg] by simp
    then have "take (length fin + length (rstrip seg)) dst = fin @ rstrip seg"
      using 0 rstrip_length [of seg] by (simp add: min_def)
    with r 0 i rstrip_length [of seg] show ?thesis by simp
  next
    case False
    then have r: "norm_loop src dst dstsz inp out (length fin) = Ok (dst, out)"
      by (subst norm_loop.simps) simp
    have "rstrip seg = seg"
      if "length src < dstsz" "length src + 1 < dstsz \<or> src = [] \<or> \<not> dots_or_spaces (last src)"
    proof (rule rstrip_id)
      have "out = inp" using False that 0 i by simp
      then have "last seg = lower (last src)" if "seg \<noteq> []"
        using that 0 i by (auto simp: last_conv_nth)
      then show "seg = [] \<or> \<not> dots_or_spaces (last seg)"
        using that False 0 i \<open>out = inp\<close> by (auto simp: lower_dots)
    qed
    with r 0 i show ?thesis by simp
  qed
next
  case (Suc n)
  then have i: "inp < length src" by simp
  have nz: "src ! inp \<noteq> 0" using Suc.prems(7) i by (rule c_string_nth)
  have d: "drop inp src = src ! inp # drop (inp + 1) src" using i by (simp add: Cons_nth_drop_Suc)
  have ld: "mem_load (src @ [0]) inp = Ok (src ! inp)" using i by (simp add: mem_load_def nth_append)
  consider (stop) "\<not> out + 1 < dstsz" | (sep) "out + 1 < dstsz" "is_sep (src ! inp)"
    | (char) "out + 1 < dstsz" "\<not> is_sep (src ! inp)"
    by blast
  then show ?case
  proof cases
    case stop
    then have "norm_loop src dst dstsz inp out (length fin) = Ok (dst, out)"
      by (subst norm_loop.simps) simp
    with stop Suc.prems i show ?thesis by auto
  next
    case sep
    let ?o = "length fin + length (rstrip seg)"
    have o: "?o \<le> out" using Suc.prems rstrip_length [of seg] by simp
    have st: "norm_strip dst (length fin) out = Ok ?o"
      using norm_strip_eq [of fin seg dst] Suc.prems by simp
    have "take ?o (take out dst) = fin @ rstrip seg"
      unfolding Suc.prems(1) using rstrip_prefix [of seg] by simp
    then have t: "take ?o dst = fin @ rstrip seg" using o by (simp add: min_def)
    have "norm_loop src dst dstsz inp out (length fin)
      = norm_loop src (dst[?o := 0x2F]) dstsz (inp + 1) (?o + 1) (length (fin @ rstrip seg @ [0x2F]))"
      using sep nz ld st o Suc.prems by (subst norm_loop.simps) (simp add: mem_store_def)
    moreover have "\<exists>dst' out'. norm_loop src (dst[?o := 0x2F]) dstsz (inp + 1) (?o + 1)
        (length (fin @ rstrip seg @ [0x2F])) = Ok (dst', out')
      \<and> length dst' = length (dst[?o := 0x2F]) \<and> out' < dstsz
      \<and> (length src < dstsz \<and> (length src + 1 < dstsz \<or> src = [] \<or> \<not> dots_or_spaces (last src))
        \<longrightarrow> take out' dst' = norm_acc (fin @ rstrip seg @ [0x2F]) [] (drop (inp + 1) src))"
      using Suc.hyps(2) Suc.prems sep o i t
      by (intro Suc.hyps(1)) (auto simp: take_Suc_list_update)
    ultimately show ?thesis using d sep by simp
  next
    case char
    have "norm_loop src dst dstsz inp out (length fin)
      = norm_loop src (dst[out := lower (src ! inp)]) dstsz (inp + 1) (out + 1) (length fin)"
      using char nz ld Suc.prems by (subst norm_loop.simps) (simp add: mem_store_def)
    moreover have "\<exists>dst' out'. norm_loop src (dst[out := lower (src ! inp)]) dstsz (inp + 1) (out + 1)
        (length fin) = Ok (dst', out')
      \<and> length dst' = length (dst[out := lower (src ! inp)]) \<and> out' < dstsz
      \<and> (length src < dstsz \<and> (length src + 1 < dstsz \<or> src = [] \<or> \<not> dots_or_spaces (last src))
        \<longrightarrow> take out' dst' = norm_acc fin (seg @ [lower (src ! inp)]) (drop (inp + 1) src))"
      using Suc.hyps(2) Suc.prems char i
      by (intro Suc.hyps(1)) (auto simp: take_Suc_list_update)
    ultimately show ?thesis using d char by simp
  qed
qed

lemma lower_cases: "lower c = c \<or> unat c \<ge> 65 \<and> unat c \<le> 90 \<and> unat (lower c) = unat c + 32"
  by (auto simp: lower_def word_le_nat_alt unat_arith_simps split: if_splits)

lemma lower_eq: "unat (lower c) = (if 65 \<le> unat c \<and> unat c \<le> 90 then unat c + 32 else unat c)"
  by (auto simp: lower_def word_le_nat_alt unat_arith_simps split: if_splits)

lemma upper_eq: "unat (upper c) = (if 97 \<le> unat c \<and> unat c \<le> 122 then unat c - 32 else unat c)"
  by (auto simp: upper_def word_le_nat_alt unat_arith_simps split: if_splits)

lemmas u8_arith = word_unat_eq_iff [where 'a = 8] word_less_nat_alt [where 'a = 8]
  word_le_nat_alt [where 'a = 8] lower_eq upper_eq

lemma lower_simps [simp]:
  "lower (lower c) = lower c" "upper (lower c) = upper c" "is_sep (lower c) \<longleftrightarrow> is_sep c"
  "lower c = 0 \<longleftrightarrow> c = 0" "lower c = 0x2E \<longleftrightarrow> c = 0x2E" "lower c = 0x20 \<longleftrightarrow> c = 0x20"
  "lower c = 0x7F \<longleftrightarrow> c = 0x7F" "lower c = 0x3A \<longleftrightarrow> c = 0x3A" "0x20 \<le> lower c \<longleftrightarrow> 0x20 \<le> c"
  by (auto simp: u8_arith is_sep_def)

lemma rstrip_subset: "set (rstrip x) \<subseteq> set x"
  by (subst rstrip_prefix) (rule set_take_subset)

lemma rstrip_lower: "rstrip (map lower x) = map lower (rstrip x)"
  by (induction x rule: rev_induct) (auto simp: rstrip_snoc lower_dots)

lemma set_join_segments: "set (join_segments xs) \<subseteq> insert 0x2F (\<Union>x \<in> set xs. set x)"
  by (induction xs rule: join_segments.induct) auto

lemma norm_name_c_string: "c_string s \<Longrightarrow> c_string (norm_name s)"
proof -
  assume s: "c_string s"
  have "0 \<notin> set (rstrip (map lower x))" if "x \<in> set (segments s)" for x
    using that s split_at_subset [of is_sep s] rstrip_subset [of "map lower x"]
    by (fastforce simp: c_string_def segments_def)
  then show ?thesis
    using set_join_segments [of "map (\<lambda>x. rstrip (map lower x)) (segments s)"]
    unfolding c_string_def norm_name_def by auto
qed

lemma segments_join:
  "xs \<noteq> [] \<Longrightarrow> \<forall>x \<in> set xs. \<forall>c \<in> set x. \<not> is_sep c \<Longrightarrow> segments (join_segments xs) = xs"
proof (induction xs rule: join_segments.induct)
  case (2 x)
  then show ?case by (simp add: segments_def split_at_whole)
next
  case (3 x y zs)
  have "split_at is_sep (x @ 0x2F # join_segments (y # zs)) = x # split_at is_sep (join_segments (y # zs))"
    by (rule split_at_piece) (use 3 in \<open>simp_all add: is_sep_def\<close>)
  with 3 show ?case by (simp add: segments_def)
qed simp

lemma segments_norm_name: "segments (norm_name s) = map (\<lambda>x. rstrip (map lower x)) (segments s)"
  unfolding norm_name_def
proof (rule segments_join)
  show "map (\<lambda>x. rstrip (map lower x)) (segments s) \<noteq> []" by (simp add: segments_def)
  have "\<not> is_sep c" if "x \<in> set (segments s)" "c \<in> set (rstrip (map lower x))" for x c
    using that split_at_clean [of is_sep s] rstrip_subset [of "map lower x"]
    by (fastforce simp: segments_def)
  then show "\<forall>x \<in> set (map (\<lambda>x. rstrip (map lower x)) (segments s)). \<forall>c \<in> set x. \<not> is_sep c"
    by auto
qed

text \<open>The normal form never leaves its destination, whatever size is passed, and with a byte to
  spare beyond the NUL, or a name whose last byte is neither a dot nor a space, it is the segment-wise
  one: letters folded, backslashes turned, dots and spaces stripped from the end of every segment.\<close>

theorem normalize_entry_name_spec:
  assumes "c_string src" "0 < dstsz" "dstsz \<le> length dst"
  shows "\<exists>dst'. pakka_normalize_entry_name src dst dstsz = Ok dst' \<and> length dst' = length dst
    \<and> (length src + 1 < dstsz \<or> length src + 1 = dstsz \<and> (src = [] \<or> \<not> dots_or_spaces (last src))
        \<longrightarrow> cstr dst' = join_segments (map (\<lambda>x. rstrip (map lower x)) (segments src)))"
proof -
  obtain d out where r: "norm_loop src dst dstsz 0 0 0 = Ok (d, out)" "length d = length dst" "out < dstsz"
    and n: "length src < dstsz \<and> (length src + 1 < dstsz \<or> src = [] \<or> \<not> dots_or_spaces (last src))
      \<longrightarrow> take out d = norm_name src"
    using norm_loop_eq [of 0 dst "[]" "[]" dstsz 0 src] assms
    by (auto simp: norm_acc_norm_name)
  have "pakka_normalize_entry_name src dst dstsz = Ok (d[out := 0])"
    using r assms by (simp add: pakka_normalize_entry_name_def mem_store_def)
  moreover have "cstr (d[out := 0]) = norm_name src" if "take out d = norm_name src"
    using that r assms norm_name_c_string [OF assms(1)] cstr_append_nul [of "take out d" "drop (Suc out) d"]
    by (simp add: upd_conv_take_nth_drop)
  ultimately show ?thesis using r n by (auto simp: norm_name_def)
qed

lemma normalize_entry_name_spec_witness:
  "\<exists>dst'. pakka_normalize_entry_name (ascii ''Maps/E1.'') (replicate 10 7) 10 = Ok dst' \<and> length dst' = 10
    \<and> cstr dst' = ascii ''maps/e1''"
  using normalize_entry_name_spec [of "ascii ''Maps/E1.''" 10 "replicate 10 7"]
  by (simp add: c_string_def ascii_def segments_def is_sep_def lower_def rstrip_def dots_or_spaces_def)

text \<open>With just the string and its NUL of room the trailing dot of the last segment survives, so
  that the two names of a colliding pair keep different normal forms.\<close>

lemma normalize_exact_room_keeps_dot:
  "pakka_normalize_entry_name (ascii ''foo.'') (replicate 5 0) 5 = Ok (ascii ''foo.'' @ [0])"
  "pakka_normalize_entry_name (ascii ''foo.'') (replicate 6 0) 6 = Ok (ascii ''foo'' @ [0, 0, 0])"
  by code_simp+

lemma safe_name_last:
  assumes "safe_name s"
  shows "s = [] \<or> \<not> dots_or_spaces (last s)"
proof -
  have "last (segments s) \<in> set (segments s)" by (simp add: segments_def)
  then have safe: "safe_segment (last (segments s))" using assms by (simp add: safe_name_def)
  have "s \<noteq> [] \<longrightarrow> last (segments s) = [] \<or> last (last (segments s)) = last s"
  proof (induction s)
    case (Cons c s)
    show ?case
    proof (cases s)
      case (Cons d r)
      with Cons.IH show ?thesis
        by (cases "split_at is_sep s") (auto simp: segments_def split: if_splits)
    qed (simp add: segments_def)
  qed simp
  with safe show ?thesis by (auto simp: safe_segment_def)
qed

lemma safe_segment_rstrip: "safe_segment x \<Longrightarrow> rstrip (map lower x) = map lower x"
  by (simp add: rstrip_lower rstrip_id safe_segment_def)

lemma base_name_lower: "base_name (map lower x) = map lower (base_name x)"
  by (simp add: base_name_def takeWhile_map o_def)

lemma safe_segment_lower: "safe_segment (map lower x) \<longleftrightarrow> safe_segment x"
  by (auto simp: safe_segment_def last_map lower_dots base_name_lower o_def)

text \<open>For accepted names a destination of the length plus one is enough, and the normal forms
  agree exactly when the names agree segment by segment up to the case of letters.\<close>

theorem normalize_collision_iff:
  assumes "c_string a" "c_string b" "length da = length a + 1" "length db = length b + 1"
    and "pakka_unsafe_entry_name (Some a) = Ok False" "pakka_unsafe_entry_name (Some b) = Ok False"
    and "pakka_normalize_entry_name a da (length a + 1) = Ok na"
    and "pakka_normalize_entry_name b db (length b + 1) = Ok nb"
  shows "cstr na = cstr nb \<longleftrightarrow> map (map lower) (segments a) = map (map lower) (segments b)"
proof -
  have safe: "safe_name a" "safe_name b"
    using assms(5,6) unsafe_entry_name_iff [OF assms(1)] unsafe_entry_name_iff [OF assms(2)] by auto
  have n: "cstr n = norm_name s"
    if H: "c_string s" "safe_name s" "length d = length s + 1"
      "pakka_normalize_entry_name s d (length s + 1) = Ok n" for s d n
  proof -
    obtain d' out where r: "norm_loop s d (length s + 1) 0 0 0 = Ok (d', out)"
      "length d' = length d" "out < length s + 1" and t: "take out d' = norm_name s"
      using norm_loop_eq [of 0 d "[]" "[]" "length s + 1" 0 s] H safe_name_last [OF H(2)]
      by (auto simp: norm_acc_norm_name)
    then have "n = d'[out := 0]"
      using H by (simp add: pakka_normalize_entry_name_def mem_store_def)
    with t r H norm_name_c_string [OF H(1)] cstr_append_nul [of "take out d'" "drop (Suc out) d'"]
    show ?thesis by (simp add: upd_conv_take_nth_drop)
  qed
  have e: "segments (norm_name s) = map (map lower) (segments s)" if "safe_name s" for s
    using that unfolding segments_norm_name safe_name_def by (auto simp: safe_segment_rstrip)
  have "norm_name a = norm_name b \<longleftrightarrow> segments (norm_name a) = segments (norm_name b)"
    using segments_norm_name [of a] segments_norm_name [of b] norm_name_def by metis
  then show ?thesis
    using n [OF assms(1) safe(1) assms(3,7)] n [OF assms(2) safe(2) assms(4,8)]
      e [OF safe(1)] e [OF safe(2)] by simp
qed

lemma normalize_collision_iff_witness:
  "map (map lower) (segments (ascii ''Foo'')) = map (map lower) (segments (ascii ''foo''))"
proof (rule normalize_collision_iff [THEN iffD1])
  show "pakka_unsafe_entry_name (Some (ascii ''Foo'')) = Ok False"
    "pakka_unsafe_entry_name (Some (ascii ''foo'')) = Ok False"
    "pakka_normalize_entry_name (ascii ''Foo'') (replicate 4 0) (length (ascii ''Foo'') + 1) = Ok (ascii ''foo'' @ [0])"
    "pakka_normalize_entry_name (ascii ''foo'') (replicate 4 0) (length (ascii ''foo'') + 1) = Ok (ascii ''foo'' @ [0])"
    by code_simp+
qed (simp_all add: c_string_def ascii_def)

lemma norm_name_safe: "safe_name s \<Longrightarrow> safe_name (norm_name s)"
  unfolding safe_name_def segments_norm_name
  by (auto simp: safe_segment_rstrip safe_segment_lower)

end
