(* ===== verification/Pak_Types.thy ===== *)
theory Pak_Types
  imports Stdio Entry_Names
begin

text \<open>
  The data of \<^verbatim>\<open>src/include/pakka.h\<close> and \<^verbatim>\<open>src/common.h\<close>: formats, directory entries, the archive
  handle, the geometry of the PAK-class formats, and the accessors of \<^verbatim>\<open>src/pakfile.c\<close>.

  The entry list \<open>head\<close>/\<open>tail\<close>/\<open>next\<close> is a HOL list in directory order. A pointer that may be NULL
  is an option; the one-byte sentinel that marks a staged empty payload is \<open>Some []\<close>.
\<close>

section \<open>Formats\<close>

datatype pakka_format =
    PAKKA_FORMAT_AUTO
  | PAKKA_FORMAT_PAK
  | PAKKA_FORMAT_PK3
  | PAKKA_FORMAT_PK4
  | PAKKA_FORMAT_SIN
  | PAKKA_FORMAT_DAIKATANA
  | PAKKA_FORMAT_IWAD
  | PAKKA_FORMAT_PWAD

datatype open_mode = PAKKA_OPEN_READ | PAKKA_OPEN_READ_WRITE | PAKKA_OPEN_READ_WRITE_ATOMIC

definition pakka_format_is_zip :: "pakka_format \<Rightarrow> bool" where
  "pakka_format_is_zip f \<longleftrightarrow> f = PAKKA_FORMAT_PK3 \<or> f = PAKKA_FORMAT_PK4"

definition pakka_format_is_wad :: "pakka_format \<Rightarrow> bool" where
  "pakka_format_is_wad f \<longleftrightarrow> f = PAKKA_FORMAT_IWAD \<or> f = PAKKA_FORMAT_PWAD"

definition PAKFILE_HEADER_SIZE :: nat where "PAKFILE_HEADER_SIZE = 12"
definition PAKFILE_SIGNATURE_LEN :: nat where "PAKFILE_SIGNATURE_LEN = 4"
definition PAKFILE_MAX_ENTRIES :: nat where "PAKFILE_MAX_ENTRIES = 1048576"
definition PAKFILE_COPY_CHUNK :: nat where "PAKFILE_COPY_CHUNK = 65536"
definition PAKKA_ENTRY_NAME_SIZE :: nat where "PAKKA_ENTRY_NAME_SIZE = 256"
definition OS_PATH_MAX :: nat where "OS_PATH_MAX = 4096"
definition PK3_METHOD_STORED :: u16 where "PK3_METHOD_STORED = 0"
definition PK3_METHOD_DEFLATE :: u16 where "PK3_METHOD_DEFLATE = 8"
definition PK3_DEFAULT_MAX_DECOMPRESSED :: u64 where
  "PK3_DEFAULT_MAX_DECOMPRESSED = 64 * 1024 * 1024"
definition UINT32_MAX :: nat where "UINT32_MAX = 2 ^ 32 - 1"

section \<open>Geometry of the PAK-class formats\<close>

record pak_geometry =
  g_signature :: "u8 list"
  name_field_len :: nat
  dir_entry_size :: nat
  has_compression :: bool

fun pakka_pak_geometry :: "pakka_format \<Rightarrow> pak_geometry option" where
  "pakka_pak_geometry PAKKA_FORMAT_PAK = Some \<lparr>g_signature = ascii ''PACK'', name_field_len = 56,
     dir_entry_size = 64, has_compression = False\<rparr>"
| "pakka_pak_geometry PAKKA_FORMAT_SIN = Some \<lparr>g_signature = ascii ''SPAK'', name_field_len = 120,
     dir_entry_size = 128, has_compression = False\<rparr>"
| "pakka_pak_geometry PAKKA_FORMAT_DAIKATANA = Some \<lparr>g_signature = ascii ''PACK'', name_field_len = 56,
     dir_entry_size = 72, has_compression = True\<rparr>"
| "pakka_pak_geometry PAKKA_FORMAT_IWAD = Some \<lparr>g_signature = ascii ''IWAD'', name_field_len = 8,
     dir_entry_size = 16, has_compression = False\<rparr>"
| "pakka_pak_geometry PAKKA_FORMAT_PWAD = Some \<lparr>g_signature = ascii ''PWAD'', name_field_len = 8,
     dir_entry_size = 16, has_compression = False\<rparr>"
| "pakka_pak_geometry _ = None"

section \<open>Entries and archives\<close>

record pentry =
  filename :: cstring
  offset :: u32
  entry_length :: u32
  pk3_compressed_size :: u32
  pk3_payload_offset :: u32
  pk3_lfh_offset :: u32
  pk3_method :: u16
  crc32 :: u32
  dk_compressed_size :: u32
  dk_is_compressed :: bool
  pending_source :: "path option"
  pending_data :: "u8 list option"

text \<open>\<open>calloc\<close> leaves every field zero.\<close>

definition calloc_entry :: pentry where
  "calloc_entry = \<lparr>filename = [], offset = 0, entry_length = 0, pk3_compressed_size = 0,
     pk3_payload_offset = 0, pk3_lfh_offset = 0, pk3_method = 0, crc32 = 0, dk_compressed_size = 0,
     dk_is_compressed = False, pending_source = None, pending_data = None\<rparr>"

record archive =
  format :: pakka_format
  signature :: "u8 list"
  diroffset :: u32
  dirlength :: u32
  num_entries :: u32
  file_size :: u64
  entries :: "pentry list"
  payload_end :: u64
  fp :: "cfile option"
  cur_pakpath :: path
  new_pakpath :: path
  tmp_pakpath :: path
  is_new :: bool
  writable :: bool
  dirty :: bool
  needs_rebuild :: bool
  atomic_commit :: bool
  format_hint :: pakka_format
  pk3_cdr_offset :: u32
  pk3_compression :: u16
  max_decompressed :: u64

definition calloc_archive :: archive where
  "calloc_archive = \<lparr>format = PAKKA_FORMAT_AUTO, signature = [0, 0, 0, 0], diroffset = 0,
     dirlength = 0, num_entries = 0, file_size = 0, entries = [], payload_end = 0, fp = None,
     cur_pakpath = [], new_pakpath = [], tmp_pakpath = [], is_new = False, writable = False,
     dirty = False, needs_rebuild = False, atomic_commit = False, format_hint = PAKKA_FORMAT_AUTO,
     pk3_cdr_offset = 0, pk3_compression = 0, max_decompressed = 0\<rparr>"

text \<open>The bytes an entry occupies in the file.\<close>

definition pak_entry_on_disk_extent :: "pentry \<Rightarrow> u32" where
  "pak_entry_on_disk_extent e = (if dk_is_compressed e then dk_compressed_size e else entry_length e)"

definition is_staged :: "pentry \<Rightarrow> bool" where
  "is_staged e \<longleftrightarrow> pending_source e \<noteq> None \<or> pending_data e \<noteq> None"

definition pakka_zip_format_from_path :: "path option \<Rightarrow> pakka_format" where
  "pakka_zip_format_from_path path =
     (case path of None \<Rightarrow> PAKKA_FORMAT_PK3
      | Some path \<Rightarrow>
          (let n = length path in
           if n \<ge> 4 \<and> path ! (n - 4) = 0x2E
              \<and> (path ! (n - 3) = 0x70 \<or> path ! (n - 3) = 0x50)
              \<and> (path ! (n - 2) = 0x6B \<or> path ! (n - 2) = 0x4B)
              \<and> path ! (n - 1) = 0x34
           then PAKKA_FORMAT_PK4 else PAKKA_FORMAT_PK3))"

section \<open>Accessors\<close>

fun find_entry_from :: "pentry list \<Rightarrow> cstring \<Rightarrow> pentry option" where
  "find_entry_from [] path = None"
| "find_entry_from (current # rest) path =
     (if filename current = path then Some current else find_entry_from rest path)"

definition find_entry :: "archive \<Rightarrow> cstring \<Rightarrow> pentry option" where
  "find_entry pak path = find_entry_from (entries pak) path"

definition pakka_format_of :: "archive option \<Rightarrow> pakka_format" where
  "pakka_format_of archive =
     (case archive of None \<Rightarrow> PAKKA_FORMAT_AUTO | Some a \<Rightarrow> format a)"

definition pakka_entry_count :: "archive option \<Rightarrow> nat" where
  "pakka_entry_count archive =
     (case archive of None \<Rightarrow> 0 | Some a \<Rightarrow> unat (num_entries a))"

definition pakka_entry_at :: "archive option \<Rightarrow> nat \<Rightarrow> status \<times> pentry option" where
  "pakka_entry_at archive index =
     (case archive of None \<Rightarrow> (PAKKA_ERR_INVALID_ARGUMENT, None)
      | Some a \<Rightarrow>
          if index \<ge> unat (num_entries a) then (PAKKA_ERR_NOT_FOUND, None)
          else if index < length (entries a) then (PAKKA_OK, Some (entries a ! index))
          else (PAKKA_ERR_NOT_FOUND, None))"

definition pakka_find_entry :: "archive option \<Rightarrow> cstring option \<Rightarrow> status \<times> pentry option" where
  "pakka_find_entry archive entry_name =
     (case (archive, entry_name) of
        (Some a, Some name) \<Rightarrow>
          (case find_entry_from (entries a) name of
             Some current \<Rightarrow> (PAKKA_OK, Some current)
           | None \<Rightarrow> (PAKKA_ERR_NOT_FOUND, None))
      | _ \<Rightarrow> (PAKKA_ERR_INVALID_ARGUMENT, None))"

definition pakka_entry_first :: "archive option \<Rightarrow> pentry option" where
  "pakka_entry_first archive =
     (case archive of None \<Rightarrow> None
      | Some a \<Rightarrow> (case entries a of [] \<Rightarrow> None | e # _ \<Rightarrow> Some e))"

definition pakka_entry_name :: "pentry option \<Rightarrow> cstring option" where
  "pakka_entry_name entry = map_option filename entry"

definition pakka_entry_size :: "pentry option \<Rightarrow> u64" where
  "pakka_entry_size entry = (case entry of None \<Rightarrow> 0 | Some e \<Rightarrow> ucast (entry_length e))"

definition pakka_entry_offset :: "pentry option \<Rightarrow> u64" where
  "pakka_entry_offset entry = (case entry of None \<Rightarrow> 0 | Some e \<Rightarrow> ucast (offset e))"

definition pakka_entry_compressed_size :: "pentry option \<Rightarrow> u64" where
  "pakka_entry_compressed_size entry =
     (case entry of None \<Rightarrow> 0
      | Some e \<Rightarrow>
          if pk3_method e = PK3_METHOD_DEFLATE then ucast (pk3_compressed_size e)
          else if dk_is_compressed e then ucast (dk_compressed_size e)
          else ucast (entry_length e))"

section \<open>Lemmas\<close>

text \<open>Geometry: every row is wide enough for its fields, and no name field exceeds the buffer.\<close>

lemma geometry_facts:
  assumes "pakka_pak_geometry f = Some g"
  shows "0 < name_field_len g" "name_field_len g < PAKKA_ENTRY_NAME_SIZE" "length (g_signature g) = 4"
    "dir_entry_size g = name_field_len g + 8 + (if has_compression g then 8 else 0)"
    "has_compression g \<longleftrightarrow> f = PAKKA_FORMAT_DAIKATANA" "\<not> pakka_format_is_zip f" "dir_entry_size g \<le> 128"
    "f \<noteq> PAKKA_FORMAT_AUTO"
  using assms
  by (cases f; auto simp: PAKKA_ENTRY_NAME_SIZE_def ascii_def pakka_format_is_zip_def)+

lemma geometry_none_iff: "pakka_pak_geometry f = None \<longleftrightarrow> pakka_format_is_zip f \<or> f = PAKKA_FORMAT_AUTO"
  by (cases f) (auto simp: pakka_format_is_zip_def)

lemma find_entry_from_find: "find_entry_from es n = List.find (\<lambda>e. filename e = n) es"
  by (induction es) auto

lemma find_entry_from_Some:
  "find_entry_from es n = Some e \<longleftrightarrow>
   (\<exists>i < length es. filename (es ! i) = n \<and> e = es ! i \<and> (\<forall>j < i. filename (es ! j) \<noteq> n))"
  unfolding find_entry_from_find by (rule find_Some_iff)

lemma find_entry_from_None: "find_entry_from es n = None \<longleftrightarrow> n \<notin> filename ` set es"
  by (induction es) auto

end
