(* ===== verification/Platform.thy ===== *)
theory Platform
  imports Pak_Types
begin

text \<open>
  The files the library works on and the POSIX half of \<^verbatim>\<open>src/platform.c\<close>.

  A path names a regular file with its bytes, a symbolic link, a directory, another special file, or nothing. What
  the operating system answers besides is a record \<open>env\<close> the calls take: which files may be
  opened and with which limits, which allocation fails, whether a lock, a rename or a removal goes
  through, the name \<^verbatim>\<open>mkstemp\<close> finds, and the fault hooks of the test build. A stream publishes
  what was written through it to its path when it is flushed or closed; if that fails the file holds
  an arbitrary mixture \<open>e_torn\<close> of the old and the new bytes.
\<close>

section \<open>Files\<close>

datatype node = Regular "u8 list" | Symlink | Directory | Special

type_synonym files = "path \<Rightarrow> node option"

definition file_bytes :: "files \<Rightarrow> path \<Rightarrow> u8 list" where
  "file_bytes fs p = (case fs p of Some (Regular b) \<Rightarrow> b | _ \<Rightarrow> [])"

record limits =
  l_room :: nat
  l_readable :: nat
  l_seekable :: bool
  l_close_ok :: bool

text \<open>The allocations of the library calls.\<close>

datatype site =
    A_archive | A_entry | A_reader | A_source_buffer | A_encoded | A_path | A_chunk | A_payload
  | A_staged | A_inflated | A_compressed | A_names | A_row nat | A_copy_chunk nat | A_bookkeeping
  | A_dedup | A_rollback | A_records | A_norm nat | A_cdr | A_codec

datatype fault_hook =
    Fault_dir_header | Fault_commit_rename | Fault_commit_fclose_tmp | Fault_commit_fclose_orig

record env =
  e_oom :: "site \<Rightarrow> bool"
  e_fault :: "fault_hook \<Rightarrow> bool"
  e_stat :: "path \<Rightarrow> bool"
  e_follow :: "path \<Rightarrow> bool"
  e_limits :: "bool \<Rightarrow> path \<Rightarrow> limits option"
  e_other :: "path \<Rightarrow> cfile option"
  e_mkstemp :: "files \<Rightarrow> path \<Rightarrow> path option"
  e_scratch :: "path \<Rightarrow> limits option"
  e_lock :: "path \<Rightarrow> bool"
  e_rename :: "path \<Rightarrow> path \<Rightarrow> bool"
  e_link :: "path \<Rightarrow> path \<Rightarrow> bool"
  e_unlink :: "path \<Rightarrow> bool"
  e_truncate :: "path \<Rightarrow> bool"
  e_torn :: "u8 list \<Rightarrow> u8 list \<Rightarrow> u8 list"

definition stream_of :: "limits \<Rightarrow> u8 list \<Rightarrow> cfile" where
  "stream_of l b = \<lparr>f_data = b, f_pos = 0, f_room = l_room l, f_readable = l_readable l,
     f_seekable = l_seekable l, f_close_ok = l_close_ok l, f_error = False, f_locked = False\<rparr>"

section \<open>The platform calls\<close>

text \<open>\<open>wr\<close> distinguishes the modes \<open>r+b\<close> and \<open>rb\<close>.\<close>

definition pakka_platform_fopen :: "env \<Rightarrow> files \<Rightarrow> path \<Rightarrow> bool \<Rightarrow> cfile option" where
  "pakka_platform_fopen env fs p wr =
     (case fs p of
        None \<Rightarrow> None
      | Some (Regular b) \<Rightarrow> map_option (\<lambda>l. stream_of l b) (e_limits env wr p)
      | Some _ \<Rightarrow> e_other env p)"

definition pakka_platform_lstat :: "env \<Rightarrow> files \<Rightarrow> path \<Rightarrow> node option" where
  "pakka_platform_lstat env fs p = (if e_stat env p then fs p else None)"

text \<open>\<open>stat\<close> follows a symbolic link; the result is whether there is something to be found.\<close>

definition pakka_platform_stat :: "env \<Rightarrow> files \<Rightarrow> path \<Rightarrow> bool" where
  "pakka_platform_stat env fs p \<longleftrightarrow>
     (case pakka_platform_lstat env fs p of
        None \<Rightarrow> False | Some Symlink \<Rightarrow> e_follow env p | Some _ \<Rightarrow> True)"

definition pakka_platform_is_reparse_or_symlink :: "env \<Rightarrow> files \<Rightarrow> path \<Rightarrow> bool" where
  "pakka_platform_is_reparse_or_symlink env fs p \<longleftrightarrow> pakka_platform_lstat env fs p = Some Symlink"

definition pakka_platform_try_exclusive_lock :: "env \<Rightarrow> path \<Rightarrow> cfile \<Rightarrow> cfile option" where
  "pakka_platform_try_exclusive_lock env p f =
     (if e_lock env p then Some (f\<lparr>f_locked := True\<rparr>) else None)"

definition pakka_platform_remove :: "env \<Rightarrow> files \<Rightarrow> path \<Rightarrow> files" where
  "pakka_platform_remove env fs p = (if e_unlink env p then fs(p := None) else fs)"

definition pakka_platform_rename_replace :: "env \<Rightarrow> files \<Rightarrow> path \<Rightarrow> path \<Rightarrow> bool \<times> files" where
  "pakka_platform_rename_replace env fs old new =
     (if fs old = None \<or> \<not> e_rename env old new then (False, fs)
      else if old = new then (True, fs) else (True, fs(new := fs old, old := None)))"

datatype rename_result = Rename_ok | Rename_exists | Rename_failed

definition pakka_platform_rename_noreplace :: "env \<Rightarrow> files \<Rightarrow> path \<Rightarrow> path \<Rightarrow> rename_result \<times> files" where
  "pakka_platform_rename_noreplace env fs old new =
     (if fs new \<noteq> None then (Rename_exists, fs)
      else if fs old = None \<or> \<not> e_link env old new then (Rename_failed, fs)
      else if \<not> e_unlink env old then (Rename_failed, fs(new := fs old))
      else (Rename_ok, fs(new := fs old, old := None)))"

text \<open>\<open>dirname\<close> of the C library: the part before the last component.\<close>

definition rstrip_slashes :: "path \<Rightarrow> path" where
  "rstrip_slashes p = rev (dropWhile (\<lambda>c. c = 0x2F) (rev p))"

definition dirname :: "path \<Rightarrow> path" where
  "dirname p =
     (let q = rstrip_slashes p in
      if q = [] then (if p = [] then [0x2E] else [0x2F])
      else if 0x2F \<notin> set q then [0x2E]
      else (let d = rstrip_slashes (rev (dropWhile (\<lambda>c. c \<noteq> 0x2F) (rev q)))
            in if d = [] then [0x2F] else d))"

text \<open>\<open>mkstemp\<close> followed by \<open>fdopen\<close>; a file whose stream cannot be made is unlinked.\<close>

definition mkstemp_at :: "env \<Rightarrow> files \<Rightarrow> path \<Rightarrow> (path \<times> cfile) option \<times> files" where
  "mkstemp_at env fs template =
     (if OS_PATH_MAX \<le> length template then (None, fs)
      else case e_mkstemp env fs template of
        None \<Rightarrow> (None, fs)
      | Some p \<Rightarrow>
          (case e_scratch env p of
             None \<Rightarrow> (None, pakka_platform_remove env (fs(p := Some (Regular []))) p)
           | Some l \<Rightarrow> (Some (p, stream_of l []), fs(p := Some (Regular [])))))"

definition mkstemp_open_in_dir :: "env \<Rightarrow> files \<Rightarrow> path \<Rightarrow> path \<Rightarrow> (path \<times> cfile) option \<times> files" where
  "mkstemp_open_in_dir env fs target template =
     (if OS_PATH_MAX \<le> length target then (None, fs)
      else mkstemp_at env fs (dirname target @ [0x2F] @ template))"

definition pakka_platform_mkstemp_open ::
  "env \<Rightarrow> files \<Rightarrow> path \<Rightarrow> path \<Rightarrow> (path \<times> cfile) option \<times> files" where
  "pakka_platform_mkstemp_open env fs target template =
     (case mkstemp_open_in_dir env fs target template of
        (Some r, fs1) \<Rightarrow> (Some r, fs1)
      | (None, fs1) \<Rightarrow> mkstemp_at env fs1 (ascii ''/tmp/'' @ template))"

text \<open>\<open>fflush\<close> and \<open>fclose\<close> of a stream open for writing on \<open>p\<close>. Nothing happens to a file whose
  stream has nothing new for it.\<close>

definition publish :: "env \<Rightarrow> files \<Rightarrow> path \<Rightarrow> cfile \<Rightarrow> bool \<times> files" where
  "publish env fs p f =
     (f_close_ok f,
      if fs p = Some (Regular (f_data f)) then fs
      else fs(p := Some (Regular (if f_close_ok f then f_data f
                                  else e_torn env (file_bytes fs p) (f_data f)))))"

text \<open>\<open>fflush\<close> followed by \<open>ftruncate\<close>.\<close>

definition pakka_platform_ftruncate :: "env \<Rightarrow> files \<Rightarrow> path \<Rightarrow> cfile \<Rightarrow> nat \<Rightarrow> bool \<times> cfile \<times> files" where
  "pakka_platform_ftruncate env fs p f n =
     (let (flushed, fs1) = publish env fs p f in
      if \<not> flushed \<or> \<not> e_truncate env p then (False, f, fs1)
      else
        (let d = take n (f_data f) @ replicate (n - length (f_data f)) 0
         in (True, f\<lparr>f_data := d\<rparr>, fs1(p := Some (Regular d)))))"

section \<open>Facts\<close>

text \<open>What \<open>mkstemp\<close> is documented to do: the name it returns did not exist.\<close>

definition mkstemp_fresh :: "env \<Rightarrow> bool" where
  "mkstemp_fresh env \<longleftrightarrow> (\<forall>fs t p. e_mkstemp env fs t = Some p \<longrightarrow> fs p = None)"

lemma stream_of_simps [simp]:
  "f_data (stream_of l b) = b" "f_pos (stream_of l b) = 0" "f_room (stream_of l b) = l_room l"
  "f_readable (stream_of l b) = l_readable l" "f_seekable (stream_of l b) = l_seekable l"
  "f_close_ok (stream_of l b) = l_close_ok l" "f_error (stream_of l b) = False"
  by (simp_all add: stream_of_def)

lemma remove_other [simp]: "q \<noteq> p \<Longrightarrow> pakka_platform_remove env fs p q = fs q"
  by (simp add: pakka_platform_remove_def)

lemma publish_other: "publish env fs p f = (r, fs') \<Longrightarrow> q \<noteq> p \<Longrightarrow> fs' q = fs q"
  by (auto simp: publish_def)

lemma publish_clean: "fs p = Some (Regular (f_data f)) \<Longrightarrow> publish env fs p f = (f_close_ok f, fs)"
  by (simp add: publish_def)

lemma publish_ok: "publish env fs p f = (True, fs') \<Longrightarrow> fs' p = Some (Regular (f_data f))"
  by (auto simp: publish_def split: if_splits)

lemma mkstemp_at_SomeD:
  "mkstemp_at env fs t = (Some (p, f), fs') \<Longrightarrow> mkstemp_fresh env \<Longrightarrow>
   fs p = None \<and> (\<exists>l. f = stream_of l []) \<and> fs' = fs(p := Some (Regular []))"
  by (auto simp: mkstemp_at_def mkstemp_fresh_def split: if_splits option.splits)

lemma mkstemp_at_NoneD:
  "mkstemp_at env fs t = (None, fs') \<Longrightarrow> mkstemp_fresh env \<Longrightarrow> fs q \<noteq> None \<Longrightarrow> fs' q = fs q"
  unfolding mkstemp_fresh_def
  by (cases "e_mkstemp env fs t = Some q")
    (auto simp: mkstemp_at_def pakka_platform_remove_def split: if_splits option.splits)

text \<open>A scratch file is new, empty, and no file that existed before is touched.\<close>

lemma mkstemp_open_SomeD:
  assumes "pakka_platform_mkstemp_open env fs target t = (Some (p, f), fs')" "mkstemp_fresh env"
  shows "fs p = None \<and> (\<exists>l. f = stream_of l []) \<and> fs' p = Some (Regular [])
    \<and> (\<forall>q. fs q \<noteq> None \<longrightarrow> fs' q = fs q)"
proof -
  obtain r fs1 where d: "mkstemp_open_in_dir env fs target t = (r, fs1)" by fastforce
  show ?thesis
  proof (cases r)
    case (Some pf)
    with assms d have "mkstemp_at env fs (dirname target @ [0x2F] @ t) = (Some (p, f), fs')"
      by (auto simp: pakka_platform_mkstemp_open_def mkstemp_open_in_dir_def split: if_splits)
    from mkstemp_at_SomeD [OF this assms(2)] show ?thesis by auto
  next
    case None
    have k: "fs1 q = fs q" if H: "fs q \<noteq> None" for q
      using d None H assms(2)
      by (auto simp: mkstemp_open_in_dir_def split: if_splits dest: mkstemp_at_NoneD [where q = q])
    have "mkstemp_at env fs1 (ascii ''/tmp/'' @ t) = (Some (p, f), fs')"
      using assms(1) d None by (simp add: pakka_platform_mkstemp_open_def)
    from mkstemp_at_SomeD [OF this assms(2)] k show ?thesis by (metis fun_upd_apply)
  qed
qed

lemma mkstemp_open_NoneD:
  assumes "pakka_platform_mkstemp_open env fs target t = (None, fs')" "mkstemp_fresh env" "fs q \<noteq> None"
  shows "fs' q = fs q"
proof -
  obtain r fs1 where d: "mkstemp_open_in_dir env fs target t = (r, fs1)" by fastforce
  with assms(1) have r: "r = None" "mkstemp_at env fs1 (ascii ''/tmp/'' @ t) = (None, fs')"
    by (auto simp: pakka_platform_mkstemp_open_def split: option.splits)
  have "fs1 q = fs q"
    using d r(1) assms(2,3)
    by (auto simp: mkstemp_open_in_dir_def split: if_splits dest: mkstemp_at_NoneD [where q = q])
  with mkstemp_at_NoneD [OF r(2) assms(2)] assms(3) show ?thesis by metis
qed

end
