(* ===== verification/Checksum.thy ===== *)
theory Checksum
  imports Pakka_Prelude
begin

text \<open>
  The CRC32 of \<^verbatim>\<open>src/common.c\<close>: the lookup table, \<open>pakka_crc32_update\<close>, and its
  bit-by-bit reference. The lemmas show that the table holds what the comment in the code
  says it was generated from, that the update can be fed in chunks (the interface
  \<open>checksum\<close>), and that a change of one byte is always noticed.
\<close>

section \<open>The code\<close>

definition pakka_crc32_table :: "u32 list" where
  "pakka_crc32_table = [
    0x00000000, 0x77073096, 0xee0e612c, 0x990951ba,
    0x076dc419, 0x706af48f, 0xe963a535, 0x9e6495a3,
    0x0edb8832, 0x79dcb8a4, 0xe0d5e91e, 0x97d2d988,
    0x09b64c2b, 0x7eb17cbd, 0xe7b82d07, 0x90bf1d91,
    0x1db71064, 0x6ab020f2, 0xf3b97148, 0x84be41de,
    0x1adad47d, 0x6ddde4eb, 0xf4d4b551, 0x83d385c7,
    0x136c9856, 0x646ba8c0, 0xfd62f97a, 0x8a65c9ec,
    0x14015c4f, 0x63066cd9, 0xfa0f3d63, 0x8d080df5,
    0x3b6e20c8, 0x4c69105e, 0xd56041e4, 0xa2677172,
    0x3c03e4d1, 0x4b04d447, 0xd20d85fd, 0xa50ab56b,
    0x35b5a8fa, 0x42b2986c, 0xdbbbc9d6, 0xacbcf940,
    0x32d86ce3, 0x45df5c75, 0xdcd60dcf, 0xabd13d59,
    0x26d930ac, 0x51de003a, 0xc8d75180, 0xbfd06116,
    0x21b4f4b5, 0x56b3c423, 0xcfba9599, 0xb8bda50f,
    0x2802b89e, 0x5f058808, 0xc60cd9b2, 0xb10be924,
    0x2f6f7c87, 0x58684c11, 0xc1611dab, 0xb6662d3d,
    0x76dc4190, 0x01db7106, 0x98d220bc, 0xefd5102a,
    0x71b18589, 0x06b6b51f, 0x9fbfe4a5, 0xe8b8d433,
    0x7807c9a2, 0x0f00f934, 0x9609a88e, 0xe10e9818,
    0x7f6a0dbb, 0x086d3d2d, 0x91646c97, 0xe6635c01,
    0x6b6b51f4, 0x1c6c6162, 0x856530d8, 0xf262004e,
    0x6c0695ed, 0x1b01a57b, 0x8208f4c1, 0xf50fc457,
    0x65b0d9c6, 0x12b7e950, 0x8bbeb8ea, 0xfcb9887c,
    0x62dd1ddf, 0x15da2d49, 0x8cd37cf3, 0xfbd44c65,
    0x4db26158, 0x3ab551ce, 0xa3bc0074, 0xd4bb30e2,
    0x4adfa541, 0x3dd895d7, 0xa4d1c46d, 0xd3d6f4fb,
    0x4369e96a, 0x346ed9fc, 0xad678846, 0xda60b8d0,
    0x44042d73, 0x33031de5, 0xaa0a4c5f, 0xdd0d7cc9,
    0x5005713c, 0x270241aa, 0xbe0b1010, 0xc90c2086,
    0x5768b525, 0x206f85b3, 0xb966d409, 0xce61e49f,
    0x5edef90e, 0x29d9c998, 0xb0d09822, 0xc7d7a8b4,
    0x59b33d17, 0x2eb40d81, 0xb7bd5c3b, 0xc0ba6cad,
    0xedb88320, 0x9abfb3b6, 0x03b6e20c, 0x74b1d29a,
    0xead54739, 0x9dd277af, 0x04db2615, 0x73dc1683,
    0xe3630b12, 0x94643b84, 0x0d6d6a3e, 0x7a6a5aa8,
    0xe40ecf0b, 0x9309ff9d, 0x0a00ae27, 0x7d079eb1,
    0xf00f9344, 0x8708a3d2, 0x1e01f268, 0x6906c2fe,
    0xf762575d, 0x806567cb, 0x196c3671, 0x6e6b06e7,
    0xfed41b76, 0x89d32be0, 0x10da7a5a, 0x67dd4acc,
    0xf9b9df6f, 0x8ebeeff9, 0x17b7be43, 0x60b08ed5,
    0xd6d6a3e8, 0xa1d1937e, 0x38d8c2c4, 0x4fdff252,
    0xd1bb67f1, 0xa6bc5767, 0x3fb506dd, 0x48b2364b,
    0xd80d2bda, 0xaf0a1b4c, 0x36034af6, 0x41047a60,
    0xdf60efc3, 0xa867df55, 0x316e8eef, 0x4669be79,
    0xcb61b38c, 0xbc66831a, 0x256fd2a0, 0x5268e236,
    0xcc0c7795, 0xbb0b4703, 0x220216b9, 0x5505262f,
    0xc5ba3bbe, 0xb2bd0b28, 0x2bb45a92, 0x5cb36a04,
    0xc2d7ffa7, 0xb5d0cf31, 0x2cd99e8b, 0x5bdeae1d,
    0x9b64c2b0, 0xec63f226, 0x756aa39c, 0x026d930a,
    0x9c0906a9, 0xeb0e363f, 0x72076785, 0x05005713,
    0x95bf4a82, 0xe2b87a14, 0x7bb12bae, 0x0cb61b38,
    0x92d28e9b, 0xe5d5be0d, 0x7cdcefb7, 0x0bdbdf21,
    0x86d3d2d4, 0xf1d4e242, 0x68ddb3f8, 0x1fda836e,
    0x81be16cd, 0xf6b9265b, 0x6fb077e1, 0x18b74777,
    0x88085ae6, 0xff0f6a70, 0x66063bca, 0x11010b5c,
    0x8f659eff, 0xf862ae69, 0x616bffd3, 0x166ccf45,
    0xa00ae278, 0xd70dd2ee, 0x4e048354, 0x3903b3c2,
    0xa7672661, 0xd06016f7, 0x4969474d, 0x3e6e77db,
    0xaed16a4a, 0xd9d65adc, 0x40df0b66, 0x37d83bf0,
    0xa9bcae53, 0xdebb9ec5, 0x47b2cf7f, 0x30b5ffe9,
    0xbdbdf21c, 0xcabac28a, 0x53b39330, 0x24b4a3a6,
    0xbad03605, 0xcdd70693, 0x54de5729, 0x23d967bf,
    0xb3667a2e, 0xc4614ab8, 0x5d681b02, 0x2a6f2b94,
    0xb40bbe37, 0xc30c8ea1, 0x5a05df1b, 0x2d02ef8d]"

text \<open>\<open>crc = pakka_crc32_table[(crc ^ buf[i]) & 0xFFu] ^ (crc >> 8);\<close>\<close>

definition crc32_step :: "u32 \<Rightarrow> u8 \<Rightarrow> u32" where
  "crc32_step crc b =
     pakka_crc32_table ! unat ((crc XOR ucast b) AND 0xFF) XOR drop_bit 8 crc"

definition pakka_crc32_update :: "u32 \<Rightarrow> u8 list \<Rightarrow> u32" where
  "pakka_crc32_update crc buf =
     foldl crc32_step (crc XOR 0xFFFFFFFF) buf XOR 0xFFFFFFFF"

section \<open>Bit-by-bit reference\<close>

definition crc_bit :: "u32 \<Rightarrow> u32" where
  "crc_bit c = (if bit c 0 then 0xEDB88320 XOR drop_bit 1 c else drop_bit 1 c)"

definition crc_byte :: "u32 \<Rightarrow> u32" where
  "crc_byte c = (crc_bit ^^ 8) c"

lemma length_crc32_table: "length pakka_crc32_table = 256"
  by (simp add: pakka_crc32_table_def)


lemma crc_byte_unfold: "crc_byte c = crc_bit (crc_bit (crc_bit (crc_bit (crc_bit (crc_bit (crc_bit (crc_bit c)))))))"
  by (simp add: crc_byte_def eval_nat_numeral)


lemmas crc_byte_numeral =
  crc_byte_unfold [of 0] crc_byte_unfold [of 1] crc_byte_unfold [of "numeral n" for n]

lemma crc32_table_generated:
  "pakka_crc32_table = map (\<lambda>i. crc_byte (word_of_nat i)) [0..<256]"
proof -
  have "[0..<256] = 0 # 1 # [2..<256]"
    by (simp add: upt_rec [of 0] upt_rec [of "Suc 0"] numeral_2_eq_2)
  then show ?thesis
    by (simp add: pakka_crc32_table_def crc_byte_numeral crc_bit_def)
qed

lemma crc_bit_xor: "crc_bit (x XOR y) = crc_bit x XOR crc_bit y"
  by (auto simp: crc_bit_def bit_xor_iff drop_bit_xor ac_simps)

lemma crc_bit_zero: "crc_bit 0 = 0"
  by (simp add: crc_bit_def)

lemma funpow_xor:
  "(\<And>x y. f (x XOR y) = f x XOR (f y :: u32)) \<Longrightarrow> (f ^^ n) (x XOR y) = (f ^^ n) x XOR (f ^^ n) (y :: u32)"
  by (induction n) auto

lemma crc_byte_xor: "crc_byte (x XOR y) = crc_byte x XOR crc_byte y"
  unfolding crc_byte_def by (rule funpow_xor [OF crc_bit_xor])

text \<open>Bits that are clear at the bottom are only shifted.\<close>

lemma crc_bit_shift:
  "(\<And>k. k < n \<Longrightarrow> \<not> bit x k) \<Longrightarrow> (crc_bit ^^ n) x = drop_bit n (x :: u32)"
proof (induction n)
  case 0
  show ?case by simp
next
  case (Suc n)
  then have "\<not> bit (drop_bit n x) 0" by (simp add: bit_drop_bit_eq)
  with Suc show ?case by (simp add: crc_bit_def drop_bit_drop_bit)
qed

lemma low_high_split: "x = (x AND 0xFF) XOR (x AND NOT 0xFF)" for x :: u32
  by (rule bit_word_eqI) (auto simp: bit_simps)

lemma bit_low_mask: "bit (0xFF :: u32) n \<longleftrightarrow> n < 8"
proof -
  have "(0xFF :: u32) = mask 8" by (simp add: mask_eq_exp_minus_1)
  then show ?thesis by (simp only: bit_mask_iff) auto
qed

lemma crc_byte_split:
  "crc_byte x = pakka_crc32_table ! unat (x AND 0xFF) XOR drop_bit 8 x"
proof -
  have "unat (x AND 0xFF) \<le> 255"
    using word_and_le1 [of x "0xFF"] by (simp add: word_le_nat_alt)
  then have "pakka_crc32_table ! unat (x AND 0xFF) = crc_byte (x AND 0xFF)"
    by (simp add: crc32_table_generated)
  moreover have "crc_byte (x AND NOT 0xFF) = drop_bit 8 (x AND NOT 0xFF)"
    unfolding crc_byte_def by (rule crc_bit_shift) (simp only: bit_and_iff bit_not_iff bit_low_mask, simp)
  moreover have "drop_bit 8 (x AND NOT 0xFF) = drop_bit 8 x"
    by (rule bit_word_eqI)
      (auto simp only: bit_drop_bit_eq comp_apply bit_and_iff bit_not_iff bit_low_mask possible_bit_word
        dest: bit_imp_le_length)
  ultimately show ?thesis
    by (metis low_high_split crc_byte_xor)
qed

lemma crc32_step_eq: "crc32_step crc b = crc_byte (crc XOR ucast b)"
proof -
  have "drop_bit 8 (ucast b :: u32) = 0"
    by (rule bit_word_eqI) (auto simp: bit_simps dest: bit_imp_le_length)
  then have "drop_bit 8 (crc XOR ucast b) = drop_bit 8 crc"
    by (simp add: drop_bit_xor)
  then show ?thesis by (simp add: crc32_step_def crc_byte_split)
qed

section \<open>Sensitivity\<close>

lemma xor_cancel_left: "(c XOR x = c XOR y) \<longleftrightarrow> x = (y :: u32)"
  by (metis xor.assoc xor_self_eq xor.left_neutral)

lemma crc_bit_kernel: "crc_bit x = 0 \<Longrightarrow> x = 0"
proof (cases "bit x 0")
  case True
  assume "crc_bit x = 0"
  with True have "0xEDB88320 XOR drop_bit 1 x = 0xEDB88320 XOR 0xEDB88320" by (simp add: crc_bit_def)
  then have "drop_bit 1 x = 0xEDB88320" by (simp only: xor_cancel_left)
  then have "bit (0xEDB88320 :: u32) 31 = bit (drop_bit 1 x) 31" by simp
  moreover have "\<not> bit x 32" using bit_imp_le_length [of x 32] by auto
  ultimately show ?thesis by (simp add: bit_drop_bit_eq)
next
  case False
  assume "crc_bit x = 0"
  with False have z: "drop_bit 1 x = 0" by (simp add: crc_bit_def)
  show ?thesis
  proof (rule bit_word_eqI)
    fix n
    show "bit x n = bit 0 n"
    proof (cases n)
      case (Suc m)
      have "bit x n = bit (drop_bit 1 x) m" by (simp add: Suc bit_drop_bit_eq)
      with z show ?thesis by simp
    qed (use False in simp)
  qed
qed

lemma crc_bit_inj: "crc_bit x = crc_bit y \<Longrightarrow> x = y"
  using crc_bit_kernel [of "x XOR y"] xor_cancel_left [of x y x] by (simp add: crc_bit_xor)

lemma crc_byte_inj: "crc_byte x = crc_byte y \<Longrightarrow> x = y"
  by (auto simp: crc_byte_unfold dest!: crc_bit_inj)

lemma inj_ucast_u8: "ucast (a :: u8) = (ucast b :: u32) \<Longrightarrow> a = b"
proof -
  assume "ucast a = (ucast b :: u32)"
  then have "unat (ucast a :: u32) = unat (ucast b :: u32)" by simp
  then have "unat a = unat b"
    by (simp add: unsigned_ucast_eq take_bit_nat_eq_self less_trans [OF unat_u8_bound])
  then show "a = b" by (simp add: word_unat_eq_iff)
qed

lemma crc32_step_inj_byte: "crc32_step c a = crc32_step c b \<Longrightarrow> a = b"
  using inj_ucast_u8 by (auto simp: crc32_step_eq xor_cancel_left dest!: crc_byte_inj)

lemma crc32_step_inj_crc: "crc32_step c a = crc32_step d a \<Longrightarrow> c = d"
  using crc_byte_inj [of "c XOR ucast a" "d XOR ucast a"] xor_cancel_left [of "ucast a" c d]
  by (simp add: crc32_step_eq xor.commute)

lemma foldl_step_inj: "foldl crc32_step c xs = foldl crc32_step d xs \<Longrightarrow> c = d"
  by (induction xs arbitrary: c d) (auto dest: crc32_step_inj_crc)

section \<open>Chunked updates\<close>

text \<open>
  A checksum that is fed buffer by buffer. The streaming loops of the archive code read a
  file in chunks and update the checksum with each; \<open>update_chunks\<close> says that the result is
  the checksum of the file.
\<close>

locale checksum =
  fixes update :: "'c \<Rightarrow> 'b list \<Rightarrow> 'c"
  assumes update_Nil: "update c [] = c"
    and update_append: "update c (xs @ ys) = update (update c xs) ys"
begin

lemma update_chunks: "foldl update c chunks = update c (concat chunks)"
  by (induction chunks arbitrary: c) (simp_all add: update_Nil update_append)

end

interpretation crc: checksum pakka_crc32_update
  by unfold_locales (simp_all add: pakka_crc32_update_def xor.assoc)

section \<open>Properties of the checksum\<close>

text \<open>
  C8: The table-driven update computes the IEEE 802.3 CRC: byte by byte, eight shifts of the
  reflected polynomial \<open>0xEDB88320\<close>.
\<close>

theorem crc32_update_bitwise:
  "pakka_crc32_update crc buf
     = foldl (\<lambda>c b. (crc_bit ^^ 8) (c XOR ucast b)) (crc XOR 0xFFFFFFFF) buf XOR 0xFFFFFFFF"
  by (simp add: pakka_crc32_update_def crc32_step_eq [abs_def] crc_byte_def)

text \<open>The checksum of a payload fed in any sequence of chunks is the checksum of the payload,
  and replacing any one byte of a payload changes it: the check at commit notices a source
  whose content was changed in one byte without a change of size.
\<close>

theorem crc32_detects_changed_byte:
  assumes "concat chunks = xs @ [a] @ ys" "concat chunks' = xs @ [b] @ ys" "a \<noteq> b"
  shows "foldl pakka_crc32_update crc chunks \<noteq> foldl pakka_crc32_update crc chunks'"
proof -
  let ?c = "foldl crc32_step (crc XOR 0xFFFFFFFF) xs"
  have "foldl crc32_step (crc32_step ?c a) ys \<noteq> foldl crc32_step (crc32_step ?c b) ys"
    using assms(3) by (auto dest!: foldl_step_inj crc32_step_inj_byte)
  then have "pakka_crc32_update crc (xs @ [a] @ ys) \<noteq> pakka_crc32_update crc (xs @ [b] @ ys)"
    by (simp add: pakka_crc32_update_def xor_cancel_left xor.commute [of _ "0xFFFFFFFF"])
  then show ?thesis unfolding crc.update_chunks assms(1,2) .
qed

theorem crc32_detects_changed_byte_witness:
  "foldl pakka_crc32_update 0 [[1, 2], [3]] \<noteq> foldl pakka_crc32_update 0 [[1], [5, 3]]"
  using crc32_detects_changed_byte [of "[[1, 2], [3]]" "[1]" 2 "[3]" "[[1], [5, 3]]" 5 0] by simp

end
