(* ===== verification/Streams.thy ===== *)
theory Streams
  imports Platform Checksum
begin

text \<open>
  The loops of \<^verbatim>\<open>src/pakfile.c\<close> that move bytes between two streams in chunks of 64 KiB, and the scan
  that computes the checksum of a source. The lemmas say that a loop that succeeds copied exactly the
  requested bytes, whatever the chunking.
\<close>

section \<open>Loops\<close>

lemma fread_shape:
  "fread f n = (bs, f') \<Longrightarrow> f_data f' = f_data f \<and> f_pos f' = f_pos f + length bs
     \<and> f_readable f' = f_readable f \<and> length bs \<le> n
     \<and> bs = take (length bs) (drop (f_pos f) (f_data f))
     \<and> length bs \<le> min (length (f_data f)) (f_readable f) - f_pos f"
  by (auto simp: fread_def Let_def min_def)

text \<open>\<open>while (remaining > 0) { fread chunk; fwrite chunk; remaining -= chunk; }\<close>\<close>

function copy_chunks :: "cfile \<Rightarrow> cfile \<Rightarrow> nat \<Rightarrow> status \<times> cfile \<times> cfile" where
  "copy_chunks src dst remaining =
     (if remaining > 0 then
        (let chunk = (if remaining > PAKFILE_COPY_CHUNK then PAKFILE_COPY_CHUNK else remaining);
             (bytes, src1) = fread_all src chunk
         in case bytes of
              None \<Rightarrow> (PAKKA_ERR_IO, src1, dst)
            | Some bytes \<Rightarrow>
                (let (ok, dst1) = fwrite_all dst bytes in
                 if \<not> ok then (PAKKA_ERR_IO, src1, dst1)
                 else copy_chunks src1 dst1 (remaining - chunk)))
      else (PAKKA_OK, src, dst))"
  by pat_completeness auto
termination
  by (relation "measure (\<lambda>(src, dst, remaining). remaining)") (auto simp: PAKFILE_COPY_CHUNK_def)

declare copy_chunks.simps [simp del]

text \<open>\<open>while ((got = fread(crcbuf, ...)) > 0) crc = pakka_crc32_update(crc, crcbuf, got);\<close>\<close>

function crc_scan :: "cfile \<Rightarrow> u32 \<Rightarrow> u32 \<times> cfile" where
  "crc_scan src crc =
     (let (got, src1) = fread src PAKFILE_COPY_CHUNK in
      if got = [] then (crc, src1) else crc_scan src1 (pakka_crc32_update crc got))"
  by pat_completeness auto
termination
proof (relation "measure (\<lambda>(src, crc). length (f_data src) - f_pos src)")
  fix src crc x got src1
  assume a: "x = fread src PAKFILE_COPY_CHUNK" "(got, src1) = x" "got \<noteq> []"
  then have "fread src PAKFILE_COPY_CHUNK = (got, src1)" by simp
  from fread_shape [OF this] a(3)
  show "((src1, pakka_crc32_update crc got), src, crc) \<in> measure (\<lambda>(src, crc). length (f_data src) - f_pos src)"
    by (cases got) auto
qed simp

declare crc_scan.simps [simp del]

text \<open>The loop of \<open>pak_copy_pending_source\<close>: copy and checksum together.\<close>

function copy_crc :: "cfile \<Rightarrow> cfile \<Rightarrow> nat \<Rightarrow> u32 \<Rightarrow> status \<times> u32 \<times> cfile" where
  "copy_crc src dst remaining crc =
     (if remaining > 0 then
        (let want = (if remaining > PAKFILE_COPY_CHUNK then PAKFILE_COPY_CHUNK else remaining);
             (buf, src1) = fread src want
         in if length buf \<noteq> want then (PAKKA_ERR_IO, crc, dst)
            else (let (ok, dst1) = fwrite_all dst buf in
                  if \<not> ok then (PAKKA_ERR_IO, crc, dst1)
                  else copy_crc src1 dst1 (remaining - want) (pakka_crc32_update crc buf)))
      else (PAKKA_OK, crc, dst))"
  by pat_completeness auto
termination
  by (relation "measure (\<lambda>(src, dst, remaining, crc). remaining)") (auto simp: PAKFILE_COPY_CHUNK_def)

declare copy_crc.simps [simp del]

text \<open>One turn of each loop, with the chunk named.\<close>

definition chunk_of :: "nat \<Rightarrow> nat" where
  "chunk_of n = (if n > PAKFILE_COPY_CHUNK then PAKFILE_COPY_CHUNK else n)"

lemma chunk_of_bounds [simp]: "chunk_of n \<le> n" "0 < n \<Longrightarrow> 0 < chunk_of n"
  by (simp_all add: chunk_of_def PAKFILE_COPY_CHUNK_def)

lemma copy_chunks_0 [simp]: "copy_chunks src dst 0 = (PAKKA_OK, src, dst)"
  by (simp add: copy_chunks.simps)

lemma copy_chunks_turn:
  "0 < n \<Longrightarrow> copy_chunks src dst n =
     (case fread_all src (chunk_of n) of
        (None, src1) \<Rightarrow> (PAKKA_ERR_IO, src1, dst)
      | (Some b, src1) \<Rightarrow>
          (case fwrite_all dst b of
             (False, dst1) \<Rightarrow> (PAKKA_ERR_IO, src1, dst1)
           | (True, dst1) \<Rightarrow> copy_chunks src1 dst1 (n - chunk_of n)))"
  by (subst copy_chunks.simps) (simp add: chunk_of_def [symmetric] Let_def split: prod.splits option.splits bool.splits)

text \<open>A copy that succeeds read \<open>n\<close> bytes and wrote them; one whose bytes are there and fit succeeds.\<close>

lemma copy_chunks_OK:
  "copy_chunks src dst n = (PAKKA_OK, src', dst') \<Longrightarrow>
   \<exists>bs. length bs = n \<and> (n = 0 \<or> f_has src bs \<and> f_fits dst bs) \<and> src' = f_skip src n \<and> dst' = f_put dst bs"
proof (induction n arbitrary: src dst rule: less_induct)
  case (less n)
  show ?case
  proof (cases "n = 0")
    case False
    then obtain b src1 dst1 where
      r: "fread_all src (chunk_of n) = (Some b, src1)" and w: "fwrite_all dst b = (True, dst1)"
      and k: "copy_chunks src1 dst1 (n - chunk_of n) = (PAKKA_OK, src', dst')"
      using less.prems by (auto simp: copy_chunks_turn split: prod.splits option.splits bool.splits)
    have R: "f_has src b" "length b = chunk_of n" "src1 = f_skip src (chunk_of n)"
      using fread_all_Some [OF r] False by simp_all
    have "0 < chunk_of n" using False by simp
    with R(2) have "b \<noteq> []" by auto
    then have W: "f_fits dst b" "dst1 = f_put dst b"
      using w by (simp_all add: fwrite_all_True)
    have "n - chunk_of n < n" using False by (simp add: chunk_of_def PAKFILE_COPY_CHUNK_def)
    from less.IH [OF this k] obtain bs where
      B: "length bs = n - chunk_of n" "n - chunk_of n = 0 \<or> f_has src1 bs \<and> f_fits dst1 bs"
      "src' = f_skip src1 (n - chunk_of n)" "dst' = f_put dst1 bs" by blast
    have "f_has src (b @ bs) \<and> f_fits dst (b @ bs)"
      using R W B by (cases "bs = []") (auto simp: f_has_append f_fits_append)
    then show ?thesis using R W B by (intro exI [of _ "b @ bs"]) (simp add: f_put_append)
  qed (use less.prems in simp)
qed

lemma copy_chunks_has:
  "f_has src bs \<Longrightarrow> f_fits dst bs \<Longrightarrow>
   copy_chunks src dst (length bs) = (PAKKA_OK, f_skip src (length bs), f_put dst bs)"
proof (induction "length bs" arbitrary: src dst bs rule: less_induct)
  case less
  show ?case
  proof (cases "bs = []")
    case False
    let ?c = "chunk_of (length bs)"
    define x y where "x = take ?c bs" and "y = drop ?c bs"
    have b: "bs = x @ y" and lx: "length x = ?c" and ly: "length y = length bs - ?c"
      by (simp_all add: x_def y_def)
    have x: "f_has src x" "f_has (f_skip src ?c) y" "f_fits dst x" "f_fits (f_put dst x) y"
      using less.prems f_has_append [of src x y] f_fits_append [of dst x y] lx by (simp_all add: b [symmetric])
    have "length y < length bs" using ly False by (simp add: chunk_of_def PAKFILE_COPY_CHUNK_def)
    from less.hyps [OF this x(2,4)]
    have "copy_chunks (f_skip src ?c) (f_put dst x) (length bs - ?c) =
      (PAKKA_OK, f_skip src (length bs), f_put dst bs)"
      using ly lx f_put_append [of dst x y] by (simp add: b [symmetric])
    moreover have "fread_all src ?c = (Some x, f_skip src ?c)" "fwrite_all dst x = (True, f_put dst x)"
      using x lx by (simp_all add: fread_all_has fwrite_all_True)
    ultimately show ?thesis
      using False by (simp add: copy_chunks_turn)
  qed simp
qed

text \<open>Whatever happens, the destination only changes from its position on, and the source not at all.\<close>

lemma copy_chunks_frame:
  "copy_chunks src dst n = (s, src', dst') \<Longrightarrow>
   f_extends (f_pos dst) dst dst' \<and> f_pos dst \<le> f_pos dst' \<and> f_data src' = f_data src"
proof (induction n arbitrary: src dst rule: less_induct)
  case (less n)
  show ?case
  proof (cases "n = 0")
    case False
    obtain b src1 where r: "fread_all src (chunk_of n) = (b, src1)" by fastforce
    have d: "f_data src1 = f_data src"
      using r by (auto simp: fread_all_def fread_def Let_def split: if_splits)
    show ?thesis
    proof (cases b)
      case None
      then show ?thesis using less.prems False r d by (auto simp: copy_chunks_turn)
    next
      case (Some bs)
      obtain ok dst1 where w: "fwrite_all dst bs = (ok, dst1)" by fastforce
      have f: "f_extends (f_pos dst) dst dst1" "f_pos dst \<le> f_pos dst1"
        using f_keeps_fwrite_all [OF w, of "\<lambda>i. i < f_pos dst"] by simp_all
      show ?thesis
      proof (cases ok)
        case True
        have lt: "n - chunk_of n < n" using False by (simp add: chunk_of_def PAKFILE_COPY_CHUNK_def)
        have k: "copy_chunks src1 dst1 (n - chunk_of n) = (s, src', dst')"
          using less.prems False r Some w True by (simp add: copy_chunks_turn)
        have "f_extends (f_pos dst) dst1 dst'"
          by (rule f_keeps_mono [of "\<lambda>i. i < f_pos dst1"]) (use less.IH [OF lt k] f in auto)
        with less.IH [OF lt k] f d show ?thesis
          using f_keeps_trans by fastforce
      next
        case ok: False
        with less.prems False r Some w f d show ?thesis by (auto simp: copy_chunks_turn)
      qed
    qed
  qed (use less.prems in simp)
qed

lemma copy_crc_0 [simp]: "copy_crc src dst 0 crc = (PAKKA_OK, crc, dst)"
  by (simp add: copy_crc.simps)

text \<open>The copy with the checksum is the copy, and the checksum of what it copied.\<close>

lemma copy_crc_turn:
  "0 < n \<Longrightarrow> copy_crc src dst n crc =
     (case fread_all src (chunk_of n) of
        (None, src1) \<Rightarrow> (PAKKA_ERR_IO, crc, dst)
      | (Some b, src1) \<Rightarrow>
          (case fwrite_all dst b of
             (False, dst1) \<Rightarrow> (PAKKA_ERR_IO, crc, dst1)
           | (True, dst1) \<Rightarrow> copy_crc src1 dst1 (n - chunk_of n) (pakka_crc32_update crc b)))"
  by (subst copy_crc.simps)
    (simp add: chunk_of_def [symmetric] Let_def fread_all_def split: prod.splits option.splits bool.splits)

lemma copy_crc_OK:
  "copy_crc src dst n crc = (PAKKA_OK, crc', dst') \<Longrightarrow>
   \<exists>bs. length bs = n \<and> (n = 0 \<or> f_has src bs \<and> f_fits dst bs) \<and> dst' = f_put dst bs
     \<and> crc' = pakka_crc32_update crc bs"
proof (induction n arbitrary: src dst crc rule: less_induct)
  case (less n)
  show ?case
  proof (cases "n = 0")
    case False
    then obtain b src1 dst1 where
      r: "fread_all src (chunk_of n) = (Some b, src1)" and w: "fwrite_all dst b = (True, dst1)"
      and k: "copy_crc src1 dst1 (n - chunk_of n) (pakka_crc32_update crc b) = (PAKKA_OK, crc', dst')"
      using less.prems by (auto simp: copy_crc_turn split: prod.splits option.splits bool.splits)
    have R: "f_has src b" "length b = chunk_of n" "src1 = f_skip src (chunk_of n)"
      using fread_all_Some [OF r] False by simp_all
    have "0 < chunk_of n" using False by simp
    with R(2) have "b \<noteq> []" by auto
    then have W: "f_fits dst b" "dst1 = f_put dst b"
      using w by (simp_all add: fwrite_all_True)
    have "n - chunk_of n < n" using False by (simp add: chunk_of_def PAKFILE_COPY_CHUNK_def)
    from less.IH [OF this k] obtain bs where
      B: "length bs = n - chunk_of n" "n - chunk_of n = 0 \<or> f_has src1 bs \<and> f_fits dst1 bs"
      "dst' = f_put dst1 bs" "crc' = pakka_crc32_update (pakka_crc32_update crc b) bs" by blast
    have "f_has src (b @ bs) \<and> f_fits dst (b @ bs)"
      using R W B by (cases "bs = []") (auto simp: f_has_append f_fits_append)
    then show ?thesis using R W B
      by (intro exI [of _ "b @ bs"]) (simp add: f_put_append crc.update_append)
  qed (use less.prems in \<open>simp add: crc.update_Nil\<close>)
qed

lemma copy_crc_frame:
  "copy_crc src dst n crc = (s, crc', dst') \<Longrightarrow> f_extends (f_pos dst) dst dst' \<and> f_pos dst \<le> f_pos dst'"
proof (induction n arbitrary: src dst crc rule: less_induct)
  case (less n)
  show ?case
  proof (cases "n = 0")
    case False
    obtain b src1 where r: "fread_all src (chunk_of n) = (b, src1)" by fastforce
    show ?thesis
    proof (cases b)
      case None
      then show ?thesis using less.prems False r by (auto simp: copy_crc_turn)
    next
      case (Some bs)
      obtain ok dst1 where w: "fwrite_all dst bs = (ok, dst1)" by fastforce
      have f: "f_extends (f_pos dst) dst dst1" "f_pos dst \<le> f_pos dst1"
        using f_keeps_fwrite_all [OF w, of "\<lambda>i. i < f_pos dst"] by simp_all
      show ?thesis
      proof (cases ok)
        case True
        have lt: "n - chunk_of n < n" using False by (simp add: chunk_of_def PAKFILE_COPY_CHUNK_def)
        have k: "copy_crc src1 dst1 (n - chunk_of n) (pakka_crc32_update crc bs) = (s, crc', dst')"
          using less.prems False r Some w True by (simp add: copy_crc_turn)
        have "f_extends (f_pos dst) dst1 dst'"
          by (rule f_keeps_mono [of "\<lambda>i. i < f_pos dst1"]) (use less.IH [OF lt k] f in auto)
        with less.IH [OF lt k] f show ?thesis
          using f_keeps_trans by fastforce
      next
        case ok: False
        with less.prems False r Some w f show ?thesis by (auto simp: copy_crc_turn)
      qed
    qed
  qed (use less.prems in simp)
qed

text \<open>The scan reads to the end of what can be read.\<close>

lemma crc_scan_all:
  assumes "length (f_data src) \<le> f_readable src"
  shows "fst (crc_scan src crc) = pakka_crc32_update crc (drop (f_pos src) (f_data src))
    \<and> f_error (snd (crc_scan src crc)) = f_error src"
  using assms
proof (induction "length (f_data src) - f_pos src" arbitrary: src crc rule: less_induct)
  case less
  obtain got src1 where r: "fread src PAKFILE_COPY_CHUNK = (got, src1)" by fastforce
  have g: "got = take PAKFILE_COPY_CHUNK (drop (f_pos src) (f_data src))"
    and d: "f_data src1 = f_data src" "f_readable src1 = f_readable src" "f_pos src1 = f_pos src + length got"
    and e: "f_error src1 = f_error src"
    using r less.prems by (auto simp: fread_def Let_def min_def)
  show ?case
  proof (cases "got = []")
    case True
    with g have "drop (f_pos src) (f_data src) = []" by (auto simp: PAKFILE_COPY_CHUNK_def)
    with True r e show ?thesis by (subst (1 2) crc_scan.simps) (simp add: crc.update_Nil)
  next
    case False
    then have lt: "length (f_data src1) - f_pos src1 < length (f_data src) - f_pos src"
      using fread_shape [OF r] d by (cases got) auto
    have c: "drop (f_pos src) (f_data src) = got @ drop (f_pos src1) (f_data src1)"
      using g d by (metis append_take_drop_id drop_drop add.commute length_take take_all_iff
          append.right_neutral drop_eq_Nil linorder_linear min_def)
    from less.hyps [OF lt, of "pakka_crc32_update crc got"] less.prems d e False r c show ?thesis
      by (subst (1 2) crc_scan.simps) (simp add: crc.update_append)
  qed
qed

text \<open>\<open>while (remaining > 0) { fread chunk; remaining -= chunk; }\<close>: whether all of it could be read.\<close>

function read_chunks :: "cfile \<Rightarrow> nat \<Rightarrow> bool \<times> cfile" where
  "read_chunks f remaining =
     (if remaining > 0 then
        (let chunk = (if remaining > PAKFILE_COPY_CHUNK then PAKFILE_COPY_CHUNK else remaining);
             (buf, f1) = fread_all f chunk
         in case buf of None \<Rightarrow> (False, f1) | Some _ \<Rightarrow> read_chunks f1 (remaining - chunk))
      else (True, f))"
  by pat_completeness auto
termination
  by (relation "measure (\<lambda>(f, remaining). remaining)") (auto simp: PAKFILE_COPY_CHUNK_def)

declare read_chunks.simps [simp del]

lemma read_chunks_turn:
  "0 < n \<Longrightarrow> read_chunks f n =
     (case fread_all f (chunk_of n) of
        (None, f1) \<Rightarrow> (False, f1) | (Some b, f1) \<Rightarrow> read_chunks f1 (n - chunk_of n))"
  by (subst read_chunks.simps) (simp add: chunk_of_def [symmetric] Let_def split: prod.splits option.splits)

lemma fread_all_None:
  assumes "fread_all f n = (None, g)"
  shows "min (length (f_data f)) (f_readable f) < f_pos f + n"
  using assms by (auto simp: fread_all_def fread_def Let_def split: if_splits)

lemma read_chunks_iff:
  "0 < n \<Longrightarrow> fst (read_chunks f n) \<longleftrightarrow> f_pos f + n \<le> min (length (f_data f)) (f_readable f)"
proof (induction n arbitrary: f rule: less_induct)
  case (less n)
  obtain b f1 where r: "fread_all f (chunk_of n) = (b, f1)" by fastforce
  show ?case
  proof (cases b)
    case None
    then have "\<not> fst (read_chunks f n)" using r less.prems by (simp add: read_chunks_turn)
    moreover have "min (length (f_data f)) (f_readable f) < f_pos f + chunk_of n"
      using r None fread_all_None by blast
    moreover have "chunk_of n \<le> n" by simp
    ultimately show ?thesis by linarith
  next
    case (Some x)
    have "0 < chunk_of n" using less.prems by simp
    from fread_all_Some [OF r [unfolded Some] this]
    have R: "f_has f x" "length x = chunk_of n" "f1 = f_skip f (chunk_of n)" by simp_all
    show ?thesis
    proof (cases "n = chunk_of n")
      case True
      then have "read_chunks f n = (True, f1)"
        using r Some less.prems by (simp add: read_chunks_turn read_chunks.simps [of f1 0])
      then show ?thesis using R True by (simp add: f_has_def)
    next
      case False
      moreover have "chunk_of n \<le> n" "0 < chunk_of n" using less.prems by simp_all
      ultimately have "0 < n - chunk_of n" "n - chunk_of n < n" by linarith+
      from less.IH [OF this(2,1), of f1] r Some R less.prems
      have "fst (read_chunks f n) \<longleftrightarrow> f_pos f + chunk_of n + (n - chunk_of n) \<le> min (length (f_data f)) (f_readable f)"
        by (simp add: read_chunks_turn)
      moreover have "f_pos f + chunk_of n + (n - chunk_of n) = f_pos f + n" by simp
      ultimately show ?thesis by simp
    qed
  qed
qed

lemma read_chunks_frame: "read_chunks f n = (r, g) \<Longrightarrow> f_data g = f_data f \<and> f_same_env f g"
proof (induction n arbitrary: f rule: less_induct)
  case (less n)
  show ?case
  proof (cases "n = 0")
    case False
    obtain b f1 where r: "fread_all f (chunk_of n) = (b, f1)" by fastforce
    have f1: "f_data f1 = f_data f" "f_same_env f f1"
      using r by (auto simp: fread_all_def fread_def Let_def f_same_env_def split: if_splits)
    have lt: "n - chunk_of n < n" using False by (simp add: chunk_of_def PAKFILE_COPY_CHUNK_def)
    show ?thesis
    proof (cases b)
      case None
      with less.prems r f1 False show ?thesis by (simp add: read_chunks_turn)
    next
      case (Some x)
      with less.prems r False have "read_chunks f1 (n - chunk_of n) = (r, g)" by (simp add: read_chunks_turn)
      from less.IH [OF lt this] f1 show ?thesis by (auto intro: f_same_env_trans)
    qed
  qed (use less.prems in \<open>simp add: read_chunks.simps\<close>)
qed

end
