(* ===== verification/Zip_Interface.thy ===== *)
theory Zip_Interface
  imports Streams
begin

text \<open>
  The reader of \<^verbatim>\<open>src/common.h\<close> and the ZIP half of the library as the archive code calls it. The
  functions of \<^verbatim>\<open>src/pk3file.c\<close> are the fields of a record the operations take as an argument. Theorems
  about archives of the PAK class hold for any such record, since it is not called for them; those about
  ZIP archives are about the record \<open>pk3_ops\<close> of \<open>Zip_Ops\<close>.
\<close>

text \<open>\<open>inflated_len\<close> is the length of the buffer.\<close>

record reader =
  next_offset :: u64
  remaining :: u64
  inflated_buf :: "u8 list option"
  inflated_cursor :: nat

definition calloc_reader :: reader where
  "calloc_reader = \<lparr>next_offset = 0, remaining = 0, inflated_buf = None, inflated_cursor = 0\<rparr>"

record zip_ops =
  z_open :: "env \<Rightarrow> archive \<Rightarrow> cfile \<Rightarrow> status \<times> archive \<times> cfile"
  z_create :: "env \<Rightarrow> files \<Rightarrow> archive \<Rightarrow> status \<times> archive \<times> files"
  z_add_file :: "env \<Rightarrow> files \<Rightarrow> archive \<Rightarrow> path \<Rightarrow> cstring \<Rightarrow> status \<times> archive"
  z_add_memory :: "env \<Rightarrow> archive \<Rightarrow> cstring \<Rightarrow> u8 list \<Rightarrow> status \<times> archive"
  z_commit :: "env \<Rightarrow> files \<Rightarrow> archive \<Rightarrow> status \<times> archive \<times> files"
  z_open_entry :: "env \<Rightarrow> files \<Rightarrow> archive \<Rightarrow> reader \<Rightarrow> pentry \<Rightarrow> status \<times> reader \<times> archive"
  z_read :: "reader \<Rightarrow> archive \<Rightarrow> nat \<Rightarrow> status \<times> u8 list \<times> reader \<times> archive"
  z_deep_verify :: "env \<Rightarrow> archive \<Rightarrow> pentry \<Rightarrow> status \<times> archive"

text \<open>A library built without the ZIP formats.\<close>

definition without_zip :: zip_ops where
  "without_zip =
     \<lparr>z_open = \<lambda>env pak f. (PAKKA_ERR_UNSUPPORTED, pak, f),
      z_create = \<lambda>env fs pak. (PAKKA_ERR_UNSUPPORTED, pak, fs),
      z_add_file = \<lambda>env fs pak source name. (PAKKA_ERR_UNSUPPORTED, pak),
      z_add_memory = \<lambda>env pak name data. (PAKKA_ERR_UNSUPPORTED, pak),
      z_commit = \<lambda>env fs pak. (PAKKA_ERR_UNSUPPORTED, pak, fs),
      z_open_entry = \<lambda>env fs pak reader entry. (PAKKA_ERR_UNSUPPORTED, reader, pak),
      z_read = \<lambda>reader pak len. (PAKKA_ERR_UNSUPPORTED, [], reader, pak),
      z_deep_verify = \<lambda>env pak entry. (PAKKA_ERR_UNSUPPORTED, pak)\<rparr>"

end
