(* ===== verification/Dk_Codec.thy ===== *)
theory Dk_Codec
  imports Pakka_Prelude
begin

text \<open>
  The Daikatana byte codec, \<^verbatim>\<open>src/dk_codec.c\<close>: the decoder \<open>pakka_dk_inflate\<close> and the greedy
  encoder \<open>pakka_dk_deflate\<close>, both written over C buffers with checked accesses, then a
  reference decoder over byte lists. The lemmas show that neither routine leaves its
  buffers, that the decoder computes the reference decoding or reports a format error,
  that the encoder stays within the bound it checks, and that decoding undoes encoding.
\<close>

section \<open>Decoder\<close>

text \<open>\<open>for (i = 0; i < copy_len; i++) { out[produced] = out[produced - distance]; produced++; }\<close>\<close>

fun dk_copy_back :: "nat \<Rightarrow> nat \<Rightarrow> nat \<Rightarrow> u8 list \<Rightarrow> u8 list cres" where
  "dk_copy_back 0 distance produced out = Ok out"
| "dk_copy_back (Suc n) distance produced out =
     cbind (mem_load out (produced - distance)) (\<lambda>b.
     cbind (mem_store out produced b) (\<lambda>out'.
       dk_copy_back n distance (Suc produced) out'))"

text \<open>
  The decoder loop. \<open>inp\<close> and \<open>out\<close> are the buffers, \<open>in_len\<close> and \<open>out_len\<close> the lengths the
  caller passes; the result is the number of bytes produced and the output buffer.
\<close>

function dk_inflate_loop ::
  "u8 list \<Rightarrow> nat \<Rightarrow> nat \<Rightarrow> nat \<Rightarrow> nat \<Rightarrow> u8 list \<Rightarrow> (nat \<times> u8 list) cres" where
  "dk_inflate_loop inp in_len out_len read produced out =
     (if read < in_len then
        cbind (mem_load inp read) (\<lambda>b.
        (let opcode = unat b; rd = Suc read in
         if opcode < 64 then
           (let copy_len = opcode + 1 in
            if copy_len > in_len - rd then Fail PAKKA_ERR_FORMAT
            else if copy_len > out_len - produced then Fail PAKKA_ERR_FORMAT
            else cbind (mem_copy out produced inp rd copy_len) (\<lambda>out'.
                   dk_inflate_loop inp in_len out_len (rd + copy_len) (produced + copy_len) out'))
         else if opcode < 128 then
           (let copy_len = opcode - 62 in
            if copy_len > out_len - produced then Fail PAKKA_ERR_FORMAT
            else cbind (mem_set out produced 0 copy_len) (\<lambda>out'.
                   dk_inflate_loop inp in_len out_len rd (produced + copy_len) out'))
         else if opcode < 192 then
           (if rd \<ge> in_len then Fail PAKKA_ERR_FORMAT
            else (let copy_len = opcode - 126 in
              if copy_len > out_len - produced then Fail PAKKA_ERR_FORMAT
              else cbind (mem_load inp rd) (\<lambda>v.
                   cbind (mem_set out produced v copy_len) (\<lambda>out'.
                     dk_inflate_loop inp in_len out_len (Suc rd) (produced + copy_len) out'))))
         else if opcode < 254 then
           (if rd \<ge> in_len then Fail PAKKA_ERR_FORMAT
            else cbind (mem_load inp rd) (\<lambda>d.
              (let copy_len = opcode - 190; distance = unat d + 2 in
               if distance > produced then Fail PAKKA_ERR_FORMAT
               else if copy_len > out_len - produced then Fail PAKKA_ERR_FORMAT
               else cbind (dk_copy_back copy_len distance produced out) (\<lambda>out'.
                      dk_inflate_loop inp in_len out_len (Suc rd) (produced + copy_len) out'))))
         else if opcode = 254 then Fail PAKKA_ERR_FORMAT
         else Ok (produced, out)))
      else Ok (produced, out))"
  by pat_completeness auto
termination
  by (relation "measure (\<lambda>(inp, in_len, out_len, read, produced, out). in_len - read)") auto

declare dk_inflate_loop.simps [simp del]

text \<open>A NULL pointer is \<open>None\<close>; a buffer is the memory the pointer refers to.\<close>

definition pakka_dk_inflate ::
  "u8 list option \<Rightarrow> nat \<Rightarrow> u8 list option \<Rightarrow> nat \<Rightarrow> u8 list cres" where
  "pakka_dk_inflate inp in_len out out_len =
     (if (inp = None \<and> in_len > 0) \<or> (out = None \<and> out_len > 0)
      then Fail PAKKA_ERR_INVALID_ARGUMENT
      else cbind (dk_inflate_loop (case_option [] id inp) in_len out_len 0 0 (case_option [] id out))
        (\<lambda>(produced, out').
           if produced \<noteq> out_len then Fail PAKKA_ERR_FORMAT else Ok out'))"

section \<open>Encoder\<close>

abbreviation (input) "DK_MAX_ZERO_RUN \<equiv> (64 :: nat)"
abbreviation (input) "DK_MAX_BYTE_RUN \<equiv> (64 :: nat)"
abbreviation (input) "DK_MAX_BACK_REF \<equiv> (62 :: nat)"
abbreviation (input) "DK_MAX_BACK_DIST \<equiv> (257 :: nat)"
abbreviation (input) "DK_MAX_LITERAL \<equiv> (64 :: nat)"
abbreviation (input) "DK_MIN_ZERO_RUN \<equiv> (2 :: nat)"
abbreviation (input) "DK_MIN_BYTE_RUN \<equiv> (3 :: nat)"
abbreviation (input) "DK_MIN_BACK_REF \<equiv> (3 :: nat)"

text \<open>\<open>while (len < max && in[i + len] == b) len++;\<close>\<close>

function dk_run_loop :: "u8 list \<Rightarrow> nat \<Rightarrow> u8 \<Rightarrow> nat \<Rightarrow> nat \<Rightarrow> nat cres" where
  "dk_run_loop inp i b mx len =
     (if len < mx then
        cbind (mem_load inp (i + len)) (\<lambda>v.
          if v = b then dk_run_loop inp i b mx (Suc len) else Ok len)
      else Ok len)"
  by pat_completeness auto
termination
  by (relation "measure (\<lambda>(inp, i, b, mx, len). mx - len)") auto

declare dk_run_loop.simps [simp del]

definition dk_count_zero_run :: "u8 list \<Rightarrow> nat \<Rightarrow> nat \<Rightarrow> nat cres" where
  "dk_count_zero_run inp in_len i =
     (let mx = in_len - i; mx = (if mx > DK_MAX_ZERO_RUN then DK_MAX_ZERO_RUN else mx)
      in dk_run_loop inp i 0 mx 0)"

definition dk_count_byte_run :: "u8 list \<Rightarrow> nat \<Rightarrow> nat \<Rightarrow> nat cres" where
  "dk_count_byte_run inp in_len i =
     (if i \<ge> in_len then Ok 0
      else cbind (mem_load inp i) (\<lambda>b.
        (let mx = in_len - i; mx = (if mx > DK_MAX_BYTE_RUN then DK_MAX_BYTE_RUN else mx)
         in dk_run_loop inp i b mx 1)))"

text \<open>\<open>while (len < per_d_cap && in[i + len] == in[i + len - d]) len++;\<close>\<close>

function dk_match_loop :: "u8 list \<Rightarrow> nat \<Rightarrow> nat \<Rightarrow> nat \<Rightarrow> nat \<Rightarrow> nat cres" where
  "dk_match_loop inp i d per_d_cap len =
     (if len < per_d_cap then
        cbind (mem_load inp (i + len)) (\<lambda>x.
        cbind (mem_load inp (i + len - d)) (\<lambda>y.
          if x = y then dk_match_loop inp i d per_d_cap (Suc len) else Ok len))
      else Ok len)"
  by pat_completeness auto
termination
  by (relation "measure (\<lambda>(inp, i, d, per_d_cap, len). per_d_cap - len)") auto

declare dk_match_loop.simps [simp del]

text \<open>The search over distances; the result is \<open>(best_len, best_dist)\<close>.\<close>

function dk_find_loop ::
  "u8 list \<Rightarrow> nat \<Rightarrow> nat \<Rightarrow> nat \<Rightarrow> nat \<Rightarrow> nat \<Rightarrow> nat \<Rightarrow> (nat \<times> nat) cres" where
  "dk_find_loop inp i remaining max_d d best_len best_dist =
     (if d \<le> max_d then
        (let per_d_cap = (if d < DK_MAX_BACK_REF then d else DK_MAX_BACK_REF);
             per_d_cap = (if per_d_cap > remaining then remaining else per_d_cap) in
         if per_d_cap < DK_MIN_BACK_REF
         then dk_find_loop inp i remaining max_d (Suc d) best_len best_dist
         else cbind (mem_load inp (i - d)) (\<lambda>x. cbind (mem_load inp i) (\<lambda>y.
           if x \<noteq> y then dk_find_loop inp i remaining max_d (Suc d) best_len best_dist
           else cbind (dk_match_loop inp i d per_d_cap 1) (\<lambda>len.
             if len > best_len then
               (if len = DK_MAX_BACK_REF then Ok (len, d)
                else dk_find_loop inp i remaining max_d (Suc d) len d)
             else dk_find_loop inp i remaining max_d (Suc d) best_len best_dist))))
      else Ok (best_len, best_dist))"
  by pat_completeness auto
termination
  by (relation "measure (\<lambda>(inp, i, remaining, max_d, d, best_len, best_dist). Suc max_d - d)") auto

declare dk_find_loop.simps [simp del]

text \<open>The caller presets \<open>*out_dist\<close> to 0, which is kept when the length is 0.\<close>

definition dk_find_match :: "u8 list \<Rightarrow> nat \<Rightarrow> nat \<Rightarrow> (nat \<times> nat) cres" where
  "dk_find_match inp in_len i =
     (if i < 2 then Ok (0, 0)
      else (let max_d = (if i < DK_MAX_BACK_DIST then i else DK_MAX_BACK_DIST);
                remaining = in_len - i in
        if remaining < DK_MIN_BACK_REF then Ok (0, 0)
        else cbind (dk_find_loop inp i remaining max_d 2 0 0) (\<lambda>(best_len, best_dist).
          if best_len < DK_MIN_BACK_REF then Ok (0, 0) else Ok (best_len, best_dist))))"

text \<open>The choice of token: its kind and how many input bytes it takes.\<close>

definition dk_choose :: "nat \<Rightarrow> nat \<Rightarrow> nat \<Rightarrow> nat \<times> nat" where
  "dk_choose zlen rlen mlen =
     (let z_eff = (if zlen \<ge> DK_MIN_ZERO_RUN then zlen else 0);
          r_eff = (if rlen \<ge> DK_MIN_BYTE_RUN then rlen else 0);
          m_eff = (if mlen \<ge> DK_MIN_BACK_REF then mlen else 0) in
      if z_eff = 0 \<and> r_eff = 0 \<and> m_eff = 0 then (0, 1)
      else if z_eff * 2 > r_eff \<and> z_eff * 2 > m_eff then (1, z_eff)
      else if m_eff > r_eff then (3, m_eff)
      else (2, r_eff))"

text \<open>Emit the pending literal run: its opcode, then the bytes.\<close>

definition dk_emit_literal ::
  "u8 list \<Rightarrow> nat \<Rightarrow> nat \<Rightarrow> nat \<Rightarrow> u8 list \<Rightarrow> (nat \<times> u8 list) cres" where
  "dk_emit_literal inp literal_start literal_len op out =
     cbind (mem_store out op (word_of_nat (literal_len - 1))) (\<lambda>out1.
     cbind (mem_copy out1 (Suc op) inp literal_start literal_len) (\<lambda>out2.
       Ok (Suc op + literal_len, out2)))"

definition dk_flush_literal ::
  "u8 list \<Rightarrow> nat \<Rightarrow> nat \<Rightarrow> nat \<Rightarrow> u8 list \<Rightarrow> (nat \<times> u8 list) cres" where
  "dk_flush_literal inp literal_start literal_len op out =
     (if literal_len > 0 then dk_emit_literal inp literal_start literal_len op out else Ok (op, out))"

text \<open>Emit a zero run, a byte run or a back reference.\<close>

definition dk_emit_token ::
  "u8 list \<Rightarrow> nat \<Rightarrow> nat \<Rightarrow> nat \<Rightarrow> nat \<Rightarrow> nat \<Rightarrow> u8 list \<Rightarrow> (nat \<times> u8 list) cres" where
  "dk_emit_token inp i kind tk mdist op out =
     (if kind = 1 then
        cbind (mem_store out op (word_of_nat (tk + 62))) (\<lambda>out1. Ok (Suc op, out1))
      else if kind = 2 then
        cbind (mem_store out op (word_of_nat (tk + 126))) (\<lambda>out1.
        cbind (mem_load inp i) (\<lambda>b.
        cbind (mem_store out1 (Suc op) b) (\<lambda>out2. Ok (Suc (Suc op), out2))))
      else
        cbind (mem_store out op (word_of_nat (tk + 190))) (\<lambda>out1.
        cbind (mem_store out1 (Suc op) (word_of_nat (mdist - 2))) (\<lambda>out2.
          Ok (Suc (Suc op), out2))))"

lemma dk_choose_pos: "dk_choose z r m = (k, t) \<Longrightarrow> 0 < t"
  by (auto simp: dk_choose_def Let_def split: if_splits)

text \<open>The main loop; its result is \<open>(op, literal_start, literal_len, out)\<close>.\<close>

function dk_deflate_loop ::
  "u8 list \<Rightarrow> nat \<Rightarrow> nat \<Rightarrow> nat \<Rightarrow> nat \<Rightarrow> nat \<Rightarrow> u8 list \<Rightarrow> (nat \<times> nat \<times> nat \<times> u8 list) cres" where
  "dk_deflate_loop inp in_len i op literal_start literal_len out =
     (if i < in_len then
        cbind (dk_count_zero_run inp in_len i) (\<lambda>zlen.
        cbind (dk_count_byte_run inp in_len i) (\<lambda>rlen.
        cbind (dk_find_match inp in_len i) (\<lambda>(mlen, mdist).
        (case dk_choose zlen rlen mlen of (kind, tk) \<Rightarrow>
          if kind = 0 then
            (let ls = (if literal_len = 0 then i else literal_start); ll = Suc literal_len in
             if ll = DK_MAX_LITERAL then
               cbind (dk_emit_literal inp ls ll op out) (\<lambda>(op', out').
                 dk_deflate_loop inp in_len (Suc i) op' ls 0 out')
             else dk_deflate_loop inp in_len (Suc i) op ls ll out)
          else
            cbind (dk_flush_literal inp literal_start literal_len op out) (\<lambda>(op1, out1).
            cbind (dk_emit_token inp i kind tk mdist op1 out1) (\<lambda>(op2, out2).
              dk_deflate_loop inp in_len (i + tk) op2 literal_start 0 out2))))))
      else Ok (op, literal_start, literal_len, out))"
  by pat_completeness auto
termination
  by (relation "measure (\<lambda>(inp, in_len, i, op, ls, ll, out). in_len - i)")
     (auto dest!: dk_choose_pos [OF sym])

declare dk_deflate_loop.simps [simp del]

definition dk_worst :: "nat \<Rightarrow> nat" where
  "dk_worst in_len = in_len + (in_len + 63) div 64 + 1"

definition pakka_dk_deflate ::
  "u8 list option \<Rightarrow> nat \<Rightarrow> u8 list option \<Rightarrow> nat \<Rightarrow> (nat \<times> u8 list) cres" where
  "pakka_dk_deflate inp in_len out out_cap =
     (if (inp = None \<and> in_len > 0) \<or> (out = None \<and> out_cap > 0)
      then Fail PAKKA_ERR_INVALID_ARGUMENT
      else if dk_worst in_len > out_cap then Fail PAKKA_ERR_LIMIT
      else (let b = case_option [] id inp in
        cbind (dk_deflate_loop b in_len 0 0 0 0 (case_option [] id out)) (\<lambda>(op, ls, ll, out1).
        cbind (dk_flush_literal b ls ll op out1) (\<lambda>(op2, out2).
        cbind (mem_store out2 op2 255) (\<lambda>out3. Ok (Suc op2, out3))))))"

section \<open>Reference decoder\<close>

fun dk_back :: "nat \<Rightarrow> nat \<Rightarrow> u8 list \<Rightarrow> u8 list" where
  "dk_back 0 distance acc = acc"
| "dk_back (Suc n) distance acc = dk_back n distance (acc @ [acc ! (length acc - distance)])"

function dk_run :: "u8 list \<Rightarrow> u8 list \<Rightarrow> u8 list option" where
  "dk_run [] acc = Some acc"
| "dk_run (c # s) acc =
     (let k = unat c in
      if k < 64 then
        (if Suc k \<le> length s then dk_run (drop (Suc k) s) (acc @ take (Suc k) s) else None)
      else if k < 128 then dk_run s (acc @ replicate (k - 62) 0)
      else if k < 192 then
        (case s of [] \<Rightarrow> None | v # s' \<Rightarrow> dk_run s' (acc @ replicate (k - 126) v))
      else if k < 254 then
        (case s of [] \<Rightarrow> None
         | d # s' \<Rightarrow> if length acc < unat d + 2 then None
                    else dk_run s' (dk_back (k - 190) (unat d + 2) acc))
      else if k = 254 then None else Some acc)"
  by pat_completeness auto
termination
  by (relation "measure (\<lambda>(s, acc). length s)") auto

lemma length_dk_back [simp]: "length (dk_back n d acc) = length acc + n"
  by (induction n d acc rule: dk_back.induct) auto

lemma dk_back_prefix: "\<exists>t. dk_back n d acc = acc @ t"
  by (induction n d acc rule: dk_back.induct) auto

lemma dk_run_length: "dk_run s acc = Some r \<Longrightarrow> length acc \<le> length r"
proof (induction s acc arbitrary: r rule: dk_run.induct)
  case (1 acc)
  then show ?case by simp
next
  case (2 c s acc)
  note IH = "2.IH"
  from "2.prems" show ?case
    by (auto simp: Let_def simp del: add_2_eq_Suc' split: if_splits list.splits
        dest!: IH [OF refl, rotated -1])
qed

definition dk_finish :: "nat \<Rightarrow> u8 list \<Rightarrow> u8 list option \<Rightarrow> (nat \<times> u8 list) cres" where
  "dk_finish out_len out r =
     (case r of None \<Rightarrow> Fail PAKKA_ERR_FORMAT
      | Some acc \<Rightarrow> if length acc \<le> out_len then Ok (length acc, acc @ drop (length acc) out)
                   else Fail PAKKA_ERR_FORMAT)"

lemma dk_finish_None [simp]: "dk_finish out_len out None = Fail PAKKA_ERR_FORMAT"
  by (simp add: dk_finish_def)

lemma dk_finish_overrun:
  "out_len < length acc \<Longrightarrow> dk_finish out_len out (dk_run s acc) = Fail PAKKA_ERR_FORMAT"
  by (auto simp: dk_finish_def split: option.splits dest: dk_run_length)

lemma dk_finish_cong:
  "drop n out = drop n out' \<Longrightarrow> n \<le> length acc \<Longrightarrow>
   dk_finish out_len out (dk_run s acc) = dk_finish out_len out' (dk_run s acc)"
proof -
  assume a: "drop n out = drop n out'" "n \<le> length acc"
  have "drop m out = drop m out'" if "n \<le> m" for m
  proof -
    from a(1) have "drop (m - n) (drop n out) = drop (m - n) (drop n out')" by simp
    with that show ?thesis by simp
  qed
  with a(2) show ?thesis
    by (auto simp: dk_finish_def split: option.splits dest!: dk_run_length)
qed

lemma dk_copy_back_eq:
  "2 \<le> d \<Longrightarrow> d \<le> p \<Longrightarrow> p + n \<le> length out \<Longrightarrow>
   dk_copy_back n d p out = Ok (dk_back n d (take p out) @ drop (p + n) out)"
proof (induction n d p out rule: dk_copy_back.induct)
  case (1 d p out)
  then show ?case by simp
next
  case (2 n d p out)
  let ?out = "out[p := out ! (p - d)]"
  from "2.prems" have "take (Suc p) ?out = take p out @ [take p out ! (p - d)]"
    by (subst take_Suc_list_update) auto
  moreover from "2.prems" have "drop (Suc p + n) ?out = drop (p + Suc n) out"
    by simp
  moreover have "dk_copy_back (Suc n) d p out = dk_copy_back n d (Suc p) ?out"
    using "2.prems" by (simp add: mem_simps)
  ultimately show ?case
    using "2.prems" "2.IH" [of "out ! (p - d)" ?out] by (simp add: mem_simps min_def)
qed


text \<open>The input still to be read.\<close>

definition window :: "'a list \<Rightarrow> nat \<Rightarrow> nat \<Rightarrow> 'a list" where
  "window inp in_len read = take (in_len - read) (drop read inp)"

lemma window_Cons:
  "read < in_len \<Longrightarrow> in_len \<le> length inp \<Longrightarrow>
   window inp in_len read = inp ! read # window inp in_len (Suc read)"
  by (simp add: window_def Cons_nth_drop_Suc [symmetric] Suc_diff_Suc [symmetric])

lemma window_Nil: "in_len \<le> read \<Longrightarrow> window inp in_len read = []"
  by (simp add: window_def)

lemma length_window: "in_len \<le> length inp \<Longrightarrow> length (window inp in_len read) = in_len - read"
  by (simp add: window_def)

lemma drop_window: "drop k (window inp in_len read) = window inp in_len (read + k)"
  by (simp add: window_def drop_take add.commute diff_diff_add)

lemma take_window: "k \<le> in_len - read \<Longrightarrow> take k (window inp in_len read) = take k (drop read inp)"
  by (simp add: window_def min_def)

lemma dk_finish_splice:
  "p + n \<le> length out \<Longrightarrow> length xs = n \<Longrightarrow>
   dk_finish out_len (take p out @ xs @ drop (p + n) out) (dk_run s (take p out @ xs))
   = dk_finish out_len out (dk_run s (take p out @ xs))"
  by (rule dk_finish_cong [of "p + n"]) auto

text \<open>The loop agrees with the reference from read position \<open>rd\<close> on.\<close>

definition dk_agrees :: "u8 list \<Rightarrow> nat \<Rightarrow> nat \<Rightarrow> nat \<Rightarrow> bool" where
  "dk_agrees inp in_len out_len rd \<longleftrightarrow>
     (\<forall>p out. p \<le> out_len \<longrightarrow> out_len \<le> length out \<longrightarrow>
        dk_inflate_loop inp in_len out_len rd p out
        = dk_finish out_len out (dk_run (window inp in_len rd) (take p out)))"

lemma dk_agreesD:
  "dk_agrees inp in_len out_len rd \<Longrightarrow> p \<le> out_len \<Longrightarrow> out_len \<le> length out \<Longrightarrow>
   dk_inflate_loop inp in_len out_len rd p out
   = dk_finish out_len out (dk_run (window inp in_len rd) (take p out))"
  by (simp add: dk_agrees_def)

text \<open>A token that writes \<open>xs\<close> and goes on at \<open>rd'\<close>.\<close>

lemma dk_agrees_write:
  assumes "dk_agrees inp in_len out_len rd'" "p + length xs \<le> out_len" "out_len \<le> length out"
  shows "dk_inflate_loop inp in_len out_len rd' (p + length xs)
           (take p out @ xs @ drop (p + length xs) out)
         = dk_finish out_len out (dk_run (window inp in_len rd') (take p out @ xs))"
  using dk_agreesD [OF assms(1), of "p + length xs" "take p out @ xs @ drop (p + length xs) out"]
    dk_finish_splice [of p "length xs" out xs out_len "window inp in_len rd'"] assms(2,3)
  by simp

lemma dk_agrees_literal:
  assumes "rd < in_len" "in_len \<le> length inp" "p \<le> out_len" "out_len \<le> length out"
    and "unat (inp ! rd) < 64"
    and later: "\<And>rd'. rd < rd' \<Longrightarrow> dk_agrees inp in_len out_len rd'"
  shows "dk_inflate_loop inp in_len out_len rd p out
         = dk_finish out_len out (dk_run (window inp in_len rd) (take p out))"
proof -
  let ?n = "Suc (unat (inp ! rd))"
  let ?xs = "take ?n (drop (Suc rd) inp)"
  note defs = dk_inflate_loop.simps [of inp in_len out_len rd p out] Let_def mem_simps
    window_Cons length_window drop_window take_window
  show ?thesis
  proof (cases "?n \<le> in_len - Suc rd \<and> ?n \<le> out_len - p")
    case True
    with assms(2) have "length ?xs = ?n" by (simp add: min_def) linarith
    moreover from True assms(1-4) have "mem_copy out p inp (Suc rd) ?n
        = Ok (take p out @ ?xs @ drop (p + ?n) out)"
      by (intro mem_copy_ok) linarith+
    moreover from True assms(3) have "p + ?n \<le> out_len" by linarith
    ultimately show ?thesis
      using True assms(1-5) dk_agrees_write [OF later [of "Suc rd + ?n"], of p ?xs out]
      by (simp add: defs)
  next
    case False
    with assms(1-5) show ?thesis
      by (auto simp: defs dk_finish_overrun)
  qed
qed

lemma dk_agrees_zero_run:
  assumes "rd < in_len" "in_len \<le> length inp" "p \<le> out_len" "out_len \<le> length out"
    and "64 \<le> unat (inp ! rd)" "unat (inp ! rd) < 128"
    and later: "\<And>rd'. rd < rd' \<Longrightarrow> dk_agrees inp in_len out_len rd'"
  shows "dk_inflate_loop inp in_len out_len rd p out
         = dk_finish out_len out (dk_run (window inp in_len rd) (take p out))"
  using assms(1-6)
    dk_agrees_write [OF later [of "Suc rd"], of p "replicate (unat (inp ! rd) - 62) 0" out]
  by (auto simp: dk_inflate_loop.simps [of inp in_len out_len rd p out] Let_def mem_simps
      window_Cons dk_finish_overrun)

lemma dk_agrees_byte_run:
  assumes "rd < in_len" "in_len \<le> length inp" "p \<le> out_len" "out_len \<le> length out"
    and "128 \<le> unat (inp ! rd)" "unat (inp ! rd) < 192"
    and later: "\<And>rd'. rd < rd' \<Longrightarrow> dk_agrees inp in_len out_len rd'"
  shows "dk_inflate_loop inp in_len out_len rd p out
         = dk_finish out_len out (dk_run (window inp in_len rd) (take p out))"
proof (cases "Suc rd < in_len")
  case True
  then show ?thesis
    using assms(1-6) dk_agrees_write [OF later [of "Suc (Suc rd)"], of p
        "replicate (unat (inp ! rd) - 126) (inp ! Suc rd)" out]
    by (auto simp: dk_inflate_loop.simps [of inp in_len out_len rd p out] Let_def mem_simps
        window_Cons dk_finish_overrun)
next
  case False
  with assms(1-6) show ?thesis
    by (simp add: dk_inflate_loop.simps [of inp in_len out_len rd p out] Let_def mem_simps
        window_Cons window_Nil dk_finish_def)
qed

lemma dk_agrees_back_reference:
  assumes "rd < in_len" "in_len \<le> length inp" "p \<le> out_len" "out_len \<le> length out"
    and "192 \<le> unat (inp ! rd)" "unat (inp ! rd) < 254"
    and later: "\<And>rd'. rd < rd' \<Longrightarrow> dk_agrees inp in_len out_len rd'"
  shows "dk_inflate_loop inp in_len out_len rd p out
         = dk_finish out_len out (dk_run (window inp in_len rd) (take p out))"
proof (cases "Suc rd < in_len")
  case True
  let ?n = "unat (inp ! rd) - 190" and ?d = "unat (inp ! Suc rd) + 2"
  have here: "\<not> unat (inp ! rd) < 192" "mem_load inp rd = Ok (inp ! rd)"
    "mem_load inp (Suc rd) = Ok (inp ! Suc rd)"
    using assms True by (simp_all add: mem_simps)
  have unf: "dk_inflate_loop inp in_len out_len rd p out
      = (if ?d > p then Fail PAKKA_ERR_FORMAT
         else if ?n > out_len - p then Fail PAKKA_ERR_FORMAT
         else cbind (dk_copy_back ?n ?d p out) (\<lambda>out'.
                dk_inflate_loop inp in_len out_len (Suc (Suc rd)) (p + ?n) out'))"
    using assms(1,5,6) True
    by (simp only: dk_inflate_loop.simps [of inp in_len out_len rd p out] here Let_def cbind.simps)
       simp
  have run: "dk_run (window inp in_len rd) (take p out)
      = (if ?d > p then None
         else dk_run (window inp in_len (Suc (Suc rd))) (dk_back ?n ?d (take p out)))"
    using assms True by (simp add: window_Cons Let_def min_def)
  obtain xs where xs: "dk_back ?n ?d (take p out) = take p out @ xs"
    using dk_back_prefix by blast
  have len: "length xs = ?n"
    using arg_cong [OF xs, of length] by (simp only: length_dk_back length_append add_left_cancel)
  consider "?d > p" | "?d \<le> p" "?n > out_len - p" | "?d \<le> p" "?n \<le> out_len - p"
    by linarith
  then show ?thesis
  proof cases
    case 1
    then show ?thesis by (simp add: unf run dk_finish_def)
  next
    case 2
    with assms(3,4) len show ?thesis by (simp add: unf run xs dk_finish_overrun)
  next
    case 3
    with assms(3,4) len dk_agrees_write [OF later [of "Suc (Suc rd)"], of p xs out]
    show ?thesis by (simp add: unf run xs dk_copy_back_eq del: add_2_eq_Suc')
  qed
next
  case False
  with assms(1-6) show ?thesis
    by (simp add: dk_inflate_loop.simps [of inp in_len out_len rd p out] Let_def mem_simps
        window_Cons window_Nil dk_finish_def)
qed

lemma dk_agrees_step:
  assumes "in_len \<le> length inp"
    and later: "\<And>rd'. rd < rd' \<Longrightarrow> dk_agrees inp in_len out_len rd'"
  shows "dk_agrees inp in_len out_len rd"
  unfolding dk_agrees_def
proof (intro allI impI)
  fix p and out :: "u8 list"
  assume out: "p \<le> out_len" "out_len \<le> length out"
  show "dk_inflate_loop inp in_len out_len rd p out
        = dk_finish out_len out (dk_run (window inp in_len rd) (take p out))"
  proof (cases "rd < in_len")
    case False
    with out show ?thesis
      by (simp add: dk_inflate_loop.simps [of inp in_len out_len rd] window_Nil dk_finish_def)
  next
    case True
    note here = True assms(1) out
    have "unat (inp ! rd) < 256" by (rule unat_u8_bound)
    then consider "unat (inp ! rd) < 64" | "64 \<le> unat (inp ! rd)" "unat (inp ! rd) < 128"
      | "128 \<le> unat (inp ! rd)" "unat (inp ! rd) < 192"
      | "192 \<le> unat (inp ! rd)" "unat (inp ! rd) < 254" | "254 \<le> unat (inp ! rd)"
      by linarith
    then show ?thesis
    proof cases
      case 5
      with here show ?thesis
        by (simp add: dk_inflate_loop.simps [of inp in_len out_len rd] Let_def mem_simps
            window_Cons dk_finish_def)
    qed (blast intro: here later dk_agrees_literal dk_agrees_zero_run dk_agrees_byte_run
        dk_agrees_back_reference)+
  qed
qed

lemma dk_inflate_agrees: "in_len \<le> length inp \<Longrightarrow> dk_agrees inp in_len out_len rd"
proof (induction "in_len - rd" arbitrary: rd rule: less_induct)
  case less
  show ?case
  proof (rule dk_agrees_step [OF less.prems])
    fix rd' assume "rd < rd'"
    show "dk_agrees inp in_len out_len rd'"
    proof (cases "rd < in_len")
      case True
      with \<open>rd < rd'\<close> show ?thesis by (intro less.hyps less.prems) auto
    next
      case False
      with \<open>rd < rd'\<close> show ?thesis
        by (simp add: dk_agrees_def dk_inflate_loop.simps [of inp in_len out_len rd']
            window_Nil dk_finish_def)
    qed
  qed
qed

section \<open>Encoder: run counting and match search\<close>

lemma dk_run_loop_ok:
  "i + mx \<le> length inp \<Longrightarrow> len \<le> mx \<Longrightarrow> (\<And>k. k < len \<Longrightarrow> inp ! (i + k) = b) \<Longrightarrow>
   \<exists>n. dk_run_loop inp i b mx len = Ok n \<and> len \<le> n \<and> n \<le> mx \<and> (\<forall>k<n. inp ! (i + k) = b)"
proof (induction inp i b mx len rule: dk_run_loop.induct)
  case (1 inp i b mx len)
  show ?case
  proof (cases "len < mx \<and> inp ! (i + len) = b")
    case True
    then have "\<And>k. k < Suc len \<Longrightarrow> inp ! (i + k) = b"
      using "1.prems"(3) by (metis less_Suc_eq)
    with True "1.IH" [of b] "1.prems"(1,2) obtain n where
      "dk_run_loop inp i b mx (Suc len) = Ok n" "Suc len \<le> n" "n \<le> mx" "\<forall>k<n. inp ! (i + k) = b"
      by (auto simp: mem_simps)
    with True "1.prems"(1) show ?thesis
      by (auto simp: dk_run_loop.simps [of inp i b mx len] mem_simps)
  next
    case False
    with "1.prems" show ?thesis
      by (auto simp: dk_run_loop.simps [of inp i b mx len] mem_simps)
  qed
qed

lemma take_drop_replicate:
  "i + n \<le> length xs \<Longrightarrow> (\<forall>k<n. xs ! (i + k) = b) \<Longrightarrow> take n (drop i xs) = replicate n b"
  by (rule nth_equalityI) auto

lemma dk_count_zero_run_ok:
  assumes "i \<le> in_len" "in_len \<le> length inp"
  shows "\<exists>n. dk_count_zero_run inp in_len i = Ok n \<and> n \<le> 64 \<and> n \<le> in_len - i
    \<and> take n (drop i inp) = replicate n 0"
proof -
  let ?mx = "if in_len - i > 64 then 64 else in_len - i"
  have "i + ?mx \<le> length inp" using assms by (cases "in_len - i > 64") simp_all
  then obtain n where "dk_run_loop inp i 0 ?mx 0 = Ok n" "n \<le> ?mx" "\<forall>k<n. inp ! (i + k) = 0"
    using dk_run_loop_ok [of i ?mx inp 0 0] by auto
  with assms show ?thesis
    by (auto simp: dk_count_zero_run_def Let_def intro!: take_drop_replicate split: if_splits)
qed

lemma dk_count_byte_run_ok:
  assumes "i < in_len" "in_len \<le> length inp"
  shows "\<exists>n. dk_count_byte_run inp in_len i = Ok n \<and> n \<le> 64 \<and> n \<le> in_len - i
    \<and> take n (drop i inp) = replicate n (inp ! i)"
proof -
  let ?mx = "if in_len - i > 64 then 64 else in_len - i"
  have "i + ?mx \<le> length inp" using assms by (cases "in_len - i > 64") simp_all
  then obtain n where "dk_run_loop inp i (inp ! i) ?mx 1 = Ok n" "n \<le> ?mx"
    "\<forall>k<n. inp ! (i + k) = inp ! i"
    using dk_run_loop_ok [of i ?mx inp 1 "inp ! i"] assms by (auto simp: Suc_le_eq split: if_splits)
  with assms show ?thesis
    by (auto simp: dk_count_byte_run_def Let_def mem_simps intro!: take_drop_replicate
        split: if_splits)
qed

text \<open>A match of \<open>len\<close> bytes at distance \<open>d\<close> before position \<open>i\<close>.\<close>

definition dk_matches :: "u8 list \<Rightarrow> nat \<Rightarrow> nat \<Rightarrow> nat \<Rightarrow> bool" where
  "dk_matches inp i d len \<longleftrightarrow> (\<forall>k<len. inp ! (i + k) = inp ! (i + k - d))"

lemma dk_matches_Suc:
  "dk_matches inp i d (Suc len) \<longleftrightarrow>
     dk_matches inp i d len \<and> inp ! (i + len) = inp ! (i + len - d)"
  by (auto simp: dk_matches_def less_Suc_eq)

lemma dk_match_loop_ok:
  "d \<le> i \<Longrightarrow> i + cap \<le> length inp \<Longrightarrow> len \<le> cap \<Longrightarrow> dk_matches inp i d len \<Longrightarrow>
   \<exists>n. dk_match_loop inp i d cap len = Ok n \<and> len \<le> n \<and> n \<le> cap \<and> dk_matches inp i d n
     \<and> (n < cap \<longrightarrow> \<not> dk_matches inp i d (Suc n))"
proof (induction inp i d cap len rule: dk_match_loop.induct)
  case (1 inp i d cap len)
  show ?case
  proof (cases "len < cap \<and> inp ! (i + len) = inp ! (i + len - d)")
    case True
    with "1.prems" have "dk_matches inp i d (Suc len)" by (simp add: dk_matches_Suc)
    with True "1.IH" [of "inp ! (i + len)" "inp ! (i + len - d)"] "1.prems"(1-3) obtain n where
      "dk_match_loop inp i d cap (Suc len) = Ok n" "Suc len \<le> n" "n \<le> cap" "dk_matches inp i d n"
      "n < cap \<longrightarrow> \<not> dk_matches inp i d (Suc n)"
      by (auto simp: mem_simps)
    with True "1.prems"(1,2) show ?thesis
      by (auto simp: dk_match_loop.simps [of inp i d cap len] mem_simps)
  next
    case False
    with "1.prems" show ?thesis
      by (auto simp: dk_match_loop.simps [of inp i d cap len] mem_simps dk_matches_Suc)
  qed
qed

text \<open>What the search may return: nothing, or a match the decoder can replay.\<close>

definition dk_found :: "u8 list \<Rightarrow> nat \<Rightarrow> nat \<Rightarrow> nat \<Rightarrow> nat \<Rightarrow> nat \<Rightarrow> bool" where
  "dk_found inp i remaining max_d len d \<longleftrightarrow>
     len = 0 \<or> (2 \<le> d \<and> d \<le> max_d \<and> len \<le> d \<and> len \<le> 62 \<and> len \<le> remaining \<and> dk_matches inp i d len)"

lemma dk_find_loop_ok:
  "max_d \<le> i \<Longrightarrow> 0 < remaining \<Longrightarrow> i + remaining \<le> length inp \<Longrightarrow> 2 \<le> d \<Longrightarrow>
   dk_found inp i remaining max_d bl bd \<Longrightarrow>
   \<exists>l e. dk_find_loop inp i remaining max_d d bl bd = Ok (l, e) \<and> dk_found inp i remaining max_d l e"
proof (induction inp i remaining max_d d bl bd rule: dk_find_loop.induct)
  case (1 inp i remaining max_d d bl bd)
  note prems = "1.prems"
  define cap where "cap = min (min d 62) remaining"
  have capdef: "(if (if d < 62 then d else 62) > remaining then remaining
                 else (if d < 62 then d else 62)) = cap"
    by (simp add: cap_def)
  note unf = dk_find_loop.simps [of inp i remaining max_d d bl bd, unfolded Let_def capdef]
  have ldd: "d \<le> max_d \<Longrightarrow> mem_load inp (i - d) = Ok (inp ! (i - d))"
    and ldi: "mem_load inp i = Ok (inp ! i)"
    using prems by (simp_all add: mem_simps)
  consider (out) "max_d < d" | (small) "d \<le> max_d" "cap < 3"
    | (differ) "d \<le> max_d" "3 \<le> cap" "inp ! (i - d) \<noteq> inp ! i"
    | (same) "d \<le> max_d" "3 \<le> cap" "inp ! (i - d) = inp ! i"
    by linarith
  then show ?case
  proof cases
    case out
    then show ?thesis using prems by (auto simp: unf)
  next
    case small
    then show ?thesis
      using "1.IH"(1) [OF small(1) refl refl] prems by (simp add: unf capdef)
  next
    case differ
    then show ?thesis
      using "1.IH"(2) [OF differ(1) refl refl _ ldd [OF differ(1)] ldi] prems
      by (simp add: unf capdef ldd ldi)
  next
    case same
    have "dk_matches inp i d 1"
      using same by (simp add: dk_matches_def)
    moreover have "d \<le> i" "i + cap \<le> length inp" "1 \<le> cap"
      using prems same by (auto simp: cap_def)
    ultimately obtain n where n: "dk_match_loop inp i d cap 1 = Ok n" "1 \<le> n" "n \<le> cap"
      "dk_matches inp i d n"
      using dk_match_loop_ok [of d i cap inp 1] by auto
    have fnd: "dk_found inp i remaining max_d n d"
      using n same prems by (simp add: dk_found_def cap_def)
    show ?thesis
      using "1.IH"(3) [OF same(1) refl refl _ ldd [OF same(1)] ldi _ n(1) [folded capdef]]
        "1.IH"(4) [OF same(1) refl refl _ ldd [OF same(1)] ldi _ n(1) [folded capdef]]
        prems same n fnd
      by (auto simp: unf capdef ldd ldi)
  qed
qed

lemma dk_find_match_ok:
  assumes "i < in_len" "in_len \<le> length inp"
  shows "\<exists>l e. dk_find_match inp in_len i = Ok (l, e) \<and> dk_found inp i (in_len - i) (min i 257) l e"
proof -
  consider "i < 2 \<or> in_len - i < 3" | "2 \<le> i" "3 \<le> in_len - i" by linarith
  then show ?thesis
  proof cases
    case 1
    then show ?thesis by (auto simp: dk_find_match_def Let_def dk_found_def)
  next
    case 2
    with assms obtain l e where
      "dk_find_loop inp i (in_len - i) (min i 257) 2 0 0 = Ok (l, e)"
      "dk_found inp i (in_len - i) (min i 257) l e"
      using dk_find_loop_ok [of "min i 257" i "in_len - i" inp 2 0 0] by (auto simp: dk_found_def)
    moreover have "(if i < 257 then i else 257) = min i 257" by simp
    ultimately show ?thesis
      using 2 by (auto simp: dk_find_match_def Let_def dk_found_def)
  qed
qed


section \<open>Encoder: what the emitted bytes decode to\<close>

text \<open>The bytes \<open>s\<close>, whatever follows them, decode to \<open>acc\<close>.\<close>

definition dk_decodes :: "u8 list \<Rightarrow> u8 list \<Rightarrow> bool" where
  "dk_decodes s acc \<longleftrightarrow> (\<forall>rest. dk_run (s @ rest) [] = dk_run rest acc)"

lemma dk_decodes_Nil: "dk_decodes [] []"
  by (simp add: dk_decodes_def)

lemma dk_decodes_append:
  "dk_decodes s acc \<Longrightarrow> (\<And>rest. dk_run (t @ rest) acc = dk_run rest acc') \<Longrightarrow> dk_decodes (s @ t) acc'"
  by (simp add: dk_decodes_def)

lemma dk_decodes_literal:
  "dk_decodes s acc \<Longrightarrow> 0 < length xs \<Longrightarrow> length xs \<le> 64 \<Longrightarrow>
   dk_decodes (s @ word_of_nat (length xs - 1) # xs) (acc @ xs)"
  by (erule dk_decodes_append) (cases xs, simp_all add: unat_of_nat_u8 Let_def)

lemma dk_decodes_zero_run:
  "dk_decodes s acc \<Longrightarrow> 2 \<le> n \<Longrightarrow> n \<le> 64 \<Longrightarrow>
   dk_decodes (s @ [word_of_nat (n + 62)]) (acc @ replicate n 0)"
  by (erule dk_decodes_append) (simp add: unat_of_nat_u8 del: of_nat_add)

lemma dk_decodes_byte_run:
  "dk_decodes s acc \<Longrightarrow> 3 \<le> n \<Longrightarrow> n \<le> 64 \<Longrightarrow>
   dk_decodes (s @ [word_of_nat (n + 126), b]) (acc @ replicate n b)"
  by (erule dk_decodes_append) (simp add: unat_of_nat_u8 del: of_nat_add)

lemma dk_back_no_overlap:
  "n \<le> d \<Longrightarrow> d \<le> length acc \<Longrightarrow> dk_back n d acc = acc @ take n (drop (length acc - d) acc)"
proof (induction n d acc rule: dk_back.induct)
  case (1 d acc)
  then show ?case by simp
next
  case (2 n d acc)
  let ?j = "length acc - d"
  have "?j < length acc" using "2.prems" by simp
  then have "take (Suc n) (drop ?j acc) = acc ! ?j # take n (drop (Suc ?j) acc)"
    by (simp add: Cons_nth_drop_Suc [symmetric])
  moreover have "length (acc @ [acc ! ?j]) - d = Suc ?j" using "2.prems" by simp
  moreover have "take n (drop (Suc ?j) (acc @ [acc ! ?j])) = take n (drop (Suc ?j) acc)"
    using "2.prems" by simp
  ultimately show ?case using "2.IH" "2.prems" by simp
qed

lemma dk_decodes_back_reference:
  assumes "dk_decodes s acc" "3 \<le> n" "n \<le> 62" "n \<le> d" "2 \<le> d" "d \<le> 257" "d \<le> length acc"
  shows "dk_decodes (s @ [word_of_nat (n + 190), word_of_nat (d - 2)])
           (acc @ take n (drop (length acc - d) acc))"
  using assms(1)
proof (rule dk_decodes_append)
  fix rest
  have "unat (word_of_nat (n + 190) :: u8) = n + 190" "unat (word_of_nat (d - 2) :: u8) = d - 2"
    using assms by (simp_all add: unat_of_nat_u8 del: of_nat_add of_nat_diff)
  moreover have "d - 2 + 2 = d" using assms by simp
  ultimately show "dk_run ([word_of_nat (n + 190), word_of_nat (d - 2)] @ rest) acc
      = dk_run rest (acc @ take n (drop (length acc - d) acc))"
    using assms dk_back_no_overlap [of n d acc]
    by (simp add: Let_def del: of_nat_add of_nat_diff add_2_eq_Suc')
qed

lemma dk_matches_take:
  assumes "dk_matches inp i d n" "n \<le> d" "d \<le> i" "i + n \<le> length inp"
  shows "take n (drop i inp) = take n (drop (i - d) (take i inp))"
proof (rule nth_equalityI)
  fix k assume "k < length (take n (drop i inp))"
  then have k: "k < n" "i + k < length inp" "i - d + k < i" "i - d + k = i + k - d"
    using assms by auto
  with assms(1,4) show "take n (drop i inp) ! k = take n (drop (i - d) (take i inp)) ! k"
    by (simp add: dk_matches_def)
qed (use assms in auto)

section \<open>Encoder: emission\<close>

lemma dk_emit_literal_ok:
  assumes "j + n \<le> length inp" "op + n < length out" "0 < n"
  shows "\<exists>out'. dk_emit_literal inp j n op out = Ok (Suc op + n, out') \<and> length out' = length out
    \<and> take (Suc op + n) out' = take op out @ word_of_nat (n - 1) # take n (drop j inp)"
proof -
  let ?o1 = "out[op := word_of_nat (n - 1)]"
  let ?o2 = "take (Suc op) ?o1 @ take n (drop j inp) @ drop (Suc op + n) ?o1"
  have "dk_emit_literal inp j n op out = Ok (Suc op + n, ?o2)"
    using assms by (simp add: dk_emit_literal_def mem_simps)
  moreover have "take (Suc op + n) ?o2 = take (Suc op) ?o1 @ take n (drop j inp)"
    using assms by simp
  ultimately show ?thesis
    using assms by (auto simp: take_Suc_list_update)
qed

definition token_bytes :: "u8 list \<Rightarrow> nat \<Rightarrow> nat \<Rightarrow> nat \<Rightarrow> nat \<Rightarrow> u8 list" where
  "token_bytes inp i kind tk d =
     (if kind = 1 then [word_of_nat (tk + 62)]
      else if kind = 2 then [word_of_nat (tk + 126), inp ! i]
      else [word_of_nat (tk + 190), word_of_nat (d - 2)])"

lemma take_Suc_Suc_list_update2:
  "Suc p < length b \<Longrightarrow> take (Suc (Suc p)) (b[p := v, Suc p := w]) = take p b @ [v, w]"
  by (simp add: take_Suc_list_update)

lemma dk_emit_token_ok:
  assumes "i < length inp" "Suc op < length out"
  shows "\<exists>out'. dk_emit_token inp i kind tk d op out
      = Ok (op + length (token_bytes inp i kind tk d), out') \<and> length out' = length out
    \<and> take (op + length (token_bytes inp i kind tk d)) out' = take op out @ token_bytes inp i kind tk d"
  using assms
  by (auto simp: dk_emit_token_def token_bytes_def mem_simps take_Suc_list_update
      take_Suc_Suc_list_update2 simp del: of_nat_add)

text \<open>The token covers the next \<open>tk\<close> input bytes and costs fewer bytes than it covers.\<close>

lemma dk_token_sound:
  assumes choice: "dk_choose z r m = (kind, tk)" "kind \<noteq> 0"
    and z: "z \<le> 64" "z \<le> in_len - i" "take z (drop i inp) = replicate z 0"
    and r: "r \<le> 64" "r \<le> in_len - i" "take r (drop i inp) = replicate r (inp ! i)"
    and m: "dk_found inp i (in_len - i) (min i 257) m d"
    and len: "i < in_len" "in_len \<le> length inp"
    and dec: "dk_decodes s (take i inp)"
  shows "i + tk \<le> in_len" "length (token_bytes inp i kind tk d) < tk"
    "dk_decodes (s @ token_bytes inp i kind tk d) (take (i + tk) inp)"
proof -
  have li: "length (take i inp) = i" using len by simp
  consider (zero) "kind = 1" "tk = z" "2 \<le> z" | (run) "kind = 2" "tk = r" "3 \<le> r"
    | (match) "kind = 3" "tk = m" "3 \<le> m"
    using choice by (auto simp: dk_choose_def Let_def split: if_splits)
  then have "i + tk \<le> in_len \<and> length (token_bytes inp i kind tk d) < tk
      \<and> dk_decodes (s @ token_bytes inp i kind tk d) (take (i + tk) inp)"
  proof cases
    case zero
    with z dk_decodes_zero_run [OF dec] len show ?thesis
      by (auto simp add: token_bytes_def take_add simp del: of_nat_add)
  next
    case run
    with r dk_decodes_byte_run [OF dec] len show ?thesis
      by (auto simp add: token_bytes_def take_add simp del: of_nat_add)
  next
    case match
    with m have f: "2 \<le> d" "d \<le> i" "d \<le> 257" "m \<le> d" "m \<le> 62" "m \<le> in_len - i" "dk_matches inp i d m"
      by (auto simp: dk_found_def)
    with len match dk_matches_take [of inp i d m]
      dk_decodes_back_reference [OF dec, of m d]
    show ?thesis
      by (simp add: token_bytes_def take_add li del: of_nat_add)
  qed
  then show "i + tk \<le> in_len" "length (token_bytes inp i kind tk d) < tk"
    "dk_decodes (s @ token_bytes inp i kind tk d) (take (i + tk) inp)"
    by blast+
qed

section \<open>Encoder: loop invariant\<close>

text \<open>
  At input position \<open>i\<close> with \<open>ll\<close> pending literal bytes, the \<open>op\<close> bytes written so far decode
  to the input before the pending literals, and they are within the worst case for it.
\<close>

definition dk_enc_inv ::
  "u8 list \<Rightarrow> nat \<Rightarrow> nat \<Rightarrow> nat \<Rightarrow> nat \<Rightarrow> nat \<Rightarrow> u8 list \<Rightarrow> bool" where
  "dk_enc_inv inp in_len i op ls ll out \<longleftrightarrow>
     i \<le> in_len \<and> in_len \<le> length inp \<and> ll \<le> i \<and> ll < 64 \<and> (0 < ll \<longrightarrow> ls = i - ll)
     \<and> op \<le> (i - ll) + (i - ll) div 64 \<and> dk_worst in_len \<le> length out
     \<and> dk_decodes (take op out) (take (i - ll) inp)"

lemma div64_mono_sub: "(a::nat) \<le> b \<Longrightarrow> a div 64 \<le> b div 64"
  by (rule div_le_mono)

lemma dk_worst_pending:
  assumes "ll \<le> i" "ll < 64" "i \<le> n" "op \<le> (i - ll) + (i - ll) div 64"
  shows "op + (if 0 < ll then Suc ll else 0) + (n - i) < dk_worst n"
proof (cases "0 < ll")
  case True
  have "(i - ll) div 64 \<le> (n - 1) div 64" using True assms by (intro div_le_mono) auto
  moreover have "(n + 63) div 64 = Suc ((n - 1) div 64)" using True assms by simp
  moreover have "op + ll \<le> i + (i - ll) div 64" using assms by linarith
  moreover define q s t where "q = (i - ll) div 64" and "s = (n - 1) div 64" and "t = (n + 63) div 64"
  ultimately have "q \<le> s" "t = Suc s" "op + ll \<le> i + q" by simp_all
  then show ?thesis using True assms(3) unfolding dk_worst_def t_def [symmetric] by simp
next
  case False
  have "i div 64 \<le> (n + 63) div 64" using assms by (intro div_le_mono) auto
  then show ?thesis using False assms by (auto simp: dk_worst_def)
qed

lemma dk_flush_literal_ok:
  assumes inv: "dk_enc_inv inp in_len i op ls ll out"
  shows "\<exists>op' out'. dk_flush_literal inp ls ll op out = Ok (op', out') \<and> length out' = length out
    \<and> op' = op + (if 0 < ll then Suc ll else 0) \<and> dk_decodes (take op' out') (take i inp)"
proof (cases "0 < ll")
  case False
  with inv show ?thesis by (auto simp: dk_flush_literal_def dk_enc_inv_def)
next
  case True
  from inv have b: "ll \<le> i" "i \<le> in_len" "in_len \<le> length inp" "ls = i - ll" "ll < 64"
    "dk_decodes (take op out) (take (i - ll) inp)"
    using True by (auto simp: dk_enc_inv_def)
  have "op + ll < length out"
    using dk_worst_pending [of ll i in_len op] inv True by (auto simp: dk_enc_inv_def)
  with b True obtain out' where o: "dk_emit_literal inp ls ll op out = Ok (Suc op + ll, out')"
    "length out' = length out"
    "take (Suc op + ll) out' = take op out @ word_of_nat (ll - 1) # take ll (drop ls inp)"
    using dk_emit_literal_ok [of ls ll inp op out] by auto
  have "length (take ll (drop ls inp)) = ll" using b by simp
  with dk_decodes_literal [OF b(6), of "take ll (drop ls inp)"] b True
  have "dk_decodes (take op out @ word_of_nat (ll - 1) # take ll (drop ls inp))
      (take (i - ll) inp @ take ll (drop ls inp))" by simp
  moreover have "take (i - ll) inp @ take ll (drop ls inp) = take i inp"
    using b take_add [of "i - ll" ll inp] by simp
  ultimately show ?thesis
    using True o by (auto simp: dk_flush_literal_def)
qed

lemma dk_literal_step:
  assumes inv: "dk_enc_inv inp in_len i op ls ll out" and "i < in_len"
  defines "ls' \<equiv> if ll = 0 then i else ls"
  shows "Suc ll \<noteq> 64 \<Longrightarrow> dk_enc_inv inp in_len (Suc i) op ls' (Suc ll) out"
    and "Suc ll = 64 \<Longrightarrow> \<exists>op' out'. dk_emit_literal inp ls' 64 op out = Ok (op', out')
      \<and> length out' = length out \<and> dk_enc_inv inp in_len (Suc i) op' ls' 0 out'"
proof -
  assume "Suc ll \<noteq> 64"
  with assms show "dk_enc_inv inp in_len (Suc i) op ls' (Suc ll) out"
    by (auto simp: dk_enc_inv_def)
next
  assume ll: "Suc ll = 64"
  with inv \<open>i < in_len\<close> have b: "63 \<le> i" "ls' = i - 63" "in_len \<le> length inp"
    "dk_decodes (take op out) (take (i - 63) inp)" "op \<le> (i - 63) + (i - 63) div 64"
    "dk_worst in_len \<le> length out"
    by (auto simp: dk_enc_inv_def ls'_def)
  have "op + 64 < length out"
    using dk_worst_pending [of ll i in_len op] inv ll \<open>i < in_len\<close> by (auto simp: dk_enc_inv_def)
  with b \<open>i < in_len\<close> obtain out' where o: "dk_emit_literal inp ls' 64 op out = Ok (Suc op + 64, out')"
    "length out' = length out"
    "take (Suc op + 64) out' = take op out @ word_of_nat (64 - 1) # take 64 (drop ls' inp)"
    using dk_emit_literal_ok [of ls' 64 inp op out] by auto
  have "length (take 64 (drop ls' inp)) = 64" using b \<open>i < in_len\<close> by simp
  with dk_decodes_literal [OF b(4), of "take 64 (drop ls' inp)"]
  have "dk_decodes (take op out @ word_of_nat (64 - 1) # take 64 (drop ls' inp))
      (take (i - 63) inp @ take 64 (drop ls' inp))" by simp
  moreover have "take (i - 63) inp @ take 64 (drop ls' inp) = take (Suc i) inp"
    using b take_add [of "i - 63" 64 inp] by simp
  moreover have "Suc op + 64 \<le> Suc i + Suc i div 64"
  proof -
    have "Suc i div 64 = Suc ((i - 63) div 64)" using b(1) by (simp add: le_div_geq)
    with b show ?thesis by simp
  qed
  ultimately show "\<exists>op' out'. dk_emit_literal inp ls' 64 op out = Ok (op', out')
      \<and> length out' = length out \<and> dk_enc_inv inp in_len (Suc i) op' ls' 0 out'"
    using b o \<open>i < in_len\<close> by (auto simp: dk_enc_inv_def)
qed

lemma dk_token_step:
  assumes inv: "dk_enc_inv inp in_len i op ls ll out" and i: "i < in_len"
    and choice: "dk_choose z r m = (kind, tk)" "kind \<noteq> 0"
    and z: "z \<le> 64" "z \<le> in_len - i" "take z (drop i inp) = replicate z 0"
    and r: "r \<le> 64" "r \<le> in_len - i" "take r (drop i inp) = replicate r (inp ! i)"
    and m: "dk_found inp i (in_len - i) (min i 257) m d"
  shows "\<exists>op1 out1 op2 out2. dk_flush_literal inp ls ll op out = Ok (op1, out1)
    \<and> dk_emit_token inp i kind tk d op1 out1 = Ok (op2, out2) \<and> length out2 = length out
    \<and> dk_enc_inv inp in_len (i + tk) op2 ls 0 out2"
proof -
  from inv have len: "in_len \<le> length inp" "dk_worst in_len \<le> length out"
    and opb: "op \<le> (i - ll) + (i - ll) div 64" and ll: "ll \<le> i" "ll < 64"
    by (auto simp: dk_enc_inv_def)
  obtain op1 out1 where f: "dk_flush_literal inp ls ll op out = Ok (op1, out1)"
    "length out1 = length out" "op1 = op + (if 0 < ll then Suc ll else 0)"
    "dk_decodes (take op1 out1) (take i inp)"
    using dk_flush_literal_ok [OF inv] by blast
  let ?t = "token_bytes inp i kind tk d"
  note sound = dk_token_sound [OF choice z r m i len(1) f(4)]
  have lt: "length ?t \<le> 2" "0 < length ?t" by (auto simp: token_bytes_def)
  have op1: "op1 + (in_len - i) < dk_worst in_len"
    using dk_worst_pending [of ll i in_len op] ll opb i f(3) by auto
  have "2 \<le> in_len - i" using sound lt by linarith
  with op1 len f(2) have "Suc op1 < length out1" by linarith
  then obtain out2 where e: "dk_emit_token inp i kind tk d op1 out1 = Ok (op1 + length ?t, out2)"
    "length out2 = length out1" "take (op1 + length ?t) out2 = take op1 out1 @ ?t"
    using dk_emit_token_ok [of i inp op1 out1 kind tk d] i len by auto
  have "op1 \<le> Suc (i + (i - ll) div 64)" using f(3) opb ll by auto
  moreover have "(i - ll) div 64 \<le> (i + tk) div 64" by (intro div_le_mono) simp
  ultimately have "op1 + length ?t \<le> (i + tk) + (i + tk) div 64" using sound(2) by linarith
  then have "dk_enc_inv inp in_len (i + tk) (op1 + length ?t) ls 0 out2"
    using sound e f len by (auto simp: dk_enc_inv_def)
  with f e show ?thesis by auto
qed


lemma dk_deflate_loop_ok:
  "dk_enc_inv inp in_len i op ls ll out \<Longrightarrow>
   \<exists>op' ls' ll' out'. dk_deflate_loop inp in_len i op ls ll out = Ok (op', ls', ll', out')
     \<and> length out' = length out \<and> dk_enc_inv inp in_len in_len op' ls' ll' out'"
proof (induction "in_len - i" arbitrary: i op ls ll out rule: less_induct)
  case less
  note inv = less.prems
  from inv have len: "i \<le> in_len" "in_len \<le> length inp" by (auto simp: dk_enc_inv_def)
  note unf = dk_deflate_loop.simps [of inp in_len i op ls ll out]
  show ?case
  proof (cases "i < in_len")
    case False
    with inv len show ?thesis by (auto simp: dk_deflate_loop.simps [of inp in_len in_len])
  next
    case True
    obtain z where z: "dk_count_zero_run inp in_len i = Ok z" "z \<le> 64" "z \<le> in_len - i"
      "take z (drop i inp) = replicate z 0" using dk_count_zero_run_ok [OF len] by blast
    obtain r where r: "dk_count_byte_run inp in_len i = Ok r" "r \<le> 64" "r \<le> in_len - i"
      "take r (drop i inp) = replicate r (inp ! i)" using dk_count_byte_run_ok [OF True len(2)] by blast
    obtain m d where m: "dk_find_match inp in_len i = Ok (m, d)"
      "dk_found inp i (in_len - i) (min i 257) m d" using dk_find_match_ok [OF True len(2)] by blast
    obtain kind tk where c: "dk_choose z r m = (kind, tk)" by (cases "dk_choose z r m")
    define ls' where "ls' = (if ll = 0 then i else ls)"
    consider (lit) "kind = 0" "Suc ll \<noteq> 64" | (full) "kind = 0" "Suc ll = 64" | (tok) "kind \<noteq> 0"
      by blast
    then show ?thesis
    proof cases
      case lit
      then have "dk_enc_inv inp in_len (Suc i) op ls' (Suc ll) out"
        using dk_literal_step(1) [OF inv True] by (simp add: ls'_def)
      with less.hyps [of "Suc i"] True lit show ?thesis
        by (auto simp: unf z r m c ls'_def Let_def)
    next
      case full
      then obtain op' out' where "dk_emit_literal inp ls' 64 op out = Ok (op', out')"
        "length out' = length out" "dk_enc_inv inp in_len (Suc i) op' ls' 0 out'"
        using dk_literal_step(2) [OF inv True] by (auto simp: ls'_def)
      moreover from this less.hyps [of "Suc i" op' ls' 0 out'] True obtain r' where
        "dk_deflate_loop inp in_len (Suc i) op' ls' 0 out' = Ok r'"
        "case r' of (op'', ls'', ll'', out'') \<Rightarrow> length out'' = length out'
          \<and> dk_enc_inv inp in_len in_len op'' ls'' ll'' out''" by fastforce
      ultimately show ?thesis
        unfolding unf using True full by (auto simp: z r m c ls'_def Let_def)
    next
      case tok
      obtain op1 out1 op2 out2 where s: "dk_flush_literal inp ls ll op out = Ok (op1, out1)"
        "dk_emit_token inp i kind tk d op1 out1 = Ok (op2, out2)" "length out2 = length out"
        "dk_enc_inv inp in_len (i + tk) op2 ls 0 out2"
        using dk_token_step [OF inv True c tok z(2-4) r(2-4) m(2)] by blast
      from dk_choose_pos [OF c] True have "in_len - (i + tk) < in_len - i" by simp
      from less.hyps [OF this s(4)] s(3) obtain r' where
        "dk_deflate_loop inp in_len (i + tk) op2 ls 0 out2 = Ok r'"
        "case r' of (op'', ls'', ll'', out'') \<Rightarrow> length out'' = length out
          \<and> dk_enc_inv inp in_len in_len op'' ls'' ll'' out''" by fastforce
      with s tok True show ?thesis
        by (auto simp: unf z r m c Let_def)
    qed
  qed
qed

lemma pakka_dk_deflate_ok:
  assumes "in_len \<le> length inp" "length out = out_cap" "dk_worst in_len \<le> out_cap"
  shows "\<exists>n out'. pakka_dk_deflate (Some inp) in_len (Some out) out_cap = Ok (n, out')
    \<and> n \<le> dk_worst in_len \<and> length out' = out_cap
    \<and> dk_run (take n out') [] = Some (take in_len inp)"
proof -
  have "dk_enc_inv inp in_len 0 0 0 0 out"
    using assms by (simp add: dk_enc_inv_def dk_decodes_Nil)
  then obtain op ls ll out1 where l: "dk_deflate_loop inp in_len 0 0 0 0 out = Ok (op, ls, ll, out1)"
    "length out1 = length out" "dk_enc_inv inp in_len in_len op ls ll out1"
    using dk_deflate_loop_ok by blast
  obtain op2 out2 where f: "dk_flush_literal inp ls ll op out1 = Ok (op2, out2)"
    "length out2 = length out1" "op2 = op + (if 0 < ll then Suc ll else 0)"
    "dk_decodes (take op2 out2) (take in_len inp)"
    using dk_flush_literal_ok [OF l(3)] by blast
  have b: "op2 < dk_worst in_len"
    using dk_worst_pending [of ll in_len in_len op] l(3) f(3) by (auto simp: dk_enc_inv_def)
  with assms l(2) f(2) have "pakka_dk_deflate (Some inp) in_len (Some out) out_cap
      = Ok (Suc op2, out2[op2 := 255])"
    by (simp add: pakka_dk_deflate_def Let_def l f mem_simps)
  moreover have "take (Suc op2) (out2[op2 := 255]) = take op2 out2 @ [255]"
    using b assms l(2) f(2) by (simp add: take_Suc_list_update)
  moreover have "dk_run (take op2 out2 @ [255]) [] = dk_run [255] (take in_len inp)"
    using f(4) by (simp add: dk_decodes_def)
  ultimately show ?thesis using b assms l(2) f(2) by (auto simp: Let_def)
qed

lemma pakka_dk_inflate_eq:
  assumes "in_len \<le> length inp" "out_len \<le> length out"
  shows "pakka_dk_inflate (Some inp) in_len (Some out) out_len
    = (case dk_run (take in_len inp) [] of
         None \<Rightarrow> Fail PAKKA_ERR_FORMAT
       | Some acc \<Rightarrow> if length acc = out_len then Ok (acc @ drop out_len out)
                    else Fail PAKKA_ERR_FORMAT)"
proof -
  have "dk_inflate_loop inp in_len out_len 0 0 out = dk_finish out_len out (dk_run (take in_len inp) [])"
    using dk_agreesD [OF dk_inflate_agrees [OF assms(1)], of 0 out_len out 0] assms(2)
    by (simp add: window_def)
  then show ?thesis
    by (auto simp: pakka_dk_inflate_def dk_finish_def split: option.splits)
qed

section \<open>Encoder: the search finds a longest match\<close>

definition dk_none_longer :: "u8 list \<Rightarrow> nat \<Rightarrow> nat \<Rightarrow> nat \<Rightarrow> nat \<Rightarrow> bool" where
  "dk_none_longer inp i remaining bnd best \<longleftrightarrow>
     (\<forall>e n. 2 \<le> e \<and> e < bnd \<and> 3 \<le> n \<and> n \<le> e \<and> n \<le> 62 \<and> n \<le> remaining \<and> dk_matches inp i e n
        \<longrightarrow> n \<le> best)"

lemma dk_matches_mono: "dk_matches inp i d n \<Longrightarrow> m \<le> n \<Longrightarrow> dk_matches inp i d m"
  by (auto simp: dk_matches_def)

lemma dk_find_loop_longest:
  "max_d \<le> i \<Longrightarrow> i + remaining \<le> length inp \<Longrightarrow> 2 \<le> d \<Longrightarrow>
   dk_none_longer inp i remaining d bl \<Longrightarrow>
   dk_find_loop inp i remaining max_d d bl bd = Ok (l, e) \<Longrightarrow>
   dk_none_longer inp i remaining (Suc max_d) l"
proof (induction inp i remaining max_d d bl bd rule: dk_find_loop.induct)
  case (1 inp i remaining max_d d bl bd)
  note prems = "1.prems"
  define cap where "cap = min (min d 62) remaining"
  have capdef: "(if (if d < 62 then d else 62) > remaining then remaining
                 else (if d < 62 then d else 62)) = cap"
    by (simp add: cap_def)
  note unf = dk_find_loop.simps [of inp i remaining max_d d bl bd, unfolded Let_def capdef]
  have ldd: "d \<le> max_d \<Longrightarrow> mem_load inp (i - d) = Ok (inp ! (i - d))"
    using prems by (simp add: mem_simps)
  have step: "dk_none_longer inp i remaining (Suc d) b"
    if "\<And>n. 3 \<le> n \<Longrightarrow> n \<le> cap \<Longrightarrow> dk_matches inp i d n \<Longrightarrow> n \<le> b" "bl \<le> b" for b
    using prems(4) that by (fastforce simp: dk_none_longer_def less_Suc_eq cap_def)
  consider (out) "max_d < d" | (small) "d \<le> max_d" "cap < 3"
    | (differ) "d \<le> max_d" "3 \<le> cap" "inp ! (i - d) \<noteq> inp ! i"
    | (same) "d \<le> max_d" "3 \<le> cap" "inp ! (i - d) = inp ! i"
    by linarith
  then show ?case
  proof cases
    case out
    then show ?thesis using prems by (fastforce simp: unf dk_none_longer_def)
  next
    case small
    then show ?thesis
      using "1.IH"(1) [OF small(1) refl refl] prems step [of bl] by (simp add: unf capdef)
  next
    case differ
    then have ldi: "mem_load inp i = Ok (inp ! i)" using prems by (simp add: mem_simps cap_def)
    have "dk_none_longer inp i remaining (Suc d) bl"
      using differ by (intro step) (auto simp: dk_matches_def dest: spec [of _ 0])
    then show ?thesis
      using "1.IH"(2) [OF differ(1) refl refl _ ldd [OF differ(1)] ldi] prems differ
      by (simp add: unf capdef ldd ldi)
  next
    case same
    then have ldi: "mem_load inp i = Ok (inp ! i)" using prems by (simp add: mem_simps cap_def)
    have "dk_matches inp i d 1" using same by (simp add: dk_matches_def)
    moreover have "d \<le> i" "i + cap \<le> length inp" "1 \<le> cap" using prems same by (auto simp: cap_def)
    ultimately obtain k where k: "dk_match_loop inp i d cap 1 = Ok k" "1 \<le> k" "k \<le> cap"
      "k < cap \<longrightarrow> \<not> dk_matches inp i d (Suc k)"
      using dk_match_loop_ok [of d i cap inp 1] by auto
    have top: "n \<le> k" if "n \<le> cap" "dk_matches inp i d n" for n
      using k(4) that dk_matches_mono [of inp i d n "Suc k"] by (meson le_less_trans not_less_eq_eq not_le)
    have best: "dk_none_longer inp i remaining (Suc d) (max bl k)"
      by (rule step) (auto dest: top)
    have full: "dk_none_longer inp i remaining (Suc max_d) 62" by (auto simp: dk_none_longer_def)
    show ?thesis
      using "1.IH"(3) [OF same(1) refl refl _ ldd [OF same(1)] ldi _ k(1) [folded capdef]]
        "1.IH"(4) [OF same(1) refl refl _ ldd [OF same(1)] ldi _ k(1) [folded capdef]]
        prems same k best full
      by (auto simp: unf capdef ldd ldi max_def split: if_splits)
  qed
qed

lemma dk_find_match_longest:
  assumes "i < in_len" "in_len \<le> length inp" "dk_find_match inp in_len i = Ok (l, d)"
  shows "dk_none_longer inp i (in_len - i) (Suc (min i 257)) l"
proof (cases "2 \<le> i \<and> 3 \<le> in_len - i")
  case False
  then show ?thesis by (auto simp: dk_none_longer_def)
next
  case True
  then obtain l' d' where f: "dk_find_loop inp i (in_len - i) (min i 257) 2 0 0 = Ok (l', d')"
    using dk_find_loop_ok [of "min i 257" i "in_len - i" inp 2 0 0] assms
    by (auto simp: dk_found_def)
  have "dk_none_longer inp i (in_len - i) (Suc (min i 257)) l'"
    by (rule dk_find_loop_longest [OF _ _ _ _ f]) (use assms in \<open>auto simp: dk_none_longer_def\<close>)
  moreover have "(if i < 257 then i else 257) = min i 257" by simp
  ultimately show ?thesis
    using True f assms(3) by (fastforce simp: dk_find_match_def Let_def dk_none_longer_def split: if_splits)
qed

section \<open>Properties of the codec\<close>

text \<open>
  C1: Encoding a payload and decoding the encoded bytes gives back the payload, for every
  payload, every output buffer of at least the size the encoder asks for, and every buffer
  of the payload's length to decode into. Neither routine reports an error or leaves a buffer.
\<close>

theorem dk_roundtrip:
  assumes "dk_worst (length payload) \<le> length ebuf" "length obuf = length payload"
  shows "\<exists>n enc. pakka_dk_deflate (Some payload) (length payload) (Some ebuf) (length ebuf) = Ok (n, enc)
    \<and> pakka_dk_inflate (Some enc) n (Some obuf) (length payload) = Ok payload"
proof -
  obtain n enc where "pakka_dk_deflate (Some payload) (length payload) (Some ebuf) (length ebuf) = Ok (n, enc)"
    "n \<le> length enc" "dk_run (take n enc) [] = Some payload"
    using pakka_dk_deflate_ok [of "length payload" payload ebuf "length ebuf"] assms(1) by auto
  with pakka_dk_inflate_eq [of n enc "length payload" obuf] assms(2) show ?thesis by auto
qed

theorem dk_roundtrip_witness:
  "\<exists>n enc. pakka_dk_deflate (Some [7, 7, 7, 7, 0, 0, 9]) 7 (Some (replicate 9 0)) 9 = Ok (n, enc)
    \<and> pakka_dk_inflate (Some enc) n (Some (replicate 7 0)) 7 = Ok [7, 7, 7, 7, 0, 0, 9]"
proof -
  let ?p = "[7, 7, 7, 7, 0, 0, 9] :: u8 list"
  have len: "length ?p = 7" by simp
  have "dk_worst (length ?p) \<le> length (replicate 9 0 :: u8 list)"
    "length (replicate 7 0 :: u8 list) = length ?p"
    by (simp_all add: dk_worst_def)
  from dk_roundtrip [OF this] show ?thesis by (simp only: len length_replicate)
qed

text \<open>
  C5: The encoder never leaves its buffers: with an output buffer of the capacity it is told,
  and an input buffer of the length it is told, every load, store and copy is in bounds (the
  result is \<open>Ok\<close>, not \<open>Fault\<close>), and it writes at most
  \<open>in_len + ceil(in_len / 64) + 1\<close> bytes. Below that capacity it reports
  \<open>PAKKA_ERR_LIMIT\<close> before it writes.
\<close>

theorem dk_deflate_within_bounds:
  assumes "length inp = in_len" "length out = out_cap"
  shows "if dk_worst in_len \<le> out_cap
    then \<exists>n out'. pakka_dk_deflate (Some inp) in_len (Some out) out_cap = Ok (n, out')
           \<and> length out' = out_cap \<and> n \<le> in_len + (in_len + 63) div 64 + 1
    else pakka_dk_deflate (Some inp) in_len (Some out) out_cap = Fail PAKKA_ERR_LIMIT"
  using pakka_dk_deflate_ok [of in_len inp out out_cap] assms
  by (auto simp: pakka_dk_deflate_def dk_worst_def)

theorem dk_deflate_within_bounds_witness:
  "(\<exists>n out'. pakka_dk_deflate (Some [1, 2]) 2 (Some [0, 0, 0, 0]) 4 = Ok (n, out')
      \<and> length out' = 4 \<and> n \<le> 4)
   \<and> pakka_dk_deflate (Some [1, 2]) 2 (Some [0, 0, 0]) 3 = Fail PAKKA_ERR_LIMIT"
  using dk_deflate_within_bounds [of "[1, 2]" 2 "[0, 0, 0, 0]" 4]
    dk_deflate_within_bounds [of "[1, 2]" 2 "[0, 0, 0]" 3]
  by (simp add: dk_worst_def)

text \<open>
  C6: The decoder computes the reference decoding of the input or reports a format error: it
  succeeds exactly when the stream is well formed and decodes to \<open>out_len\<close> bytes, which are
  then the first bytes of the buffer with the rest of the buffer unchanged. It never leaves
  its buffers, whatever the input.
\<close>

theorem dk_inflate_reference:
  assumes "in_len \<le> length inp" "out_len \<le> length out"
  shows "pakka_dk_inflate (Some inp) in_len (Some out) out_len
    = (case dk_run (take in_len inp) [] of
         None \<Rightarrow> Fail PAKKA_ERR_FORMAT
       | Some acc \<Rightarrow> if length acc = out_len then Ok (acc @ drop out_len out)
                    else Fail PAKKA_ERR_FORMAT)"
  using assms by (rule pakka_dk_inflate_eq)

theorem dk_inflate_reference_witness:
  "pakka_dk_inflate (Some [1, 10, 20, 193, 0, 255, 99]) 7 (Some [0, 0, 0, 0, 0, 77]) 5
     = Ok [10, 20, 10, 20, 10, 77]
   \<and> pakka_dk_inflate (Some [254]) 1 (Some [0]) 1 = Fail PAKKA_ERR_FORMAT"
proof -
  have "dk_run (take 7 [1, 10, 20, 193, 0, 255, 99]) [] = Some [10, 20, 10, 20, 10]"
    "dk_run (take 1 [254]) [] = None"
    by code_simp+
  then show ?thesis
    using dk_inflate_reference [of 7 "[1, 10, 20, 193, 0, 255, 99]" 5 "[0, 0, 0, 0, 0, 77]"]
      dk_inflate_reference [of 1 "[254]" 1 "[0]"]
    by simp
qed

text \<open>The match search returns a match the decoder can replay (distance 2 to 257 and within
  the bytes already seen, no longer than the distance, 62 bytes or the remaining input, and
  the bytes agree), and no distance in range has a longer one of at least three bytes.
\<close>

theorem dk_find_match_best:
  assumes "i < in_len" "in_len \<le> length inp"
  shows "\<exists>l d. dk_find_match inp in_len i = Ok (l, d)
    \<and> dk_found inp i (in_len - i) (min i 257) l d
    \<and> dk_none_longer inp i (in_len - i) (Suc (min i 257)) l"
  using dk_find_match_ok [OF assms] dk_find_match_longest [OF assms] by blast

theorem dk_find_match_best_witness:
  "\<exists>l d. dk_find_match [1, 2, 3, 1, 2, 3] 6 3 = Ok (l, d)
    \<and> dk_found [1, 2, 3, 1, 2, 3] 3 3 3 l d \<and> dk_none_longer [1, 2, 3, 1, 2, 3] 3 3 4 l"
  using dk_find_match_best [of 3 6 "[1, 2, 3, 1, 2, 3]"] by simp

end
