(* ===== verification/Pak_Reader.thy ===== *)
theory Pak_Reader
  imports Zip_Interface Dk_Codec
begin

text \<open>
  Reading entries: \<open>pakka_open_entry\<close>, \<open>pakka_open_entry_handle\<close>, \<open>pakka_reader_read\<close> and
  \<open>pakka_read_entry_alloc\<close> of \<^verbatim>\<open>src/pakfile.c\<close>. A reader keeps its own position into the one stream of
  the archive, or the bytes it inflated when it was opened. Out-parameters are results; a NULL in their
  place is not modelled.
\<close>

section \<open>Staged entries\<close>

text \<open>The staged bytes: from the source file, hardened again, or from the buffer.\<close>

definition read_pending_source :: "env \<Rightarrow> files \<Rightarrow> path \<Rightarrow> nat \<Rightarrow> status \<times> u8 list" where
  "read_pending_source env fs source extent =
     (if pakka_platform_is_reparse_or_symlink env fs source then (PAKKA_ERR_UNSAFE_NAME, [])
      else case pakka_platform_lstat env fs source of
        None \<Rightarrow> (PAKKA_ERR_IO, [])
      | Some (Regular _) \<Rightarrow>
          (case pakka_platform_fopen env fs source False of
             None \<Rightarrow> (PAKKA_ERR_IO, [])
           | Some f \<Rightarrow>
               (case fread_all f extent of
                  (None, _) \<Rightarrow> (PAKKA_ERR_IO, [])
                | (Some buf, _) \<Rightarrow> (PAKKA_OK, buf)))
      | Some _ \<Rightarrow> (PAKKA_ERR_UNSAFE_NAME, []))"

definition over_cap :: "archive \<Rightarrow> u32 \<Rightarrow> u32 \<Rightarrow> bool" where
  "over_cap a ulen clen \<longleftrightarrow> max_decompressed a > 0
     \<and> (ucast ulen > max_decompressed a \<or> ucast clen > max_decompressed a)"

definition pak_open_pending_reader ::
  "env \<Rightarrow> files \<Rightarrow> archive \<Rightarrow> reader \<Rightarrow> pentry \<Rightarrow> status \<times> reader" where
  "pak_open_pending_reader env fs a r entry =
     (let extent = pak_entry_on_disk_extent entry in
      if extent = 0 then (PAKKA_OK, r\<lparr>remaining := 0\<rparr>)
      else if e_oom env A_staged then (PAKKA_ERR_NOMEM, r)
      else
        (let (s, buf) =
           (case pending_source entry of
              Some source \<Rightarrow> read_pending_source env fs source (unat extent)
            | None \<Rightarrow> (PAKKA_OK, take (unat extent) (case_option [] id (pending_data entry))))
         in if s \<noteq> PAKKA_OK then (s, r)
            else if dk_is_compressed entry then
              (let ulen = entry_length entry in
               if over_cap a ulen extent then (PAKKA_ERR_LIMIT, r)
               else if ulen = 0 then (PAKKA_OK, r\<lparr>remaining := 0\<rparr>)
               else if e_oom env A_inflated then (PAKKA_ERR_NOMEM, r)
               else case pakka_dk_inflate (Some buf) (unat extent) (Some (replicate (unat ulen) 0)) (unat ulen) of
                   Ok inflated \<Rightarrow> (PAKKA_OK, r\<lparr>inflated_buf := Some inflated, inflated_cursor := 0\<rparr>)
                 | Fail ds \<Rightarrow> (ds, r)
                 | Fault \<Rightarrow> (PAKKA_ERR_FORMAT, r))
            else (PAKKA_OK, r\<lparr>inflated_buf := Some buf, inflated_cursor := 0\<rparr>)))"

section \<open>Opening\<close>

text \<open>The compressed payload of a Daikatana entry, read and inflated.\<close>

definition open_dk_entry ::
  "env \<Rightarrow> archive \<Rightarrow> cfile \<Rightarrow> reader \<Rightarrow> pentry \<Rightarrow> status \<times> reader \<times> cfile" where
  "open_dk_entry env a f r entry =
     (let clen = dk_compressed_size entry; ulen = entry_length entry in
      if over_cap a ulen clen then (PAKKA_ERR_LIMIT, r, f)
      else if clen > 0 \<and> e_oom env A_compressed then (PAKKA_ERR_NOMEM, r, f)
      else
        (let (compressed, f1) =
           (if clen > 0 then
              (let (sought, f1) = fseek_set f (unat (offset entry)) in
               if \<not> sought then (None, f1) else fread_all f1 (unat clen))
            else (Some [], f))
         in case compressed of
              None \<Rightarrow> (PAKKA_ERR_IO, r, f1)
            | Some compressed \<Rightarrow>
                if ulen > 0 \<and> e_oom env A_inflated then (PAKKA_ERR_NOMEM, r, f1)
                else case pakka_dk_inflate (if clen > 0 then Some compressed else None) (unat clen)
                    (if ulen > 0 then Some (replicate (unat ulen) 0) else None) (unat ulen) of
                  Ok inflated \<Rightarrow>
                    (PAKKA_OK, r\<lparr>inflated_buf := (if ulen > 0 then Some inflated else None),
                                inflated_cursor := 0\<rparr>, f1)
                | Fail dk_status \<Rightarrow> (dk_status, r, f1)
                | Fault \<Rightarrow> (PAKKA_ERR_FORMAT, r, f1)))"

definition pakka_open_entry_handle ::
  "zip_ops \<Rightarrow> env \<Rightarrow> files \<Rightarrow> archive option \<Rightarrow> pentry option \<Rightarrow> status \<times> reader option \<times> archive option" where
  "pakka_open_entry_handle Z env fs archive entry =
     (case (archive, entry) of
        (Some a, Some e) \<Rightarrow>
          (case fp a of
             None \<Rightarrow> (PAKKA_ERR_INVALID_ARGUMENT, None, archive)
           | Some f \<Rightarrow>
               if e_oom env A_reader then (PAKKA_ERR_NOMEM, None, archive)
               else
                 (let r = calloc_reader\<lparr>next_offset := ucast (offset e), remaining := ucast (entry_length e)\<rparr>
                  in if pakka_format_is_zip (format a) then
                       (let (s, r1, a1) = z_open_entry Z env fs a r e
                        in if s \<noteq> PAKKA_OK then (s, None, Some a1) else (PAKKA_OK, Some r1, Some a1))
                     else if pending_source e \<noteq> None \<or> pending_data e \<noteq> None then
                       (let (s, r1) = pak_open_pending_reader env fs a r e
                        in if s \<noteq> PAKKA_OK then (s, None, archive) else (PAKKA_OK, Some r1, archive))
                     else if format a = PAKKA_FORMAT_DAIKATANA \<and> dk_is_compressed e then
                       (let (s, r1, f1) = open_dk_entry env a f r e; a1 = a\<lparr>fp := Some f1\<rparr>
                        in if s \<noteq> PAKKA_OK then (s, None, Some a1) else (PAKKA_OK, Some r1, Some a1))
                     else (PAKKA_OK, Some r, archive)))
      | _ \<Rightarrow> (PAKKA_ERR_INVALID_ARGUMENT, None, archive))"

definition pakka_open_entry ::
  "zip_ops \<Rightarrow> env \<Rightarrow> files \<Rightarrow> archive option \<Rightarrow> cstring option \<Rightarrow> status \<times> reader option \<times> archive option" where
  "pakka_open_entry Z env fs archive entry_name =
     (case (archive, entry_name) of
        (Some a, Some name) \<Rightarrow>
          if fp a = None then (PAKKA_ERR_INVALID_ARGUMENT, None, archive)
          else
            (let (s, entry) = pakka_find_entry archive entry_name in
             if s \<noteq> PAKKA_OK then (s, None, archive)
             else pakka_open_entry_handle Z env fs archive entry)
      | _ \<Rightarrow> (PAKKA_ERR_INVALID_ARGUMENT, None, archive))"

section \<open>Reading\<close>

text \<open>The result holds the bytes put into the caller's buffer; \<open>*nread\<close> is their number.\<close>

definition reader_fread :: "cfile \<Rightarrow> reader \<Rightarrow> nat \<Rightarrow> status \<times> u8 list \<times> reader \<times> cfile" where
  "reader_fread f r len =
     (let chunk = (if len < unat (remaining r) then len else unat (remaining r));
          (sought, f1) = fseek_set f (unat (next_offset r))
      in if \<not> sought then (PAKKA_ERR_IO, [], r, f1)
         else
           (let (buf, f2) = fread f1 chunk; got = length buf;
                r1 = r\<lparr>next_offset := next_offset r + of_nat got, remaining := remaining r - of_nat got\<rparr>
            in (if got \<noteq> chunk then PAKKA_ERR_IO else PAKKA_OK, buf, r1, f2)))"

definition pakka_reader_read ::
  "zip_ops \<Rightarrow> reader option \<Rightarrow> archive option \<Rightarrow> nat \<Rightarrow> status \<times> u8 list \<times> reader option \<times> archive option" where
  "pakka_reader_read Z rd archive len =
     (case (rd, archive) of
        (Some r, Some a) \<Rightarrow>
          (case fp a of
             None \<Rightarrow> (PAKKA_ERR_INVALID_ARGUMENT, [], rd, archive)
           | Some f \<Rightarrow>
               if remaining r = 0 \<or> len = 0 then (PAKKA_OK, [], rd, archive)
               else if pakka_format_is_zip (format a) then
                 (let (s, buf, r1, a1) = z_read Z r a len in (s, buf, Some r1, Some a1))
               else (case inflated_buf r of
                   Some inflated \<Rightarrow>
                     (let available = length inflated - inflated_cursor r;
                          chunk = (if len < available then len else available)
                      in if chunk = 0 then (PAKKA_OK, [], rd, archive)
                         else (PAKKA_OK, take chunk (drop (inflated_cursor r) inflated),
                               Some (r\<lparr>inflated_cursor := inflated_cursor r + chunk,
                                       remaining := remaining r - of_nat chunk\<rparr>), archive))
                 | None \<Rightarrow>
                     (let (s, buf, r1, f1) = reader_fread f r len
                      in (s, buf, Some r1, Some (a\<lparr>fp := Some f1\<rparr>)))))
      | _ \<Rightarrow> (PAKKA_ERR_INVALID_ARGUMENT, [], rd, archive))"

section \<open>Reading a whole entry\<close>

text \<open>The loop of \<open>pakka_read_entry_alloc\<close>; \<open>buf\<close> is what has been read so far.\<close>

function read_all_loop ::
  "zip_ops \<Rightarrow> reader option \<Rightarrow> archive option \<Rightarrow> nat \<Rightarrow> u8 list \<Rightarrow> status \<times> u8 list \<times> archive option" where
  "read_all_loop Z rd archive tot buf =
     (if length buf < tot then
        (let (s, got, rd1, archive1) = pakka_reader_read Z rd archive (tot - length buf) in
         if s \<noteq> PAKKA_OK then (s, [], archive1)
         else if got = [] then (PAKKA_ERR_IO, [], archive1)
         else read_all_loop Z rd1 archive1 tot (buf @ got))
      else (PAKKA_OK, buf, archive))"
  by pat_completeness auto
termination
  by (relation "measure (\<lambda>(Z, rd, archive, tot, buf). tot - length buf)") (auto intro!: diff_less_mono2)

declare read_all_loop.simps [simp del]

definition alloc_over_cap :: "archive \<Rightarrow> pentry \<Rightarrow> u64 \<Rightarrow> bool" where
  "alloc_over_cap a entry tot \<longleftrightarrow>
     (pakka_format_is_zip (format a) \<or> format a = PAKKA_FORMAT_DAIKATANA \<and> dk_is_compressed entry)
     \<and> max_decompressed a > 0 \<and> tot > max_decompressed a"

text \<open>A 64-bit host: \<open>tot\<close> cannot exceed \<open>SIZE_MAX\<close>. The result is \<open>*data\<close>, \<open>None\<close> for NULL.\<close>

definition pakka_read_entry_alloc ::
  "zip_ops \<Rightarrow> env \<Rightarrow> files \<Rightarrow> archive option \<Rightarrow> cstring option \<Rightarrow> status \<times> u8 list option \<times> archive option" where
  "pakka_read_entry_alloc Z env fs archive entry_name =
     (case (archive, entry_name) of
        (Some a, Some name) \<Rightarrow>
          (case pakka_find_entry archive entry_name of
             (s, Some entry) \<Rightarrow>
               (let tot = pakka_entry_size (Some entry) in
                if tot = 0 then
                  (let (open_s, probe_reader, archive1) = pakka_open_entry_handle Z env fs archive (Some entry)
                   in (open_s, None, archive1))
                else if alloc_over_cap a entry tot then (PAKKA_ERR_LIMIT, None, archive)
                else if e_oom env A_payload then (PAKKA_ERR_NOMEM, None, archive)
                else
                  (let (s, rd, archive1) = pakka_open_entry_handle Z env fs archive (Some entry) in
                   if s \<noteq> PAKKA_OK then (s, None, archive1)
                   else
                     (let (s, buf, archive2) = read_all_loop Z rd archive1 (unat tot) []
                      in (s, if s = PAKKA_OK then Some buf else None, archive2))))
           | (s, None) \<Rightarrow> (s, None, archive))
      | _ \<Rightarrow> (PAKKA_ERR_INVALID_ARGUMENT, None, archive))"

end
