(* ===== verification/Pak_Verify.thy ===== *)
theory Pak_Verify
  imports Zip_Interface Dk_Codec "HOL-Library.List_Lexorder"
begin

text \<open>
  \<open>pakka_verify\<close> of \<^verbatim>\<open>src/pakfile.c\<close>: the check of every name and payload, and the scan for names that
  collide on a case-folding host. The calls of the report callback are the list of the reports in
  their order; their texts are not modelled.
\<close>

section \<open>Reports\<close>

datatype severity = PAKKA_REPORT_INFO | PAKKA_REPORT_WARNING | PAKKA_REPORT_ERROR

type_synonym report = "severity \<times> status \<times> cstring"

text \<open>The reports so far and \<open>first_error\<close>.\<close>

type_synonym verify_state = "report list \<times> status"

definition verify_report :: "severity \<Rightarrow> status \<Rightarrow> cstring \<Rightarrow> verify_state \<Rightarrow> verify_state" where
  "verify_report sev s name = (\<lambda>(reps, first_error). (reps @ [(sev, s, name)], first_error))"

definition verify_record_error :: "status \<Rightarrow> cstring \<Rightarrow> verify_state \<Rightarrow> verify_state" where
  "verify_record_error s name = (\<lambda>(reps, first_error).
     (reps @ [(PAKKA_REPORT_ERROR, s, name)], if first_error = PAKKA_OK then s else first_error))"

section \<open>One entry\<close>

definition verify_extent :: "archive \<Rightarrow> pentry \<Rightarrow> u32 \<times> u32" where
  "verify_extent a e =
     (if pakka_format_is_zip (format a) then (pk3_payload_offset e, pk3_compressed_size e)
      else if dk_is_compressed e then (offset e, dk_compressed_size e)
      else (offset e, entry_length e))"

text \<open>The deep check of a compressed Daikatana entry.\<close>

definition verify_dk_deep :: "env \<Rightarrow> archive \<Rightarrow> cfile \<Rightarrow> pentry \<Rightarrow> status \<times> cfile" where
  "verify_dk_deep env a f e =
     (let clen = dk_compressed_size e; ulen = entry_length e in
      if max_decompressed a > 0 \<and> (ucast ulen > max_decompressed a \<or> ucast clen > max_decompressed a)
      then (PAKKA_ERR_LIMIT, f)
      else if clen > 0 \<and> e_oom env A_compressed then (PAKKA_ERR_NOMEM, f)
      else
        (let (cbuf, f1) =
           (if clen > 0 then
              (let (sought, f1) = fseek_set f (unat (offset e))
               in if \<not> sought then (None, f1) else fread_all f1 (unat clen))
            else (Some [], f))
         in case cbuf of
              None \<Rightarrow> (PAKKA_ERR_IO, f1)
            | Some cbuf \<Rightarrow>
                if ulen > 0 \<and> e_oom env A_inflated then (PAKKA_ERR_NOMEM, f1)
                else case pakka_dk_inflate (if clen > 0 then Some cbuf else None) (unat clen)
                    (if ulen > 0 then Some (replicate (unat ulen) 0) else None) (unat ulen) of
                  Ok _ \<Rightarrow> (PAKKA_OK, f1) | Fail dv \<Rightarrow> (dv, f1) | Fault \<Rightarrow> (PAKKA_ERR_FORMAT, f1)))"

definition verify_entry ::
  "zip_ops \<Rightarrow> env \<Rightarrow> bool \<Rightarrow> archive \<Rightarrow> cfile \<Rightarrow> pentry \<Rightarrow> verify_state \<Rightarrow> verify_state \<times> archive" where
  "verify_entry Z env deep a f e st =
     (let name = filename e; (off, len) = verify_extent a e in
      if pakka_unsafe_entry_name (Some name) \<noteq> Ok False
      then (verify_record_error PAKKA_ERR_UNSAFE_NAME name st, a)
      else if pending_source e \<noteq> None \<or> pending_data e \<noteq> None
      then (verify_report PAKKA_REPORT_INFO PAKKA_OK name st, a)
      else if len = 0 \<and> entry_length e = 0
      then (verify_report PAKKA_REPORT_INFO PAKKA_OK name st, a)
      else
        (let (sought, f1) = fseek_set f (unat off) in
         if \<not> sought then (verify_record_error PAKKA_ERR_IO name st, a\<lparr>fp := Some f1\<rparr>)
         else
           (let (complete, f2) = read_chunks f1 (unat len); a2 = a\<lparr>fp := Some f2\<rparr> in
            if \<not> complete then (verify_record_error PAKKA_ERR_IO name st, a2)
            else if pakka_format_is_zip (format a) then
              (if deep then
                 (let (dv, a3) = z_deep_verify Z env a2 e in
                  if dv \<noteq> PAKKA_OK then (verify_record_error dv name st, a3)
                  else (verify_report PAKKA_REPORT_INFO PAKKA_OK name st, a3))
               else (verify_report PAKKA_REPORT_INFO PAKKA_OK name st, a2))
            else if format a = PAKKA_FORMAT_DAIKATANA \<and> dk_is_compressed e \<and> deep then
              (let (dv, f3) = verify_dk_deep env a2 f2 e; a3 = a\<lparr>fp := Some f3\<rparr> in
               if dv \<noteq> PAKKA_OK then (verify_record_error dv name st, a3)
               else (verify_report PAKKA_REPORT_INFO PAKKA_OK name st, a3))
            else (verify_report PAKKA_REPORT_INFO PAKKA_OK name st, a2))))"

text \<open>The first pass. A ZIP implementation that leaves no stream behind ends it.\<close>

fun verify_entries ::
  "zip_ops \<Rightarrow> env \<Rightarrow> bool \<Rightarrow> archive \<Rightarrow> pentry list \<Rightarrow> verify_state \<Rightarrow> verify_state \<times> archive" where
  "verify_entries Z env deep a [] st = (st, a)"
| "verify_entries Z env deep a (e # es) st =
     (case fp a of
        None \<Rightarrow> (st, a)
      | Some f \<Rightarrow> (let (st1, a1) = verify_entry Z env deep a f e st
                  in verify_entries Z env deep a1 es st1))"

section \<open>Collisions\<close>

text \<open>The records \<open>{norm, original}\<close> in list order; \<open>None\<close> when an allocation fails.\<close>

fun collision_records :: "env \<Rightarrow> nat \<Rightarrow> pentry list \<Rightarrow> (cstring \<times> cstring) list option" where
  "collision_records env i [] = Some []"
| "collision_records env i (e # es) =
     (if e_oom env (A_norm i) then None
      else
        (let n = length (filename e) + 1 in
         case pakka_normalize_entry_name (filename e) (replicate n 0) n of
           Ok norm \<Rightarrow> map_option (\<lambda>rs. (cstr norm, filename e) # rs) (collision_records env (i + 1) es)
         | _ \<Rightarrow> None))"

text \<open>The scan of the sorted records. \<open>qsort\<close> leaves the order of equal keys open; which of two
  colliding names a report carries is therefore the choice of the model.\<close>

fun collision_scan :: "bool \<Rightarrow> (cstring \<times> cstring) list \<Rightarrow> verify_state \<Rightarrow> verify_state" where
  "collision_scan wad (r1 # r2 # rs) st =
     collision_scan wad (r2 # rs)
       (if fst r1 = fst r2
        then (if wad then verify_report PAKKA_REPORT_WARNING PAKKA_ERR_DUPLICATE (snd r2) st
              else verify_record_error PAKKA_ERR_DUPLICATE (snd r2) st)
        else st)"
| "collision_scan wad _ st = st"

section \<open>Verify\<close>

definition pakka_verify ::
  "zip_ops \<Rightarrow> env \<Rightarrow> archive option \<Rightarrow> u32 \<Rightarrow> status \<times> report list \<times> archive option" where
  "pakka_verify Z env archive flags =
     (case archive of
        None \<Rightarrow> (PAKKA_ERR_INVALID_ARGUMENT, [], None)
      | Some a \<Rightarrow>
          if flags AND NOT 1 \<noteq> 0 then (PAKKA_ERR_INVALID_ARGUMENT, [], archive)
          else if fp a = None then (PAKKA_ERR_INVALID_ARGUMENT, [], archive)
          else
            (let ((reps, first_error), a1) =
               verify_entries Z env (flags AND 1 \<noteq> 0) a (entries a) ([], PAKKA_OK)
             in if length (entries a) > 1 then
                  (if e_oom env A_records then (PAKKA_ERR_NOMEM, reps, Some a1)
                   else case collision_records env 0 (entries a) of
                       None \<Rightarrow> (PAKKA_ERR_NOMEM, reps, Some a1)
                     | Some recs \<Rightarrow>
                         (let (reps1, first_error1) =
                            collision_scan (pakka_format_is_wad (format a)) (sort_key fst recs) (reps, first_error)
                          in (first_error1, reps1, Some a1)))
                else (first_error, reps, Some a1)))"

end
