(* ===== verification/Pak_Format.thy ===== *)
theory Pak_Format
  imports Pak_Types "HOL-Library.List_Lexorder"
begin

text \<open>
  The on-disk format of PAK-class archives (\<^verbatim>\<open>src/pakfile.c\<close>): the header and directory writers, and
  the loader with its layout probe and bounds checks. The writers and the loader take the stream
  of \<open>pak->fp\<close> as an argument and return it. The lemmas describe what a writer leaves in the
  file, that a loader accepts only entries inside it, and that loading undoes writing.
\<close>

section \<open>Writing\<close>

definition init_pak_header :: "archive \<Rightarrow> archive" where
  "init_pak_header pak =
     pak\<lparr>signature := (case pakka_pak_geometry (format pak) of
           Some geom \<Rightarrow> g_signature geom | None \<Rightarrow> ascii ''PACK''),
         diroffset := of_nat PAKFILE_HEADER_SIZE, dirlength := 0,
         payload_end := of_nat PAKFILE_HEADER_SIZE\<rparr>"

definition write_pak_header :: "archive \<Rightarrow> cfile \<Rightarrow> status \<times> cfile" where
  "write_pak_header pak f =
     (let (ok, f1) = fwrite_all f (signature pak) in
      if \<not> ok then (PAKKA_ERR_IO, f1)
      else if pakka_format_is_wad (format pak) then
        (let numlumps = (case pakka_pak_geometry (format pak) of
               Some geom \<Rightarrow> if dir_entry_size geom \<noteq> 0
                 then dirlength pak div of_nat (dir_entry_size geom) else 0
             | None \<Rightarrow> 0);
             (ok, f2) = andthen (pakka_write_u32_le f1 numlumps)
               (\<lambda>f. pakka_write_u32_le f (diroffset pak))
         in (if ok then PAKKA_OK else PAKKA_ERR_IO, f2))
      else
        (let (ok, f2) = andthen (pakka_write_u32_le f1 (diroffset pak))
               (\<lambda>f. pakka_write_u32_le f (dirlength pak))
         in (if ok then PAKKA_OK else PAKKA_ERR_IO, f2)))"

definition pak_name_field :: "nat \<Rightarrow> cstring \<Rightarrow> u8 list" where
  "pak_name_field cap name =
     (let len = (if length name > cap then cap else length name)
      in take len name @ (if len < cap then replicate (cap - len) 0 else []))"

definition write_pak_entry :: "archive \<Rightarrow> pentry \<Rightarrow> cfile \<Rightarrow> status \<times> cfile" where
  "write_pak_entry pak entry f =
     (case pakka_pak_geometry (format pak) of
        None \<Rightarrow> (PAKKA_ERR_FORMAT, f)
      | Some geom \<Rightarrow>
          (let name_field = pak_name_field (name_field_len geom) (filename entry);
               (ok, f1) =
                 (if pakka_format_is_wad (format pak) then
                    andthen (andthen (pakka_write_u32_le f (offset entry))
                      (\<lambda>f. pakka_write_u32_le f (entry_length entry)))
                      (\<lambda>f. fwrite_all f name_field)
                  else
                    andthen (andthen (fwrite_all f name_field)
                      (\<lambda>f. pakka_write_u32_le f (offset entry)))
                      (\<lambda>f. pakka_write_u32_le f (entry_length entry)))
           in if \<not> ok then (PAKKA_ERR_IO, f1)
              else if has_compression geom then
                (let (ok, f2) = andthen (pakka_write_u32_le f1 (dk_compressed_size entry))
                       (\<lambda>f. pakka_write_u32_le f (if dk_is_compressed entry then 1 else 0))
                 in (if ok then PAKKA_OK else PAKKA_ERR_IO, f2))
              else (PAKKA_OK, f1)))"

text \<open>The loop over the entries; it counts \<open>dirlength\<close> up row by row.\<close>

fun write_dir_rows :: "archive \<Rightarrow> u32 \<Rightarrow> pentry list \<Rightarrow> u32 \<Rightarrow> cfile \<Rightarrow> status \<times> u32 \<times> cfile" where
  "write_dir_rows pak entry_size [] dirlen f = (PAKKA_OK, dirlen, f)"
| "write_dir_rows pak entry_size (current # rest) dirlen f =
     (let (s, f') = write_pak_entry pak current f in
      if s \<noteq> PAKKA_OK then (s, dirlen, f')
      else write_dir_rows pak entry_size rest (dirlen + entry_size) f')"

text \<open>\<open>fault\<close> is the fault hook in front of the header rewrite.\<close>

definition write_pak_directory :: "bool \<Rightarrow> archive \<Rightarrow> cfile \<Rightarrow> status \<times> archive \<times> cfile" where
  "write_pak_directory fault pak f =
     (case pakka_pak_geometry (format pak) of
        None \<Rightarrow> (PAKKA_ERR_FORMAT, pak, f)
      | Some geom \<Rightarrow>
          if entries pak = [] then
            (let pak1 = pak\<lparr>diroffset := of_nat PAKFILE_HEADER_SIZE, dirlength := 0\<rparr>;
                 (sought, f1) = fseek_set f 0
             in if \<not> sought then (PAKKA_ERR_IO, pak1, f1)
                else (let (s, f2) = write_pak_header pak1 f1 in (s, pak1, f2)))
          else
            (let total_dirlength = (ucast (num_entries pak) * of_nat (dir_entry_size geom) :: u64) in
             if payload_end pak + total_dirlength > of_nat UINT32_MAX then (PAKKA_ERR_LIMIT, pak, f)
             else
               (let pak1 = pak\<lparr>diroffset := ucast (payload_end pak), dirlength := 0\<rparr>;
                    (sought, f1) = fseek_set f (unat (diroffset pak1))
                in if \<not> sought then (PAKKA_ERR_IO, pak1, f1)
                   else
                     (let (s, dirlen, f2) =
                            write_dir_rows pak1 (of_nat (dir_entry_size geom)) (entries pak) 0 f1;
                          pak2 = pak1\<lparr>dirlength := dirlen\<rparr>
                      in if s \<noteq> PAKKA_OK then (s, pak2, f2)
                         else
                           (let (sought, f3) = fseek_set f2 0 in
                            if \<not> sought then (PAKKA_ERR_IO, pak2, f3)
                            else if fault then (PAKKA_ERR_IO, pak2, f3)
                            else (let (s, f4) = write_pak_header pak2 f3 in (s, pak2, f4)))))))"

section \<open>Loading\<close>

fun probe_loop :: "archive \<Rightarrow> pak_geometry \<Rightarrow> nat \<Rightarrow> nat \<Rightarrow> cfile \<Rightarrow> status \<times> cfile" where
  "probe_loop pak geom i 0 f = (PAKKA_OK, f)"
| "probe_loop pak geom i (Suc n) f =
     (let entry_pos = (ucast (diroffset pak) + of_nat i * of_nat (dir_entry_size geom) :: u64);
          (sought, f1) = fseek_set f (unat (entry_pos + of_nat (name_field_len geom)))
      in if \<not> sought then (PAKKA_ERR_FORMAT, f1)
         else case rbind (pakka_read_u32_le f1) (\<lambda>off f. rbind (pakka_read_u32_le f) (\<lambda>len f.
                 if has_compression geom then
                   rbind (pakka_read_u32_le f) (\<lambda>clen f. rbind (pakka_read_u32_le f) (\<lambda>flag f.
                     (Some (off, len, clen, flag), f)))
                 else (Some (off, len, 0, 0), f))) of
             (None, f2) \<Rightarrow> (PAKKA_ERR_FORMAT, f2)
           | (Some (off, len, dk_clen, dk_flag), f2) \<Rightarrow>
               (let extent = (if has_compression geom \<and> dk_flag \<noteq> 0 then ucast dk_clen else ucast len :: u64)
                in if unat off < PAKFILE_HEADER_SIZE \<or> extent > file_size pak
                      \<or> ucast off > file_size pak - extent
                   then (PAKKA_ERR_FORMAT, f2)
                   else probe_loop pak geom (i + 1) n f2))"

definition probe_pak_layout :: "archive \<Rightarrow> pak_geometry \<Rightarrow> cfile \<Rightarrow> status \<times> cfile" where
  "probe_pak_layout pak geom f =
     (if unat (dirlength pak) mod dir_entry_size geom \<noteq> 0 then (PAKKA_ERR_FORMAT, f)
      else
        (let entry_count = dirlength pak div of_nat (dir_entry_size geom) in
         if unat entry_count > PAKFILE_MAX_ENTRIES then (PAKKA_ERR_FORMAT, f)
         else probe_loop pak geom 0 (unat entry_count) f))"

text \<open>Classification by signature and hint: an error, a ZIP-class format, or a PAK-class one that
  may still be provisional.\<close>

datatype magic_class = Magic_Error status | Magic_Zip pakka_format | Magic_Pak pakka_format

definition hint_in :: "archive \<Rightarrow> pakka_format list \<Rightarrow> bool" where
  "hint_in pak fs \<longleftrightarrow> format_hint pak \<in> set fs"

definition classify_magic :: "archive \<Rightarrow> magic_class" where
  "classify_magic pak =
     (if signature pak = [0x50, 0x4B, 3, 4] \<or> signature pak = [0x50, 0x4B, 5, 6] then
        (if \<not> hint_in pak [PAKKA_FORMAT_AUTO, PAKKA_FORMAT_PK3, PAKKA_FORMAT_PK4]
         then Magic_Error PAKKA_ERR_INVALID_ARGUMENT
         else if hint_in pak [PAKKA_FORMAT_PK3, PAKKA_FORMAT_PK4] then Magic_Zip (format_hint pak)
         else Magic_Zip (pakka_zip_format_from_path (Some (cur_pakpath pak))))
      else if signature pak = [0x50, 0x4B, 7, 8] then Magic_Error PAKKA_ERR_UNSUPPORTED
      else if signature pak = ascii ''SPAK'' then
        (if \<not> hint_in pak [PAKKA_FORMAT_AUTO, PAKKA_FORMAT_SIN]
         then Magic_Error PAKKA_ERR_INVALID_ARGUMENT else Magic_Pak PAKKA_FORMAT_SIN)
      else if signature pak = ascii ''PACK'' then
        (if \<not> hint_in pak [PAKKA_FORMAT_AUTO, PAKKA_FORMAT_PAK, PAKKA_FORMAT_DAIKATANA]
         then Magic_Error PAKKA_ERR_INVALID_ARGUMENT
         else Magic_Pak (if format_hint pak = PAKKA_FORMAT_DAIKATANA
                         then PAKKA_FORMAT_DAIKATANA else PAKKA_FORMAT_PAK))
      else if signature pak = ascii ''IWAD'' then
        (if \<not> hint_in pak [PAKKA_FORMAT_AUTO, PAKKA_FORMAT_IWAD]
         then Magic_Error PAKKA_ERR_INVALID_ARGUMENT else Magic_Pak PAKKA_FORMAT_IWAD)
      else if signature pak = ascii ''PWAD'' then
        (if \<not> hint_in pak [PAKKA_FORMAT_AUTO, PAKKA_FORMAT_PWAD]
         then Magic_Error PAKKA_ERR_INVALID_ARGUMENT else Magic_Pak PAKKA_FORMAT_PWAD)
      else Magic_Error PAKKA_ERR_FORMAT)"

text \<open>The two header fields, read in the order of the format and normalised to bytes.\<close>

definition load_header_fields :: "archive \<Rightarrow> cfile \<Rightarrow> status \<times> archive \<times> cfile" where
  "load_header_fields pak f =
     (if pakka_format_is_wad (format pak) then
        (case rbind (pakka_read_u32_le f) (\<lambda>numlumps f. rbind (pakka_read_u32_le f)
                (\<lambda>infotableofs f. (Some (numlumps, infotableofs), f))) of
           (None, f') \<Rightarrow> (PAKKA_ERR_IO, pak, f')
         | (Some (numlumps, infotableofs), f') \<Rightarrow>
             if unat numlumps > PAKFILE_MAX_ENTRIES then (PAKKA_ERR_LIMIT, pak, f')
             else (case pakka_pak_geometry (format pak) of
                 None \<Rightarrow> (PAKKA_ERR_FORMAT, pak, f')
               | Some wad_geom \<Rightarrow>
                   (PAKKA_OK, pak\<lparr>dirlength := numlumps * of_nat (dir_entry_size wad_geom),
                                  diroffset := infotableofs\<rparr>, f')))
      else
        (case rbind (pakka_read_u32_le f) (\<lambda>diroff f. rbind (pakka_read_u32_le f)
                (\<lambda>dirlen f. (Some (diroff, dirlen), f))) of
           (None, f') \<Rightarrow> (PAKKA_ERR_IO, pak, f')
         | (Some (diroff, dirlen), f') \<Rightarrow>
             (PAKKA_OK, pak\<lparr>diroffset := diroff, dirlength := dirlen\<rparr>, f')))"

text \<open>The choice between the two \<open>PACK\<close> layouts when the caller gave no hint.\<close>

definition resolve_pack_layout :: "archive \<Rightarrow> cfile \<Rightarrow> status \<times> archive \<times> cfile" where
  "resolve_pack_layout pak f =
     (if (format pak = PAKKA_FORMAT_PAK \<or> format pak = PAKKA_FORMAT_DAIKATANA)
         \<and> format_hint pak = PAKKA_FORMAT_AUTO then
        (if dirlength pak = 0 then (PAKKA_OK, pak\<lparr>format := PAKKA_FORMAT_PAK\<rparr>, f)
         else
           (let (ok_pak, f1) = probe_pak_layout pak (the (pakka_pak_geometry PAKKA_FORMAT_PAK)) f;
                (ok_dk, f2) = probe_pak_layout pak (the (pakka_pak_geometry PAKKA_FORMAT_DAIKATANA)) f1
            in if ok_pak = PAKKA_OK \<and> ok_dk = PAKKA_OK then (PAKKA_ERR_FORMAT, pak, f2)
               else if ok_pak = PAKKA_OK then (PAKKA_OK, pak\<lparr>format := PAKKA_FORMAT_PAK\<rparr>, f2)
               else if ok_dk = PAKKA_OK then (PAKKA_OK, pak\<lparr>format := PAKKA_FORMAT_DAIKATANA\<rparr>, f2)
               else (PAKKA_ERR_FORMAT, pak, f2)))
      else (PAKKA_OK, pak, f))"

definition load_header_checks :: "archive \<Rightarrow> cfile \<Rightarrow> status \<times> archive \<times> cfile" where
  "load_header_checks pak f =
     (if unat (diroffset pak) < PAKFILE_HEADER_SIZE then (PAKKA_ERR_FORMAT, pak, f)
      else if ucast (dirlength pak) > file_size pak
           \<or> ucast (diroffset pak) > file_size pak - ucast (dirlength pak)
      then (PAKKA_ERR_FORMAT, pak, f)
      else
        (let (s, pak1, f1) = resolve_pack_layout pak f in
         if s \<noteq> PAKKA_OK then (s, pak1, f1)
         else case pakka_pak_geometry (format pak1) of
             None \<Rightarrow> (PAKKA_ERR_FORMAT, pak1, f1)
           | Some geom \<Rightarrow>
               if unat (dirlength pak1) mod dir_entry_size geom \<noteq> 0 then (PAKKA_ERR_FORMAT, pak1, f1)
               else
                 (let pak2 = pak1\<lparr>num_entries := dirlength pak1 div of_nat (dir_entry_size geom)\<rparr> in
                  if unat (num_entries pak2) > PAKFILE_MAX_ENTRIES then (PAKKA_ERR_LIMIT, pak2, f1)
                  else (PAKKA_OK, pak2, f1))))"

text \<open>\<open>zip_open\<close> is \<open>pakka_pk3_open_impl\<close> of the ZIP half of the library.\<close>

definition load_pakfile ::
  "(archive \<Rightarrow> cfile \<Rightarrow> status \<times> archive \<times> cfile) \<Rightarrow> archive \<Rightarrow> cfile \<Rightarrow> status \<times> archive \<times> cfile" where
  "load_pakfile zip_open pak f =
     (let (sought, f1) = fseek_end f in
      if \<not> sought then (PAKKA_ERR_IO, pak, f1)
      else case ftell f1 of
        None \<Rightarrow> (PAKKA_ERR_IO, pak, f1)
      | Some sz \<Rightarrow>
          (let pak1 = pak\<lparr>file_size := of_nat sz\<rparr>;
               (sig, f2) = fread_all (rewind f1) PAKFILE_SIGNATURE_LEN
           in case sig of
                None \<Rightarrow> (PAKKA_ERR_IO, pak1, f2)
              | Some sig \<Rightarrow>
                  (let pak2 = pak1\<lparr>signature := sig\<rparr> in
                   case classify_magic pak2 of
                     Magic_Error s \<Rightarrow> (s, pak2, f2)
                   | Magic_Zip fmt \<Rightarrow> zip_open (pak2\<lparr>format := fmt\<rparr>) f2
                   | Magic_Pak fmt \<Rightarrow>
                       (let (s, pak3, f3) = load_header_fields (pak2\<lparr>format := fmt\<rparr>) f2 in
                        if s \<noteq> PAKKA_OK then (s, pak3, f3)
                        else load_header_checks pak3 f3))))"

text \<open>One directory row: the name field and the numbers in the order of the format.\<close>

definition read_dir_entry :: "pakka_format \<Rightarrow> pak_geometry \<Rightarrow> cfile \<Rightarrow> pentry option \<times> cfile" where
  "read_dir_entry fmt geom f =
     rbind
       (if pakka_format_is_wad fmt then
          rbind (pakka_read_u32_le f) (\<lambda>off f. rbind (pakka_read_u32_le f) (\<lambda>len f.
            rbind (fread_all f (name_field_len geom)) (\<lambda>name f. (Some (name, off, len), f))))
        else
          rbind (fread_all f (name_field_len geom)) (\<lambda>name f. rbind (pakka_read_u32_le f) (\<lambda>off f.
            rbind (pakka_read_u32_le f) (\<lambda>len f. (Some (name, off, len), f)))))
       (\<lambda>(name, off, len) f.
          let current = calloc_entry\<lparr>filename := cstr name, offset := off, entry_length := len\<rparr> in
          if has_compression geom then
            rbind (pakka_read_u32_le f) (\<lambda>csize f. rbind (pakka_read_u32_le f) (\<lambda>flag_u32 f.
              (Some (current\<lparr>dk_compressed_size := csize, dk_is_compressed := flag_u32 \<noteq> 0\<rparr>), f)))
          else (Some current, f))"

definition entry_extent64 :: "pentry \<Rightarrow> u64" where
  "entry_extent64 e = (if dk_is_compressed e then ucast (dk_compressed_size e) else ucast (entry_length e))"

definition entry_out_of_range :: "archive \<Rightarrow> pentry \<Rightarrow> bool" where
  "entry_out_of_range pak current =
     (let allow_below_header = (pakka_format_is_wad (format pak) \<and> entry_length current = 0);
          extent = entry_extent64 current
      in (\<not> allow_below_header \<and> unat (offset current) < PAKFILE_HEADER_SIZE)
         \<or> extent > file_size pak \<or> ucast (offset current) > file_size pak - extent)"

text \<open>\<open>oom i\<close>: the allocation of row \<open>i\<close> fails.\<close>

fun load_dir_rows ::
  "(nat \<Rightarrow> bool) \<Rightarrow> pak_geometry \<Rightarrow> nat \<Rightarrow> nat \<Rightarrow> archive \<Rightarrow> cfile \<Rightarrow> status \<times> archive \<times> cfile" where
  "load_dir_rows oom geom i 0 pak f = (PAKKA_OK, pak, f)"
| "load_dir_rows oom geom i (Suc n) pak f =
     (if oom i then (PAKKA_ERR_NOMEM, pak, f)
      else case read_dir_entry (format pak) geom f of
        (None, f') \<Rightarrow> (PAKKA_ERR_IO, pak, f')
      | (Some current, f') \<Rightarrow>
          if entry_out_of_range pak current then (PAKKA_ERR_FORMAT, pak, f')
          else
            (let e_end = ucast (offset current) + entry_extent64 current;
                 pak1 = (if e_end > payload_end pak then pak\<lparr>payload_end := e_end\<rparr> else pak)
             in load_dir_rows oom geom (i + 1) n (pak1\<lparr>entries := entries pak1 @ [current]\<rparr>) f'))"

definition load_directory :: "(nat \<Rightarrow> bool) \<Rightarrow> archive \<Rightarrow> cfile \<Rightarrow> status \<times> archive \<times> cfile" where
  "load_directory oom pak f =
     (let pak1 = pak\<lparr>payload_end := of_nat PAKFILE_HEADER_SIZE\<rparr> in
      if num_entries pak1 = 0 then (PAKKA_OK, pak1, f)
      else case pakka_pak_geometry (format pak1) of
        None \<Rightarrow> (PAKKA_ERR_FORMAT, pak1, f)
      | Some geom \<Rightarrow>
          (let (sought, f1) = fseek_set f (unat (diroffset pak1)) in
           if \<not> sought then (PAKKA_ERR_IO, pak1, f1)
           else load_dir_rows oom geom 0 (unat (num_entries pak1)) pak1 f1))"

text \<open>\<open>qsort\<close> of the names by \<open>strcmp\<close>, then a scan for equal neighbours.\<close>

fun adjacent_equal :: "cstring list \<Rightarrow> bool" where
  "adjacent_equal (a # b # names) = (a = b \<or> adjacent_equal (b # names))"
| "adjacent_equal names = False"

text \<open>\<open>strcmp\<close> is the lexicographic order on the bytes.\<close>

definition validate_no_duplicates :: "(nat \<Rightarrow> bool) \<Rightarrow> archive \<Rightarrow> status" where
  "validate_no_duplicates oom pak =
     (if pakka_format_is_wad (format pak) then PAKKA_OK
      else if unat (num_entries pak) \<le> 1 then PAKKA_OK
      else if oom 0 then PAKKA_ERR_NOMEM
      else
        (let names = sort (map filename (take (unat (num_entries pak)) (entries pak))) in
         if adjacent_equal names then PAKKA_ERR_DUPLICATE else PAKKA_OK))"

section \<open>What the writers write\<close>

definition io_status :: "bool \<times> cfile \<Rightarrow> status \<times> cfile" where
  "io_status r = (if fst r then PAKKA_OK else PAKKA_ERR_IO, snd r)"

lemma io_status_case: "(case r of (ok, f) \<Rightarrow> (if ok then PAKKA_OK else PAKKA_ERR_IO, f)) = io_status r"
  by (cases r) (simp add: io_status_def)

lemma io_status_OK: "io_status r = (PAKKA_OK, g) \<longleftrightarrow> r = (True, g)"
  by (cases r) (auto simp: io_status_def)

definition wad_count :: "archive \<Rightarrow> u32" where
  "wad_count pak = (case pakka_pak_geometry (format pak) of
     Some geom \<Rightarrow> if dir_entry_size geom \<noteq> 0 then dirlength pak div of_nat (dir_entry_size geom) else 0
   | None \<Rightarrow> 0)"

definition header_bytes :: "archive \<Rightarrow> u8 list" where
  "header_bytes pak = signature pak @
     (if pakka_format_is_wad (format pak) then u32_le (wad_count pak) @ u32_le (diroffset pak)
      else u32_le (diroffset pak) @ u32_le (dirlength pak))"

definition row_bytes :: "pakka_format \<Rightarrow> pak_geometry \<Rightarrow> pentry \<Rightarrow> u8 list" where
  "row_bytes fmt geom e =
     (if pakka_format_is_wad fmt
      then u32_le (offset e) @ u32_le (entry_length e) @ pak_name_field (name_field_len geom) (filename e)
      else pak_name_field (name_field_len geom) (filename e) @ u32_le (offset e) @ u32_le (entry_length e))
     @ (if has_compression geom
        then u32_le (dk_compressed_size e) @ u32_le (if dk_is_compressed e then 1 else 0) else [])"

lemma header_length: "length (signature pak) = 4 \<Longrightarrow> length (header_bytes pak) = 12"
  by (simp add: header_bytes_def)

lemma pak_name_field_length [simp]: "length (pak_name_field cap name) = cap"
  by (simp add: pak_name_field_def Let_def)

lemma pak_name_field_eq:
  "pak_name_field cap name = take cap name @ replicate (cap - length name) 0"
  by (simp add: pak_name_field_def Let_def)

lemma row_length: "pakka_pak_geometry fmt = Some g \<Longrightarrow> length (row_bytes fmt g e) = dir_entry_size g"
  using geometry_facts(4) [of fmt g] by (simp add: row_bytes_def)

text \<open>Every writer is one write of the bytes it stands for.\<close>

lemma write_pak_header_eq: "write_pak_header pak f = io_status (fwrite_all f (header_bytes pak))"
proof (cases "fwrite_all f (signature pak)")
  case (Pair ok f1)
  then show ?thesis
    by (cases ok) (simp_all add: write_pak_header_def header_bytes_def fwrite_all_append io_status_case
        pakka_write_u32_le_all wad_count_def andthen_def io_status_def Let_def split: prod.splits)
qed

lemma write_pak_entry_eq:
  assumes g: "pakka_pak_geometry (format pak) = Some geom"
  shows "write_pak_entry pak e f = io_status (fwrite_all f (row_bytes (format pak) geom e))"
proof -
  let ?r = "if pakka_format_is_wad (format pak)
      then u32_le (offset e) @ u32_le (entry_length e) @ pak_name_field (name_field_len geom) (filename e)
      else pak_name_field (name_field_len geom) (filename e) @ u32_le (offset e) @ u32_le (entry_length e)"
  let ?c = "u32_le (dk_compressed_size e) @ u32_le (if dk_is_compressed e then 1 else 0)"
  have "write_pak_entry pak e f =
    (case fwrite_all f ?r of (ok, f1) \<Rightarrow>
      if \<not> ok then (PAKKA_ERR_IO, f1)
      else if has_compression geom then io_status (fwrite_all f1 ?c) else (PAKKA_OK, f1))"
    unfolding write_pak_entry_def g option.case Let_def pakka_write_u32_le_all
      fwrite_all_append [symmetric] io_status_case append_assoc
    by (cases "pakka_format_is_wad (format pak)") simp_all
  moreover have "fwrite_all f (row_bytes (format pak) geom e) =
    (case fwrite_all f ?r of (ok, f1) \<Rightarrow>
      if \<not> ok then (False, f1) else if has_compression geom then fwrite_all f1 ?c else (True, f1))"
    unfolding row_bytes_def
    by (simp only: fwrite_all_append [of f ?r] andthen_def)
      (auto split: prod.splits bool.splits simp: fwrite_all_def)
  ultimately show ?thesis
    by (auto simp: io_status_def split: prod.splits)
qed

text \<open>The rows one after the other.\<close>

definition dir_bytes :: "pakka_format \<Rightarrow> pak_geometry \<Rightarrow> pentry list \<Rightarrow> u8 list" where
  "dir_bytes fmt geom es = concat (map (row_bytes fmt geom) es)"

lemma dir_bytes_length:
  "pakka_pak_geometry fmt = Some g \<Longrightarrow> length (dir_bytes fmt g es) = length es * dir_entry_size g"
  by (induction es) (simp_all add: dir_bytes_def row_length)

lemma write_dir_rows_eq:
  assumes "pakka_pak_geometry (format pak) = Some geom"
  shows "write_dir_rows pak sz es d f = (s, d', h) \<Longrightarrow>
    io_status (fwrite_all f (dir_bytes (format pak) geom es)) = (s, h) \<and>
    (s = PAKKA_OK \<longrightarrow> d' = d + of_nat (length es) * sz)"
proof (induction es arbitrary: d f)
  case (Cons e es)
  obtain ok f1 where e: "fwrite_all f (row_bytes (format pak) geom e) = (ok, f1)"
    by (cases "fwrite_all f (row_bytes (format pak) geom e)")
  show ?case
  proof (cases ok)
    case True
    then have "write_dir_rows pak sz es (d + sz) f1 = (s, d', h)"
      using Cons.prems e by (simp add: write_pak_entry_eq [OF assms] io_status_def)
    from Cons.IH [OF this] e True show ?thesis
      by (simp add: dir_bytes_def fwrite_all_append andthen_def algebra_simps)
  next
    case False
    with Cons.prems e show ?thesis
      by (auto simp: write_pak_entry_eq [OF assms] io_status_def dir_bytes_def fwrite_all_append andthen_def)
  qed
qed (simp add: dir_bytes_def io_status_def)

section \<open>The directory writer\<close>

definition pe :: "archive \<Rightarrow> nat" where
  "pe pak = unat (payload_end pak)"

text \<open>What holds of an archive handle between calls, as far as the directory writer needs it.\<close>

definition writable_dir :: "archive \<Rightarrow> bool" where
  "writable_dir pak \<longleftrightarrow> length (signature pak) = 4 \<and> pe pak < 2 ^ 63 \<and> 12 \<le> pe pak
     \<and> unat (num_entries pak) = length (entries pak)"

lemma fseek_set_True: "fseek_set f p = (True, g) \<longleftrightarrow> f_seekable f \<and> g = f\<lparr>f_pos := p\<rparr>"
  by (auto simp: fseek_set_def)

lemma fseek_set_cases:
  "fseek_set f p = (r, g) \<Longrightarrow> r \<and> f_seekable f \<and> g = f\<lparr>f_pos := p\<rparr> \<or> \<not> r \<and> g = f"
  by (auto simp: fseek_set_def split: if_splits)

lemma entry_size_word:
  assumes "pakka_pak_geometry fmt = Some g"
  shows "unat (of_nat (dir_entry_size g) :: 32 word) = dir_entry_size g"
    "unat (of_nat (dir_entry_size g) :: u64) = dir_entry_size g"
  using geometry_facts(7) [OF assms] by (simp_all add: unat_of_nat_u32 unat_of_nat_u64)

lemma total_dirlength:
  assumes "pakka_pak_geometry fmt = Some g"
  shows "unat (ucast (n :: u32) * of_nat (dir_entry_size g) :: u64) = unat n * dir_entry_size g"
proof -
  have b: "unat n < 2 ^ 32" by (rule unat_u32_bound)
  have "unat n * dir_entry_size g \<le> unat n * 128"
    using geometry_facts(7) [OF assms] by (rule mult_le_mono2)
  also have "\<dots> < 2 ^ 64" using b by simp
  finally have lt: "unat n * dir_entry_size g < 2 ^ 64" .
  have "unat (ucast n :: u64) = unat n"
    using b by (simp add: unsigned_ucast_eq take_bit_nat_eq_self)
  then show ?thesis
    using lt entry_size_word(2) [OF assms]
    by (simp add: unat_word_ariths)
qed

lemma dir_limit:
  assumes "pakka_pak_geometry fmt = Some g" "pe pak < 2 ^ 63"
  shows "\<not> payload_end pak + ucast (num_entries pak) * of_nat (dir_entry_size g) > of_nat UINT32_MAX
    \<longleftrightarrow> pe pak + unat (num_entries pak) * dir_entry_size g < 2 ^ 32"
proof -
  have "unat (num_entries pak) * dir_entry_size g \<le> unat (num_entries pak) * 128"
    using geometry_facts(7) [OF assms(1)] by (rule mult_le_mono2)
  also have "unat (num_entries pak) * 128 < 2 ^ 39"
    using unat_u32_bound [of "num_entries pak"] by simp
  finally have "pe pak + unat (num_entries pak) * dir_entry_size g < 2 ^ 64"
    using assms(2) by simp
  then have "unat (payload_end pak + ucast (num_entries pak) * of_nat (dir_entry_size g))
      = pe pak + unat (num_entries pak) * dir_entry_size g"
    by (simp add: unat_word_ariths(1) total_dirlength [OF assms(1)] pe_def)
  then show ?thesis
    by (simp add: word_less_nat_alt not_less UINT32_MAX_def unat_of_nat_u64) arith
qed

lemma unat_ucast_u64_u32: "unat (w :: u64) < 2 ^ 32 \<Longrightarrow> unat (ucast w :: u32) = unat w"
  by (simp add: unsigned_ucast_eq take_bit_nat_eq_self)

lemma unat_ucast_u32_u64: "unat (ucast (w :: u32) :: u64) = unat w"
  using unat_u32_bound [of w] by (simp add: unsigned_ucast_eq take_bit_nat_eq_self)

text \<open>The two writes of a successful run, and that nothing else changes.\<close>

lemma write_pak_directory_OK:
  assumes g: "pakka_pak_geometry (format pak) = Some geom" and w: "writable_dir pak"
    and ne: "entries pak \<noteq> []"
    and ok: "write_pak_directory fault pak f = (PAKKA_OK, pak', f')"
  shows "pak' = pak\<lparr>diroffset := of_nat (pe pak), dirlength := of_nat (length (entries pak) * dir_entry_size geom)\<rparr>"
    "pe pak + length (entries pak) * dir_entry_size geom < 2 ^ 32"
    "f' = f_put ((f_put (f\<lparr>f_pos := pe pak\<rparr>) (dir_bytes (format pak) geom (entries pak)))\<lparr>f_pos := 0\<rparr>)
       (header_bytes pak')"
proof -
  let ?n = "length (entries pak) * dir_entry_size geom"
  have pe: "pe pak < 2 ^ 63" using w by (simp add: writable_dir_def)
  have lim: "\<not> payload_end pak + ucast (num_entries pak) * of_nat (dir_entry_size geom) > of_nat UINT32_MAX"
    using ok ne by (auto simp: write_pak_directory_def g Let_def split: if_splits)
  then show lt: "pe pak + ?n < 2 ^ 32"
    using dir_limit [OF g pe] w by (simp add: writable_dir_def)
  then have off: "unat (ucast (payload_end pak) :: u32) = pe pak"
    by (simp add: pe_def unat_ucast_u64_u32)
  define pak1 where "pak1 = pak\<lparr>diroffset := ucast (payload_end pak), dirlength := 0\<rparr>"
  have g1: "pakka_pak_geometry (format pak1) = Some geom" by (simp add: pak1_def g)
  obtain s d f2 where rows: "write_dir_rows pak1 (of_nat (dir_entry_size geom)) (entries pak) 0 (f\<lparr>f_pos := pe pak\<rparr>) = (s, d, f2)"
    using prod_cases3 by blast
  from ok ne lim off rows have s: "s = PAKKA_OK"
    by (auto simp: write_pak_directory_def g Let_def fseek_set_def pak1_def [symmetric] split: if_splits)
      (auto simp: pak1_def split: if_splits)
  from write_dir_rows_eq [OF g1 rows] s
  have f2: "fwrite_all (f\<lparr>f_pos := pe pak\<rparr>) (dir_bytes (format pak) geom (entries pak)) = (True, f2)"
    and d: "d = of_nat (length (entries pak)) * of_nat (dir_entry_size geom)"
    by (simp_all add: io_status_OK pak1_def)
  from ok ne lim off rows s
  have p: "pak' = pak1\<lparr>dirlength := d\<rparr>"
    and h: "write_pak_header pak' (f2\<lparr>f_pos := 0\<rparr>) = (PAKKA_OK, f')"
    by (auto simp: write_pak_directory_def g Let_def fseek_set_def pak1_def [symmetric] split: if_splits prod.splits)
      (auto simp: pak1_def split: if_splits prod.splits)
  have "ucast (payload_end pak) = (of_nat (pe pak) :: u32)"
    using lt by (simp add: word_unat_eq_iff off unat_of_nat_u32)
  then show "pak' = pak\<lparr>diroffset := of_nat (pe pak), dirlength := of_nat ?n\<rparr>"
    by (simp add: p pak1_def d)
  have "length (header_bytes pak') = 12" using w by (simp add: header_length p pak1_def writable_dir_def)
  then have "header_bytes pak' \<noteq> []" by auto
  then have "f' = f_put (f2\<lparr>f_pos := 0\<rparr>) (header_bytes pak')"
    using h by (simp add: write_pak_header_eq io_status_OK fwrite_all_True)
  moreover have "f2 = f_put (f\<lparr>f_pos := pe pak\<rparr>) (dir_bytes (format pak) geom (entries pak))"
    using f2 by (simp add: fwrite_all_True)
  ultimately show "f' = f_put ((f_put (f\<lparr>f_pos := pe pak\<rparr>) (dir_bytes (format pak) geom (entries pak)))\<lparr>f_pos := 0\<rparr>)
       (header_bytes pak')" by simp
qed

text \<open>Whatever the outcome, the payload region is untouched and only the two directory fields of the
  handle change.\<close>

lemma write_pak_directory_frame:
  assumes w: "writable_dir pak" and r: "write_pak_directory fault pak f = (s, pak', f')"
  shows "f_keeps (\<lambda>i. 12 \<le> i \<and> i < pe pak) f f'"
    "\<exists>a b. pak' = pak\<lparr>diroffset := a, dirlength := b\<rparr>"
proof -
  let ?P = "\<lambda>i. 12 \<le> i \<and> i < pe pak"
  have same: "\<exists>a b. pak = pak\<lparr>diroffset := a, dirlength := b\<rparr>"
    by (rule exI [of _ "diroffset pak"], rule exI [of _ "dirlength pak"]) simp
  have hdr: "f_keeps ?P h h'" if "write_pak_header p (h\<lparr>f_pos := 0\<rparr>) = (t, h')" "length (signature p) = 4" for p h t h'
  proof -
    obtain b k where k: "fwrite_all (h\<lparr>f_pos := 0\<rparr>) (header_bytes p) = (b, k)" by fastforce
    with that(1) have "fwrite_all (h\<lparr>f_pos := 0\<rparr>) (header_bytes p) = (b, h')"
      by (simp add: write_pak_header_eq io_status_def)
    from f_keeps_fwrite_all(1) [OF this, of ?P] show ?thesis by (simp add: header_length that(2))
  qed
  have "f_keeps ?P f f' \<and> (\<exists>a b. pak' = pak\<lparr>diroffset := a, dirlength := b\<rparr>)"
  proof (cases "pakka_pak_geometry (format pak)")
    case None
    with r same show ?thesis by (auto simp: write_pak_directory_def)
  next
    case g: (Some geom)
    show ?thesis
    proof (cases "entries pak = []")
      case True
      let ?p = "pak\<lparr>diroffset := of_nat PAKFILE_HEADER_SIZE, dirlength := 0\<rparr>"
      have l: "length (signature ?p) = 4" using w by (simp add: writable_dir_def)
      obtain t h' where t: "write_pak_header ?p (f\<lparr>f_pos := 0\<rparr>) = (t, h')" by fastforce
      with hdr [OF t l] r True g same show ?thesis
        by (auto simp: write_pak_directory_def Let_def fseek_set_def split: if_splits)
    next
      case False
      show ?thesis
      proof (cases "payload_end pak + ucast (num_entries pak) * of_nat (dir_entry_size geom) > of_nat UINT32_MAX")
        case True
        with r False g same show ?thesis by (auto simp: write_pak_directory_def Let_def)
      next
        case lim: False
        have pe: "pe pak < 2 ^ 63" using w by (simp add: writable_dir_def)
        have "pe pak < 2 ^ 32" using dir_limit [OF g pe] lim by simp
        then have off: "unat (ucast (payload_end pak) :: u32) = pe pak"
          by (simp add: pe_def unat_ucast_u64_u32)
        define pak1 where "pak1 = pak\<lparr>diroffset := ucast (payload_end pak), dirlength := 0\<rparr>"
        have g1: "pakka_pak_geometry (format pak1) = Some geom" by (simp add: pak1_def g)
        obtain t d f2 where rows: "write_dir_rows pak1 (of_nat (dir_entry_size geom)) (entries pak) 0 (f\<lparr>f_pos := pe pak\<rparr>) = (t, d, f2)"
          using prod_cases3 by blast
        obtain b k where k: "fwrite_all (f\<lparr>f_pos := pe pak\<rparr>) (dir_bytes (format pak1) geom (entries pak)) = (b, k)"
          by fastforce
        with write_dir_rows_eq [OF g1 rows]
        have "fwrite_all (f\<lparr>f_pos := pe pak\<rparr>) (dir_bytes (format pak1) geom (entries pak)) = (b, f2)"
          by (simp add: io_status_def)
        from f_keeps_fwrite_all(1) [OF this, of ?P] have k2: "f_keeps ?P f f2" by auto
        let ?p = "pak1\<lparr>dirlength := d\<rparr>"
        have l: "length (signature ?p) = 4" using w by (simp add: writable_dir_def pak1_def)
        obtain u h' where u: "write_pak_header ?p (f2\<lparr>f_pos := 0\<rparr>) = (u, h')" by fastforce
        have k3: "f_keeps ?P f h'" by (rule f_keeps_trans [OF k2 hdr [OF u l]])
        have p1: "\<exists>a b. pak1 = pak\<lparr>diroffset := a, dirlength := b\<rparr>" "\<exists>a b. ?p = pak\<lparr>diroffset := a, dirlength := b\<rparr>"
          unfolding pak1_def by auto
        have e1: "entries pak1 = entries pak" "diroffset pak1 = ucast (payload_end pak)"
          by (simp_all add: pak1_def)
        have r1: "(s, pak', f') =
          (if \<not> f_seekable f then (PAKKA_ERR_IO, pak1, f)
           else if t \<noteq> PAKKA_OK then (t, ?p, f2)
           else if \<not> f_seekable f2 then (PAKKA_ERR_IO, ?p, f2)
           else if fault then (PAKKA_ERR_IO, ?p, f2\<lparr>f_pos := 0\<rparr>) else (u, ?p, h'))"
          using r False lim g rows u off e1
          unfolding write_pak_directory_def Let_def fseek_set_def pak1_def [symmetric]
          by (auto split: if_splits)
        then have "pak' = pak1 \<or> pak' = ?p" "f' = f \<or> f' = f2 \<or> f' = f2\<lparr>f_pos := 0\<rparr> \<or> f' = h'"
          by (auto split: if_splits)
        then show ?thesis using k2 k3 p1 by (elim disjE) (simp_all only: f_keeps_fields f_keeps_refl simp_thms)
      qed
    qed
  qed
  then show "f_keeps ?P f f'" "\<exists>a b. pak' = pak\<lparr>diroffset := a, dirlength := b\<rparr>" by auto
qed

section \<open>What the loader accepts\<close>

definition entry_end :: "pentry \<Rightarrow> nat" where
  "entry_end e = unat (offset e) + unat (pak_entry_on_disk_extent e)"

lemma unat_entry_extent64: "unat (entry_extent64 e) = unat (pak_entry_on_disk_extent e)"
  by (simp add: entry_extent64_def pak_entry_on_disk_extent_def unat_ucast_u32_u64)

lemma entry_end_bound: "entry_end e < 2 ^ 33"
  using unat_u32_bound [of "offset e"] unat_u32_bound [of "pak_entry_on_disk_extent e"]
  by (simp add: entry_end_def)

lemma unat_entry_end: "unat (ucast (offset e) + entry_extent64 e :: u64) = entry_end e"
  using entry_end_bound [of e]
  by (simp add: unat_word_ariths unat_ucast_u32_u64 unat_entry_extent64 entry_end_def)

lemma range_check: "\<not> (x > fs \<or> y > fs - x) \<longleftrightarrow> unat y + unat x \<le> unat fs" for x y fs :: u64
proof (cases "x \<le> fs")
  case True
  then have "unat (fs - x) = unat fs - unat x" "unat x \<le> unat fs"
    by (simp_all add: unat_sub word_le_nat_alt)
  with True show ?thesis by (simp add: word_le_nat_alt word_less_nat_alt not_less) arith
next
  case False
  then have "unat fs < unat x" by (simp add: word_less_nat_alt not_le)
  then show ?thesis by (simp add: word_less_nat_alt)
qed

lemma entry_in_range:
  "\<not> entry_out_of_range pak e \<longleftrightarrow>
   (12 \<le> unat (offset e) \<or> pakka_format_is_wad (format pak) \<and> entry_length e = 0)
   \<and> entry_end e \<le> unat (file_size pak)"
proof -
  have R: "(entry_extent64 e > file_size pak \<or> ucast (offset e) > file_size pak - entry_extent64 e)
    \<longleftrightarrow> \<not> entry_end e \<le> unat (file_size pak)"
    using range_check [where x = "entry_extent64 e" and y = "ucast (offset e)" and fs = "file_size pak"]
    by (simp only: unat_ucast_u32_u64 unat_entry_extent64 entry_end_def) blast
  show ?thesis
    unfolding entry_out_of_range_def Let_def PAKFILE_HEADER_SIZE_def R by (auto simp: not_less)
qed

definition loaded_entry :: "archive \<Rightarrow> pak_geometry \<Rightarrow> pentry \<Rightarrow> bool" where
  "loaded_entry pak geom e \<longleftrightarrow> \<not> entry_out_of_range pak e \<and> c_string (filename e)
     \<and> length (filename e) \<le> name_field_len geom \<and> \<not> is_staged e
     \<and> (dk_is_compressed e \<longrightarrow> has_compression geom)"

lemma cstr_length: "length (cstr b) \<le> length b"
  by (simp add: cstr_def length_takeWhile_le)

lemma read_dir_entry_shape:
  assumes "read_dir_entry fmt geom f = (Some e, g)" "0 < name_field_len geom"
  shows "c_string (filename e) \<and> length (filename e) \<le> name_field_len geom \<and> \<not> is_staged e
    \<and> (dk_is_compressed e \<longrightarrow> has_compression geom)"
proof -
  have n: "length b = name_field_len geom" if "fread_all h (name_field_len geom) = (Some b, k)" for h b k
    using fread_all_Some [OF that assms(2)] by simp
  have "\<exists>b. length b = name_field_len geom \<and> filename e = cstr b \<and> pending_source e = None \<and> pending_data e = None
    \<and> (dk_is_compressed e \<longrightarrow> has_compression geom)"
    using assms(1)
    by (auto simp: read_dir_entry_def rbind_Some Let_def calloc_entry_def split: if_splits dest: n)
  then obtain b where "length b = name_field_len geom" "filename e = cstr b" "pending_source e = None" "pending_data e = None"
    "dk_is_compressed e \<longrightarrow> has_compression geom"
    by blast
  then show ?thesis using cstr_length [of b] by (simp add: is_staged_def)
qed


text \<open>The rows a successful load appends, and where it leaves the payload mark.\<close>

lemma load_dir_rows_OK:
  assumes "load_dir_rows oom geom i n pak f = (PAKKA_OK, pak', f')" "0 < name_field_len geom"
  shows "\<exists>es p. pak' = pak\<lparr>entries := entries pak @ es, payload_end := p\<rparr> \<and> length es = n
    \<and> (\<forall>e \<in> set es. loaded_entry pak geom e \<and> entry_end e \<le> unat p) \<and> pe pak \<le> unat p
    \<and> (unat p = pe pak \<or> unat p \<in> entry_end ` set es)"
  using assms
proof (induction oom geom i n pak f rule: load_dir_rows.induct)
  case (1 oom geom i pak f)
  then show ?case by (intro exI [of _ "[]"] exI [of _ "payload_end pak"]) (simp add: pe_def)
next
  case (2 oom geom i n pak f)
  obtain e g where rd: "read_dir_entry (format pak) geom f = (Some e, g)"
    using "2.prems"(1) by (auto split: if_splits prod.splits option.splits)
  have oom: "\<not> oom i" and rng: "\<not> entry_out_of_range pak e"
    using "2.prems"(1) rd by (auto split: if_splits)
  define q where "q = (if ucast (offset e) + entry_extent64 e > payload_end pak
    then ucast (offset e) + entry_extent64 e else payload_end pak)"
  define pak1 where "pak1 = pak\<lparr>payload_end := q, entries := entries pak @ [e]\<rparr>"
  have q: "unat q = max (entry_end e) (pe pak)"
    unfolding q_def pe_def by (simp add: word_less_nat_alt unat_entry_end max_def)
  have eq: "(if ucast (offset e) + entry_extent64 e > payload_end pak
      then pak\<lparr>payload_end := ucast (offset e) + entry_extent64 e\<rparr> else pak)\<lparr>entries :=
      entries (if ucast (offset e) + entry_extent64 e > payload_end pak
      then pak\<lparr>payload_end := ucast (offset e) + entry_extent64 e\<rparr> else pak) @ [e]\<rparr> = pak1"
    by (simp add: pak1_def q_def)
  have st: "load_dir_rows oom geom (i + 1) n pak1 g = (PAKKA_OK, pak', f')"
    using "2.prems"(1) oom rd rng by (simp add: Let_def eq del: if_split)
  have "\<exists>es p. pak' = pak1\<lparr>entries := entries pak1 @ es, payload_end := p\<rparr> \<and> length es = n
    \<and> (\<forall>e \<in> set es. loaded_entry pak1 geom e \<and> entry_end e \<le> unat p) \<and> pe pak1 \<le> unat p
    \<and> (unat p = pe pak1 \<or> unat p \<in> entry_end ` set es)"
    using "2.IH" [OF oom rd [symmetric] refl rng refl refl] st "2.prems"(2) eq
    by (simp add: Let_def del: if_split)
  then obtain es p where es: "pak' = pak1\<lparr>entries := entries pak1 @ es, payload_end := p\<rparr>" "length es = n"
    "\<forall>e \<in> set es. loaded_entry pak1 geom e \<and> entry_end e \<le> unat p" "pe pak1 \<le> unat p"
    "unat p = pe pak1 \<or> unat p \<in> entry_end ` set es"
    by blast
  have "loaded_entry pak1 geom = loaded_entry pak geom"
    by (rule ext) (simp add: loaded_entry_def entry_out_of_range_def pak1_def)
  moreover have "loaded_entry pak geom e"
    using rng read_dir_entry_shape [OF rd "2.prems"(2)] by (simp add: loaded_entry_def)
  moreover have "pe pak1 = max (entry_end e) (pe pak)" using q by (simp add: pe_def pak1_def)
  ultimately show ?case
    using es by (intro exI [of _ "e # es"] exI [of _ p]) (auto simp: pak1_def max_def split: if_splits)
qed

lemma load_header_fields_frame:
  "load_header_fields pak f = (s, pak', f') \<Longrightarrow> \<exists>a b. pak' = pak\<lparr>diroffset := a, dirlength := b\<rparr>"
proof -
  assume r: "load_header_fields pak f = (s, pak', f')"
  have same: "\<exists>a b. pak = pak\<lparr>diroffset := a, dirlength := b\<rparr>"
    by (rule exI [of _ "diroffset pak"], rule exI [of _ "dirlength pak"]) simp
  have swap: "pak\<lparr>dirlength := b, diroffset := a\<rparr> = pak\<lparr>diroffset := a, dirlength := b\<rparr>" for a b by simp
  show ?thesis
    using r same unfolding load_header_fields_def swap by (auto split: if_splits prod.splits option.splits)
qed

lemma reads_data:
  "fread f n = (b, g) \<Longrightarrow> f_data g = f_data f" "fread_all f n = (x, g) \<Longrightarrow> f_data g = f_data f"
  "pakka_read_u32_le f = (y, g) \<Longrightarrow> f_data g = f_data f" "fseek_set f n = (z, g) \<Longrightarrow> f_data g = f_data f"
  by (auto simp: fread_def fread_all_def pakka_read_u32_le_def fseek_set_def Let_def split: if_splits)

lemma rbind_data:
  "f_data (snd r) = f_data f \<Longrightarrow> (\<And>x. f_data (snd (k x (snd r))) = f_data (snd r)) \<Longrightarrow> f_data (snd (rbind r k)) = f_data f"
  by (cases r) (auto simp: rbind_def split: option.splits)

lemma snd_reads_data [simp]:
  "f_data (snd (fread f n)) = f_data f" "f_data (snd (fread_all f n)) = f_data f"
  "f_data (snd (pakka_read_u32_le f)) = f_data f" "f_data (snd (fseek_set f n)) = f_data f"
  by (metis prod.collapse reads_data)+

lemma rbind_data_eq [simp]:
  "(\<And>x h. f_data (snd (k x h)) = f_data h) \<Longrightarrow> f_data (snd (rbind r k)) = f_data (snd r)"
  by (cases r) (auto simp: rbind_def split: option.splits)

lemma probe_loop_data: "f_data (snd (probe_loop pak geom i n f)) = f_data f"
proof (induction pak geom i n f rule: probe_loop.induct)
  case (2 pak geom i n f)
  let ?pos = "unat (ucast (diroffset pak) + of_nat i * of_nat (dir_entry_size geom) + of_nat (name_field_len geom) :: u64)"
  let ?rd = "\<lambda>f1. rbind (pakka_read_u32_le f1) (\<lambda>off f. rbind (pakka_read_u32_le f) (\<lambda>len f.
                 if has_compression geom then
                   rbind (pakka_read_u32_le f) (\<lambda>clen f. rbind (pakka_read_u32_le f) (\<lambda>flag f.
                     (Some (off, len, clen, flag), f)))
                 else (Some (off, len, 0, 0), f)))"
  have rd: "f_data (snd (?rd h)) = f_data h" for h by (simp add: if_distrib [of snd] if_distrib [of f_data])
  obtain ok f1 where sk: "fseek_set f ?pos = (ok, f1)" by fastforce
  obtain y f2 where r: "?rd f1 = (y, f2)" by fastforce
  have d: "f_data f1 = f_data f" "f_data f2 = f_data f1" using reads_data(4) [OF sk] rd [of f1] r by simp_all
  show ?case
    using "2.IH" [OF refl] sk r d by (simp add: Let_def split: option.splits prod.splits)
qed simp

lemma probe_pak_layout_data: "f_data (snd (probe_pak_layout pak geom f)) = f_data f"
  by (simp add: probe_pak_layout_def Let_def probe_loop_data)

lemma resolve_pack_layout_data: "resolve_pack_layout pak f = (s, pak', f') \<Longrightarrow> f_data f' = f_data f"
proof -
  have p: "f_data h' = f_data h" if "probe_pak_layout q g h = (t, h')" for q g h t h'
    using probe_pak_layout_data [of q g h] that by simp
  show "resolve_pack_layout pak f = (s, pak', f') \<Longrightarrow> f_data f' = f_data f"
    unfolding resolve_pack_layout_def Let_def by (auto split: if_splits prod.splits dest!: p)
qed

lemma read_two_data:
  "rbind (pakka_read_u32_le f) (\<lambda>a f. rbind (pakka_read_u32_le f) (\<lambda>b f. (Some (a, b), f))) = (y, g) \<Longrightarrow>
   f_data g = f_data f"
proof -
  have "f_data (snd (rbind (pakka_read_u32_le f) (\<lambda>a f. rbind (pakka_read_u32_le f) (\<lambda>b f. (Some (a, b), f))))) = f_data f"
    by simp
  then show "rbind (pakka_read_u32_le f) (\<lambda>a f. rbind (pakka_read_u32_le f) (\<lambda>b f. (Some (a, b), f))) = (y, g) \<Longrightarrow>
    f_data g = f_data f" by simp
qed

lemma load_header_fields_data: "load_header_fields pak f = (s, pak', f') \<Longrightarrow> f_data f' = f_data f"
  unfolding load_header_fields_def by (auto split: if_splits prod.splits option.splits dest!: read_two_data)

lemma resolve_pack_layout_frame:
  "resolve_pack_layout pak f = (s, pak', f') \<Longrightarrow> \<exists>x. pak' = pak\<lparr>format := x\<rparr>"
proof -
  assume r: "resolve_pack_layout pak f = (s, pak', f')"
  have "\<exists>x. pak = pak\<lparr>format := x\<rparr>" by (rule exI [of _ "format pak"]) simp
  with r show ?thesis
    unfolding resolve_pack_layout_def Let_def by (auto split: if_splits prod.splits)
qed

definition pack_family :: "pakka_format \<Rightarrow> bool" where
  "pack_family fmt \<longleftrightarrow> fmt = PAKKA_FORMAT_PAK \<or> fmt = PAKKA_FORMAT_DAIKATANA"

lemma resolve_pack_layout_kind:
  "resolve_pack_layout pak f = (s, pak', f') \<Longrightarrow>
   format pak' = format pak \<or> pack_family (format pak) \<and> pack_family (format pak')"
  unfolding resolve_pack_layout_def Let_def pack_family_def by (auto split: if_splits prod.splits)

lemma classify_pak:
  "classify_magic pak = Magic_Pak fmt \<Longrightarrow> \<exists>g. pakka_pak_geometry fmt = Some g \<and> g_signature g = signature pak"
  by (auto simp: classify_magic_def Let_def split: if_splits)

lemma pack_family_signature:
  "pack_family x \<Longrightarrow> pack_family y \<Longrightarrow> pakka_pak_geometry x = Some g \<Longrightarrow> pakka_pak_geometry y = Some h \<Longrightarrow>
   g_signature g = g_signature h"
  by (auto simp: pack_family_def)

lemma load_header_checks_OK:
  assumes "load_header_checks pak f = (PAKKA_OK, pak', f')"
  obtains x geom where "pak' = pak\<lparr>format := x, num_entries := dirlength pak div of_nat (dir_entry_size geom)\<rparr>"
    "pakka_pak_geometry x = Some geom" "12 \<le> unat (diroffset pak)"
    "unat (diroffset pak) + unat (dirlength pak) \<le> unat (file_size pak)"
    "unat (dirlength pak) mod dir_entry_size geom = 0" "unat (num_entries pak') \<le> PAKFILE_MAX_ENTRIES"
    "x = format pak \<or> pack_family (format pak) \<and> pack_family x" "f_data f' = f_data f"
proof -
  obtain s p1 f1 where rs: "resolve_pack_layout pak f = (s, p1, f1)" using prod_cases3 by blast
  then obtain x where x: "p1 = pak\<lparr>format := x\<rparr>" using resolve_pack_layout_frame by blast
  have k: "x = format pak \<or> pack_family (format pak) \<and> pack_family x"
    using resolve_pack_layout_kind [OF rs] by (simp add: x)
  have d: "f_data f1 = f_data f" by (rule resolve_pack_layout_data [OF rs])
  have R: "(ucast (dirlength pak) > file_size pak \<or> ucast (diroffset pak) > file_size pak - ucast (dirlength pak))
    \<longleftrightarrow> \<not> unat (diroffset pak) + unat (dirlength pak) \<le> unat (file_size pak)"
    using range_check [where x = "ucast (dirlength pak)" and y = "ucast (diroffset pak)" and fs = "file_size pak"]
    by (simp only: unat_ucast_u32_u64) blast
  from assms rs x obtain geom where "pakka_pak_geometry x = Some geom"
    "pak' = pak\<lparr>format := x, num_entries := dirlength pak div of_nat (dir_entry_size geom)\<rparr>"
    "\<not> unat (diroffset pak) < 12" "unat (diroffset pak) + unat (dirlength pak) \<le> unat (file_size pak)"
    "unat (dirlength pak) mod dir_entry_size geom = 0" "unat (num_entries pak') \<le> PAKFILE_MAX_ENTRIES"
    unfolding load_header_checks_def R
    by (auto simp: Let_def PAKFILE_HEADER_SIZE_def not_less split: if_splits option.splits)
  moreover have "f' = f1"
    using assms rs unfolding load_header_checks_def R
    by (auto simp: Let_def split: if_splits option.splits)
  ultimately show ?thesis using k d by (intro that) (simp_all add: not_less)
qed

text \<open>The ZIP loader leaves a ZIP-class label on the handle.\<close>

definition zip_keeps_label :: "(archive \<Rightarrow> cfile \<Rightarrow> status \<times> archive \<times> cfile) \<Rightarrow> bool" where
  "zip_keeps_label zip_open \<longleftrightarrow> (\<forall>pak f s pak' f'. pakka_format_is_zip (format pak) \<longrightarrow>
     zip_open pak f = (s, pak', f') \<longrightarrow> pakka_format_is_zip (format pak'))"

lemma classify_zip: "classify_magic pak = Magic_Zip fmt \<Longrightarrow> pakka_format_is_zip fmt"
  by (auto simp: classify_magic_def hint_in_def pakka_zip_format_from_path_def pakka_format_is_zip_def
      Let_def split: if_splits option.splits)

lemma classify_error: "classify_magic pak \<noteq> Magic_Error PAKKA_OK"
  by (simp add: classify_magic_def)

lemma load_pakfile_OK:
  assumes "load_pakfile zip_open pak f = (PAKKA_OK, pak', f')" "zip_keeps_label zip_open"
    "\<not> pakka_format_is_zip (format pak')"
  obtains geom where "pakka_pak_geometry (format pak') = Some geom"
    "file_size pak' = of_nat (length (f_data f))" "length (f_data f) < 2 ^ 63"
    "12 \<le> unat (diroffset pak')" "unat (diroffset pak') + unat (dirlength pak') \<le> length (f_data f)"
    "unat (dirlength pak') = unat (num_entries pak') * dir_entry_size geom"
    "unat (num_entries pak') \<le> PAKFILE_MAX_ENTRIES" "entries pak' = entries pak"
    "length (signature pak') = 4" "fp pak' = fp pak" "dirty pak' = dirty pak"
    "needs_rebuild pak' = needs_rebuild pak" "writable pak' = writable pak" "is_new pak' = is_new pak"
    "cur_pakpath pak' = cur_pakpath pak" "atomic_commit pak' = atomic_commit pak"
    "signature pak' = g_signature geom" "f_data f' = f_data f"
proof -
  obtain f1 where se: "fseek_end f = (True, f1)"
    using assms(1) by (cases "fseek_end f") (auto simp: load_pakfile_def split: if_splits)
  then have f1: "f1 = f\<lparr>f_pos := length (f_data f)\<rparr>" by (auto simp: fseek_end_def split: if_splits)
  obtain sz where sz: "ftell f1 = Some sz"
    using assms(1) se by (auto simp: load_pakfile_def split: option.splits)
  then have szv: "sz = length (f_data f)" "length (f_data f) < 2 ^ 63"
    by (auto simp: ftell_def f1 split: if_splits)
  obtain sig f2 where sig: "fread_all (rewind f1) PAKFILE_SIGNATURE_LEN = (Some sig, f2)"
    using assms(1) se sz by (auto simp: load_pakfile_def Let_def split: option.splits prod.splits)
  then have l4: "length sig = 4"
    using fread_all_Some [of "rewind f1" 4 sig f2] by (simp add: PAKFILE_SIGNATURE_LEN_def)
  define p2 where "p2 = pak\<lparr>file_size := of_nat sz, signature := sig\<rparr>"
  obtain fmt where cl: "classify_magic p2 = Magic_Pak fmt"
  proof (cases "classify_magic p2")
    case (Magic_Zip z)
    then have "zip_open (p2\<lparr>format := z\<rparr>) f2 = (PAKKA_OK, pak', f')"
      using assms(1) se sz sig by (simp add: load_pakfile_def p2_def)
    moreover have "pakka_format_is_zip (format (p2\<lparr>format := z\<rparr>))"
      using classify_zip [OF Magic_Zip] by simp
    ultimately have "pakka_format_is_zip (format pak')"
      using assms(2) unfolding zip_keeps_label_def by blast
    with assms(3) show ?thesis by simp
  qed (use assms(1) se sz sig classify_error [of p2] in
      \<open>auto simp: load_pakfile_def p2_def split: magic_class.splits\<close>)
  obtain s p3 f3 where hf: "load_header_fields (p2\<lparr>format := fmt\<rparr>) f2 = (s, p3, f3)"
    using prod_cases3 by blast
  then obtain a b where p3: "p3 = p2\<lparr>format := fmt, diroffset := a, dirlength := b\<rparr>"
    using load_header_fields_frame by blast
  have "load_header_checks p3 f3 = (PAKKA_OK, pak', f')"
    using assms(1) se sz sig cl hf
    by (simp add: load_pakfile_def p2_def split: if_splits)
  then obtain x geom where p': "pak' = p3\<lparr>format := x, num_entries := dirlength p3 div of_nat (dir_entry_size geom)\<rparr>"
    and g: "pakka_pak_geometry x = Some geom" and "12 \<le> unat (diroffset p3)"
    and "unat (diroffset p3) + unat (dirlength p3) \<le> unat (file_size p3)"
    and md: "unat (dirlength p3) mod dir_entry_size geom = 0" and "unat (num_entries pak') \<le> PAKFILE_MAX_ENTRIES"
    and kind: "x = format p3 \<or> pack_family (format p3) \<and> pack_family x" and dat: "f_data f' = f_data f3"
    by (rule load_header_checks_OK)
  moreover have "signature pak' = g_signature geom"
  proof -
    obtain g0 where g0: "pakka_pak_geometry fmt = Some g0" "g_signature g0 = sig"
      using classify_pak [OF cl] by (auto simp: p2_def)
    then show ?thesis using kind g pack_family_signature [of fmt x g0 geom] by (auto simp: p' p3 p2_def)
  qed
  moreover have "f_data f' = f_data f"
    using dat load_header_fields_data [OF hf] reads_data(2) [OF sig] by (simp add: f1 rewind_def split: if_splits)
  moreover have "unat (file_size p3) = length (f_data f)"
    using szv by (simp add: p3 p2_def unat_of_nat_u64)
  moreover have "unat (dirlength pak') = unat (num_entries pak') * dir_entry_size geom"
    using md entry_size_word(1) [OF g] by (simp add: p' unat_div_distrib dvd_div_mult_self mod_eq_0_iff_dvd)
  ultimately show ?thesis
    using szv l4 by (intro that [of geom]) (simp_all add: p' p3 p2_def)
qed

lemma load_dir_rows_data: "load_dir_rows oom geom i n pak f = (s, pak', f') \<Longrightarrow> f_data f' = f_data f"
proof (induction oom geom i n pak f arbitrary: pak' f' rule: load_dir_rows.induct)
  case (2 oom geom i n pak f)
  obtain e g where rd: "read_dir_entry (format pak) geom f = (e, g)" by fastforce
  have "f_data (snd (read_dir_entry (format pak) geom f)) = f_data f"
    by (simp add: read_dir_entry_def Let_def split_beta if_distrib [of snd] if_distrib [of f_data])
  then have "f_data g = f_data f" using rd by simp
  with "2.prems" rd show ?case
    by (auto simp: Let_def split: if_splits option.splits dest: "2.IH")
qed simp

lemma load_directory_OK:
  assumes g: "pakka_pak_geometry (format pak) = Some geom" and e: "entries pak = []"
    and r: "load_directory oom pak f = (PAKKA_OK, pak', f')"
  shows "\<exists>rows q. pak' = pak\<lparr>entries := rows, payload_end := q\<rparr> \<and> length rows = unat (num_entries pak)
    \<and> (\<forall>e \<in> set rows. loaded_entry pak geom e \<and> entry_end e \<le> unat q) \<and> 12 \<le> unat q
    \<and> (unat q = 12 \<or> unat q \<in> entry_end ` set rows) \<and> f_data f' = f_data f"
proof -
  define p where "p = pak\<lparr>payload_end := of_nat PAKFILE_HEADER_SIZE\<rparr>"
  have pe: "pe p = 12" by (simp add: p_def pe_def PAKFILE_HEADER_SIZE_def)
  have le: "loaded_entry p geom = loaded_entry pak geom"
    by (simp add: fun_eq_iff loaded_entry_def entry_out_of_range_def p_def)
  show ?thesis
  proof (cases "num_entries p = 0")
    case True
    then have "pak' = p" "f' = f" using r by (simp_all add: load_directory_def p_def [symmetric] Let_def)
    with True e pe show ?thesis
      by (intro exI [of _ "[]"] exI [of _ "of_nat PAKFILE_HEADER_SIZE"]) (simp add: p_def PAKFILE_HEADER_SIZE_def)
  next
    case False
    have gp: "pakka_pak_geometry (format p) = Some geom" by (simp add: p_def g)
    obtain h where h: "load_dir_rows oom geom 0 (unat (num_entries p)) p h = (PAKKA_OK, pak', f')" "f_data h = f_data f"
      using r False gp reads_data(4) unfolding load_directory_def p_def [symmetric] Let_def
      by (auto split: if_splits prod.splits)
    from load_dir_rows_OK [OF h(1) geometry_facts(1) [OF gp]] e
    obtain rows q where q: "pak' = pak\<lparr>entries := rows, payload_end := q\<rparr>" "length rows = unat (num_entries pak)"
      "\<forall>e \<in> set rows. loaded_entry pak geom e \<and> entry_end e \<le> unat q" "12 \<le> unat q"
      "unat q = 12 \<or> unat q \<in> entry_end ` set rows"
      unfolding pe le by (auto simp: p_def)
    with load_dir_rows_data [OF h(1)] h(2) show ?thesis by (intro exI [of _ rows] exI [of _ q]) simp
  qed
qed

text \<open>C3: an archive that loads has a directory inside the file, and every entry of it lies inside the
  file: no offset or length a crafted directory declares survives the load if it points past the
  end, on any of the formats and whatever the arithmetic could wrap to. Names end within their
  field, the entry count is the one of the header and is capped, and the append mark is behind
  every payload.\<close>

theorem loaded_entries_within_file:
  assumes "zip_keeps_label zip_open" "entries pak = []"
    and "load_pakfile zip_open pak f = (PAKKA_OK, pak1, f1)" "\<not> pakka_format_is_zip (format pak1)"
    and "load_directory oom pak1 f1 = (PAKKA_OK, pak2, f2)"
  shows "unat (num_entries pak2) = length (entries pak2) \<and> length (entries pak2) \<le> PAKFILE_MAX_ENTRIES
    \<and> 12 \<le> unat (diroffset pak2) \<and> unat (diroffset pak2) + unat (dirlength pak2) \<le> length (f_data f)
    \<and> 12 \<le> unat (payload_end pak2) \<and> unat (payload_end pak2) \<le> max 12 (length (f_data f))
    \<and> (\<forall>e \<in> set (entries pak2). c_string (filename e) \<and> length (filename e) < PAKKA_ENTRY_NAME_SIZE
        \<and> unat (offset e) + unat (pak_entry_on_disk_extent e) \<le> length (f_data f)
        \<and> unat (offset e) + unat (pak_entry_on_disk_extent e) \<le> unat (payload_end pak2))"
proof -
  obtain geom where g: "pakka_pak_geometry (format pak1) = Some geom"
    and fs: "file_size pak1 = of_nat (length (f_data f))" "length (f_data f) < 2 ^ 63"
    and hdr: "12 \<le> unat (diroffset pak1)" "unat (diroffset pak1) + unat (dirlength pak1) \<le> length (f_data f)"
      "unat (num_entries pak1) \<le> PAKFILE_MAX_ENTRIES"
    and es: "entries pak1 = entries pak"
    using load_pakfile_OK [OF assms(3,1,4)] by metis
  obtain rows q where q: "pak2 = pak1\<lparr>entries := rows, payload_end := q\<rparr>" "length rows = unat (num_entries pak1)"
    "12 \<le> unat q" "unat q = 12 \<or> unat q \<in> entry_end ` set rows"
    and rows: "\<And>e. e \<in> set rows \<Longrightarrow> loaded_entry pak1 geom e \<and> entry_end e \<le> unat q"
    using load_directory_OK [OF g _ assms(5)] es assms(2) by auto
  have fit: "entry_end e \<le> length (f_data f)" if "e \<in> set rows" for e
    using rows [OF that] fs by (simp add: loaded_entry_def entry_in_range unat_of_nat_u64)
  have "c_string (filename e) \<and> length (filename e) < PAKKA_ENTRY_NAME_SIZE" if "e \<in> set rows" for e
    using rows [OF that] geometry_facts(2) [OF g] by (simp add: loaded_entry_def)
  moreover have "unat q \<le> max 12 (length (f_data f))"
    using q(4) fit by fastforce
  ultimately show ?thesis
    using q rows fit hdr by (simp add: entry_end_def)
qed

definition no_zip :: "archive \<Rightarrow> cfile \<Rightarrow> status \<times> archive \<times> cfile" where
  "no_zip pak f = (PAKKA_ERR_UNSUPPORTED, pak, f)"

text \<open>A small archive on disk: a WAD with one lump of three bytes.\<close>

definition sample_wad :: "u8 list" where
  "sample_wad = ascii ''IWAD'' @ [1, 0, 0, 0] @ [15, 0, 0, 0] @ [1, 2, 3]
     @ [12, 0, 0, 0] @ [3, 0, 0, 0] @ ascii ''E1M1'' @ [0, 0, 0, 0]"

definition sample_stream :: cfile where
  "sample_stream = empty_stream\<lparr>f_data := sample_wad\<rparr>"

definition sample_loaded :: "status \<times> archive \<times> cfile" where
  "sample_loaded = load_pakfile no_zip calloc_archive sample_stream"

definition sample_dir :: "status \<times> archive \<times> cfile" where
  "sample_dir = load_directory (\<lambda>_. False) (fst (snd sample_loaded)) (snd (snd sample_loaded))"

lemmas stream_eval = fread_all_def fread_def fseek_end_def fseek_set_def ftell_def rewind_def
  pakka_read_u32_le_def rbind_def empty_stream_def ascii_def

lemmas load_eval = load_pakfile_def PAKFILE_SIGNATURE_LEN_def classify_magic_def hint_in_def
  calloc_archive_def load_header_fields_def pakka_format_is_wad_def load_header_checks_def
  PAKFILE_HEADER_SIZE_def resolve_pack_layout_def PAKFILE_MAX_ENTRIES_def load_directory_def
  read_dir_entry_def entry_out_of_range_def entry_extent64_def calloc_entry_def

lemma sample_loads: "fst sample_loaded = PAKKA_OK" "fst sample_dir = PAKKA_OK"
  "format (fst (snd sample_loaded)) = PAKKA_FORMAT_IWAD"
  by (simp_all add: sample_dir_def sample_loaded_def sample_stream_def sample_wad_def load_eval stream_eval)

lemma loaded_entries_within_file_witness:
  "unat (num_entries (fst (snd sample_dir))) = length (entries (fst (snd sample_dir)))
    \<and> length (entries (fst (snd sample_dir))) \<le> PAKFILE_MAX_ENTRIES
    \<and> 12 \<le> unat (diroffset (fst (snd sample_dir)))
    \<and> unat (diroffset (fst (snd sample_dir))) + unat (dirlength (fst (snd sample_dir))) \<le> length sample_wad
    \<and> 12 \<le> unat (payload_end (fst (snd sample_dir))) \<and> unat (payload_end (fst (snd sample_dir))) \<le> max 12 (length sample_wad)
    \<and> list_all (\<lambda>e. c_string (filename e) \<and> length (filename e) < PAKKA_ENTRY_NAME_SIZE
        \<and> unat (offset e) + unat (pak_entry_on_disk_extent e) \<le> length sample_wad
        \<and> unat (offset e) + unat (pak_entry_on_disk_extent e) \<le> unat (payload_end (fst (snd sample_dir))))
      (entries (fst (snd sample_dir)))"
proof -
  have d: "f_data sample_stream = sample_wad" by (simp add: sample_stream_def)
  show ?thesis
    unfolding d [symmetric] list_all_iff
  proof (rule loaded_entries_within_file [where pak = calloc_archive])
    show "zip_keeps_label no_zip" by (simp add: zip_keeps_label_def no_zip_def)
    show "load_pakfile no_zip calloc_archive sample_stream =
      (PAKKA_OK, fst (snd sample_loaded), snd (snd sample_loaded))"
      using sample_loads(1) by (simp add: sample_loaded_def prod_eq_iff)
    show "load_directory (\<lambda>_. False) (fst (snd sample_loaded)) (snd (snd sample_loaded)) =
      (PAKKA_OK, fst (snd sample_dir), snd (snd sample_dir))"
      using sample_loads(2) by (simp add: sample_dir_def prod_eq_iff)
  qed (simp_all add: calloc_archive_def sample_loads(3) pakka_format_is_zip_def)
qed

section \<open>Loading undoes writing\<close>

definition on_disk_entry :: "pak_geometry \<Rightarrow> pentry \<Rightarrow> pentry" where
  "on_disk_entry geom e = calloc_entry\<lparr>filename := filename e, offset := offset e,
     entry_length := entry_length e,
     dk_compressed_size := (if has_compression geom then dk_compressed_size e else 0),
     dk_is_compressed := has_compression geom \<and> dk_is_compressed e\<rparr>"

definition name_fits :: "pak_geometry \<Rightarrow> pentry \<Rightarrow> bool" where
  "name_fits geom e \<longleftrightarrow> c_string (filename e) \<and> length (filename e) \<le> name_field_len geom"

lemma cstr_name_field: "c_string n \<Longrightarrow> length n \<le> cap \<Longrightarrow> cstr (pak_name_field cap n) = n"
proof -
  assume n: "c_string n" "length n \<le> cap"
  show ?thesis
  proof (cases "cap - length n")
    case (Suc k)
    with n show ?thesis by (simp add: pak_name_field_eq cstr_append_nul)
  qed (use n in \<open>simp add: pak_name_field_eq cstr_id\<close>)
qed

lemma read_dir_entry_has:
  assumes g: "pakka_pak_geometry fmt = Some geom" and n: "name_fits geom e" and h: "f_has f (row_bytes fmt geom e)"
  shows "read_dir_entry fmt geom f = (Some (on_disk_entry geom e), f_skip f (dir_entry_size geom))"
proof -
  have nm: "fread_all h (name_field_len geom) =
      (Some (pak_name_field (name_field_len geom) (filename e)), f_skip h (name_field_len geom))"
    if "f_has h (pak_name_field (name_field_len geom) (filename e))" for h
    using fread_all_has [OF that] by simp
  note rd = read_u32_has [where v = "offset e"] read_u32_has [where v = "entry_length e"]
    read_u32_has [where v = "dk_compressed_size e"] read_u32_has [where v = "0"] read_u32_has [where v = "1"]
  have c: "cstr (pak_name_field (name_field_len geom) (filename e)) = filename e"
    using n by (simp add: name_fits_def cstr_name_field)
  show ?thesis
    using h geometry_facts(4) [OF g]
    by (simp add: read_dir_entry_def row_bytes_def f_has_append rd nm c on_disk_entry_def Let_def
        calloc_entry_def add.commute add.left_commute split: if_splits)
qed

definition grow_end :: "u64 \<Rightarrow> pentry \<Rightarrow> u64" where
  "grow_end p e = (if ucast (offset e) + entry_extent64 e > p then ucast (offset e) + entry_extent64 e else p)"

lemma load_dir_rows_has:
  assumes g: "pakka_pak_geometry (format pak) = Some geom"
    and "\<forall>e \<in> set es. name_fits geom e \<and> \<not> entry_out_of_range pak (on_disk_entry geom e)"
    and "\<forall>k. \<not> oom k" and "f_has f (dir_bytes (format pak) geom es)"
  shows "load_dir_rows oom geom i (length es) pak f =
    (PAKKA_OK, pak\<lparr>entries := entries pak @ map (on_disk_entry geom) es,
       payload_end := foldl grow_end (payload_end pak) (map (on_disk_entry geom) es)\<rparr>,
     f_skip f (length es * dir_entry_size geom))"
  using assms
proof (induction es arbitrary: i pak f)
  case (Cons e es)
  let ?e = "on_disk_entry geom e"
  have h: "f_has f (row_bytes (format pak) geom e)"
    "f_has (f_skip f (dir_entry_size geom)) (dir_bytes (format pak) geom es)"
    using Cons.prems(4) row_length [OF Cons.prems(1)] by (simp_all add: dir_bytes_def f_has_append)
  have rd: "read_dir_entry (format pak) geom f = (Some ?e, f_skip f (dir_entry_size geom))"
    using Cons.prems h(1) by (intro read_dir_entry_has) auto
  let ?p = "pak\<lparr>payload_end := grow_end (payload_end pak) ?e, entries := entries pak @ [?e]\<rparr>"
  have eq: "(if ucast (offset ?e) + entry_extent64 ?e > payload_end pak
      then pak\<lparr>payload_end := ucast (offset ?e) + entry_extent64 ?e\<rparr> else pak)\<lparr>entries :=
      entries (if ucast (offset ?e) + entry_extent64 ?e > payload_end pak
      then pak\<lparr>payload_end := ucast (offset ?e) + entry_extent64 ?e\<rparr> else pak) @ [?e]\<rparr> = ?p"
    by (simp add: grow_end_def)
  have "entry_out_of_range ?p x = entry_out_of_range pak x" for x
    by (simp add: entry_out_of_range_def)
  then have "load_dir_rows oom geom (i + 1) (length es) ?p (f_skip f (dir_entry_size geom)) =
    (PAKKA_OK, ?p\<lparr>entries := entries ?p @ map (on_disk_entry geom) es,
       payload_end := foldl grow_end (payload_end ?p) (map (on_disk_entry geom) es)\<rparr>,
     f_skip (f_skip f (dir_entry_size geom)) (length es * dir_entry_size geom))"
    using Cons.prems h(2) by (intro Cons.IH) auto
  moreover have "\<not> oom i" "\<not> entry_out_of_range pak ?e" using Cons.prems by auto
  ultimately show ?case
    using rd by (simp add: Let_def eq del: if_split)
qed (simp add: f_skip_def)

lemma f_has_put:
  assumes "bs \<noteq> []" "f_pos f + length bs \<le> f_readable f"
  shows "f_has ((f_put f bs)\<lparr>f_pos := f_pos f\<rparr>) bs"
  using assms splice_at [of bs "f_pos f" "f_data f"] length_splice_eq [of bs "f_data f" "f_pos f"]
  by (simp add: f_has_def)

lemma f_has_keeps:
  assumes "f_has f bs" "f_keeps P f g" "f_pos g = f_pos f"
    and "\<And>i. f_pos f \<le> i \<Longrightarrow> i < f_pos f + length bs \<Longrightarrow> P i"
  shows "f_has g bs"
proof -
  have "take (length bs) (drop (f_pos f) (f_data g)) = take (length bs) (drop (f_pos f) (f_data f))"
    using assms by (intro f_keeps_range [of P]) (auto simp: f_has_def)
  then show ?thesis
    using assms by (auto simp: f_has_def f_keeps_def f_same_env_def)
qed

lemma f_has_error [simp]: "f_has (f\<lparr>f_error := x\<rparr>) bs \<longleftrightarrow> f_has f bs"
  by (simp add: f_has_def)

text \<open>The layout a successful directory write leaves.\<close>

lemma write_pak_directory_layout:
  assumes g: "pakka_pak_geometry (format pak) = Some geom" and w: "writable_dir pak"
    and ne: "entries pak \<noteq> []"
    and ok: "write_pak_directory fault pak f = (PAKKA_OK, pak', f')"
    and rd: "length (f_data f') \<le> f_readable f"
  shows "f_has (f'\<lparr>f_pos := 0\<rparr>) (header_bytes pak')"
    "f_has (f'\<lparr>f_pos := pe pak\<rparr>) (dir_bytes (format pak) geom (entries pak))"
    "pe pak + length (entries pak) * dir_entry_size geom \<le> length (f_data f')"
    "f_same_env f f'"
proof -
  note w' = write_pak_directory_OK [OF g w ne ok]
  let ?rows = "dir_bytes (format pak) geom (entries pak)"
  let ?f1 = "f_put (f\<lparr>f_pos := pe pak\<rparr>) ?rows" and ?h = "header_bytes pak'"
  have f': "f' = f_put (?f1\<lparr>f_pos := 0\<rparr>) ?h" by (rule w'(3))
  have l: "length ?h = 12" "length ?rows = length (entries pak) * dir_entry_size geom" "12 \<le> pe pak"
    using w w'(1) dir_bytes_length [OF g] by (simp_all add: header_length writable_dir_def)
  have rne: "?rows \<noteq> []"
    using ne l(2) geometry_facts(4) [OF g] by auto
  have hne: "?h \<noteq> []" using l(1) by auto
  have sp: "length (splice (f_data f) (pe pak) ?rows) = max (length (f_data f)) (pe pak + length ?rows)"
    by (rule length_splice_eq [OF rne])
  then have len: "length (f_data f') = max (length (f_data f)) (pe pak + length ?rows)"
    using l length_splice_eq [OF hne, of "splice (f_data f) (pe pak) ?rows" 0] by (simp add: f')
  show "pe pak + length (entries pak) * dir_entry_size geom \<le> length (f_data f')"
    using len l by simp
  show "f_same_env f f'" by (simp add: f' f_same_env_def)
  have "12 \<le> f_readable f" using rd len l by simp
  then show "f_has (f'\<lparr>f_pos := 0\<rparr>) ?h"
    using f_has_put [OF hne, of "?f1\<lparr>f_pos := 0\<rparr>"] l by (simp add: f')
  have "f_has (?f1\<lparr>f_pos := pe pak\<rparr>) ?rows"
    using f_has_put [OF rne, of "f\<lparr>f_pos := pe pak\<rparr>"] rd len by simp
  then show "f_has (f'\<lparr>f_pos := pe pak\<rparr>) ?rows"
  proof (rule f_has_keeps)
    show "f_keeps (\<lambda>i. 12 \<le> i) (?f1\<lparr>f_pos := pe pak\<rparr>) (f'\<lparr>f_pos := pe pak\<rparr>)"
      using f_keeps_put [of "\<lambda>i. 12 \<le> i" "?f1\<lparr>f_pos := 0\<rparr>" ?h] l(1) by (simp add: f')
  qed (use l in auto)
qed

lemma classify_written:
  assumes "pakka_pak_geometry fmt = Some geom" "signature q = g_signature geom"
    and "format_hint q = fmt \<or> format_hint q = PAKKA_FORMAT_AUTO \<and> fmt \<notin> {PAKKA_FORMAT_PAK, PAKKA_FORMAT_DAIKATANA}"
  shows "classify_magic q = Magic_Pak fmt"
  using assms by (cases fmt) (auto simp: classify_magic_def hint_in_def ascii_def)

text \<open>Reading a header the writer wrote.\<close>

lemma load_header_fields_has:
  assumes g: "pakka_pak_geometry (format q) = Some geom" and h: "format pak' = format q"
    and "f_has f (if pakka_format_is_wad (format q) then u32_le (wad_count pak') @ u32_le (diroffset pak')
      else u32_le (diroffset pak') @ u32_le (dirlength pak'))"
    and n: "unat (dirlength pak') = n * dir_entry_size geom" "n \<le> PAKFILE_MAX_ENTRIES"
  shows "load_header_fields q f = (PAKKA_OK, q\<lparr>diroffset := diroffset pak', dirlength := dirlength pak'\<rparr>, f_skip f 8)"
proof -
  note rd = read_u32_has [where v = "wad_count pak'"] read_u32_has [where v = "diroffset pak'"]
    read_u32_has [where v = "dirlength pak'"]
  have sz: "unat (of_nat (dir_entry_size geom) :: u32) = dir_entry_size geom" "0 < dir_entry_size geom"
    using entry_size_word(1) [OF g] geometry_facts(4) [OF g] geometry_facts(1) [OF g] by simp_all
  have wc: "wad_count pak' = dirlength pak' div of_nat (dir_entry_size geom)"
    using g h sz by (simp add: wad_count_def)
  have un: "unat (wad_count pak') = n"
    using n sz by (simp add: wc unat_div_distrib)
  have "unat (wad_count pak' * of_nat (dir_entry_size geom)) = n * dir_entry_size geom"
    using un sz n unat_u32_bound [of "dirlength pak'"] by (simp add: unat_word_ariths)
  then have rt: "wad_count pak' * of_nat (dir_entry_size geom) = dirlength pak'"
    using n(1) by (simp add: word_unat_eq_iff)
  show ?thesis
    using assms(3) un n(2) g
    by (auto simp: load_header_fields_def f_has_append rd rt split: if_splits)
qed

definition hint_fits :: "pakka_format \<Rightarrow> pakka_format \<Rightarrow> bool" where
  "hint_fits hint fmt \<longleftrightarrow> hint = fmt
     \<or> hint = PAKKA_FORMAT_AUTO \<and> fmt \<notin> {PAKKA_FORMAT_PAK, PAKKA_FORMAT_DAIKATANA}"

lemma load_header_checks_written:
  assumes g: "pakka_pak_geometry (format q) = Some geom" and hf: "hint_fits (format_hint q) (format q)"
    and b: "12 \<le> unat (diroffset q)" "unat (diroffset q) + unat (dirlength q) \<le> unat (file_size q)"
    and n: "unat (dirlength q) = n * dir_entry_size geom" "n \<le> PAKFILE_MAX_ENTRIES"
  shows "load_header_checks q f = (PAKKA_OK, q\<lparr>num_entries := of_nat n\<rparr>, f)"
proof -
  have R: "(ucast (dirlength q) > file_size q \<or> ucast (diroffset q) > file_size q - ucast (dirlength q))
    \<longleftrightarrow> \<not> unat (diroffset q) + unat (dirlength q) \<le> unat (file_size q)"
    using range_check [where x = "ucast (dirlength q)" and y = "ucast (diroffset q)" and fs = "file_size q"]
    by (simp only: unat_ucast_u32_u64) blast
  have rp: "resolve_pack_layout q f = (PAKKA_OK, q, f)"
    using hf geometry_facts(8) [OF g] by (auto simp: resolve_pack_layout_def hint_fits_def)
  have sz: "unat (of_nat (dir_entry_size geom) :: u32) = dir_entry_size geom" "0 < dir_entry_size geom"
    using entry_size_word(1) [OF g] geometry_facts(4) [OF g] geometry_facts(1) [OF g] by simp_all
  have un: "unat (dirlength q div of_nat (dir_entry_size geom)) = n"
    using n sz by (simp add: unat_div_distrib)
  then have w: "dirlength q div of_nat (dir_entry_size geom) = of_nat n"
    using n(2) by (simp add: word_unat_eq_iff unat_of_nat_u32 PAKFILE_MAX_ENTRIES_def)
  show ?thesis
    unfolding load_header_checks_def R
    using b n rp g un by (simp add: PAKFILE_HEADER_SIZE_def w)
qed

lemma load_pakfile_written:
  assumes g: "pakka_pak_geometry (format pak) = Some geom" and hf: "hint_fits (format_hint q) (format pak)"
    and sg: "signature pak = g_signature geom"
    and h: "f_has (f\<lparr>f_pos := 0\<rparr>) (header_bytes pak)"
    and s: "f_seekable f" "length (f_data f) < 2 ^ 63"
    and b: "12 \<le> unat (diroffset pak)" "unat (diroffset pak) + unat (dirlength pak) \<le> length (f_data f)"
    and n: "unat (dirlength pak) = n * dir_entry_size geom" "n \<le> PAKFILE_MAX_ENTRIES"
  shows "\<exists>p. load_pakfile zip_open q f = (PAKKA_OK, q\<lparr>file_size := of_nat (length (f_data f)),
      signature := signature pak, format := format pak, diroffset := diroffset pak,
      dirlength := dirlength pak, num_entries := of_nat n\<rparr>, f\<lparr>f_pos := p, f_error := False\<rparr>)"
proof -
  let ?f1 = "f\<lparr>f_pos := length (f_data f)\<rparr>" and ?f2 = "f\<lparr>f_pos := 0, f_error := False\<rparr>"
  have l: "length (signature pak) = 4" using sg geometry_facts(3) [OF g] by simp
  have rw: "rewind ?f1 = ?f2" using s by (simp add: rewind_def)
  have h2: "f_has ?f2 (header_bytes pak)" using h f_has_error [where f = "f\<lparr>f_pos := 0\<rparr>" and x = False] by simp
  then have sig: "fread_all ?f2 PAKFILE_SIGNATURE_LEN = (Some (signature pak), f_skip ?f2 4)"
    using fread_all_has [of ?f2 "signature pak" 4] l by (simp add: header_bytes_def f_has_append PAKFILE_SIGNATURE_LEN_def)
  define q2 where "q2 = q\<lparr>file_size := of_nat (length (f_data f)), signature := signature pak\<rparr>"
  have cl: "classify_magic q2 = Magic_Pak (format pak)"
    using g hf sg by (intro classify_written) (auto simp: q2_def hint_fits_def)
  let ?q3 = "q2\<lparr>format := format pak\<rparr>"
  have hf3: "load_header_fields ?q3 (f_skip ?f2 4) =
      (PAKKA_OK, ?q3\<lparr>diroffset := diroffset pak, dirlength := dirlength pak\<rparr>, f_skip (f_skip ?f2 4) 8)"
    using g h2 l n by (intro load_header_fields_has) (auto simp: header_bytes_def f_has_append split: if_splits)
  let ?q4 = "?q3\<lparr>diroffset := diroffset pak, dirlength := dirlength pak\<rparr>"
  have "load_header_checks ?q4 (f_skip (f_skip ?f2 4) 8) =
      (PAKKA_OK, ?q4\<lparr>num_entries := of_nat n\<rparr>, f_skip (f_skip ?f2 4) 8)"
    using g hf b n s(2) by (intro load_header_checks_written) (auto simp: q2_def unat_of_nat_u64)
  then have "load_pakfile zip_open q f = (PAKKA_OK, ?q4\<lparr>num_entries := of_nat n\<rparr>, f_skip (f_skip ?f2 4) 8)"
    using s rw sig cl hf3
    by (simp add: load_pakfile_def fseek_end_def ftell_def q2_def)
  moreover have "f_skip (f_skip ?f2 4) 8 = f\<lparr>f_pos := 12, f_error := False\<rparr>" by (simp add: f_skip_def)
  ultimately show ?thesis by (intro exI [of _ 12]) (simp add: q2_def)
qed

text \<open>An entry a writer may store: its name fits the field, and its payload is behind the header and in
  front of the directory.\<close>

definition storable :: "archive \<Rightarrow> pak_geometry \<Rightarrow> pentry \<Rightarrow> bool" where
  "storable pak geom e \<longleftrightarrow> name_fits geom e
     \<and> (12 \<le> unat (offset e) \<or> pakka_format_is_wad (format pak) \<and> entry_length e = 0)
     \<and> entry_end (on_disk_entry geom e) \<le> pe pak"

text \<open>A header and a directory in place load as their entries.\<close>

lemma layout_loads:
  assumes g: "pakka_pak_geometry (format pak) = Some geom" and sg: "signature pak = g_signature geom"
    and h: "f_has (f\<lparr>f_pos := 0\<rparr>) (header_bytes pak)"
    and r: "f_has (f\<lparr>f_pos := unat (diroffset pak)\<rparr>) (dir_bytes (format pak) geom es)"
    and n: "unat (dirlength pak) = length es * dir_entry_size geom" "length es \<le> PAKFILE_MAX_ENTRIES"
    and b: "12 \<le> unat (diroffset pak)" "unat (diroffset pak) + unat (dirlength pak) \<le> length (f_data f)"
    and s: "f_seekable f" "length (f_data f) < 2 ^ 63"
    and st: "\<forall>e \<in> set es. name_fits geom e
      \<and> (12 \<le> unat (offset e) \<or> pakka_format_is_wad (format pak) \<and> entry_length e = 0)
      \<and> entry_end (on_disk_entry geom e) \<le> length (f_data f)"
    and q: "entries q = []" "hint_fits (format_hint q) (format pak)"
  shows "\<exists>q1 f1 p. load_pakfile zip_open q f = (PAKKA_OK, q1, f1) \<and> format q1 = format pak
    \<and> load_directory (\<lambda>_. False) q1 f1 = (PAKKA_OK, q\<lparr>file_size := of_nat (length (f_data f)),
        signature := signature pak, format := format pak, diroffset := diroffset pak,
        dirlength := dirlength pak, num_entries := of_nat (length es),
        payload_end := foldl grow_end (of_nat PAKFILE_HEADER_SIZE) (map (on_disk_entry geom) es),
        entries := map (on_disk_entry geom) es\<rparr>, f\<lparr>f_pos := p, f_error := False\<rparr>)"
proof -
  let ?n = "length es"
  let ?q1 = "q\<lparr>file_size := of_nat (length (f_data f)), signature := signature pak, format := format pak,
    diroffset := diroffset pak, dirlength := dirlength pak, num_entries := of_nat ?n\<rparr>"
  obtain p where lp: "load_pakfile zip_open q f = (PAKKA_OK, ?q1, f\<lparr>f_pos := p, f_error := False\<rparr>)"
    using load_pakfile_written [OF g q(2) sg h s b n, of zip_open] by blast
  let ?q = "?q1\<lparr>payload_end := of_nat PAKFILE_HEADER_SIZE\<rparr>"
  let ?f = "f\<lparr>f_error := False, f_pos := unat (diroffset pak)\<rparr>"
  have un: "unat (of_nat ?n :: u32) = ?n"
    using n(2) by (simp add: PAKFILE_MAX_ENTRIES_def unat_of_nat_u32)
  have hr: "f_has ?f (dir_bytes (format ?q) geom es)" using r by (simp add: f_has_def)
  have rng: "name_fits geom e \<and> \<not> entry_out_of_range ?q (on_disk_entry geom e)" if "e \<in> set es" for e
  proof -
    have "offset (on_disk_entry geom e) = offset e" "entry_length (on_disk_entry geom e) = entry_length e"
      by (simp_all add: on_disk_entry_def)
    with st that s(2) show ?thesis unfolding entry_in_range by (simp add: unat_of_nat_u64)
  qed
  have rows: "load_dir_rows (\<lambda>_. False) geom 0 ?n ?q ?f =
    (PAKKA_OK, ?q\<lparr>entries := entries ?q @ map (on_disk_entry geom) es,
       payload_end := foldl grow_end (payload_end ?q) (map (on_disk_entry geom) es)\<rparr>,
     f_skip ?f (?n * dir_entry_size geom))"
    using g rng hr by (intro load_dir_rows_has) auto
  have "\<exists>p2. load_directory (\<lambda>_. False) ?q1 (f\<lparr>f_pos := p, f_error := False\<rparr>) =
    (PAKKA_OK, ?q\<lparr>payload_end := foldl grow_end (of_nat PAKFILE_HEADER_SIZE) (map (on_disk_entry geom) es),
       entries := map (on_disk_entry geom) es\<rparr>, f\<lparr>f_pos := p2, f_error := False\<rparr>)"
  proof (cases "es = []")
    case True
    then show ?thesis using q(1) by (intro exI [of _ p]) (simp add: load_directory_def)
  next
    case False
    then show ?thesis
      using g un rows s(1) q(1)
      by (intro exI [of _ "unat (diroffset pak) + ?n * dir_entry_size geom"])
        (simp add: load_directory_def fseek_set_def Let_def word_unat_eq_iff [of "of_nat ?n"] f_skip_def)
  qed
  then show ?thesis using lp by fastforce
qed

text \<open>C2: a directory that was written loads back as the same entries in the same order, for every
  PAK-class format, with the layout pinned or, where the magic decides it, probed: names, offsets,
  lengths and the Daikatana fields survive, and the loader accepts all of them.\<close>

theorem directory_roundtrip:
  assumes g: "pakka_pak_geometry (format pak) = Some geom" and w: "writable_dir pak"
    and sg: "signature pak = g_signature geom" and ne: "entries pak \<noteq> []"
    and st: "\<forall>e \<in> set (entries pak). storable pak geom e"
    and mx: "length (entries pak) \<le> PAKFILE_MAX_ENTRIES"
    and ok: "write_pak_directory fault pak f = (PAKKA_OK, pak', f')"
    and rd: "length (f_data f') \<le> f_readable f" "length (f_data f') < 2 ^ 63"
    and q: "entries q = []" "hint_fits (format_hint q) (format pak)"
  shows "\<exists>q1 f1 q2 f2. load_pakfile zip_open q f' = (PAKKA_OK, q1, f1)
    \<and> load_directory (\<lambda>_. False) q1 f1 = (PAKKA_OK, q2, f2)
    \<and> entries q2 = map (on_disk_entry geom) (entries pak) \<and> format q2 = format pak
    \<and> num_entries q2 = num_entries pak \<and> diroffset q2 = diroffset pak' \<and> dirlength q2 = dirlength pak'
    \<and> unat (file_size q2) = length (f_data f')"
proof -
  let ?n = "length (entries pak)"
  note w' = write_pak_directory_OK [OF g w ne ok]
  note lay = write_pak_directory_layout [OF g w ne ok rd(1)]
  have fmt: "format pak' = format pak" "signature pak' = signature pak" by (simp_all add: w'(1))
  have "f_seekable f"
    using ok ne g by (auto simp: write_pak_directory_def Let_def fseek_set_def split: if_splits prod.splits)
  then have sk: "f_seekable f'" using lay(4) by (simp add: f_same_env_def)
  have do: "unat (diroffset pak') = pe pak" "unat (dirlength pak') = ?n * dir_entry_size geom"
    using w'(1,2) by (simp_all add: unat_of_nat_u32 del: of_nat_mult)
  have pe12: "12 \<le> pe pak" using w by (simp add: writable_dir_def)
  have nn: "num_entries pak = of_nat ?n"
    using w mx by (simp add: word_unat_eq_iff unat_of_nat_u32 writable_dir_def PAKFILE_MAX_ENTRIES_def)
  have "\<forall>e \<in> set (entries pak). name_fits geom e
      \<and> (12 \<le> unat (offset e) \<or> pakka_format_is_wad (format pak) \<and> entry_length e = 0)
      \<and> entry_end (on_disk_entry geom e) \<le> length (f_data f')"
    using st lay(3) unfolding storable_def by fastforce
  with layout_loads [of pak' geom f' "entries pak" q zip_open] g sg lay do pe12 sk rd(2) q mx fmt
  obtain q1 f1 p where "load_pakfile zip_open q f' = (PAKKA_OK, q1, f1)"
    "load_directory (\<lambda>_. False) q1 f1 = (PAKKA_OK, q\<lparr>file_size := of_nat (length (f_data f')),
        signature := signature pak', format := format pak', diroffset := diroffset pak',
        dirlength := dirlength pak', num_entries := of_nat ?n,
        payload_end := foldl grow_end (of_nat PAKFILE_HEADER_SIZE) (map (on_disk_entry geom) (entries pak)),
        entries := map (on_disk_entry geom) (entries pak)\<rparr>, f'\<lparr>f_pos := p, f_error := False\<rparr>)"
    by auto
  with nn fmt rd(2) show ?thesis by (simp add: unat_of_nat_u64)
qed

definition wad_geometry :: pak_geometry where
  "wad_geometry = \<lparr>g_signature = ascii ''IWAD'', name_field_len = 8, dir_entry_size = 16, has_compression = False\<rparr>"

definition sample_entry :: pentry where
  "sample_entry = calloc_entry\<lparr>filename := ascii ''E1M1'', offset := 12, entry_length := 3\<rparr>"

definition sample_arch :: archive where
  "sample_arch = calloc_archive\<lparr>format := PAKKA_FORMAT_IWAD, signature := ascii ''IWAD'',
     num_entries := 1, payload_end := 15, entries := [sample_entry]\<rparr>"

definition sample_written :: "status \<times> archive \<times> cfile" where
  "sample_written = write_pak_directory False sample_arch
     (empty_stream\<lparr>f_data := ascii ''IWAD'' @ replicate 8 0 @ [1, 2, 3]\<rparr>)"

lemmas write_eval = write_pak_directory_def write_pak_header_def write_pak_entry_def
  pakka_write_u32_le_all fwrite_all_def fwrite_def u32_le_def andthen_def pak_name_field_def
  pakka_format_is_wad_def fseek_set_def UINT32_MAX_def empty_stream_def ascii_def splice_def

lemma sample_writes:
  "fst sample_written = PAKKA_OK" "length (f_data (snd (snd sample_written))) = 31"
  by (simp_all add: sample_written_def sample_arch_def sample_entry_def calloc_archive_def
      calloc_entry_def write_eval)

lemma directory_roundtrip_witness:
  "\<exists>q1 f1 q2 f2. load_pakfile no_zip calloc_archive (snd (snd sample_written)) = (PAKKA_OK, q1, f1)
    \<and> load_directory (\<lambda>_. False) q1 f1 = (PAKKA_OK, q2, f2)
    \<and> entries q2 = map (on_disk_entry wad_geometry) (entries sample_arch) \<and> format q2 = format sample_arch
    \<and> num_entries q2 = num_entries sample_arch \<and> diroffset q2 = diroffset (fst (snd sample_written))
    \<and> dirlength q2 = dirlength (fst (snd sample_written))
    \<and> unat (file_size q2) = length (f_data (snd (snd sample_written)))"
proof (rule directory_roundtrip)
  show "write_pak_directory False sample_arch (empty_stream\<lparr>f_data := ascii ''IWAD'' @ replicate 8 0 @ [1, 2, 3]\<rparr>)
    = (PAKKA_OK, fst (snd sample_written), snd (snd sample_written))"
    using sample_writes(1) by (simp add: sample_written_def prod_eq_iff)
  show "\<forall>e \<in> set (entries sample_arch). storable sample_arch wad_geometry e"
    by (simp add: sample_arch_def sample_entry_def storable_def name_fits_def c_string_def ascii_def
        entry_end_def on_disk_entry_def pak_entry_on_disk_extent_def wad_geometry_def pe_def calloc_entry_def)
qed (simp_all add: sample_writes sample_arch_def wad_geometry_def writable_dir_def pe_def empty_stream_def
    PAKFILE_MAX_ENTRIES_def calloc_archive_def hint_fits_def ascii_def)

definition payload_bytes :: "cfile \<Rightarrow> pentry \<Rightarrow> u8 list" where
  "payload_bytes f e = take (unat (pak_entry_on_disk_extent e)) (drop (unat (offset e)) (f_data f))"

text \<open>C4: writing the directory never damages a payload that ends at or before the append mark, whether
  the write succeeds, fails half way (full disk, refused seek) or is cut before the header; and the
  entry list, the mark and the mode flags of the handle stay as they were.\<close>

theorem directory_write_keeps_payloads:
  assumes w: "writable_dir pak" and r: "write_pak_directory fault pak f = (s, pak', f')"
    and e: "12 \<le> unat (offset e)" "entry_end e \<le> pe pak" "entry_end e \<le> length (f_data f)"
  shows "payload_bytes f' e = payload_bytes f e \<and> entries pak' = entries pak
    \<and> payload_end pak' = payload_end pak \<and> num_entries pak' = num_entries pak
    \<and> dirty pak' = dirty pak \<and> needs_rebuild pak' = needs_rebuild pak"
proof -
  have "payload_bytes f' e = payload_bytes f e"
    unfolding payload_bytes_def using e
    by (intro f_keeps_range [OF write_pak_directory_frame(1) [OF w r]]) (auto simp: entry_end_def)
  with write_pak_directory_frame(2) [OF w r] show ?thesis by auto
qed

lemma directory_write_keeps_payloads_witness:
  "payload_bytes (snd (snd sample_written)) sample_entry = [1, 2, 3]"
proof -
  let ?f = "empty_stream\<lparr>f_data := ascii ''IWAD'' @ replicate 8 0 @ [1, 2, 3]\<rparr>"
  have "payload_bytes (snd (snd sample_written)) sample_entry = payload_bytes ?f sample_entry
    \<and> entries (fst (snd sample_written)) = entries sample_arch
    \<and> payload_end (fst (snd sample_written)) = payload_end sample_arch
    \<and> num_entries (fst (snd sample_written)) = num_entries sample_arch
    \<and> dirty (fst (snd sample_written)) = dirty sample_arch
    \<and> needs_rebuild (fst (snd sample_written)) = needs_rebuild sample_arch"
  proof (rule directory_write_keeps_payloads [where s = "fst sample_written"])
    show "write_pak_directory False sample_arch ?f =
      (fst sample_written, fst (snd sample_written), snd (snd sample_written))"
      by (simp add: sample_written_def)
  qed (simp_all add: sample_arch_def sample_entry_def writable_dir_def pe_def entry_end_def
      pak_entry_on_disk_extent_def calloc_entry_def ascii_def)
  then show ?thesis
    by (simp add: payload_bytes_def sample_entry_def pak_entry_on_disk_extent_def calloc_entry_def
        ascii_def)
qed

section \<open>Duplicate names\<close>

lemma adjacent_equal_sorted: "sorted names \<Longrightarrow> adjacent_equal names \<longleftrightarrow> \<not> distinct names"
proof (induction names rule: adjacent_equal.induct)
  case (1 a b names)
  have "a = b \<or> a \<notin> set (b # names)"
    using "1.prems" by (auto intro: order.antisym)
  with 1 show ?case by auto
qed auto

lemma validate_no_duplicates_eq:
  assumes "\<not> oom 0" "unat (num_entries pak) = length (entries pak)" "\<not> pakka_format_is_wad (format pak)"
  shows "validate_no_duplicates oom pak =
    (if \<exists>i j. i < j \<and> j < length (entries pak) \<and> filename (entries pak ! i) = filename (entries pak ! j)
     then PAKKA_ERR_DUPLICATE else PAKKA_OK)"
proof -
  let ?names = "map filename (entries pak)"
  have d: "\<not> distinct ?names \<longleftrightarrow>
    (\<exists>i j. i < j \<and> j < length (entries pak) \<and> filename (entries pak ! i) = filename (entries pak ! j))"
  proof
    assume "\<not> distinct ?names"
    then obtain i j where ij: "i < length (entries pak)" "j < length (entries pak)" "i \<noteq> j"
      "filename (entries pak ! i) = filename (entries pak ! j)"
      by (auto simp: distinct_conv_nth)
    then show "\<exists>i j. i < j \<and> j < length (entries pak) \<and> filename (entries pak ! i) = filename (entries pak ! j)"
      by (cases "i < j") (metis, metis linorder_neqE_nat)
  qed (fastforce simp: distinct_conv_nth)
  show ?thesis
  proof (cases "unat (num_entries pak) \<le> 1")
    case True
    with assms show ?thesis by (auto simp: validate_no_duplicates_def)
  next
    case False
    have "adjacent_equal (sort ?names) \<longleftrightarrow> \<not> distinct ?names"
      by (simp only: adjacent_equal_sorted sorted_sort distinct_sort)
    with False assms d show ?thesis by (simp add: validate_no_duplicates_def Let_def)
  qed
qed

text \<open>The check at open reports a duplicate exactly when two entries of a non-WAD archive carry the
  same name.\<close>

theorem validate_no_duplicates_iff:
  assumes "\<not> oom 0" "unat (num_entries pak) = length (entries pak)" "\<not> pakka_format_is_wad (format pak)"
  shows "validate_no_duplicates oom pak =
    (if \<exists>i j. i < j \<and> j < length (entries pak) \<and> filename (entries pak ! i) = filename (entries pak ! j)
     then PAKKA_ERR_DUPLICATE else PAKKA_OK)"
  using assms by (rule validate_no_duplicates_eq)

lemma validate_no_duplicates_iff_witness:
  "validate_no_duplicates (\<lambda>_. False)
     (calloc_archive\<lparr>num_entries := 2, entries := [sample_entry, sample_entry]\<rparr>) = PAKKA_ERR_DUPLICATE"
proof -
  have "\<exists>i j. i < j \<and> j < length (entries (calloc_archive\<lparr>num_entries := 2, entries := [sample_entry, sample_entry]\<rparr>))
      \<and> filename (entries (calloc_archive\<lparr>num_entries := 2, entries := [sample_entry, sample_entry]\<rparr>) ! i)
        = filename (entries (calloc_archive\<lparr>num_entries := 2, entries := [sample_entry, sample_entry]\<rparr>) ! j)"
    by (rule exI [of _ 0], rule exI [of _ 1]) simp
  then show ?thesis
    by (subst validate_no_duplicates_iff) (simp_all add: calloc_archive_def pakka_format_is_wad_def)
qed

end
