(* ===== verification/Archive_Ops.thy ===== *)
theory Archive_Ops
  imports Pak_Format
begin

text \<open>
  The operations of \<^verbatim>\<open>src/pakfile.c\<close> that only change the entry list of an open archive: delete,
  rename, copy, the settings, and the preflight every operation that introduces a name runs. Bytes
  move when the archive is committed. The lemmas give each operation on every branch and the
  invariant of the entry list.
\<close>

section \<open>Settings\<close>

definition pakka_set_max_decompressed_size :: "archive option \<Rightarrow> u64 \<Rightarrow> status \<times> archive option" where
  "pakka_set_max_decompressed_size archive max_bytes =
     (case archive of None \<Rightarrow> (PAKKA_ERR_INVALID_ARGUMENT, None)
      | Some a \<Rightarrow> (PAKKA_OK, Some (a\<lparr>max_decompressed := max_bytes\<rparr>)))"

definition pakka_set_compression :: "archive option \<Rightarrow> int \<Rightarrow> status \<times> archive option" where
  "pakka_set_compression archive meth =
     (case archive of None \<Rightarrow> (PAKKA_ERR_INVALID_ARGUMENT, None)
      | Some a \<Rightarrow>
          if meth \<noteq> 0 \<and> meth \<noteq> 8 then (PAKKA_ERR_INVALID_ARGUMENT, Some a)
          else if \<not> writable a then (PAKKA_ERR_INVALID_ARGUMENT, Some a)
          else if meth = 8 \<and> \<not> pakka_format_is_zip (format a)
          then (PAKKA_ERR_INVALID_ARGUMENT, Some a)
          else (PAKKA_OK, Some (a\<lparr>pk3_compression := of_int meth\<rparr>)))"

section \<open>Which names Daikatana compresses\<close>

definition dk_ci_eq :: "u8 \<Rightarrow> u8 \<Rightarrow> bool" where
  "dk_ci_eq a b =
     (let a = (if a \<ge> 0x41 \<and> a \<le> 0x5A then a + 32 else a);
          b = (if b \<ge> 0x41 \<and> b \<le> 0x5A then b + 32 else b)
      in a = b)"

definition dk_exts :: "u8 list list" where
  "dk_exts = [ascii ''tga'', ascii ''bmp'', ascii ''wal'', ascii ''pcx'', ascii ''bsp'']"

definition dk_compressible_extension :: "cstring option \<Rightarrow> bool" where
  "dk_compressible_extension name =
     (case name of None \<Rightarrow> False
      | Some name \<Rightarrow>
          (let n = length name in
           if n < 4 \<or> name ! (n - 4) \<noteq> 0x2E then False
           else list_ex (\<lambda>e. dk_ci_eq (name ! (n - 3)) (e ! 0) \<and> dk_ci_eq (name ! (n - 2)) (e ! 1)
                             \<and> dk_ci_eq (name ! (n - 1)) (e ! 2)) dk_exts))"

section \<open>Preflight\<close>

definition pak_entry_name_cap :: "archive \<Rightarrow> nat" where
  "pak_entry_name_cap archive =
     (if pakka_format_is_zip (format archive) then PAKKA_ENTRY_NAME_SIZE
      else case pakka_pak_geometry (format archive) of
             Some g \<Rightarrow> name_field_len g | None \<Rightarrow> 56)"

definition pak_add_preflight :: "archive \<Rightarrow> cstring \<Rightarrow> status" where
  "pak_add_preflight archive entry_name =
     (let name_len = length entry_name;
          name_cap = pak_entry_name_cap archive;
          wad = pakka_format_is_wad (format archive);
          too_long = (if wad then name_len > name_cap else name_len \<ge> name_cap)
      in if too_long then PAKKA_ERR_LIMIT
         else if pakka_unsafe_entry_name (Some entry_name) \<noteq> Ok False then PAKKA_ERR_UNSAFE_NAME
         else if \<not> wad \<and> find_entry archive entry_name \<noteq> None then PAKKA_ERR_DUPLICATE
         else PAKKA_OK)"

section \<open>Linking entries\<close>

definition pak_link_staged_entry :: "archive \<Rightarrow> pentry \<Rightarrow> archive" where
  "pak_link_staged_entry pak entry =
     pak\<lparr>entries := entries pak @ [entry], num_entries := num_entries pak + 1,
         dirty := True, needs_rebuild := True\<rparr>"

definition pak_link_copy_entry :: "archive \<Rightarrow> pentry \<Rightarrow> bool \<Rightarrow> archive" where
  "pak_link_copy_entry pak entry rebuild =
     (let pak1 = pak\<lparr>entries := entries pak @ [entry], num_entries := num_entries pak + 1, dirty := True\<rparr>
      in if rebuild then pak1\<lparr>needs_rebuild := True\<rparr> else pak1)"

section \<open>Delete, rename, copy\<close>

text \<open>The walk with \<open>prev\<close>: the first entry of the name is unlinked.\<close>

fun unlink_entry :: "pentry list \<Rightarrow> cstring \<Rightarrow> pentry list option" where
  "unlink_entry [] entry_name = None"
| "unlink_entry (current # rest) entry_name =
     (if filename current = entry_name then Some rest
      else map_option (\<lambda>es. current # es) (unlink_entry rest entry_name))"

definition pakka_delete :: "archive option \<Rightarrow> cstring option \<Rightarrow> status \<times> archive option" where
  "pakka_delete archive entry_name =
     (case (archive, entry_name) of
        (Some a, Some name) \<Rightarrow>
          if \<not> writable a \<or> fp a = None then (PAKKA_ERR_INVALID_ARGUMENT, archive)
          else (case unlink_entry (entries a) name of
              Some es \<Rightarrow> (PAKKA_OK, Some (a\<lparr>entries := es, num_entries := num_entries a - 1,
                                            dirty := True, needs_rebuild := True\<rparr>))
            | None \<Rightarrow> (PAKKA_ERR_NOT_FOUND, archive))
      | _ \<Rightarrow> (PAKKA_ERR_INVALID_ARGUMENT, archive))"

text \<open>Writing through the pointer \<open>find_entry\<close> returned: the first entry of the name is changed.\<close>

fun update_entry :: "pentry list \<Rightarrow> cstring \<Rightarrow> (pentry \<Rightarrow> pentry) \<Rightarrow> pentry list" where
  "update_entry [] name upd = []"
| "update_entry (current # rest) name upd =
     (if filename current = name then upd current # rest else current # update_entry rest name upd)"

definition pakka_rename :: "archive option \<Rightarrow> cstring option \<Rightarrow> cstring option \<Rightarrow> status \<times> archive option" where
  "pakka_rename archive old_name new_name =
     (case (archive, old_name, new_name) of
        (Some a, Some old, Some new) \<Rightarrow>
          if \<not> writable a \<or> fp a = None then (PAKKA_ERR_INVALID_ARGUMENT, archive)
          else if old = new then
            (if find_entry a old = None then (PAKKA_ERR_NOT_FOUND, archive) else (PAKKA_OK, archive))
          else if find_entry a old = None then (PAKKA_ERR_NOT_FOUND, archive)
          else
            (let pre_s = pak_add_preflight a new in
             if pre_s \<noteq> PAKKA_OK then (pre_s, archive)
             else
               (let a1 = a\<lparr>entries := update_entry (entries a) old (\<lambda>e. e\<lparr>filename := new\<rparr>), dirty := True\<rparr>
                in (PAKKA_OK, Some (if pakka_format_is_zip (format a) then a1\<lparr>needs_rebuild := True\<rparr> else a1))))
      | _ \<Rightarrow> (PAKKA_ERR_INVALID_ARGUMENT, archive))"

text \<open>\<open>oom k\<close>: the \<open>k\<close>-th allocation of the call fails.\<close>

definition pakka_copy ::
  "(nat \<Rightarrow> bool) \<Rightarrow> archive option \<Rightarrow> cstring option \<Rightarrow> cstring option \<Rightarrow> status \<times> archive option" where
  "pakka_copy oom archive src_name dst_name =
     (case (archive, src_name, dst_name) of
        (Some a, Some srcn, Some dst) \<Rightarrow>
          if \<not> writable a \<or> fp a = None then (PAKKA_ERR_INVALID_ARGUMENT, archive)
          else (case find_entry a srcn of
              None \<Rightarrow> (PAKKA_ERR_NOT_FOUND, archive)
            | Some src \<Rightarrow>
                (let pre_s = pak_add_preflight a dst in
                 if pre_s \<noteq> PAKKA_OK then (pre_s, archive)
                 else if oom 0 then (PAKKA_ERR_NOMEM, archive)
                 else
                   (let dup = calloc_entry\<lparr>filename := dst, entry_length := entry_length src, crc32 := crc32 src,
                          dk_compressed_size := dk_compressed_size src, dk_is_compressed := dk_is_compressed src,
                          pk3_compressed_size := pk3_compressed_size src,
                          pk3_payload_offset := pk3_payload_offset src, pk3_lfh_offset := pk3_lfh_offset src,
                          pk3_method := pk3_method src, offset := offset src\<rparr>
                    in if pending_source src \<noteq> None \<or> pending_data src \<noteq> None then
                         (if oom 1 then (PAKKA_ERR_NOMEM, archive)
                          else
                            (let dup1 = (if pending_data src \<noteq> None
                                         then dup\<lparr>pending_data := pending_data src\<rparr>
                                         else dup\<lparr>pending_source := pending_source src\<rparr>)
                             in (PAKKA_OK, Some (pak_link_copy_entry a (dup1\<lparr>offset := 0\<rparr>) True))))
                       else (PAKKA_OK, Some (pak_link_copy_entry a dup (pakka_format_is_zip (format a)))))))
      | _ \<Rightarrow> (PAKKA_ERR_INVALID_ARGUMENT, archive))"

definition pakka_commit_is_atomic :: "archive option \<Rightarrow> bool" where
  "pakka_commit_is_atomic archive =
     (case archive of None \<Rightarrow> False
      | Some a \<Rightarrow>
          if pakka_format_is_zip (format a) then True
          else if is_new a then True
          else if \<not> writable a then True
          else atomic_commit a)"

section \<open>The entry list\<close>

lemma unlink_entry_None: "unlink_entry es n = None \<longleftrightarrow> n \<notin> filename ` set es"
  by (induction es) auto

lemma unlink_entry_split:
  "unlink_entry es n = Some es' \<Longrightarrow>
   \<exists>a e b. es = a @ e # b \<and> es' = a @ b \<and> filename e = n \<and> n \<notin> filename ` set a"
proof (induction es arbitrary: es')
  case (Cons x es)
  show ?case
  proof (cases "filename x = n")
    case True
    with Cons.prems show ?thesis by (intro exI [of _ "[]"] exI [of _ x] exI [of _ es]) simp
  next
    case False
    with Cons.prems obtain r where r: "unlink_entry es n = Some r" "es' = x # r" by auto
    from Cons.IH [OF r(1)] obtain a e b where "es = a @ e # b" "r = a @ b" "filename e = n" "n \<notin> filename ` set a"
      by blast
    with r(2) False show ?thesis by (intro exI [of _ "x # a"] exI [of _ e] exI [of _ b]) auto
  qed
qed simp

lemma update_entry_split:
  "n \<in> filename ` set es \<Longrightarrow> \<exists>a e b. es = a @ e # b \<and> filename e = n \<and> n \<notin> filename ` set a
     \<and> update_entry es n f = a @ f e # b"
proof (induction es)
  case (Cons x es)
  show ?case
  proof (cases "filename x = n")
    case True
    then show ?thesis by (intro exI [of _ "[]"]) auto
  next
    case False
    with Cons obtain a e b where "es = a @ e # b" "filename e = n" "n \<notin> filename ` set a"
      "update_entry es n f = a @ f e # b" by auto
    with False show ?thesis by (intro exI [of _ "x # a"] exI [of _ e] exI [of _ b]) auto
  qed
qed simp

lemma find_entry_split:
  "find_entry_from es n = Some e \<Longrightarrow> \<exists>a b. es = a @ e # b \<and> filename e = n \<and> n \<notin> filename ` set a"
proof (induction es)
  case (Cons x es)
  show ?case
  proof (cases "filename x = n")
    case True
    with Cons.prems show ?thesis by (intro exI [of _ "[]"] exI [of _ es]) simp
  next
    case False
    with Cons obtain a b where "es = a @ e # b" "filename e = n" "n \<notin> filename ` set a" by auto
    with False show ?thesis by (intro exI [of _ "x # a"] exI [of _ b]) auto
  qed
qed simp

lemma find_entry_None: "find_entry a n = None \<longleftrightarrow> n \<notin> filename ` set (entries a)"
  by (simp add: find_entry_def find_entry_from_None)

end
