(* ===== verification/Archive_Add.thy ===== *)
theory Archive_Add
  imports Archive_Ops Zip_Interface Dk_Codec
begin

text \<open>
  \<open>pakka_add_file\<close> and \<open>pakka_add_memory\<close> of \<^verbatim>\<open>src/pakfile.c\<close>: the preflight of the source, the choice
  of the Daikatana encoder, staging for archives that commit atomically, and the append into the live
  file for the others.
\<close>

section \<open>The source\<close>

definition pak_add_source_preflight :: "env \<Rightarrow> files \<Rightarrow> path \<Rightarrow> status" where
  "pak_add_source_preflight env fs source_path =
     (if pakka_platform_is_reparse_or_symlink env fs source_path then PAKKA_ERR_UNSAFE_NAME
      else case pakka_platform_lstat env fs source_path of
        None \<Rightarrow> PAKKA_ERR_IO
      | Some (Regular _) \<Rightarrow> PAKKA_OK
      | Some _ \<Rightarrow> PAKKA_ERR_UNSAFE_NAME)"

text \<open>Opening the source and asking for its size.\<close>

definition open_source :: "env \<Rightarrow> files \<Rightarrow> path \<Rightarrow> status \<times> cfile \<times> nat" where
  "open_source env fs source_path =
     (case pakka_platform_fopen env fs source_path False of
        None \<Rightarrow> (PAKKA_ERR_IO, empty_stream, 0)
      | Some src_fp \<Rightarrow>
          (case pakka_filesize src_fp of
             (None, f) \<Rightarrow> (PAKKA_ERR_IO, f, 0)
           | (Some src_size, f) \<Rightarrow>
               if src_size > UINT32_MAX then (PAKKA_ERR_LIMIT, f, src_size)
               else (PAKKA_OK, f, src_size)))"

section \<open>Daikatana compression\<close>

definition dk_try_compress :: "archive \<Rightarrow> cstring \<Rightarrow> nat \<Rightarrow> bool" where
  "dk_try_compress a entry_name len \<longleftrightarrow>
     format a = PAKKA_FORMAT_DAIKATANA \<and> len > 0 \<and> dk_compressible_extension (Some entry_name)"

text \<open>The encoded payload when the encoder runs and wins. The buffer comes from \<open>malloc\<close>; its content
  does not matter.\<close>

definition dk_encode :: "env \<Rightarrow> u8 list \<Rightarrow> u8 list option" where
  "dk_encode env payload =
     (let len = length payload; worst = dk_worst len in
      if worst > UINT32_MAX \<or> e_oom env A_encoded then None
      else case pakka_dk_deflate (Some payload) len (Some (replicate worst 0)) worst of
        Ok (enc_len, enc_buf) \<Rightarrow> if enc_len < len then Some (take enc_len enc_buf) else None
      | _ \<Rightarrow> None)"

text \<open>The eager read of \<open>pakka_add_file\<close>: \<open>src_buf\<close> and \<open>enc_buf\<close>, both \<open>None\<close> on the streaming path.\<close>

definition dk_capture ::
  "env \<Rightarrow> archive \<Rightarrow> cstring \<Rightarrow> cfile \<Rightarrow> nat \<Rightarrow> status \<times> u8 list option \<times> u8 list option \<times> cfile" where
  "dk_capture env a entry_name src_fp src_size =
     (if dk_try_compress a entry_name src_size \<and> dk_worst src_size \<le> UINT32_MAX
         \<and> \<not> e_oom env A_source_buffer then
        (case fread_all src_fp src_size of
           (None, f) \<Rightarrow> (PAKKA_ERR_IO, None, None, f)
         | (Some src_buf, f) \<Rightarrow> (PAKKA_OK, Some src_buf, dk_encode env src_buf, f))
      else (PAKKA_OK, None, None, src_fp))"

section \<open>The entry\<close>

definition new_entry :: "cstring \<Rightarrow> u32 \<Rightarrow> nat \<Rightarrow> u8 list option \<Rightarrow> pentry" where
  "new_entry name off len enc =
     (let e = calloc_entry\<lparr>filename := name, offset := off, entry_length := of_nat len\<rparr> in
      case enc of None \<Rightarrow> e
      | Some enc_buf \<Rightarrow> e\<lparr>dk_is_compressed := True, dk_compressed_size := of_nat (length enc_buf)\<rparr>)"

definition physical_size :: "nat \<Rightarrow> u8 list option \<Rightarrow> u32" where
  "physical_size len enc = (case enc of Some enc_buf \<Rightarrow> of_nat (length enc_buf) | None \<Rightarrow> of_nat len)"

text \<open>The tail of both functions: link the entry and move the append mark.\<close>

definition link_appended :: "archive \<Rightarrow> pentry \<Rightarrow> u64 \<Rightarrow> u32 \<Rightarrow> archive" where
  "link_appended a entry append_offset psize =
     a\<lparr>entries := entries a @ [entry], payload_end := append_offset + ucast psize,
       num_entries := num_entries a + 1, dirty := True\<rparr>"

definition append_too_large :: "u64 \<Rightarrow> u32 \<Rightarrow> bool" where
  "append_too_large append_offset psize \<longleftrightarrow> append_offset > of_nat UINT32_MAX - ucast psize"

section \<open>Adding a file\<close>

text \<open>The staged add: captured bytes, or the path with the checksum of one scan.\<close>

definition stage_file ::
  "env \<Rightarrow> archive \<Rightarrow> path \<Rightarrow> cstring \<Rightarrow> cfile \<Rightarrow> nat \<Rightarrow> u8 list option \<Rightarrow> u8 list option
    \<Rightarrow> status \<times> archive" where
  "stage_file env a source_path entry_name src_fp src_size src_buf enc =
     (if e_oom env A_entry then (PAKKA_ERR_NOMEM, a)
      else
        (let entry = new_entry entry_name 0 src_size enc in
         case (enc, src_buf) of
           (Some enc_buf, _) \<Rightarrow>
             (PAKKA_OK, pak_link_staged_entry a (entry\<lparr>pending_data := Some enc_buf\<rparr>))
         | (None, Some buf) \<Rightarrow>
             (PAKKA_OK, pak_link_staged_entry a (entry\<lparr>pending_data := Some buf\<rparr>))
         | (None, None) \<Rightarrow>
             (let (crc, src1) = crc_scan src_fp 0 in
              if f_error src1 then (PAKKA_ERR_IO, a)
              else if e_oom env A_path then (PAKKA_ERR_NOMEM, a)
              else (PAKKA_OK, pak_link_staged_entry a
                     (entry\<lparr>crc32 := crc, pending_source := Some source_path\<rparr>)))))"

text \<open>The in-place write of the payload: encoded, from the eager read, or streamed.\<close>

definition write_payload ::
  "env \<Rightarrow> cfile \<Rightarrow> cfile \<Rightarrow> nat \<Rightarrow> u8 list option \<Rightarrow> u8 list option \<Rightarrow> status \<times> cfile" where
  "write_payload env f src_fp src_size src_buf enc =
     (case (enc, src_buf) of
        (Some enc_buf, _) \<Rightarrow>
          (let (ok, f1) = fwrite_all f enc_buf in (if ok then PAKKA_OK else PAKKA_ERR_IO, f1))
      | (None, Some buf) \<Rightarrow>
          (let (ok, f1) = fwrite_all f buf in (if ok then PAKKA_OK else PAKKA_ERR_IO, f1))
      | (None, None) \<Rightarrow>
          if src_size > 0 then
            (if e_oom env A_chunk then (PAKKA_ERR_NOMEM, f)
             else (let (s, src1, f1) = copy_chunks src_fp f src_size in (s, f1)))
          else (PAKKA_OK, f))"

definition append_file ::
  "env \<Rightarrow> archive \<Rightarrow> cfile \<Rightarrow> cstring \<Rightarrow> cfile \<Rightarrow> nat \<Rightarrow> u8 list option \<Rightarrow> u8 list option
    \<Rightarrow> status \<times> archive" where
  "append_file env a f entry_name src_fp src_size src_buf enc =
     (let append_offset = payload_end a; psize = physical_size src_size enc in
      if append_too_large append_offset psize then (PAKKA_ERR_LIMIT, a)
      else if e_oom env A_entry then (PAKKA_ERR_NOMEM, a)
      else
        (let entry = new_entry entry_name (ucast append_offset) src_size enc;
             (sought, f1) = fseek_set f (unat append_offset)
         in if \<not> sought then (PAKKA_ERR_IO, a\<lparr>fp := Some f1\<rparr>)
            else
              (let (s, f2) = write_payload env f1 src_fp src_size src_buf enc in
               if s \<noteq> PAKKA_OK then (s, a\<lparr>fp := Some f2\<rparr>)
               else (PAKKA_OK, link_appended (a\<lparr>fp := Some f2\<rparr>) entry append_offset psize))))"

definition pakka_add_file ::
  "zip_ops \<Rightarrow> env \<Rightarrow> files \<Rightarrow> archive option \<Rightarrow> path option \<Rightarrow> cstring option \<Rightarrow> status \<times> archive option" where
  "pakka_add_file Z env fs archive source_path entry_name =
     (case (archive, source_path, entry_name) of
        (Some a, Some source, Some name) \<Rightarrow>
          (case fp a of
             None \<Rightarrow> (PAKKA_ERR_INVALID_ARGUMENT, archive)
           | Some f \<Rightarrow>
               if \<not> writable a then (PAKKA_ERR_INVALID_ARGUMENT, archive)
               else
                 (let pre_s = pak_add_preflight a name in
                  if pre_s \<noteq> PAKKA_OK then (pre_s, archive)
                  else
                    (let pre_s = pak_add_source_preflight env fs source in
                     if pre_s \<noteq> PAKKA_OK then (pre_s, archive)
                     else if pakka_format_is_zip (format a) then
                       (let (s, a1) = z_add_file Z env fs a source name in (s, Some a1))
                     else
                       (let (s, src_fp, src_size) = open_source env fs source in
                        if s \<noteq> PAKKA_OK then (s, archive)
                        else
                          (let (s, src_buf, enc, src1) = dk_capture env a name src_fp src_size in
                           if s \<noteq> PAKKA_OK then (s, archive)
                           else
                             (let (s, a1) =
                                (if atomic_commit a
                                 then stage_file env a source name src1 src_size src_buf enc
                                 else append_file env a f name src1 src_size src_buf enc)
                              in (s, Some a1)))))))
      | _ \<Rightarrow> (PAKKA_ERR_INVALID_ARGUMENT, archive))"

section \<open>Adding a buffer\<close>

text \<open>\<open>data\<close> is the buffer the pointer refers to, which holds at least \<open>len\<close> bytes.\<close>

definition stage_memory :: "env \<Rightarrow> archive \<Rightarrow> cstring \<Rightarrow> u8 list \<Rightarrow> u8 list option \<Rightarrow> status \<times> archive" where
  "stage_memory env a entry_name payload enc =
     (if e_oom env A_entry then (PAKKA_ERR_NOMEM, a)
      else
        (let entry = new_entry entry_name 0 (length payload) enc in
         case enc of
           Some enc_buf \<Rightarrow> (PAKKA_OK, pak_link_staged_entry a (entry\<lparr>pending_data := Some enc_buf\<rparr>))
         | None \<Rightarrow>
             if e_oom env A_staged then (PAKKA_ERR_NOMEM, a)
             else (PAKKA_OK, pak_link_staged_entry a (entry\<lparr>pending_data := Some payload\<rparr>))))"

definition append_memory ::
  "env \<Rightarrow> archive \<Rightarrow> cfile \<Rightarrow> cstring \<Rightarrow> u8 list \<Rightarrow> u8 list option \<Rightarrow> status \<times> archive" where
  "append_memory env a f entry_name payload enc =
     (let append_offset = payload_end a; psize = physical_size (length payload) enc in
      if append_too_large append_offset psize then (PAKKA_ERR_LIMIT, a)
      else if e_oom env A_entry then (PAKKA_ERR_NOMEM, a)
      else
        (let entry = new_entry entry_name (ucast append_offset) (length payload) enc;
             (sought, f1) = fseek_set f (unat append_offset)
         in if \<not> sought then (PAKKA_ERR_IO, a\<lparr>fp := Some f1\<rparr>)
            else
              (let (ok, f2) =
                 (case enc of Some enc_buf \<Rightarrow> fwrite_all f1 enc_buf
                  | None \<Rightarrow> if payload \<noteq> [] then fwrite_all f1 payload else (True, f1))
               in if \<not> ok then (PAKKA_ERR_IO, a\<lparr>fp := Some f2\<rparr>)
                  else (PAKKA_OK, link_appended (a\<lparr>fp := Some f2\<rparr>) entry append_offset psize))))"

definition pakka_add_memory ::
  "zip_ops \<Rightarrow> env \<Rightarrow> archive option \<Rightarrow> cstring option \<Rightarrow> u8 list option \<Rightarrow> nat \<Rightarrow> status \<times> archive option" where
  "pakka_add_memory Z env archive entry_name data len =
     (case (archive, entry_name) of
        (Some a, Some name) \<Rightarrow>
          if data = None \<and> len > 0 then (PAKKA_ERR_INVALID_ARGUMENT, archive)
          else (case fp a of
             None \<Rightarrow> (PAKKA_ERR_INVALID_ARGUMENT, archive)
           | Some f \<Rightarrow>
               if \<not> writable a then (PAKKA_ERR_INVALID_ARGUMENT, archive)
               else
                 (let pre_s = pak_add_preflight a name; payload = take len (case_option [] id data) in
                  if pre_s \<noteq> PAKKA_OK then (pre_s, archive)
                  else if pakka_format_is_zip (format a) then
                    (let (s, a1) = z_add_memory Z env a name payload in (s, Some a1))
                  else if len > UINT32_MAX then (PAKKA_ERR_LIMIT, archive)
                  else
                    (let enc = (if dk_try_compress a name len then dk_encode env payload else None);
                         (s, a1) = (if atomic_commit a then stage_memory env a name payload enc
                                    else append_memory env a f name payload enc)
                     in (s, Some a1))))
      | _ \<Rightarrow> (PAKKA_ERR_INVALID_ARGUMENT, archive))"

end
