(* ===== verification/Pak_Commit.thy ===== *)
theory Pak_Commit
  imports Archive_Add
begin

text \<open>
  Publishing changes: \<open>pakka_commit\<close> of \<^verbatim>\<open>src/pakfile.c\<close> with its two ways, the directory rewrite in
  place and the rebuild into a scratch file that is renamed over the archive. The rebuild copies every
  payload once (entries that share bytes go on sharing them), and every error before the rename leaves
  the archive file and the handle as they were.
\<close>

section \<open>Copying one entry\<close>

definition pak_copy_pending_source :: "env \<Rightarrow> files \<Rightarrow> path \<Rightarrow> pentry \<Rightarrow> cfile \<Rightarrow> status \<times> cfile" where
  "pak_copy_pending_source env fs source entry tfd =
     (if pakka_platform_is_reparse_or_symlink env fs source then (PAKKA_ERR_UNSAFE_NAME, tfd)
      else case pakka_platform_lstat env fs source of
        None \<Rightarrow> (PAKKA_ERR_IO, tfd)
      | Some (Regular content) \<Rightarrow>
          if length content \<noteq> unat (entry_length entry) then (PAKKA_ERR_FORMAT, tfd)
          else (case pakka_platform_fopen env fs source False of
              None \<Rightarrow> (PAKKA_ERR_IO, tfd)
            | Some src \<Rightarrow>
                (let (s, crc, tfd1) = copy_crc src tfd (unat (entry_length entry)) 0 in
                 if s \<noteq> PAKKA_OK then (s, tfd1)
                 else if crc \<noteq> crc32 entry then (PAKKA_ERR_FORMAT, tfd1)
                 else (PAKKA_OK, tfd1)))
      | Some _ \<Rightarrow> (PAKKA_ERR_UNSAFE_NAME, tfd))"

text \<open>\<open>i\<close> is the place of the entry in the list. The results are the status, the offset in the scratch
  file, and the two streams.\<close>

definition copy_between_paks ::
  "env \<Rightarrow> files \<Rightarrow> nat \<Rightarrow> pentry \<Rightarrow> cfile \<Rightarrow> cfile \<Rightarrow> status \<times> u32 \<times> cfile \<times> cfile" where
  "copy_between_paks env fs i entry ffd tfd =
     (case ftell tfd of
        None \<Rightarrow> (PAKKA_ERR_IO, 0, ffd, tfd)
      | Some new_offset \<Rightarrow>
          if new_offset > UINT32_MAX then (PAKKA_ERR_LIMIT, 0, ffd, tfd)
          else
            (let off = of_nat new_offset in
             case pending_source entry of
               Some source \<Rightarrow>
                 (let (s, tfd1) = pak_copy_pending_source env fs source entry tfd in (s, off, ffd, tfd1))
             | None \<Rightarrow>
                 (case pending_data entry of
                    Some data \<Rightarrow>
                      (let (ok, tfd1) = (if data \<noteq> [] then fwrite_all tfd data else (True, tfd))
                       in (if ok then PAKKA_OK else PAKKA_ERR_IO, off, ffd, tfd1))
                  | None \<Rightarrow>
                      (let (sought, ffd1) = fseek_set ffd (unat (offset entry));
                           extent = unat (pak_entry_on_disk_extent entry)
                       in if \<not> sought then (PAKKA_ERR_IO, off, ffd1, tfd)
                          else if extent = 0 then (PAKKA_OK, off, ffd1, tfd)
                          else if e_oom env (A_copy_chunk i) then (PAKKA_ERR_NOMEM, off, ffd1, tfd)
                          else (let (s, ffd2, tfd1) = copy_chunks ffd1 tfd extent
                                in (s, off, ffd2, tfd1))))))"

section \<open>Shared payloads\<close>

datatype pak_dedup_key = Dedup_key (k_offset: u32) (k_extent: u32) (k_idx: nat)

text \<open>\<open>qsort\<close> with \<open>pak_dedup_key_cmp\<close>: by offset, extent and place in the list.\<close>

fun pak_dedup_key_cmp :: "pak_dedup_key \<Rightarrow> pak_dedup_key \<Rightarrow> int" where
  "pak_dedup_key_cmp (Dedup_key o1 e1 i1) (Dedup_key o2 e2 i2) =
     (if o1 \<noteq> o2 then (if o1 < o2 then -1 else 1)
      else if e1 \<noteq> e2 then (if e1 < e2 then -1 else 1)
      else if i1 \<noteq> i2 then (if i1 < i2 then -1 else 1)
      else 0)"

instantiation pak_dedup_key :: linorder
begin

definition less_eq_pak_dedup_key :: "pak_dedup_key \<Rightarrow> pak_dedup_key \<Rightarrow> bool" where
  "less_eq_pak_dedup_key a b \<longleftrightarrow> pak_dedup_key_cmp a b \<le> 0"

definition less_pak_dedup_key :: "pak_dedup_key \<Rightarrow> pak_dedup_key \<Rightarrow> bool" where
  "less_pak_dedup_key a b \<longleftrightarrow> pak_dedup_key_cmp a b < 0"

instance
proof
  fix a b c :: pak_dedup_key
  show "(a < b) = (a \<le> b \<and> \<not> b \<le> a)"
    by (cases a; cases b) (auto simp: less_eq_pak_dedup_key_def less_pak_dedup_key_def)
  show "a \<le> a" by (cases a) (simp add: less_eq_pak_dedup_key_def)
  show "a \<le> b \<Longrightarrow> b \<le> c \<Longrightarrow> a \<le> c"
    by (cases a; cases b; cases c) (auto simp: less_eq_pak_dedup_key_def split: if_splits)
  show "a \<le> b \<Longrightarrow> b \<le> a \<Longrightarrow> a = b"
    by (cases a; cases b) (auto simp: less_eq_pak_dedup_key_def split: if_splits)
  show "a \<le> b \<or> b \<le> a"
    by (cases a; cases b) (auto simp: less_eq_pak_dedup_key_def split: if_splits)
qed

end

text \<open>Only entries on disk take part.\<close>

definition dedup_keys :: "pentry list \<Rightarrow> pak_dedup_key list" where
  "dedup_keys es =
     map (\<lambda>(i, e). Dedup_key (offset e) (pak_entry_on_disk_extent e) i)
       (filter (\<lambda>(i, e). pending_source e = None \<and> pending_data e = None) (enumerate 0 es))"

fun dedup_scan :: "pak_dedup_key list \<Rightarrow> nat list \<Rightarrow> nat list" where
  "dedup_scan (k1 # k2 # ks) owner =
     dedup_scan (k2 # ks)
       (if k_offset k2 = k_offset k1 \<and> k_extent k2 = k_extent k1
        then owner[k_idx k2 := owner ! k_idx k1] else owner)"
| "dedup_scan _ owner = owner"

definition dedup_owner :: "env \<Rightarrow> pentry list \<Rightarrow> nat list option" where
  "dedup_owner env es =
     (if es = [] \<or> e_oom env A_dedup then None
      else Some (dedup_scan (sort (dedup_keys es)) [0..<length es]))"

section \<open>The copy loop\<close>

text \<open>\<open>offs\<close> are the offsets assigned so far, one for every entry before \<open>i\<close>.\<close>

fun rebuild_copy ::
  "env \<Rightarrow> files \<Rightarrow> nat list option \<Rightarrow> nat \<Rightarrow> pentry list \<Rightarrow> cfile \<Rightarrow> cfile \<Rightarrow> u32 list
    \<Rightarrow> status \<times> u32 list \<times> cfile \<times> cfile" where
  "rebuild_copy env fs owner i [] ffd tfd offs = (PAKKA_OK, offs, ffd, tfd)"
| "rebuild_copy env fs owner i (entry # rest) ffd tfd offs =
     (if owner \<noteq> None \<and> the owner ! i \<noteq> i
      then rebuild_copy env fs owner (i + 1) rest ffd tfd (offs @ [offs ! (the owner ! i)])
      else
        (let (s, off, ffd1, tfd1) = copy_between_paks env fs i entry ffd tfd in
         if s \<noteq> PAKKA_OK then (s, offs, ffd1, tfd1)
         else rebuild_copy env fs owner (i + 1) rest ffd1 tfd1 (offs @ [off])))"

section \<open>Rebuild\<close>

definition set_offsets :: "pentry list \<Rightarrow> u32 list \<Rightarrow> pentry list" where
  "set_offsets es offs = map2 (\<lambda>e off. e\<lparr>offset := off\<rparr>) es offs"

text \<open>What the error paths put back from the saved values.\<close>

definition rollback :: "archive \<Rightarrow> u32 list \<Rightarrow> u64 \<Rightarrow> u32 \<Rightarrow> u32 \<Rightarrow> archive" where
  "rollback a old_offsets old_payload_end old_diroffset old_dirlength =
     a\<lparr>entries := set_offsets (entries a) old_offsets, payload_end := old_payload_end,
       diroffset := old_diroffset, dirlength := old_dirlength\<rparr>"

definition clear_pending :: "pentry \<Rightarrow> pentry" where
  "clear_pending e = e\<lparr>pending_source := None, pending_data := None\<rparr>"

text \<open>\<open>fclose(tfd)\<close> and the removal of the scratch file.\<close>

definition drop_scratch :: "env \<Rightarrow> files \<Rightarrow> path \<Rightarrow> cfile \<Rightarrow> files" where
  "drop_scratch env fs scratch tfd =
     pakka_platform_remove env (snd (publish env fs scratch tfd)) scratch"

text \<open>From the closed scratch file on: close the original, rename, reopen.\<close>

definition rebuild_rename ::
  "env \<Rightarrow> files \<Rightarrow> archive \<Rightarrow> (archive \<Rightarrow> archive) \<Rightarrow> cfile \<Rightarrow> path \<Rightarrow> path \<Rightarrow> status \<times> archive \<times> files" where
  "rebuild_rename env fs a undo ffd scratch target =
     (let fs1 = snd (publish env fs target ffd);
          a1 = a\<lparr>fp := None\<rparr>;
          (renamed, fs2) = (if e_fault env Fault_commit_rename then (False, fs1)
                            else pakka_platform_rename_replace env fs1 scratch target)
      in if \<not> renamed then
           (let fs3 = pakka_platform_remove env fs2 scratch
            in (PAKKA_ERR_IO, (undo a1)\<lparr>fp := pakka_platform_fopen env fs3 target True\<rparr>, fs3))
         else case pakka_platform_fopen env fs2 target True of
             None \<Rightarrow> (PAKKA_ERR_IO, a1, fs2)
           | Some f \<Rightarrow>
               (PAKKA_OK, a1\<lparr>fp := Some f, entries := map clear_pending (entries a1),
                             dirty := False, needs_rebuild := False\<rparr>, fs2))"

text \<open>From the copied payloads on: install the new offsets, write the directory, close.\<close>

definition rebuild_publish ::
  "env \<Rightarrow> files \<Rightarrow> archive \<Rightarrow> cfile \<Rightarrow> path \<Rightarrow> path \<Rightarrow> u32 list \<Rightarrow> nat \<Rightarrow> cfile \<Rightarrow> status \<times> archive \<times> files" where
  "rebuild_publish env fs a ffd scratch target new_offsets rebuilt_payload_end tfd =
     (if entries a \<noteq> [] \<and> e_oom env A_rollback
      then (PAKKA_ERR_NOMEM, a\<lparr>fp := Some ffd\<rparr>, drop_scratch env fs scratch tfd)
      else
        (let undo = (\<lambda>x. rollback x (map offset (entries a)) (payload_end a) (diroffset a) (dirlength a));
             a1 = a\<lparr>entries := set_offsets (entries a) new_offsets,
                    payload_end := of_nat rebuilt_payload_end, fp := Some ffd\<rparr>;
             (s, a2, tfd1) = write_pak_directory (e_fault env Fault_dir_header) a1 tfd
         in if s \<noteq> PAKKA_OK then (s, undo a2, drop_scratch env fs scratch tfd1)
            else
              (let (closed, fs1) = publish env fs scratch tfd1 in
               if \<not> closed then (PAKKA_ERR_IO, undo a2, pakka_platform_remove env fs1 scratch)
               else rebuild_rename env fs1 a2 undo ffd scratch target)))"

definition pak_path :: "archive \<Rightarrow> path" where
  "pak_path a = (if is_new a then tmp_pakpath a else cur_pakpath a)"

definition pakka_commit_rebuild :: "env \<Rightarrow> files \<Rightarrow> archive \<Rightarrow> cfile \<Rightarrow> status \<times> archive \<times> files" where
  "pakka_commit_rebuild env fs a ffd =
     (let target = pak_path a in
      if entries a \<noteq> [] \<and> e_oom env A_bookkeeping then (PAKKA_ERR_NOMEM, a, fs)
      else case pakka_platform_mkstemp_open env fs target (ascii ''pakkaXXXXXX'') of
        (None, fs1) \<Rightarrow> (PAKKA_ERR_IO, a, fs1)
      | (Some (scratch, tfd), fs1) \<Rightarrow>
          (let (sought, tfd1) = fseek_set tfd PAKFILE_HEADER_SIZE in
           if \<not> sought then (PAKKA_ERR_IO, a, drop_scratch env fs1 scratch tfd1)
           else
             (let (s, new_offsets, ffd1, tfd2) =
                rebuild_copy env fs1 (dedup_owner env (entries a)) 0 (entries a) ffd tfd1 []
              in if s \<noteq> PAKKA_OK
                 then (s, a\<lparr>fp := Some ffd1\<rparr>, drop_scratch env fs1 scratch tfd2)
                 else case ftell tfd2 of
                     None \<Rightarrow> (PAKKA_ERR_IO, a\<lparr>fp := Some ffd1\<rparr>, drop_scratch env fs1 scratch tfd2)
                   | Some rebuilt_payload_end \<Rightarrow>
                       rebuild_publish env fs1 a ffd1 scratch target new_offsets rebuilt_payload_end tfd2)))"

section \<open>Commit\<close>

definition commit_in_place :: "env \<Rightarrow> files \<Rightarrow> archive \<Rightarrow> cfile \<Rightarrow> status \<times> archive \<times> files" where
  "commit_in_place env fs a f =
     (let (s, a1, f1) = write_pak_directory (e_fault env Fault_dir_header) a f; a2 = a1\<lparr>fp := Some f1\<rparr> in
      if s \<noteq> PAKKA_OK then (s, a2, fs)
      else
        (let (flushed, fs1) = publish env fs (pak_path a) f1 in
         if \<not> flushed then (PAKKA_ERR_IO, a2, fs1)
         else (PAKKA_OK, a2\<lparr>file_size := ucast (diroffset a2) + ucast (dirlength a2), dirty := False\<rparr>, fs1)))"

definition pakka_commit ::
  "zip_ops \<Rightarrow> env \<Rightarrow> files \<Rightarrow> archive option \<Rightarrow> status \<times> archive option \<times> files" where
  "pakka_commit Z env fs archive =
     (case archive of
        None \<Rightarrow> (PAKKA_ERR_INVALID_ARGUMENT, None, fs)
      | Some a \<Rightarrow>
          if \<not> dirty a then (PAKKA_OK, archive, fs)
          else (case fp a of
             None \<Rightarrow> (PAKKA_ERR_INVALID_ARGUMENT, archive, fs)
           | Some f \<Rightarrow>
               if \<not> writable a then (PAKKA_ERR_INVALID_ARGUMENT, archive, fs)
               else
                 (let (s, a1, fs1) =
                    (if pakka_format_is_zip (format a) then z_commit Z env fs a
                     else if \<not> needs_rebuild a \<and> \<not> atomic_commit a then commit_in_place env fs a f
                     else pakka_commit_rebuild env fs a f)
                  in (s, Some a1, fs1))))"

end
