(* ===== verification/Pak_Lifecycle.thy ===== *)
theory Pak_Lifecycle
  imports Pak_Commit
begin

text \<open>
  \<open>pakka_open\<close>, \<open>pakka_open_ex\<close>, \<open>pakka_create\<close> and \<open>pakka_close\<close> of \<^verbatim>\<open>src/pakfile.c\<close>. The handle a call frees is
  the result \<open>None\<close>. A mode or format argument outside its enumeration is \<open>None\<close>.
\<close>

section \<open>Opening\<close>

definition opened_handle :: "path \<Rightarrow> open_mode \<Rightarrow> pakka_format \<Rightarrow> archive" where
  "opened_handle path mode hint =
     calloc_archive\<lparr>format_hint := hint, max_decompressed := PK3_DEFAULT_MAX_DECOMPRESSED,
       cur_pakpath := path,
       writable := (mode = PAKKA_OPEN_READ_WRITE \<or> mode = PAKKA_OPEN_READ_WRITE_ATOMIC),
       atomic_commit := (mode = PAKKA_OPEN_READ_WRITE_ATOMIC)\<rparr>"

text \<open>The three loading steps; an error at any of them destroys the handle.\<close>

definition load_archive :: "zip_ops \<Rightarrow> env \<Rightarrow> archive \<Rightarrow> cfile \<Rightarrow> status \<times> archive option" where
  "load_archive Z env pak f =
     (let (s, pak1, f1) = load_pakfile (z_open Z env) pak f in
      if s \<noteq> PAKKA_OK then (s, None)
      else
        (let (s, pak2, f2) =
           (if pakka_format_is_zip (format pak1) then (PAKKA_OK, pak1, f1)
            else load_directory (\<lambda>i. e_oom env (A_row i)) pak1 f1)
         in if s \<noteq> PAKKA_OK then (s, None)
            else
              (let s = validate_no_duplicates (\<lambda>_. e_oom env A_names) pak2 in
               if s \<noteq> PAKKA_OK then (s, None) else (PAKKA_OK, Some (pak2\<lparr>fp := Some f2\<rparr>)))))"

definition pakka_open_ex ::
  "zip_ops \<Rightarrow> env \<Rightarrow> files \<Rightarrow> path option \<Rightarrow> open_mode option \<Rightarrow> pakka_format option \<Rightarrow> status \<times> archive option" where
  "pakka_open_ex Z env fs path mode hint =
     (case path of
        None \<Rightarrow> (PAKKA_ERR_INVALID_ARGUMENT, None)
      | Some path \<Rightarrow>
          (case (mode, hint) of
             (Some mode, Some hint) \<Rightarrow>
               if e_oom env A_archive then (PAKKA_ERR_NOMEM, None)
               else if length path \<ge> OS_PATH_MAX then (PAKKA_ERR_LIMIT, None)
               else
                 (let pak = opened_handle path mode hint in
                  case pakka_platform_fopen env fs path (writable pak) of
                    None \<Rightarrow> (PAKKA_ERR_IO, None)
                  | Some f \<Rightarrow>
                      (case (if writable pak then pakka_platform_try_exclusive_lock env path f else Some f) of
                         None \<Rightarrow> (PAKKA_ERR_IO, None)
                       | Some f1 \<Rightarrow> load_archive Z env pak f1))
           | _ \<Rightarrow> (PAKKA_ERR_INVALID_ARGUMENT, None)))"

definition pakka_open ::
  "zip_ops \<Rightarrow> env \<Rightarrow> files \<Rightarrow> path option \<Rightarrow> open_mode option \<Rightarrow> status \<times> archive option" where
  "pakka_open Z env fs path mode = pakka_open_ex Z env fs path mode (Some PAKKA_FORMAT_AUTO)"

section \<open>Creating\<close>

definition created_format :: "pakka_format \<Rightarrow> pakka_format" where
  "created_format fmt =
     (if fmt = PAKKA_FORMAT_SIN then PAKKA_FORMAT_SIN
      else if fmt = PAKKA_FORMAT_DAIKATANA then PAKKA_FORMAT_DAIKATANA
      else if fmt = PAKKA_FORMAT_IWAD then PAKKA_FORMAT_IWAD
      else if fmt = PAKKA_FORMAT_PWAD then PAKKA_FORMAT_PWAD
      else PAKKA_FORMAT_PAK)"

definition created_handle :: "path \<Rightarrow> pakka_format \<Rightarrow> archive" where
  "created_handle path fmt =
     (let pak = (if fmt = PAKKA_FORMAT_DAIKATANA
                 then calloc_archive\<lparr>max_decompressed := PK3_DEFAULT_MAX_DECOMPRESSED\<rparr> else calloc_archive)
      in pak\<lparr>is_new := True, writable := True, new_pakpath := path\<rparr>)"

text \<open>From the scratch file on; \<open>destroy_pak\<close> closes the stream and leaves the scratch file.\<close>

definition create_in_scratch ::
  "zip_ops \<Rightarrow> env \<Rightarrow> files \<Rightarrow> pakka_format \<Rightarrow> archive \<Rightarrow> cfile \<Rightarrow> status \<times> archive option \<times> files" where
  "create_in_scratch Z env fs fmt pak f =
     (if pakka_format_is_zip fmt then
        (let (s, pak1, fs1) = z_create Z env fs (pak\<lparr>format := fmt, fp := Some f\<rparr>) in
         if s \<noteq> PAKKA_OK then
           (s, None, case fp pak1 of None \<Rightarrow> fs1 | Some f1 \<Rightarrow> snd (publish env fs1 (tmp_pakpath pak1) f1))
         else (PAKKA_OK, Some pak1, fs1))
      else
        (let pak1 = init_pak_header (pak\<lparr>format := created_format fmt\<rparr>);
             (hs, f1) = write_pak_header pak1 f
         in if hs \<noteq> PAKKA_OK then (hs, None, snd (publish env fs (tmp_pakpath pak1) f1))
            else (PAKKA_OK, Some (pak1\<lparr>fp := Some f1\<rparr>), fs)))"

definition pakka_create ::
  "zip_ops \<Rightarrow> env \<Rightarrow> files \<Rightarrow> path option \<Rightarrow> pakka_format option \<Rightarrow> u32 \<Rightarrow> status \<times> archive option \<times> files" where
  "pakka_create Z env fs path fmt flags =
     (case path of
        None \<Rightarrow> (PAKKA_ERR_INVALID_ARGUMENT, None, fs)
      | Some path \<Rightarrow>
          if flags \<noteq> 0 then (PAKKA_ERR_INVALID_ARGUMENT, None, fs)
          else (case fmt of
             None \<Rightarrow> (PAKKA_ERR_INVALID_ARGUMENT, None, fs)
           | Some fmt \<Rightarrow>
               if e_oom env A_archive then (PAKKA_ERR_NOMEM, None, fs)
               else if length path \<ge> OS_PATH_MAX then (PAKKA_ERR_LIMIT, None, fs)
               else if pakka_platform_stat env fs path then (PAKKA_ERR_EXISTS, None, fs)
               else (case pakka_platform_mkstemp_open env fs path (ascii ''pakkaXXXXXX'') of
                   (None, fs1) \<Rightarrow> (PAKKA_ERR_IO, None, fs1)
                 | (Some (tmp, f), fs1) \<Rightarrow>
                     create_in_scratch Z env fs1 fmt ((created_handle path fmt)\<lparr>tmp_pakpath := tmp\<rparr>) f)))"

section \<open>Closing\<close>

text \<open>The implicit commit, the closing of the stream, and the publication of a new archive.\<close>

definition pakka_close :: "zip_ops \<Rightarrow> env \<Rightarrow> files \<Rightarrow> archive option \<Rightarrow> status \<times> files" where
  "pakka_close Z env fs archive =
     (case archive of
        None \<Rightarrow> (PAKKA_ERR_INVALID_ARGUMENT, fs)
      | Some a \<Rightarrow>
          (let (s, archive1, fs1) =
             (if dirty a then pakka_commit Z env fs archive else (PAKKA_OK, archive, fs));
               a1 = the archive1;
               (closed, fs2) =
                 (case fp a1 of
                    None \<Rightarrow> (True, fs1)
                  | Some f \<Rightarrow> if writable a1 then publish env fs1 (pak_path a1) f else (f_close_ok f, fs1))
           in if is_new a1 \<and> s = PAKKA_OK then
                (if \<not> closed then (PAKKA_ERR_IO, fs2)
                 else (case pakka_platform_rename_noreplace env fs2 (tmp_pakpath a1) (new_pakpath a1) of
                     (Rename_ok, fs3) \<Rightarrow> (PAKKA_OK, fs3)
                   | (Rename_exists, fs3) \<Rightarrow> (PAKKA_ERR_EXISTS, fs3)
                   | (Rename_failed, fs3) \<Rightarrow> (PAKKA_ERR_IO, fs3)))
              else (s, fs2)))"

end
