(* ===== verification/Archive_State.thy ===== *)
theory Archive_State
  imports Archive_Add
begin

text \<open>
  The invariant of an open PAK-class archive, what its entries contain, and what the operations on the
  entry list do to both. The contents of an entry are the bytes a reader of the archive gets: staged
  bytes, bytes of the staged source, or bytes of the archive file, decoded if Daikatana compressed them.
  The entry list is a keyed store; its laws are the interface the operations are reasoned about with.
\<close>

section \<open>Keyed stores\<close>

locale keyed_store =
  fixes key :: "'v \<Rightarrow> 'k"
    and look :: "'d \<Rightarrow> 'k \<Rightarrow> 'v option"
    and add :: "'d \<Rightarrow> 'v \<Rightarrow> 'd"
    and remove :: "'d \<Rightarrow> 'k \<Rightarrow> 'd option"
    and valid :: "'d \<Rightarrow> bool"
  assumes look_key: "look d k = Some v \<Longrightarrow> key v = k"
    and valid_add: "valid d \<Longrightarrow> look d (key v) = None \<Longrightarrow> valid (add d v)"
    and look_add: "look d (key v) = None \<Longrightarrow> look (add d v) = (look d)(key v \<mapsto> v)"
    and remove_None: "remove d k = None \<longleftrightarrow> look d k = None"
    and valid_remove: "valid d \<Longrightarrow> remove d k = Some d' \<Longrightarrow> valid d'"
    and look_remove: "valid d \<Longrightarrow> remove d k = Some d' \<Longrightarrow> look d' = (look d)(k := None)"
begin

lemma remove_Some: "look d k = Some v \<Longrightarrow> \<exists>d'. remove d k = Some d'"
  using remove_None by (metis option.distinct(1) option.exhaust)

lemma remove_added:
  assumes "valid d" "look d (key v) = None"
  shows "\<exists>d'. remove (add d v) (key v) = Some d' \<and> valid d' \<and> look d' = look d"
proof -
  have l: "look (add d v) = (look d)(key v \<mapsto> v)" by (rule look_add [OF assms(2)])
  then obtain d' where r: "remove (add d v) (key v) = Some d'"
    using remove_Some [of "add d v" "key v" v] by auto
  have va: "valid (add d v)" by (rule valid_add [OF assms])
  from look_remove [OF va r] l assms(2) have "look d' = look d" by (auto simp: fun_eq_iff)
  with r valid_remove [OF va r] show ?thesis by blast
qed

lemma move:
  assumes "valid d" "look d k = Some v" "remove d k = Some d'" "look d (key w) = None"
  shows "valid (add d' w) \<and> look (add d' w) = (look d)(k := None, key w \<mapsto> w)"
proof -
  have "look d' (key w) = None"
    using look_remove [OF assms(1,3)] assms(4) by (simp add: fun_upd_def)
  then show ?thesis
    using look_add valid_add valid_remove [OF assms(1,3)] look_remove [OF assms(1,3)] by simp
qed

end

definition names_distinct :: "pentry list \<Rightarrow> bool" where
  "names_distinct es \<longleftrightarrow> distinct (map filename es)"

lemma find_entry_from_append:
  "find_entry_from (a @ b) n = (case find_entry_from a n of Some e \<Rightarrow> Some e | None \<Rightarrow> find_entry_from b n)"
  by (induction a) auto

lemma find_entry_from_filename: "find_entry_from es n = Some e \<Longrightarrow> filename e = n \<and> e \<in> set es"
  by (induction es) (auto split: if_splits)

interpretation dir: keyed_store filename find_entry_from "\<lambda>es e. es @ [e]" unlink_entry names_distinct
proof
  fix es es' :: "pentry list" and e and n
  show "find_entry_from es n = Some e \<Longrightarrow> filename e = n" by (simp add: find_entry_from_filename)
  show "names_distinct es \<Longrightarrow> find_entry_from es (filename e) = None \<Longrightarrow> names_distinct (es @ [e])"
    by (auto simp: names_distinct_def find_entry_from_None)
  show "find_entry_from es (filename e) = None \<Longrightarrow>
    find_entry_from (es @ [e]) = (find_entry_from es)(filename e \<mapsto> e)"
    by (auto simp: find_entry_from_append fun_eq_iff split: option.splits)
  show "(unlink_entry es n = None) = (find_entry_from es n = None)"
    by (simp add: unlink_entry_None find_entry_from_None)
  assume d: "names_distinct es" and u: "unlink_entry es n = Some es'"
  from unlink_entry_split [OF u] obtain a e b where
    s: "es = a @ e # b" "es' = a @ b" "filename e = n" "n \<notin> filename ` set a" by blast
  show "names_distinct es'" using d s by (auto simp: names_distinct_def)
  have "n \<notin> filename ` set b" using d s by (auto simp: names_distinct_def)
  then have "find_entry_from a n = None" "find_entry_from b n = None"
    using s by (simp_all add: find_entry_from_None)
  then show "find_entry_from es' = (find_entry_from es)(n := None)"
    using s by (auto simp: find_entry_from_append fun_eq_iff split: option.splits)
qed

section \<open>Contents\<close>

definition stored_bytes :: "files \<Rightarrow> cfile \<Rightarrow> pentry \<Rightarrow> u8 list" where
  "stored_bytes fs f e =
     (case pending_source e of
        Some source \<Rightarrow> file_bytes fs source
      | None \<Rightarrow> (case pending_data e of Some d \<Rightarrow> d | None \<Rightarrow> payload_bytes f e))"

definition entry_content :: "files \<Rightarrow> cfile \<Rightarrow> pentry \<Rightarrow> u8 list option" where
  "entry_content fs f e =
     (if dk_is_compressed e then
        (case dk_run (stored_bytes fs f e) [] of
           Some b \<Rightarrow> if length b = unat (entry_length e) then Some b else None
         | None \<Rightarrow> None)
      else Some (stored_bytes fs f e))"

text \<open>What a client sees of the archive: the names in order, each with its contents.\<close>

definition listing :: "files \<Rightarrow> cfile \<Rightarrow> archive \<Rightarrow> (cstring \<times> u8 list option) list" where
  "listing fs f a = map (\<lambda>e. (filename e, entry_content fs f e)) (entries a)"

section \<open>The invariant\<close>

definition staged_wf :: "pentry \<Rightarrow> bool" where
  "staged_wf e \<longleftrightarrow> offset e = 0 \<and> (pending_source e = None \<or> pending_data e = None)
     \<and> (pending_source e \<noteq> None \<longrightarrow> \<not> dk_is_compressed e)
     \<and> (\<forall>d. pending_data e = Some d \<longrightarrow> length d = unat (pak_entry_on_disk_extent e))"

definition disk_wf :: "pakka_format \<Rightarrow> nat \<Rightarrow> pentry \<Rightarrow> bool" where
  "disk_wf fmt pend e \<longleftrightarrow> (12 \<le> unat (offset e) \<or> pakka_format_is_wad fmt \<and> entry_length e = 0)
     \<and> entry_end e \<le> pend"

definition entry_wf :: "pakka_format \<Rightarrow> nat \<Rightarrow> pentry \<Rightarrow> bool" where
  "entry_wf fmt pend e \<longleftrightarrow> (\<exists>g. pakka_pak_geometry fmt = Some g \<and> name_fits g e)
     \<and> (dk_is_compressed e \<longrightarrow> fmt = PAKKA_FORMAT_DAIKATANA)
     \<and> (if is_staged e then staged_wf e else disk_wf fmt pend e)"

definition archive_wf :: "archive \<Rightarrow> bool" where
  "archive_wf a \<longleftrightarrow>
     (\<exists>g. pakka_pak_geometry (format a) = Some g \<and> signature a = g_signature g)
     \<and> unat (num_entries a) = length (entries a) \<and> 12 \<le> pe a \<and> pe a < 2 ^ 33
     \<and> (\<forall>e \<in> set (entries a). entry_wf (format a) (pe a) e)
     \<and> (\<not> pakka_format_is_wad (format a) \<longrightarrow> names_distinct (entries a))
     \<and> ((\<exists>e \<in> set (entries a). is_staged e) \<longrightarrow> dirty a \<and> needs_rebuild a)
     \<and> (\<forall>f. fp a = Some f \<longrightarrow> pe a \<le> length (f_data f))"

lemma archive_wf_geometry:
  assumes "archive_wf a"
  obtains g where "pakka_pak_geometry (format a) = Some g" "signature a = g_signature g"
    "\<not> pakka_format_is_zip (format a)"
  using assms geometry_facts(6) unfolding archive_wf_def by blast

lemma archive_wf_writable_dir: "archive_wf a \<Longrightarrow> writable_dir a"
  unfolding archive_wf_def writable_dir_def using geometry_facts(3) by auto

lemma entry_wf_mono: "entry_wf fmt p e \<Longrightarrow> p \<le> q \<Longrightarrow> entry_wf fmt q e"
  by (auto simp: entry_wf_def disk_wf_def split: if_splits)

lemma renamed_simps [simp]:
  "is_staged (e\<lparr>filename := n\<rparr>) = is_staged e" "staged_wf (e\<lparr>filename := n\<rparr>) = staged_wf e"
  "disk_wf fmt p (e\<lparr>filename := n\<rparr>) = disk_wf fmt p e" "stored_bytes fs f (e\<lparr>filename := n\<rparr>) = stored_bytes fs f e"
  "entry_content fs f (e\<lparr>filename := n\<rparr>) = entry_content fs f e"
  by (simp_all add: is_staged_def staged_wf_def disk_wf_def entry_end_def pak_entry_on_disk_extent_def
      stored_bytes_def payload_bytes_def entry_content_def cong: option.case_cong if_cong)

lemma entry_wf_rename:
  assumes "entry_wf fmt p e" "c_string n" "\<And>g. pakka_pak_geometry fmt = Some g \<Longrightarrow> length n \<le> name_field_len g"
  shows "entry_wf fmt p (e\<lparr>filename := n\<rparr>)"
  using assms by (auto simp: entry_wf_def name_fits_def)

text \<open>What the preflight of a new name promises.\<close>

lemma preflight_OK:
  assumes "pak_add_preflight a n = PAKKA_OK" "pakka_pak_geometry (format a) = Some g"
  shows "length n \<le> name_field_len g" "pakka_unsafe_entry_name (Some n) = Ok False"
    "\<not> pakka_format_is_wad (format a) \<longrightarrow> find_entry a n = None"
  using assms geometry_facts(6) [OF assms(2)]
  by (auto simp: pak_add_preflight_def pak_entry_name_cap_def Let_def split: if_splits)

section \<open>Delete, rename, copy\<close>

text \<open>\<open>listing\<close> is made of the entries alone, so it follows them.\<close>

lemma listing_entries: "entries a = es \<Longrightarrow> listing fs f a = map (\<lambda>e. (filename e, entry_content fs f e)) es"
  by (simp add: listing_def)

lemma entry_content_cong:
  "stored_bytes fs f d = stored_bytes gs g e \<Longrightarrow> dk_is_compressed d = dk_is_compressed e \<Longrightarrow>
   entry_length d = entry_length e \<Longrightarrow> entry_content fs f d = entry_content gs g e"
  by (simp add: entry_content_def cong: option.case_cong)

lemma unat_dec: "unat (w :: u32) = Suc n \<Longrightarrow> unat (w - 1) = n"
  by (simp add: unat_sub word_le_nat_alt)

lemma unat_inc: "unat (w :: u32) = n \<Longrightarrow> Suc n < 2 ^ 32 \<Longrightarrow> unat (w + 1) = Suc n"
  by (simp add: unat_word_ariths)

lemma delete_effect:
  assumes wf: "archive_wf a" and r: "pakka_delete (Some a) (Some n) = (s, Some a')"
  shows "archive_wf a' \<and>
    (if s = PAKKA_OK then
       (\<exists>xs v ys. listing fs f a = xs @ (n, v) # ys \<and> listing fs f a' = xs @ ys \<and> n \<notin> fst ` set xs)
       \<and> (\<not> pakka_format_is_wad (format a) \<longrightarrow> find_entry a' = (find_entry a)(n := None))
       \<and> dirty a' \<and> needs_rebuild a' \<and> fp a' = fp a
     else a' = a \<and> (s = PAKKA_ERR_NOT_FOUND \<and> find_entry a n = None
                     \<or> s = PAKKA_ERR_INVALID_ARGUMENT \<and> (\<not> writable a \<or> fp a = None)))"
proof (cases "s = PAKKA_OK")
  case False
  with r show ?thesis
    using wf by (auto simp: pakka_delete_def unlink_entry_None find_entry_None split: if_splits option.splits)
next
  case True
  with r obtain es where u: "unlink_entry (entries a) n = Some es"
    and a': "a' = a\<lparr>entries := es, num_entries := num_entries a - 1, dirty := True, needs_rebuild := True\<rparr>"
    by (auto simp: pakka_delete_def split: if_splits option.splits)
  from unlink_entry_split [OF u] obtain xs e ys where
    sp: "entries a = xs @ e # ys" "es = xs @ ys" "filename e = n" "n \<notin> filename ` set xs" by blast
  have k: "find_entry a' = (find_entry a)(n := None)" if "\<not> pakka_format_is_wad (format a)"
    using dir.look_remove [OF _ u] wf that by (simp add: a' archive_wf_def find_entry_def [abs_def])
  have d: "\<not> pakka_format_is_wad (format a) \<Longrightarrow> names_distinct es"
    using dir.valid_remove [OF _ u] wf by (simp add: archive_wf_def)
  have "unat (num_entries a - 1) = length es"
    using wf sp by (intro unat_dec) (simp add: archive_wf_def)
  then have w: "archive_wf a'"
    using wf d sp unfolding archive_wf_def a' by (auto simp: pe_def)
  have "\<exists>xs v ys. listing fs f a = xs @ (n, v) # ys \<and> listing fs f a' = xs @ ys \<and> n \<notin> fst ` set xs"
    using sp by (auto simp: listing_def a' image_def intro!: exI [of _ "map (\<lambda>e. (filename e, entry_content fs f e)) xs"])
  with True w k show ?thesis by (simp add: a')
qed

text \<open>C10: deleting removes the first entry of the name and nothing else, on every branch: the entries
  before and after it keep their order and contents, the name is gone (for the formats whose names are
  unique), the archive is marked for a rebuild, and the invariant survives. A missing name or a handle
  that cannot be written changes nothing.\<close>

theorem delete_spec:
  assumes wf: "archive_wf a" and r: "pakka_delete (Some a) (Some n) = (s, Some a')"
  shows "archive_wf a' \<and>
    (if s = PAKKA_OK then
       (\<exists>xs v ys. listing fs f a = xs @ (n, v) # ys \<and> listing fs f a' = xs @ ys \<and> n \<notin> fst ` set xs)
       \<and> (\<not> pakka_format_is_wad (format a) \<longrightarrow> find_entry a' = (find_entry a)(n := None))
       \<and> dirty a' \<and> needs_rebuild a' \<and> fp a' = fp a
     else a' = a \<and> (s = PAKKA_ERR_NOT_FOUND \<and> find_entry a n = None
                     \<or> s = PAKKA_ERR_INVALID_ARGUMENT \<and> (\<not> writable a \<or> fp a = None)))"
  by (rule delete_effect [OF assms])

lemma rename_effect:
  assumes wf: "archive_wf a" and r: "pakka_rename (Some a) (Some old) (Some new) = (s, Some a')"
    and cs: "c_string new"
  shows "archive_wf a' \<and>
    (if s = PAKKA_OK then
       (\<exists>xs v ys. listing fs f a = xs @ (old, v) # ys \<and> listing fs f a' = xs @ (new, v) # ys
         \<and> old \<notin> fst ` set xs)
       \<and> (old \<noteq> new \<longrightarrow> pakka_unsafe_entry_name (Some new) = Ok False \<and> dirty a'
           \<and> (\<not> pakka_format_is_wad (format a) \<longrightarrow> find_entry a new = None))
       \<and> needs_rebuild a' = needs_rebuild a \<and> fp a' = fp a
     else a' = a)"
proof (cases "s = PAKKA_OK")
  case False
  with r show ?thesis
    using wf by (auto simp: pakka_rename_def Let_def split: if_splits)
next
  case True
  obtain g where g: "pakka_pak_geometry (format a) = Some g" "\<not> pakka_format_is_zip (format a)"
    by (rule archive_wf_geometry [OF wf]) blast
  have m: "old \<in> filename ` set (entries a)"
    using r True by (auto simp: pakka_rename_def Let_def find_entry_None split: if_splits)
  from update_entry_split [OF m, of "\<lambda>e. e\<lparr>filename := new\<rparr>"] obtain xs e ys where
    sp: "entries a = xs @ e # ys" "filename e = old" "old \<notin> filename ` set xs"
    "update_entry (entries a) old (\<lambda>e. e\<lparr>filename := new\<rparr>) = xs @ e\<lparr>filename := new\<rparr> # ys" by blast
  let ?l = "map (\<lambda>e. (filename e, entry_content fs f e))"
  have l: "listing fs f a = ?l xs @ (old, entry_content fs f e) # ?l ys" "old \<notin> fst ` set (?l xs)"
    using sp by (auto simp: listing_def)
  show ?thesis
  proof (cases "old = new")
    case True
    then have "a' = a" using r \<open>s = PAKKA_OK\<close> by (auto simp: pakka_rename_def split: if_splits)
    moreover have "\<exists>xs v ys. listing fs f a = xs @ (old, v) # ys \<and> listing fs f a = xs @ (new, v) # ys
        \<and> old \<notin> fst ` set xs"
      using l True by blast
    ultimately show ?thesis using wf True \<open>s = PAKKA_OK\<close> by simp
  next
    case False
    then have pre: "pak_add_preflight a new = PAKKA_OK"
      and a': "a' = a\<lparr>entries := xs @ e\<lparr>filename := new\<rparr> # ys, dirty := True\<rparr>"
      using r True sp(4) g(2) by (auto simp: pakka_rename_def Let_def split: if_splits)
    note p = preflight_OK [OF pre g(1)]
    have "entry_wf (format a) (pe a) (e\<lparr>filename := new\<rparr>)"
      using wf sp(1) p(1) g(1) cs by (intro entry_wf_rename) (auto simp: archive_wf_def)
    moreover have "names_distinct (xs @ e\<lparr>filename := new\<rparr> # ys)" if "\<not> pakka_format_is_wad (format a)"
      using wf p(3) that sp(1) by (auto simp: archive_wf_def names_distinct_def find_entry_None)
    ultimately have "archive_wf a'"
      using wf sp(1) unfolding archive_wf_def a' by (auto simp: pe_def)
    moreover have "listing fs f a' = ?l xs @ (new, entry_content fs f e) # ?l ys"
      by (simp add: listing_def a')
    ultimately have "\<exists>xs v ys. listing fs f a = xs @ (old, v) # ys \<and> listing fs f a' = xs @ (new, v) # ys
        \<and> old \<notin> fst ` set xs"
      using l by blast
    with \<open>archive_wf a'\<close> True p show ?thesis by (simp add: a')
  qed
qed

text \<open>Renaming gives the first entry of the old name the new one and keeps its place and contents,
  on every branch. The new name passed the checks an add makes: it fits its field, is safe to extract
  and, for the formats whose names are unique, was free. The invariant survives, and no error changes
  the archive.\<close>

theorem rename_spec:
  assumes wf: "archive_wf a" and r: "pakka_rename (Some a) (Some old) (Some new) = (s, Some a')"
    and cs: "c_string new"
  shows "archive_wf a' \<and>
    (if s = PAKKA_OK then
       (\<exists>xs v ys. listing fs f a = xs @ (old, v) # ys \<and> listing fs f a' = xs @ (new, v) # ys
         \<and> old \<notin> fst ` set xs)
       \<and> (old \<noteq> new \<longrightarrow> pakka_unsafe_entry_name (Some new) = Ok False \<and> dirty a'
           \<and> (\<not> pakka_format_is_wad (format a) \<longrightarrow> find_entry a new = None))
       \<and> needs_rebuild a' = needs_rebuild a \<and> fp a' = fp a
     else a' = a)"
  by (rule rename_effect [OF assms])

lemma copy_effect:
  assumes wf: "archive_wf a" and r: "pakka_copy oom (Some a) (Some src) (Some dst) = (s, Some a')"
    and cs: "c_string dst" and sz: "Suc (length (entries a)) < 2 ^ 32"
  shows "archive_wf a' \<and>
    (if s = PAKKA_OK then
       (\<exists>e. find_entry a src = Some e \<and> listing fs f a' = listing fs f a @ [(dst, entry_content fs f e)]
         \<and> needs_rebuild a' = (needs_rebuild a \<or> is_staged e))
       \<and> pakka_unsafe_entry_name (Some dst) = Ok False \<and> dirty a' \<and> fp a' = fp a
       \<and> (\<not> pakka_format_is_wad (format a) \<longrightarrow> find_entry a dst = None)
     else a' = a)"
proof (cases "s = PAKKA_OK")
  case False
  with r show ?thesis
    using wf by (auto simp: pakka_copy_def Let_def split: if_splits option.splits)
next
  case True
  obtain g where g: "pakka_pak_geometry (format a) = Some g" "\<not> pakka_format_is_zip (format a)"
    by (rule archive_wf_geometry [OF wf]) blast
  from r True obtain e where e: "find_entry a src = Some e" and pre: "pak_add_preflight a dst = PAKKA_OK"
    by (auto simp: pakka_copy_def Let_def split: if_splits option.splits)
  note p = preflight_OK [OF pre g(1)]
  have ein: "e \<in> set (entries a)" using e find_entry_from_filename by (auto simp: find_entry_def)
  then have ew: "entry_wf (format a) (pe a) e" using wf by (simp add: archive_wf_def)
  define d where "d = (calloc_entry\<lparr>filename := dst, entry_length := entry_length e, crc32 := crc32 e,
      dk_compressed_size := dk_compressed_size e, dk_is_compressed := dk_is_compressed e,
      pk3_compressed_size := pk3_compressed_size e, pk3_payload_offset := pk3_payload_offset e,
      pk3_lfh_offset := pk3_lfh_offset e, pk3_method := pk3_method e,
      offset := (if is_staged e then 0 else offset e),
      pending_data := pending_data e, pending_source := (if pending_data e = None then pending_source e else None)\<rparr>)"
  have a': "a' = a\<lparr>entries := entries a @ [d], num_entries := num_entries a + 1, dirty := True,
      needs_rebuild := needs_rebuild a \<or> is_staged e\<rparr>"
    using r True e pre g(2)
    by (cases "pending_data e"; cases "pending_source e")
      (auto simp: pakka_copy_def Let_def pak_link_copy_entry_def d_def is_staged_def calloc_entry_def split: if_splits)
  have st: "is_staged d = is_staged e" by (auto simp: d_def is_staged_def)
  have df: "filename d = dst" "dk_is_compressed d = dk_is_compressed e" "entry_length d = entry_length e"
    "offset d = (if is_staged e then 0 else offset e)" "pending_data d = pending_data e"
    "pending_source d = (if pending_data e = None then pending_source e else None)"
    "pak_entry_on_disk_extent d = pak_entry_on_disk_extent e"
    by (simp_all add: d_def pak_entry_on_disk_extent_def)
  have one: "pending_source e = None \<or> pending_data e = None"
    using ew by (auto simp: entry_wf_def staged_wf_def is_staged_def split: if_splits)
  have dw: "entry_wf (format a) (pe a) d"
    using ew p(1) cs g(1) one
    by (cases "is_staged e") (auto simp: entry_wf_def name_fits_def st staged_wf_def disk_wf_def entry_end_def df)
  have c: "entry_content fs f d = entry_content fs f e"
    using one by (intro entry_content_cong; cases "pending_source e"; cases "pending_data e")
      (simp_all add: stored_bytes_def payload_bytes_def df is_staged_def)
  have dn: "names_distinct (entries a @ [d])" if "\<not> pakka_format_is_wad (format a)"
    using dir.valid_add [of "entries a" d] wf p(3) that by (simp add: archive_wf_def find_entry_def df)
  have "unat (num_entries a + 1) = Suc (length (entries a))"
    using wf sz by (intro unat_inc) (simp_all add: archive_wf_def)
  then have "archive_wf a'"
    using wf dw dn st ein unfolding archive_wf_def a' by (auto simp: pe_def)
  then show ?thesis
    using True e p c by (auto simp: a' listing_def df)
qed

text \<open>A copy is a new last entry with the contents of its source, whether the source is on disk
  (the two then share the bytes) or staged (the copy owns its own): every other entry is as it was, and
  the invariant survives. Running out of memory, like every other error, changes nothing.\<close>

theorem copy_spec:
  assumes wf: "archive_wf a" and r: "pakka_copy oom (Some a) (Some src) (Some dst) = (s, Some a')"
    and cs: "c_string dst" and sz: "Suc (length (entries a)) < 2 ^ 32"
  shows "archive_wf a' \<and>
    (if s = PAKKA_OK then
       (\<exists>e. find_entry a src = Some e \<and> listing fs f a' = listing fs f a @ [(dst, entry_content fs f e)]
         \<and> needs_rebuild a' = (needs_rebuild a \<or> is_staged e))
       \<and> pakka_unsafe_entry_name (Some dst) = Ok False \<and> dirty a' \<and> fp a' = fp a
       \<and> (\<not> pakka_format_is_wad (format a) \<longrightarrow> find_entry a dst = None)
     else a' = a)"
  by (rule copy_effect [OF assms])

text \<open>A small Quake archive to evaluate the operations on.\<close>

definition sample_pak :: archive where
  "sample_pak = calloc_archive\<lparr>format := PAKKA_FORMAT_PAK, signature := ascii ''PACK'',
     num_entries := 2, payload_end := 17,
     entries := [calloc_entry\<lparr>filename := ascii ''a.cfg'', offset := 12, entry_length := 3\<rparr>,
                 calloc_entry\<lparr>filename := ascii ''b.cfg'', offset := 15, entry_length := 2\<rparr>],
     fp := Some (empty_stream\<lparr>f_data := ascii ''PACK'' @ replicate 8 0 @ [1, 2, 3, 4, 5]\<rparr>),
     writable := True\<rparr>"

lemma sample_pak_wf: "archive_wf sample_pak"
  by (simp add: archive_wf_def sample_pak_def calloc_archive_def calloc_entry_def pe_def entry_wf_def
      name_fits_def c_string_def ascii_def is_staged_def disk_wf_def entry_end_def names_distinct_def
      pak_entry_on_disk_extent_def pakka_format_is_wad_def)

lemmas sample_pak_simps = sample_pak_def calloc_archive_def find_entry_def ascii_def

lemma delete_spec_witness:
  "\<exists>a'. pakka_delete (Some sample_pak) (Some (ascii ''a.cfg'')) = (PAKKA_OK, Some a')
    \<and> archive_wf a' \<and> find_entry a' (ascii ''a.cfg'') = None \<and> needs_rebuild a'"
proof -
  obtain a' where "pakka_delete (Some sample_pak) (Some (ascii ''a.cfg'')) = (PAKKA_OK, Some a')"
    by (simp add: pakka_delete_def sample_pak_simps)
  with delete_spec [OF sample_pak_wf this] show ?thesis
    by (simp add: sample_pak_def pakka_format_is_wad_def)
qed

lemma sample_preflight: "pak_add_preflight sample_pak (ascii ''c.cfg'') = PAKKA_OK"
proof -
  have "pakka_unsafe_entry_name (Some (ascii ''c.cfg'')) = Ok False" by code_simp
  then show ?thesis
    by (simp add: pak_add_preflight_def pak_entry_name_cap_def sample_pak_simps pakka_format_is_zip_def
        pakka_format_is_wad_def)
qed

lemma rename_spec_witness:
  "\<exists>a'. pakka_rename (Some sample_pak) (Some (ascii ''a.cfg'')) (Some (ascii ''c.cfg'')) = (PAKKA_OK, Some a')
    \<and> archive_wf a' \<and> dirty a' \<and> \<not> needs_rebuild a'"
proof -
  have "ascii ''a.cfg'' \<noteq> ascii ''c.cfg''" "find_entry sample_pak (ascii ''a.cfg'') \<noteq> None"
    "writable sample_pak" "fp sample_pak \<noteq> None" "\<not> pakka_format_is_zip (format sample_pak)"
    by (simp_all add: sample_pak_simps pakka_format_is_zip_def)
  with sample_preflight obtain a' where
    r: "pakka_rename (Some sample_pak) (Some (ascii ''a.cfg'')) (Some (ascii ''c.cfg'')) = (PAKKA_OK, Some a')"
    by (simp add: pakka_rename_def)
  have "c_string (ascii ''c.cfg'')" by (simp add: c_string_def ascii_def)
  from rename_spec [OF sample_pak_wf r this] r show ?thesis by (simp add: sample_pak_simps)
qed

lemma copy_spec_witness:
  "\<exists>a'. pakka_copy (\<lambda>_. False) (Some sample_pak) (Some (ascii ''a.cfg'')) (Some (ascii ''c.cfg''))
      = (PAKKA_OK, Some a') \<and> archive_wf a' \<and> dirty a' \<and> \<not> needs_rebuild a'"
proof -
  obtain e where e: "find_entry sample_pak (ascii ''a.cfg'') = Some e" "\<not> is_staged e"
    by (simp add: sample_pak_simps is_staged_def calloc_entry_def)
  moreover have "writable sample_pak" "fp sample_pak \<noteq> None"
    by (simp_all add: sample_pak_simps)
  ultimately obtain a' where
    r: "pakka_copy (\<lambda>_. False) (Some sample_pak) (Some (ascii ''a.cfg'')) (Some (ascii ''c.cfg'')) = (PAKKA_OK, Some a')"
    using sample_preflight by (simp add: pakka_copy_def Let_def is_staged_def)
  have "c_string (ascii ''c.cfg'')" "Suc (length (entries sample_pak)) < 2 ^ 32" "\<not> needs_rebuild sample_pak"
    by (simp_all add: c_string_def ascii_def sample_pak_def calloc_archive_def)
  with copy_spec [OF sample_pak_wf r] r e show ?thesis by auto
qed

end
