(* ===== verification/Add_Props.thy ===== *)
theory Add_Props
  imports Archive_State
begin

text \<open>
  What \<open>pakka_add_memory\<close> and \<open>pakka_add_file\<close> do to an archive: the new entry is the last one and
  contains the payload, whatever the encoder made of it; nothing that was there changes, even when the
  write fails half way; and staged adds do not touch the file.
\<close>

section \<open>The encoder's choice\<close>

lemma dk_encode_SomeD:
  assumes "dk_encode env p = Some enc"
  shows "dk_run enc [] = Some p" "length enc < length p" "length enc < 2 ^ 32"
proof -
  let ?w = "dk_worst (length p)"
  obtain n buf where d: "pakka_dk_deflate (Some p) (length p) (Some (replicate ?w 0)) ?w = Ok (n, buf)"
    "n \<le> length buf" "dk_run (take n buf) [] = Some p"
    using pakka_dk_deflate_ok [of "length p" p "replicate ?w 0" ?w] by auto
  with assms have e: "enc = take n buf" "n < length p" "?w \<le> UINT32_MAX"
    by (auto simp: dk_encode_def Let_def split: if_splits)
  then show "dk_run enc [] = Some p" "length enc < length p" using d by simp_all
  have "length p \<le> ?w" by (simp add: dk_worst_def)
  then show "length enc < 2 ^ 32" using e d(2) by (simp add: UINT32_MAX_def)
qed

text \<open>An encoding that may be stored in place of the payload.\<close>

definition encodes :: "archive \<Rightarrow> u8 list option \<Rightarrow> u8 list \<Rightarrow> bool" where
  "encodes a enc p \<longleftrightarrow> (\<forall>b. enc = Some b \<longrightarrow> format a = PAKKA_FORMAT_DAIKATANA
     \<and> dk_run b [] = Some p \<and> length b < 2 ^ 32)"

lemma encodes_dk: "encodes a (if dk_try_compress a n len then dk_encode env p else None) p"
  by (auto simp: encodes_def dk_try_compress_def dest: dk_encode_SomeD split: if_splits)

definition raw_bytes :: "u8 list option \<Rightarrow> u8 list \<Rightarrow> u8 list" where
  "raw_bytes enc p = (case enc of Some b \<Rightarrow> b | None \<Rightarrow> p)"

lemma new_entry_simps [simp]:
  "filename (new_entry n off len enc) = n" "offset (new_entry n off len enc) = off"
  "entry_length (new_entry n off len enc) = of_nat len"
  "dk_is_compressed (new_entry n off len enc) \<longleftrightarrow> enc \<noteq> None"
  "pending_source (new_entry n off len enc) = None" "pending_data (new_entry n off len enc) = None"
  "\<not> is_staged (new_entry n off len enc)"
  by (cases enc; simp add: new_entry_def calloc_entry_def is_staged_def Let_def)+

lemma new_entry_extent:
  assumes "encodes a enc p" "length p < 2 ^ 32"
  shows "unat (pak_entry_on_disk_extent (new_entry n off (length p) enc)) = length (raw_bytes enc p)"
    "unat (physical_size (length p) enc) = length (raw_bytes enc p)"
  using assms by (cases enc; simp add: new_entry_def encodes_def calloc_entry_def pak_entry_on_disk_extent_def
      physical_size_def raw_bytes_def Let_def unat_of_nat_u32)+

lemma content_of_raw:
  assumes "encodes a enc p" "length p < 2 ^ 32" "stored_bytes fs f e = raw_bytes enc p"
    "dk_is_compressed e \<longleftrightarrow> enc \<noteq> None" "entry_length e = of_nat (length p)"
  shows "entry_content fs f e = Some p"
  using assms by (cases enc) (simp_all add: entry_content_def encodes_def raw_bytes_def unat_of_nat_u32)

section \<open>Bytes below the append mark\<close>

lemma stored_bytes_keeps:
  assumes "entry_wf fmt p e" "f_extends p f f'" "p \<le> length (f_data f)"
  shows "stored_bytes fs f' e = stored_bytes fs f e"
proof (cases "is_staged e")
  case False
  then have "entry_end e \<le> p" using assms(1) by (simp add: entry_wf_def disk_wf_def)
  then have "payload_bytes f' e = payload_bytes f e"
    unfolding payload_bytes_def using assms(3)
    by (intro f_keeps_range [OF assms(2)]) (auto simp: entry_end_def)
  then show ?thesis by (simp add: stored_bytes_def cong: option.case_cong)
qed (auto simp: stored_bytes_def is_staged_def split: option.splits)

lemma listing_keeps:
  assumes wf: "archive_wf a" "fp a = Some f" and k: "f_extends (pe a) f f'"
  shows "listing fs f' a = listing fs f a"
proof -
  have "stored_bytes fs f' e = stored_bytes fs f e" if "e \<in> set (entries a)" for e
    using wf k that by (intro stored_bytes_keeps [of "format a" "pe a"]) (auto simp: archive_wf_def)
  then show ?thesis by (auto simp: listing_def intro: entry_content_cong)
qed

lemma archive_wf_fp:
  assumes "archive_wf a" "fp a = Some f" "f_extends (pe a) f f'"
  shows "archive_wf (a\<lparr>fp := Some f'\<rparr>)"
  using assms unfolding archive_wf_def pe_def f_keeps_def by auto

lemma listing_fp [simp]: "listing fs f (a\<lparr>fp := x\<rparr>) = listing fs f a"
  by (simp add: listing_def)

section \<open>Linking a new entry\<close>

lemma wf_add_last:
  assumes wf: "archive_wf a" and ew: "entry_wf (format a) (pe a) e"
    and nm: "\<not> pakka_format_is_wad (format a) \<longrightarrow> find_entry a (filename e) = None"
    and sz: "Suc (length (entries a)) < 2 ^ 32"
  shows "archive_wf (a\<lparr>entries := entries a @ [e], num_entries := num_entries a + 1, dirty := True,
    needs_rebuild := needs_rebuild a \<or> is_staged e\<rparr>)"
proof -
  have "names_distinct (entries a @ [e])" if "\<not> pakka_format_is_wad (format a)"
    using dir.valid_add [of "entries a" e] wf nm that by (simp add: archive_wf_def find_entry_def)
  moreover have "unat (num_entries a + 1) = Suc (length (entries a))"
    using wf sz by (intro unat_inc) (simp_all add: archive_wf_def)
  ultimately show ?thesis using wf ew unfolding archive_wf_def by (auto simp: pe_def)
qed

lemma link_staged:
  assumes wf: "archive_wf a" and pre: "pak_add_preflight a n = PAKKA_OK" and cs: "c_string n"
    and sz: "Suc (length (entries a)) < 2 ^ 32" and enc: "encodes a enc p" and lp: "length p < 2 ^ 32"
    and e: "filename e = n" "offset e = 0" "entry_length e = of_nat (length p)"
      "dk_is_compressed e \<longleftrightarrow> enc \<noteq> None" "enc \<noteq> None \<longrightarrow> dk_compressed_size e = of_nat (length (the enc))"
    and pd: "pending_source e = None \<and> pending_data e = Some (raw_bytes enc p)
      \<or> enc = None \<and> pending_data e = None \<and> (\<exists>q. pending_source e = Some q \<and> file_bytes fs q = p)"
  shows "archive_wf (pak_link_staged_entry a e)
    \<and> listing fs f (pak_link_staged_entry a e) = listing fs f a @ [(n, Some p)]"
proof -
  obtain g where g: "pakka_pak_geometry (format a) = Some g" by (rule archive_wf_geometry [OF wf])
  note pf = preflight_OK [OF pre g]
  have x: "unat (pak_entry_on_disk_extent e) = length (raw_bytes enc p)"
    using e enc lp by (cases enc) (simp_all add: pak_entry_on_disk_extent_def raw_bytes_def encodes_def unat_of_nat_u32)
  have st: "is_staged e" using pd by (auto simp: is_staged_def)
  have "entry_wf (format a) (pe a) e"
    using g pf cs e pd st x enc by (auto simp: entry_wf_def name_fits_def staged_wf_def encodes_def)
  with wf_add_last [OF wf this _ sz] pf e st
  have "archive_wf (pak_link_staged_entry a e)" by (simp add: pak_link_staged_entry_def)
  moreover have "stored_bytes fs f e = raw_bytes enc p"
    using pd by (auto simp: stored_bytes_def raw_bytes_def)
  then have "entry_content fs f e = Some p"
    using content_of_raw [OF enc lp] e by simp
  ultimately show ?thesis using e by (simp add: pak_link_staged_entry_def listing_def)
qed

lemma append_fits:
  assumes wf: "archive_wf a" and lim: "\<not> append_too_large (payload_end a) ps"
  shows "pe a + unat ps < 2 ^ 32"
proof -
  have u: "unat ps < 2 ^ 32" by (rule unat_u32_bound)
  have "unat (of_nat UINT32_MAX - ucast ps :: u64) = UINT32_MAX - unat ps"
    using u by (simp add: unat_sub word_le_nat_alt UINT32_MAX_def unat_of_nat_u64 unat_ucast_u32_u64)
  then show ?thesis
    using lim u by (simp add: append_too_large_def word_less_nat_alt not_less pe_def UINT32_MAX_def)
qed

lemma link_append:
  assumes wf: "archive_wf a" "fp a = Some f" and pre: "pak_add_preflight a n = PAKKA_OK" and cs: "c_string n"
    and sz: "Suc (length (entries a)) < 2 ^ 32" and enc: "encodes a enc p" and lp: "length p < 2 ^ 32"
    and lim: "\<not> append_too_large (payload_end a) (physical_size (length p) enc)"
    and f': "f' = f_put (f\<lparr>f_pos := pe a\<rparr>) (raw_bytes enc p)"
  defines "a' \<equiv> link_appended (a\<lparr>fp := Some f'\<rparr>) (new_entry n (ucast (payload_end a)) (length p) enc)
    (payload_end a) (physical_size (length p) enc)"
  shows "archive_wf a' \<and> fp a' = Some f' \<and> listing fs f' a' = listing fs f a @ [(n, Some p)]"
proof -
  let ?ps = "physical_size (length p) enc" and ?e = "new_entry n (ucast (payload_end a)) (length p) enc"
  obtain g where g: "pakka_pak_geometry (format a) = Some g" by (rule archive_wf_geometry [OF wf(1)])
  note pf = preflight_OK [OF pre g]
  note ext = new_entry_extent [OF enc lp]
  have fit: "pe a + length (raw_bytes enc p) < 2 ^ 32"
    using append_fits [OF wf(1) lim] ext(2) by simp
  have off: "unat (ucast (payload_end a) :: u32) = pe a"
    using fit by (simp add: unat_ucast_u64_u32 pe_def)
  have pe': "unat (payload_end a + ucast ?ps) = pe a + length (raw_bytes enc p)"
    using fit ext(2) by (simp add: unat_word_ariths unat_ucast_u32_u64 pe_def)
  have k: "f_extends (pe a) f f'"
    using f_extends_put [of "pe a" "f\<lparr>f_pos := pe a\<rparr>" "raw_bytes enc p"] by (simp add: f')
  have len: "pe a + length (raw_bytes enc p) \<le> length (f_data f')"
    using wf length_splice_eq [of "raw_bytes enc p" "f_data f" "pe a"] unfolding f'
    by (cases "raw_bytes enc p = []") (auto simp: archive_wf_def)
  define b where "b = a\<lparr>fp := Some f', payload_end := payload_end a + ucast ?ps\<rparr>"
  have bpe: "pe b = pe a + length (raw_bytes enc p)" by (simp add: b_def pe_def [of "a\<lparr>fp := _, payload_end := _\<rparr>"] pe')
  have wb: "archive_wf b"
    using wf fit len bpe entry_wf_mono [of "format a" "pe a" _ "pe b"]
    unfolding archive_wf_def by (auto simp: b_def)
  have "12 \<le> pe a" using wf by (simp add: archive_wf_def)
  then have "entry_wf (format b) (pe b) ?e"
    using g pf(1) cs enc off ext(1) bpe
    by (auto simp: entry_wf_def name_fits_def disk_wf_def entry_end_def encodes_def b_def)
  moreover have "\<not> pakka_format_is_wad (format b) \<longrightarrow> find_entry b (filename ?e) = None"
    using pf by (simp add: b_def find_entry_def)
  ultimately have "archive_wf (b\<lparr>entries := entries b @ [?e], num_entries := num_entries b + 1, dirty := True,
    needs_rebuild := needs_rebuild b \<or> is_staged ?e\<rparr>)"
    using sz by (intro wf_add_last [OF wb]) (simp_all add: b_def)
  moreover have "b\<lparr>entries := entries b @ [?e], num_entries := num_entries b + 1, dirty := True,
    needs_rebuild := needs_rebuild b \<or> is_staged ?e\<rparr> = a'"
    by (cases a) (simp add: b_def a'_def link_appended_def)
  ultimately have "archive_wf a'" by simp
  moreover have "stored_bytes fs f' ?e = raw_bytes enc p"
    using ext(1) off splice_at [of "raw_bytes enc p" "pe a" "f_data f"]
    by (simp add: stored_bytes_def payload_bytes_def f')
  then have "entry_content fs f' ?e = Some p"
    by (intro content_of_raw [OF enc lp]) simp_all
  ultimately show ?thesis
    using listing_keeps [OF wf k] by (simp add: a'_def link_appended_def listing_def)
qed

section \<open>Adding a buffer\<close>

text \<open>What an add leaves behind: on success the new entry, on an error an archive whose entries and
  contents are what they were. \<open>f'\<close> is the stream after the call.\<close>

definition added :: "files \<Rightarrow> archive \<Rightarrow> cfile \<Rightarrow> cstring \<Rightarrow> u8 list \<Rightarrow> archive \<Rightarrow> cfile \<Rightarrow> bool" where
  "added fs a f n p a' f' \<longleftrightarrow> archive_wf a' \<and> fp a' = Some f'
     \<and> listing fs f' a' = listing fs f a @ [(n, Some p)] \<and> dirty a'
     \<and> (if atomic_commit a then f' = f \<and> needs_rebuild a' else f_extends (pe a) f f')"

definition add_failed :: "files \<Rightarrow> archive \<Rightarrow> cfile \<Rightarrow> archive \<Rightarrow> cfile \<Rightarrow> bool" where
  "add_failed fs a f a' f' \<longleftrightarrow> archive_wf a' \<and> a' = a\<lparr>fp := Some f'\<rparr>
     \<and> listing fs f' a' = listing fs f a \<and> (if atomic_commit a then f' = f else f_extends (pe a) f f')"

lemma fp_update_id: "fp a = Some f \<Longrightarrow> a\<lparr>fp := Some f\<rparr> = a"
  by (cases a) simp

lemma add_failedI:
  assumes "archive_wf a" "fp a = Some f" "\<not> atomic_commit a" "f_extends (pe a) f f'"
  shows "add_failed fs a f (a\<lparr>fp := Some f'\<rparr>) f'"
  using assms(3,4) listing_keeps [OF assms(1,2,4)] archive_wf_fp [OF assms(1,2,4)] by (simp add: add_failed_def)

lemma add_failed_same: "archive_wf a \<Longrightarrow> fp a = Some f \<Longrightarrow> add_failed fs a f a f"
  by (simp add: add_failed_def fp_update_id)

lemma fseek_pe:
  assumes "fseek_set f (unat (payload_end a)) = (r, f1)"
  shows "r \<Longrightarrow> f1 = f\<lparr>f_pos := pe a\<rparr>" "f_extends (pe a) f f1"
  using fseek_set_cases [OF assms] by (auto simp: pe_def)

lemma append_memory_cases:
  assumes wf: "archive_wf a" "fp a = Some f" "\<not> atomic_commit a"
    and pre: "pak_add_preflight a n = PAKKA_OK" and cs: "c_string n"
    and sz: "Suc (length (entries a)) < 2 ^ 32" and enc: "encodes a enc p" and lp: "length p < 2 ^ 32"
    and r: "append_memory env a f n p enc = (s, a')"
  shows "\<exists>f'. (if s = PAKKA_OK then added fs a f n p a' f' else add_failed fs a f a' f')"
proof -
  let ?ps = "physical_size (length p) enc"
  obtain ok1 f1 where sk: "fseek_set f (unat (payload_end a)) = (ok1, f1)" by fastforce
  note s1 = fseek_pe [OF sk]
  have w: "(case enc of Some enc_buf \<Rightarrow> fwrite_all f1 enc_buf
      | None \<Rightarrow> if p \<noteq> [] then fwrite_all f1 p else (True, f1)) = fwrite_all f1 (raw_bytes enc p)"
    by (cases enc) (auto simp: raw_bytes_def)
  obtain ok2 f2 where wr: "fwrite_all f1 (raw_bytes enc p) = (ok2, f2)" by fastforce
  let ?a' = "link_appended (a\<lparr>fp := Some f2\<rparr>) (new_entry n (ucast (payload_end a)) (length p) enc) (payload_end a) ?ps"
  have "s \<noteq> PAKKA_OK \<and> a' = a \<or> s \<noteq> PAKKA_OK \<and> a' = a\<lparr>fp := Some f1\<rparr>
    \<or> ok1 \<and> s \<noteq> PAKKA_OK \<and> a' = a\<lparr>fp := Some f2\<rparr>
    \<or> s = PAKKA_OK \<and> ok1 \<and> ok2 \<and> \<not> append_too_large (payload_end a) ?ps \<and> a' = ?a'"
    using r [symmetric] unfolding append_memory_def Let_def sk w prod.case
    by (cases ok1; cases ok2) (simp_all add: wr split: if_splits)
  then consider (same) "s \<noteq> PAKKA_OK" "a' = a" | (seek) "s \<noteq> PAKKA_OK" "a' = a\<lparr>fp := Some f1\<rparr>"
    | (bad) "ok1" "s \<noteq> PAKKA_OK" "a' = a\<lparr>fp := Some f2\<rparr>"
    | (good) "s = PAKKA_OK" "ok1" "ok2" "\<not> append_too_large (payload_end a) ?ps"
      "a' = ?a'"
    by blast
  then show ?thesis
  proof cases
    case same then show ?thesis using add_failed_same [OF wf(1,2)] by auto
  next
    case seek then show ?thesis using add_failedI [OF wf s1(2)] by auto
  next
    case bad
    have "f_extends (pe a) f1 f2"
      by (rule f_keeps_fwrite_all(1) [OF wr]) (simp add: s1(1) [OF bad(1)])
    then have "f_extends (pe a) f f2" using s1(1) [OF bad(1)] by simp
    from add_failedI [OF wf this] bad show ?thesis by auto
  next
    case good
    then have f2: "f2 = f_put (f\<lparr>f_pos := pe a\<rparr>) (raw_bytes enc p)"
      using wr s1(1) by (simp add: fwrite_all_True)
    have k: "f_extends (pe a) f f2"
      using f_extends_put [of "pe a" "f\<lparr>f_pos := pe a\<rparr>" "raw_bytes enc p"] by (simp add: f2)
    from link_append [OF wf(1,2) pre cs sz enc lp good(4) f2] good wf(3) k
    have "added fs a f n p a' f2" by (simp add: added_def) (simp add: link_appended_def)
    with good(1) show ?thesis by auto
  qed
qed

lemma add_memory_effect:
  assumes wf: "archive_wf a" "fp a = Some f" and cs: "c_string n"
    and sz: "Suc (length (entries a)) < 2 ^ 32" and len: "len \<le> length d"
    and r: "pakka_add_memory Z env (Some a) (Some n) (Some d) len = (s, Some a')"
  shows "\<exists>f'. if s = PAKKA_OK
    then archive_wf a' \<and> fp a' = Some f' \<and> listing fs f' a' = listing fs f a @ [(n, Some (take len d))]
      \<and> dirty a' \<and> (if atomic_commit a then f' = f \<and> needs_rebuild a' else f_extends (pe a) f f')
    else archive_wf a' \<and> a' = a\<lparr>fp := Some f'\<rparr> \<and> listing fs f' a' = listing fs f a
      \<and> (if atomic_commit a then f' = f else f_extends (pe a) f f')"
proof -
  let ?p = "take len d" and ?enc = "if dk_try_compress a n len then dk_encode env (take len d) else None"
  have "\<exists>f'. if s = PAKKA_OK then added fs a f n ?p a' f' else add_failed fs a f a' f'"
  proof (cases "\<not> writable a \<or> pak_add_preflight a n \<noteq> PAKKA_OK \<or> len > UINT32_MAX")
    case True
    then have "a' = a \<and> s \<noteq> PAKKA_OK"
      using r wf archive_wf_geometry [OF wf(1)] by (auto simp: pakka_add_memory_def Let_def split: if_splits)
    with add_failed_same [OF wf] show ?thesis by auto
  next
    case False
    then have pre: "pak_add_preflight a n = PAKKA_OK" and lp: "length ?p < 2 ^ 32"
      using len by (simp_all add: UINT32_MAX_def)
    have lt: "length ?p = len" using len by simp
    have enc: "encodes a ?enc ?p" by (rule encodes_dk)
    have r': "(if atomic_commit a then stage_memory env a n ?p ?enc else append_memory env a f n ?p ?enc) = (s, a')"
      using r False wf(2) archive_wf_geometry [OF wf(1)]
      by (auto simp: pakka_add_memory_def Let_def split: if_splits prod.splits)
    show ?thesis
    proof (cases "atomic_commit a")
      case False
      from append_memory_cases [OF wf False pre cs sz enc lp] r' False show ?thesis by simp
    next
      case True
      let ?e = "(new_entry n 0 (length ?p) ?enc)\<lparr>pending_data := Some (raw_bytes ?enc ?p)\<rparr>"
      consider (bad) "s \<noteq> PAKKA_OK" "a' = a" | (good) "s = PAKKA_OK" "a' = pak_link_staged_entry a ?e"
        using r' True by (cases ?enc) (auto simp: stage_memory_def Let_def raw_bytes_def split: if_splits)
      then show ?thesis
      proof cases
        case bad then show ?thesis using add_failed_same [OF wf] by auto
      next
        case good
        have "?enc \<noteq> None \<longrightarrow> dk_compressed_size ?e = of_nat (length (the ?enc))"
          by (cases ?enc) (simp_all add: new_entry_def Let_def)
        then have "archive_wf a' \<and> listing fs f a' = listing fs f a @ [(n, Some ?p)]"
          unfolding good(2) by (intro link_staged [OF wf(1) pre cs sz enc lp]) simp_all
        with good wf(2) True have "added fs a f n ?p a' f"
          by (simp add: added_def pak_link_staged_entry_def)
        with good show ?thesis by auto
      qed
    qed
  qed
  then show ?thesis unfolding added_def add_failed_def .
qed


section \<open>Adding a file\<close>

text \<open>A stream freshly opened on content \<open>p\<close>.\<close>

definition source_of :: "cfile \<Rightarrow> u8 list \<Rightarrow> bool" where
  "source_of f p \<longleftrightarrow> f_data f = p \<and> f_pos f = 0 \<and> \<not> f_error f"

lemma source_has: 
  assumes "source_of f p" "f_has f b" "length b = length p"
  shows "b = p"
proof -
  have "take (length b) (drop 0 p) = b" using assms(1,2) unfolding f_has_def source_of_def by metis
  then show ?thesis using assms(3) by simp
qed

lemma preflight_source:
  "pak_add_source_preflight env fs q = PAKKA_OK \<Longrightarrow> \<exists>p. fs q = Some (Regular p)"
  by (auto simp: pak_add_source_preflight_def pakka_platform_lstat_def split: if_splits option.splits node.splits)

lemma open_source_OK:
  assumes "open_source env fs q = (PAKKA_OK, f, n)" "fs q = Some (Regular p)"
  shows "source_of f p \<and> n = length p \<and> length p < 2 ^ 32"
proof -
  obtain l where o: "pakka_platform_fopen env fs q False = Some (stream_of l p)"
    using assms by (auto simp: open_source_def pakka_platform_fopen_def split: option.splits)
  then have "(case pakka_filesize (stream_of l p) of (None, f) \<Rightarrow> (PAKKA_ERR_IO, f, 0)
      | (Some sz, f) \<Rightarrow> if sz > UINT32_MAX then (PAKKA_ERR_LIMIT, f, sz) else (PAKKA_OK, f, sz)) = (PAKKA_OK, f, n)"
    using assms(1) by (simp add: open_source_def)
  then show ?thesis
    by (auto simp: pakka_filesize_def fseek_end_def ftell_def rewind_def source_of_def UINT32_MAX_def
        split: if_splits)
qed

lemma dk_capture_OK:
  assumes "dk_capture env a n src sz = (PAKKA_OK, buf, enc, src1)" "source_of src p" "sz = length p"
  shows "encodes a enc p \<and> (buf = Some p \<or> buf = None \<and> enc = None \<and> src1 = src)"
proof (cases "dk_try_compress a n sz \<and> dk_worst sz \<le> UINT32_MAX \<and> \<not> e_oom env A_source_buffer")
  case True
  then have z: "0 < sz" by (simp add: dk_try_compress_def)
  obtain b where r: "fread_all src sz = (Some b, src1)" "buf = Some b" "enc = dk_encode env b"
    using assms(1) True by (auto simp: dk_capture_def split: prod.splits option.splits)
  have "b = p" using fread_all_Some [OF r(1) z] source_has [OF assms(2)] assms(3) by blast
  then have "buf = Some p" "enc = dk_encode env p" using r(2,3) by simp_all
  moreover have "encodes a (dk_encode env p) p" using encodes_dk [of a n sz env p] True by simp
  ultimately show ?thesis by simp
next
  case False
  then have "dk_capture env a n src sz = (PAKKA_OK, None, None, src)"
    unfolding dk_capture_def by (simp only: if_False)
  with assms(1) show ?thesis by (simp add: encodes_def)
qed

lemma write_payload_cases:
  assumes r: "write_payload env f src sz buf enc = (s, f')" and src: "source_of src p" "sz = length p"
    and b: "buf = Some p \<or> buf = None \<and> enc = None"
  shows "f_extends (f_pos f) f f' \<and> (s = PAKKA_OK \<longrightarrow> f' = f_put f (raw_bytes enc p))"
proof (cases "enc = None \<and> buf = None")
  case False
  then have w: "write_payload env f src sz buf enc =
      (let (ok, f1) = fwrite_all f (raw_bytes enc p) in (if ok then PAKKA_OK else PAKKA_ERR_IO, f1))"
    using b by (cases enc) (auto simp: write_payload_def raw_bytes_def)
  obtain ok f1 where wr: "fwrite_all f (raw_bytes enc p) = (ok, f1)" by fastforce
  with w r have "f' = f1" "s = (if ok then PAKKA_OK else PAKKA_ERR_IO)" by auto
  with wr f_keeps_fwrite_all(1) [OF wr, of "\<lambda>i. i < f_pos f"] show ?thesis
    by (auto simp: fwrite_all_True split: if_splits)
next
  case True
  show ?thesis
  proof (cases "sz > 0 \<and> \<not> e_oom env A_chunk")
    case False
    with True r src(2) show ?thesis by (auto simp: write_payload_def raw_bytes_def split: if_splits)
  next
    case go: True
    obtain src1 where c: "copy_chunks src f sz = (s, src1, f')"
      using True go r by (auto simp: write_payload_def split: prod.splits)
    have "f' = f_put f p" if "s = PAKKA_OK"
    proof -
      have "copy_chunks src f sz = (PAKKA_OK, src1, f')" using c that by simp
      from copy_chunks_OK [OF this] go obtain bs where bs: "length bs = sz" "f_has src bs" "f' = f_put f bs"
        by auto
      then have "bs = p" using source_has [OF src(1)] src(2) by blast
      with bs(3) show ?thesis by simp
    qed
    moreover have "f_extends (f_pos f) f f'" using copy_chunks_frame [OF c] by blast
    moreover have "raw_bytes enc p = p" using True by (simp add: raw_bytes_def)
    ultimately show ?thesis by metis
  qed
qed

lemma write_payload_captured:
  "write_payload env f src1 n (Some p) enc = write_payload env f src2 n (Some p) enc"
  by (simp add: write_payload_def split: option.splits)

lemma append_file_cases:
  assumes wf: "archive_wf a" "fp a = Some f" "\<not> atomic_commit a"
    and pre: "pak_add_preflight a n = PAKKA_OK" and cs: "c_string n"
    and sz: "Suc (length (entries a)) < 2 ^ 32" and enc: "encodes a enc p" and lp: "length p < 2 ^ 32"
    and src: "source_of src p" and b: "buf = Some p \<or> buf = None \<and> enc = None"
    and r: "append_file env a f n src (length p) buf enc = (s, a')"
  shows "\<exists>f'. (if s = PAKKA_OK then added fs a f n p a' f' else add_failed fs a f a' f')"
proof -
  let ?ps = "physical_size (length p) enc"
  obtain ok1 f1 where sk: "fseek_set f (unat (payload_end a)) = (ok1, f1)" by fastforce
  note s1 = fseek_pe [OF sk]
  obtain s2 f2 where wr: "write_payload env f1 src (length p) buf enc = (s2, f2)" by fastforce
  note w = write_payload_cases [OF wr src refl b]
  let ?a' = "link_appended (a\<lparr>fp := Some f2\<rparr>) (new_entry n (ucast (payload_end a)) (length p) enc) (payload_end a) ?ps"
  have "s \<noteq> PAKKA_OK \<and> a' = a \<or> s \<noteq> PAKKA_OK \<and> a' = a\<lparr>fp := Some f1\<rparr>
    \<or> ok1 \<and> s \<noteq> PAKKA_OK \<and> a' = a\<lparr>fp := Some f2\<rparr>
    \<or> s = PAKKA_OK \<and> ok1 \<and> s2 = PAKKA_OK \<and> \<not> append_too_large (payload_end a) ?ps \<and> a' = ?a'"
    using r [symmetric] unfolding append_file_def Let_def sk prod.case
    by (cases ok1; cases "s2 = PAKKA_OK") (simp_all add: wr split: if_splits)
  then consider (same) "s \<noteq> PAKKA_OK" "a' = a" | (seek) "s \<noteq> PAKKA_OK" "a' = a\<lparr>fp := Some f1\<rparr>"
    | (bad) "ok1" "s \<noteq> PAKKA_OK" "a' = a\<lparr>fp := Some f2\<rparr>"
    | (good) "s = PAKKA_OK" "ok1" "s2 = PAKKA_OK" "\<not> append_too_large (payload_end a) ?ps" "a' = ?a'"
    by blast
  then show ?thesis
  proof cases
    case same then show ?thesis using add_failed_same [OF wf(1,2)] by auto
  next
    case seek then show ?thesis using add_failedI [OF wf s1(2)] by auto
  next
    case bad
    then have "f_extends (pe a) f f2" using w s1(1) [OF bad(1)] by simp
    from add_failedI [OF wf this] bad show ?thesis by auto
  next
    case good
    then have f2: "f2 = f_put (f\<lparr>f_pos := pe a\<rparr>) (raw_bytes enc p)" using w s1(1) by simp
    have k: "f_extends (pe a) f f2"
      using f_extends_put [of "pe a" "f\<lparr>f_pos := pe a\<rparr>" "raw_bytes enc p"] by (simp add: f2)
    from link_append [OF wf(1,2) pre cs sz enc lp good(4) f2] good wf(3) k
    have "added fs a f n p a' f2" by (simp add: added_def) (simp add: link_appended_def)
    with good(1) show ?thesis by auto
  qed
qed

lemma stage_file_cases:
  assumes wf: "archive_wf a" "fp a = Some f" "atomic_commit a"
    and pre: "pak_add_preflight a n = PAKKA_OK" and cs: "c_string n"
    and sz: "Suc (length (entries a)) < 2 ^ 32" and enc: "encodes a enc p" and lp: "length p < 2 ^ 32"
    and src: "fs q = Some (Regular p)" and b: "buf = Some p \<or> buf = None \<and> enc = None"
    and r: "stage_file env a q n src1 (length p) buf enc = (s, a')"
  shows "\<exists>f'. (if s = PAKKA_OK then added fs a f n p a' f' else add_failed fs a f a' f')"
proof -
  let ?e = "new_entry n 0 (length p) enc"
  let ?d = "?e\<lparr>pending_data := Some (raw_bytes enc p)\<rparr>"
  let ?q = "?e\<lparr>crc32 := fst (crc_scan src1 0), pending_source := Some q\<rparr>"
  have "s \<noteq> PAKKA_OK \<and> a' = a \<or> s = PAKKA_OK \<and> a' = pak_link_staged_entry a ?d
    \<or> s = PAKKA_OK \<and> enc = None \<and> a' = pak_link_staged_entry a ?q"
    using r [symmetric] b unfolding stage_file_def Let_def
    by (cases enc; cases buf; simp add: raw_bytes_def split: if_splits prod.splits)
  moreover have "archive_wf (pak_link_staged_entry a ?d)
    \<and> listing fs f (pak_link_staged_entry a ?d) = listing fs f a @ [(n, Some p)]"
    by (intro link_staged [OF wf(1) pre cs sz enc lp]; cases enc) (simp_all add: new_entry_def Let_def calloc_entry_def)
  moreover have "archive_wf (pak_link_staged_entry a ?q)
    \<and> listing fs f (pak_link_staged_entry a ?q) = listing fs f a @ [(n, Some p)]" if "enc = None"
    using that src by (intro link_staged [OF wf(1) pre cs sz enc lp]) (simp_all add: file_bytes_def)
  ultimately consider "s \<noteq> PAKKA_OK" "a' = a"
    | e where "s = PAKKA_OK" "a' = pak_link_staged_entry a e" "archive_wf a'"
      "listing fs f a' = listing fs f a @ [(n, Some p)]"
    by blast
  then show ?thesis
  proof cases
    case 1 then show ?thesis using add_failed_same [OF wf(1,2)] by auto
  next
    case 2
    then have "added fs a f n p a' f" using wf by (simp add: added_def) (simp add: pak_link_staged_entry_def)
    with 2(1) show ?thesis by auto
  qed
qed

lemma add_file_effect:
  assumes wf: "archive_wf a" "fp a = Some f" and cs: "c_string n"
    and sz: "Suc (length (entries a)) < 2 ^ 32"
    and r: "pakka_add_file Z env fs (Some a) (Some q) (Some n) = (s, Some a')"
  shows "\<exists>f' p. if s = PAKKA_OK
    then fs q = Some (Regular p) \<and> archive_wf a' \<and> fp a' = Some f'
      \<and> listing fs f' a' = listing fs f a @ [(n, Some p)] \<and> dirty a'
      \<and> (if atomic_commit a then f' = f \<and> needs_rebuild a' else f_extends (pe a) f f')
    else archive_wf a' \<and> a' = a\<lparr>fp := Some f'\<rparr> \<and> listing fs f' a' = listing fs f a
      \<and> (if atomic_commit a then f' = f else f_extends (pe a) f f')"
proof -
  obtain os src n0 where op: "open_source env fs q = (os, src, n0)" by (cases "open_source env fs q")
  obtain cs2 buf enc src1 where cp: "dk_capture env a n src n0 = (cs2, buf, enc, src1)"
    by (cases "dk_capture env a n src n0")
  have "\<exists>f' p. if s = PAKKA_OK then fs q = Some (Regular p) \<and> added fs a f n p a' f' else add_failed fs a f a' f'"
  proof (cases "\<not> writable a \<or> pak_add_preflight a n \<noteq> PAKKA_OK \<or> pak_add_source_preflight env fs q \<noteq> PAKKA_OK
      \<or> os \<noteq> PAKKA_OK \<or> cs2 \<noteq> PAKKA_OK")
    case True
    then have "a' = a \<and> s \<noteq> PAKKA_OK"
      using r wf op cp archive_wf_geometry [OF wf(1)]
      by (auto simp: pakka_add_file_def Let_def split: if_splits)
    with add_failed_same [OF wf] show ?thesis by auto
  next
    case False
    obtain p where p: "fs q = Some (Regular p)" using False preflight_source by blast
    have pre: "pak_add_preflight a n = PAKKA_OK" using False by simp
    have "open_source env fs q = (PAKKA_OK, src, n0)" using op False by simp
    from open_source_OK [OF this p] have so: "source_of src p" "n0 = length p" "length p < 2 ^ 32" by auto
    have c: "encodes a enc p" "buf = Some p \<or> buf = None \<and> enc = None \<and> src1 = src"
      using dk_capture_OK [of env a n src n0 buf enc src1 p] cp False so by auto
    have b: "buf = Some p \<or> buf = None \<and> enc = None" using c(2) by blast
    have r': "(if atomic_commit a then stage_file env a q n src1 n0 buf enc
        else append_file env a f n src1 n0 buf enc) = (s, a')"
      using r False wf(2) op cp archive_wf_geometry [OF wf(1)]
      by (auto simp: pakka_add_file_def Let_def split: if_splits prod.splits)
    have "\<exists>f'. if s = PAKKA_OK then added fs a f n p a' f' else add_failed fs a f a' f'"
    proof (cases "atomic_commit a")
      case True
      with r' so(2) have "stage_file env a q n src1 (length p) buf enc = (s, a')" by simp
      from stage_file_cases [where fs = fs and q = q, OF wf True pre cs sz c(1) so(3) p b this]
      show ?thesis by blast
    next
      case F: False
      have "append_file env a f n src1 (length p) buf enc = append_file env a f n src (length p) buf enc"
      proof (cases "buf = Some p")
        case True
        show ?thesis
          unfolding append_file_def True write_payload_captured [where ?src1.0 = src1 and ?src2.0 = src] ..
      qed (use c(2) in auto)
      with r' F so(2) have "append_file env a f n src (length p) buf enc = (s, a')" by simp
      from append_file_cases [OF wf F pre cs sz c(1) so(3,1) b this]
      show ?thesis by blast
    qed
    with p show ?thesis by auto
  qed
  then show ?thesis unfolding added_def add_failed_def .
qed


text \<open>An environment in which everything the calls ask for goes through.\<close>

definition quiet_limits :: limits where
  "quiet_limits = \<lparr>l_room = 1000000, l_readable = 1000000, l_seekable = True, l_close_ok = True\<rparr>"

definition quiet_env :: env where
  "quiet_env = \<lparr>e_oom = \<lambda>_. False, e_fault = \<lambda>_. False, e_stat = \<lambda>_. True, e_follow = \<lambda>_. False,
     e_limits = \<lambda>_ _. Some quiet_limits, e_other = \<lambda>_. None,
     e_mkstemp = \<lambda>fs t. if fs t = None then Some t else None, e_scratch = \<lambda>_. Some quiet_limits,
     e_lock = \<lambda>_. True, e_rename = \<lambda>_ _. True, e_link = \<lambda>_ _. True, e_unlink = \<lambda>_. True,
     e_truncate = \<lambda>_. True, e_torn = \<lambda>old new. new\<rparr>"

lemma quiet_fresh: "mkstemp_fresh quiet_env"
  by (auto simp: mkstemp_fresh_def quiet_env_def split: if_splits)

lemma quiet_env_simps:
  "e_oom quiet_env x = False" "e_fault quiet_env h = False" "e_stat quiet_env p = True" "e_limits quiet_env w p = Some quiet_limits"
  "e_rename quiet_env p q = True" "e_link quiet_env p q = True" "e_unlink quiet_env p = True" "e_lock quiet_env p = True"
  by (simp_all add: quiet_env_def)

definition sample_fp :: cfile where
  "sample_fp = empty_stream\<lparr>f_data := ascii ''PACK'' @ replicate 8 0 @ [1, 2, 3, 4, 5]\<rparr>"

lemma sample_pak_fp: "fp sample_pak = Some sample_fp"
  by (simp add: sample_pak_def sample_fp_def)

lemma sample_pak_more:
  "writable sample_pak" "\<not> atomic_commit sample_pak" "format sample_pak = PAKKA_FORMAT_PAK"
  "payload_end sample_pak = 17" "c_string (ascii ''c.cfg'')" "Suc (length (entries sample_pak)) < 2 ^ 32"
  by (simp_all add: sample_pak_def calloc_archive_def c_string_def ascii_def)

lemma sample_sizes: "\<not> append_too_large 17 (physical_size 2 None)"
    "\<not> append_too_large 17 (physical_size (Suc (Suc 0)) None)"
  unfolding append_too_large_def physical_size_def UINT32_MAX_def option.case
  by simp_all


definition sample_files :: files where
  "sample_files = (\<lambda>_. None)(ascii ''src.bin'' \<mapsto> Regular [9, 8])"


end
