(* ===== verification/Disk_Image.thy ===== *)
theory Disk_Image
  imports Archive_State
begin

text \<open>
  When the bytes of a file are an archive: the header and the directory describe exactly the entries of
  the handle. A directory that was written makes such an image, and the loader turns an image back into
  the entries it describes.
\<close>

definition image_of :: "archive \<Rightarrow> u8 list \<Rightarrow> bool" where
  "image_of a b \<longleftrightarrow> (\<exists>g. pakka_pak_geometry (format a) = Some g
     \<and> take 12 b = header_bytes a
     \<and> 12 \<le> unat (diroffset a)
     \<and> unat (dirlength a) = length (entries a) * dir_entry_size g
     \<and> unat (diroffset a) + unat (dirlength a) \<le> length b
     \<and> take (unat (dirlength a)) (drop (unat (diroffset a)) b) = dir_bytes (format a) g (entries a))"

lemma image_of_cong:
  "format a = format c \<Longrightarrow> signature a = signature c \<Longrightarrow> diroffset a = diroffset c \<Longrightarrow> dirlength a = dirlength c \<Longrightarrow>
   map (\<lambda>e. (filename e, offset e, entry_length e, dk_compressed_size e, dk_is_compressed e)) (entries a) =
   map (\<lambda>e. (filename e, offset e, entry_length e, dk_compressed_size e, dk_is_compressed e)) (entries c) \<Longrightarrow>
   image_of a b = image_of c b"
proof -
  assume h: "format a = format c" "signature a = signature c" "diroffset a = diroffset c" "dirlength a = dirlength c"
    and m: "map (\<lambda>e. (filename e, offset e, entry_length e, dk_compressed_size e, dk_is_compressed e)) (entries a) =
      map (\<lambda>e. (filename e, offset e, entry_length e, dk_compressed_size e, dk_is_compressed e)) (entries c)"
  have l: "length (entries a) = length (entries c)" using map_eq_imp_length_eq [OF m] .
  have "map (row_bytes fmt g) (entries a) = map (row_bytes fmt g) (entries c)" for fmt g
  proof (rule nth_equalityI)
    fix i assume "i < length (map (row_bytes fmt g) (entries a))"
    then have i: "i < length (entries a)" "i < length (entries c)" using l by simp_all
    from arg_cong [OF m, of "\<lambda>xs. xs ! i"] i
    show "map (row_bytes fmt g) (entries a) ! i = map (row_bytes fmt g) (entries c) ! i"
      by (simp add: row_bytes_def)
  qed (simp add: l)
  then have "dir_bytes fmt g (entries a) = dir_bytes fmt g (entries c)" for fmt g by (simp add: dir_bytes_def)
  moreover have "wad_count a = wad_count c" unfolding wad_count_def h ..
  ultimately show ?thesis using h l by (simp add: image_of_def header_bytes_def)
qed

lemma write_pak_directory_empty:
  assumes g: "pakka_pak_geometry (format a) = Some g" and e: "entries a = []"
    and ok: "write_pak_directory fault a f = (PAKKA_OK, a', f')"
  shows "a' = a\<lparr>diroffset := 12, dirlength := 0\<rparr> \<and> f' = f_put (f\<lparr>f_pos := 0\<rparr>) (header_bytes a')"
proof -
  have "f_seekable f" and a': "a' = a\<lparr>diroffset := 12, dirlength := 0\<rparr>"
    using g e ok by (auto simp: write_pak_directory_def Let_def fseek_set_def PAKFILE_HEADER_SIZE_def split: if_splits prod.splits)
  then have "write_pak_header a' (f\<lparr>f_pos := 0\<rparr>) = (PAKKA_OK, f')"
    using g e ok by (auto simp: write_pak_directory_def Let_def fseek_set_def PAKFILE_HEADER_SIZE_def split: prod.splits)
  with a' show ?thesis by (simp add: write_pak_header_eq io_status_OK fwrite_all_True)
qed

lemma write_pak_directory_image:
  assumes g: "pakka_pak_geometry (format a) = Some g" and w: "writable_dir a"
    and ok: "write_pak_directory fault a f = (PAKKA_OK, a', f')"
    and len: "entries a = [] \<Longrightarrow> pe a \<le> max 12 (length (f_data f))"
  shows "image_of a' (f_data f') \<and> pe a \<le> length (f_data f') \<and> length (f_data f) \<le> length (f_data f')
    \<and> f_seekable f'"
proof -
  obtain x y where xy: "a' = a\<lparr>diroffset := x, dirlength := y\<rparr>"
    using write_pak_directory_frame(2) [OF w ok] by blast
  have k: "f_keeps (\<lambda>i. 12 \<le> i \<and> i < pe a) f f'" by (rule write_pak_directory_frame(1) [OF w ok])
  then have ll: "length (f_data f) \<le> length (f_data f')" by (simp add: f_keeps_def)
  have "f_seekable f"
    using ok g by (auto simp: write_pak_directory_def Let_def fseek_set_def split: if_splits prod.splits)
  then have sk: "f_seekable f'" using k by (simp add: f_keeps_def f_same_env_def)
  let ?h = "header_bytes a'"
  have hl: "length ?h = 12" using w by (simp add: xy header_length writable_dir_def)
  then have hne: "?h \<noteq> []" by auto
  have hd: "take 12 (splice d 0 ?h) = ?h" for d using splice_at [of ?h 0 d] hl by simp
  have tl: "drop n (splice d 0 ?h) = drop n d" if "12 \<le> n" for d n
    using drop_splice_after [of 0 ?h n d] that hl by simp
  have sl: "12 \<le> length (splice d 0 ?h)" for d using length_splice_eq [OF hne, of d 0] hl by simp
  show ?thesis
  proof (cases "entries a = []")
    case True
    from write_pak_directory_empty [OF g this ok] have
      a': "a' = a\<lparr>diroffset := 12, dirlength := 0\<rparr>" and f': "f_data f' = splice (f_data f) 0 ?h" by auto
    have "pe a \<le> length (f_data f')" using len [OF True] ll sl [of "f_data f"] by (simp add: f')
    with True g hd sl ll sk show ?thesis by (simp add: image_of_def a' [symmetric] f') (simp add: a' dir_bytes_def)
  next
    case False
    note w' = write_pak_directory_OK [OF g w False ok]
    let ?r = "dir_bytes (format a) g (entries a)"
    have rl: "length ?r = length (entries a) * dir_entry_size g" by (rule dir_bytes_length [OF g])
    then have rne: "?r \<noteq> []" using False geometry_facts(4) [OF g] by auto
    let ?d = "splice (f_data f) (pe a) ?r"
    have f': "f_data f' = splice ?d 0 ?h" using w'(3) by simp
    have p12: "12 \<le> pe a" using w by (simp add: writable_dir_def)
    have do: "unat (diroffset a') = pe a" "unat (dirlength a') = length (entries a) * dir_entry_size g"
      using w'(1,2) by (simp_all add: unat_of_nat_u32 del: of_nat_mult)
    have dl: "pe a + length ?r \<le> length (f_data f')"
      using length_splice_eq [OF rne, of "f_data f" "pe a"] length_splice_le [of ?d 0 ?h] by (simp add: f')
    have "take (length ?r) (drop (pe a) (f_data f')) = ?r"
      by (simp only: f' tl [OF p12] splice_at)
    with g hd [of ?d] p12 dl do rl ll sk show ?thesis
      by (simp add: image_of_def f' [symmetric]) (simp add: xy f')
  qed
qed

section \<open>Loading an image\<close>

lemma f_has_at:
  assumes "take (length bs) (drop p (f_data f)) = bs" "p + length bs \<le> length (f_data f)"
    "length (f_data f) \<le> f_readable f"
  shows "f_has (f\<lparr>f_pos := p\<rparr>) bs"
  using assms by (simp add: f_has_def)

text \<open>What the directory can say of an entry is all there is to say of one on disk.\<close>

lemma on_disk_entry_wf:
  assumes "entry_wf fmt p e" "pakka_pak_geometry fmt = Some g" "\<not> is_staged e"
  shows "dk_is_compressed (on_disk_entry g e) = dk_is_compressed e"
    "pak_entry_on_disk_extent (on_disk_entry g e) = pak_entry_on_disk_extent e"
    "entry_end (on_disk_entry g e) = entry_end e" "entry_wf fmt p (on_disk_entry g e)"
    "entry_content fs f (on_disk_entry g e) = entry_content fs f e"
proof -
  show c: "dk_is_compressed (on_disk_entry g e) = dk_is_compressed e"
    using assms geometry_facts(5) [OF assms(2)] by (auto simp: entry_wf_def on_disk_entry_def)
  show x: "pak_entry_on_disk_extent (on_disk_entry g e) = pak_entry_on_disk_extent e"
    using assms geometry_facts(5) [OF assms(2)]
    by (auto simp: entry_wf_def on_disk_entry_def pak_entry_on_disk_extent_def)
  show n: "entry_end (on_disk_entry g e) = entry_end e"
    unfolding entry_end_def x by (simp add: on_disk_entry_def)
  have s: "\<not> is_staged (on_disk_entry g e)" "filename (on_disk_entry g e) = filename e"
    "offset (on_disk_entry g e) = offset e" "entry_length (on_disk_entry g e) = entry_length e"
    by (simp_all add: is_staged_def on_disk_entry_def calloc_entry_def)
  show "entry_wf fmt p (on_disk_entry g e)"
    using assms by (simp add: entry_wf_def disk_wf_def c n s name_fits_def)
  have "stored_bytes fs f (on_disk_entry g e) = stored_bytes fs f e"
    using assms(3) s(1,3) x by (simp add: stored_bytes_def is_staged_def payload_bytes_def)
  then show "entry_content fs f (on_disk_entry g e) = entry_content fs f e"
    using c s(4) by (intro entry_content_cong) auto
qed

lemma grow_end_le:
  "(\<forall>e \<in> set es. entry_end e \<le> p) \<Longrightarrow> unat x \<le> p \<Longrightarrow> unat (foldl grow_end x es) \<le> p
   \<and> unat x \<le> unat (foldl grow_end x es) \<and> (\<forall>e \<in> set es. entry_end e \<le> unat (foldl grow_end x es))"
proof (induction es arbitrary: x)
  case (Cons e es)
  have g: "unat (grow_end x e) = max (unat x) (entry_end e)"
    by (auto simp: grow_end_def word_less_nat_alt unat_entry_end max_def)
  from Cons.IH [of "grow_end x e"] Cons.prems show ?case by (auto simp: g)
qed simp

text \<open>The archive the loader makes of an image: well formed, and with the contents of the archive the
  image is of.\<close>

lemma image_loads:
  assumes wf: "archive_wf a" and ns: "\<forall>e \<in> set (entries a). \<not> is_staged e"
    and im: "image_of a (f_data f)" and pl: "pe a \<le> length (f_data f)"
    and mx: "length (entries a) \<le> PAKFILE_MAX_ENTRIES"
    and s: "f_seekable f" "length (f_data f) < 2 ^ 63" "length (f_data f) \<le> f_readable f"
    and q: "entries q = []" "hint_fits (format_hint q) (format a)" "\<not> dirty q" "fp q = None"
  shows "\<exists>q1 f1 q2 p. load_pakfile zip_open q f = (PAKKA_OK, q1, f1)
    \<and> load_directory (\<lambda>_. False) q1 f1 = (PAKKA_OK, q2, f\<lparr>f_pos := p, f_error := False\<rparr>)
    \<and> archive_wf (q2\<lparr>fp := Some (f\<lparr>f_pos := p, f_error := False\<rparr>)\<rparr>)
    \<and> listing fs (f\<lparr>f_pos := p, f_error := False\<rparr>) q2 = listing fs f a \<and> format q2 = format a
    \<and> format q1 = format a \<and> writable q2 = writable q \<and> atomic_commit q2 = atomic_commit q
    \<and> cur_pakpath q2 = cur_pakpath q \<and> is_new q2 = is_new q \<and> dirty q2 = dirty q
    \<and> needs_rebuild q2 = needs_rebuild q \<and> unat (num_entries q2) = length (entries q2)
    \<and> map filename (entries q2) = map filename (entries a)"
proof -
  obtain g where g: "pakka_pak_geometry (format a) = Some g" "signature a = g_signature g"
    using wf by (auto simp: archive_wf_def)
  have wfe: "entry_wf (format a) (pe a) e" if "e \<in> set (entries a)" for e
    using wf that by (simp add: archive_wf_def)
  have od: "dk_is_compressed (on_disk_entry g e) = dk_is_compressed e"
    "entry_end (on_disk_entry g e) = entry_end e" "entry_wf (format a) (pe a) (on_disk_entry g e)"
    "entry_content fs h (on_disk_entry g e) = entry_content fs h e" if "e \<in> set (entries a)" for e h
    using on_disk_entry_wf [OF wfe [OF that] g(1)] ns that by simp_all
  have i: "take 12 (f_data f) = header_bytes a" "12 \<le> unat (diroffset a)"
    "unat (dirlength a) = length (entries a) * dir_entry_size g"
    "unat (diroffset a) + unat (dirlength a) \<le> length (f_data f)"
    "take (unat (dirlength a)) (drop (unat (diroffset a)) (f_data f)) = dir_bytes (format a) g (entries a)"
    using im g(1) by (auto simp: image_of_def)
  have hl: "length (header_bytes a) = 12"
    using header_length geometry_facts(3) [OF g(1)] g(2) by simp
  have h1: "f_has (f\<lparr>f_pos := 0\<rparr>) (header_bytes a)"
    using i(1,2,4) hl s(3) by (intro f_has_at) simp_all
  have h2: "f_has (f\<lparr>f_pos := unat (diroffset a)\<rparr>) (dir_bytes (format a) g (entries a))"
    using i(3,4,5) dir_bytes_length [OF g(1)] s(3) by (intro f_has_at) simp_all
  have st: "\<forall>e \<in> set (entries a). name_fits g e
      \<and> (12 \<le> unat (offset e) \<or> pakka_format_is_wad (format a) \<and> entry_length e = 0)
      \<and> entry_end (on_disk_entry g e) \<le> length (f_data f)"
  proof
    fix e assume e: "e \<in> set (entries a)"
    have "disk_wf (format a) (pe a) e" using wfe [OF e] ns e by (simp add: entry_wf_def)
    with wfe [OF e] g(1) od(2) [OF e] pl
    show "name_fits g e \<and> (12 \<le> unat (offset e) \<or> pakka_format_is_wad (format a) \<and> entry_length e = 0)
      \<and> entry_end (on_disk_entry g e) \<le> length (f_data f)"
      by (auto simp: entry_wf_def disk_wf_def)
  qed
  let ?es = "map (on_disk_entry g) (entries a)"
  let ?p = "foldl grow_end (of_nat PAKFILE_HEADER_SIZE) ?es"
  obtain q1 f1 p where l: "load_pakfile zip_open q f = (PAKKA_OK, q1, f1)" "format q1 = format a"
    "load_directory (\<lambda>_. False) q1 f1 = (PAKKA_OK, q\<lparr>file_size := of_nat (length (f_data f)),
        signature := signature a, format := format a, diroffset := diroffset a,
        dirlength := dirlength a, num_entries := of_nat (length (entries a)),
        payload_end := ?p, entries := ?es\<rparr>, f\<lparr>f_pos := p, f_error := False\<rparr>)"
    using layout_loads [OF g h1 h2 i(3) mx i(2,4) s(1,2) st q(1,2), of zip_open] by blast
  let ?q2 = "q\<lparr>file_size := of_nat (length (f_data f)), signature := signature a, format := format a,
    diroffset := diroffset a, dirlength := dirlength a, num_entries := of_nat (length (entries a)),
    payload_end := ?p, entries := ?es\<rparr>"
  have un: "unat (of_nat (length (entries a)) :: u32) = length (entries a)"
    using mx by (simp add: unat_of_nat_u32 PAKFILE_MAX_ENTRIES_def)
  have pe: "unat ?p \<le> pe a" "12 \<le> unat ?p" "\<forall>e \<in> set ?es. entry_end e \<le> unat ?p"
  proof -
    have "\<forall>e \<in> set ?es. entry_end e \<le> pe a"
      using od(2) wfe ns by (auto simp: entry_wf_def disk_wf_def)
    moreover have "unat (of_nat PAKFILE_HEADER_SIZE :: u64) \<le> pe a"
      using wf by (simp add: archive_wf_def PAKFILE_HEADER_SIZE_def)
    ultimately show "unat ?p \<le> pe a" "12 \<le> unat ?p" "\<forall>e \<in> set ?es. entry_end e \<le> unat ?p"
      using grow_end_le [of ?es "pe a" "of_nat PAKFILE_HEADER_SIZE"] by (simp_all add: PAKFILE_HEADER_SIZE_def)
  qed
  have sn: "\<not> is_staged (on_disk_entry g e)" for e
    by (simp add: is_staged_def on_disk_entry_def calloc_entry_def)
  have ew: "entry_wf (format a) (unat ?p) e" if "e \<in> set ?es" for e
    using that od(3) sn pe(3) by (auto simp: entry_wf_def disk_wf_def)
  have fn: "filename \<circ> on_disk_entry g = filename" by (rule ext) (simp add: on_disk_entry_def)
  then have nm: "map filename ?es = map filename (entries a)" by simp
  have "archive_wf (?q2\<lparr>fp := Some (f\<lparr>f_pos := p, f_error := False\<rparr>)\<rparr>)"
    using wf g pe ew un pl sn unfolding archive_wf_def by (auto simp: pe_def names_distinct_def fn)
  moreover have "listing fs (f\<lparr>f_pos := p, f_error := False\<rparr>) ?q2 = listing fs f a"
  proof -
    have "entry_content fs (f\<lparr>f_pos := p, f_error := False\<rparr>) e = entry_content fs f e" for e
      by (intro entry_content_cong) (simp_all add: stored_bytes_def payload_bytes_def cong: option.case_cong)
    then show ?thesis using od(4) by (simp add: listing_def) (simp add: on_disk_entry_def)
  qed
  ultimately show ?thesis using l un nm by (intro exI conjI) (assumption | simp)+
qed

end
