(* ===== verification/Commit_Props.thy ===== *)
theory Commit_Props
  imports Add_Props Pak_Commit Disk_Image
begin

text \<open>
  What a commit does: payloads that are shared stay shared, a rebuild keeps names and contents and
  leaves nothing staged, an error before the rename leaves the archive file and the handle as they
  were, and what was committed is on disk as the loader reads it.
\<close>

section \<open>Shared payloads\<close>

text \<open>Two entries on disk whose payload is the same range of the file.\<close>

definition same_payload :: "pentry \<Rightarrow> pentry \<Rightarrow> bool" where
  "same_payload d e \<longleftrightarrow> \<not> is_staged d \<and> \<not> is_staged e \<and> offset d = offset e
     \<and> pak_entry_on_disk_extent d = pak_entry_on_disk_extent e"

definition same_key :: "pak_dedup_key \<Rightarrow> pak_dedup_key \<Rightarrow> bool" where
  "same_key k l \<longleftrightarrow> k_offset k = k_offset l \<and> k_extent k = k_extent l"

lemma same_key_simps [simp]: "same_key k k"
  by (simp add: same_key_def)

lemma same_key_trans: "same_key k l \<Longrightarrow> same_key l m \<Longrightarrow> same_key k m"
  by (simp add: same_key_def)

text \<open>Keys that agree stand together in the sorted list, the least place first.\<close>

lemma key_between: "k \<le> l \<Longrightarrow> l \<le> m \<Longrightarrow> same_key k m \<Longrightarrow> same_key k l"
  by (cases k; cases l; cases m) (auto simp: less_eq_pak_dedup_key_def same_key_def split: if_splits)

lemma key_idx: "k \<le> l \<Longrightarrow> same_key k l \<Longrightarrow> k_idx k \<le> k_idx l"
  by (cases k; cases l) (auto simp: less_eq_pak_dedup_key_def same_key_def split: if_splits)

lemma dedup_scan_length [simp]: "length (dedup_scan ks owner) = length owner"
  by (induction ks owner rule: dedup_scan.induct) simp_all

lemma dedup_scan_other: "j \<notin> k_idx ` set (tl ks) \<Longrightarrow> dedup_scan ks owner ! j = owner ! j"
  by (induction ks owner rule: dedup_scan.induct) auto

definition group_head :: "pak_dedup_key list \<Rightarrow> pak_dedup_key \<Rightarrow> pak_dedup_key" where
  "group_head ks k = hd (filter (same_key k) ks)"

lemma dedup_scan_heads:
  "sorted (k1 # ks) \<Longrightarrow> distinct (map k_idx (k1 # ks)) \<Longrightarrow> \<forall>k \<in> set (k1 # ks). k_idx k < length owner \<Longrightarrow>
   \<forall>k \<in> set ks. owner ! k_idx k = k_idx k \<Longrightarrow> k \<in> set ks \<Longrightarrow>
   dedup_scan (k1 # ks) owner ! k_idx k =
     (if same_key k1 k then owner ! k_idx k1 else k_idx (group_head ks k))"
proof (induction ks arbitrary: k1 owner)
  case (Cons k2 ks)
  let ?o = "if k_offset k2 = k_offset k1 \<and> k_extent k2 = k_extent k1
        then owner[k_idx k2 := owner ! k_idx k1] else owner"
  have d: "k_idx k2 \<notin> k_idx ` set ks" "k_idx k2 \<noteq> k_idx k1" using Cons.prems(2) by auto
  have o2: "?o ! k_idx k2 = (if same_key k1 k2 then owner ! k_idx k1 else k_idx k2)"
    using Cons.prems(3,4) by (auto simp: same_key_def)
  have eq: "dedup_scan (k1 # k2 # ks) owner = dedup_scan (k2 # ks) ?o" by simp
  show ?case
  proof (cases "k = k2")
    case True
    have "dedup_scan (k2 # ks) ?o ! k_idx k2 = ?o ! k_idx k2" by (rule dedup_scan_other) (use d in auto)
    then show ?thesis unfolding eq True o2 by (simp add: group_head_def)
  next
    case False
    then have k: "k \<in> set ks" using Cons.prems(5) by simp
    have "?o ! k_idx l = k_idx l" if "l \<in> set ks" for l
    proof -
      have "k_idx k2 \<noteq> k_idx l" using d(1) that by (metis image_eqI)
      then show ?thesis using Cons.prems(4) that by simp
    qed
    then have IH: "dedup_scan (k2 # ks) ?o ! k_idx k =
        (if same_key k2 k then ?o ! k_idx k2 else k_idx (group_head ks k))"
      using Cons.prems k by (intro Cons.IH) auto
    have le: "k1 \<le> k2" "k2 \<le> k" using Cons.prems(1) k by auto
    show ?thesis
    proof (cases "same_key k2 k")
      case True
      then have "same_key k1 k \<longleftrightarrow> same_key k1 k2" "same_key k k2"
        using same_key_trans by (auto simp: same_key_def)
      with True show ?thesis unfolding eq IH o2 by (simp add: group_head_def)
    next
      case False
      then have "\<not> same_key k1 k" "\<not> same_key k k2"
        using key_between [OF le] by (auto simp: same_key_def)
      with False show ?thesis unfolding eq IH by (simp add: group_head_def)
    qed
  qed
qed simp

lemma dedup_scan_sorted:
  assumes "sorted ks" "distinct (map k_idx ks)" "\<forall>k \<in> set ks. k_idx k < n" "k \<in> set ks"
  shows "dedup_scan ks [0..<n] ! k_idx k = k_idx (group_head ks k)"
proof -
  obtain k1 ls where ks: "ks = k1 # ls" using assms(4) by (cases ks) auto
  show ?thesis
  proof (cases "k = k1")
    case True
    have "k_idx k1 \<notin> k_idx ` set ls" using assms(2) ks by auto
    then have "dedup_scan (k1 # ls) [0..<n] ! k_idx k1 = [0..<n] ! k_idx k1"
      by (intro dedup_scan_other) simp
    then show ?thesis using assms(3) ks by (simp add: True group_head_def)
  next
    case False
    then have "k \<in> set ls" using assms(4) ks by simp
    with assms ks have "dedup_scan (k1 # ls) [0..<n] ! k_idx k =
        (if same_key k1 k then [0..<n] ! k_idx k1 else k_idx (group_head ls k))"
      by (intro dedup_scan_heads) auto
    then show ?thesis using assms(3) ks by (auto simp: group_head_def same_key_def)
  qed
qed

lemma group_head_least:
  assumes "sorted ks" "k \<in> set ks"
  shows "group_head ks k \<in> set ks" "same_key k (group_head ks k)"
    "l \<in> set ks \<Longrightarrow> same_key k l \<Longrightarrow> k_idx (group_head ks k) \<le> k_idx l"
proof -
  let ?fs = "filter (same_key k) ks"
  have ne: "?fs \<noteq> []" using assms(2) by (auto simp: filter_empty_conv intro: bexI [of _ k])
  then have h: "group_head ks k \<in> set ?fs" unfolding group_head_def by (rule hd_in_set)
  then show "group_head ks k \<in> set ks" "same_key k (group_head ks k)" by auto
  assume l: "l \<in> set ks" "same_key k l"
  have "sorted ?fs" using assms(1) by (simp add: sorted_wrt_filter)
  moreover have "l \<in> set ?fs" using l by simp
  ultimately have "group_head ks k \<le> l"
    unfolding group_head_def using ne by (cases ?fs) auto
  then show "k_idx (group_head ks k) \<le> k_idx l"
    using h l by (intro key_idx) (auto simp: same_key_def)
qed

definition key_of :: "pentry list \<Rightarrow> nat \<Rightarrow> pak_dedup_key" where
  "key_of es i = Dedup_key (offset (es ! i)) (pak_entry_on_disk_extent (es ! i)) i"

lemma dedup_keys_eq: "dedup_keys es = map (key_of es) (filter (\<lambda>i. \<not> is_staged (es ! i)) [0..<length es])"
proof -
  have e: "enumerate 0 es = map (\<lambda>i. (i, es ! i)) [0..<length es]"
    by (simp add: enumerate_eq_zip map_nth [symmetric] zip_map_fst_snd) (rule nth_equalityI, auto)
  show ?thesis
    unfolding dedup_keys_def e
    by (simp add: filter_map o_def key_of_def [abs_def] is_staged_def)
qed

lemma dedup_keys_props:
  "k \<in> set (dedup_keys es) \<longleftrightarrow> (\<exists>i < length es. \<not> is_staged (es ! i) \<and> k = key_of es i)"
  "distinct (map k_idx (dedup_keys es))"
  by (auto simp: dedup_keys_eq o_def key_of_def)

lemma dedup_owner_table:
  assumes "dedup_owner env es = Some owner" "i < length es"
  shows "length owner = length es \<and> owner ! i \<le> i
    \<and> (if is_staged (es ! i) then owner ! i = i
       else same_payload (es ! (owner ! i)) (es ! i)
         \<and> list_all (\<lambda>j. \<not> same_payload (es ! j) (es ! i)) [0..<owner ! i])"
proof -
  let ?ks = "sort (dedup_keys es)"
  have ow: "owner = dedup_scan ?ks [0..<length es]"
    using assms(1) by (auto simp: dedup_owner_def split: if_splits)
  have ks: "sorted ?ks" "distinct (map k_idx ?ks)" "\<forall>k \<in> set ?ks. k_idx k < length es"
    using dedup_keys_props by (auto simp: key_of_def distinct_map)
  show ?thesis
  proof (cases "is_staged (es ! i)")
    case True
    then have "i \<notin> k_idx ` set ?ks" using dedup_keys_props(1) [of _ es] by (auto simp: key_of_def)
    then have "i \<notin> k_idx ` set (tl ?ks)" using list.set_sel(2) [of ?ks] by (cases ?ks) auto
    with True ow assms(2) show ?thesis by (simp add: dedup_scan_other)
  next
    case False
    let ?h = "group_head ?ks (key_of es i)"
    have k: "key_of es i \<in> set ?ks" using False assms(2) by (auto simp: dedup_keys_props(1))
    have o: "owner ! i = k_idx ?h"
      using dedup_scan_sorted [OF ks k] by (simp add: ow key_of_def)
    obtain j where j: "j < length es" "\<not> is_staged (es ! j)" "?h = key_of es j"
      using group_head_least(1) [OF ks(1) k] by (auto simp: dedup_keys_props(1))
    have "owner ! i = j" using o j(3) by (simp add: key_of_def)
    moreover have "same_payload (es ! j) (es ! i)"
      using group_head_least(2) [OF ks(1) k] j False by (simp add: same_payload_def same_key_def key_of_def)
    moreover have le: "j \<le> l" if "l < length es" "same_payload (es ! l) (es ! i)" for l
      using group_head_least(3) [OF ks(1) k, of "key_of es l"] that j(3)
      by (auto simp: dedup_keys_props(1) same_payload_def same_key_def key_of_def)
    moreover have "j \<le> i" using le [of i] False assms(2) by (simp add: same_payload_def)
    moreover have "list_all (\<lambda>l. \<not> same_payload (es ! l) (es ! i)) [0..<j]"
    proof -
      have "\<not> same_payload (es ! l) (es ! i)" if "l < j" for l using le [of l] that j(1) by auto
      then show ?thesis by (simp add: list_all_iff)
    qed
    ultimately show ?thesis using False ow by simp
  qed
qed

text \<open>The owner table of the rebuild sends every entry on disk to the first entry whose payload is
  the same range of the file, and every staged entry to itself: so every distinct range is copied once,
  by an entry that comes no later than those that share it. The sort and scan compute this; the table
  is missing only when the list is empty or its memory cannot be had.\<close>

theorem dedup_owner_spec:
  assumes "dedup_owner env es = Some owner" "i < length es"
  shows "length owner = length es \<and> owner ! i \<le> i
    \<and> (if is_staged (es ! i) then owner ! i = i
       else same_payload (es ! (owner ! i)) (es ! i)
         \<and> list_all (\<lambda>j. \<not> same_payload (es ! j) (es ! i)) [0..<owner ! i])"
  using dedup_owner_table [OF assms] .

definition shared_pak :: archive where
  "shared_pak = sample_pak\<lparr>num_entries := 3, entries := entries sample_pak @
     [calloc_entry\<lparr>filename := ascii ''a2.cfg'', offset := 12, entry_length := 3\<rparr>]\<rparr>"

lemma dedup_owner_spec_witness:
  "\<exists>owner. dedup_owner quiet_env (entries shared_pak) = Some owner \<and> length owner = 3 \<and> owner ! 2 \<le> 2
     \<and> same_payload (entries shared_pak ! (owner ! 2)) (entries shared_pak ! 2)"
proof -
  obtain owner where r: "dedup_owner quiet_env (entries shared_pak) = Some owner"
    by (simp add: dedup_owner_def shared_pak_def quiet_env_def)
  have "2 < length (entries shared_pak)" "\<not> is_staged (entries shared_pak ! 2)" "length (entries shared_pak) = 3"
    by (simp_all add: shared_pak_def sample_pak_def is_staged_def calloc_entry_def)
  with dedup_owner_spec [OF r this(1)] r show ?thesis by auto
qed

section \<open>Copying payloads\<close>

lemma stored_bytes_data: "f_data g = f_data f \<Longrightarrow> stored_bytes fs g e = stored_bytes fs f e"
  by (simp add: stored_bytes_def payload_bytes_def cong: option.case_cong)

lemma regular_bytes: "fs p = Some (Regular b) \<Longrightarrow> file_bytes fs p = b"
  by (simp add: file_bytes_def)

text \<open>The staged source is copied only while it is the regular file whose size and checksum were
  recorded.\<close>

lemma pak_copy_pending_source_OK:
  assumes r: "pak_copy_pending_source env fs source e t = (PAKKA_OK, t')"
  shows "t' = f_put t (file_bytes fs source) \<and> length (file_bytes fs source) = unat (entry_length e)
    \<and> fs source = Some (Regular (file_bytes fs source))
    \<and> crc32 e = pakka_crc32_update 0 (file_bytes fs source)"
proof -
  obtain b where b: "fs source = Some (Regular b)" "length b = unat (entry_length e)"
    using r by (auto simp: pak_copy_pending_source_def pakka_platform_lstat_def
        split: if_splits option.splits node.splits)
  then have l: "pakka_platform_lstat env fs source = Some (Regular b)" "\<not> pakka_platform_is_reparse_or_symlink env fs source"
    using r by (auto simp: pak_copy_pending_source_def pakka_platform_is_reparse_or_symlink_def
        pakka_platform_lstat_def split: if_splits option.splits)
  obtain li where o: "pakka_platform_fopen env fs source False = Some (stream_of li b)"
    using r b l by (auto simp: pak_copy_pending_source_def pakka_platform_fopen_def split: option.splits)
  obtain s crc t1 where c: "copy_crc (stream_of li b) t (unat (entry_length e)) 0 = (s, crc, t1)"
    using prod_cases3 by blast
  with r b l o have OK: "s = PAKKA_OK" "crc = crc32 e" "t' = t1"
    by (auto simp: pak_copy_pending_source_def split: if_splits)
  from copy_crc_OK [OF c [unfolded OK(1)]] obtain bs where
    bs: "length bs = unat (entry_length e)" "unat (entry_length e) = 0 \<or> f_has (stream_of li b) bs"
      "t1 = f_put t bs" "crc = pakka_crc32_update 0 bs" by blast
  have "source_of (stream_of li b) b" by (simp add: source_of_def)
  with bs(1,2) b(2) have "bs = b" using source_has by (cases "b = []") auto
  with bs OK b show ?thesis by (simp add: regular_bytes)
qed

text \<open>A well-formed entry contributes exactly its stored bytes, at the position the scratch file has.\<close>

lemma copy_between_paks_OK:
  assumes r: "copy_between_paks env fs i e ffd t = (PAKKA_OK, off, ffd', t')"
    and st: "is_staged e \<Longrightarrow> staged_wf e"
  shows "t' = f_put t (stored_bytes fs ffd e) \<and> unat off = f_pos t \<and> f_pos t < 2 ^ 32
    \<and> length (stored_bytes fs ffd e) = unat (pak_entry_on_disk_extent e) \<and> f_data ffd' = f_data ffd"
proof -
  have pos: "ftell t = Some (f_pos t)" "f_pos t < 2 ^ 32" and off: "off = of_nat (f_pos t)"
    using r by (auto simp: copy_between_paks_def ftell_def UINT32_MAX_def Let_def split: if_splits option.splits prod.splits)
  have uo: "unat off = f_pos t" using pos(2) off by (simp add: unat_of_nat_u32)
  show ?thesis
  proof (cases "pending_source e")
    case (Some source)
    then have "pak_copy_pending_source env fs source e t = (PAKKA_OK, t')" "ffd' = ffd"
      using r pos by (auto simp: copy_between_paks_def Let_def split: prod.splits if_splits)
    from pak_copy_pending_source_OK [OF this(1)] this(2) Some st pos(2) uo show ?thesis
      by (simp add: stored_bytes_def is_staged_def staged_wf_def pak_entry_on_disk_extent_def)
  next
    case no: None
    show ?thesis
    proof (cases "pending_data e")
      case (Some data)
      then have "t' = f_put t data" "ffd' = ffd"
        using r pos no by (auto simp: copy_between_paks_def Let_def fwrite_all_True split: prod.splits if_splits)
      with Some no st pos(2) uo show ?thesis
        by (simp add: stored_bytes_def is_staged_def staged_wf_def)
    next
      case None
      obtain ok1 f1 where sk: "fseek_set ffd (unat (offset e)) = (ok1, f1)" by fastforce
      have ok1: "ok1" using r pos no None sk by (auto simp: copy_between_paks_def Let_def split: if_splits)
      then have f1: "f1 = ffd\<lparr>f_pos := unat (offset e)\<rparr>" using sk by (simp add: fseek_set_True)
      have sb: "stored_bytes fs ffd e = payload_bytes ffd e" using no None by (simp add: stored_bytes_def)
      have c: "copy_chunks f1 t (unat (pak_entry_on_disk_extent e)) = (PAKKA_OK, ffd', t')"
        using r pos no None sk ok1 by (auto simp: copy_between_paks_def Let_def split: if_splits prod.splits)
      from copy_chunks_OK [OF c] obtain bs where bs: "length bs = unat (pak_entry_on_disk_extent e)"
        "bs = [] \<or> f_has f1 bs" "t' = f_put t bs" "ffd' = f_skip f1 (unat (pak_entry_on_disk_extent e))"
        by auto
      then have "bs = payload_bytes ffd e"
        by (auto simp: f1 f_has_def payload_bytes_def)
      with bs uo pos(2) show ?thesis by (simp add: sb f1)
    qed
  qed
qed

lemma copy_between_paks_frame:
  assumes "copy_between_paks env fs i e ffd t = (s, off, ffd', t')"
  shows "f_data ffd' = f_data ffd"
proof -
  have "f_data g = f_data ffd" if "fseek_set ffd n = (b, g)" for n b g
    using fseek_set_cases [OF that] by auto
  moreover have "f_data g' = f_data g" if "copy_chunks g t n = (s1, g', t1)" for g n s1 g' t1
    using copy_chunks_frame [OF that] by blast
  ultimately show ?thesis
    using assms by (auto simp: copy_between_paks_def Let_def split: if_splits option.splits prod.splits)
qed

text \<open>The payloads of \<open>es\<close> are in the scratch file at the offsets assigned to them.\<close>

definition in_scratch :: "files \<Rightarrow> cfile \<Rightarrow> cfile \<Rightarrow> pentry \<Rightarrow> u32 \<Rightarrow> bool" where
  "in_scratch fs f t e off \<longleftrightarrow> 12 \<le> unat off \<and> unat off + unat (pak_entry_on_disk_extent e) \<le> f_pos t
     \<and> take (unat (pak_entry_on_disk_extent e)) (drop (unat off) (f_data t)) = stored_bytes fs f e
     \<and> length (stored_bytes fs f e) = unat (pak_entry_on_disk_extent e)"

definition copied :: "files \<Rightarrow> cfile \<Rightarrow> pentry list \<Rightarrow> u32 list \<Rightarrow> cfile \<Rightarrow> bool" where
  "copied fs f es offs t \<longleftrightarrow> 12 \<le> f_pos t \<and> f_pos t < 2 ^ 33 \<and> f_pos t \<le> max 12 (length (f_data t))
     \<and> list_all2 (in_scratch fs f t) es offs"

lemma in_scratch_inside:
  assumes "in_scratch fs f t e off"
  shows "unat (pak_entry_on_disk_extent e) = 0
    \<or> unat off + unat (pak_entry_on_disk_extent e) \<le> length (f_data t)"
proof -
  have "length (take (unat (pak_entry_on_disk_extent e)) (drop (unat off) (f_data t)))
      = unat (pak_entry_on_disk_extent e)"
    using assms by (simp only: in_scratch_def)
  then show ?thesis by auto
qed

lemma in_scratch_put:
  assumes "in_scratch fs f t e off"
  shows "in_scratch fs f (f_put t bs) e off"
proof -
  let ?n = "unat (pak_entry_on_disk_extent e)"
  have "take ?n (drop (unat off) (f_data (f_put t bs))) = take ?n (drop (unat off) (f_data t))"
  proof (cases "?n = 0")
    case False
    with in_scratch_inside [OF assms] assms show ?thesis
      by (intro f_keeps_range [OF f_extends_put [of "f_pos t" t bs]]) (auto simp: in_scratch_def)
  qed simp
  with assms show ?thesis by (simp add: in_scratch_def)
qed

lemma in_scratch_new:
  assumes "unat off = f_pos t" "12 \<le> f_pos t" "length (stored_bytes fs f e) = unat (pak_entry_on_disk_extent e)"
  shows "in_scratch fs f (f_put t (stored_bytes fs f e)) e off"
  using assms splice_at [of "stored_bytes fs f e" "f_pos t" "f_data t"] by (simp add: in_scratch_def)

lemma in_scratch_same:
  "same_payload d e \<Longrightarrow> in_scratch fs f t d off \<Longrightarrow> in_scratch fs f t e off"
  by (simp add: in_scratch_def same_payload_def stored_bytes_def payload_bytes_def is_staged_def
      cong: option.case_cong)

text \<open>What the copy loop needs of the owner table.\<close>

definition owner_ok :: "pentry list \<Rightarrow> nat list option \<Rightarrow> bool" where
  "owner_ok es owner \<longleftrightarrow> (\<forall>ow i. owner = Some ow \<longrightarrow> i < length es \<longrightarrow> ow ! i \<noteq> i \<longrightarrow>
     ow ! i < i \<and> same_payload (es ! (ow ! i)) (es ! i))"

lemma rebuild_copy_OK:
  "rebuild_copy env fs owner (length pre) rest ffd t offs = (PAKKA_OK, offs', ffd', t') \<Longrightarrow>
   copied fs f pre offs t \<Longrightarrow> owner_ok (pre @ rest) owner \<Longrightarrow> f_data ffd = f_data f \<Longrightarrow>
   \<forall>e \<in> set rest. is_staged e \<longrightarrow> staged_wf e \<Longrightarrow> copied fs f (pre @ rest) offs' t'"
proof (induction rest arbitrary: pre ffd t offs)
  case (Cons e rest)
  have len: "length offs = length pre" using Cons.prems(2) by (auto simp: copied_def dest: list_all2_lengthD)
  note IH = Cons.IH [of "pre @ [e]"]
  show ?case
  proof (cases "owner \<noteq> None \<and> the owner ! length pre \<noteq> length pre")
    case True
    then obtain ow where ow: "owner = Some ow" "ow ! length pre \<noteq> length pre" by auto
    let ?j = "ow ! length pre"
    have "length pre < length (pre @ e # rest)" by simp
    with Cons.prems(3) ow have "?j < length pre \<and> same_payload ((pre @ e # rest) ! ?j) ((pre @ e # rest) ! length pre)"
      unfolding owner_ok_def by blast
    then have j: "?j < length pre" "same_payload ((pre @ e # rest) ! ?j) e" by (simp_all only: nth_append_length)
    then have "in_scratch fs f t (pre ! ?j) (offs ! ?j)" "same_payload (pre ! ?j) e"
      using Cons.prems(2) len by (auto simp: copied_def list_all2_conv_all_nth nth_append)
    then have c: "copied fs f (pre @ [e]) (offs @ [offs ! ?j]) t"
      using Cons.prems(2) in_scratch_same by (auto simp: copied_def intro!: list_all2_appendI)
    from True ow Cons.prems(1) have
      "rebuild_copy env fs owner (length (pre @ [e])) rest ffd t (offs @ [offs ! ?j]) = (PAKKA_OK, offs', ffd', t')"
      by simp
    from IH [OF this c] Cons.prems(3,4,5) show ?thesis by simp
  next
    case False
    obtain s off ffd1 t1 where b: "copy_between_paks env fs (length pre) e ffd t = (s, off, ffd1, t1)"
      using prod_cases4 by blast
    with Cons.prems(1) False have s: "s = PAKKA_OK" and
      r: "rebuild_copy env fs owner (length (pre @ [e])) rest ffd1 t1 (offs @ [off]) = (PAKKA_OK, offs', ffd', t')"
      by (auto split: if_splits)
    have "is_staged e \<Longrightarrow> staged_wf e" using Cons.prems(5) by simp
    note o = copy_between_paks_OK [OF b [unfolded s] this]
    have sb: "stored_bytes fs ffd e = stored_bytes fs f e" by (rule stored_bytes_data [OF Cons.prems(4)])
    have "f_pos t1 < 2 ^ 33"
      using o unat_u32_bound [of "pak_entry_on_disk_extent e"] by auto
    moreover have "f_pos t1 \<le> max 12 (length (f_data t1))"
      using o Cons.prems(2) length_splice_eq [of "stored_bytes fs ffd e" "f_data t" "f_pos t"]
      by (cases "stored_bytes fs ffd e = []") (simp_all add: copied_def)
    moreover have "list_all2 (in_scratch fs f t1) pre offs"
      using Cons.prems(2) o in_scratch_put by (auto simp: copied_def elim!: list_all2_mono)
    moreover have "in_scratch fs f t1 e off"
      using in_scratch_new [of off t fs f e] o Cons.prems(2) by (simp add: sb copied_def)
    ultimately have c: "copied fs f (pre @ [e]) (offs @ [off]) t1"
      using o Cons.prems(2) by (auto simp: copied_def intro!: list_all2_appendI)
    have "f_data ffd1 = f_data f" using o Cons.prems(4) by simp
    from IH [OF r c _ this] Cons.prems(3,5) show ?thesis by simp
  qed
qed simp

lemma rebuild_copy_frame:
  "rebuild_copy env fs owner i rest ffd t offs = (s, offs', ffd', t') \<Longrightarrow> f_data ffd' = f_data ffd"
proof (induction rest arbitrary: i ffd t offs)
  case (Cons e rest)
  show ?case
  proof (cases "owner \<noteq> None \<and> the owner ! i \<noteq> i")
    case True
    with Cons show ?thesis by auto
  next
    case False
    obtain s1 off ffd1 t1 where b: "copy_between_paks env fs i e ffd t = (s1, off, ffd1, t1)"
      using prod_cases4 by blast
    show ?thesis
      using Cons b False copy_between_paks_frame [OF b] by (auto split: if_splits)
  qed
qed simp

section \<open>The scratch file\<close>

lemma mkstemp_at_bytes:
  assumes "mkstemp_at env fs t = (r, fs')" "mkstemp_fresh env"
  shows "file_bytes fs' q = file_bytes fs q"
proof -
  have n: "fs q = None" if "e_mkstemp env fs t = Some q"
    using assms(2) that by (auto simp: mkstemp_fresh_def)
  have "fs' q = fs q \<or> fs q = None \<and> fs' q = Some (Regular [])"
    using assms(1) n by (auto simp: mkstemp_at_def pakka_platform_remove_def split: if_splits option.splits)
  then show ?thesis by (auto simp: file_bytes_def)
qed

lemma mkstemp_open_bytes:
  assumes "pakka_platform_mkstemp_open env fs target t = (r, fs')" "mkstemp_fresh env"
  shows "file_bytes fs' q = file_bytes fs q"
proof -
  obtain r1 fs1 where d: "mkstemp_open_in_dir env fs target t = (r1, fs1)" by fastforce
  have k: "file_bytes fs1 q = file_bytes fs q"
    using d assms(2) by (auto simp: mkstemp_open_in_dir_def split: if_splits intro: mkstemp_at_bytes)
  have "fs' = fs1 \<or> mkstemp_at env fs1 (ascii ''/tmp/'' @ t) = (r, fs')"
    using assms(1) d by (auto simp: pakka_platform_mkstemp_open_def split: option.splits)
  with k mkstemp_at_bytes [OF _ assms(2)] show ?thesis by metis
qed

lemma stored_bytes_files: "(\<And>q. file_bytes gs q = file_bytes fs q) \<Longrightarrow> stored_bytes gs f e = stored_bytes fs f e"
  by (simp add: stored_bytes_def cong: option.case_cong)

lemma drop_scratch_other: "q \<noteq> scratch \<Longrightarrow> drop_scratch env fs scratch t q = fs q"
  by (cases "publish env fs scratch t") (simp add: drop_scratch_def publish_other)

section \<open>Installing the new layout\<close>

lemma set_offsets_twice:
  "length offs = length es \<Longrightarrow> set_offsets (set_offsets es offs) (map offset es) = es"
  by (induction es offs rule: list_induct2') (simp_all add: set_offsets_def)

lemma map_set_offsets:
  "list_all2 R es offs \<Longrightarrow> (\<And>e x. e \<in> set es \<Longrightarrow> R e x \<Longrightarrow> g (e\<lparr>offset := x\<rparr>) = h e) \<Longrightarrow>
   map g (set_offsets es offs) = map h es"
  by (induction rule: list_all2_induct) (simp_all add: set_offsets_def)

lemma set_offsets_all:
  "list_all2 R es offs \<Longrightarrow> (\<And>e x. e \<in> set es \<Longrightarrow> R e x \<Longrightarrow> P (e\<lparr>offset := x\<rparr>)) \<Longrightarrow>
   \<forall>e \<in> set (set_offsets es offs). P e"
  by (induction rule: list_all2_induct) (simp_all add: set_offsets_def)

lemma moved_simps [simp]:
  "filename (e\<lparr>offset := x\<rparr>) = filename e" "pak_entry_on_disk_extent (e\<lparr>offset := x\<rparr>) = pak_entry_on_disk_extent e"
  "filename (clear_pending e) = filename e" "pak_entry_on_disk_extent (clear_pending e) = pak_entry_on_disk_extent e"
  "\<not> is_staged (clear_pending e)" "offset (clear_pending e) = offset e" "entry_length (clear_pending e) = entry_length e"
  "dk_is_compressed (clear_pending e) = dk_is_compressed e" "name_fits g (clear_pending e) = name_fits g e"
  "dk_compressed_size (clear_pending e) = dk_compressed_size e"
  "name_fits g (e\<lparr>offset := x\<rparr>) = name_fits g e"
  "pending_source (clear_pending e) = None" "pending_data (clear_pending e) = None"
  by (simp_all add: pak_entry_on_disk_extent_def clear_pending_def is_staged_def name_fits_def)

text \<open>The archive after a rebuild whose payloads lie at \<open>offs\<close>.\<close>

definition relaid :: "archive \<Rightarrow> u32 list \<Rightarrow> nat \<Rightarrow> u32 \<Rightarrow> u32 \<Rightarrow> archive" where
  "relaid a offs pend x y = a\<lparr>entries := set_offsets (entries a) offs, payload_end := of_nat pend,
     diroffset := x, dirlength := y\<rparr>"

definition settled :: "archive \<Rightarrow> archive" where
  "settled a = a\<lparr>entries := map clear_pending (entries a), dirty := False, needs_rebuild := False\<rparr>"

lemma settled_wf:
  assumes wf: "archive_wf a" and c: "copied fs f (entries a) offs t"
    and k: "f_keeps (\<lambda>i. 12 \<le> i \<and> i < f_pos t) t t2" and l: "f_pos t \<le> length b" "f_data t2 = b"
    and g: "f_data f' = b"
  shows "archive_wf (settled (relaid a offs (f_pos t) x y)\<lparr>fp := Some f'\<rparr>)"
    "listing gs f' (settled (relaid a offs (f_pos t) x y)) = listing fs f a"
proof -
  let ?a = "settled (relaid a offs (f_pos t) x y)\<lparr>fp := Some f'\<rparr>"
  have L: "list_all2 (in_scratch fs f t) (entries a) offs" and p: "12 \<le> f_pos t" "f_pos t < 2 ^ 33"
    using c by (auto simp: copied_def)
  have pe: "pe ?a = f_pos t"
    using p(2) by (simp add: pe_def relaid_def settled_def unat_of_nat_u64)
  have len: "length (entries ?a) = length (entries a)"
    using list_all2_lengthD [OF L] by (simp add: relaid_def settled_def set_offsets_def)
  have nm: "map filename (entries ?a) = map filename (entries a)"
    using map_set_offsets [OF L, of filename filename] by (simp add: relaid_def settled_def o_def)
  have "\<forall>e \<in> set (set_offsets (entries a) offs). entry_wf (format a) (f_pos t) (clear_pending e)"
  proof (rule set_offsets_all [OF L])
    fix e off assume e: "e \<in> set (entries a)" "in_scratch fs f t e off"
    have "entry_wf (format a) (pe a) e" using wf e(1) by (simp add: archive_wf_def)
    then show "entry_wf (format a) (f_pos t) (clear_pending (e\<lparr>offset := off\<rparr>))"
      using e(2) by (simp add: entry_wf_def disk_wf_def entry_end_def in_scratch_def)
  qed
  then have ew: "\<forall>e \<in> set (entries ?a). entry_wf (format a) (pe ?a) e"
    unfolding pe by (simp add: relaid_def settled_def)
  have "names_distinct (entries a) \<Longrightarrow> names_distinct (entries ?a)"
    unfolding names_distinct_def nm .
  moreover have "format ?a = format a" "signature ?a = signature a" "fp ?a = Some f'" "num_entries ?a = num_entries a"
    "\<forall>e \<in> set (entries ?a). \<not> is_staged e"
    by (auto simp: relaid_def settled_def)
  ultimately show "archive_wf ?a"
    using wf pe p len ew l g unfolding archive_wf_def by auto
  have "entry_content gs f' (clear_pending (e\<lparr>offset := off\<rparr>)) = entry_content fs f e"
    if "in_scratch fs f t e off" for e off
  proof (rule entry_content_cong)
    let ?n = "unat (pak_entry_on_disk_extent e)"
    have w: "12 \<le> unat off" "unat off + ?n \<le> f_pos t" "take ?n (drop (unat off) (f_data t)) = stored_bytes fs f e"
      "length (stored_bytes fs f e) = ?n"
      using that by (auto simp: in_scratch_def)
    have "take ?n (drop (unat off) b) = stored_bytes fs f e"
    proof (cases "?n = 0")
      case False
      then have "unat off + ?n \<le> length (f_data t)"
        using in_scratch_inside [OF that] by simp
      then have "take ?n (drop (unat off) (f_data t2)) = take ?n (drop (unat off) (f_data t))"
        using w(1,2) by (intro f_keeps_range [OF k]) auto
      then show ?thesis using w(3) l(2) by simp
    qed (use w(4) in simp)
    then show "stored_bytes gs f' (clear_pending (e\<lparr>offset := off\<rparr>)) = stored_bytes fs f e"
      using g by (simp add: stored_bytes_def [of gs] payload_bytes_def)
  qed simp_all
  then have "map (\<lambda>e. (filename e, entry_content gs f' (clear_pending e))) (set_offsets (entries a) offs) =
      map (\<lambda>e. (filename e, entry_content fs f e)) (entries a)"
    by (intro map_set_offsets [OF L]) simp
  then show "listing gs f' (settled (relaid a offs (f_pos t) x y)) = listing fs f a"
    by (simp add: listing_def relaid_def settled_def o_def)
qed

section \<open>The outcomes of a rebuild\<close>

text \<open>Nothing happened to the archive, on disk or in memory; the other stream has the same bytes.\<close>

definition rebuild_kept :: "archive \<Rightarrow> cfile \<Rightarrow> status \<Rightarrow> archive \<Rightarrow> bool" where
  "rebuild_kept a f s a' \<longleftrightarrow> s \<noteq> PAKKA_OK \<and> (\<exists>g. a' = a\<lparr>fp := Some g\<rparr> \<and> f_data g = f_data f)"

text \<open>The rename was refused: the archive is as before, reopened.\<close>

definition rename_refused :: "env \<Rightarrow> archive \<Rightarrow> status \<Rightarrow> archive \<Rightarrow> files \<Rightarrow> bool" where
  "rename_refused env a s a' fs' \<longleftrightarrow> s \<noteq> PAKKA_OK
     \<and> a' = a\<lparr>fp := pakka_platform_fopen env fs' (pak_path a) True\<rparr>"

text \<open>The new archive is in place.\<close>

definition rebuild_done :: "env \<Rightarrow> files \<Rightarrow> archive \<Rightarrow> cfile \<Rightarrow> status \<Rightarrow> archive \<Rightarrow> files \<Rightarrow> bool" where
  "rebuild_done env fs a f s a' fs' \<longleftrightarrow> (\<exists>c b. fs' (pak_path a) = Some (Regular b)
     \<and> image_of (settled c) b
     \<and> (\<forall>g gs. f_data g = b \<longrightarrow> archive_wf (settled c\<lparr>fp := Some g\<rparr>) \<and> listing gs g (settled c) = listing fs f a)
     \<and> (\<exists>offs pend x y. c = relaid a offs pend x y)
     \<and> (case pakka_platform_fopen env fs' (pak_path a) True of
          None \<Rightarrow> s = PAKKA_ERR_IO \<and> a' = c\<lparr>fp := None\<rparr>
        | Some g \<Rightarrow> s = PAKKA_OK \<and> a' = settled c\<lparr>fp := Some g\<rparr> \<and> f_data g = b))"

lemma rebuild_publish_cases:
  assumes wf: "archive_wf a" and c: "copied fs f (entries a) offs t" and d: "f_data ffd = f_data f"
    and ne: "scratch \<noteq> pak_path a"
    and r: "rebuild_publish env fs1 a ffd scratch (pak_path a) offs (f_pos t) t = (s, a', fs')"
  shows "rebuild_kept a f s a' \<and> (\<forall>q. q \<noteq> scratch \<longrightarrow> fs' q = fs1 q)
    \<or> rename_refused env a s a' fs' \<and> (\<forall>q. q \<noteq> scratch \<longrightarrow> fs' q = snd (publish env fs1 (pak_path a) ffd) q)
    \<or> rebuild_done env fs a f s a' fs' \<and> (\<forall>q. q \<noteq> scratch \<longrightarrow> q \<noteq> pak_path a \<longrightarrow> fs' q = fs1 q)"
proof (cases "entries a \<noteq> [] \<and> e_oom env A_rollback")
  case True
  with r d show ?thesis by (auto simp: rebuild_publish_def rebuild_kept_def drop_scratch_other)
next
  case False
  let ?tg = "pak_path a"
  define a1 where "a1 = a\<lparr>entries := set_offsets (entries a) offs, payload_end := of_nat (f_pos t), fp := Some ffd\<rparr>"
  define undo where "undo = (\<lambda>x. rollback x (map offset (entries a)) (payload_end a) (diroffset a) (dirlength a))"
  obtain ws a2 t1 where wr: "write_pak_directory (e_fault env Fault_dir_header) a1 t = (ws, a2, t1)"
    using prod_cases3 by blast
  obtain closed fs2 where pb: "publish env fs1 scratch t1 = (closed, fs2)" by fastforce
  have r1: "(s, a', fs') = (if ws \<noteq> PAKKA_OK then (ws, undo a2, drop_scratch env fs1 scratch t1)
      else if \<not> closed then (PAKKA_ERR_IO, undo a2, pakka_platform_remove env fs2 scratch)
      else rebuild_rename env fs2 a2 undo ffd scratch ?tg)"
    using r False wr pb by (auto simp: rebuild_publish_def a1_def [symmetric] undo_def [symmetric] Let_def)
  have L: "list_all2 (in_scratch fs f t) (entries a) offs" and p: "12 \<le> f_pos t" "f_pos t < 2 ^ 33"
    "f_pos t \<le> max 12 (length (f_data t))"
    using c by (auto simp: copied_def)
  have lo: "length offs = length (entries a)" using list_all2_lengthD [OF L] by simp
  have pe1: "pe a1 = f_pos t" using p(2) by (simp add: a1_def pe_def unat_of_nat_u64)
  have w1: "writable_dir a1"
    using wf p lo pe1 archive_wf_writable_dir [OF wf] unfolding writable_dir_def
    by (simp add: a1_def set_offsets_def)
  obtain x y where a2: "a2 = a1\<lparr>diroffset := x, dirlength := y\<rparr>"
    using write_pak_directory_frame(2) [OF w1 wr] by blast
  have u: "undo a2 = a\<lparr>fp := Some ffd\<rparr>" "undo (a2\<lparr>fp := z\<rparr>) = a\<lparr>fp := z\<rparr>" for z
    using lo by (simp_all add: undo_def a2 a1_def rollback_def set_offsets_twice)
  have o2: "fs2 q = fs1 q" if "q \<noteq> scratch" for q using publish_other [OF pb that] .
  consider (bad) "s \<noteq> PAKKA_OK" "a' = undo a2" "\<forall>q. q \<noteq> scratch \<longrightarrow> fs' q = fs1 q"
    | (good) "ws = PAKKA_OK" "closed" "(s, a', fs') = rebuild_rename env fs2 a2 undo ffd scratch ?tg"
    using r1 o2 by (cases "ws = PAKKA_OK"; cases closed) (auto simp: drop_scratch_other)
  then show ?thesis
  proof cases
    case bad
    then show ?thesis using u d by (auto simp: rebuild_kept_def)
  next
    case good
    obtain g where g: "pakka_pak_geometry (format a1) = Some g"
      using wf by (auto simp: archive_wf_def a1_def)
    have im: "image_of a2 (f_data t1) \<and> pe a1 \<le> length (f_data t1)"
      using write_pak_directory_image [OF g w1 wr [unfolded good(1)]] p(3) by (simp add: pe1)
    have k: "f_keeps (\<lambda>i. 12 \<le> i \<and> i < f_pos t) t t1"
      using write_pak_directory_frame(1) [OF w1 wr] by (simp add: pe1)
    define fs3 where "fs3 = snd (publish env fs2 ?tg ffd)"
    have sc: "fs2 scratch = Some (Regular (f_data t1))" using publish_ok [of env fs1 scratch t1 fs2] pb good(2) by simp
    have p3: "publish env fs2 ?tg ffd = (fst (publish env fs2 ?tg ffd), fs3)" by (simp add: fs3_def)
    have s3: "fs3 scratch = Some (Regular (f_data t1))" using publish_other [OF p3 ne] sc by simp
    have o3: "fs3 q = snd (publish env fs1 ?tg ffd) q" if "q \<noteq> scratch" for q
      using o2 [OF that] o2 [OF ne [symmetric]] by (simp add: fs3_def publish_def file_bytes_def)
    have q3: "fs3 q = fs1 q" if "q \<noteq> scratch" "q \<noteq> ?tg" for q
      using publish_other [OF p3 that(2)] o2 [OF that(1)] by simp
    let ?ok = "\<not> e_fault env Fault_commit_rename \<and> e_rename env scratch ?tg"
    show ?thesis
    proof (cases ?ok)
      case False
      then have "(s, a', fs') = (PAKKA_ERR_IO, (undo (a2\<lparr>fp := None\<rparr>))\<lparr>fp := pakka_platform_fopen env
          (pakka_platform_remove env fs3 scratch) ?tg True\<rparr>, pakka_platform_remove env fs3 scratch)"
        using good(3) s3 by (auto simp: rebuild_rename_def Let_def fs3_def [symmetric] pakka_platform_rename_replace_def)
      then have "rename_refused env a s a' fs'" "\<forall>q. q \<noteq> scratch \<longrightarrow> fs' q = fs3 q"
        by (auto simp: rename_refused_def u(2))
      then show ?thesis using o3 by auto
    next
      case True
      define fs4 where "fs4 = fs3(?tg := Some (Regular (f_data t1)), scratch := None)"
      have rn: "pakka_platform_rename_replace env fs3 scratch ?tg = (True, fs4)"
        using True s3 ne by (simp add: pakka_platform_rename_replace_def fs4_def)
      have f4: "fs4 ?tg = Some (Regular (f_data t1))" using ne by (simp add: fs4_def)
      define c where "c = relaid a offs (f_pos t) x y"
      have a2c: "a2 = c\<lparr>fp := Some ffd\<rparr>" by (simp add: a2 a1_def c_def relaid_def)
      have res: "(s, a', fs') = (case pakka_platform_fopen env fs4 ?tg True of
          None \<Rightarrow> (PAKKA_ERR_IO, c\<lparr>fp := None\<rparr>, fs4)
        | Some h \<Rightarrow> (PAKKA_OK, settled c\<lparr>fp := Some h\<rparr>, fs4))"
        using good(3) True
        by (simp add: rebuild_rename_def Let_def fs3_def [symmetric] rn a2c settled_def split: option.splits)
      then have fs': "fs' = fs4" by (simp split: option.splits)
      have dat: "f_data h = f_data t1" if "pakka_platform_fopen env fs4 ?tg True = Some h" for h
        using that f4 by (auto simp: pakka_platform_fopen_def)
      have "image_of (settled c) (f_data t1)"
        using im by (subst image_of_cong [of _ a2]) (simp_all add: a2c settled_def)
      moreover have "archive_wf (settled c\<lparr>fp := Some h\<rparr>) \<and> listing gs h (settled c) = listing fs f a"
        if "f_data h = f_data t1" for h gs
        using settled_wf [OF wf c k _ refl that] im by (simp add: c_def pe1)
      moreover have "case pakka_platform_fopen env fs4 ?tg True of
          None \<Rightarrow> s = PAKKA_ERR_IO \<and> a' = c\<lparr>fp := None\<rparr>
        | Some g \<Rightarrow> s = PAKKA_OK \<and> a' = settled c\<lparr>fp := Some g\<rparr> \<and> f_data g = f_data t1"
        using res dat by (cases "pakka_platform_fopen env fs4 ?tg True") simp_all
      ultimately have "rebuild_done env fs a f s a' fs'"
        using f4 c_def unfolding rebuild_done_def fs' by blast
      moreover have "fs' q = fs1 q" if "q \<noteq> scratch" "q \<noteq> ?tg" for q
        using that q3 by (simp add: fs' fs4_def)
      ultimately show ?thesis by blast
    qed
  qed
qed

section \<open>Staged sources\<close>

lemma rebuild_copy_sources:
  "rebuild_copy env fs owner (length pre) rest ffd t offs = (PAKKA_OK, offs', ffd', t') \<Longrightarrow>
   owner_ok (pre @ rest) owner \<Longrightarrow> e \<in> set rest \<Longrightarrow> pending_source e = Some source \<Longrightarrow>
   length (file_bytes fs source) = unat (entry_length e) \<and> fs source = Some (Regular (file_bytes fs source))
     \<and> crc32 e = pakka_crc32_update 0 (file_bytes fs source)"
proof (induction rest arbitrary: pre ffd t offs)
  case (Cons d rest)
  note IH = Cons.IH [of "pre @ [d]"]
  show ?case
  proof (cases "owner \<noteq> None \<and> the owner ! length pre \<noteq> length pre")
    case True
    then obtain ow where ow: "owner = Some ow" "ow ! length pre \<noteq> length pre" by auto
    have "length pre < length (pre @ d # rest)" by simp
    with Cons.prems(2) ow have "same_payload ((pre @ d # rest) ! (ow ! length pre)) ((pre @ d # rest) ! length pre)"
      unfolding owner_ok_def by blast
    then have "\<not> is_staged d" unfolding same_payload_def nth_append_length by blast
    then have "e \<in> set rest" using Cons.prems(3,4) by (auto simp: is_staged_def)
    with ow Cons.prems IH show ?thesis by simp
  next
    case False
    obtain s off ffd1 t1 where b: "copy_between_paks env fs (length pre) d ffd t = (s, off, ffd1, t1)"
      using prod_cases4 by blast
    with Cons.prems(1) False have s: "s = PAKKA_OK" and
      r: "rebuild_copy env fs owner (length (pre @ [d])) rest ffd1 t1 (offs @ [off]) = (PAKKA_OK, offs', ffd', t')"
      by (auto split: if_splits)
    show ?thesis
    proof (cases "e = d")
      case True
      then have "pak_copy_pending_source env fs source e t = (PAKKA_OK, t1)"
        using b s Cons.prems(4) by (auto simp: copy_between_paks_def Let_def split: if_splits prod.splits option.splits)
      from pak_copy_pending_source_OK [OF this] show ?thesis by simp
    next
      case F: False
      with IH [OF r] Cons.prems show ?thesis by simp
    qed
  qed
qed simp

text \<open>What the code records of a staged source.\<close>

definition source_as_staged :: "files \<Rightarrow> pentry \<Rightarrow> path \<Rightarrow> bool" where
  "source_as_staged fs e source \<longleftrightarrow> (\<exists>b. fs source = Some (Regular b)
     \<and> length b = unat (entry_length e) \<and> crc32 e = pakka_crc32_update 0 b)"

definition sources_ok :: "files \<Rightarrow> archive \<Rightarrow> bool" where
  "sources_ok fs a \<longleftrightarrow> (\<forall>e source. e \<in> set (entries a) \<longrightarrow> pending_source e = Some source \<longrightarrow>
     fs source \<noteq> None \<or> entry_length e \<noteq> 0 \<longrightarrow> source_as_staged fs e source)"

section \<open>Rebuilding\<close>

lemma copied_files:
  assumes "\<And>q. file_bytes gs q = file_bytes fs q"
  shows "copied gs f es offs t = copied fs f es offs t"
proof -
  have "stored_bytes gs f e = stored_bytes fs f e" for e by (rule stored_bytes_files [OF assms])
  then have "in_scratch gs f t = in_scratch fs f t" by (simp add: in_scratch_def fun_eq_iff)
  then show ?thesis by (simp add: copied_def)
qed

lemma dedup_owner_ok: "owner_ok es (dedup_owner env es)"
proof (cases "dedup_owner env es")
  case (Some ow)
  have "ow ! i < i \<and> same_payload (es ! (ow ! i)) (es ! i)" if "i < length es" "ow ! i \<noteq> i" for i
    using dedup_owner_table [OF Some that(1)] that(2) by (auto split: if_splits)
  then show ?thesis by (simp add: owner_ok_def Some)
qed (simp add: owner_ok_def)

lemma archive_wf_staged: "archive_wf a \<Longrightarrow> \<forall>e \<in> set (entries a). is_staged e \<longrightarrow> staged_wf e"
  by (auto simp: archive_wf_def entry_wf_def split: if_splits)

definition untouched :: "files \<Rightarrow> files \<Rightarrow> bool" where
  "untouched fs fs' \<longleftrightarrow> (\<forall>q. fs q \<noteq> None \<longrightarrow> fs' q = fs q)"

lemma pakka_commit_rebuild_cases:
  assumes wf: "archive_wf a" and fp: "fp a = Some f" and fr: "mkstemp_fresh env" and ex: "fs (pak_path a) \<noteq> None"
    and r: "pakka_commit_rebuild env fs a f = (s, a', fs')"
  shows "rebuild_kept a f s a' \<and> untouched fs fs'
    \<or> rename_refused env a s a' fs' \<and> (\<exists>g fs1. f_data g = f_data f \<and> untouched fs fs1
        \<and> (\<forall>q. fs q \<noteq> None \<longrightarrow> fs' q = snd (publish env fs1 (pak_path a) g) q))
    \<or> rebuild_done env fs a f s a' fs' \<and> sources_ok fs a
      \<and> (\<forall>q. q \<noteq> pak_path a \<longrightarrow> fs q \<noteq> None \<longrightarrow> fs' q = fs q)"
proof -
  let ?tg = "pak_path a"
  have same: "rebuild_kept a f s a" "rebuild_kept a f s (a\<lparr>fp := Some g\<rparr>)" if "s \<noteq> PAKKA_OK" "f_data g = f_data f" for g
    using that fp_update_id [OF fp] unfolding rebuild_kept_def by metis+
  show ?thesis
  proof (cases "entries a \<noteq> [] \<and> e_oom env A_bookkeeping")
    case True
    with r have "s \<noteq> PAKKA_OK" "a' = a" "fs' = fs" by (auto simp: pakka_commit_rebuild_def)
    with same(1) [of f] show ?thesis by (simp add: untouched_def)
  next
    case nb: False
    obtain m fs1 where mk: "pakka_platform_mkstemp_open env fs ?tg (ascii ''pakkaXXXXXX'') = (m, fs1)" by fastforce
    show ?thesis
    proof (cases m)
      case None
      with r nb mk have "s \<noteq> PAKKA_OK" "a' = a" "fs' = fs1" by (auto simp: pakka_commit_rebuild_def Let_def)
      moreover have "untouched fs fs1"
        using mkstemp_open_NoneD [OF _ fr] mk None by (simp add: untouched_def)
      ultimately show ?thesis using same(1) [of f] by simp
    next
      case (Some st)
      obtain scratch t0 where st: "st = (scratch, t0)" by fastforce
      from mkstemp_open_SomeD [OF mk [unfolded Some st] fr] obtain l where
        M: "fs scratch = None" "t0 = stream_of l []" "untouched fs fs1" by (auto simp: untouched_def)
      have ne: "scratch \<noteq> ?tg" using M(1) ex by auto
      have nsc: "q \<noteq> scratch" if "fs q \<noteq> None" for q using M(1) that by auto
      have fb: "file_bytes fs1 q = file_bytes fs q" for q by (rule mkstemp_open_bytes [OF mk fr])
      have ud: "untouched fs (drop_scratch env fs1 scratch t)" for t
        using M(3) nsc by (simp add: untouched_def drop_scratch_other)
      obtain ok t1 where sk: "fseek_set t0 PAKFILE_HEADER_SIZE = (ok, t1)" by fastforce
      obtain cs offs ffd t2 where rc:
        "rebuild_copy env fs1 (dedup_owner env (entries a)) 0 (entries a) f t1 [] = (cs, offs, ffd, t2)"
        using prod_cases4 by blast
      have d: "f_data ffd = f_data f" by (rule rebuild_copy_frame [OF rc])
      have "(\<exists>g. s \<noteq> PAKKA_OK \<and> (a' = a \<or> a' = a\<lparr>fp := Some g\<rparr> \<and> f_data g = f_data f)
            \<and> (\<exists>t. fs' = drop_scratch env fs1 scratch t))
        \<or> ok \<and> cs = PAKKA_OK \<and> rebuild_publish env fs1 a ffd scratch ?tg offs (f_pos t2) t2 = (s, a', fs')"
        using r [symmetric] d unfolding pakka_commit_rebuild_def Let_def mk Some st option.case prod.case sk rc
        by (auto simp: nb ftell_def split: if_splits)
      then consider (bad) g t where "s \<noteq> PAKKA_OK" "a' = a \<or> a' = a\<lparr>fp := Some g\<rparr> \<and> f_data g = f_data f"
          "fs' = drop_scratch env fs1 scratch t"
        | (go) "ok" "cs = PAKKA_OK" "rebuild_publish env fs1 a ffd scratch ?tg offs (f_pos t2) t2 = (s, a', fs')"
        by blast
      then show ?thesis
      proof cases
        case bad
        then have "rebuild_kept a f s a'" using same by blast
        with bad(3) ud show ?thesis by simp
      next
        case go
        have t1: "t1 = t0\<lparr>f_pos := 12\<rparr>" using sk go(1) by (simp add: fseek_set_True PAKFILE_HEADER_SIZE_def)
        have "copied fs1 f ([] @ entries a) offs t2"
          using rc go(2) archive_wf_staged [OF wf] dedup_owner_ok
          by (intro rebuild_copy_OK [where pre = "[]" and ffd = f and t = t1 and offs = "[]"
                and owner = "dedup_owner env (entries a)" and ffd' = ffd])
            (simp_all add: copied_def t1 M(2))
        then have c: "copied fs f (entries a) offs t2" by (simp add: copied_files [OF fb])
        have so: "sources_ok fs a"
          unfolding sources_ok_def
        proof (intro allI impI)
          fix e source
          assume e: "e \<in> set (entries a)" "pending_source e = Some source" "fs source \<noteq> None \<or> entry_length e \<noteq> 0"
          let ?b = "file_bytes fs1 source"
          have k: "length ?b = unat (entry_length e)" "fs1 source = Some (Regular ?b)"
            "crc32 e = pakka_crc32_update 0 ?b"
            using rebuild_copy_sources [where pre = "[]"] rc go(2) dedup_owner_ok e(1,2) by auto
          have "fs source \<noteq> None"
          proof
            assume "fs source = None"
            then have "?b = []" by (simp add: fb) (simp add: file_bytes_def)
            with k(1) e(3) \<open>fs source = None\<close> show False by (simp add: unat_eq_0)
          qed
          with M(3) k show "source_as_staged fs e source"
            unfolding source_as_staged_def untouched_def by metis
        qed
        from rebuild_publish_cases [OF wf c d ne go(3)]
        consider (kept) "rebuild_kept a f s a'" "\<forall>q. q \<noteq> scratch \<longrightarrow> fs' q = fs1 q"
          | (refused) "rename_refused env a s a' fs'" "\<forall>q. q \<noteq> scratch \<longrightarrow> fs' q = snd (publish env fs1 ?tg ffd) q"
          | (new) "rebuild_done env fs a f s a' fs'" "\<forall>q. q \<noteq> scratch \<longrightarrow> q \<noteq> ?tg \<longrightarrow> fs' q = fs1 q"
          by blast
        then show ?thesis
        proof cases
          case kept
          with M(3) nsc show ?thesis by (simp add: untouched_def)
        next
          case refused
          then have "\<forall>q. fs q \<noteq> None \<longrightarrow> fs' q = snd (publish env fs1 ?tg ffd) q" using nsc by blast
          with refused(1) d M(3) show ?thesis by blast
        next
          case new
          with M(3) nsc so show ?thesis by (simp add: untouched_def)
        qed
      qed
    qed
  qed
qed

text \<open>When the file holds what the stream shows, a refused rename leaves it alone too.\<close>

lemma commit_rebuild_disk:
  assumes wf: "archive_wf a" and fp: "fp a = Some f" and fr: "mkstemp_fresh env"
    and disk: "fs (pak_path a) = Some (Regular (f_data f))"
    and r: "pakka_commit_rebuild env fs a f = (s, a', fs')"
  shows "s \<noteq> PAKKA_OK \<and> untouched fs fs' \<and> (\<exists>x. a' = a\<lparr>fp := x\<rparr> \<and> (x = None \<or> f_data (the x) = f_data f))
    \<or> rebuild_done env fs a f s a' fs' \<and> sources_ok fs a
      \<and> (\<forall>q. q \<noteq> pak_path a \<longrightarrow> fs q \<noteq> None \<longrightarrow> fs' q = fs q)"
proof -
  have ex: "fs (pak_path a) \<noteq> None" using disk by simp
  from pakka_commit_rebuild_cases [OF wf fp fr ex r]
  consider (kept) "rebuild_kept a f s a'" "untouched fs fs'"
    | (refused) g fs1 where "rename_refused env a s a' fs'" "f_data g = f_data f" "untouched fs fs1"
        "\<forall>q. fs q \<noteq> None \<longrightarrow> fs' q = snd (publish env fs1 (pak_path a) g) q"
    | (new) "rebuild_done env fs a f s a' fs'" "sources_ok fs a"
        "\<forall>q. q \<noteq> pak_path a \<longrightarrow> fs q \<noteq> None \<longrightarrow> fs' q = fs q"
    by blast
  then show ?thesis
  proof cases
    case kept
    then obtain g where "a' = a\<lparr>fp := Some g\<rparr>" "f_data g = f_data f" "s \<noteq> PAKKA_OK"
      by (auto simp: rebuild_kept_def)
    then have "\<exists>x. a' = a\<lparr>fp := x\<rparr> \<and> (x = None \<or> f_data (the x) = f_data f)" "s \<noteq> PAKKA_OK"
      by (auto intro: exI [of _ "Some g"])
    with kept(2) show ?thesis by blast
  next
    case refused
    have "fs1 (pak_path a) = Some (Regular (f_data g))" using refused(2,3) disk by (simp add: untouched_def)
    from publish_clean [where fs = fs1 and p = "pak_path a", OF this, of env] refused(3,4) have u: "untouched fs fs'" by (simp add: untouched_def)
    then have "fs' (pak_path a) = Some (Regular (f_data f))" using disk by (simp add: untouched_def)
    then have "pakka_platform_fopen env fs' (pak_path a) True = None
        \<or> f_data (the (pakka_platform_fopen env fs' (pak_path a) True)) = f_data f"
      by (cases "e_limits env True (pak_path a)") (simp_all add: pakka_platform_fopen_def)
    with refused(1) u show ?thesis unfolding rename_refused_def by blast
  qed blast
qed

section \<open>Committing in place\<close>

lemma commit_in_place_OK:
  assumes wf: "archive_wf a" and fp: "fp a = Some f" and nr: "\<not> needs_rebuild a"
    and r: "commit_in_place env fs a f = (PAKKA_OK, a', fs')"
  shows "\<exists>g. fp a' = Some g \<and> archive_wf a' \<and> (\<forall>gs. listing gs g a' = listing gs f a) \<and> \<not> dirty a' \<and> entries a' = entries a
    \<and> fs' (pak_path a) = Some (Regular (f_data g)) \<and> image_of a' (f_data g)
    \<and> (\<forall>q. q \<noteq> pak_path a \<longrightarrow> fs' q = fs q) \<and> \<not> needs_rebuild a'"
proof -
  obtain s a1 g where wr: "write_pak_directory (e_fault env Fault_dir_header) a f = (s, a1, g)"
    using prod_cases3 by blast
  obtain fl fs1 where pb: "publish env fs (pak_path a) g = (fl, fs1)" by fastforce
  have ns: "\<forall>e \<in> set (entries a). \<not> is_staged e" using wf nr by (auto simp: archive_wf_def)
  have R: "s = PAKKA_OK" "fl" "fs' = fs1"
    and a': "a' = (a1\<lparr>fp := Some g\<rparr>)\<lparr>file_size := ucast (diroffset a1) + ucast (dirlength a1), dirty := False\<rparr>"
    using r wr pb by (auto simp: commit_in_place_def Let_def split: if_splits)
  have w: "writable_dir a" by (rule archive_wf_writable_dir [OF wf])
  obtain x y where a1: "a1 = a\<lparr>diroffset := x, dirlength := y\<rparr>"
    using write_pak_directory_frame(2) [OF w wr] by blast
  have k: "f_keeps (\<lambda>i. 12 \<le> i \<and> i < pe a) f g" by (rule write_pak_directory_frame(1) [OF w wr])
  obtain ge where ge: "pakka_pak_geometry (format a) = Some ge" using wf by (auto simp: archive_wf_def)
  have pl: "pe a \<le> length (f_data f)" using wf fp by (simp add: archive_wf_def)
  then have im: "image_of a1 (f_data g) \<and> pe a \<le> length (f_data g)"
    using write_pak_directory_image [OF ge w wr [unfolded R(1)]] by auto
  have "stored_bytes gs g e = stored_bytes gs f e" if e: "e \<in> set (entries a)" for e gs
  proof -
    have d: "disk_wf (format a) (pe a) e" "dk_is_compressed e \<longrightarrow> format a = PAKKA_FORMAT_DAIKATANA"
      using wf ns e by (auto simp: archive_wf_def entry_wf_def)
    have "payload_bytes g e = payload_bytes f e"
    proof (cases "12 \<le> unat (offset e)")
      case True
      then show ?thesis
        unfolding payload_bytes_def using d(1) pl
        by (intro f_keeps_range [OF k]) (auto simp: disk_wf_def entry_end_def)
    next
      case False
      then have "pak_entry_on_disk_extent e = 0"
        using d by (auto simp: disk_wf_def pak_entry_on_disk_extent_def pakka_format_is_wad_def)
      then show ?thesis by (simp add: payload_bytes_def)
    qed
    then show ?thesis by (simp add: stored_bytes_def cong: option.case_cong)
  qed
  then have "listing gs g a = listing gs f a" for gs by (auto simp: listing_def intro: entry_content_cong)
  moreover have "listing gs g a' = listing gs g a" for gs by (simp add: listing_def a' a1)
  moreover have "archive_wf a'" using wf ns im unfolding archive_wf_def by (auto simp: a' a1 pe_def)
  moreover have "image_of a' (f_data g)" using im by (subst image_of_cong [of _ a1]) (simp_all add: a')
  moreover have "fs1 (pak_path a) = Some (Regular (f_data g))" using publish_ok [of env fs "pak_path a" g fs1] pb R(2) by simp
  ultimately show ?thesis
    using R(3) publish_other [OF pb] nr by (intro exI [of _ g]) (simp add: a' a1)
qed

lemma pakka_commit_cases:
  assumes "pakka_commit Z env fs (Some a) = (s, Some a', fs')" "archive_wf a" "fp a = Some f"
  shows "\<not> dirty a \<and> s = PAKKA_OK \<and> a' = a \<and> fs' = fs
    \<or> dirty a \<and> \<not> writable a \<and> s = PAKKA_ERR_INVALID_ARGUMENT \<and> a' = a \<and> fs' = fs
    \<or> dirty a \<and> writable a \<and> \<not> needs_rebuild a \<and> \<not> atomic_commit a \<and> commit_in_place env fs a f = (s, a', fs')
    \<or> dirty a \<and> writable a \<and> (needs_rebuild a \<or> atomic_commit a) \<and> pakka_commit_rebuild env fs a f = (s, a', fs')"
  using assms(1,3) archive_wf_geometry [OF assms(2)]
  by (auto simp: pakka_commit_def Let_def split: if_splits prod.splits)

section \<open>Properties of a commit\<close>

lemma commit_OK:
  assumes wf: "archive_wf a" and fp: "fp a = Some f" and d: "dirty a"
    and fr: "mkstemp_fresh env" and ex: "fs (pak_path a) \<noteq> None"
    and r: "pakka_commit Z env fs (Some a) = (PAKKA_OK, Some a', fs')"
  shows "\<exists>g. fp a' = Some g \<and> archive_wf a' \<and> listing fs' g a' = listing fs f a
    \<and> \<not> dirty a' \<and> \<not> needs_rebuild a' \<and> list_all (\<lambda>e. \<not> is_staged e) (entries a')
    \<and> fs' (pak_path a) = Some (Regular (f_data g)) \<and> image_of a' (f_data g)
    \<and> (\<forall>q. q \<noteq> pak_path a \<longrightarrow> fs q \<noteq> None \<longrightarrow> fs' q = fs q)"
proof -
  consider (place) "\<not> needs_rebuild a" "commit_in_place env fs a f = (PAKKA_OK, a', fs')"
    | (rebuild) "pakka_commit_rebuild env fs a f = (PAKKA_OK, a', fs')"
    using pakka_commit_cases [OF r wf fp] d by auto
  then show ?thesis
  proof cases
    case place
    have ns: "\<forall>e \<in> set (entries a). \<not> is_staged e" using wf place(1) by (auto simp: archive_wf_def)
    obtain g where g: "fp a' = Some g" "archive_wf a'" "\<And>gs. listing gs g a' = listing gs f a" "\<not> dirty a'"
      "entries a' = entries a" "fs' (pak_path a) = Some (Regular (f_data g))" "image_of a' (f_data g)"
      "\<forall>q. q \<noteq> pak_path a \<longrightarrow> fs' q = fs q"
      "\<not> needs_rebuild a'"
      using commit_in_place_OK [OF wf fp place] by metis
    have "stored_bytes fs' f e = stored_bytes fs f e" if "e \<in> set (entries a)" for e
      using ns that by (simp add: stored_bytes_def is_staged_def)
    then have "listing fs' f a = listing fs f a" by (auto simp: listing_def intro: entry_content_cong)
    then have "listing fs' g a' = listing fs f a" unfolding g(3) .
    moreover have "list_all (\<lambda>e. \<not> is_staged e) (entries a')" using ns g(5) by (simp add: list_all_iff)
    ultimately show ?thesis using g(1,2,4,6-9) by blast
  next
    case rebuild
    from pakka_commit_rebuild_cases [OF wf fp fr ex rebuild]
    have "rebuild_done env fs a f PAKKA_OK a' fs'" and o: "\<forall>q. q \<noteq> pak_path a \<longrightarrow> fs q \<noteq> None \<longrightarrow> fs' q = fs q"
      by (auto simp: rebuild_kept_def rename_refused_def)
    then obtain c b where cb: "fs' (pak_path a) = Some (Regular b)" "image_of (settled c) b"
      "\<And>g gs. f_data g = b \<Longrightarrow> archive_wf (settled c\<lparr>fp := Some g\<rparr>) \<and> listing gs g (settled c) = listing fs f a"
      "case pakka_platform_fopen env fs' (pak_path a) True of
          None \<Rightarrow> PAKKA_OK = PAKKA_ERR_IO \<and> a' = c\<lparr>fp := None\<rparr>
        | Some g \<Rightarrow> PAKKA_OK = PAKKA_OK \<and> a' = settled c\<lparr>fp := Some g\<rparr> \<and> f_data g = b"
      by (auto simp: rebuild_done_def)
    then obtain g where g: "a' = settled c\<lparr>fp := Some g\<rparr>" "f_data g = b"
      by (auto split: option.splits)
    have "image_of a' (f_data g)" using cb(2) g by (subst image_of_cong [of _ "settled c"]) simp_all
    with cb(1) cb(3) [OF g(2)] g o show ?thesis
      by (intro exI [of _ g]) (auto simp: settled_def list_all_iff)
  qed
qed

text \<open>C13: a commit that reports success keeps every name, its place and its contents, in either way of
  committing: the handle is well formed, clean and has nothing staged; the file of the archive holds
  exactly the bytes the handle reads from, and they are an image of its entries (header, payloads and
  directory); no other file that existed has changed.\<close>

theorem commit_OK_spec:
  assumes wf: "archive_wf a" and fp: "fp a = Some f" and d: "dirty a"
    and fr: "mkstemp_fresh env" and ex: "fs (pak_path a) \<noteq> None"
    and r: "pakka_commit Z env fs (Some a) = (PAKKA_OK, Some a', fs')"
  shows "\<exists>g. fp a' = Some g \<and> archive_wf a' \<and> listing fs' g a' = listing fs f a
    \<and> \<not> dirty a' \<and> \<not> needs_rebuild a' \<and> list_all (\<lambda>e. \<not> is_staged e) (entries a')
    \<and> fs' (pak_path a) = Some (Regular (f_data g)) \<and> image_of a' (f_data g)
    \<and> (\<forall>q. q \<noteq> pak_path a \<longrightarrow> fs q \<noteq> None \<longrightarrow> fs' q = fs q)"
  by (rule commit_OK [OF assms])

text \<open>C14: a rebuilding commit is all or nothing. Whatever fails (memory, the scratch file, a payload, the
  directory, the rename, the reopening), the archive file either has the bytes it had, and the handle
  is the one it was on a stream of the same bytes or none, or it holds a complete new archive with the
  same names and contents. Every other file that existed is untouched. Success means the new archive.\<close>

theorem commit_atomic:
  assumes wf: "archive_wf a" and fp: "fp a = Some f" and way: "needs_rebuild a \<or> atomic_commit a"
    and fr: "mkstemp_fresh env" and disk: "fs (pak_path a) = Some (Regular (f_data f))"
    and r: "pakka_commit Z env fs (Some a) = (s, Some a', fs')"
  shows "(\<forall>q. q \<noteq> pak_path a \<longrightarrow> fs q \<noteq> None \<longrightarrow> fs' q = fs q)
    \<and> (fs' (pak_path a) = fs (pak_path a) \<and> (s \<noteq> PAKKA_OK \<or> \<not> dirty a)
         \<and> (\<exists>x. a' = a\<lparr>fp := x\<rparr> \<and> (x = None \<or> f_data (the x) = f_data f))
       \<or> (\<exists>c b. fs' (pak_path a) = Some (Regular b) \<and> image_of c b
         \<and> (\<forall>g gs. f_data g = b \<longrightarrow> archive_wf (c\<lparr>fp := Some g\<rparr>) \<and> listing gs g c = listing fs f a)))"
proof -
  have id: "\<exists>x. a = a\<lparr>fp := x\<rparr> \<and> (x = None \<or> f_data (the x) = f_data f)"
    using fp_update_id [OF fp] by (intro exI [of _ "Some f"]) simp
  consider (clean) "a' = a" "fs' = fs" "s \<noteq> PAKKA_OK \<or> \<not> dirty a"
    | (rebuild) "pakka_commit_rebuild env fs a f = (s, a', fs')"
    using pakka_commit_cases [OF r wf fp] way by auto
  then show ?thesis
  proof cases
    case clean
    then show ?thesis using id by simp
  next
    case rebuild
    from commit_rebuild_disk [OF wf fp fr disk rebuild] show ?thesis
    proof
      assume "s \<noteq> PAKKA_OK \<and> untouched fs fs' \<and> (\<exists>x. a' = a\<lparr>fp := x\<rparr> \<and> (x = None \<or> f_data (the x) = f_data f))"
      then show ?thesis using disk by (simp add: untouched_def)
    next
      assume n: "rebuild_done env fs a f s a' fs' \<and> sources_ok fs a
        \<and> (\<forall>q. q \<noteq> pak_path a \<longrightarrow> fs q \<noteq> None \<longrightarrow> fs' q = fs q)"
      then obtain c b where "fs' (pak_path a) = Some (Regular b)" "image_of (settled c) b"
        "\<forall>g gs. f_data g = b \<longrightarrow> archive_wf (settled c\<lparr>fp := Some g\<rparr>) \<and> listing gs g (settled c) = listing fs f a"
        by (auto simp: rebuild_done_def)
      with n show ?thesis by blast
    qed
  qed
qed

text \<open>C15: a commit does not publish a staged source that is no longer what was added: if the file is
  gone, has become a link or a special file, or its size or checksum differ from those recorded, the
  commit fails and the archive on disk and in memory is as it was.\<close>

theorem commit_refuses_changed_source:
  assumes wf: "archive_wf a" and fp: "fp a = Some f" and fr: "mkstemp_fresh env"
    and disk: "fs (pak_path a) = Some (Regular (f_data f))"
    and e: "e \<in> set (entries a)" "pending_source e = Some source" "\<not> source_as_staged fs e source"
    and sc: "fs source \<noteq> None \<or> entry_length e \<noteq> 0"
    and r: "pakka_commit Z env fs (Some a) = (s, Some a', fs')"
  shows "s \<noteq> PAKKA_OK \<and> (\<forall>q. fs q \<noteq> None \<longrightarrow> fs' q = fs q)
    \<and> (\<exists>x. a' = a\<lparr>fp := x\<rparr> \<and> (x = None \<or> f_data (the x) = f_data f))"
proof -
  have "is_staged e" using e(2) by (simp add: is_staged_def)
  then have "dirty a" "needs_rebuild a" using wf e(1) by (auto simp: archive_wf_def)
  with pakka_commit_cases [OF r wf fp]
  consider (clean) "a' = a" "fs' = fs" "s = PAKKA_ERR_INVALID_ARGUMENT"
    | (rebuild) "pakka_commit_rebuild env fs a f = (s, a', fs')"
    by auto
  then show ?thesis
  proof cases
    case clean
    then show ?thesis using fp_update_id [OF fp] by (intro conjI exI [of _ "Some f"]) simp_all
  next
    case rebuild
    have "\<not> sources_ok fs a" using e sc by (auto simp: sources_ok_def)
    with commit_rebuild_disk [OF wf fp fr disk rebuild] show ?thesis unfolding untouched_def by blast
  qed
qed

lemma pakka_commit_Some: "\<exists>s a' fs'. pakka_commit Z env fs (Some a) = (s, Some a', fs')"
  by (cases "fp a") (simp_all add: pakka_commit_def split_beta)

text \<open>The sample archive after a delete, and its file.\<close>

definition sample_dirty :: archive where
  "sample_dirty = sample_pak\<lparr>num_entries := 1, entries := tl (entries sample_pak), dirty := True, needs_rebuild := True\<rparr>"

definition sample_disk :: files where
  "sample_disk = (\<lambda>_. None)([] \<mapsto> Regular (f_data sample_fp))"

lemma sample_dirty_wf: "archive_wf sample_dirty"
  by (simp add: sample_dirty_def archive_wf_def sample_pak_def calloc_archive_def calloc_entry_def pe_def entry_wf_def
      name_fits_def c_string_def ascii_def is_staged_def disk_wf_def entry_end_def names_distinct_def
      pak_entry_on_disk_extent_def pakka_format_is_wad_def)

lemma sample_dirty_simps:
  "fp sample_dirty = Some sample_fp" "dirty sample_dirty" "needs_rebuild sample_dirty" "writable sample_dirty"
  "pak_path sample_dirty = []" "\<not> pakka_format_is_zip (format sample_dirty)"
  "sample_disk [] = Some (Regular (f_data sample_fp))"
  by (simp_all add: sample_dirty_def sample_pak_def calloc_archive_def pak_path_def sample_fp_def
      pakka_format_is_zip_def sample_disk_def)

lemma sample_entries: "entries sample_dirty = [calloc_entry\<lparr>filename := ascii ''b.cfg'', offset := 15, entry_length := 2\<rparr>]"
  by (simp add: sample_dirty_def sample_pak_def)

lemma sample_commits: "fst (pakka_commit_rebuild quiet_env sample_disk sample_dirty sample_fp) = PAKKA_OK"
proof -
  let ?t = "[0x2E, 0x2F] @ ascii ''pakkaXXXXXX''" and ?l = quiet_limits
  have mk: "pakka_platform_mkstemp_open quiet_env sample_disk [] (ascii ''pakkaXXXXXX'') =
      (Some (?t, stream_of ?l []), sample_disk(?t \<mapsto> Regular []))"
    by (simp add: pakka_platform_mkstemp_open_def mkstemp_open_in_dir_def mkstemp_at_def dirname_def rstrip_slashes_def
        quiet_env_def sample_disk_def OS_PATH_MAX_def ascii_def Let_def)
  have sk: "fseek_set (stream_of ?l []) PAKFILE_HEADER_SIZE = (True, (stream_of ?l [])\<lparr>f_pos := 12\<rparr>)"
    by (simp add: fseek_set_def quiet_limits_def PAKFILE_HEADER_SIZE_def)
  show ?thesis
    unfolding pakka_commit_rebuild_def Let_def sample_dirty_simps mk option.case prod.case sk
    by (simp add: quiet_env_simps dedup_owner_def sample_entries dedup_keys_def calloc_entry_def copy_between_paks_def
      ftell_def quiet_limits_def UINT32_MAX_def pak_entry_on_disk_extent_def sample_fp_def empty_stream_def fseek_set_def
      copy_chunks_turn chunk_of_def PAKFILE_COPY_CHUNK_def fread_all_def fread_def fwrite_all_def fwrite_def splice_def
      rebuild_publish_def Let_def ascii_def)
      (simp add: quiet_env_simps sample_dirty_def sample_pak_def calloc_archive_def rebuild_rename_def
      publish_def pakka_platform_rename_replace_def pakka_platform_fopen_def set_offsets_def calloc_entry_def
      sample_disk_def write_eval Let_def)
qed

lemma sample_committed:
  obtains a' fs' where "pakka_commit without_zip quiet_env sample_disk (Some sample_dirty) = (PAKKA_OK, Some a', fs')"
proof -
  obtain s a' fs' where "pakka_commit_rebuild quiet_env sample_disk sample_dirty sample_fp = (s, a', fs')"
    using prod_cases3 by blast
  with sample_commits that show ?thesis by (simp add: pakka_commit_def sample_dirty_simps)
qed

lemma commit_OK_spec_witness:
  "\<exists>a' fs' g. pakka_commit without_zip quiet_env sample_disk (Some sample_dirty) = (PAKKA_OK, Some a', fs')
    \<and> fp a' = Some g \<and> archive_wf a' \<and> listing fs' g a' = listing sample_disk sample_fp sample_dirty
    \<and> fs' [] = Some (Regular (f_data g)) \<and> image_of a' (f_data g)"
proof -
  obtain a' fs' where r: "pakka_commit without_zip quiet_env sample_disk (Some sample_dirty) = (PAKKA_OK, Some a', fs')"
    by (rule sample_committed)
  have ex: "sample_disk (pak_path sample_dirty) \<noteq> None" by (simp add: sample_dirty_simps)
  from commit_OK_spec [OF sample_dirty_wf sample_dirty_simps(1,2) quiet_fresh ex r] r show ?thesis
    unfolding sample_dirty_simps(5) by blast
qed

lemma commit_atomic_witness:
  "\<exists>a' fs' c b. pakka_commit without_zip quiet_env sample_disk (Some sample_dirty) = (PAKKA_OK, Some a', fs')
    \<and> fs' [] = Some (Regular b) \<and> image_of c b"
proof -
  obtain a' fs' where r: "pakka_commit without_zip quiet_env sample_disk (Some sample_dirty) = (PAKKA_OK, Some a', fs')"
    by (rule sample_committed)
  have w: "needs_rebuild sample_dirty \<or> atomic_commit sample_dirty" by (simp add: sample_dirty_simps)
  have d: "sample_disk (pak_path sample_dirty) = Some (Regular (f_data sample_fp))" by (simp add: sample_dirty_simps)
  from commit_atomic [OF sample_dirty_wf sample_dirty_simps(1) w quiet_fresh d r] sample_dirty_simps(2) r
  show ?thesis unfolding sample_dirty_simps(5) by blast
qed

text \<open>The sample archive with an entry staged from a file that is not there any more.\<close>

definition sample_staged :: archive where
  "sample_staged = sample_dirty\<lparr>num_entries := 2, entries := entries sample_dirty @
     [calloc_entry\<lparr>filename := ascii ''c.cfg'', entry_length := 2, pending_source := Some (ascii ''gone'')\<rparr>]\<rparr>"

lemma sample_staged_wf: "archive_wf sample_staged"
  by (simp add: sample_staged_def sample_dirty_def archive_wf_def sample_pak_def calloc_archive_def calloc_entry_def
      pe_def entry_wf_def name_fits_def c_string_def ascii_def is_staged_def staged_wf_def disk_wf_def entry_end_def
      names_distinct_def pak_entry_on_disk_extent_def pakka_format_is_wad_def)

lemma commit_refuses_changed_source_witness:
  "\<exists>s a' fs'. pakka_commit without_zip quiet_env sample_disk (Some sample_staged) = (s, Some a', fs')
    \<and> s \<noteq> PAKKA_OK \<and> fs' [] = sample_disk []"
proof -
  let ?e = "calloc_entry\<lparr>filename := ascii ''c.cfg'', entry_length := 2, pending_source := Some (ascii ''gone'')\<rparr>"
  have f: "fp sample_staged = Some sample_fp" "pak_path sample_staged = []"
    by (simp_all add: sample_staged_def sample_dirty_simps) (simp add: sample_dirty_def sample_pak_def calloc_archive_def pak_path_def)
  have d: "sample_disk (pak_path sample_staged) = Some (Regular (f_data sample_fp))"
    by (simp add: f sample_dirty_simps)
  have e: "?e \<in> set (entries sample_staged)" "pending_source ?e = Some (ascii ''gone'')"
    by (simp_all add: sample_staged_def)
  have n: "\<not> source_as_staged sample_disk ?e (ascii ''gone'')" "entry_length ?e \<noteq> 0"
    by (simp_all add: source_as_staged_def sample_disk_def ascii_def)
  obtain s a' fs' where r: "pakka_commit without_zip quiet_env sample_disk (Some sample_staged) = (s, Some a', fs')"
    using pakka_commit_Some by blast
  from commit_refuses_changed_source [OF sample_staged_wf f(1) quiet_fresh d e n(1) _ r] n(2) r
  have "s \<noteq> PAKKA_OK \<and> (\<forall>q. sample_disk q \<noteq> None \<longrightarrow> fs' q = sample_disk q)" by blast
  with d f(2) r show ?thesis by force
qed

end
