(* ===== verification/Reader_Props.thy ===== *)
theory Reader_Props
  imports Add_Props Pak_Reader
begin

text \<open>
  Readers: each one is a cursor into the contents of its entry, whatever the others do with the stream
  they share; reading a whole entry gives the contents; declared sizes over the cap are refused.
\<close>

section \<open>A reader is a cursor\<close>

text \<open>The reader stands at byte \<open>k\<close> of the contents \<open>c\<close>; the position of the stream does not matter.\<close>

definition reader_at :: "cfile \<Rightarrow> reader \<Rightarrow> u8 list \<Rightarrow> nat \<Rightarrow> bool" where
  "reader_at f r c k \<longleftrightarrow> k \<le> length c \<and> unat (remaining r) = length c - k
     \<and> (case inflated_buf r of
          Some b \<Rightarrow> b = c \<and> inflated_cursor r = k
        | None \<Rightarrow> unat (next_offset r) + (length c - k) < 2 ^ 34
            \<and> take (length c - k) (drop (unat (next_offset r)) (f_data f)) = drop k c)"

lemma reader_at_data: "f_data g = f_data f \<Longrightarrow> reader_at g r c k = reader_at f r c k"
  by (simp add: reader_at_def cong: option.case_cong)

lemma unat_advance:
  assumes "unat (x :: u64) + m < 2 ^ 34" "n \<le> m"
  shows "unat (x + of_nat n) = unat x + n"
proof -
  have "unat (of_nat n :: u64) = n" using assms by (intro unat_of_nat_u64) simp
  then show ?thesis using assms by (simp add: unat_word_ariths)
qed

lemma unat_consume:
  assumes "n \<le> unat (x :: u64)"
  shows "unat (x - of_nat n) = unat x - n"
proof -
  have "n < 2 ^ 64" using assms unsigned_less [of x, where 'a = nat] by simp
  then have "unat (of_nat n :: u64) = n" by (rule unat_of_nat_u64)
  with assms show ?thesis by (simp add: unat_sub word_le_nat_alt)
qed

lemma reader_advance:
  assumes "reader_at f r c k" "inflated_buf r = None" "n \<le> length c - k"
  shows "reader_at f (r\<lparr>next_offset := next_offset r + of_nat n, remaining := remaining r - of_nat n\<rparr>) c (k + n)"
proof -
  have r: "k \<le> length c" "unat (remaining r) = length c - k" "unat (next_offset r) + (length c - k) < 2 ^ 34"
    "take (length c - k) (drop (unat (next_offset r)) (f_data f)) = drop k c"
    using assms(1,2) by (auto simp: reader_at_def)
  have "drop n (take (length c - k) (drop (unat (next_offset r)) (f_data f))) = drop (k + n) c"
    by (simp only: r(4) drop_drop add.commute [of n])
  then have "take (length c - (k + n)) (drop (unat (next_offset r) + n) (f_data f)) = drop (k + n) c"
    by (simp add: drop_take diff_diff_eq add.commute)
  moreover have "unat (next_offset r + of_nat n) = unat (next_offset r) + n"
    by (rule unat_advance [OF r(3) assms(3)])
  moreover have "unat (remaining r - of_nat n) = length c - k - n"
    using unat_consume [of n "remaining r"] r(2) assms(3) by simp
  ultimately show ?thesis using r assms(2,3) by (simp add: reader_at_def)
qed

lemma reader_fread_spec:
  assumes at: "reader_at f r c k" "inflated_buf r = None" and r: "reader_fread f r len = (s, got, r', g)"
  shows "f_data g = f_data f \<and> got = take (length got) (drop k c) \<and> reader_at g r' c (k + length got)
    \<and> (if s = PAKKA_OK then length got = min len (length c - k)
       else s = PAKKA_ERR_IO \<and> (length got < min len (length c - k) \<or> \<not> f_seekable f))"
proof -
  let ?n = "if len < unat (remaining r) then len else unat (remaining r)"
  have rm: "unat (remaining r) = length c - k" using at(1) by (simp add: reader_at_def)
  obtain ok f1 where sk: "fseek_set f (unat (next_offset r)) = (ok, f1)" by fastforce
  show ?thesis
  proof (cases ok)
    case False
    with sk have "\<not> f_seekable f" "f1 = f" by (auto simp: fseek_set_def split: if_splits)
    with False r sk at(1) show ?thesis by (simp add: reader_fread_def Let_def)
  next
    case True
    with sk have f1: "f1 = f\<lparr>f_pos := unat (next_offset r)\<rparr>" by (simp add: fseek_set_True)
    obtain b f2 where rd: "fread f1 ?n = (b, f2)" by fastforce
    note sh = fread_shape [OF rd]
    have res: "got = b" "g = f2" "s = (if length b \<noteq> ?n then PAKKA_ERR_IO else PAKKA_OK)"
      "r' = r\<lparr>next_offset := next_offset r + of_nat (length b), remaining := remaining r - of_nat (length b)\<rparr>"
      using r sk True rd by (auto simp: reader_fread_def Let_def)
    have le: "length b \<le> length c - k" using sh rm by (auto split: if_splits)
    have pre: "take (length c - k) (drop (unat (next_offset r)) (f_data f)) = drop k c"
      using at by (simp add: reader_at_def)
    have "b = take (length b) (drop (unat (next_offset r)) (f_data f))" using sh by (simp add: f1)
    also have "\<dots> = take (length b) (take (length c - k) (drop (unat (next_offset r)) (f_data f)))"
      using le by (simp add: min_absorb1)
    also have "\<dots> = take (length b) (drop k c)" by (simp only: pre)
    finally have "b = take (length b) (drop k c)" .
    moreover have "f_data f2 = f_data f" using sh by (simp add: f1)
    moreover have "reader_at f2 r' c (k + length b)"
      using reader_advance [OF at le] reader_at_data [OF \<open>f_data f2 = f_data f\<close>] by (simp add: res(4))
    moreover have "?n = min len (length c - k)" using rm by (simp add: min_def)
    moreover have "length b \<le> ?n" using sh by simp
    ultimately show ?thesis using res by auto
  qed
qed

lemma reader_read_cursor:
  assumes a: "fp a = Some f" "\<not> pakka_format_is_zip (format a)" and at: "reader_at f r c k"
    and r: "pakka_reader_read Z (Some r) (Some a) len = (s, got, Some r', Some a')"
  shows "\<exists>g. a' = a\<lparr>fp := Some g\<rparr> \<and> f_data g = f_data f
    \<and> got = take (length got) (drop k c) \<and> reader_at g r' c (k + length got)
    \<and> (if s = PAKKA_OK then length got = min len (length c - k)
       else s = PAKKA_ERR_IO \<and> (length got < min len (length c - k) \<or> \<not> f_seekable f))"
proof (cases "remaining r = 0 \<or> len = 0")
  case True
  then have "s = PAKKA_OK" "got = []" "r' = r" "a' = a" using r a by (auto simp: pakka_reader_read_def)
  moreover have "min len (length c - k) = 0" using True at by (auto simp: reader_at_def)
  ultimately show ?thesis using at a fp_update_id [OF a(1)] by (intro exI [of _ f]) simp
next
  case go: False
  have rm: "unat (remaining r) = length c - k" "k \<le> length c" using at by (auto simp: reader_at_def)
  show ?thesis
  proof (cases "inflated_buf r")
    case None
    obtain s1 g1 r1 f1 where rf: "reader_fread f r len = (s1, g1, r1, f1)" using prod_cases4 by blast
    with r a go None have "s = s1" "got = g1" "r' = r1" "a' = a\<lparr>fp := Some f1\<rparr>"
      by (auto simp: pakka_reader_read_def)
    with reader_fread_spec [OF at None rf] show ?thesis by auto
  next
    case (Some b)
    then have b: "b = c" "inflated_cursor r = k" using at by (auto simp: reader_at_def)
    let ?n = "if len < length c - k then len else length c - k"
    have pos: "0 < unat (remaining r)" using go by (simp add: unat_gt_0)
    then have n0: "?n \<noteq> 0" using go rm by auto
    then have res: "s = PAKKA_OK" "got = take ?n (drop k c)" "a' = a"
      "r' = r\<lparr>inflated_cursor := k + ?n, remaining := remaining r - of_nat ?n\<rparr>"
      using r a go Some b by (auto simp: pakka_reader_read_def Let_def split: if_splits)
    have l: "length got = ?n" using res(2) by simp
    have "unat (remaining r - of_nat ?n) = length c - k - ?n"
      using unat_consume [of ?n "remaining r"] rm by simp
    moreover have "k + ?n \<le> length c" using rm(2) by (cases "len < length c - k") simp_all
    ultimately have "reader_at f r' c (k + ?n)" using Some b rm by (simp add: reader_at_def res(4))
    then show ?thesis
      using res(1,2,3) l fp_update_id [OF a(1)] by (intro exI [of _ f]) (simp add: min_def)
  qed
qed

section \<open>Readers that share the stream\<close>

text \<open>A client that reads from several open readers in any order: \<open>(i, n)\<close> asks reader \<open>i\<close> for \<open>n\<close>
  bytes.\<close>

fun read_schedule ::
  "zip_ops \<Rightarrow> (nat \<times> nat) list \<Rightarrow> reader list \<Rightarrow> archive \<Rightarrow> (nat \<times> status \<times> u8 list) list" where
  "read_schedule Z [] rs a = []"
| "read_schedule Z ((i, n) # sched) rs a =
     (case pakka_reader_read Z (Some (rs ! i)) (Some a) n of
        (s, got, Some r1, Some a1) \<Rightarrow> (i, s, got) # read_schedule Z sched (rs[i := r1]) a1
      | _ \<Rightarrow> [])"

definition bytes_of :: "nat \<Rightarrow> (nat \<times> status \<times> u8 list) list \<Rightarrow> u8 list" where
  "bytes_of i outs = concat (map (\<lambda>(j, s, got). if j = i then got else []) outs)"

lemma pakka_reader_read_Some:
  "fp a = Some f \<Longrightarrow> \<exists>s got r' a'. pakka_reader_read Z (Some r) (Some a) n = (s, got, Some r', Some a')"
  by (cases "inflated_buf r") (simp_all add: pakka_reader_read_def Let_def split_beta)

lemma take_take_drop: "take m (drop k c) = x \<Longrightarrow> take n (drop (k + m) c) = y \<Longrightarrow> length x = m \<Longrightarrow>
    take (m + n) (drop k c) = x @ y"
  by (simp add: take_add add.commute)

lemma unat_remaining: "unat (ucast (n :: u32) :: u64) = unat n" "unat (ucast (n :: u32) :: u64) < 2 ^ 33"
  using unat_u32_bound [of n] by (simp_all add: unat_ucast_u32_u64)

text \<open>What a client relies on, whatever serves the reads: a read hands out the next bytes and leaves the
  archive as it was but for the position of its stream. \<open>kind\<close> tells the formats the contract is for.\<close>

definition cursor_read :: "zip_ops \<Rightarrow> archive \<Rightarrow> cfile \<Rightarrow> reader \<Rightarrow> u8 list \<Rightarrow> nat \<Rightarrow> nat \<Rightarrow> bool" where
  "cursor_read Z a f r c k len \<longleftrightarrow>
     (\<forall>s got r' a'. pakka_reader_read Z (Some r) (Some a) len = (s, got, Some r', Some a') \<longrightarrow>
        (\<exists>g. a' = a\<lparr>fp := Some g\<rparr> \<and> f_data g = f_data f
          \<and> got = take (length got) (drop k c) \<and> reader_at g r' c (k + length got)
          \<and> (if s = PAKKA_OK then length got = min len (length c - k)
             else s = PAKKA_ERR_IO \<and> (length got < min len (length c - k) \<or> \<not> f_seekable f))))"

text \<open>What a client relies on when it opens an entry: a reader at the start of contents that satisfy \<open>Q\<close>,
  or none.\<close>

definition opens_at ::
  "zip_ops \<Rightarrow> env \<Rightarrow> files \<Rightarrow> archive \<Rightarrow> cfile \<Rightarrow> pentry \<Rightarrow> (u8 list \<Rightarrow> bool) \<Rightarrow> bool" where
  "opens_at Z env fs a f e Q \<longleftrightarrow>
     (\<forall>s rd a1. pakka_open_entry_handle Z env fs (Some a) (Some e) = (s, rd, a1) \<longrightarrow>
        (\<exists>g. a1 = Some (a\<lparr>fp := Some g\<rparr>) \<and> f_data g = f_data f \<and>
          (if s = PAKKA_OK then \<exists>r c. rd = Some r \<and> reader_at g r c 0 \<and> Q c else rd = None)))"

locale served_readers =
  fixes Z :: zip_ops
    and kind :: "pakka_format \<Rightarrow> bool"
  assumes serves: "fp a = Some f \<Longrightarrow> kind (format a) \<Longrightarrow> reader_at f r c k \<Longrightarrow> cursor_read Z a f r c k len"
    and answers: "fp a = Some f \<Longrightarrow> kind (format a) \<Longrightarrow>
      \<exists>s got r' a'. pakka_reader_read Z (Some r) (Some a) n = (s, got, Some r', Some a')"
begin

lemma schedule_bytes:
  "fp a = Some f \<Longrightarrow> kind (format a) \<Longrightarrow>
   \<forall>i < length rs. reader_at f (rs ! i) (cs ! i) (ks ! i) \<Longrightarrow> length ks = length rs \<Longrightarrow>
   \<forall>(i, n) \<in> set sched. i < length rs \<Longrightarrow> j < length rs \<Longrightarrow>
   bytes_of j (read_schedule Z sched rs a) =
     take (length (bytes_of j (read_schedule Z sched rs a))) (drop (ks ! j) (cs ! j))"
proof (induction sched arbitrary: rs a f ks)
  case Nil
  then show ?case by (simp add: bytes_of_def)
next
  case (Cons x sched)
  obtain i n where x: "x = (i, n)" by fastforce
  have i: "i < length rs" using Cons.prems(5) x by auto
  then have at: "reader_at f (rs ! i) (cs ! i) (ks ! i)" using Cons.prems(3) by simp
  obtain s got r1 a1 where rd: "pakka_reader_read Z (Some (rs ! i)) (Some a) n = (s, got, Some r1, Some a1)"
    using answers [OF Cons.prems(1,2)] by blast
  from serves [OF Cons.prems(1,2) at] rd obtain g where
    g: "a1 = a\<lparr>fp := Some g\<rparr>" "f_data g = f_data f" "got = take (length got) (drop (ks ! i) (cs ! i))"
    "reader_at g r1 (cs ! i) (ks ! i + length got)" unfolding cursor_read_def by blast
  let ?ks = "ks[i := ks ! i + length got]" and ?out = "read_schedule Z sched (rs[i := r1]) a1"
  have "\<forall>l < length (rs[i := r1]). reader_at g (rs[i := r1] ! l) (cs ! l) (?ks ! l)"
    using Cons.prems(3,4) g(4) i reader_at_data [OF g(2)] by (simp add: nth_list_update)
  then have IH: "bytes_of j ?out = take (length (bytes_of j ?out)) (drop (?ks ! j) (cs ! j))"
    using Cons.prems g(1) by (intro Cons.IH [of a1 g "rs[i := r1]" ?ks]) auto
  have out: "read_schedule Z (x # sched) rs a = (i, s, got) # ?out" by (simp add: x rd)
  show ?case
  proof (cases "j = i")
    case True
    have "take (length got + length (bytes_of j ?out)) (drop (ks ! i) (cs ! i)) = got @ bytes_of j ?out"
      using g(3) IH True i Cons.prems(4) by (intro take_take_drop) simp_all
    then show ?thesis unfolding out by (simp add: True bytes_of_def)
  next
    case False
    then have "bytes_of j (read_schedule Z (x # sched) rs a) = bytes_of j ?out" "?ks ! j = ks ! j"
      unfolding out by (simp_all add: bytes_of_def)
    with IH show ?thesis by simp
  qed
qed

lemma read_all:
  "read_all_loop Z (Some r) (Some a) tot buf = (s, data, ar') \<Longrightarrow> fp a = Some f \<Longrightarrow>
   kind (format a) \<Longrightarrow> reader_at f r c (length buf) \<Longrightarrow> buf = take (length buf) c \<Longrightarrow>
   length buf \<le> tot \<Longrightarrow>
   (\<exists>g. ar' = Some (a\<lparr>fp := Some g\<rparr>) \<and> f_data g = f_data f)
   \<and> (s = PAKKA_OK \<longrightarrow> data = take tot c \<and> tot \<le> length c)"
proof (induction "tot - length buf" arbitrary: r a f buf rule: less_induct)
  case less
  note id = fp_update_id [OF less.prems(2)]
  show ?case
  proof (cases "length buf < tot")
    case False
    then have l: "length buf = tot" and res: "s = PAKKA_OK" "data = buf" "ar' = Some a"
      using less.prems by (auto simp: read_all_loop.simps)
    have "tot \<le> length c" using less.prems(4) l by (simp add: reader_at_def)
    moreover have "data = take tot c" unfolding res(2) using less.prems(5) l by metis
    ultimately show ?thesis using res(3) id by metis
  next
    case True
    obtain s1 got r1 a1 where rd: "pakka_reader_read Z (Some r) (Some a) (tot - length buf) = (s1, got, Some r1, Some a1)"
      using answers [OF less.prems(2,3)] by blast
    from serves [OF less.prems(2,3,4)] rd obtain g where
      g: "a1 = a\<lparr>fp := Some g\<rparr>" "f_data g = f_data f" "got = take (length got) (drop (length buf) c)"
      "reader_at g r1 c (length buf + length got)"
      and i: "if s1 = PAKKA_OK then length got = min (tot - length buf) (length c - length buf)
        else s1 = PAKKA_ERR_IO \<and> (length got < min (tot - length buf) (length c - length buf) \<or> \<not> f_seekable f)"
      unfolding cursor_read_def by blast
    have len: "s1 = PAKKA_OK \<longrightarrow> length got = min (tot - length buf) (length c - length buf)"
      using i by (simp split: if_splits)
    show ?thesis
    proof (cases "s1 = PAKKA_OK \<and> got \<noteq> []")
      case False
      then have "s \<noteq> PAKKA_OK" "ar' = Some a1"
        using less.prems(1) True rd by (auto simp: read_all_loop.simps [of Z "Some r" "Some a"] split: if_splits)
      with g(1,2) show ?thesis by blast
    next
      case ok: True
      have rest: "read_all_loop Z (Some r1) (Some a1) tot (buf @ got) = (s, data, ar')"
        using less.prems(1) True rd ok by (simp add: read_all_loop.simps [of Z "Some r" "Some a"])
      have t: "buf @ got = take (length (buf @ got)) c"
        unfolding length_append take_add g(3) [symmetric] less.prems(5) [symmetric] ..
      have l: "length (buf @ got) \<le> tot" using len ok True by simp
      have m: "tot - length (buf @ got) < tot - length buf" using ok True by (cases got) auto
      have "(\<exists>h. ar' = Some (a1\<lparr>fp := Some h\<rparr>) \<and> f_data h = f_data g)
          \<and> (s = PAKKA_OK \<longrightarrow> data = take tot c \<and> tot \<le> length c)"
        by (rule less.hyps [OF m rest _ _ _ t l]) (use g(1,2,4) less.prems(3) in simp_all)
      then show ?thesis using g(1,2) by auto
    qed
  qed
qed

lemma read_entry:
  assumes fp: "fp a = Some f" and k: "kind (format a)" and e: "find_entry a n = Some e"
    and op: "opens_at Z env fs a f e Q" and r: "pakka_read_entry_alloc Z env fs (Some a) (Some n) = (s, data, a1)"
  shows "(\<exists>g. a1 = Some (a\<lparr>fp := Some g\<rparr>) \<and> f_data g = f_data f)
    \<and> (if s = PAKKA_OK \<and> entry_length e \<noteq> 0
       then \<exists>c. Q c \<and> c \<noteq> [] \<and> unat (entry_length e) \<le> length c \<and> data = Some (take (unat (entry_length e)) c)
       else data = None)"
proof -
  note id = fp_update_id [OF fp]
  obtain os rd a2 where oh: "pakka_open_entry_handle Z env fs (Some a) (Some e) = (os, rd, a2)" using prod_cases3 by blast
  then obtain g where g: "a2 = Some (a\<lparr>fp := Some g\<rparr>)" "f_data g = f_data f"
    "if os = PAKKA_OK then \<exists>r c. rd = Some r \<and> reader_at g r c 0 \<and> Q c else rd = None"
    using op unfolding opens_at_def by blast
  let ?tot = "unat (entry_length e)"
  have tot: "unat (ucast (entry_length e) :: u64) = ?tot" "(ucast (entry_length e) :: u64) = 0 \<longleftrightarrow> entry_length e = 0"
    using unat_remaining(1) [of "entry_length e"] by (simp_all add: unat_eq_0 [symmetric])
  have find: "pakka_find_entry (Some a) (Some n) = (PAKKA_OK, Some e)"
    using e by (simp add: pakka_find_entry_def find_entry_def)
  consider (zero) "entry_length e = 0" "data = None" "a1 = a2"
    | (stop) "s \<noteq> PAKKA_OK" "data = None" "a1 = Some a \<or> a1 = a2"
    | (loop) buf where "entry_length e \<noteq> 0" "os = PAKKA_OK" "read_all_loop Z rd a2 ?tot [] = (s, buf, a1)"
        "data = (if s = PAKKA_OK then Some buf else None)"
    using r oh tot
    by (auto simp: pakka_read_entry_alloc_def find Let_def pakka_entry_size_def split: if_splits prod.splits)
  then show ?thesis
  proof cases
    case zero
    with g(1,2) show ?thesis by auto
  next
    case stop
    with g(1,2) id fp show ?thesis by metis
  next
    case loop
    then obtain rr c where rr: "rd = Some rr" "reader_at g rr c 0" "Q c" using g(3) by auto
    have L: "read_all_loop Z (Some rr) (Some (a\<lparr>fp := Some g\<rparr>)) ?tot [] = (s, buf, a1)"
      using loop(3) rr(1) g(1) by simp
    have at: "reader_at g rr c (length [])" using rr(2) by simp
    have k2: "fp (a\<lparr>fp := Some g\<rparr>) = Some g" "kind (format (a\<lparr>fp := Some g\<rparr>))" using k by simp_all
    from read_all [OF L k2 at]
    have R: "\<exists>h. a1 = Some (a\<lparr>fp := Some h\<rparr>) \<and> f_data h = f_data g" "s = PAKKA_OK \<longrightarrow> buf = take ?tot c \<and> ?tot \<le> length c"
      by auto
    have "?tot \<noteq> 0" using loop(1) by (simp add: unat_eq_0)
    with R loop(1,4) g(2) rr(3) show ?thesis by auto
  qed
qed

end

lemma pak_cursor_read:
  assumes "fp a = Some f" "\<not> pakka_format_is_zip (format a)" "reader_at f r c k"
  shows "cursor_read Z a f r c k len"
  unfolding cursor_read_def using reader_read_cursor [OF assms] by blast

interpretation pak_reads: served_readers Z "\<lambda>fmt. \<not> pakka_format_is_zip fmt" for Z
  by unfold_locales (rule pak_cursor_read, assumption+, rule pakka_reader_read_Some, assumption)

section \<open>Opening\<close>

lemma inflate_optional:
  assumes "length b = n"
  shows "pakka_dk_inflate (if n > 0 then Some b else None) n (if m > 0 then Some (replicate m 0) else None) m
    = pakka_dk_inflate (Some b) n (Some (replicate m 0)) m"
  using assms by (cases "n > 0"; cases "m > 0") (simp_all add: pakka_dk_inflate_def)

lemma inflate_Ok:
  assumes "pakka_dk_inflate (Some b) (length b) (Some (replicate m 0)) m = Ok c"
  shows "dk_run b [] = Some c \<and> length c = m"
  using assms pakka_dk_inflate_eq [of "length b" b m "replicate m 0"] by (auto split: option.splits if_splits)

text \<open>The staged source still has the bytes that were staged.\<close>

definition source_intact :: "files \<Rightarrow> pentry \<Rightarrow> bool" where
  "source_intact fs e \<longleftrightarrow> (\<forall>q. pending_source e = Some q \<longrightarrow> length (file_bytes fs q) = unat (entry_length e))"

lemma read_pending_source_OK:
  assumes r: "read_pending_source env fs q n = (PAKKA_OK, b)" and l: "length (file_bytes fs q) = n"
  shows "b = file_bytes fs q"
proof -
  obtain c li g where c: "fs q = Some (Regular c)" "fread_all (stream_of li c) n = (Some b, g)"
    using r by (auto simp: read_pending_source_def pakka_platform_lstat_def pakka_platform_fopen_def
        split: if_splits option.splits node.splits prod.splits)
  have cb: "file_bytes fs q = c" using c(1) by (simp add: file_bytes_def)
  show ?thesis
  proof (cases "n = 0")
    case True
    then show ?thesis using c(2) l cb by (auto simp: fread_all_def fread_def Let_def)
  next
    case False
    then have "f_has (stream_of li c) b" "length b = n" using fread_all_Some [OF c(2)] by simp_all
    moreover have "source_of (stream_of li c) c" by (simp add: source_of_def)
    ultimately show ?thesis using source_has cb l by metis
  qed
qed

lemma reader_start:
  "reader_at f (r\<lparr>inflated_buf := Some c, inflated_cursor := 0\<rparr>) c 0 \<longleftrightarrow> unat (remaining r) = length c"
  "reader_at f (r\<lparr>inflated_buf := Some c, inflated_cursor := n\<rparr>) c 0 \<longleftrightarrow> unat (remaining r) = length c \<and> n = 0"
  by (auto simp: reader_at_def)

lemma inflate_Fail:
  "pakka_dk_inflate (Some b) (length b) (Some (replicate m 0)) m \<noteq> Fail PAKKA_OK"
  using pakka_dk_inflate_eq [of "length b" b m "replicate m 0"] by (auto split: option.splits if_splits)

text \<open>What opening an entry gives. A staged entry that is compressed is the exception: when nothing is
  staged or its length is zero it is not decoded and reads as empty.\<close>

definition opened_at :: "files \<Rightarrow> cfile \<Rightarrow> pentry \<Rightarrow> reader \<Rightarrow> cfile \<Rightarrow> bool" where
  "opened_at fs f e r g \<longleftrightarrow> f_data g = f_data f \<and> (\<exists>c. reader_at g r c 0 \<and>
     (entry_content fs f e = Some c \<and> length c = unat (entry_length e)
      \<or> c = [] \<and> is_staged e \<and> dk_is_compressed e))"

lemma opened_atI:
  "f_data g = f_data f \<Longrightarrow> reader_at g r c 0 \<Longrightarrow> entry_content fs f e = Some c \<Longrightarrow> length c = unat (entry_length e) \<Longrightarrow>
   opened_at fs f e r g"
  by (auto simp: opened_at_def)

lemma reader_at_empty: "unat (remaining r) = 0 \<Longrightarrow> inflated_buf r = None \<Longrightarrow> unat (next_offset r) < 2 ^ 33 \<Longrightarrow> reader_at g r [] 0"
  by (simp add: reader_at_def)

lemma pending_bytes:
  assumes "is_staged e" "staged_wf e" "source_intact fs e"
    and "(case pending_source e of Some q \<Rightarrow> read_pending_source env fs q (unat (pak_entry_on_disk_extent e))
      | None \<Rightarrow> (PAKKA_OK, take (unat (pak_entry_on_disk_extent e)) (case_option [] id (pending_data e)))) = (PAKKA_OK, b)"
  shows "b = stored_bytes fs f e"
proof (cases "pending_source e")
  case None
  then obtain d where "pending_data e = Some d" using assms(1) by (auto simp: is_staged_def)
  with None assms(2,4) show ?thesis by (auto simp: stored_bytes_def staged_wf_def)
next
  case (Some q)
  then have "\<not> dk_is_compressed e" using assms(2) by (simp add: staged_wf_def)
  with Some assms(3,4) read_pending_source_OK [of env fs q _ b] show ?thesis
    by (simp add: stored_bytes_def source_intact_def pak_entry_on_disk_extent_def)
qed

lemma stored_length:
  assumes "is_staged e" "staged_wf e" "source_intact fs e"
  shows "length (stored_bytes fs f e) = unat (pak_entry_on_disk_extent e)"
  using assms
  by (auto simp: stored_bytes_def is_staged_def staged_wf_def source_intact_def pak_entry_on_disk_extent_def
      split: option.splits)

lemma open_pending_spec:
  assumes st: "is_staged e" "staged_wf e" "source_intact fs e"
    and r0: "unat (remaining r) = unat (entry_length e)" "inflated_buf r = None" "unat (next_offset r) < 2 ^ 33"
    and r: "pak_open_pending_reader env fs a r e = (PAKKA_OK, r')"
  shows "opened_at fs f e r' f"
proof -
  let ?x = "pak_entry_on_disk_extent e" and ?b = "stored_bytes fs f e"
  have sl: "length ?b = unat ?x" by (rule stored_length [OF st])
  have plain: "entry_content fs f e = Some ?b" "entry_length e = ?x" if "\<not> dk_is_compressed e"
    using that by (simp_all add: entry_content_def pak_entry_on_disk_extent_def)
  show ?thesis
  proof (cases "?x = 0")
    case True
    then have r': "r' = r\<lparr>remaining := 0\<rparr>" using r by (simp add: pak_open_pending_reader_def)
    have "reader_at f r' [] 0" by (rule reader_at_empty) (use r0 r' in simp_all)
    moreover have "entry_content fs f e = Some [] \<and> entry_length e = 0" if "\<not> dk_is_compressed e"
      using plain [OF that] sl True by simp
    ultimately show ?thesis using st(1) by (cases "dk_is_compressed e") (auto simp: opened_at_def)
  next
    case nz: False
    obtain s b where pb: "(case pending_source e of Some q \<Rightarrow> read_pending_source env fs q (unat ?x)
      | None \<Rightarrow> (PAKKA_OK, take (unat ?x) (case_option [] id (pending_data e)))) = (s, b)" by fastforce
    have s: "s = PAKKA_OK" using r nz pb by (auto simp: pak_open_pending_reader_def Let_def split: if_splits)
    have b: "b = ?b" by (rule pending_bytes [OF st pb [unfolded s]])
    show ?thesis
    proof (cases "dk_is_compressed e")
      case False
      then have r': "r' = r\<lparr>inflated_buf := Some ?b, inflated_cursor := 0\<rparr>"
        using r nz pb s b by (auto simp: pak_open_pending_reader_def Let_def split: if_splits)
      show ?thesis
        using plain [OF False] sl r0(1) by (intro opened_atI [of f f r' ?b]) (simp_all add: r' reader_start)
    next
      case c: True
      show ?thesis
      proof (cases "entry_length e = 0")
        case True
        then have "r' = r\<lparr>remaining := 0\<rparr>"
          using r nz pb s c by (auto simp: pak_open_pending_reader_def Let_def split: if_splits)
        then have "reader_at f r' [] 0" using r0 by (intro reader_at_empty) simp_all
        with c st(1) show ?thesis by (auto simp: opened_at_def)
      next
        case False
        let ?m = "unat (entry_length e)"
        obtain y where y: "pakka_dk_inflate (Some ?b) (length ?b) (Some (replicate ?m 0)) ?m = Ok y"
          "r' = r\<lparr>inflated_buf := Some y, inflated_cursor := 0\<rparr>"
          using r nz pb s b c False sl inflate_Fail [of ?b ?m]
          by (cases "pakka_dk_inflate (Some ?b) (length ?b) (Some (replicate ?m 0)) ?m")
            (auto simp: pak_open_pending_reader_def Let_def split: if_splits)
        from inflate_Ok [OF y(1)] have "entry_content fs f e = Some y" "length y = ?m"
          using c by (simp_all add: entry_content_def)
        with y(2) r0(1) show ?thesis by (intro opened_atI [of f f r' y]) (simp_all add: reader_start)
      qed
    qed
  qed
qed

lemma dk_payload_read:
  assumes dk: "dk_is_compressed e"
    and cm: "(if dk_compressed_size e > 0 then
        (let (sought, f1) = fseek_set f (unat (offset e)) in
         if \<not> sought then (None, f1) else fread_all f1 (unat (dk_compressed_size e)))
      else (Some [], f)) = (Some b, f1)"
  shows "f_data f1 = f_data f \<and> b = payload_bytes f e \<and> length b = unat (dk_compressed_size e)"
proof -
  let ?n = "unat (dk_compressed_size e)"
  have x: "pak_entry_on_disk_extent e = dk_compressed_size e" using dk by (simp add: pak_entry_on_disk_extent_def)
  show ?thesis
  proof (cases "dk_compressed_size e > 0")
    case False
    then have "dk_compressed_size e = 0" by (simp add: word_gt_0)
    with cm show ?thesis by (simp add: payload_bytes_def x)
  next
    case True
    obtain ok f2 where sk: "fseek_set f (unat (offset e)) = (ok, f2)" by fastforce
    with True cm have "fread_all f2 ?n = (Some b, f1)" "f2 = f\<lparr>f_pos := unat (offset e)\<rparr>"
      by (auto simp: fseek_set_True split: if_splits)
    moreover have "0 < ?n" using True by (simp add: unat_gt_0 word_gt_0)
    ultimately have "f_has (f\<lparr>f_pos := unat (offset e)\<rparr>) b" "length b = ?n" "f1 = f_skip (f\<lparr>f_pos := unat (offset e)\<rparr>) ?n"
      using fread_all_Some by blast+
    then show ?thesis by (auto simp: f_has_def payload_bytes_def x)
  qed
qed

lemma open_dk_spec:
  assumes e: "\<not> is_staged e" "dk_is_compressed e" "entry_end e \<le> length (f_data f)"
    and r0: "unat (remaining r) = unat (entry_length e)" "inflated_buf r = None" "unat (next_offset r) < 2 ^ 33"
    and r: "open_dk_entry env a f r e = (PAKKA_OK, r', g)"
  shows "opened_at fs f e r' g"
proof -
  let ?n = "unat (dk_compressed_size e)" and ?m = "unat (entry_length e)"
  have x: "pak_entry_on_disk_extent e = dk_compressed_size e" using e(2) by (simp add: pak_entry_on_disk_extent_def)
  obtain cm f1 where cm: "(if dk_compressed_size e > 0 then
        (let (sought, f1) = fseek_set f (unat (offset e)) in
         if \<not> sought then (None, f1) else fread_all f1 ?n)
      else (Some [], f)) = (cm, f1)" by fastforce
  obtain b where b: "cm = Some b" "g = f1"
    and inf: "(case pakka_dk_inflate (if dk_compressed_size e > 0 then Some b else None) ?n
        (if entry_length e > 0 then Some (replicate ?m 0) else None) ?m of
      Ok inflated \<Rightarrow> (PAKKA_OK, r\<lparr>inflated_buf := (if entry_length e > 0 then Some inflated else None), inflated_cursor := 0\<rparr>, f1)
      | Fail dk_status \<Rightarrow> (dk_status, r, f1) | Fault \<Rightarrow> (PAKKA_ERR_FORMAT, r, f1)) = (PAKKA_OK, r', g)"
    using r unfolding open_dk_entry_def Let_def cm [unfolded Let_def]
    by (auto split: if_splits option.splits cres.splits)
  note fb = dk_payload_read [OF e(2) cm [unfolded b(1)]]
  have sb: "stored_bytes fs f e = b" using e(1) fb by (simp add: stored_bytes_def is_staged_def)
  have nz: "dk_compressed_size e > 0 \<longleftrightarrow> ?n > 0" "entry_length e > 0 \<longleftrightarrow> ?m > 0"
    by (simp_all add: unat_gt_0 word_gt_0)
  obtain y where y: "pakka_dk_inflate (Some b) (length b) (Some (replicate ?m 0)) ?m = Ok y"
    "r' = r\<lparr>inflated_buf := (if entry_length e > 0 then Some y else None), inflated_cursor := 0\<rparr>"
    using inf inflate_optional [of b ?n ?m] inflate_Fail [of b ?m] fb unfolding nz
    by (cases "pakka_dk_inflate (Some b) (length b) (Some (replicate ?m 0)) ?m") auto
  from inflate_Ok [OF y(1)] have c: "entry_content fs f e = Some y" "length y = ?m"
    using e(2) by (simp_all add: entry_content_def sb)
  have "reader_at g r' y 0"
  proof (cases "entry_length e > 0")
    case True
    then show ?thesis using c(2) r0(1) by (simp add: y(2) reader_start)
  next
    case False
    then have "y = []" using c(2) nz(2) by simp
    with False r0 c(2) show ?thesis by (auto simp: y(2) reader_at_def)
  qed
  with c b(2) fb show ?thesis by (intro opened_atI) auto
qed

lemma open_handle_spec:
  assumes wf: "archive_wf a" and fp: "fp a = Some f" and e: "e \<in> set (entries a)" and si: "source_intact fs e"
    and r: "pakka_open_entry_handle Z env fs (Some a) (Some e) = (s, rd, a1)"
  shows "\<exists>g. a1 = Some (a\<lparr>fp := Some g\<rparr>) \<and> f_data g = f_data f \<and>
    (if s = PAKKA_OK then \<exists>r. rd = Some r \<and> opened_at fs f e r g else rd = None)"
proof -
  have z: "\<not> pakka_format_is_zip (format a)" using archive_wf_geometry [OF wf] by blast
  have ew: "entry_wf (format a) (pe a) e" and pl: "pe a \<le> length (f_data f)"
    using wf e fp by (auto simp: archive_wf_def)
  define r0 where "r0 = calloc_reader\<lparr>next_offset := ucast (offset e), remaining := ucast (entry_length e)\<rparr>"
  have R: "unat (remaining r0) = unat (entry_length e)" "inflated_buf r0 = None" "unat (next_offset r0) < 2 ^ 33"
    using unat_remaining by (simp_all add: r0_def calloc_reader_def)
  note id = fp_update_id [OF fp]
  show ?thesis
  proof (cases "e_oom env A_reader")
    case True
    with r fp show ?thesis by (intro exI [of _ f]) (simp add: pakka_open_entry_handle_def id)
  next
    case nm: False
    show ?thesis
    proof (cases "is_staged e")
      case True
      obtain s1 r1 where p: "pak_open_pending_reader env fs a r0 e = (s1, r1)" by fastforce
      have res: "s = s1" "a1 = Some a" "rd = (if s1 \<noteq> PAKKA_OK then None else Some r1)"
        using r fp nm True z p by (auto simp: pakka_open_entry_handle_def r0_def [symmetric] is_staged_def split: if_splits)
      have "staged_wf e" using ew True by (simp add: entry_wf_def)
      with open_pending_spec [OF True _ si R, of env a r1 f] p res show ?thesis
        by (intro exI [of _ f]) (simp add: id)
    next
      case ns: False
      have en: "entry_end e \<le> length (f_data f)" using ew ns pl by (simp add: entry_wf_def disk_wf_def)
      show ?thesis
      proof (cases "dk_is_compressed e")
        case True
        then have dk: "format a = PAKKA_FORMAT_DAIKATANA" using ew by (simp add: entry_wf_def)
        obtain s1 r1 f1 where p: "open_dk_entry env a f r0 e = (s1, r1, f1)" using prod_cases3 by blast
        have res: "s = s1" "a1 = Some (a\<lparr>fp := Some f1\<rparr>)" "rd = (if s1 \<noteq> PAKKA_OK then None else Some r1)"
          using r fp nm ns True z dk p
          by (auto simp: pakka_open_entry_handle_def r0_def [symmetric] is_staged_def Let_def split: if_splits)
        have "f_data f1 = f_data f"
          using p by (auto simp: open_dk_entry_def Let_def fread_all_def fseek_set_def fread_def
              split: if_splits option.splits cres.splits)
        with open_dk_spec [OF ns True en R, of env a r1 f1 fs] p res show ?thesis
          by (intro exI [of _ f1]) simp
      next
        case False
        have res: "s = PAKKA_OK" "a1 = Some a" "rd = Some r0"
          using r fp nm ns False z by (auto simp: pakka_open_entry_handle_def r0_def [symmetric] is_staged_def)
        have x: "pak_entry_on_disk_extent e = entry_length e" using False by (simp add: pak_entry_on_disk_extent_def)
        have c: "entry_content fs f e = Some (payload_bytes f e)"
          using False ns by (simp add: entry_content_def stored_bytes_def is_staged_def)
        have l: "length (payload_bytes f e) = unat (entry_length e)"
          using en x by (simp add: payload_bytes_def entry_end_def)
        have "reader_at f r0 (payload_bytes f e) 0"
        proof -
          have "unat (next_offset r0) = unat (offset e)" by (simp add: r0_def unat_remaining)
          moreover have "unat (next_offset r0) + unat (entry_length e) < 2 ^ 34"
            using R(3) unat_u32_bound [of "entry_length e"] by simp
          ultimately show ?thesis using R l x by (simp add: reader_at_def) (simp add: payload_bytes_def x)
        qed
        with c l res show ?thesis by (intro exI [of _ f]) (auto simp: id intro: opened_atI)
      qed
    qed
  qed
qed

section \<open>Reading a whole entry\<close>

text \<open>C18: reading a whole entry gives exactly its contents (the staged bytes, the bytes of the staged
  source, or the payload, decoded if it is compressed), and NULL for an entry of length zero; on every
  error there is no data. The archive differs in nothing but the position of its stream.\<close>

theorem read_entry_alloc_spec:
  assumes wf: "archive_wf a" and fp: "fp a = Some f" and e: "find_entry a n = Some e" and si: "source_intact fs e"
    and r: "pakka_read_entry_alloc Z env fs (Some a) (Some n) = (s, data, a1)"
  shows "(\<exists>g. a1 = Some (a\<lparr>fp := Some g\<rparr>) \<and> f_data g = f_data f)
    \<and> (if s = PAKKA_OK \<and> entry_length e \<noteq> 0 then data = entry_content fs f e \<and> data \<noteq> None else data = None)"
proof -
  have z: "\<not> pakka_format_is_zip (format a)" using archive_wf_geometry [OF wf] by blast
  have m: "e \<in> set (entries a)" using e find_entry_from_filename by (simp add: find_entry_def)
  have op: "opens_at Z env fs a f e (\<lambda>c. entry_content fs f e = Some c \<and> length c = unat (entry_length e)
      \<or> c = [] \<and> is_staged e \<and> dk_is_compressed e)"
    unfolding opens_at_def using open_handle_spec [OF wf fp m si] by (fastforce simp: opened_at_def)
  from pak_reads.read_entry [OF fp z e op r] show ?thesis by (auto split: if_splits)
qed

text \<open>A compressed entry whose declared sizes exceed the cap of the handle is refused with
  \<open>PAKKA_ERR_LIMIT\<close>, by opening it and by reading it whole, before a byte of it is read: the archive
  and its stream are as they were.\<close>

theorem over_cap_refused:
  assumes fp: "fp a = Some f" and fmt: "format a = PAKKA_FORMAT_DAIKATANA"
    and e: "find_entry a n = Some e" "\<not> is_staged e" "dk_is_compressed e"
    and cap: "over_cap a (entry_length e) (dk_compressed_size e)" and mem: "\<not> e_oom env A_reader" "\<not> e_oom env A_payload"
  shows "pakka_open_entry Z env fs (Some a) (Some n) = (PAKKA_ERR_LIMIT, None, Some a)
    \<and> pakka_read_entry_alloc Z env fs (Some a) (Some n) = (PAKKA_ERR_LIMIT, None, Some a)"
proof -
  have find: "pakka_find_entry (Some a) (Some n) = (PAKKA_OK, Some e)"
    using e(1) by (simp add: pakka_find_entry_def find_entry_def)
  have op: "pakka_open_entry_handle Z env fs (Some a) (Some e) = (PAKKA_ERR_LIMIT, None, Some a)"
    using fp fmt e(2,3) cap mem fp_update_id [OF fp]
    by (simp add: pakka_open_entry_handle_def pakka_format_is_zip_def is_staged_def open_dk_entry_def Let_def)
  then show ?thesis
    using fp mem by (simp add: pakka_open_entry_def find pakka_read_entry_alloc_def Let_def)
qed

section \<open>Examples\<close>

definition sample_entry_a :: pentry where
  "sample_entry_a = calloc_entry\<lparr>filename := ascii ''a.cfg'', offset := 12, entry_length := 3\<rparr>"

lemma sample_find: "find_entry sample_pak (ascii ''a.cfg'') = Some sample_entry_a" "source_intact fs sample_entry_a"
  "entry_length sample_entry_a = 3" "\<not> pakka_format_is_zip (format sample_pak)"
  "entry_content fs sample_fp sample_entry_a = Some [1, 2, 3]"
  by (simp_all add: sample_entry_a_def sample_pak_def calloc_archive_def find_entry_def source_intact_def calloc_entry_def
      pakka_format_is_zip_def entry_content_def stored_bytes_def payload_bytes_def pak_entry_on_disk_extent_def
      sample_fp_def ascii_def)

definition sample_reader :: reader where
  "sample_reader = calloc_reader\<lparr>next_offset := 12, remaining := 3\<rparr>"

lemma sample_reader_at: "reader_at sample_fp sample_reader [1, 2, 3] 0"
  by (simp add: reader_at_def sample_reader_def calloc_reader_def sample_fp_def ascii_def)

lemma sample_reads:
  "\<exists>r' a'. pakka_reader_read without_zip (Some sample_reader) (Some sample_pak) 2 = (PAKKA_OK, [1, 2], Some r', Some a')"
  by (simp add: pakka_reader_read_def sample_pak_fp sample_find(4) sample_reader_def calloc_reader_def reader_fread_def
      fseek_set_def fread_def sample_fp_def empty_stream_def ascii_def Let_def)

lemma read_entry_alloc_spec_witness:
  "\<exists>a1. pakka_read_entry_alloc without_zip quiet_env (\<lambda>_. None) (Some sample_pak) (Some (ascii ''a.cfg''))
    = (PAKKA_OK, Some [1, 2, 3], a1)"
proof -
  obtain s data a1 where
    r: "pakka_read_entry_alloc without_zip quiet_env (\<lambda>_. None) (Some sample_pak) (Some (ascii ''a.cfg'')) = (s, data, a1)"
    using prod_cases3 by blast
  have fe: "pakka_find_entry (Some sample_pak) (Some (ascii ''a.cfg'')) = (PAKKA_OK, Some sample_entry_a)"
    using sample_find(1) by (simp add: pakka_find_entry_def find_entry_def)
  have op: "pakka_open_entry_handle without_zip quiet_env (\<lambda>_. None) (Some sample_pak) (Some sample_entry_a) =
      (PAKKA_OK, Some sample_reader, Some sample_pak)"
    by (simp add: pakka_open_entry_handle_def sample_pak_fp quiet_env_simps sample_find sample_reader_def)
      (simp add: sample_entry_a_def calloc_entry_def)
  have "fst (read_all_loop without_zip (Some sample_reader) (Some sample_pak) 3 []) = PAKKA_OK"
    by (simp add: read_all_loop.simps pakka_reader_read_def sample_pak_fp sample_find(4) sample_reader_def
        calloc_reader_def reader_fread_def fseek_set_def fread_def sample_fp_def empty_stream_def ascii_def Let_def)
  then have "s = PAKKA_OK"
    using r by (simp add: pakka_read_entry_alloc_def fe op sample_find(3) Let_def pakka_entry_size_def alloc_over_cap_def
        sample_find(4) quiet_env_simps sample_pak_more pakka_format_is_zip_def split: prod.splits if_splits)
  with read_entry_alloc_spec [OF sample_pak_wf sample_pak_fp sample_find(1,2) r] r show ?thesis
    by (simp add: sample_find)
qed

definition bomb_entry :: pentry where
  "bomb_entry = calloc_entry\<lparr>filename := ascii ''b'', offset := 12, entry_length := 100, dk_compressed_size := 2,
     dk_is_compressed := True\<rparr>"

definition bomb_pak :: archive where
  "bomb_pak = sample_pak\<lparr>format := PAKKA_FORMAT_DAIKATANA, max_decompressed := 10, entries := [bomb_entry]\<rparr>"

lemma over_cap_refused_witness:
  "pakka_open_entry without_zip quiet_env sample_files (Some bomb_pak) (Some (ascii ''b'')) = (PAKKA_ERR_LIMIT, None, Some bomb_pak)
    \<and> pakka_read_entry_alloc without_zip quiet_env sample_files (Some bomb_pak) (Some (ascii ''b'')) = (PAKKA_ERR_LIMIT, None, Some bomb_pak)"
proof (rule over_cap_refused)
  show "fp bomb_pak = Some sample_fp" by (simp add: bomb_pak_def sample_pak_fp)
  show "find_entry bomb_pak (ascii ''b'') = Some bomb_entry" "\<not> is_staged bomb_entry"
    by (simp_all add: bomb_pak_def bomb_entry_def find_entry_def is_staged_def calloc_entry_def)
qed (simp_all add: bomb_pak_def bomb_entry_def over_cap_def quiet_env_def)

end
