(* ===== verification/Zip_Format.thy ===== *)
theory Zip_Format
  imports Pak_Format Utf8 Platform
begin

text \<open>
  The ZIP container of \<^verbatim>\<open>src/pk3file.c\<close> as it is read: entry names in UTF-8 or code page 437, the search
  for the end-of-central-directory record, the central directory, and the local headers; and the three
  records as they are written. The parsers work on buffers with checked accesses: \<open>Fail\<close> is a status
  the code returns, \<open>Fault\<close> an access outside the buffer.
\<close>

section \<open>Constants\<close>

definition PK3_LFH_SIGNATURE :: "u8 list" where "PK3_LFH_SIGNATURE = [0x50, 0x4B, 3, 4]"
definition PK3_CDR_SIGNATURE :: "u8 list" where "PK3_CDR_SIGNATURE = [0x50, 0x4B, 1, 2]"
definition PK3_EOCD_SIGNATURE :: "u8 list" where "PK3_EOCD_SIGNATURE = [0x50, 0x4B, 5, 6]"
definition PK3_LFH_SIZE :: nat where "PK3_LFH_SIZE = 30"
definition PK3_CDR_SIZE :: nat where "PK3_CDR_SIZE = 46"
definition PK3_EOCD_SIZE :: nat where "PK3_EOCD_SIZE = 22"
definition PK3_EOCD_SCAN_MAX :: nat where "PK3_EOCD_SCAN_MAX = 65557"
definition PK3_MAX_CDR_SIZE :: nat where "PK3_MAX_CDR_SIZE = 64 * 1024 * 1024"
definition PK3_UNIX_IFMT :: u32 where "PK3_UNIX_IFMT = 0xF000"
definition PK3_UNIX_IFLNK :: u32 where "PK3_UNIX_IFLNK = 0xA000"

lemmas zip_sizes = PK3_LFH_SIZE_def PK3_CDR_SIZE_def PK3_EOCD_SIZE_def

section \<open>Fields\<close>

definition pk3_read_u16 :: "u8 list \<Rightarrow> nat \<Rightarrow> u16 cres" where
  "pk3_read_u16 p i = cbind (mem_load p i) (\<lambda>b0. cbind (mem_load p (i + 1)) (\<lambda>b1.
     Ok (ucast b0 OR push_bit 8 (ucast b1))))"

definition pk3_read_u32 :: "u8 list \<Rightarrow> nat \<Rightarrow> u32 cres" where
  "pk3_read_u32 p i = cbind (mem_load p i) (\<lambda>b0. cbind (mem_load p (i + 1)) (\<lambda>b1.
     cbind (mem_load p (i + 2)) (\<lambda>b2. cbind (mem_load p (i + 3)) (\<lambda>b3.
     Ok (ucast b0 OR push_bit 8 (ucast b1) OR push_bit 16 (ucast b2) OR push_bit 24 (ucast b3))))))"

definition pk3_put_u16 :: "u16 \<Rightarrow> u8 list" where
  "pk3_put_u16 v = [ucast (v AND 0xFF), ucast (drop_bit 8 v AND 0xFF)]"

definition pk3_put_u32 :: "u32 \<Rightarrow> u8 list" where
  "pk3_put_u32 v = [ucast (v AND 0xFF), ucast (drop_bit 8 v AND 0xFF),
                    ucast (drop_bit 16 v AND 0xFF), ucast (drop_bit 24 v AND 0xFF)]"

text \<open>\<open>memcmp(&p[i], sig, 4) == 0\<close>.\<close>

definition pk3_signature_at :: "u8 list \<Rightarrow> nat \<Rightarrow> u8 list \<Rightarrow> bool cres" where
  "pk3_signature_at p i sig =
     (if i + PAKFILE_SIGNATURE_LEN \<le> length p then Ok (take PAKFILE_SIGNATURE_LEN (drop i p) = sig) else Fault)"

section \<open>Entry names\<close>

definition pk3_cp437_high :: "u16 list" where
  "pk3_cp437_high = [
    0x00C7, 0x00FC, 0x00E9, 0x00E2, 0x00E4, 0x00E0, 0x00E5, 0x00E7,
    0x00EA, 0x00EB, 0x00E8, 0x00EF, 0x00EE, 0x00EC, 0x00C4, 0x00C5,
    0x00C9, 0x00E6, 0x00C6, 0x00F4, 0x00F6, 0x00F2, 0x00FB, 0x00F9,
    0x00FF, 0x00D6, 0x00DC, 0x00A2, 0x00A3, 0x00A5, 0x20A7, 0x0192,
    0x00E1, 0x00ED, 0x00F3, 0x00FA, 0x00F1, 0x00D1, 0x00AA, 0x00BA,
    0x00BF, 0x2310, 0x00AC, 0x00BD, 0x00BC, 0x00A1, 0x00AB, 0x00BB,
    0x2591, 0x2592, 0x2593, 0x2502, 0x2524, 0x2561, 0x2562, 0x2556,
    0x2555, 0x2563, 0x2551, 0x2557, 0x255D, 0x255C, 0x255B, 0x2510,
    0x2514, 0x2534, 0x252C, 0x251C, 0x2500, 0x253C, 0x255E, 0x255F,
    0x255A, 0x2554, 0x2569, 0x2566, 0x2560, 0x2550, 0x256C, 0x2567,
    0x2568, 0x2564, 0x2565, 0x2559, 0x2558, 0x2552, 0x2553, 0x256B,
    0x256A, 0x2518, 0x250C, 0x2588, 0x2584, 0x258C, 0x2590, 0x2580,
    0x03B1, 0x00DF, 0x0393, 0x03C0, 0x03A3, 0x03C3, 0x00B5, 0x03C4,
    0x03A6, 0x0398, 0x03A9, 0x03B4, 0x221E, 0x03C6, 0x03B5, 0x2229,
    0x2261, 0x00B1, 0x2265, 0x2264, 0x2320, 0x2321, 0x00F7, 0x2248,
    0x00B0, 0x2219, 0x00B7, 0x221A, 0x207F, 0x00B2, 0x25A0, 0x00A0]"

text \<open>The encoder of one code point writes at \<open>p\<close> into \<open>dst\<close>, at most \<open>cap\<close> bytes; \<open>None\<close> is the result -1.\<close>

definition pk3_utf8_encode_bmp :: "u16 \<Rightarrow> u8 list \<Rightarrow> nat \<Rightarrow> nat \<Rightarrow> (nat \<times> u8 list) option cres" where
  "pk3_utf8_encode_bmp cp dst p cap =
     (if cp < 0x80 then
        (if cap < 1 then Ok None
         else cbind (mem_store dst p (ucast cp)) (\<lambda>d. Ok (Some (1, d))))
      else if cp < 0x800 then
        (if cap < 2 then Ok None
         else cbind (mem_store dst p (ucast (0xC0 OR drop_bit 6 cp))) (\<lambda>d.
              cbind (mem_store d (p + 1) (ucast (0x80 OR (cp AND 0x3F)))) (\<lambda>d. Ok (Some (2, d)))))
      else if cap < 3 then Ok None
      else cbind (mem_store dst p (ucast (0xE0 OR drop_bit 12 cp))) (\<lambda>d.
           cbind (mem_store d (p + 1) (ucast (0x80 OR (drop_bit 6 cp AND 0x3F)))) (\<lambda>d.
           cbind (mem_store d (p + 2) (ucast (0x80 OR (cp AND 0x3F)))) (\<lambda>d. Ok (Some (3, d))))))"

text \<open>The code page 437 loop: \<open>k\<close> bytes of \<open>src\<close> are left, \<open>out\<close> bytes are written; \<open>None\<close> is -1.\<close>

fun pk3_cp437_loop :: "u8 list \<Rightarrow> nat \<Rightarrow> nat \<Rightarrow> u8 list \<Rightarrow> nat \<Rightarrow> (nat \<times> u8 list) option cres" where
  "pk3_cp437_loop src i out dst 0 = Ok (Some (out, dst))"
| "pk3_cp437_loop src i out dst (Suc k) =
     cbind (mem_load src i) (\<lambda>b.
       if b < 0x80 then
         (if out + 1 \<ge> PAKKA_ENTRY_NAME_SIZE then Ok None
          else cbind (mem_store dst out b) (\<lambda>d. pk3_cp437_loop src (i + 1) (out + 1) d k))
       else
         cbind (mem_load pk3_cp437_high (unat (b - 0x80))) (\<lambda>cp.
         cbind (pk3_utf8_encode_bmp cp dst out (PAKKA_ENTRY_NAME_SIZE - out - 1)) (\<lambda>r.
           case r of None \<Rightarrow> Ok None
           | Some (n, d) \<Rightarrow> pk3_cp437_loop src (i + 1) (out + n) d k)))"

datatype decoded_name = Decoded "u8 list" | Name_too_long | Bit11_invalid

text \<open>The source is \<open>src_len\<close> bytes at \<open>p\<close>, the destination the zeroed name buffer of a new entry.\<close>

definition pk3_decode_entry_name :: "u8 list \<Rightarrow> nat \<Rightarrow> nat \<Rightarrow> u16 \<Rightarrow> decoded_name cres" where
  "pk3_decode_entry_name cdr p src_len gp_flags =
     (let src = drop p cdr; dst = replicate PAKKA_ENTRY_NAME_SIZE 0 in
      cbind (pakka_is_valid_utf8 src src_len) (\<lambda>valid.
        if valid then
          (if src_len + 1 > PAKKA_ENTRY_NAME_SIZE then Ok Name_too_long
           else cbind (mem_copy dst 0 src 0 src_len) (\<lambda>d.
                cbind (mem_store d src_len 0) (\<lambda>d. Ok (Decoded d))))
        else if gp_flags AND 0x0800 \<noteq> 0 then Ok Bit11_invalid
        else cbind (pk3_cp437_loop src 0 0 dst src_len) (\<lambda>r.
          case r of None \<Rightarrow> Ok Name_too_long
          | Some (out, d) \<Rightarrow> cbind (mem_store d out 0) (\<lambda>d. Ok (Decoded d)))))"

section \<open>The end of the central directory\<close>

text \<open>\<open>for (i = n; i-- > 0; )\<close>, backwards from the last place an EOCD can start.\<close>

fun pk3_eocd_scan :: "u8 list \<Rightarrow> nat \<Rightarrow> nat option cres" where
  "pk3_eocd_scan buf 0 = Ok None"
| "pk3_eocd_scan buf (Suc i) =
     cbind (pk3_signature_at buf i PK3_EOCD_SIGNATURE) (\<lambda>hit.
       if hit then
         cbind (pk3_read_u16 buf (i + 20)) (\<lambda>comment_len.
           if i + PK3_EOCD_SIZE + unat comment_len = length buf then Ok (Some i)
           else pk3_eocd_scan buf i)
       else pk3_eocd_scan buf i)"

text \<open>\<open>Fail PAKKA_ERR_IO\<close> and \<open>Fail PAKKA_ERR_FORMAT\<close> are the two results the caller tells apart by \<open>errno\<close>.\<close>

definition pk3_find_eocd :: "cfile \<Rightarrow> nat \<Rightarrow> nat cres \<times> cfile" where
  "pk3_find_eocd f fsize =
     (if fsize < PK3_EOCD_SIZE then (Fail PAKKA_ERR_FORMAT, f)
      else
        (let scan_len = (if fsize > PK3_EOCD_SCAN_MAX then PK3_EOCD_SCAN_MAX else fsize);
             scan_start = fsize - scan_len;
             (sought, f1) = fseek_set f scan_start
         in if \<not> sought then (Fail PAKKA_ERR_IO, f1)
            else case fread_all f1 scan_len of
                (None, f2) \<Rightarrow> (Fail PAKKA_ERR_IO, f2)
              | (Some buf, f2) \<Rightarrow>
                  (cbind (pk3_eocd_scan buf (scan_len - PK3_EOCD_SIZE + 1)) (\<lambda>hit.
                     case hit of None \<Rightarrow> Fail PAKKA_ERR_FORMAT | Some i \<Rightarrow> Ok (scan_start + i)), f2)))"

text \<open>The checks of the record in \<open>eocd\<close>: the offset and size of the directory and the entry count.\<close>

definition pk3_check_eocd :: "u8 list \<Rightarrow> nat \<Rightarrow> (u32 \<times> u32 \<times> u16) cres" where
  "pk3_check_eocd eocd eocd_offset =
     cbind (pk3_read_u16 eocd 4) (\<lambda>disk_num.
     cbind (pk3_read_u16 eocd 6) (\<lambda>disk_with_cdr.
     cbind (pk3_read_u16 eocd 8) (\<lambda>entries_on_disk.
     cbind (pk3_read_u16 eocd 10) (\<lambda>total_entries.
     cbind (pk3_read_u32 eocd 12) (\<lambda>cdr_size.
     cbind (pk3_read_u32 eocd 16) (\<lambda>cdr_offset.
       if disk_num \<noteq> 0 \<or> disk_with_cdr \<noteq> 0 then Fail PAKKA_ERR_UNSUPPORTED
       else if entries_on_disk \<noteq> total_entries then Fail PAKKA_ERR_FORMAT
       else if total_entries = 0xFFFF \<or> cdr_size = 0xFFFFFFFF \<or> cdr_offset = 0xFFFFFFFF
       then Fail PAKKA_ERR_UNSUPPORTED
       else if unat cdr_offset + unat cdr_size > eocd_offset then Fail PAKKA_ERR_FORMAT
       else if unat total_entries > PAKFILE_MAX_ENTRIES then Fail PAKKA_ERR_LIMIT
       else Ok (cdr_offset, cdr_size, total_entries)))))))"

definition pk3_validate_eocd :: "cfile \<Rightarrow> nat \<Rightarrow> (u32 \<times> u32 \<times> u16) cres \<times> cfile" where
  "pk3_validate_eocd f eocd_offset =
     (let (sought, f1) = fseek_set f eocd_offset in
      if \<not> sought then (Fail PAKKA_ERR_IO, f1)
      else case fread_all f1 PK3_EOCD_SIZE of
          (None, f2) \<Rightarrow> (Fail PAKKA_ERR_IO, f2)
        | (Some eocd, f2) \<Rightarrow> (pk3_check_eocd eocd eocd_offset, f2))"

section \<open>The central directory\<close>

record pk3_cdr_record =
  r_method :: u16
  r_flags :: u16
  r_name_len :: nat
  r_extra_len :: nat
  r_comment_len :: nat
  r_crc :: u32
  r_csize :: u32
  r_usize :: u32
  r_ext_attrs :: u32
  r_lfh_offset :: u32
  r_is_dir :: bool

text \<open>The name is free of control bytes: \<open>for (k = 0; k < name_len; k++)\<close> at \<open>p\<close>.\<close>

fun pk3_control_loop :: "u8 list \<Rightarrow> nat \<Rightarrow> nat \<Rightarrow> bool cres" where
  "pk3_control_loop cdr p 0 = Ok False"
| "pk3_control_loop cdr p (Suc k) =
     cbind (mem_load cdr p) (\<lambda>b.
       if b < 0x20 \<or> b = 0x7F then Ok True else pk3_control_loop cdr (p + 1) k)"

definition pk3_read_cdr_fields :: "u8 list \<Rightarrow> nat \<Rightarrow> pk3_cdr_record cres" where
  "pk3_read_cdr_fields cdr pos =
     cbind (pk3_read_u16 cdr (pos + 8)) (\<lambda>flags.
     cbind (pk3_read_u16 cdr (pos + 10)) (\<lambda>method.
     cbind (pk3_read_u32 cdr (pos + 16)) (\<lambda>crc.
     cbind (pk3_read_u32 cdr (pos + 20)) (\<lambda>csize.
     cbind (pk3_read_u32 cdr (pos + 24)) (\<lambda>usize.
     cbind (pk3_read_u16 cdr (pos + 28)) (\<lambda>name_len.
     cbind (pk3_read_u16 cdr (pos + 30)) (\<lambda>extra_len.
     cbind (pk3_read_u16 cdr (pos + 32)) (\<lambda>comment_len.
     cbind (pk3_read_u32 cdr (pos + 38)) (\<lambda>ext_attrs.
     cbind (pk3_read_u32 cdr (pos + 42)) (\<lambda>lfh_offset.
       Ok \<lparr>r_method = method, r_flags = flags, r_name_len = unat name_len, r_extra_len = unat extra_len,
           r_comment_len = unat comment_len, r_crc = crc, r_csize = csize, r_usize = usize,
           r_ext_attrs = ext_attrs, r_lfh_offset = lfh_offset, r_is_dir = False\<rparr>))))))))))"

definition pk3_validate_cdr_record :: "u8 list \<Rightarrow> nat \<Rightarrow> pk3_cdr_record cres" where
  "pk3_validate_cdr_record cdr pos =
     (if pos + PK3_CDR_SIZE > length cdr then Fail PAKKA_ERR_FORMAT
      else
        cbind (pk3_signature_at cdr pos PK3_CDR_SIGNATURE) (\<lambda>magic.
        if \<not> magic then Fail PAKKA_ERR_FORMAT
        else
          cbind (pk3_read_cdr_fields cdr pos) (\<lambda>r.
          if pos + PK3_CDR_SIZE + r_name_len r + r_extra_len r + r_comment_len r > length cdr
          then Fail PAKKA_ERR_FORMAT
          else if r_flags r AND 1 \<noteq> 0 then Fail PAKKA_ERR_UNSUPPORTED
          else if r_flags r AND 8 \<noteq> 0 then Fail PAKKA_ERR_UNSUPPORTED
          else if r_csize r = 0xFFFFFFFF \<or> r_usize r = 0xFFFFFFFF \<or> r_lfh_offset r = 0xFFFFFFFF
          then Fail PAKKA_ERR_UNSUPPORTED
          else if r_method r \<noteq> PK3_METHOD_STORED \<and> r_method r \<noteq> PK3_METHOD_DEFLATE
          then Fail PAKKA_ERR_UNSUPPORTED
          else if r_name_len r = 0 then Fail PAKKA_ERR_FORMAT
          else if r_name_len r \<ge> PAKKA_ENTRY_NAME_SIZE then Fail PAKKA_ERR_LIMIT
          else if drop_bit 16 (r_ext_attrs r) AND PK3_UNIX_IFMT = PK3_UNIX_IFLNK
          then Fail PAKKA_ERR_UNSAFE_NAME
          else
            cbind (mem_load cdr (pos + PK3_CDR_SIZE + r_name_len r - 1)) (\<lambda>last.
            if last = 0x2F \<and> r_usize r = 0 \<and> r_csize r = 0 then Ok (r\<lparr>r_is_dir := True\<rparr>)
            else
              cbind (pk3_control_loop cdr (pos + PK3_CDR_SIZE) (r_name_len r)) (\<lambda>control.
              if control then Fail PAKKA_ERR_FORMAT else Ok r)))))"

definition pk3_record_size :: "pk3_cdr_record \<Rightarrow> nat" where
  "pk3_record_size r = PK3_CDR_SIZE + r_name_len r + r_extra_len r + r_comment_len r"

text \<open>The entry made of a record.\<close>

definition pk3_entry_of :: "pk3_cdr_record \<Rightarrow> u8 list \<Rightarrow> pentry" where
  "pk3_entry_of r name =
     calloc_entry\<lparr>filename := cstr name, pk3_method := r_method r, crc32 := r_crc r,
       pk3_compressed_size := r_csize r, entry_length := r_usize r, offset := r_lfh_offset r,
       pk3_lfh_offset := r_lfh_offset r\<rparr>"

text \<open>\<open>n\<close> records are left at \<open>pos\<close>; the results are the position, the entries and the number of skipped
  directories.\<close>

fun pk3_cdr_loop :: "(nat \<Rightarrow> bool) \<Rightarrow> u8 list \<Rightarrow> nat \<Rightarrow> nat \<Rightarrow> pentry list \<Rightarrow> nat \<Rightarrow> nat \<Rightarrow> (nat \<times> pentry list \<times> nat) cres" where
  "pk3_cdr_loop oom cdr i pos es skipped 0 = Ok (pos, es, skipped)"
| "pk3_cdr_loop oom cdr i pos es skipped (Suc n) =
     cbind (pk3_validate_cdr_record cdr pos) (\<lambda>r.
       if r_is_dir r then pk3_cdr_loop oom cdr (i + 1) (pos + pk3_record_size r) es (skipped + 1) n
       else if oom i then Fail PAKKA_ERR_NOMEM
       else
         cbind (pk3_decode_entry_name cdr (pos + PK3_CDR_SIZE) (r_name_len r) (r_flags r)) (\<lambda>d.
           case d of
             Name_too_long \<Rightarrow> Fail PAKKA_ERR_LIMIT
           | Bit11_invalid \<Rightarrow> Fail PAKKA_ERR_FORMAT
           | Decoded name \<Rightarrow>
               pk3_cdr_loop oom cdr (i + 1) (pos + pk3_record_size r) (es @ [pk3_entry_of r name]) skipped n))"

text \<open>The directory must be consumed exactly; the entries and their number.\<close>

definition pk3_parse_cdr :: "(nat \<Rightarrow> bool) \<Rightarrow> u8 list \<Rightarrow> nat \<Rightarrow> (pentry list \<times> nat) cres" where
  "pk3_parse_cdr oom cdr entry_count =
     cbind (pk3_cdr_loop oom cdr 0 0 [] 0 entry_count) (\<lambda>(pos, es, skipped).
       if pos \<noteq> length cdr then Fail PAKKA_ERR_FORMAT else Ok (es, entry_count - skipped))"

section \<open>Local headers\<close>

text \<open>The checks of the local header in \<open>lfh\<close>; the result is the offset of the payload.\<close>

definition pk3_check_lfh :: "u8 list \<Rightarrow> pentry \<Rightarrow> u32 \<Rightarrow> u32 cres" where
  "pk3_check_lfh lfh e cdr_offset =
     cbind (pk3_signature_at lfh 0 PK3_LFH_SIGNATURE) (\<lambda>magic.
     if \<not> magic then Fail PAKKA_ERR_FORMAT
     else
       cbind (pk3_read_u16 lfh 6) (\<lambda>flags.
       cbind (pk3_read_u16 lfh 8) (\<lambda>method.
       cbind (pk3_read_u32 lfh 14) (\<lambda>crc.
       cbind (pk3_read_u32 lfh 18) (\<lambda>csize.
       cbind (pk3_read_u32 lfh 22) (\<lambda>usize.
       cbind (pk3_read_u16 lfh 26) (\<lambda>name_len.
       cbind (pk3_read_u16 lfh 28) (\<lambda>extra_len.
         if flags AND 1 \<noteq> 0 then Fail PAKKA_ERR_UNSUPPORTED
         else if flags AND 8 \<noteq> 0 then Fail PAKKA_ERR_UNSUPPORTED
         else if method \<noteq> pk3_method e \<or> crc \<noteq> crc32 e \<or> csize \<noteq> pk3_compressed_size e
              \<or> usize \<noteq> entry_length e
         then Fail PAKKA_ERR_FORMAT
         else if pk3_method e = PK3_METHOD_STORED \<and> pk3_compressed_size e \<noteq> entry_length e
         then Fail PAKKA_ERR_FORMAT
         else
           (let payload = unat (pk3_lfh_offset e) + PK3_LFH_SIZE + unat name_len + unat extra_len in
            if payload > UINT32_MAX then Fail PAKKA_ERR_FORMAT
            else if payload + unat (pk3_compressed_size e) > unat cdr_offset then Fail PAKKA_ERR_FORMAT
            else Ok (of_nat payload))))))))))"

definition pk3_validate_lfh :: "cfile \<Rightarrow> pentry \<Rightarrow> u32 \<Rightarrow> u32 cres \<times> cfile" where
  "pk3_validate_lfh f e cdr_offset =
     (let (sought, f1) = fseek_set f (unat (pk3_lfh_offset e)) in
      if \<not> sought then (Fail PAKKA_ERR_IO, f1)
      else case fread_all f1 PK3_LFH_SIZE of
          (None, f2) \<Rightarrow> (Fail PAKKA_ERR_IO, f2)
        | (Some lfh, f2) \<Rightarrow> (pk3_check_lfh lfh e cdr_offset, f2))"

text \<open>The second pass, which also moves the public offset to the payload.\<close>

fun pk3_lfh_loop :: "cfile \<Rightarrow> pentry list \<Rightarrow> u32 \<Rightarrow> pentry list cres \<times> cfile" where
  "pk3_lfh_loop f [] cdr_offset = (Ok [], f)"
| "pk3_lfh_loop f (e # es) cdr_offset =
     (case pk3_validate_lfh f e cdr_offset of
        (Ok payload, f1) \<Rightarrow>
          (let (rest, f2) = pk3_lfh_loop f1 es cdr_offset
           in (cbind rest (\<lambda>es. Ok (e\<lparr>pk3_payload_offset := payload, offset := payload\<rparr> # es)), f2))
      | (Fail s, f1) \<Rightarrow> (Fail s, f1)
      | (Fault, f1) \<Rightarrow> (Fault, f1))"

section \<open>Opening\<close>

text \<open>The directory: read into a buffer, parsed, and checked against the local headers. \<open>oom\<close> says which
  allocations fail: \<open>None\<close> the buffer, \<open>Some i\<close> the entry of record \<open>i\<close>.\<close>

definition pk3_load_cdr :: "(nat option \<Rightarrow> bool) \<Rightarrow> cfile \<Rightarrow> u32 \<Rightarrow> u32 \<Rightarrow> u16 \<Rightarrow> (pentry list \<times> nat) cres \<times> cfile" where
  "pk3_load_cdr oom f cdr_offset cdr_size entry_count =
     (if entry_count = 0 \<and> cdr_size = 0 then (Ok ([], 0), f)
      else if (entry_count = 0) \<noteq> (cdr_size = 0) then (Fail PAKKA_ERR_FORMAT, f)
      else if unat cdr_size > PK3_MAX_CDR_SIZE then (Fail PAKKA_ERR_LIMIT, f)
      else if oom None then (Fail PAKKA_ERR_NOMEM, f)
      else
        (let (sought, f1) = fseek_set f (unat cdr_offset) in
         if \<not> sought then (Fail PAKKA_ERR_IO, f1)
         else case fread_all f1 (unat cdr_size) of
             (None, f2) \<Rightarrow> (Fail PAKKA_ERR_IO, f2)
           | (Some cdr, f2) \<Rightarrow>
               (case pk3_parse_cdr (\<lambda>i. oom (Some i)) cdr (unat entry_count) of
                  Ok (es, n) \<Rightarrow>
                    (let (r, f3) = pk3_lfh_loop f2 es cdr_offset in (cbind r (\<lambda>es. Ok (es, n)), f3))
                | Fail s \<Rightarrow> (Fail s, f2)
                | Fault \<Rightarrow> (Fault, f2))))"

text \<open>The steps of \<open>pakka_pk3_open_impl\<close>: the directory offset, the entries, their number.\<close>

definition pk3_open_steps :: "(nat option \<Rightarrow> bool) \<Rightarrow> cfile \<Rightarrow> nat \<Rightarrow> (u32 \<times> pentry list \<times> nat) cres \<times> cfile" where
  "pk3_open_steps oom f fsize =
     (case pk3_find_eocd f fsize of
        (Ok eocd_offset, f1) \<Rightarrow>
          (case pk3_validate_eocd f1 eocd_offset of
             (Ok (cdr_offset, cdr_size, entry_count), f2) \<Rightarrow>
               (let (r, f3) = pk3_load_cdr oom f2 cdr_offset cdr_size entry_count
                in (cbind r (\<lambda>(es, n). Ok (cdr_offset, es, n)), f3))
           | (Fail s, f2) \<Rightarrow> (Fail s, f2)
           | (Fault, f2) \<Rightarrow> (Fault, f2))
      | (Fail s, f1) \<Rightarrow> (Fail s, f1)
      | (Fault, f1) \<Rightarrow> (Fault, f1))"

text \<open>On an error the caller destroys the handle with whatever was linked into it, so the model leaves
  the list as it was. \<open>Fault\<close> does not happen (\<open>pk3_open_no_fault\<close> in \<^verbatim>\<open>Zip_Parse\<close>).\<close>

definition pakka_pk3_open_impl :: "env \<Rightarrow> archive \<Rightarrow> cfile \<Rightarrow> status \<times> archive \<times> cfile" where
  "pakka_pk3_open_impl env pak f =
     (let pak1 = pak\<lparr>max_decompressed := PK3_DEFAULT_MAX_DECOMPRESSED\<rparr>;
          oom = (\<lambda>x. case x of None \<Rightarrow> e_oom env A_cdr | Some i \<Rightarrow> e_oom env (A_row i));
          (r, f1) = pk3_open_steps oom f (unat (file_size pak))
      in case r of
           Ok (cdr_offset, es, n) \<Rightarrow>
             (PAKKA_OK, pak1\<lparr>pk3_cdr_offset := cdr_offset, entries := entries pak1 @ es,
                             num_entries := of_nat n\<rparr>, f1)
         | Fail s \<Rightarrow> (s, pak1, f1)
         | Fault \<Rightarrow> (PAKKA_ERR_FORMAT, pak1, f1))"

section \<open>Writing records\<close>

definition pk3_build_eocd :: "u32 \<Rightarrow> u32 \<Rightarrow> u16 \<Rightarrow> u8 list" where
  "pk3_build_eocd cdr_offset cdr_size entry_count =
     PK3_EOCD_SIGNATURE @ pk3_put_u16 0 @ pk3_put_u16 0 @ pk3_put_u16 entry_count @ pk3_put_u16 entry_count
     @ pk3_put_u32 cdr_size @ pk3_put_u32 cdr_offset @ pk3_put_u16 0"

definition pk3_gp_flags_for_name :: "cstring \<Rightarrow> nat \<Rightarrow> u16" where
  "pk3_gp_flags_for_name name name_len =
     (if \<not> list_ex (\<lambda>c. c > 0x7F) (take name_len name) then 0
      else if pakka_is_valid_utf8 name name_len \<noteq> Ok True then 0
      else 0x0800)"

definition pk3_build_lfh :: "u16 \<Rightarrow> u32 \<Rightarrow> u32 \<Rightarrow> u32 \<Rightarrow> cstring \<Rightarrow> u16 \<Rightarrow> u8 list" where
  "pk3_build_lfh method crc csize usize name name_len =
     PK3_LFH_SIGNATURE @ pk3_put_u16 20 @ pk3_put_u16 (pk3_gp_flags_for_name name (unat name_len))
     @ pk3_put_u16 method @ pk3_put_u16 0 @ pk3_put_u16 0x0021 @ pk3_put_u32 crc @ pk3_put_u32 csize
     @ pk3_put_u32 usize @ pk3_put_u16 name_len @ pk3_put_u16 0"

definition pk3_build_cdr :: "u16 \<Rightarrow> u32 \<Rightarrow> u32 \<Rightarrow> u32 \<Rightarrow> cstring \<Rightarrow> u16 \<Rightarrow> u32 \<Rightarrow> u8 list" where
  "pk3_build_cdr method crc csize usize name name_len lfh_offset =
     PK3_CDR_SIGNATURE @ pk3_put_u16 20 @ pk3_put_u16 20
     @ pk3_put_u16 (pk3_gp_flags_for_name name (unat name_len)) @ pk3_put_u16 method @ pk3_put_u16 0
     @ pk3_put_u16 0x0021 @ pk3_put_u32 crc @ pk3_put_u32 csize @ pk3_put_u32 usize
     @ pk3_put_u16 name_len @ pk3_put_u16 0 @ pk3_put_u16 0 @ pk3_put_u16 0 @ pk3_put_u16 0
     @ pk3_put_u32 0 @ pk3_put_u32 lfh_offset"

end
