(* ===== verification/Zip_Names.thy ===== *)
theory Zip_Names
  imports Zip_Format
begin

text \<open>
  Facts about the fields and the entry names of ZIP records: a field that was written reads back, the
  decoder of names never leaves its buffers, and whatever the bytes in the directory are, a decoded name
  is valid UTF-8 without control bytes.
\<close>

section \<open>Bytes at a place\<close>

definition holds_at :: "'a list \<Rightarrow> nat \<Rightarrow> 'a list \<Rightarrow> bool" where
  "holds_at p i bs \<longleftrightarrow> i + length bs \<le> length p \<and> take (length bs) (drop i p) = bs"

lemma holds_at_append: "holds_at p i (a @ b) \<longleftrightarrow> holds_at p i a \<and> holds_at p (i + length a) b"
  by (auto simp: holds_at_def take_add add.assoc add.commute)

lemma holds_at_self: "holds_at (a @ b @ c) (length a) b"
  by (simp add: holds_at_def)

lemma holds_at_nth: "holds_at p i bs \<Longrightarrow> k < length bs \<Longrightarrow> i + k < length p \<and> p ! (i + k) = bs ! k"
  unfolding holds_at_def by (metis add_leD1 add_less_cancel_left nth_drop nth_take order_less_le_trans)

lemma length_put [simp]: "length (pk3_put_u16 x) = 2" "length (pk3_put_u32 y) = 4"
  by (simp_all add: pk3_put_u16_def pk3_put_u32_def)

lemma put_u32_eq: "pk3_put_u32 v = u32_le v"
  by (simp add: pk3_put_u32_def u32_le_def)

lemma u16_le_inverse: "ucast (ucast (v AND 0xFF) :: u8) OR push_bit 8 (ucast (ucast (drop_bit 8 v AND 0xFF) :: u8)) = (v :: u16)"
proof (rule bit_word_eqI)
  have m: "(0xFF :: u16) = mask 8" by (simp add: mask_eq_exp_minus_1)
  fix n assume "n < LENGTH(16)"
  then consider "n < 8" | "8 \<le> n" "n < 16" by fastforce
  then show "bit (ucast (ucast (v AND 0xFF) :: u8) OR push_bit 8 (ucast (ucast (drop_bit 8 v AND 0xFF) :: u8)) :: u16) n = bit v n"
    unfolding m by cases (auto simp: bit_simps)
qed

lemma read_u16_at: "holds_at p i (pk3_put_u16 v) \<Longrightarrow> pk3_read_u16 p i = Ok v"
  using holds_at_nth [of p i "pk3_put_u16 v" 0] holds_at_nth [of p i "pk3_put_u16 v" 1]
  by (simp add: pk3_read_u16_def mem_load_def) (simp add: pk3_put_u16_def u16_le_inverse)

lemma read_u32_at: "holds_at p i (pk3_put_u32 v) \<Longrightarrow> pk3_read_u32 p i = Ok v"
  using holds_at_nth [of p i "pk3_put_u32 v" 0] holds_at_nth [of p i "pk3_put_u32 v" 1]
    holds_at_nth [of p i "pk3_put_u32 v" 2] holds_at_nth [of p i "pk3_put_u32 v" 3]
  by (simp add: pk3_read_u32_def mem_load_def)
    (simp add: put_u32_eq, simp add: u32_le_def le_u32_le [of v, unfolded le_u32_def u32_le_def, simplified])

lemma read_u16_total: "i + 2 \<le> length p \<Longrightarrow> \<exists>v. pk3_read_u16 p i = Ok v"
  by (simp add: pk3_read_u16_def mem_load_def)

lemma read_u32_total: "i + 4 \<le> length p \<Longrightarrow> \<exists>v. pk3_read_u32 p i = Ok v"
  by (simp add: pk3_read_u32_def mem_load_def)

lemma signature_at: "i + 4 \<le> length p \<Longrightarrow> length sig = 4 \<Longrightarrow> pk3_signature_at p i sig = Ok (holds_at p i sig)"
  by (simp add: pk3_signature_at_def holds_at_def PAKFILE_SIGNATURE_LEN_def)

section \<open>Code page 437\<close>

lemma utf8_valid_text: "n \<le> length s \<Longrightarrow> pakka_is_valid_utf8 s n = Ok (utf8_text (take n s))"
  using utf8_valid_loop_iff [of n s 0] by (simp add: pakka_is_valid_utf8_def)

text \<open>The code point of a byte, and the text of a code page 437 name.\<close>

definition cp437_point :: "u8 \<Rightarrow> nat" where
  "cp437_point b = (if b < 0x80 then unat b else unat (pk3_cp437_high ! (unat b - 128)))"

definition cp437_text :: "u8 list \<Rightarrow> u8 list" where
  "cp437_text bs = concat (map (\<lambda>b. utf8_encode (cp437_point b)) bs)"

lemma length_cp437_high: "length pk3_cp437_high = 128"
  by (simp add: pk3_cp437_high_def)

lemma cp437_high_range: "list_all (\<lambda>cp. 0xA0 \<le> cp \<and> cp < 0xD800) pk3_cp437_high"
  by (simp add: pk3_cp437_high_def)

lemma cp437_high_nth: "k < 128 \<Longrightarrow> 0xA0 \<le> unat (pk3_cp437_high ! k) \<and> unat (pk3_cp437_high ! k) < 0xD800"
  using cp437_high_range by (simp add: list_all_length length_cp437_high word_le_nat_alt word_less_nat_alt)

lemma cp437_point_scalar: "scalar (cp437_point b)"
proof (cases "b < 0x80")
  case True
  then show ?thesis by (simp add: cp437_point_def scalar_def word_less_nat_alt)
next
  case False
  then have "unat b - 128 < 128" using unat_u8_bound [of b] by (simp add: word_less_nat_alt)
  from cp437_high_nth [OF this] False show ?thesis by (simp add: cp437_point_def scalar_def)
qed

lemma cp437_text_utf8: "utf8_text (cp437_text bs)"
  unfolding utf8_text_def cp437_text_def
  by (rule exI [of _ "map cp437_point bs"]) (auto simp: cp437_point_scalar comp_def)

text \<open>The encoder writes the encoding of the code point when there is room for it.\<close>

lemma nat_or_add: "n < 2 ^ k \<Longrightarrow> m * 2 ^ k OR n = m * 2 ^ k + n" for m n :: nat
proof -
  assume n: "n < 2 ^ k"
  have "push_bit k m OR n = push_bit k m + n"
  proof (rule disjunctive_add_eq_or [symmetric])
    have "n = take_bit k n" using n by (simp add: take_bit_nat_eq_self)
    then show "push_bit k m AND n = 0"
      by (metis (no_types, lifting) bit_and_iff bit_push_bit_iff bit_take_bit_iff bit_0_eq
          bit_eq_iff bot_apply bot_bool_def not_le)
  qed
  then show ?thesis by (simp add: push_bit_eq_mult)
qed

lemma u16_parts: "unat (drop_bit k c) = unat c div 2 ^ k" "unat (c AND 0x3F) = unat c mod 64" for c :: u16
proof -
  show "unat (drop_bit k c) = unat c div 2 ^ k" by (simp only: unat_drop_bit_eq) (simp only: drop_bit_eq_div)
  have "(0x3F :: u16) = mask 6" by (simp add: mask_eq_exp_minus_1)
  then show "unat (c AND 0x3F) = unat c mod 64"
    by (simp only: take_bit_eq_mask [symmetric] unsigned_take_bit_eq) (simp add: take_bit_eq_mod)
qed

lemma ucast_u8_value: "unat (y :: u16) = n \<Longrightarrow> n < 256 \<Longrightarrow> ucast y = (word_of_nat n :: u8)"
  by (simp add: u8_eq_iff unat_of_nat_u8 unsigned_ucast_eq take_bit_nat_eq_self)

lemma u16_tag: "unat x < 2 ^ k \<Longrightarrow> unat (t :: u16) = m * 2 ^ k \<Longrightarrow> m * 2 ^ k + unat x < 256 \<Longrightarrow>
    ucast (t OR x) = (word_of_nat (m * 2 ^ k + unat x) :: u8)"
  by (rule ucast_u8_value) (simp_all only: unsigned_or_eq nat_or_add)

lemma store_two: "Suc p < length d \<Longrightarrow> d[p := x, Suc p := y] = take p d @ [x, y] @ drop (p + 2) d"
proof -
  assume p: "Suc p < length d"
  define a r where "a = take p d" and "r = drop (p + 2) d"
  have l: "length a = p" using p by (simp add: a_def)
  have d: "d = a @ d ! p # d ! Suc p # r"
    using p unfolding a_def r_def by (metis Cons_nth_drop_Suc Suc_lessD add_2_eq_Suc' append_take_drop_id)
  have "(a @ u # v # r)[p := x, Suc p := y] = a @ [x, y] @ r" for u v
    using l by (simp add: list_update_append)
  then have "(a @ d ! p # d ! Suc p # r)[p := x, Suc p := y] = a @ [x, y] @ r" .
  with d show ?thesis by (simp add: a_def r_def)
qed

lemma store_three:
  "Suc (Suc p) < length d \<Longrightarrow> d[p := x, Suc p := y, Suc (Suc p) := z] = take p d @ [x, y, z] @ drop (p + 3) d"
proof -
  assume p: "Suc (Suc p) < length d"
  define a r where "a = take p d" and "r = drop (p + 3) d"
  have l: "length a = p" using p by (simp add: a_def)
  have "drop (p + 2) d = d ! (p + 2) # r"
    using p unfolding r_def by (metis Cons_nth_drop_Suc add_2_eq_Suc' add_Suc_right eval_nat_numeral(3))
  then have two: "d[p := x, Suc p := y] = a @ x # y # d ! (p + 2) # r"
    using store_two [of p d x y] p by (simp add: a_def)
  have "(a @ x # y # u # r)[Suc (Suc p) := z] = a @ [x, y, z] @ r" for u
    using l by (simp add: list_update_append)
  then have "(a @ x # y # d ! (p + 2) # r)[Suc (Suc p) := z] = a @ [x, y, z] @ r" .
  then show ?thesis unfolding two by (simp only: a_def r_def)
qed

lemma encode_bmp:
  assumes p: "p + cap < length dst"
  shows "pk3_utf8_encode_bmp cp dst p cap =
    (let enc = utf8_encode (unat cp) in
     Ok (if length enc \<le> cap then Some (length enc, take p dst @ enc @ drop (p + length enc) dst) else None))"
proof -
  let ?c = "unat cp"
  have b: "?c < 65536" using unsigned_less [of cp] by simp
  have store: "p + 1 < length dst \<Longrightarrow> dst[p := x, Suc p := y] = take p dst @ [x, y] @ drop (p + 2) dst"
    "p + 2 < length dst \<Longrightarrow> dst[p := x, Suc p := y, Suc (Suc p) := z] = take p dst @ [x, y, z] @ drop (p + 3) dst"
    for x y z
    by (simp add: store_two, simp only: Suc_eq_plus1 [symmetric] store_three add_2_eq_Suc')
  have one: "dst[p := x] = take p dst @ [x] @ drop (p + 1) dst" for x
    using p by (simp add: upd_conv_take_nth_drop)
  consider "?c < 0x80" | "0x80 \<le> ?c" "?c < 0x800" | "0x800 \<le> ?c" by linarith
  then show ?thesis
  proof cases
    case 1
    then have "ucast cp = (word_of_nat ?c :: u8)" by (intro ucast_u8_value) auto
    with 1 p one show ?thesis
      by (simp add: pk3_utf8_encode_bmp_def word_less_nat_alt utf8_encode_def mem_store_def)
  next
    case 2
    have "ucast (0xC0 OR drop_bit 6 cp) = (word_of_nat (3 * 2 ^ 6 + unat (drop_bit 6 cp)) :: u8)"
      by (rule u16_tag) (use 2 in \<open>simp_all add: u16_parts\<close>)
    moreover have "ucast (0x80 OR (cp AND 0x3F)) = (word_of_nat (2 * 2 ^ 6 + unat (cp AND 0x3F)) :: u8)"
      by (rule u16_tag) (simp_all add: u16_parts)
    ultimately show ?thesis using 2 p store(1)
      by (simp add: pk3_utf8_encode_bmp_def word_less_nat_alt utf8_encode_def mem_store_def u16_parts)
  next
    case 3
    have "ucast (0xE0 OR drop_bit 12 cp) = (word_of_nat (14 * 2 ^ 4 + unat (drop_bit 12 cp)) :: u8)"
      by (rule u16_tag) (use b in \<open>simp_all add: u16_parts\<close>)
    moreover have "ucast (0x80 OR (drop_bit 6 cp AND 0x3F)) = (word_of_nat (2 * 2 ^ 6 + unat (drop_bit 6 cp AND 0x3F)) :: u8)"
      by (rule u16_tag) (simp_all add: u16_parts)
    moreover have "ucast (0x80 OR (cp AND 0x3F)) = (word_of_nat (2 * 2 ^ 6 + unat (cp AND 0x3F)) :: u8)"
      by (rule u16_tag) (simp_all add: u16_parts)
    ultimately show ?thesis using 3 b p store(2)
      by (simp add: pk3_utf8_encode_bmp_def word_less_nat_alt utf8_encode_def mem_store_def u16_parts numeral_3_eq_3)
  qed
qed

text \<open>The loop fills the buffer with the text of the name, or gives up when it does not fit.\<close>

lemma cp437_text_Cons: "cp437_text (b # bs) = utf8_encode (cp437_point b) @ cp437_text bs"
  by (simp add: cp437_text_def)

lemma cp437_loop:
  assumes "i + k \<le> length src" "out < PAKKA_ENTRY_NAME_SIZE" "length dst = PAKKA_ENTRY_NAME_SIZE"
  shows "pk3_cp437_loop src i out dst k =
    (let t = cp437_text (take k (drop i src)) in
     Ok (if out + length t < PAKKA_ENTRY_NAME_SIZE
         then Some (out + length t, take out dst @ t @ drop (out + length t) dst) else None))"
  using assms
proof (induction k arbitrary: i out dst)
  case 0
  then show ?case by (simp add: cp437_text_def)
next
  case (Suc k)
  let ?b = "src ! i" and ?N = PAKKA_ENTRY_NAME_SIZE
  have i: "i < length src" "i + 1 + k \<le> length src" using Suc.prems(1) by auto
  have piece: "take (Suc k) (drop i src) = ?b # take k (drop (i + 1) src)"
    using i(1) by (simp add: Cons_nth_drop_Suc [symmetric])
  define e where "e = utf8_encode (cp437_point ?b)"
  define t where "t = cp437_text (take k (drop (i + 1) src))"
  have step: "pk3_cp437_loop src i out dst (Suc k) =
     (if out + length e < ?N
      then pk3_cp437_loop src (i + 1) (out + length e) (take out dst @ e @ drop (out + length e) dst) k
      else Ok None)"
  proof (cases "?b < 0x80")
    case True
    then have e: "e = [?b]" by (simp add: e_def cp437_point_def utf8_encode_def word_less_nat_alt)
    show ?thesis using True i(1) Suc.prems(2,3)
      by (simp add: mem_load_def mem_store_def e upd_conv_take_nth_drop)
  next
    case False
    have hi: "unat (?b - 0x80) = unat ?b - 128" "unat ?b - 128 < 128"
      using False unat_u8_bound [of ?b] by (simp_all add: word_less_nat_alt unat_sub word_le_nat_alt)
    have e: "utf8_encode (unat (pk3_cp437_high ! (unat ?b - 128))) = e"
      using False by (simp add: e_def cp437_point_def)
    have c: "out + (?N - Suc out) < length dst" using Suc.prems(2,3) by simp
    have l: "length e \<le> ?N - Suc out \<longleftrightarrow> out + length e < ?N" using Suc.prems(2) by auto
    show ?thesis using False i(1) hi
      by (simp add: mem_load_def length_cp437_high encode_bmp [OF c] e Let_def l)
  qed
  show ?case
  proof (cases "out + length e < ?N")
    case True
    have le: "out + length e \<le> length dst" "out \<le> length dst" using True Suc.prems(2,3) by auto
    then have ld: "length (take out dst @ e @ drop (out + length e) dst) = ?N" using Suc.prems(3) by simp
    have "take (out + length e) (take out dst @ e @ drop (out + length e) dst) = take out dst @ e"
      using le by simp
    moreover have "drop (out + length e + length t) (take out dst @ e @ drop (out + length e) dst)
        = drop (out + (length e + length t)) dst"
      using le by (simp add: ac_simps)
    ultimately show ?thesis
      using Suc.IH [OF i(2) True ld] True
      unfolding step piece cp437_text_Cons e_def [symmetric] t_def [symmetric] Let_def by (simp add: add.assoc)
  next
    case False
    then show ?thesis unfolding step piece cp437_text_Cons e_def [symmetric] Let_def by simp
  qed
qed

section \<open>Names\<close>

text \<open>What the decoder makes of the raw bytes: themselves when they are UTF-8, their code page 437 text when
  they are not and do not claim to be.\<close>

definition raw_text :: "u8 list \<Rightarrow> u8 list" where
  "raw_text raw = (if utf8_text raw then raw else cp437_text raw)"

lemma raw_text_utf8: "utf8_text (raw_text raw)"
  by (simp add: raw_text_def cp437_text_utf8)

lemma decode_entry_name:
  assumes n: "p + n \<le> length cdr" "n < PAKKA_ENTRY_NAME_SIZE" and raw: "raw = take n (drop p cdr)"
  shows "pk3_decode_entry_name cdr p n flags =
    Ok (if \<not> utf8_text raw \<and> flags AND 0x0800 \<noteq> 0 then Bit11_invalid
        else if length (raw_text raw) < PAKKA_ENTRY_NAME_SIZE
        then Decoded (raw_text raw @ replicate (PAKKA_ENTRY_NAME_SIZE - length (raw_text raw)) 0)
        else Name_too_long)"
proof -
  let ?N = PAKKA_ENTRY_NAME_SIZE
  have len: "n \<le> length (drop p cdr)" "length raw = n" using n raw by auto
  have pad: "(t @ replicate (?N - length t) 0)[length t := 0] = t @ replicate (?N - length t) (0 :: u8)"
    if "length t < ?N" for t :: "u8 list"
    using that by (simp add: list_update_append) (cases "?N - length t", simp_all)
  have v: "pakka_is_valid_utf8 (drop p cdr) n = Ok (utf8_text raw)"
    using utf8_valid_text [OF len(1)] raw by simp
  show ?thesis
  proof (cases "utf8_text raw")
    case True
    have "mem_copy (replicate ?N 0) 0 (drop p cdr) 0 n = Ok (raw @ replicate (?N - n) 0)"
      using n len raw by (simp add: mem_copy_def)
    with True v n(2) len(2) pad [of raw] show ?thesis
      by (simp add: pk3_decode_entry_name_def mem_store_def raw_text_def)
  next
    case False
    have loop: "pk3_cp437_loop (drop p cdr) 0 0 (replicate ?N 0) n =
        Ok (if length (cp437_text raw) < ?N
            then Some (length (cp437_text raw), cp437_text raw @ replicate (?N - length (cp437_text raw)) 0) else None)"
      using cp437_loop [of 0 n "drop p cdr" 0 "replicate ?N 0"] len(1)
      by (simp add: raw PAKKA_ENTRY_NAME_SIZE_def Let_def)
    from False v pad [of "cp437_text raw"] show ?thesis
      by (simp add: pk3_decode_entry_name_def loop mem_store_def raw_text_def)
  qed
qed

text \<open>No control byte goes in, none comes out.\<close>

definition printable :: "u8 list \<Rightarrow> bool" where
  "printable bs \<longleftrightarrow> (\<forall>b \<in> set bs. \<not> b < 0x20 \<and> b \<noteq> 0x7F)"

lemma printable_c_string: "printable bs \<Longrightarrow> c_string bs"
  by (auto simp: printable_def c_string_def)

lemma printable_simps: "printable (a @ b) \<longleftrightarrow> printable a \<and> printable b"
    "printable (c # b) \<longleftrightarrow> \<not> c < 0x20 \<and> c \<noteq> 0x7F \<and> printable b" "printable []"
  by (auto simp: printable_def)

lemma control_loop: "p + n \<le> length cdr \<Longrightarrow> pk3_control_loop cdr p n = Ok (\<not> printable (take n (drop p cdr)))"
proof (induction n arbitrary: p)
  case (Suc n)
  then have "take (Suc n) (drop p cdr) = cdr ! p # take n (drop (p + 1) cdr)"
    by (simp add: Cons_nth_drop_Suc [symmetric])
  with Suc show ?case by (simp add: mem_load_def printable_def)
qed (simp add: printable_def)

lemma encode_high: "0x80 \<le> cp \<Longrightarrow> cp < 0x10000 \<Longrightarrow> b \<in> set (utf8_encode cp) \<Longrightarrow> 0x80 \<le> unat b"
  by (auto simp: utf8_encode_def unat_of_nat_u8 simp del: of_nat_add split: if_splits)

lemma printable_cp437: "printable bs \<Longrightarrow> printable (cp437_text bs)"
proof (induction bs)
  case (Cons b bs)
  have "\<not> c < 0x20 \<and> c \<noteq> 0x7F" if c: "c \<in> set (utf8_encode (cp437_point b))" for c
  proof (cases "b < 0x80")
    case True
    then have "utf8_encode (cp437_point b) = [b]"
      by (simp add: cp437_point_def utf8_encode_def word_less_nat_alt)
    with c Cons.prems show ?thesis by (auto simp: printable_def)
  next
    case False
    then have "unat b - 128 < 128" using unat_u8_bound [of b] by (simp add: word_less_nat_alt)
    then have "0x80 \<le> cp437_point b" "cp437_point b < 0x10000"
      using cp437_high_nth [of "unat b - 128"] False by (simp_all add: cp437_point_def)
    from encode_high [OF this c] show ?thesis by (auto simp: word_less_nat_alt)
  qed
  then have "printable (utf8_encode (cp437_point b))" by (simp add: printable_def)
  with Cons show ?case by (simp add: cp437_text_Cons printable_simps)
qed (simp add: printable_def cp437_text_def)

lemma printable_raw_text: "printable raw \<Longrightarrow> printable (raw_text raw)"
  by (simp add: raw_text_def printable_cp437)

lemma raw_text_Nil_iff: "raw_text raw = [] \<longleftrightarrow> raw = []"
  using utf8_encode_length(1) by (cases raw) (auto simp: raw_text_def cp437_text_def)

lemma last_raw_text: "raw \<noteq> [] \<Longrightarrow> last (raw_text raw) = 0x2F \<longleftrightarrow> last raw = 0x2F"
proof (cases raw rule: rev_cases)
  case (snoc xs b)
  have c: "cp437_text raw = cp437_text xs @ utf8_encode (cp437_point b)" by (simp add: snoc cp437_text_def)
  have "last (cp437_text raw) = 0x2F \<longleftrightarrow> b = 0x2F"
  proof (cases "b < 0x80")
    case True
    then have "utf8_encode (cp437_point b) = [b]" by (simp add: cp437_point_def utf8_encode_def word_less_nat_alt)
    then show ?thesis by (simp add: c)
  next
    case False
    then have "unat b - 128 < 128" using unat_u8_bound [of b] by (simp add: word_less_nat_alt)
    then have p: "0x80 \<le> cp437_point b" "cp437_point b < 0x10000"
      using cp437_high_nth [of "unat b - 128"] False by (simp_all add: cp437_point_def)
    have "utf8_encode (cp437_point b) \<noteq> []" using utf8_encode_length(1) by auto
    then have "last (cp437_text raw) \<in> set (utf8_encode (cp437_point b))" by (simp add: c)
    from encode_high [OF p this] have "last (cp437_text raw) \<noteq> 0x2F" by auto
    with False show ?thesis by auto
  qed
  then show ?thesis by (simp add: raw_text_def snoc)
qed simp

text \<open>The name of an entry as it comes out of the buffer.\<close>

lemma cstr_padded: "c_string t \<Longrightarrow> cstr (t @ replicate k 0) = t"
  by (cases k) (simp_all add: cstr_append_nul cstr_id)

section \<open>The language flag\<close>

text \<open>A name in UTF-8 comes back from the flags and the bytes that are written for it.\<close>

lemma gp_flags: "n \<le> length name \<Longrightarrow> pk3_gp_flags_for_name name n =
    (if list_all (\<lambda>c. c \<le> 0x7F) (take n name) \<or> \<not> utf8_text (take n name) then 0 else 0x0800)"
  by (simp add: pk3_gp_flags_for_name_def utf8_valid_text list_ex_iff list_all_iff not_less)

end
