(* ===== verification/Deflate.thy ===== *)
theory Deflate
  imports Platform
begin

text \<open>
  The DEFLATE interface of \<^verbatim>\<open>src/deflate/deflate_iface.h\<close> and its two backends,
  \<^verbatim>\<open>src/deflate/deflate_vendored.c\<close> and \<^verbatim>\<open>src/deflate/deflate_zlib.c\<close>. The codecs behind the backends
  are third-party code and parameters here: \<open>sdefl\<close> the bundled encoder and decoder, \<open>zlib\<close> the system
  library, called in one shot. What is relied on of them is \<open>sdefl_inverts\<close> and \<open>zlib_inverts\<close>: the
  decoder gives back what the encoder was given.
\<close>

section \<open>The interface\<close>

text \<open>\<open>d_compress\<close> takes the failing allocations; its result \<open>None\<close> asks for STORED. \<open>d_inflate src out cap\<close>
  decodes into a buffer of \<open>cap\<close> bytes, or (\<open>\<not> out\<close>) only scans; the results are the status, the bytes
  produced and the number of bytes consumed.\<close>

record deflate_ops =
  d_compress :: "(site \<Rightarrow> bool) \<Rightarrow> u8 list \<Rightarrow> status \<times> u8 list option"
  d_inflate :: "u8 list \<Rightarrow> bool \<Rightarrow> nat \<Rightarrow> status \<times> u8 list \<times> nat"

text \<open>The promise of the interface: a payload that was compressed is smaller, not empty, and decodes to
  the source, with every byte of it consumed.\<close>

definition deflate_contract :: "deflate_ops \<Rightarrow> bool" where
  "deflate_contract D \<longleftrightarrow>
     (\<forall>oom src enc. d_compress D oom src = (PAKKA_OK, Some enc) \<longrightarrow>
        enc \<noteq> [] \<and> length enc < length src
        \<and> d_inflate D enc True (length src) = (PAKKA_OK, src, length enc))"

definition INT_MAX :: nat where "INT_MAX = 2 ^ 31 - 1"
definition UINT_MAX :: nat where "UINT_MAX = 2 ^ 32 - 1"

section \<open>The vendored backend\<close>

text \<open>\<open>c_deflate\<close> and \<open>c_inflate\<close> return the \<open>int\<close> of the codec and the bytes put into the buffer.\<close>

record sdefl =
  c_bound :: "nat \<Rightarrow> int"
  c_deflate :: "u8 list \<Rightarrow> int \<times> u8 list"
  c_inflate :: "nat \<Rightarrow> u8 list \<Rightarrow> int \<times> u8 list"

definition vendored_compress :: "sdefl \<Rightarrow> (site \<Rightarrow> bool) \<Rightarrow> u8 list \<Rightarrow> status \<times> u8 list option" where
  "vendored_compress C oom src =
     (let src_len = length src in
      if src_len = 0 then (PAKKA_OK, None)
      else if src_len > INT_MAX then (PAKKA_OK, None)
      else if oom A_codec then (PAKKA_ERR_NOMEM, None)
      else
        (let bound = c_bound C src_len in
         if bound \<le> 0 then (PAKKA_ERR_FORMAT, None)
         else if oom A_encoded then (PAKKA_ERR_NOMEM, None)
         else
           (let (produced, out) = c_deflate C src in
            if produced \<le> 0 \<or> nat produced \<ge> src_len then (PAKKA_OK, None)
            else (PAKKA_OK, Some (take (nat produced) out)))))"

definition vendored_inflate :: "sdefl \<Rightarrow> u8 list \<Rightarrow> bool \<Rightarrow> nat \<Rightarrow> status \<times> u8 list \<times> nat" where
  "vendored_inflate C src out out_cap =
     (if length src > INT_MAX then (PAKKA_ERR_LIMIT, [], 0)
      else if out_cap > INT_MAX then (PAKKA_ERR_LIMIT, [], 0)
      else if \<not> out \<and> out_cap \<noteq> 0 then (PAKKA_ERR_INVALID_ARGUMENT, [], 0)
      else
        (let (produced, dest) = c_inflate C out_cap src in
         if produced < 0 then (PAKKA_ERR_FORMAT, [], 0)
         else (PAKKA_OK, take (nat produced) dest, length src)))"

definition vendored :: "sdefl \<Rightarrow> deflate_ops" where
  "vendored C = \<lparr>d_compress = vendored_compress C, d_inflate = vendored_inflate C\<rparr>"

text \<open>What is documented of the bundled codec: the encoder returns the number of bytes it wrote, and the
  decoder turns exactly those bytes into the source when there is room for it.\<close>

definition sdefl_inverts :: "sdefl \<Rightarrow> bool" where
  "sdefl_inverts C \<longleftrightarrow>
     (\<forall>src n out. src \<noteq> [] \<longrightarrow> length src \<le> INT_MAX \<longrightarrow> c_deflate C src = (n, out) \<longrightarrow> 0 < n \<longrightarrow>
        nat n \<le> length out \<and> c_inflate C (length src) (take (nat n) out) = (int (length src), src))"

section \<open>The zlib backend\<close>

text \<open>\<open>zl_deflate src avail\<close>: whether \<open>deflate(Z_FINISH)\<close> reached \<open>Z_STREAM_END\<close>, and the output.
  \<open>zl_inflate src avail\<close>: whether \<open>inflate(Z_FINISH)\<close> did, the output and \<open>total_in\<close>.\<close>

record zlib =
  zl_deflate_init :: bool
  zl_bound :: "nat \<Rightarrow> nat"
  zl_deflate :: "u8 list \<Rightarrow> nat \<Rightarrow> bool \<times> u8 list"
  zl_inflate_init :: bool
  zl_inflate :: "u8 list \<Rightarrow> nat \<Rightarrow> bool \<times> u8 list \<times> nat"

definition zlib_compress :: "zlib \<Rightarrow> (site \<Rightarrow> bool) \<Rightarrow> u8 list \<Rightarrow> status \<times> u8 list option" where
  "zlib_compress L oom src =
     (let src_len = length src in
      if src_len = 0 then (PAKKA_OK, None)
      else if src_len > UINT_MAX then (PAKKA_OK, None)
      else if \<not> zl_deflate_init L then (PAKKA_ERR_FORMAT, None)
      else
        (let bound = zl_bound L src_len in
         if bound = 0 then (PAKKA_ERR_FORMAT, None)
         else if bound > UINT_MAX then (PAKKA_OK, None)
         else if oom A_encoded then (PAKKA_ERR_NOMEM, None)
         else
           (let (stream_end, out) = zl_deflate L src bound in
            if \<not> stream_end then (PAKKA_ERR_FORMAT, None)
            else if length out \<ge> src_len then (PAKKA_OK, None)
            else (PAKKA_OK, Some out))))"

definition zlib_inflate :: "zlib \<Rightarrow> u8 list \<Rightarrow> bool \<Rightarrow> nat \<Rightarrow> status \<times> u8 list \<times> nat" where
  "zlib_inflate L src out out_cap =
     (if length src > UINT_MAX then (PAKKA_ERR_LIMIT, [], 0)
      else if out_cap > UINT_MAX then (PAKKA_ERR_LIMIT, [], 0)
      else if \<not> out \<and> out_cap \<noteq> 0 then (PAKKA_ERR_INVALID_ARGUMENT, [], 0)
      else if \<not> zl_inflate_init L then (PAKKA_ERR_FORMAT, [], 0)
      else
        (let (stream_end, dest, total_in) = zl_inflate L src out_cap in
         if \<not> stream_end then (PAKKA_ERR_FORMAT, [], 0) else (PAKKA_OK, dest, total_in)))"

definition zlib_backend :: "zlib \<Rightarrow> deflate_ops" where
  "zlib_backend L = \<lparr>d_compress = zlib_compress L, d_inflate = zlib_inflate L\<rparr>"

text \<open>What is documented of zlib: inflating a finished stream into a buffer of the size of the source
  gives the source and consumes the stream, which is not empty; a handle that can be set up for one
  direction can for the other.\<close>

definition zlib_inverts :: "zlib \<Rightarrow> bool" where
  "zlib_inverts L \<longleftrightarrow> zl_inflate_init L \<and>
     (\<forall>src avail out. src \<noteq> [] \<longrightarrow> zl_deflate L src avail = (True, out) \<longrightarrow>
        out \<noteq> [] \<and> zl_inflate L out (length src) = (True, src, length out))"

section \<open>Both backends keep the promise\<close>

lemma vendored_contract:
  assumes "sdefl_inverts C"
  shows "deflate_contract (vendored C)"
  unfolding deflate_contract_def
proof (intro allI impI)
  fix oom src enc
  assume "d_compress (vendored C) oom src = (PAKKA_OK, Some enc)"
  then obtain n out where c: "src \<noteq> []" "length src \<le> INT_MAX" "c_deflate C src = (n, out)"
    "0 < n" "nat n < length src" and enc: "enc = take (nat n) out"
    by (auto simp: vendored_def vendored_compress_def Let_def split: if_splits prod.splits)
  from assms c(1-4) have "nat n \<le> length out"
    and i: "c_inflate C (length src) (take (nat n) out) = (int (length src), src)"
    unfolding sdefl_inverts_def by blast+
  then have "length enc = nat n" by (simp add: enc)
  moreover from this c(4) have "enc \<noteq> []" by auto
  ultimately show "enc \<noteq> [] \<and> length enc < length src \<and> d_inflate (vendored C) enc True (length src) = (PAKKA_OK, src, length enc)"
    using c i by (simp add: vendored_def vendored_inflate_def enc)
qed

lemma zlib_contract:
  assumes "zlib_inverts L"
  shows "deflate_contract (zlib_backend L)"
  unfolding deflate_contract_def
proof (intro allI impI)
  fix oom src enc
  assume "d_compress (zlib_backend L) oom src = (PAKKA_OK, Some enc)"
  then have c: "src \<noteq> []" "length src \<le> UINT_MAX" "length enc < length src"
      "zl_deflate L src (zl_bound L (length src)) = (True, enc)"
    by (auto simp: zlib_backend_def zlib_compress_def Let_def split: if_splits prod.splits)
  from assms c(1,4) have "enc \<noteq> []" "zl_inflate L enc (length src) = (True, src, length enc)" "zl_inflate_init L"
    unfolding zlib_inverts_def by blast+
  with c show "enc \<noteq> [] \<and> length enc < length src \<and> d_inflate (zlib_backend L) enc True (length src) = (PAKKA_OK, src, length enc)"
    by (simp add: zlib_backend_def zlib_inflate_def)
qed


section \<open>A codec\<close>

text \<open>An instance that meets the documented behaviour: it knows runs of one byte.\<close>

definition is_run :: "u8 list \<Rightarrow> bool" where
  "is_run src \<longleftrightarrow> src \<noteq> [] \<and> length src < 256 \<and> src = replicate (length src) (hd src)"

definition sample_codec :: sdefl where
  "sample_codec = \<lparr>c_bound = \<lambda>n. int n + 2,
     c_deflate = (\<lambda>src. if is_run src then (2, [hd src, of_nat (length src)]) else (0, [])),
     c_inflate = (\<lambda>cap src. if length src = 2 \<and> unat (src ! 1) \<le> cap
                    then (int (unat (src ! 1)), replicate (unat (src ! 1)) (src ! 0)) else (-1, []))\<rparr>"

lemma sample_codec_inverts: "sdefl_inverts sample_codec"
proof -
  have "unat (of_nat n :: u8) = n" if "n < 256" for n using that by (simp add: unat_of_nat_u8)
  then show ?thesis by (auto simp: sdefl_inverts_def sample_codec_def is_run_def)
qed

text \<open>The same codec behind the interface of zlib.\<close>

definition sample_zlib :: zlib where
  "sample_zlib = \<lparr>zl_deflate_init = True, zl_bound = (\<lambda>n. n + 2),
     zl_deflate = (\<lambda>src avail. (is_run src, if is_run src then [hd src, of_nat (length src)] else [])),
     zl_inflate_init = True,
     zl_inflate = (\<lambda>src avail. (length src = 2 \<and> unat (src ! 1) \<le> avail, replicate (unat (src ! 1)) (src ! 0), length src))\<rparr>"

lemma sample_zlib_inverts: "zlib_inverts sample_zlib"
proof -
  have "unat (of_nat n :: u8) = n" if "n < 256" for n using that by (simp add: unat_of_nat_u8)
  then show ?thesis by (auto simp: zlib_inverts_def sample_zlib_def is_run_def)
qed

section \<open>The backends\<close>

text \<open>With codecs that behave as documented, either backend keeps the promise of the interface: a buffer
  it hands back is not empty, smaller than the source and inflates to the source with every byte
  consumed; it is handed back only with success, and the only errors are those of memory and of the codec.\<close>

theorem deflate_backend_spec:
  assumes "sdefl_inverts C" "zlib_inverts L" and D: "D \<in> {vendored C, zlib_backend L}"
    and r: "d_compress D oom src = (s, res)"
  shows "s \<in> {PAKKA_OK, PAKKA_ERR_NOMEM, PAKKA_ERR_FORMAT}
    \<and> (\<forall>enc. res = Some enc \<longrightarrow> s = PAKKA_OK \<and> enc \<noteq> [] \<and> length enc < length src
         \<and> d_inflate D enc True (length src) = (PAKKA_OK, src, length enc))"
proof -
  have st: "s \<in> {PAKKA_OK, PAKKA_ERR_NOMEM, PAKKA_ERR_FORMAT} \<and> (res \<noteq> None \<longrightarrow> s = PAKKA_OK)"
    using D r by (auto simp: vendored_def vendored_compress_def zlib_backend_def zlib_compress_def Let_def
        split: if_splits prod.splits)
  have "deflate_contract D" using D vendored_contract [OF assms(1)] zlib_contract [OF assms(2)] by blast
  with r st show ?thesis unfolding deflate_contract_def by blast
qed

lemma deflate_backend_spec_witness:
  "\<exists>enc. d_compress (vendored sample_codec) (\<lambda>_. False) [7, 7, 7] = (PAKKA_OK, Some enc) \<and> length enc < 3
    \<and> d_inflate (vendored sample_codec) enc True 3 = (PAKKA_OK, [7, 7, 7], length enc)"
proof -
  have "is_run [7, 7, 7]" by (simp add: is_run_def eval_nat_numeral)
  then have r: "d_compress (vendored sample_codec) (\<lambda>_. False) [7, 7, 7] = (PAKKA_OK, Some [7, 3])"
    by (simp add: vendored_def vendored_compress_def sample_codec_def INT_MAX_def)
  from deflate_backend_spec [OF sample_codec_inverts sample_zlib_inverts _ r] r show ?thesis by (simp add: numeral_3_eq_3)
qed

end
