(* ===== verification/Zip_Ops.thy ===== *)
theory Zip_Ops
  imports Zip_Format Deflate Pak_Commit Pak_Reader
begin

text \<open>
  The operations of \<^verbatim>\<open>src/pk3file.c\<close> on a ZIP archive: reading and deep verification of an entry, the
  queued adds, and the commit that rebuilds the file, with the instance of the interface of
  \<^verbatim>\<open>Zip_Interface\<close> they make up. \<open>D\<close> is the DEFLATE backend.
\<close>

section \<open>Reading\<close>

definition pk3_load_compressed :: "env \<Rightarrow> cfile \<Rightarrow> pentry \<Rightarrow> status \<times> u8 list \<times> cfile" where
  "pk3_load_compressed env f e =
     (if e_oom env A_compressed then (PAKKA_ERR_NOMEM, [], f)
      else
        (let (sought, f1) = fseek_set f (unat (pk3_payload_offset e)) in
         if \<not> sought then (PAKKA_ERR_IO, [], f1)
         else case fread_all f1 (unat (pk3_compressed_size e)) of
             (None, f2) \<Rightarrow> (PAKKA_ERR_IO, [], f2)
           | (Some buf, f2) \<Rightarrow> (PAKKA_OK, buf, f2)))"

text \<open>Inflating a whole payload: scan only when the entry is empty, into a buffer of the declared size
  otherwise; both sizes must come out as declared.\<close>

definition pk3_inflate :: "deflate_ops \<Rightarrow> env \<Rightarrow> u8 list \<Rightarrow> u32 \<Rightarrow> status \<times> u8 list option" where
  "pk3_inflate D env compressed ulen =
     (if ulen = 0 then
        (let (s, out, consumed) = d_inflate D compressed False 0 in
         if s \<noteq> PAKKA_OK then (s, None)
         else if out \<noteq> [] \<or> consumed \<noteq> length compressed then (PAKKA_ERR_FORMAT, None)
         else (PAKKA_OK, None))
      else if e_oom env A_inflated then (PAKKA_ERR_NOMEM, None)
      else
        (let (s, out, consumed) = d_inflate D compressed True (unat ulen) in
         if s \<noteq> PAKKA_OK then (s, None)
         else if length out \<noteq> unat ulen \<or> consumed \<noteq> length compressed then (PAKKA_ERR_FORMAT, None)
         else (PAKKA_OK, Some out)))"

text \<open>A queued entry is read from its source file, with the checks of the add once more, or from its
  buffer.\<close>

definition pk3_open_pending ::
  "deflate_ops \<Rightarrow> env \<Rightarrow> files \<Rightarrow> reader \<Rightarrow> pentry \<Rightarrow> status \<times> reader" where
  "pk3_open_pending D env fs r e =
     (let plen = unat (pk3_compressed_size e) in
      if plen = 0 then (PAKKA_OK, r\<lparr>remaining := 0\<rparr>)
      else if e_oom env A_staged then (PAKKA_ERR_NOMEM, r)
      else
        (let (s, buf) =
           (case pending_source e of
              Some source \<Rightarrow> read_pending_source env fs source plen
            | None \<Rightarrow> (PAKKA_OK, take plen (case_option [] id (pending_data e))))
         in if s \<noteq> PAKKA_OK then (s, r)
            else if pk3_method e = PK3_METHOD_DEFLATE then
              (let (s, inflated) = pk3_inflate D env buf (entry_length e) in
               if s \<noteq> PAKKA_OK then (s, r) else (PAKKA_OK, r\<lparr>inflated_buf := inflated\<rparr>))
            else (PAKKA_OK, r\<lparr>inflated_buf := Some buf\<rparr>)))"

definition pakka_pk3_open_entry_impl ::
  "deflate_ops \<Rightarrow> env \<Rightarrow> files \<Rightarrow> archive \<Rightarrow> reader \<Rightarrow> pentry \<Rightarrow> status \<times> reader \<times> archive" where
  "pakka_pk3_open_entry_impl D env fs pak r e =
     (let r1 = r\<lparr>next_offset := ucast (pk3_payload_offset e), remaining := ucast (entry_length e),
                 inflated_buf := None, inflated_cursor := 0\<rparr>
      in if over_cap pak (entry_length e) (pk3_compressed_size e) then (PAKKA_ERR_LIMIT, r1, pak)
         else if pending_source e \<noteq> None \<or> pending_data e \<noteq> None then
           (let (s, r2) = pk3_open_pending D env fs r1 e in (s, r2, pak))
         else if pk3_method e = PK3_METHOD_STORED then (PAKKA_OK, r1, pak)
         else if pk3_compressed_size e = 0 then (PAKKA_ERR_FORMAT, r1, pak)
         else case fp pak of
             None \<Rightarrow> (PAKKA_ERR_INVALID_ARGUMENT, r1, pak)
           | Some f \<Rightarrow>
               (let (s, compressed, f1) = pk3_load_compressed env f e; pak1 = pak\<lparr>fp := Some f1\<rparr> in
                if s \<noteq> PAKKA_OK then (s, r1, pak1)
                else
                  (let (s, inflated) = pk3_inflate D env compressed (entry_length e) in
                   if s \<noteq> PAKKA_OK then (s, r1, pak1)
                   else (PAKKA_OK, r1\<lparr>inflated_buf := inflated\<rparr>, pak1))))"

definition pakka_pk3_reader_read_impl :: "reader \<Rightarrow> archive \<Rightarrow> nat \<Rightarrow> status \<times> u8 list \<times> reader \<times> archive" where
  "pakka_pk3_reader_read_impl r pak len =
     (if remaining r = 0 then (PAKKA_OK, [], r, pak)
      else
        (let want = (if len > unat (remaining r) then unat (remaining r) else len) in
         case inflated_buf r of
           Some inflated \<Rightarrow>
             (PAKKA_OK, take want (drop (inflated_cursor r) inflated),
              r\<lparr>inflated_cursor := inflated_cursor r + want, remaining := remaining r - of_nat want\<rparr>, pak)
         | None \<Rightarrow>
             (case fp pak of
                None \<Rightarrow> (PAKKA_ERR_INVALID_ARGUMENT, [], r, pak)
              | Some f \<Rightarrow>
                  (let (sought, f1) = fseek_set f (unat (next_offset r)) in
                   if \<not> sought then (PAKKA_ERR_IO, [], r, pak\<lparr>fp := Some f1\<rparr>)
                   else if want > 0 then
                     (case fread_all f1 want of
                        (None, f2) \<Rightarrow> (PAKKA_ERR_IO, [], r, pak\<lparr>fp := Some f2\<rparr>)
                      | (Some buf, f2) \<Rightarrow>
                          (PAKKA_OK, buf,
                           r\<lparr>next_offset := next_offset r + of_nat want, remaining := remaining r - of_nat want\<rparr>,
                           pak\<lparr>fp := Some f2\<rparr>))
                   else (PAKKA_OK, [], r, pak\<lparr>fp := Some f1\<rparr>)))))"

section \<open>Deep verification\<close>

definition pakka_pk3_deep_verify_entry :: "deflate_ops \<Rightarrow> env \<Rightarrow> archive \<Rightarrow> pentry \<Rightarrow> status \<times> archive" where
  "pakka_pk3_deep_verify_entry D env pak e =
     (if pending_source e \<noteq> None \<or> pending_data e \<noteq> None then (PAKKA_OK, pak)
      else if over_cap pak (entry_length e) (pk3_compressed_size e) then (PAKKA_ERR_LIMIT, pak)
      else if entry_length e = 0 \<and> pk3_compressed_size e = 0 then
        (if crc32 e \<noteq> 0 then (PAKKA_ERR_FORMAT, pak) else (PAKKA_OK, pak))
      else case fp pak of
          None \<Rightarrow> (PAKKA_ERR_INVALID_ARGUMENT, pak)
        | Some f \<Rightarrow>
            (let (s, compressed, f1) = pk3_load_compressed env f e; pak1 = pak\<lparr>fp := Some f1\<rparr> in
             if s \<noteq> PAKKA_OK then (s, pak1)
             else if pk3_method e = PK3_METHOD_STORED then
               (if pakka_crc32_update 0 compressed \<noteq> crc32 e then (PAKKA_ERR_FORMAT, pak1) else (PAKKA_OK, pak1))
             else
               (let (s, inflated) = pk3_inflate D env compressed (entry_length e) in
                if s \<noteq> PAKKA_OK then (s, pak1)
                else case inflated of
                    None \<Rightarrow> (if crc32 e = 0 then PAKKA_OK else PAKKA_ERR_FORMAT, pak1)
                  | Some out \<Rightarrow>
                      (if pakka_crc32_update 0 out \<noteq> crc32 e then PAKKA_ERR_FORMAT else PAKKA_OK, pak1))))"

section \<open>Creating\<close>

definition pakka_pk3_create_impl :: "env \<Rightarrow> files \<Rightarrow> archive \<Rightarrow> status \<times> archive \<times> files" where
  "pakka_pk3_create_impl env fs pak =
     (let pak1 = pak\<lparr>max_decompressed := PK3_DEFAULT_MAX_DECOMPRESSED, pk3_cdr_offset := 0,
                     num_entries := 0, entries := []\<rparr>
      in case fp pak1 of
           None \<Rightarrow> (PAKKA_ERR_INVALID_ARGUMENT, pak1, fs)
         | Some f \<Rightarrow>
             (let (ok, f1) = fwrite_all f (pk3_build_eocd 0 0 0); pak2 = pak1\<lparr>fp := Some f1\<rparr> in
              if \<not> ok then (PAKKA_ERR_IO, pak2, fs)
              else
                (let (flushed, fs1) = publish env fs (tmp_pakpath pak2) f1 in
                 (if flushed then PAKKA_OK else PAKKA_ERR_IO, pak2, fs1))))"

section \<open>Queued adds\<close>

definition pk3_alloc_pending_entry :: "env \<Rightarrow> cstring \<Rightarrow> u32 \<Rightarrow> nat \<Rightarrow> status \<times> pentry" where
  "pk3_alloc_pending_entry env entry_name crc payload_len =
     (if payload_len > UINT32_MAX then (PAKKA_ERR_LIMIT, calloc_entry)
      else if e_oom env A_entry then (PAKKA_ERR_NOMEM, calloc_entry)
      else (PAKKA_OK, calloc_entry\<lparr>filename := entry_name, pk3_method := PK3_METHOD_STORED, crc32 := crc,
              pk3_compressed_size := of_nat payload_len, entry_length := of_nat payload_len\<rparr>))"

definition pk3_link_pending_entry :: "archive \<Rightarrow> pentry \<Rightarrow> archive" where
  "pk3_link_pending_entry pak e =
     pak\<lparr>entries := entries pak @ [e], num_entries := num_entries pak + 1, dirty := True, needs_rebuild := True\<rparr>"

text \<open>The pass over the source: its checksum and size, cut off past 4 GiB.\<close>

function pk3_scan_source :: "cfile \<Rightarrow> u32 \<Rightarrow> nat \<Rightarrow> status \<times> u32 \<times> nat \<times> cfile" where
  "pk3_scan_source src crc tot =
     (let (got, src1) = fread src PAKFILE_COPY_CHUNK in
      if got = [] then (PAKKA_OK, crc, tot, src1)
      else
        (let crc1 = pakka_crc32_update crc got; tot1 = tot + length got in
         if tot1 > UINT32_MAX then (PAKKA_ERR_LIMIT, crc1, tot1, src1) else pk3_scan_source src1 crc1 tot1))"
  by pat_completeness auto
termination
proof (relation "measure (\<lambda>(src, crc, tot). length (f_data src) - f_pos src)")
  fix src crc tot x got src1 crc1 tot1
  assume a: "x = fread src PAKFILE_COPY_CHUNK" "(got, src1) = x" "got \<noteq> []"
  then have "fread src PAKFILE_COPY_CHUNK = (got, src1)" by simp
  from fread_shape [OF this] a(3)
  show "((src1, crc1, tot1), src, crc, tot) \<in> measure (\<lambda>(src, crc, tot). length (f_data src) - f_pos src)"
    by (cases got) auto
qed simp

declare pk3_scan_source.simps [simp del]

text \<open>The payload of an add with compression: encoded when that is smaller, as it is otherwise.\<close>

definition pk3_encode :: "deflate_ops \<Rightarrow> env \<Rightarrow> pentry \<Rightarrow> u8 list \<Rightarrow> status \<times> pentry" where
  "pk3_encode D env e src_buf =
     (case d_compress D (e_oom env) src_buf of
        (s, enc) \<Rightarrow>
          if s \<noteq> PAKKA_OK then (s, e)
          else (case enc of
              Some enc_buf \<Rightarrow> (PAKKA_OK, e\<lparr>pk3_method := PK3_METHOD_DEFLATE,
                pk3_compressed_size := of_nat (length enc_buf), pending_data := Some enc_buf\<rparr>)
            | None \<Rightarrow> (PAKKA_OK, e)))"

text \<open>An add with compression reads the source a second time, takes the checksum of the bytes it got and
  keeps them.\<close>

definition pk3_add_captured ::
  "deflate_ops \<Rightarrow> env \<Rightarrow> files \<Rightarrow> archive \<Rightarrow> path \<Rightarrow> pentry \<Rightarrow> nat \<Rightarrow> status \<times> archive" where
  "pk3_add_captured D env fs pak source_path entry tot =
     (if e_oom env A_source_buffer then (PAKKA_ERR_NOMEM, pak)
      else case pakka_platform_fopen env fs source_path False of
          None \<Rightarrow> (PAKKA_ERR_IO, pak)
        | Some src2 \<Rightarrow>
            (case fread_all src2 tot of
               (None, _) \<Rightarrow> (PAKKA_ERR_IO, pak)
             | (Some src_buf, _) \<Rightarrow>
                 (let (s, entry2) = pk3_encode D env (entry\<lparr>crc32 := pakka_crc32_update 0 src_buf\<rparr>) src_buf in
                  if s \<noteq> PAKKA_OK then (s, pak)
                  else (PAKKA_OK, pk3_link_pending_entry pak
                         (if pending_data entry2 = None then entry2\<lparr>pending_data := Some src_buf\<rparr>
                          else entry2)))))"

definition pakka_pk3_add_file_impl ::
  "deflate_ops \<Rightarrow> env \<Rightarrow> files \<Rightarrow> archive \<Rightarrow> path \<Rightarrow> cstring \<Rightarrow> status \<times> archive" where
  "pakka_pk3_add_file_impl D env fs pak source_path entry_name =
     (if length entry_name \<ge> PAKKA_ENTRY_NAME_SIZE then (PAKKA_ERR_LIMIT, pak)
      else case pakka_platform_fopen env fs source_path False of
          None \<Rightarrow> (PAKKA_ERR_IO, pak)
        | Some src \<Rightarrow>
            (let (s, crc, tot, src1) = pk3_scan_source src 0 0 in
             if s \<noteq> PAKKA_OK then (s, pak)
             else if f_error src1 then (PAKKA_ERR_IO, pak)
             else
               (let (s, entry) = pk3_alloc_pending_entry env entry_name crc tot in
                if s \<noteq> PAKKA_OK then (s, pak)
                else if pk3_compression pak = PK3_METHOD_DEFLATE \<and> tot > 0
                then pk3_add_captured D env fs pak source_path entry tot
                else if e_oom env A_path then (PAKKA_ERR_NOMEM, pak)
                else (PAKKA_OK, pk3_link_pending_entry pak (entry\<lparr>pending_source := Some source_path\<rparr>)))))"

text \<open>An empty payload is staged as a buffer of one byte of which nothing is used.\<close>

definition pakka_pk3_add_memory_impl ::
  "deflate_ops \<Rightarrow> env \<Rightarrow> archive \<Rightarrow> cstring \<Rightarrow> u8 list \<Rightarrow> status \<times> archive" where
  "pakka_pk3_add_memory_impl D env pak entry_name payload =
     (if length entry_name \<ge> PAKKA_ENTRY_NAME_SIZE then (PAKKA_ERR_LIMIT, pak)
      else
        (let crc = (if payload \<noteq> [] then pakka_crc32_update 0 payload else 0);
             (s, entry) = pk3_alloc_pending_entry env entry_name crc (length payload)
         in if s \<noteq> PAKKA_OK then (s, pak)
            else
              (let (s, entry2) = (if payload \<noteq> [] \<and> pk3_compression pak = PK3_METHOD_DEFLATE
                                  then pk3_encode D env entry payload else (PAKKA_OK, entry))
               in if s \<noteq> PAKKA_OK then (s, pak)
                  else if pending_data entry2 \<noteq> None then (PAKKA_OK, pk3_link_pending_entry pak entry2)
                  else if e_oom env A_staged then (PAKKA_ERR_NOMEM, pak)
                  else (PAKKA_OK, pk3_link_pending_entry pak (entry2\<lparr>pending_data := Some payload\<rparr>)))))"

section \<open>Commit\<close>

text \<open>The offsets of every entry and of the directory, put back from the values saved before.\<close>

definition pk3_rebuild_rollback_offsets :: "archive \<Rightarrow> (u32 \<times> u32 \<times> u32) list \<Rightarrow> u32 \<Rightarrow> archive" where
  "pk3_rebuild_rollback_offsets pak old old_cdr_offset =
     pak\<lparr>entries := map2 (\<lambda>e (lfh, payload, off).
            e\<lparr>pk3_lfh_offset := lfh, pk3_payload_offset := payload, offset := off\<rparr>) (entries pak) old,
         pk3_cdr_offset := old_cdr_offset\<rparr>"

text \<open>The payload of one entry. A source file goes through the checks of the add once more and must still
  have the size and the checksum it had then.\<close>

definition pk3_copy_stream :: "env \<Rightarrow> files \<Rightarrow> pentry \<Rightarrow> path \<Rightarrow> cfile \<Rightarrow> status \<times> cfile" where
  "pk3_copy_stream env fs e source tfd =
     (case pakka_platform_fopen env fs source False of
        None \<Rightarrow> (PAKKA_ERR_IO, tfd)
      | Some src \<Rightarrow>
          (let (s, crc, tfd1) = copy_crc src tfd (unat (pk3_compressed_size e)) 0 in
           if s \<noteq> PAKKA_OK then (s, tfd1)
           else if crc \<noteq> crc32 e then (PAKKA_ERR_FORMAT, tfd1)
           else (PAKKA_OK, tfd1)))"

definition pk3_copy_source :: "env \<Rightarrow> files \<Rightarrow> pentry \<Rightarrow> path \<Rightarrow> cfile \<Rightarrow> status \<times> cfile" where
  "pk3_copy_source env fs e source tfd =
     (if pakka_platform_is_reparse_or_symlink env fs source then (PAKKA_ERR_UNSAFE_NAME, tfd)
      else (case pakka_platform_lstat env fs source of
          None \<Rightarrow> (PAKKA_ERR_IO, tfd)
        | Some (Regular content) \<Rightarrow>
            if length content \<noteq> unat (pk3_compressed_size e) then (PAKKA_ERR_FORMAT, tfd)
            else pk3_copy_stream env fs e source tfd
        | Some _ \<Rightarrow> (PAKKA_ERR_UNSAFE_NAME, tfd)))"

definition pk3_copy_archived :: "pentry \<Rightarrow> cfile \<Rightarrow> cfile \<Rightarrow> status \<times> cfile \<times> cfile" where
  "pk3_copy_archived e ffd tfd =
     (let (sought, ffd1) = fseek_set ffd (unat (pk3_payload_offset e)) in
      if \<not> sought then (PAKKA_ERR_IO, ffd1, tfd)
      else copy_chunks ffd1 tfd (unat (pk3_compressed_size e)))"

definition pk3_copy_payload :: "env \<Rightarrow> files \<Rightarrow> pentry \<Rightarrow> cfile \<Rightarrow> cfile \<Rightarrow> status \<times> cfile \<times> cfile" where
  "pk3_copy_payload env fs e ffd tfd =
     (case pending_source e of
        Some source \<Rightarrow> (let (s, tfd1) = pk3_copy_source env fs e source tfd in (s, ffd, tfd1))
      | None \<Rightarrow>
          (case pending_data e of
             Some data \<Rightarrow>
               (let (ok, tfd1) = (if data \<noteq> [] then fwrite_all tfd data else (True, tfd))
                in (if ok then PAKKA_OK else PAKKA_ERR_IO, ffd, tfd1))
           | None \<Rightarrow> pk3_copy_archived e ffd tfd))"

lemmas pk3_copy_defs = pk3_copy_payload_def pk3_copy_source_def pk3_copy_stream_def pk3_copy_archived_def

definition pk3_name_len :: "pentry \<Rightarrow> u16" where
  "pk3_name_len e = of_nat (length (filename e))"

definition pk3_lfh_of :: "pentry \<Rightarrow> u8 list" where
  "pk3_lfh_of e = pk3_build_lfh (pk3_method e) (crc32 e) (pk3_compressed_size e) (entry_length e)
     (filename e) (pk3_name_len e)"

definition pk3_cdr_of :: "pentry \<Rightarrow> u8 list" where
  "pk3_cdr_of e = pk3_build_cdr (pk3_method e) (crc32 e) (pk3_compressed_size e) (entry_length e)
     (filename e) (pk3_name_len e) (pk3_lfh_offset e)"

definition pk3_moved :: "pentry \<Rightarrow> u32 \<Rightarrow> pentry" where
  "pk3_moved e cur_offset =
     (let payload = cur_offset + of_nat PK3_LFH_SIZE + ucast (pk3_name_len e)
      in e\<lparr>pk3_lfh_offset := cur_offset, pk3_payload_offset := payload, offset := payload\<rparr>)"

text \<open>The copy loop: \<open>done\<close> are the entries already moved, \<open>cur\<close> the next offset. The third result is the
  list with the entries moved so far.\<close>

fun pk3_rebuild_loop ::
  "env \<Rightarrow> files \<Rightarrow> pentry list \<Rightarrow> u32 \<Rightarrow> pentry list \<Rightarrow> cfile \<Rightarrow> cfile
    \<Rightarrow> status \<times> u32 \<times> pentry list \<times> cfile \<times> cfile" where
  "pk3_rebuild_loop env fs moved cur [] ffd tfd = (PAKKA_OK, cur, moved, ffd, tfd)"
| "pk3_rebuild_loop env fs moved cur (e # es) ffd tfd =
     (let name_len = unat (pk3_name_len e) in
      if unat cur + (PK3_LFH_SIZE + name_len + unat (pk3_compressed_size e)) > UINT32_MAX
      then (PAKKA_ERR_LIMIT, cur, moved @ e # es, ffd, tfd)
      else
        (let (ok, tfd1) = andthen (fwrite_all tfd (pk3_lfh_of e)) (\<lambda>t. fwrite_all t (take name_len (filename e)))
         in if \<not> ok then (PAKKA_ERR_IO, cur, moved @ e # es, ffd, tfd1)
            else
              (let (s, ffd1, tfd2) = pk3_copy_payload env fs e ffd tfd1 in
               if s \<noteq> PAKKA_OK then (s, cur, moved @ e # es, ffd1, tfd2)
               else
                 (let e1 = pk3_moved e cur
                  in pk3_rebuild_loop env fs (moved @ [e1]) (pk3_payload_offset e1 + pk3_compressed_size e1) es
                       ffd1 tfd2))))"

text \<open>The size the file would get; checked after every entry.\<close>

fun pk3_cdr_too_large :: "nat \<Rightarrow> pentry list \<Rightarrow> bool" where
  "pk3_cdr_too_large tot [] = False"
| "pk3_cdr_too_large tot (e # es) =
     (let tot1 = tot + PK3_CDR_SIZE + length (filename e)
      in tot1 > UINT32_MAX \<or> pk3_cdr_too_large tot1 es)"

fun pk3_write_cdr :: "pentry list \<Rightarrow> u32 \<Rightarrow> u32 \<Rightarrow> cfile \<Rightarrow> bool \<times> u32 \<times> u32 \<times> cfile" where
  "pk3_write_cdr [] cdr_size count f = (True, cdr_size, count, f)"
| "pk3_write_cdr (e # es) cdr_size count f =
     (let (ok, f1) = andthen (fwrite_all f (pk3_cdr_of e))
                       (\<lambda>t. fwrite_all t (take (unat (pk3_name_len e)) (filename e)))
      in if \<not> ok then (False, cdr_size, count, f1)
         else pk3_write_cdr es (cdr_size + of_nat PK3_CDR_SIZE + ucast (pk3_name_len e)) (count + 1) f1)"

text \<open>Directory and end record.\<close>

definition pk3_write_trailer :: "pentry list \<Rightarrow> u32 \<Rightarrow> cfile \<Rightarrow> bool \<times> u32 \<times> cfile" where
  "pk3_write_trailer es cdr_offset f =
     (let (ok, cdr_size, count, f1) = pk3_write_cdr es 0 0 f in
      if \<not> ok then (False, cdr_size, f1)
      else (let (ok, f2) = fwrite_all f1 (pk3_build_eocd cdr_offset cdr_size (ucast count)) in (ok, cdr_size, f2)))"

text \<open>From the complete scratch file on: flush and close it, close the original, rename, reopen. \<open>undo\<close>
  restores the offsets.\<close>

definition pk3_rebuild_rename ::
  "env \<Rightarrow> files \<Rightarrow> archive \<Rightarrow> (archive \<Rightarrow> archive) \<Rightarrow> cfile \<Rightarrow> path \<Rightarrow> path \<Rightarrow> u32 \<Rightarrow> status \<times> archive \<times> files" where
  "pk3_rebuild_rename env fs a undo ffd tmp target cdr_size =
     (let (closed, fs1) = publish env fs target ffd; a1 = a\<lparr>fp := None\<rparr> in
      if \<not> closed \<or> e_fault env Fault_commit_fclose_orig then
        (let fs2 = pakka_platform_remove env fs1 tmp
         in (PAKKA_ERR_IO, (undo a1)\<lparr>fp := pakka_platform_fopen env fs2 target True\<rparr>, fs2))
      else
        (let (renamed, fs2) = (if e_fault env Fault_commit_rename then (False, fs1)
                               else pakka_platform_rename_replace env fs1 tmp target)
         in if \<not> renamed then
              (let fs3 = pakka_platform_remove env fs2 tmp
               in (PAKKA_ERR_IO, (undo a1)\<lparr>fp := pakka_platform_fopen env fs3 target True\<rparr>, fs3))
            else
              (let a2 = a1\<lparr>entries := map clear_pending (entries a1), dirty := False, needs_rebuild := False\<rparr>
               in case pakka_platform_fopen env fs2 target True of
                    None \<Rightarrow> (PAKKA_ERR_IO, a2, fs2)
                  | Some f \<Rightarrow>
                      (PAKKA_OK, a2\<lparr>fp := Some f, file_size := ucast (pk3_cdr_offset a2) + ucast cdr_size
                                                  + of_nat PK3_EOCD_SIZE\<rparr>, fs2))))"

definition pk3_rebuild_publish ::
  "env \<Rightarrow> files \<Rightarrow> archive \<Rightarrow> (archive \<Rightarrow> archive) \<Rightarrow> cfile \<Rightarrow> path \<Rightarrow> path \<Rightarrow> cfile \<Rightarrow> status \<times> archive \<times> files" where
  "pk3_rebuild_publish env fs a undo ffd tmp target tfd =
     (let failed = (undo a)\<lparr>fp := Some ffd\<rparr> in
      if pk3_cdr_too_large (unat (pk3_cdr_offset a) + PK3_EOCD_SIZE) (entries a)
      then (PAKKA_ERR_LIMIT, failed, drop_scratch env fs tmp tfd)
      else
        (let (ok, cdr_size, tfd1) = pk3_write_trailer (entries a) (pk3_cdr_offset a) tfd in
         if \<not> ok then (PAKKA_ERR_IO, failed, drop_scratch env fs tmp tfd1)
         else
           (let (flushed, fs1) = publish env fs tmp tfd1 in
            if \<not> flushed then (PAKKA_ERR_IO, failed, drop_scratch env fs1 tmp tfd1)
            else
              (let (closed, fs2) = publish env fs1 tmp tfd1 in
               if \<not> closed \<or> e_fault env Fault_commit_fclose_tmp
               then (PAKKA_ERR_IO, failed, pakka_platform_remove env fs2 tmp)
               else pk3_rebuild_rename env fs2 a undo ffd tmp target cdr_size))))"

definition pk3_commit_rebuild :: "env \<Rightarrow> files \<Rightarrow> archive \<Rightarrow> cfile \<Rightarrow> status \<times> archive \<times> files" where
  "pk3_commit_rebuild env fs a ffd =
     (let old = map (\<lambda>e. (pk3_lfh_offset e, pk3_payload_offset e, offset e)) (entries a);
          undo = (\<lambda>x. pk3_rebuild_rollback_offsets x old (pk3_cdr_offset a)); target = pak_path a
      in if entries a \<noteq> [] \<and> e_oom env A_rollback then (PAKKA_ERR_NOMEM, a, fs)
         else case pakka_platform_mkstemp_open env fs target (ascii ''pakkaXXXXXX'') of
             (None, fs1) \<Rightarrow> (PAKKA_ERR_IO, a, fs1)
           | (Some (tmp, tmpfp), fs1) \<Rightarrow>
               (let (s, cur, es, ffd1, tfd) = pk3_rebuild_loop env fs1 [] 0 (entries a) ffd tmpfp;
                    a1 = a\<lparr>entries := es\<rparr>
                in if s \<noteq> PAKKA_OK
                   then (s, (undo a1)\<lparr>fp := Some ffd1\<rparr>, drop_scratch env fs1 tmp tfd)
                   else pk3_rebuild_publish env fs1 (a1\<lparr>pk3_cdr_offset := cur\<rparr>) undo ffd1 tmp target tfd))"

text \<open>The other path rewrites the directory where it is and cuts the file behind it.\<close>

definition pk3_commit_in_place :: "env \<Rightarrow> files \<Rightarrow> archive \<Rightarrow> cfile \<Rightarrow> status \<times> archive \<times> files" where
  "pk3_commit_in_place env fs a f =
     (let (sought, f1) = fseek_set f (unat (pk3_cdr_offset a)) in
      if \<not> sought then (PAKKA_ERR_IO, a\<lparr>fp := Some f1\<rparr>, fs)
      else if pk3_cdr_too_large (unat (pk3_cdr_offset a) + PK3_EOCD_SIZE) (entries a)
      then (PAKKA_ERR_LIMIT, a\<lparr>fp := Some f1\<rparr>, fs)
      else
        (let (ok, cdr_size, f2) = pk3_write_trailer (entries a) (pk3_cdr_offset a) f1 in
         if \<not> ok then (PAKKA_ERR_IO, a\<lparr>fp := Some f2\<rparr>, fs)
         else
           (let (flushed, fs1) = publish env fs (pak_path a) f2 in
            if \<not> flushed then (PAKKA_ERR_IO, a\<lparr>fp := Some f2\<rparr>, fs1)
            else
              (let new_eof = unat (pk3_cdr_offset a) + unat cdr_size + PK3_EOCD_SIZE;
                   (cut, f3, fs2) = pakka_platform_ftruncate env fs1 (pak_path a) f2 new_eof
               in if \<not> cut then (PAKKA_ERR_IO, a\<lparr>fp := Some f3\<rparr>, fs2)
                  else (PAKKA_OK, a\<lparr>fp := Some f3, file_size := of_nat new_eof, dirty := False\<rparr>, fs2)))))"

text \<open>The callers have checked that there is a stream.\<close>

definition pakka_pk3_commit_impl :: "env \<Rightarrow> files \<Rightarrow> archive \<Rightarrow> status \<times> archive \<times> files" where
  "pakka_pk3_commit_impl env fs a =
     (if \<not> dirty a then (PAKKA_OK, a, fs)
      else if num_entries a > 0xFFFF then (PAKKA_ERR_LIMIT, a, fs)
      else case fp a of
          None \<Rightarrow> (PAKKA_ERR_INVALID_ARGUMENT, a, fs)
        | Some f \<Rightarrow>
            if needs_rebuild a then pk3_commit_rebuild env fs a f else pk3_commit_in_place env fs a f)"

section \<open>The ZIP half of the library\<close>

definition pk3_ops :: "deflate_ops \<Rightarrow> zip_ops" where
  "pk3_ops D =
     \<lparr>z_open = pakka_pk3_open_impl,
      z_create = pakka_pk3_create_impl,
      z_add_file = pakka_pk3_add_file_impl D,
      z_add_memory = pakka_pk3_add_memory_impl D,
      z_commit = pakka_pk3_commit_impl,
      z_open_entry = pakka_pk3_open_entry_impl D,
      z_read = pakka_pk3_reader_read_impl,
      z_deep_verify = pakka_pk3_deep_verify_entry D\<rparr>"

end
