(* ===== verification/Zip_Parse.thy ===== *)
theory Zip_Parse
  imports Zip_Names Zip_Ops
begin

text \<open>
  What the ZIP parser of \<^verbatim>\<open>src/pk3file.c\<close> accepts: the end record it finds is the last one of the file,
  no access leaves a buffer whatever the bytes are, and every entry of an archive that opens has a clean
  name and a payload between its local header and the central directory.
\<close>

section \<open>The end record\<close>

definition end_record_at :: "u8 list \<Rightarrow> nat \<Rightarrow> bool" where
  "end_record_at d i \<longleftrightarrow> i + PK3_EOCD_SIZE \<le> length d \<and> holds_at d i PK3_EOCD_SIGNATURE
     \<and> (\<exists>c. pk3_read_u16 d (i + 20) = Ok c \<and> i + PK3_EOCD_SIZE + unat c = length d)"

definition last_such :: "(nat \<Rightarrow> bool) \<Rightarrow> nat option \<Rightarrow> bool" where
  "last_such P r \<longleftrightarrow> (case r of None \<Rightarrow> \<forall>i. \<not> P i | Some i \<Rightarrow> P i \<and> (\<forall>j > i. \<not> P j))"

lemma eocd_scan:
  "n + 21 \<le> length buf \<Longrightarrow> \<exists>r. pk3_eocd_scan buf n = Ok r \<and> last_such (\<lambda>i. i < n \<and> end_record_at buf i) r"
proof (induction n)
  case 0
  then show ?case by (simp add: last_such_def)
next
  case (Suc n)
  have n: "n + 22 \<le> length buf" using Suc.prems by simp
  obtain c where c: "pk3_read_u16 buf (n + 20) = Ok c" using read_u16_total [of "n + 20" buf] n by auto
  have sig: "pk3_signature_at buf n PK3_EOCD_SIGNATURE = Ok (holds_at buf n PK3_EOCD_SIGNATURE)"
    by (rule signature_at) (use n in \<open>simp_all add: PK3_EOCD_SIGNATURE_def\<close>)
  have hit: "end_record_at buf n \<longleftrightarrow> holds_at buf n PK3_EOCD_SIGNATURE \<and> n + PK3_EOCD_SIZE + unat c = length buf"
    using n c by (simp add: end_record_at_def PK3_EOCD_SIZE_def)
  obtain r where r: "pk3_eocd_scan buf n = Ok r" "last_such (\<lambda>i. i < n \<and> end_record_at buf i) r"
    using Suc by auto
  show ?case
  proof (cases "end_record_at buf n")
    case True
    then have "pk3_eocd_scan buf (Suc n) = Ok (Some n)" using hit sig c by simp
    with True show ?thesis by (simp add: last_such_def)
  next
    case False
    then have "pk3_eocd_scan buf (Suc n) = Ok r" using hit sig c r(1) by simp
    moreover have "last_such (\<lambda>i. i < Suc n \<and> end_record_at buf i) r"
      using r(2) False by (auto simp: last_such_def less_Suc_eq split: option.splits)
    ultimately show ?thesis by blast
  qed
qed

text \<open>An end record of the file is one of the window, because a comment is at most 65535 bytes long.\<close>

lemma holds_at_drop: "holds_at (drop k d) i bs \<longleftrightarrow> holds_at d (k + i) bs" if "k \<le> length d"
  using that by (auto simp: holds_at_def add.commute)

lemma read_u16_drop: "pk3_read_u16 (drop k d) i = pk3_read_u16 d (k + i)" if "k \<le> length d"
  using that by (auto simp: pk3_read_u16_def mem_load_def add.assoc)

lemma end_record_drop:
  assumes "k \<le> length d"
  shows "end_record_at (drop k d) i \<longleftrightarrow> end_record_at d (k + i)"
  using assms by (auto simp: end_record_at_def holds_at_drop read_u16_drop add.assoc)

lemma end_record_window: "end_record_at d i \<Longrightarrow> length d \<le> i + PK3_EOCD_SCAN_MAX"
proof -
  assume "end_record_at d i"
  then obtain c :: u16 where "i + PK3_EOCD_SIZE + unat c = length d" by (auto simp: end_record_at_def)
  moreover have "unat c < 2 ^ 16" using unsigned_less [of c] by simp
  ultimately show ?thesis by (simp add: PK3_EOCD_SCAN_MAX_def PK3_EOCD_SIZE_def)
qed

text \<open>\<open>f_clean\<close>: a stream without trouble.\<close>

definition f_clean :: "cfile \<Rightarrow> bool" where
  "f_clean f \<longleftrightarrow> f_seekable f \<and> length (f_data f) \<le> f_readable f"

lemma find_eocd:
  assumes c: "f_clean f" and sz: "fsize = length (f_data f)"
  shows "\<exists>r g. pk3_find_eocd f fsize = ((case r of None \<Rightarrow> Fail PAKKA_ERR_FORMAT | Some p \<Rightarrow> Ok p), g)
    \<and> last_such (end_record_at (f_data f)) r"
proof (cases "fsize < PK3_EOCD_SIZE")
  case True
  then have "last_such (end_record_at (f_data f)) None" by (auto simp: last_such_def end_record_at_def sz)
  with True show ?thesis by (auto simp: pk3_find_eocd_def intro!: exI [of _ None])
next
  case False
  let ?d = "f_data f"
  define n where "n = min PK3_EOCD_SCAN_MAX fsize"
  have n: "(if fsize > PK3_EOCD_SCAN_MAX then PK3_EOCD_SCAN_MAX else fsize) = n" "22 \<le> n" "n \<le> length ?d"
    using False by (auto simp: n_def sz PK3_EOCD_SCAN_MAX_def PK3_EOCD_SIZE_def)
  let ?f = "f\<lparr>f_pos := fsize - n\<rparr>" and ?buf = "drop (fsize - n) ?d"
  have buf: "length ?buf = n" using n by (simp add: sz)
  have "f_has ?f ?buf" using c buf n(3) by (auto simp: f_has_def f_clean_def sz)
  then have rd: "fread_all ?f n = (Some ?buf, f_skip ?f n)" using buf by (rule fread_all_has)
  have sk: "fseek_set f (fsize - n) = (True, ?f)" using c by (simp add: fseek_set_def f_clean_def)
  have "n - PK3_EOCD_SIZE + 1 + 21 \<le> length ?buf" using n buf by (simp add: PK3_EOCD_SIZE_def)
  from eocd_scan [OF this] obtain r where
    r: "pk3_eocd_scan ?buf (n - PK3_EOCD_SIZE + 1) = Ok r"
       "last_such (\<lambda>i. i < n - PK3_EOCD_SIZE + 1 \<and> end_record_at ?buf i) r" by blast
  have all: "i < n - PK3_EOCD_SIZE + 1" if "end_record_at ?buf i" for i
    using that buf n(2) by (auto simp: end_record_at_def PK3_EOCD_SIZE_def)
  have dr: "end_record_at ?buf i \<longleftrightarrow> end_record_at ?d (fsize - n + i)" for i
    by (rule end_record_drop) (simp add: sz)
  have win: "fsize - n \<le> p" if "end_record_at ?d p" for p
    using end_record_window [OF that] by (auto simp: n_def sz)
  have "last_such (end_record_at ?d) (map_option (\<lambda>i. fsize - n + i) r)"
  proof (cases r)
    case None
    then have "\<not> end_record_at ?buf i" for i using r(2) all by (auto simp: last_such_def)
    then have "\<not> end_record_at ?d p" for p using dr win by (metis le_add_diff_inverse)
    with None show ?thesis by (simp add: last_such_def)
  next
    case (Some i)
    have i: "end_record_at ?d (fsize - n + i)" "\<And>j. i < j \<Longrightarrow> \<not> end_record_at ?buf j"
      using r(2) all Some dr by (auto simp: last_such_def)
    have "\<not> end_record_at ?d p" if "fsize - n + i < p" for p
    proof
      assume e: "end_record_at ?d p"
      with win have "p = fsize - n + (p - (fsize - n))" by simp
      with e dr have "end_record_at ?buf (p - (fsize - n))" by metis
      moreover have "i < p - (fsize - n)" using that by (simp add: less_diff_conv add.commute)
      ultimately show False using i(2) by blast
    qed
    with i(1) Some show ?thesis by (simp add: last_such_def)
  qed
  moreover have "pk3_find_eocd f fsize =
      ((case map_option (\<lambda>i. fsize - n + i) r of None \<Rightarrow> Fail PAKKA_ERR_FORMAT | Some p \<Rightarrow> Ok p), f_skip ?f n)"
    using False n(1) sk rd r(1) by (simp add: pk3_find_eocd_def Let_def split: option.split)
  ultimately show ?thesis by blast
qed

section \<open>No access outside a buffer\<close>

text \<open>A computation that does not fault, and fails with an error only; \<open>cbind\<close> keeps it so.\<close>

definition safe :: "'a cres \<Rightarrow> bool" where
  "safe r \<longleftrightarrow> r \<noteq> Fault \<and> r \<noteq> Fail PAKKA_OK"

lemma safe_simps [simp]: "safe (Ok x)" "safe (Fail s) \<longleftrightarrow> s \<noteq> PAKKA_OK" "\<not> safe Fault"
  by (simp_all add: safe_def)

lemma safe_bind: "safe m \<Longrightarrow> (\<And>x. m = Ok x \<Longrightarrow> safe (f x)) \<Longrightarrow> safe (cbind m f)"
  by (cases m) auto

lemma safe_read: "i + 2 \<le> length p \<Longrightarrow> safe (pk3_read_u16 p i)" "i + 4 \<le> length p \<Longrightarrow> safe (pk3_read_u32 p i)"
    "i + 4 \<le> length p \<Longrightarrow> safe (pk3_signature_at p i sig)" "i < length p \<Longrightarrow> safe (mem_load p i)"
  using read_u16_total [of i p] read_u32_total [of i p]
  by (auto simp: pk3_signature_at_def PAKFILE_SIGNATURE_LEN_def mem_load_def)

lemma safe_check_eocd: "length eocd = PK3_EOCD_SIZE \<Longrightarrow> safe (pk3_check_eocd eocd p)"
  unfolding pk3_check_eocd_def
  by (intro safe_bind safe_read) (simp_all add: PK3_EOCD_SIZE_def)

lemma safe_check_lfh: "length lfh = PK3_LFH_SIZE \<Longrightarrow> safe (pk3_check_lfh lfh e c)"
proof -
  assume l: "length lfh = PK3_LFH_SIZE"
  then have "\<exists>v. pk3_read_u16 lfh 6 = Ok v" "\<exists>v. pk3_read_u16 lfh 8 = Ok v" "\<exists>v. pk3_read_u32 lfh 14 = Ok v"
    "\<exists>v. pk3_read_u32 lfh 18 = Ok v" "\<exists>v. pk3_read_u32 lfh 22 = Ok v" "\<exists>v. pk3_read_u16 lfh 26 = Ok v"
    "\<exists>v. pk3_read_u16 lfh 28 = Ok v" "pk3_signature_at lfh 0 PK3_LFH_SIGNATURE = Ok (holds_at lfh 0 PK3_LFH_SIGNATURE)"
    by (auto intro!: read_u16_total read_u32_total signature_at simp: PK3_LFH_SIZE_def PK3_LFH_SIGNATURE_def)
  then show ?thesis by (auto simp: pk3_check_lfh_def Let_def)
qed

lemma safe_read_cdr_fields: "pos + PK3_CDR_SIZE \<le> length cdr \<Longrightarrow> safe (pk3_read_cdr_fields cdr pos)"
  unfolding pk3_read_cdr_fields_def
  by (intro safe_bind safe_read) (simp_all add: PK3_CDR_SIZE_def)

text \<open>What a record satisfies that passed.\<close>

definition record_ok :: "u8 list \<Rightarrow> nat \<Rightarrow> pk3_cdr_record \<Rightarrow> bool" where
  "record_ok cdr pos r \<longleftrightarrow> pos + pk3_record_size r \<le> length cdr \<and> 0 < r_name_len r
     \<and> r_name_len r < PAKKA_ENTRY_NAME_SIZE \<and> r_method r \<in> {PK3_METHOD_STORED, PK3_METHOD_DEFLATE}
     \<and> r_usize r \<noteq> 0xFFFFFFFF
     \<and> (\<not> r_is_dir r \<longrightarrow> printable (take (r_name_len r) (drop (pos + PK3_CDR_SIZE) cdr))
          \<and> \<not> (last (take (r_name_len r) (drop (pos + PK3_CDR_SIZE) cdr)) = 0x2F \<and> r_usize r = 0 \<and> r_csize r = 0))"

lemma validate_cdr_record:
  "safe (pk3_validate_cdr_record cdr pos)
   \<and> (\<forall>r. pk3_validate_cdr_record cdr pos = Ok r \<longrightarrow> record_ok cdr pos r)"
proof (cases "pos + PK3_CDR_SIZE \<le> length cdr \<and> pk3_signature_at cdr pos PK3_CDR_SIGNATURE = Ok True")
  case False
  moreover have "pos + PK3_CDR_SIZE \<le> length cdr \<Longrightarrow> safe (pk3_signature_at cdr pos PK3_CDR_SIGNATURE)"
    by (rule safe_read) (simp add: PK3_CDR_SIZE_def)
  ultimately show ?thesis
    by (cases "pk3_signature_at cdr pos PK3_CDR_SIGNATURE"; cases "pos + PK3_CDR_SIZE \<le> length cdr")
      (auto simp: pk3_validate_cdr_record_def)
next
  case True
  obtain f where "pk3_read_cdr_fields cdr pos = f" "safe f" using safe_read_cdr_fields True by blast
  then consider s where "pk3_read_cdr_fields cdr pos = Fail s" "s \<noteq> PAKKA_OK" | r where "pk3_read_cdr_fields cdr pos = Ok r"
    by (cases f) auto
  then show ?thesis
  proof cases
    case 1
    with True show ?thesis by (simp add: pk3_validate_cdr_record_def)
  next
    case (2 r)
    show ?thesis
    proof (cases "pos + PK3_CDR_SIZE + r_name_len r + r_extra_len r + r_comment_len r > length cdr")
      case False
      then have c: "pk3_control_loop cdr (pos + PK3_CDR_SIZE) (r_name_len r)
          = Ok (\<not> printable (take (r_name_len r) (drop (pos + PK3_CDR_SIZE) cdr)))"
        by (intro control_loop) simp
      have l: "0 < r_name_len r \<Longrightarrow> mem_load cdr (pos + PK3_CDR_SIZE + r_name_len r - Suc 0)
          = Ok (cdr ! (pos + PK3_CDR_SIZE + r_name_len r - Suc 0))"
        using False by (simp add: mem_load_def)
      have lst: "last (take (r_name_len r) (drop (pos + PK3_CDR_SIZE) cdr)) = cdr ! (pos + PK3_CDR_SIZE + r_name_len r - Suc 0)"
        if "0 < r_name_len r"
      proof -
        let ?raw = "take (r_name_len r) (drop (pos + PK3_CDR_SIZE) cdr)"
        have "length ?raw = r_name_len r" "?raw \<noteq> []" using that False by auto
        then have "last ?raw = ?raw ! (r_name_len r - 1)" by (metis last_conv_nth)
        also have "\<dots> = cdr ! (pos + PK3_CDR_SIZE + (r_name_len r - 1))" using that False by simp
        finally show ?thesis using that by simp
      qed
      from True 2 False show ?thesis
        by (auto simp: pk3_validate_cdr_record_def c l lst record_ok_def pk3_record_size_def not_le split: if_splits)
    qed (use True 2 in \<open>simp add: pk3_validate_cdr_record_def\<close>)
  qed
qed

text \<open>The directory loop makes entries with clean names.\<close>

definition clean_name :: "cstring \<Rightarrow> bool" where
  "clean_name n \<longleftrightarrow> n \<noteq> [] \<and> printable n \<and> utf8_text n \<and> length n < PAKKA_ENTRY_NAME_SIZE"

text \<open>What an entry needs to come back from the file: a clean name, not that of a directory, and a size below
  the ZIP64 mark.\<close>

definition portable :: "pentry \<Rightarrow> bool" where
  "portable e \<longleftrightarrow> clean_name (filename e) \<and> entry_length e \<noteq> 0xFFFFFFFF
     \<and> \<not> (last (filename e) = 0x2F \<and> entry_length e = 0 \<and> pk3_compressed_size e = 0)"

definition parsed_entry :: "pentry \<Rightarrow> bool" where
  "parsed_entry e \<longleftrightarrow> portable e \<and> pk3_method e \<in> {PK3_METHOD_STORED, PK3_METHOD_DEFLATE}
     \<and> \<not> is_staged e \<and> \<not> dk_is_compressed e"

lemma entry_of_fields:
  "filename (pk3_entry_of r name) = cstr name" "pk3_method (pk3_entry_of r name) = r_method r"
  "entry_length (pk3_entry_of r name) = r_usize r" "pk3_compressed_size (pk3_entry_of r name) = r_csize r"
  "is_staged (pk3_entry_of r name) = False" "dk_is_compressed (pk3_entry_of r name) = False"
  by (simp_all add: pk3_entry_of_def calloc_entry_def is_staged_def)

lemma entry_of_record:
  assumes r: "record_ok cdr pos r" "\<not> r_is_dir r"
  shows "\<exists>d. pk3_decode_entry_name cdr (pos + PK3_CDR_SIZE) (r_name_len r) (r_flags r) = Ok d
    \<and> (\<forall>name. d = Decoded name \<longrightarrow> parsed_entry (pk3_entry_of r name))"
proof -
  let ?raw = "take (r_name_len r) (drop (pos + PK3_CDR_SIZE) cdr)"
  have le: "pos + PK3_CDR_SIZE + r_name_len r \<le> length cdr" and n: "r_name_len r < PAKKA_ENTRY_NAME_SIZE"
    using r by (auto simp: record_ok_def pk3_record_size_def)
  have pr: "printable ?raw" and ne: "?raw \<noteq> []" using r le by (auto simp: record_ok_def)
  have cs: "cstr (raw_text ?raw @ replicate k 0) = raw_text ?raw" for k
    by (rule cstr_padded) (intro printable_c_string printable_raw_text pr)
  let ?d = "if \<not> utf8_text ?raw \<and> r_flags r AND 0x0800 \<noteq> 0 then Bit11_invalid
        else if length (raw_text ?raw) < PAKKA_ENTRY_NAME_SIZE
        then Decoded (raw_text ?raw @ replicate (PAKKA_ENTRY_NAME_SIZE - length (raw_text ?raw)) 0)
        else Name_too_long"
  have m: "r_method r \<in> {PK3_METHOD_STORED, PK3_METHOD_DEFLATE}" using r(1) by (simp add: record_ok_def)
  have "parsed_entry (pk3_entry_of r (raw_text ?raw @ replicate k 0))" if l: "length (raw_text ?raw) < PAKKA_ENTRY_NAME_SIZE" for k
  proof -
    have "clean_name (raw_text ?raw)"
      unfolding clean_name_def using l ne pr raw_text_Nil_iff [of ?raw] raw_text_utf8 [of ?raw] printable_raw_text [OF pr]
      by blast
    moreover have "r_usize r \<noteq> 0xFFFFFFFF"
      "\<not> (last (raw_text ?raw) = 0x2F \<and> r_usize r = 0 \<and> r_csize r = 0)"
      using r last_raw_text [OF ne] by (auto simp: record_ok_def)
    ultimately show ?thesis
      using m by (simp only: parsed_entry_def portable_def entry_of_fields cs) blast
  qed
  note parsed = this
  show ?thesis
  proof (intro exI conjI allI impI)
    show "pk3_decode_entry_name cdr (pos + PK3_CDR_SIZE) (r_name_len r) (r_flags r) = Ok ?d"
      by (rule decode_entry_name [OF le n refl])
    fix name assume "?d = Decoded name"
    then have nm: "length (raw_text ?raw) < PAKKA_ENTRY_NAME_SIZE"
      "name = raw_text ?raw @ replicate (PAKKA_ENTRY_NAME_SIZE - length (raw_text ?raw)) 0"
      by (simp_all only: decoded_name.simps split: if_splits)
    show "parsed_entry (pk3_entry_of r name)" unfolding nm(2) by (rule parsed [OF nm(1)])
  qed
qed

lemma cdr_loop:
  "safe (pk3_cdr_loop oom cdr i pos es sk n)
   \<and> (\<forall>p es' sk'. pk3_cdr_loop oom cdr i pos es sk n = Ok (p, es', sk') \<longrightarrow>
        (\<exists>new. es' = es @ new \<and> list_all parsed_entry new \<and> length new + sk' = sk + n))"
proof (induction n arbitrary: i pos es sk)
  case (Suc n)
  note V = validate_cdr_record [of cdr pos]
  show ?case
  proof (cases "pk3_validate_cdr_record cdr pos")
    case (Ok r)
    with V have ok: "record_ok cdr pos r" by blast
    show ?thesis
    proof (cases "r_is_dir r \<or> oom i")
      case True
      have step: "pk3_cdr_loop oom cdr i pos es sk (Suc n)
          = (if r_is_dir r then pk3_cdr_loop oom cdr (i + 1) (pos + pk3_record_size r) es (sk + 1) n
             else Fail PAKKA_ERR_NOMEM)"
        using Ok True by auto
      show ?thesis
        using Suc.IH [of "i + 1" "pos + pk3_record_size r" es "sk + 1"] unfolding step by (cases "r_is_dir r") simp_all
    next
      case False
      with entry_of_record [OF ok] obtain d where
        d: "pk3_decode_entry_name cdr (pos + PK3_CDR_SIZE) (r_name_len r) (r_flags r) = Ok d"
          "\<And>name. d = Decoded name \<Longrightarrow> parsed_entry (pk3_entry_of r name)" by blast
      show ?thesis
      proof (cases d)
        case (Decoded name)
        let ?e = "pk3_entry_of r name"
        have step: "pk3_cdr_loop oom cdr i pos es sk (Suc n)
            = pk3_cdr_loop oom cdr (i + 1) (pos + pk3_record_size r) (es @ [?e]) sk n"
          using Ok False d(1) Decoded by simp
        have "parsed_entry ?e" by (rule d(2) [OF Decoded])
        with Suc.IH [of "i + 1" "pos + pk3_record_size r" "es @ [?e]" sk] show ?thesis
          unfolding step by auto
      qed (use Ok False d(1) in simp_all)
    qed
  qed (use V in simp_all)
qed simp

lemma parse_cdr:
  "safe (pk3_parse_cdr oom cdr n)
   \<and> (\<forall>es k. pk3_parse_cdr oom cdr n = Ok (es, k) \<longrightarrow> list_all parsed_entry es \<and> k = length es \<and> k \<le> n)"
proof -
  note L = cdr_loop [of oom cdr 0 0 "[]" 0 n]
  show ?thesis
  proof (cases "pk3_cdr_loop oom cdr 0 0 [] 0 n")
    case (Ok x)
    obtain p es sk where x: "x = (p, es, sk)" using prod_cases3 by blast
    with Ok L have "list_all parsed_entry es" "length es + sk = n" by auto
    with Ok x show ?thesis by (auto simp: pk3_parse_cdr_def)
  qed (use L in \<open>auto simp: pk3_parse_cdr_def\<close>)
qed

section \<open>Local headers\<close>

text \<open>Where an entry lies in the bytes of the file: a local header, then the payload, all of it before the
  directory at \<open>c\<close>.\<close>

definition placed :: "u8 list \<Rightarrow> nat \<Rightarrow> pentry \<Rightarrow> bool" where
  "placed d c e \<longleftrightarrow> holds_at d (unat (pk3_lfh_offset e)) PK3_LFH_SIGNATURE
     \<and> unat (pk3_lfh_offset e) + PK3_LFH_SIZE \<le> unat (pk3_payload_offset e)
     \<and> unat (pk3_payload_offset e) + unat (pk3_compressed_size e) \<le> c
     \<and> offset e = pk3_payload_offset e
     \<and> (pk3_method e = PK3_METHOD_STORED \<longrightarrow> pk3_compressed_size e = entry_length e)"

definition zip_entry_wf :: "u8 list \<Rightarrow> nat \<Rightarrow> pentry \<Rightarrow> bool" where
  "zip_entry_wf d c e \<longleftrightarrow> parsed_entry e \<and> placed d c e"

lemma check_lfh_Ok:
  assumes "length lfh = PK3_LFH_SIZE" "pk3_check_lfh lfh e cdr_offset = Ok payload"
  shows "holds_at lfh 0 PK3_LFH_SIGNATURE \<and> unat (pk3_lfh_offset e) + PK3_LFH_SIZE \<le> unat payload
    \<and> unat payload + unat (pk3_compressed_size e) \<le> unat cdr_offset
    \<and> (pk3_method e = PK3_METHOD_STORED \<longrightarrow> pk3_compressed_size e = entry_length e)"
proof -
  have "pk3_signature_at lfh 0 PK3_LFH_SIGNATURE = Ok (holds_at lfh 0 PK3_LFH_SIGNATURE)"
    by (rule signature_at) (use assms(1) in \<open>simp_all add: PK3_LFH_SIZE_def PK3_LFH_SIGNATURE_def\<close>)
  with assms(2) obtain n and nl xl :: u16 where h: "holds_at lfh 0 PK3_LFH_SIGNATURE"
    and p: "n = unat (pk3_lfh_offset e) + PK3_LFH_SIZE + unat nl + unat xl" "n \<le> UINT32_MAX" "payload = of_nat n"
      "n + unat (pk3_compressed_size e) \<le> unat cdr_offset"
    and st: "pk3_method e = PK3_METHOD_STORED \<longrightarrow> pk3_compressed_size e = entry_length e"
    by (auto simp: pk3_check_lfh_def Let_def cbind_Ok_iff not_less simp del: of_nat_add split: if_splits)
  have "unat payload = n" using p(2,3) by (simp add: UINT32_MAX_def unat_of_nat_u32)
  with h p st show ?thesis by simp
qed

lemma f_has_holds: "f_has f bs \<Longrightarrow> holds_at (f_data f) (f_pos f) bs"
  by (auto simp: f_has_def holds_at_def)

lemma fread_all_data: "fread_all f n = (r, g) \<Longrightarrow> f_data g = f_data f"
  by (auto simp: fread_all_def fread_def Let_def)

lemma fseek_data: "fseek_set f p = (b, g) \<Longrightarrow> f_data g = f_data f"
  by (auto simp: fseek_set_def split: if_splits)

lemma validate_lfh:
  assumes v: "pk3_validate_lfh f e c = (r, g)"
  shows "safe r \<and> f_data g = f_data f \<and>
    (\<forall>payload. r = Ok payload \<longrightarrow> placed (f_data f) (unat c) (e\<lparr>pk3_payload_offset := payload, offset := payload\<rparr>))"
proof -
  let ?p = "unat (pk3_lfh_offset e)"
  obtain b f1 where s: "fseek_set f ?p = (b, f1)" by fastforce
  obtain x f2 where rd: "fread_all f1 PK3_LFH_SIZE = (x, f2)" by fastforce
  have d: "f_data f1 = f_data f" "f_data f2 = f_data f"
    using fseek_data [OF s] fread_all_data [OF rd] by simp_all
  show ?thesis
  proof (cases "b \<and> x \<noteq> None")
    case False
    with v s rd d show ?thesis by (cases b) (auto simp: pk3_validate_lfh_def)
  next
    case True
    then obtain lfh where x: "x = Some lfh" by blast
    have R: "f_has f1 lfh" "length lfh = PK3_LFH_SIZE"
      using fread_all_Some [OF rd [unfolded x]] by (simp_all add: PK3_LFH_SIZE_def)
    have pos: "f_pos f1 = ?p" using s True by (auto simp: fseek_set_def split: if_splits)
    have h: "holds_at (f_data f) ?p lfh" using f_has_holds [OF R(1)] d(1) pos by simp
    have rg: "r = pk3_check_lfh lfh e c" "g = f2" using v s rd x True by (auto simp: pk3_validate_lfh_def)
    have "placed (f_data f) (unat c) (e\<lparr>pk3_payload_offset := payload, offset := payload\<rparr>)" if "r = Ok payload" for payload
    proof -
      note K = check_lfh_Ok [OF R(2) that [unfolded rg(1)]]
      have "holds_at (f_data f) ?p PK3_LFH_SIGNATURE"
      proof -
        from K have "lfh = PK3_LFH_SIGNATURE @ drop (length PK3_LFH_SIGNATURE) lfh"
          unfolding holds_at_def by (metis append_take_drop_id drop_0)
        with h show ?thesis by (metis holds_at_append)
      qed
      with K show ?thesis by (simp add: placed_def)
    qed
    with rg d safe_check_lfh [OF R(2)] show ?thesis by simp
  qed
qed

lemma parsed_moved: "parsed_entry (e\<lparr>pk3_payload_offset := p, offset := q\<rparr>) = parsed_entry e"
  by (simp add: parsed_entry_def portable_def is_staged_def)

lemma lfh_loop:
  "pk3_lfh_loop f es c = (r, g) \<Longrightarrow> list_all parsed_entry es \<Longrightarrow>
   safe r \<and> f_data g = f_data f \<and>
   (\<forall>es'. r = Ok es' \<longrightarrow> list_all (zip_entry_wf (f_data f) (unat c)) es' \<and> map filename es' = map filename es)"
proof (induction es arbitrary: f r g)
  case (Cons e es)
  obtain v f1 where v: "pk3_validate_lfh f e c = (v, f1)" by fastforce
  note V = validate_lfh [OF v]
  show ?case
  proof (cases v)
    case (Ok payload)
    obtain rest f2 where l: "pk3_lfh_loop f1 es c = (rest, f2)" by fastforce
    have IH: "safe rest" "f_data f2 = f_data f1"
      "\<And>es'. rest = Ok es' \<Longrightarrow> list_all (zip_entry_wf (f_data f1) (unat c)) es' \<and> map filename es' = map filename es"
      using Cons.IH [OF l] Cons.prems(2) by simp_all
    have rg: "r = cbind rest (\<lambda>es. Ok (e\<lparr>pk3_payload_offset := payload, offset := payload\<rparr> # es))" "g = f2"
      using Cons.prems(1) v l Ok by auto
    have "zip_entry_wf (f_data f) (unat c) (e\<lparr>pk3_payload_offset := payload, offset := payload\<rparr>)"
      using V Ok Cons.prems(2) by (simp add: zip_entry_wf_def parsed_moved)
    with IH V rg show ?thesis by (cases rest) auto
  qed (use V v Cons.prems(1) in auto)
qed auto

section \<open>Opening\<close>

lemma validate_eocd:
  assumes v: "pk3_validate_eocd f p = (r, g)"
  shows "safe r \<and> f_data g = f_data f \<and>
    (\<forall>c sz n. r = Ok (c, sz, n) \<longrightarrow> unat c + unat sz \<le> p \<and> p + PK3_EOCD_SIZE \<le> length (f_data f))"
proof -
  obtain b f1 where s: "fseek_set f p = (b, f1)" by fastforce
  obtain x f2 where rd: "fread_all f1 PK3_EOCD_SIZE = (x, f2)" by fastforce
  have d: "f_data f1 = f_data f" "f_data f2 = f_data f"
    using fseek_data [OF s] fread_all_data [OF rd] by simp_all
  show ?thesis
  proof (cases "b \<and> x \<noteq> None")
    case False
    with v s rd d show ?thesis by (cases b) (auto simp: pk3_validate_eocd_def)
  next
    case True
    then obtain eocd where x: "x = Some eocd" by blast
    have R: "f_has f1 eocd" "length eocd = PK3_EOCD_SIZE"
      using fread_all_Some [OF rd [unfolded x]] by (simp_all add: PK3_EOCD_SIZE_def)
    have pos: "f_pos f1 = p" using s True by (auto simp: fseek_set_def split: if_splits)
    have rg: "r = pk3_check_eocd eocd p" "g = f2" using v s rd x True by (auto simp: pk3_validate_eocd_def)
    have "unat c + unat sz \<le> p" if "r = Ok (c, sz, n)" for c sz n
      using that rg(1) by (auto simp: pk3_check_eocd_def cbind_Ok_iff not_less split: if_splits)
    moreover have "p + PK3_EOCD_SIZE \<le> length (f_data f)"
      using R d(1) pos by (simp add: f_has_def)
    ultimately show ?thesis using rg d safe_check_eocd [OF R(2)] by simp
  qed
qed

lemma find_eocd_safe: "pk3_find_eocd f n = (r, g) \<Longrightarrow> safe r \<and> f_data g = f_data f"
proof -
  assume a: "pk3_find_eocd f n = (r, g)"
  define m where "m = (if n > PK3_EOCD_SCAN_MAX then PK3_EOCD_SCAN_MAX else n)"
  note m = m_def [symmetric]
  obtain b f1 where s: "fseek_set f (n - m) = (b, f1)" by fastforce
  obtain x f2 where rd: "fread_all f1 m = (x, f2)" by fastforce
  have d: "f_data f1 = f_data f" "f_data f2 = f_data f"
    using fseek_data [OF s] fread_all_data [OF rd] by simp_all
  show ?thesis
  proof (cases "n < PK3_EOCD_SIZE \<or> \<not> b \<or> x = None")
    case True
    with a s rd d show ?thesis by (cases "n < PK3_EOCD_SIZE"; cases b; auto simp: pk3_find_eocd_def Let_def m)
  next
    case False
    then obtain buf where x: "x = Some buf" by blast
    have pos: "0 < m" "22 \<le> m" using False by (auto simp: m_def PK3_EOCD_SIZE_def PK3_EOCD_SCAN_MAX_def)
    have l: "length buf = m" using fread_all_Some [OF rd [unfolded x] pos(1)] by simp
    have "m - PK3_EOCD_SIZE + 1 + 21 \<le> length buf" using l pos by (simp add: PK3_EOCD_SIZE_def)
    from eocd_scan [OF this] obtain q where q: "pk3_eocd_scan buf (m - PK3_EOCD_SIZE + 1) = Ok q" by blast
    have "pk3_find_eocd f n
       = ((case q of None \<Rightarrow> Fail PAKKA_ERR_FORMAT | Some i \<Rightarrow> Ok (n - m + i)), f2)"
      using False s rd x q by (simp add: pk3_find_eocd_def Let_def m del: diff_add_assoc2 add_diff_assoc2 split: option.split)
    with a d show ?thesis by (auto split: option.splits)
  qed
qed

lemma load_cdr:
  assumes l: "pk3_load_cdr oom f c sz n = (r, g)"
  shows "safe r \<and> f_data g = f_data f \<and>
    (\<forall>es k. r = Ok (es, k) \<longrightarrow> list_all (zip_entry_wf (f_data f) (unat c)) es \<and> k = length es \<and> k \<le> unat n)"
proof -
  obtain b f1 where s: "fseek_set f (unat c) = (b, f1)" by fastforce
  obtain x f2 where rd: "fread_all f1 (unat sz) = (x, f2)" by fastforce
  have d: "f_data f1 = f_data f" "f_data f2 = f_data f"
    using fseek_data [OF s] fread_all_data [OF rd] by simp_all
  let ?early = "n = 0 \<and> sz = 0 \<or> (n = 0) \<noteq> (sz = 0) \<or> unat sz > PK3_MAX_CDR_SIZE \<or> oom None"
  show ?thesis
  proof (cases "?early \<or> \<not> b \<or> x = None")
    case True
    then show ?thesis
    proof (cases ?early)
      case True
      with l show ?thesis by (auto simp: pk3_load_cdr_def split: if_splits)
    next
      case F: False
      with True l s rd d show ?thesis by (cases b) (auto simp: pk3_load_cdr_def split: if_splits)
    qed
  next
    case False
    then obtain cdr where x: "x = Some cdr" by blast
    have step: "(r, g) = (case pk3_parse_cdr (\<lambda>i. oom (Some i)) cdr (unat n) of
                  Ok (es, n) \<Rightarrow>
                    (let (r, f3) = pk3_lfh_loop f2 es c in (cbind r (\<lambda>es. Ok (es, n)), f3))
                | Fail s \<Rightarrow> (Fail s, f2)
                | Fault \<Rightarrow> (Fault, f2))"
      using l False s rd x by (cases "n = 0"; cases "sz = 0") (simp_all add: pk3_load_cdr_def)
    note P = parse_cdr [of "\<lambda>i. oom (Some i)" cdr "unat n"]
    show ?thesis
    proof (cases "pk3_parse_cdr (\<lambda>i. oom (Some i)) cdr (unat n)")
      case (Ok y)
      obtain es k where y: "y = (es, k)" by fastforce
      have pe: "list_all parsed_entry es" "k = length es" "k \<le> unat n" using P Ok y by auto
      obtain q f3 where lf: "pk3_lfh_loop f2 es c = (q, f3)" by fastforce
      note L = lfh_loop [OF lf pe(1)]
      have rg: "r = cbind q (\<lambda>es. Ok (es, k))" "g = f3" using step Ok y lf by auto
      show ?thesis
      proof (cases q)
        case (Ok es')
        with L have "list_all (zip_entry_wf (f_data f2) (unat c)) es'" "map filename es' = map filename es" by auto
        moreover from this(2) have "length es' = k" using pe(2) by (metis length_map)
        ultimately show ?thesis using L rg Ok d pe(3) by simp
      qed (use L rg d in simp_all)
    qed (use step P d in simp_all)
  qed
qed

text \<open>All steps: a result, never a fault; the entries lie before the directory, the directory before the
  end record.\<close>

lemma open_steps:
  assumes st: "pk3_open_steps oom f n = (r, g)"
  shows "safe r \<and> f_data g = f_data f \<and>
    (\<forall>c es k. r = Ok (c, es, k) \<longrightarrow> list_all (zip_entry_wf (f_data f) (unat c)) es \<and> k = length es
       \<and> k < 2 ^ 16 \<and> unat c + PK3_EOCD_SIZE \<le> length (f_data f))"
proof -
  obtain r1 f1 where e: "pk3_find_eocd f n = (r1, f1)" by fastforce
  note E = find_eocd_safe [OF e]
  show ?thesis
  proof (cases r1)
    case (Ok p)
    obtain r2 f2 where v: "pk3_validate_eocd f1 p = (r2, f2)" by fastforce
    note V = validate_eocd [OF v]
    show ?thesis
    proof (cases r2)
      case O2: (Ok y)
      obtain c sz k where y: "y = (c, sz, k)" using prod_cases3 by blast
      obtain r3 f3 where l: "pk3_load_cdr oom f2 c sz k = (r3, f3)" by fastforce
      note L = load_cdr [OF l]
      have rg: "r = cbind r3 (\<lambda>(es, n). Ok (c, es, n))" "g = f3"
        using st e Ok v O2 y l by (simp_all add: pk3_open_steps_def)
      have "unat c + PK3_EOCD_SIZE \<le> length (f_data f)" "unat k < 2 ^ 16"
        using V O2 y E unsigned_less [of k] by auto
      with L rg V E O2 show ?thesis by (cases r3) auto
    qed (use st e Ok v V E in \<open>auto simp: pk3_open_steps_def\<close>)
  qed (use st e E in \<open>auto simp: pk3_open_steps_def\<close>)
qed


text \<open>C28: opening a ZIP archive reads no byte outside its buffers, whatever the bytes of the file, the
  failures of the stream and the failing allocations are; what it reports as a failure is an error.\<close>

theorem pk3_open_no_fault: "fst (pk3_open_steps oom f n) \<noteq> Fault \<and> fst (pk3_open_steps oom f n) \<noteq> Fail PAKKA_OK"
  using open_steps [of oom f n] by (cases "pk3_open_steps oom f n") (simp add: safe_def)

text \<open>The end record the search finds is the last place of the whole file where one fits (signature,
  and a comment that ends with the file), although only the last 65557 bytes are looked at; without such
  a place the file is refused as no ZIP archive.\<close>

theorem pk3_find_eocd_spec:
  assumes "f_clean f"
  shows "case fst (pk3_find_eocd f (length (f_data f))) of
      Ok i \<Rightarrow> end_record_at (f_data f) i \<and> (\<forall>j. i < j \<longrightarrow> \<not> end_record_at (f_data f) j)
    | Fail s \<Rightarrow> s = PAKKA_ERR_FORMAT \<and> (\<forall>j. \<not> end_record_at (f_data f) j)
    | Fault \<Rightarrow> False"
  using find_eocd [OF assms refl] by (auto simp: last_such_def split: option.splits)

text \<open>A file that is one end record with a comment of two bytes behind some other bytes.\<close>

definition commented :: "u8 list" where
  "commented = [7, 7, 7, 0x50, 0x4B, 5, 6, 0, 0, 0, 0, 0, 0, 0, 0, 0, 0, 0, 0, 0, 0, 0, 0, 2, 0, 0x41, 0x42]"

lemma pk3_find_eocd_spec_witness:
  "\<exists>i. fst (pk3_find_eocd (empty_stream\<lparr>f_data := commented\<rparr>) 27) = Ok i \<and> end_record_at commented i"
proof -
  let ?f = "empty_stream\<lparr>f_data := commented\<rparr>"
  have e: "end_record_at commented 3" and l: "length commented = 27"
    by (simp_all add: end_record_at_def commented_def holds_at_def PK3_EOCD_SIGNATURE_def PK3_EOCD_SIZE_def
        pk3_read_u16_def mem_load_def)
  have "f_clean ?f" by (simp add: f_clean_def empty_stream_def l)
  from pk3_find_eocd_spec [OF this] e show ?thesis by (auto simp: l split: cres.splits)
qed

end
