(* ===== verification/Lifecycle_Props.thy ===== *)
theory Lifecycle_Props
  imports Commit_Props Pak_Lifecycle
begin

text \<open>
  Opening, creating and closing: what opens is well formed, what was committed or closed opens again
  with the same names and contents, and closing a new archive never overwrites a file.
\<close>

section \<open>Opening\<close>

lemma validate_no_duplicates_OK:
  assumes "validate_no_duplicates oom a = PAKKA_OK" "unat (num_entries a) = length (entries a)"
    "\<not> pakka_format_is_wad (format a)"
  shows "names_distinct (entries a)"
proof (cases "unat (num_entries a) \<le> 1")
  case True
  then have "length (entries a) \<le> 1" using assms(2) by simp
  then show ?thesis unfolding names_distinct_def by (cases "entries a") auto
next
  case False
  then have "\<not> adjacent_equal (sort (map filename (entries a)))"
    using assms by (auto simp: validate_no_duplicates_def Let_def split: if_splits)
  then show ?thesis by (simp add: adjacent_equal_sorted names_distinct_def)
qed

lemma distinct_validates:
  assumes n: "unat (num_entries q) = length (entries q)" and d: "\<not> pakka_format_is_wad (format q) \<longrightarrow> names_distinct (entries q)"
  shows "validate_no_duplicates (\<lambda>_. False) q = PAKKA_OK"
proof (cases "pakka_format_is_wad (format q)")
  case False
  with d have d: "distinct (map filename (entries q))" by (simp add: names_distinct_def)
  have "filename (entries q ! i) \<noteq> filename (entries q ! j)" if "i < j" "j < length (entries q)" for i j
    using nth_eq_iff_index_eq [OF d, of i j] that by simp
  then have "\<not> (\<exists>i j. i < j \<and> j < length (entries q) \<and> filename (entries q ! i) = filename (entries q ! j))"
    by blast
  then show ?thesis using validate_no_duplicates_eq [of "\<lambda>_. False" q] n False by simp
qed (simp add: validate_no_duplicates_def)

lemma loaded_entry_wf:
  assumes "loaded_entry a g e" "pakka_pak_geometry (format a) = Some g" "entry_end e \<le> p"
  shows "entry_wf (format a) p e"
  using assms geometry_facts(5) [OF assms(2)]
  by (auto simp: loaded_entry_def entry_wf_def name_fits_def disk_wf_def entry_in_range)

text \<open>The fields of the handle the loader leaves alone.\<close>

definition same_mode :: "archive \<Rightarrow> archive \<Rightarrow> bool" where
  "same_mode a b \<longleftrightarrow> writable a = writable b \<and> atomic_commit a = atomic_commit b \<and> is_new a = is_new b
     \<and> cur_pakpath a = cur_pakpath b \<and> dirty a = dirty b \<and> needs_rebuild a = needs_rebuild b"

lemma load_archive_OK:
  assumes r: "load_archive Z env pak f = (PAKKA_OK, Some a)" and z: "zip_keeps_label (z_open Z env)"
    and nz: "\<not> pakka_format_is_zip (format a)" and pak: "entries pak = []" "fp pak = None"
  shows "archive_wf a \<and> same_mode a pak \<and> length (entries a) \<le> PAKFILE_MAX_ENTRIES
    \<and> (\<forall>e \<in> set (entries a). \<not> is_staged e)
    \<and> (\<exists>g. fp a = Some g \<and> f_data g = f_data f)"
proof -
  obtain s1 p1 f1 where l: "load_pakfile (z_open Z env) pak f = (s1, p1, f1)" using prod_cases3 by blast
  obtain s2 p2 f2 where d: "(if pakka_format_is_zip (format p1) then (PAKKA_OK, p1, f1)
      else load_directory (\<lambda>i. e_oom env (A_row i)) p1 f1) = (s2, p2, f2)" using prod_cases3 by blast
  have st: "s1 = PAKKA_OK" "s2 = PAKKA_OK" "validate_no_duplicates (\<lambda>_. e_oom env A_names) p2 = PAKKA_OK"
    and a: "a = p2\<lparr>fp := Some f2\<rparr>"
    using r l d by (auto simp: load_archive_def Let_def split: if_splits)
  have nz1: "\<not> pakka_format_is_zip (format p1)"
    using nz a d by (auto split: if_splits)
  obtain g where g: "pakka_pak_geometry (format p1) = Some g" "file_size p1 = of_nat (length (f_data f))"
    "length (f_data f) < 2 ^ 63" "12 \<le> unat (diroffset p1)"
    "unat (diroffset p1) + unat (dirlength p1) \<le> length (f_data f)" "unat (num_entries p1) \<le> PAKFILE_MAX_ENTRIES"
    "entries p1 = entries pak" "fp p1 = fp pak" "signature p1 = g_signature g" "f_data f1 = f_data f"
    and m: "same_mode p1 pak"
    using load_pakfile_OK [OF l [unfolded st(1)] z nz1] unfolding same_mode_def by metis
  have "load_directory (\<lambda>i. e_oom env (A_row i)) p1 f1 = (PAKKA_OK, p2, f2)" using d nz1 st(2) by simp
  from load_directory_OK [OF g(1) _ this] g(7) pak(1) obtain rows q where
    p2: "p2 = p1\<lparr>entries := rows, payload_end := q\<rparr>" "length rows = unat (num_entries p1)"
    "\<forall>e \<in> set rows. loaded_entry p1 g e \<and> entry_end e \<le> unat q" "12 \<le> unat q"
    "unat q = 12 \<or> unat q \<in> entry_end ` set rows" "f_data f2 = f_data f1" by auto
  have ew: "\<forall>e \<in> set rows. entry_wf (format p1) (unat q) e"
    using p2(3) loaded_entry_wf [OF _ g(1)] by blast
  have ns: "\<forall>e \<in> set rows. \<not> is_staged e" using p2(3) by (simp add: loaded_entry_def)
  have fit: "entry_end e \<le> length (f_data f)" if "e \<in> set rows" for e
    using p2(3) that g(2,3) by (simp add: loaded_entry_def entry_in_range unat_of_nat_u64)
  have qb: "unat q < 2 ^ 33" "unat q \<le> length (f_data f)"
    using p2(5) entry_end_bound fit g(4,5) by auto
  have "\<not> pakka_format_is_wad (format p1) \<longrightarrow> names_distinct rows"
    using validate_no_duplicates_OK [OF st(3)] p2(1,2) by simp
  then have "archive_wf a"
    using g(1,9,10) p2 ew ns qb unfolding archive_wf_def a by (auto simp: pe_def)
  moreover have "same_mode a pak" using m by (simp add: a p2(1) same_mode_def)
  ultimately show ?thesis using g(6,10) p2 ns by (simp add: a)
qed

lemma open_facts:
  assumes z: "zip_keeps_label (z_open Z env)"
    and r: "pakka_open_ex Z env fs (Some p) (Some mode) (Some hint) = (PAKKA_OK, Some a)"
    and nz: "\<not> pakka_format_is_zip (format a)" and reg: "fs p = Some (Regular b)"
  shows "archive_wf a \<and> length (entries a) \<le> PAKFILE_MAX_ENTRIES \<and> list_all (\<lambda>e. \<not> is_staged e) (entries a)
    \<and> \<not> dirty a \<and> \<not> needs_rebuild a \<and> \<not> is_new a \<and> pak_path a = p
    \<and> writable a = (mode \<noteq> PAKKA_OPEN_READ) \<and> atomic_commit a = (mode = PAKKA_OPEN_READ_WRITE_ATOMIC)
    \<and> (\<exists>f. fp a = Some f \<and> f_data f = b)"
proof -
  let ?h = "opened_handle p mode hint"
  obtain f f1 where o: "pakka_platform_fopen env fs p (writable ?h) = Some f"
    and l: "(if writable ?h then pakka_platform_try_exclusive_lock env p f else Some f) = Some f1"
    and ld: "load_archive Z env ?h f1 = (PAKKA_OK, Some a)"
    using r by (auto simp: pakka_open_ex_def Let_def split: if_splits option.splits)
  have "f_data f = b" using o reg by (auto simp: pakka_platform_fopen_def)
  then have d: "f_data f1 = b" using l by (auto simp: pakka_platform_try_exclusive_lock_def split: if_splits)
  have h: "entries ?h = []" "fp ?h = None" by (simp_all add: opened_handle_def calloc_archive_def)
  from load_archive_OK [OF ld z nz h] d show ?thesis
    by (cases mode) (auto simp: same_mode_def opened_handle_def calloc_archive_def pak_path_def list_all_iff)
qed

text \<open>C19: a PAK-class archive that opens is well formed whatever the bytes of the file are: every entry
  inside the file, names that fit and (except in a WAD) differ, consistent counts. The handle is clean,
  has nothing staged, reads the bytes of the file, and has the rights the mode asked for.\<close>

theorem open_spec:
  assumes z: "zip_keeps_label (z_open Z env)"
    and r: "pakka_open_ex Z env fs (Some p) (Some mode) (Some hint) = (PAKKA_OK, Some a)"
    and nz: "\<not> pakka_format_is_zip (format a)" and reg: "fs p = Some (Regular b)"
  shows "archive_wf a \<and> length (entries a) \<le> PAKFILE_MAX_ENTRIES \<and> list_all (\<lambda>e. \<not> is_staged e) (entries a)
    \<and> \<not> dirty a \<and> \<not> needs_rebuild a \<and> pak_path a = p
    \<and> writable a = (mode \<noteq> PAKKA_OPEN_READ) \<and> atomic_commit a = (mode = PAKKA_OPEN_READ_WRITE_ATOMIC)
    \<and> (\<exists>f. fp a = Some f \<and> f_data f = b)"
  using open_facts [OF assms] by simp

section \<open>Bytes that hold an archive\<close>

text \<open>The bytes are an archive of the format with this listing: they are the image of some entries, and
  through any stream on them those entries have these names and contents.\<close>

definition holds_listing :: "u8 list \<Rightarrow> pakka_format \<Rightarrow> (cstring \<times> u8 list option) list \<Rightarrow> bool" where
  "holds_listing b fmt l \<longleftrightarrow> (\<exists>c. image_of c b \<and> format c = fmt \<and> (\<forall>e \<in> set (entries c). \<not> is_staged e)
     \<and> (\<forall>g gs. f_data g = b \<longrightarrow> archive_wf (c\<lparr>fp := Some g\<rparr>) \<and> listing gs g c = l))"

text \<open>The system lets the path be opened and read: memory, rights, a file a signed 64-bit offset can
  reach, and no I/O error in it.\<close>

definition can_open :: "env \<Rightarrow> files \<Rightarrow> path \<Rightarrow> open_mode \<Rightarrow> bool" where
  "can_open env fs p mode \<longleftrightarrow> length p < OS_PATH_MAX \<and> length (file_bytes fs p) < 2 ^ 63
     \<and> (\<forall>x. \<not> e_oom env x) \<and> e_lock env p
     \<and> (\<exists>l. e_limits env (mode \<noteq> PAKKA_OPEN_READ) p = Some l \<and> l_seekable l
         \<and> length (file_bytes fs p) \<le> l_readable l)"

lemma image_of_fp [simp]: "image_of (a\<lparr>fp := x\<rparr>) b = image_of a b"
  by (rule image_of_cong) simp_all

lemma listing_length: "length (listing fs f a) = length (entries a)"
  by (simp add: listing_def)

lemma open_reaches_load:
  assumes fs: "fs p = Some (Regular b)" and co: "can_open env fs p mode"
  shows "\<exists>f. f_data f = b \<and> f_seekable f \<and> length b \<le> f_readable f \<and> length b < 2 ^ 63 \<and> (\<forall>x. \<not> e_oom env x)
    \<and> (\<forall>Z hint. pakka_open_ex Z env fs (Some p) (Some mode) (Some hint)
          = load_archive Z env (opened_handle p mode hint) f)"
proof -
  have fb: "file_bytes fs p = b" using fs by (simp add: file_bytes_def)
  from co obtain li where li: "e_limits env (mode \<noteq> PAKKA_OPEN_READ) p = Some li" "l_seekable li" "length b \<le> l_readable li"
    and lb: "length b < 2 ^ 63" and mem: "\<And>x. \<not> e_oom env x" and lk: "e_lock env p" and lp: "length p < OS_PATH_MAX"
    by (auto simp: can_open_def fb)
  let ?w = "mode \<noteq> PAKKA_OPEN_READ"
  have w: "writable (opened_handle p mode hint) = ?w" for hint by (cases mode) (simp_all add: opened_handle_def calloc_archive_def)
  define f where "f = (stream_of li b)\<lparr>f_locked := ?w\<rparr>"
  have fo: "pakka_platform_fopen env fs p ?w = Some (stream_of li b)"
    using fs li(1) by (simp add: pakka_platform_fopen_def)
  have loc: "(if ?w then pakka_platform_try_exclusive_lock env p (stream_of li b) else Some (stream_of li b)) = Some f"
    using lk by (simp add: pakka_platform_try_exclusive_lock_def f_def stream_of_def)
  have "pakka_open_ex Z env fs (Some p) (Some mode) (Some hint) = load_archive Z env (opened_handle p mode hint) f" for Z hint
    using mem lp fo loc unfolding pakka_open_ex_def by (simp add: w Let_def)
  moreover have "f_data f = b" "f_seekable f" "length b \<le> f_readable f"
    using li by (simp_all add: f_def stream_of_def)
  ultimately show ?thesis using lb mem by (intro exI [of _ f]) simp
qed

lemma stored_opens:
  assumes h: "holds_listing b fmt l" and n: "length l \<le> PAKFILE_MAX_ENTRIES" and fs: "fs p = Some (Regular b)"
    and co: "can_open env fs p mode" and hint: "hint_fits hint fmt"
  shows "\<exists>a f. pakka_open_ex Z env fs (Some p) (Some mode) (Some hint) = (PAKKA_OK, Some a) \<and> fp a = Some f
    \<and> archive_wf a \<and> listing fs f a = l \<and> format a = fmt"
proof -
  let ?h = "opened_handle p mode hint"
  from open_reaches_load [OF fs co] obtain f where f: "f_data f = b" "f_seekable f" "length b \<le> f_readable f"
    and lb: "length b < 2 ^ 63" and mem: "\<forall>x. \<not> e_oom env x"
    and op: "\<forall>Z hint. pakka_open_ex Z env fs (Some p) (Some mode) (Some hint)
          = load_archive Z env (opened_handle p mode hint) f"
    by (elim exE conjE)
  have fd: "f_data f = b" "f_seekable f" "length (f_data f) \<le> f_readable f" using f by simp_all
  from h obtain c where c: "image_of c b" "format c = fmt" "\<forall>e \<in> set (entries c). \<not> is_staged e"
    "archive_wf (c\<lparr>fp := Some f\<rparr>)" "listing fs f c = l" unfolding holds_listing_def using fd(1) by blast
  let ?c = "c\<lparr>fp := Some f\<rparr>"
  have ns: "\<forall>e \<in> set (entries ?c). \<not> is_staged e" using c(3) by simp
  have im: "image_of ?c (f_data f)" using c(1) fd(1) by simp
  have pl: "pe ?c \<le> length (f_data f)" using c(4) unfolding archive_wf_def by auto
  have mx: "length (entries ?c) \<le> PAKFILE_MAX_ENTRIES" using n c(5) listing_length [of fs f c] by simp
  have lb2: "length (f_data f) < 2 ^ 63" using fd(1) lb by simp
  have q: "entries ?h = []" "hint_fits (format_hint ?h) (format ?c)" "\<not> dirty ?h" "fp ?h = None"
    using hint c(2) by (simp_all add: opened_handle_def calloc_archive_def)
  from image_loads [OF c(4) ns im pl mx fd(2) lb2 fd(3) q, of "z_open Z env" fs] obtain q1 f1 q2 ps where
    Q: "load_pakfile (z_open Z env) ?h f = (PAKKA_OK, q1, f1)"
    "load_directory (\<lambda>_. False) q1 f1 = (PAKKA_OK, q2, f\<lparr>f_pos := ps, f_error := False\<rparr>)"
    "archive_wf (q2\<lparr>fp := Some (f\<lparr>f_pos := ps, f_error := False\<rparr>)\<rparr>)"
    "listing fs (f\<lparr>f_pos := ps, f_error := False\<rparr>) q2 = listing fs f ?c" "format q2 = format ?c" "format q1 = format ?c"
    "unat (num_entries q2) = length (entries q2)" "map filename (entries q2) = map filename (entries ?c)"
    by blast
  have nz: "\<not> pakka_format_is_zip (format q1)" using archive_wf_geometry [OF c(4)] Q(6) by auto
  have oom: "(\<lambda>i. e_oom env (A_row i)) = (\<lambda>_. False)" "(\<lambda>_ :: nat. e_oom env A_names) = (\<lambda>_. False)" using mem by auto
  have v: "validate_no_duplicates (\<lambda>_. False) q2 = PAKKA_OK"
    using Q(3,7) by (intro distinct_validates) (simp_all add: archive_wf_def)
  have "load_archive Z env ?h f = (PAKKA_OK, Some (q2\<lparr>fp := Some (f\<lparr>f_pos := ps, f_error := False\<rparr>)\<rparr>))"
    using Q(1,2) nz v unfolding load_archive_def oom by simp
  then have "pakka_open_ex Z env fs (Some p) (Some mode) (Some hint)
      = (PAKKA_OK, Some (q2\<lparr>fp := Some (f\<lparr>f_pos := ps, f_error := False\<rparr>)\<rparr>))"
    using op by simp
  with Q c show ?thesis by auto
qed

lemma holds_listingI:
  assumes wf: "archive_wf a" and fp: "fp a = Some g" and ns: "list_all (\<lambda>e. \<not> is_staged e) (entries a)"
    and im: "image_of a (f_data g)"
  shows "holds_listing (f_data g) (format a) (listing fs g a)"
proof -
  have k: "archive_wf (a\<lparr>fp := Some h\<rparr>) \<and> listing gs h a = listing fs g a" if "f_data h = f_data g" for h gs
  proof
    show "archive_wf (a\<lparr>fp := Some h\<rparr>)" using wf fp that unfolding archive_wf_def by (auto simp: pe_def)
    have "stored_bytes gs h e = stored_bytes fs g e" if "e \<in> set (entries a)" for e
      using that ns \<open>f_data h = f_data g\<close> by (simp add: list_all_iff stored_bytes_def is_staged_def payload_bytes_def)
    then show "listing gs h a = listing fs g a" by (auto simp: listing_def intro: entry_content_cong)
  qed
  have "\<forall>e \<in> set (entries a). \<not> is_staged e" using ns by (simp add: list_all_iff)
  with im k show ?thesis unfolding holds_listing_def by blast
qed

section \<open>What a commit leaves alone\<close>

definition same_paths :: "archive \<Rightarrow> archive \<Rightarrow> bool" where
  "same_paths a b \<longleftrightarrow> format a = format b \<and> is_new a = is_new b \<and> writable a = writable b
     \<and> atomic_commit a = atomic_commit b
     \<and> cur_pakpath a = cur_pakpath b \<and> tmp_pakpath a = tmp_pakpath b \<and> new_pakpath a = new_pakpath b"

lemma same_paths_pak_path: "same_paths a b \<Longrightarrow> pak_path a = pak_path b"
  by (simp add: same_paths_def pak_path_def)

lemma pakka_commit_frame:
  assumes r: "pakka_commit Z env fs (Some a) = (s, Some a', fs')" and wf: "archive_wf a" and fp: "fp a = Some f"
    and fr: "mkstemp_fresh env" and ex: "fs (pak_path a) \<noteq> None"
  shows "same_paths a' a \<and> (\<forall>q. q \<noteq> pak_path a \<longrightarrow> fs q \<noteq> None \<longrightarrow> fs' q = fs q)"
proof -
  consider (same) "a' = a" "fs' = fs" | (place) "commit_in_place env fs a f = (s, a', fs')"
    | (rebuild) "pakka_commit_rebuild env fs a f = (s, a', fs')"
    using pakka_commit_cases [OF r wf fp] by auto
  then show ?thesis
  proof cases
    case same then show ?thesis by (simp add: same_paths_def)
  next
    case place
    obtain s1 a1 g where wr: "write_pak_directory (e_fault env Fault_dir_header) a f = (s1, a1, g)"
      using prod_cases3 by blast
    obtain x y where a1: "a1 = a\<lparr>diroffset := x, dirlength := y\<rparr>"
      using write_pak_directory_frame(2) [OF archive_wf_writable_dir [OF wf] wr] by blast
    obtain fl fs1 where pb: "publish env fs (pak_path a) g = (fl, fs1)" by fastforce
    have pa: "pak_path a1 = pak_path a" by (simp add: a1 pak_path_def)
    show ?thesis
      using place publish_other [OF pb] pb wr pa
      by (auto simp: commit_in_place_def Let_def a1 same_paths_def split: if_splits)
  next
    case rebuild
    have "same_paths (a\<lparr>fp := x\<rparr>) a" for x by (simp add: same_paths_def)
    moreover have "same_paths (relaid a ofs p x y\<lparr>fp := z\<rparr>) a" "same_paths (settled (relaid a ofs p x y)\<lparr>fp := z\<rparr>) a" for ofs p x y z
      by (simp_all add: same_paths_def relaid_def settled_def)
    moreover have "snd (publish env fs1 (pak_path a) g) q = fs1 q" if "q \<noteq> pak_path a" for fs1 g q
      using that by (simp add: publish_def)
    ultimately show ?thesis
      using pakka_commit_rebuild_cases [OF wf fp fr ex rebuild]
      by (auto simp: rebuild_kept_def rename_refused_def rebuild_done_def untouched_def split: option.splits)
  qed
qed

lemmas pakka_commit_format = pakka_commit_frame [THEN conjunct1, unfolded same_paths_def, THEN conjunct1]

text \<open>C20: what was committed is there when the archive is opened again, in any mode, with the format
  pinned or told by the magic: the same names with the same contents in the same order. So no rename,
  delete, copy or add that a commit reported as done is lost or garbled by the round trip through the
  file.\<close>

theorem commit_then_open:
  assumes wf: "archive_wf a" and fp: "fp a = Some f" and d: "dirty a"
    and fr: "mkstemp_fresh env" and ex: "fs (pak_path a) \<noteq> None"
    and r: "pakka_commit Z env fs (Some a) = (PAKKA_OK, Some a', fs')"
    and n: "length (entries a) \<le> PAKFILE_MAX_ENTRIES" and co: "can_open env' fs' (pak_path a) mode"
    and hint: "hint_fits hint (format a)"
  shows "\<exists>q g. pakka_open_ex Z' env' fs' (Some (pak_path a)) (Some mode) (Some hint) = (PAKKA_OK, Some q)
    \<and> fp q = Some g \<and> archive_wf q \<and> listing fs' g q = listing fs f a \<and> format q = format a"
proof -
  obtain g where g: "fp a' = Some g" "archive_wf a'" "listing fs' g a' = listing fs f a"
    "list_all (\<lambda>e. \<not> is_staged e) (entries a')" "fs' (pak_path a) = Some (Regular (f_data g))" "image_of a' (f_data g)"
    using commit_OK [OF wf fp d fr ex r] by blast
  have fmt: "format a' = format a" by (rule pakka_commit_format [OF r wf fp fr ex])
  have h: "holds_listing (f_data g) (format a) (listing fs f a)"
    using holds_listingI [OF g(2,1,4,6), of fs'] g(3) fmt by simp
  have "length (listing fs f a) \<le> PAKFILE_MAX_ENTRIES" using n by (simp add: listing_length)
  from stored_opens [OF h this g(5) co hint, of Z'] show ?thesis by blast
qed

section \<open>Creating\<close>

lemma created_geometry: "\<not> pakka_format_is_zip fmt \<Longrightarrow> \<exists>g. pakka_pak_geometry (created_format fmt) = Some g"
  by (cases fmt) (auto simp: created_format_def pakka_format_is_zip_def)

lemma pakka_create_OK:
  assumes fr: "mkstemp_fresh env" and nz: "\<not> pakka_format_is_zip fmt"
    and r: "pakka_create Z env fs (Some p) (Some fmt) flags = (PAKKA_OK, Some a, fs')"
  shows "archive_wf a \<and> entries a = [] \<and> format a = created_format fmt \<and> is_new a \<and> writable a \<and> \<not> dirty a
    \<and> \<not> needs_rebuild a \<and> \<not> atomic_commit a \<and> new_pakpath a = p \<and> pak_path a = tmp_pakpath a
    \<and> fs (tmp_pakpath a) = None \<and> fs' (tmp_pakpath a) = Some (Regular []) \<and> untouched fs fs'
    \<and> \<not> pakka_platform_stat env fs p
    \<and> (\<exists>f. fp a = Some f \<and> image_of a (f_data f))"
proof -
  obtain tmp t fs1 where mk: "pakka_platform_mkstemp_open env fs p (ascii ''pakkaXXXXXX'') = (Some (tmp, t), fs1)"
    and c: "create_in_scratch Z env fs1 fmt ((created_handle p fmt)\<lparr>tmp_pakpath := tmp\<rparr>) t = (PAKKA_OK, Some a, fs')"
    and st: "\<not> pakka_platform_stat env fs p"
    using r by (auto simp: pakka_create_def split: if_splits option.splits prod.splits)
  from mkstemp_open_SomeD [OF mk fr] obtain l where
    M: "fs tmp = None" "t = stream_of l []" "fs1 tmp = Some (Regular [])" "untouched fs fs1" by (auto simp: untouched_def)
  define b where "b = init_pak_header ((created_handle p fmt)\<lparr>tmp_pakpath := tmp, format := created_format fmt\<rparr>)"
  obtain hs f1 where h: "write_pak_header b t = (hs, f1)" by fastforce
  have R: "hs = PAKKA_OK" "a = b\<lparr>fp := Some f1\<rparr>" "fs' = fs1"
    using c nz h by (auto simp: create_in_scratch_def b_def [symmetric] Let_def split: if_splits)
  obtain g where g: "pakka_pak_geometry (created_format fmt) = Some g" using created_geometry [OF nz] by blast
  have B: "entries b = []" "format b = created_format fmt" "is_new b" "writable b" "\<not> dirty b" "\<not> needs_rebuild b"
    "\<not> atomic_commit b" "new_pakpath b = p" "tmp_pakpath b = tmp" "signature b = g_signature g" "num_entries b = 0"
    "diroffset b = 12" "dirlength b = 0" "payload_end b = 12"
    using g by (simp_all add: b_def init_pak_header_def created_handle_def calloc_archive_def Let_def PAKFILE_HEADER_SIZE_def)
  have hl: "length (header_bytes b) = 12" using header_length [of b] B(10) geometry_facts(3) [OF g] by simp
  then have hn: "header_bytes b \<noteq> []" by auto
  have "f1 = f_put t (header_bytes b)"
    using h R(1) by (simp add: write_pak_header_eq io_status_OK fwrite_all_True)
  then have fd: "f_data f1 = header_bytes b" by (simp add: M(2) splice_def)
  have "image_of b (f_data f1)"
    using g B hl by (simp add: image_of_def fd dir_bytes_def)
  then have im: "image_of a (f_data f1)" by (simp add: R(2))
  have "archive_wf a"
    using g B hl unfolding archive_wf_def R(2) by (auto simp: pe_def fd names_distinct_def)
  with im B M st show ?thesis by (simp add: R pak_path_def)
qed

text \<open>A new archive starts out well formed and empty in the format asked for, in a scratch file that
  did not exist; nothing that existed is touched, and a destination that exists is refused.\<close>

theorem create_spec:
  assumes fr: "mkstemp_fresh env" and nz: "\<not> pakka_format_is_zip fmt"
    and r: "pakka_create Z env fs (Some p) (Some fmt) flags = (PAKKA_OK, Some a, fs')"
  shows "archive_wf a \<and> entries a = [] \<and> format a = created_format fmt \<and> is_new a \<and> writable a \<and> \<not> dirty a
    \<and> \<not> needs_rebuild a \<and> \<not> atomic_commit a \<and> new_pakpath a = p \<and> pak_path a = tmp_pakpath a
    \<and> fs (tmp_pakpath a) = None \<and> fs' (tmp_pakpath a) = Some (Regular []) \<and> untouched fs fs'
    \<and> \<not> pakka_platform_stat env fs p
    \<and> (\<exists>f. fp a = Some f \<and> image_of a (f_data f))"
  by (rule pakka_create_OK [OF assms])

section \<open>Closing\<close>

definition finish_close :: "env \<Rightarrow> archive \<Rightarrow> status \<Rightarrow> bool \<Rightarrow> files \<Rightarrow> status \<times> files" where
  "finish_close env a s1 closed fs2 =
     (if s1 \<noteq> PAKKA_OK then (s1, fs2) else if \<not> closed then (PAKKA_ERR_IO, fs2)
      else (case pakka_platform_rename_noreplace env fs2 (tmp_pakpath a) (new_pakpath a) of
          (Rename_ok, fs3) \<Rightarrow> (PAKKA_OK, fs3)
        | (Rename_exists, fs3) \<Rightarrow> (PAKKA_ERR_EXISTS, fs3)
        | (Rename_failed, fs3) \<Rightarrow> (PAKKA_ERR_IO, fs3)))"

text \<open>The part of \<open>pakka_close\<close> up to the closed stream, for a new archive.\<close>

lemma close_new_parts:
  assumes wf: "archive_wf a" and fp: "fp a = Some f" and new: "is_new a" "writable a"
    and fr: "mkstemp_fresh env" and ex: "fs (pak_path a) \<noteq> None"
    and r: "pakka_close Z env fs (Some a) = (s, fs')"
  obtains s1 a1 fs1 closed fs2 where
    "(if dirty a then pakka_commit Z env fs (Some a) else (PAKKA_OK, Some a, fs)) = (s1, Some a1, fs1)"
    "same_paths a1 a" "\<forall>q. q \<noteq> pak_path a \<longrightarrow> fs q \<noteq> None \<longrightarrow> fs1 q = fs q"
    "(closed, fs2) = (case fp a1 of None \<Rightarrow> (True, fs1) | Some g \<Rightarrow> publish env fs1 (pak_path a) g)"
    "(s, fs') = finish_close env a s1 closed fs2"
proof -
  obtain s1 a1 fs1 where c: "(if dirty a then pakka_commit Z env fs (Some a) else (PAKKA_OK, Some a, fs)) = (s1, Some a1, fs1)"
    using pakka_commit_Some [of Z env fs a] by (cases "dirty a") auto
  have fm: "same_paths a1 a \<and> (\<forall>q. q \<noteq> pak_path a \<longrightarrow> fs q \<noteq> None \<longrightarrow> fs1 q = fs q)"
  proof (cases "dirty a")
    case True
    then show ?thesis using pakka_commit_frame [where fs = fs, OF _ wf fp fr ex] c by simp
  next
    case False
    then show ?thesis using c by (simp add: same_paths_def)
  qed
  then have sp: "is_new a1" "writable a1" "pak_path a1 = pak_path a" "tmp_pakpath a1 = tmp_pakpath a" "new_pakpath a1 = new_pakpath a"
    using new same_paths_pak_path [of a1 a] by (auto simp: same_paths_def)
  obtain closed fs2 where cl: "(case fp a1 of None \<Rightarrow> (True, fs1) | Some g \<Rightarrow> publish env fs1 (pak_path a) g) = (closed, fs2)"
    by fastforce
  have cl': "(case fp a1 of None \<Rightarrow> (True, fs1)
      | Some g \<Rightarrow> if writable a1 then publish env fs1 (pak_path a) g else (f_close_ok g, fs1)) = (closed, fs2)"
    using cl sp(2) by (cases "fp a1") simp_all
  have "pakka_close Z env fs (Some a) = finish_close env a s1 closed fs2"
    unfolding pakka_close_def option.case c Let_def prod.case option.sel sp(3) cl'
    by (simp add: sp finish_close_def)
  with r have fin: "(s, fs') = finish_close env a s1 closed fs2" by simp
  show ?thesis
    by (rule that [OF c fm [THEN conjunct1] fm [THEN conjunct2] cl [symmetric] fin])
qed

lemma rename_noreplace_exists:
  "fs new \<noteq> None \<Longrightarrow> pakka_platform_rename_noreplace env fs old new = (Rename_exists, fs)"
  by (simp add: pakka_platform_rename_noreplace_def)

lemma closed_other:
  assumes "(closed, fs2) = (case x of None \<Rightarrow> (True, fs1) | Some g \<Rightarrow> publish env fs1 p g)" "q \<noteq> p"
  shows "fs2 q = fs1 q"
  using assms by (cases x) (auto dest: publish_other [OF sym])

text \<open>C21: closing a new archive never overwrites a file: if there is one at the destination by then,
  whenever it came to be there, the call fails and the file is as it was.\<close>

theorem close_never_overwrites:
  assumes wf: "archive_wf a" and fp: "fp a = Some f" and new: "is_new a" "writable a"
    and fr: "mkstemp_fresh env" and ex: "fs (pak_path a) \<noteq> None"
    and dest: "fs (new_pakpath a) \<noteq> None" "new_pakpath a \<noteq> tmp_pakpath a"
    and r: "pakka_close Z env fs (Some a) = (s, fs')"
  shows "s \<noteq> PAKKA_OK \<and> fs' (new_pakpath a) = fs (new_pakpath a)"
proof -
  have ne: "new_pakpath a \<noteq> pak_path a" using dest(2) new(1) by (simp add: pak_path_def)
  obtain s1 a1 fs1 closed fs2 where
    "(if dirty a then pakka_commit Z env fs (Some a) else (PAKKA_OK, Some a, fs)) = (s1, Some a1, fs1)"
    "same_paths a1 a" and P: "\<forall>q. q \<noteq> pak_path a \<longrightarrow> fs q \<noteq> None \<longrightarrow> fs1 q = fs q"
    "(closed, fs2) = (case fp a1 of None \<Rightarrow> (True, fs1) | Some g \<Rightarrow> publish env fs1 (pak_path a) g)"
    "(s, fs') = finish_close env a s1 closed fs2"
    by (rule close_new_parts [OF wf fp new fr ex r])
  have "fs2 (new_pakpath a) = fs (new_pakpath a)"
    using closed_other [OF P(2) ne] P(1) ne dest(1) by simp
  moreover from this have "pakka_platform_rename_noreplace env fs2 (tmp_pakpath a) (new_pakpath a) = (Rename_exists, fs2)"
    using dest(1) by (simp add: rename_noreplace_exists)
  ultimately show ?thesis using P(3) by (auto simp: finish_close_def split: if_splits)
qed

lemma close_publishes:
  assumes wf: "archive_wf a" and fp: "fp a = Some f" and new: "is_new a" "writable a"
    and fr: "mkstemp_fresh env" and ex: "fs (pak_path a) \<noteq> None" and cl: "dirty a \<or> image_of a (f_data f)"
    and r: "pakka_close Z env fs (Some a) = (PAKKA_OK, fs')"
  shows "\<exists>b. fs' (new_pakpath a) = Some (Regular b) \<and> holds_listing b (format a) (listing fs f a)"
proof -
  have pt: "pak_path a = tmp_pakpath a" using new(1) by (simp add: pak_path_def)
  obtain s1 a1 fs1 closed fs2 where
    P: "(if dirty a then pakka_commit Z env fs (Some a) else (PAKKA_OK, Some a, fs)) = (s1, Some a1, fs1)"
    "same_paths a1 a" "\<forall>q. q \<noteq> pak_path a \<longrightarrow> fs q \<noteq> None \<longrightarrow> fs1 q = fs q"
    "(closed, fs2) = (case fp a1 of None \<Rightarrow> (True, fs1) | Some g \<Rightarrow> publish env fs1 (pak_path a) g)"
    "(PAKKA_OK, fs') = finish_close env a s1 closed fs2"
    by (rule close_new_parts [OF wf fp new fr ex r])
  have ok: "s1 = PAKKA_OK" "closed" using P(5) by (auto simp: finish_close_def split: if_splits)
  have fmt: "format a1 = format a" using P(2) by (simp add: same_paths_def)
  obtain g where g: "fp a1 = Some g" "holds_listing (f_data g) (format a) (listing fs f a)"
  proof (cases "dirty a")
    case True
    then have c: "pakka_commit Z env fs (Some a) = (PAKKA_OK, Some a1, fs1)" using P(1) ok(1) by simp
    from commit_OK [OF wf fp True fr ex c] obtain g where
      "fp a1 = Some g" "archive_wf a1" "listing fs1 g a1 = listing fs f a"
      "list_all (\<lambda>e. \<not> is_staged e) (entries a1)" "image_of a1 (f_data g)" by blast
    with holds_listingI [of a1 g fs1] fmt that show ?thesis by metis
  next
    case False
    then have "a1 = a" "image_of a (f_data f)" using P(1) cl by auto
    moreover have "list_all (\<lambda>e. \<not> is_staged e) (entries a)"
      using wf False by (auto simp: archive_wf_def list_all_iff)
    ultimately show ?thesis using holds_listingI [OF wf fp, of fs] fp that by simp
  qed
  have "publish env fs1 (pak_path a) g = (True, fs2)" using P(4) g(1) ok(2) by simp
  from publish_ok [where p = "pak_path a", OF this] have t: "fs2 (tmp_pakpath a) = Some (Regular (f_data g))" by (simp add: pt)
  obtain rr fs3 where rn: "pakka_platform_rename_noreplace env fs2 (tmp_pakpath a) (new_pakpath a) = (rr, fs3)" by fastforce
  then have "rr = Rename_ok" "fs' = fs3" using P(5) ok by (auto simp: finish_close_def split: rename_result.splits)
  then have "fs' (new_pakpath a) = Some (Regular (f_data g))"
    using rn t by (auto simp: pakka_platform_rename_noreplace_def split: if_splits)
  with g(2) show ?thesis by blast
qed

text \<open>C22: a new archive that was closed without an error is at its destination and opens with exactly
  the names and contents it had: whatever was added, renamed, copied or deleted since it was created.
  An archive that was never changed is published as the empty archive its header says it is.\<close>

theorem close_then_open:
  assumes wf: "archive_wf a" and fp: "fp a = Some f" and new: "is_new a" "writable a"
    and fr: "mkstemp_fresh env" and ex: "fs (pak_path a) \<noteq> None" and cl: "dirty a \<or> image_of a (f_data f)"
    and r: "pakka_close Z env fs (Some a) = (PAKKA_OK, fs')"
    and n: "length (entries a) \<le> PAKFILE_MAX_ENTRIES" and co: "can_open env' fs' (new_pakpath a) mode"
    and hint: "hint_fits hint (format a)"
  shows "\<exists>q g. pakka_open_ex Z' env' fs' (Some (new_pakpath a)) (Some mode) (Some hint) = (PAKKA_OK, Some q)
    \<and> fp q = Some g \<and> archive_wf q \<and> listing fs' g q = listing fs f a \<and> format q = format a"
proof -
  obtain b where b: "fs' (new_pakpath a) = Some (Regular b)" "holds_listing b (format a) (listing fs f a)"
    using close_publishes [OF wf fp new fr ex cl r] by blast
  have "length (listing fs f a) \<le> PAKFILE_MAX_ENTRIES" using n by (simp add: listing_length)
  from stored_opens [OF b(2) this b(1) co hint, of Z'] show ?thesis by blast
qed

section \<open>Examples\<close>

text \<open>A new archive nothing was added to.\<close>

definition fresh_fp :: cfile where
  "fresh_fp = (stream_of quiet_limits (ascii ''PACK'' @ [12, 0, 0, 0, 0, 0, 0, 0]))\<lparr>f_pos := 12\<rparr>"

definition fresh_pak :: archive where
  "fresh_pak = calloc_archive\<lparr>format := PAKKA_FORMAT_PAK, signature := ascii ''PACK'', diroffset := 12,
     payload_end := 12, is_new := True, writable := True, fp := Some fresh_fp,
     tmp_pakpath := ascii ''t'', new_pakpath := ascii ''n''\<rparr>"

lemma fresh_pak_simps:
  "fp fresh_pak = Some fresh_fp" "is_new fresh_pak" "writable fresh_pak" "pak_path fresh_pak = ascii ''t''"
  "new_pakpath fresh_pak = ascii ''n''" "tmp_pakpath fresh_pak = ascii ''t''" "\<not> dirty fresh_pak"
  "entries fresh_pak = []" "format fresh_pak = PAKKA_FORMAT_PAK" "ascii ''n'' \<noteq> ascii ''t''" "ascii ''t'' \<noteq> ascii ''n''"
  by (simp_all add: fresh_pak_def calloc_archive_def pak_path_def ascii_def)

lemma fresh_pak_wf: "archive_wf fresh_pak"
  by (simp add: archive_wf_def fresh_pak_def calloc_archive_def pe_def names_distinct_def fresh_fp_def ascii_def)

lemma fresh_image: "image_of fresh_pak (f_data fresh_fp)"
  by (simp add: image_of_def fresh_pak_def calloc_archive_def fresh_fp_def header_bytes_def pakka_format_is_wad_def
      dir_bytes_def u32_le_def ascii_def)

definition fresh_files :: files where
  "fresh_files = (\<lambda>_. None)(ascii ''t'' \<mapsto> Regular [])"

lemma fresh_closes:
  "pakka_close without_zip quiet_env fresh_files (Some fresh_pak) =
    (PAKKA_OK, (\<lambda>_. None)(ascii ''n'' \<mapsto> Regular (f_data fresh_fp)))"
proof -
  have "f_close_ok fresh_fp" "f_data fresh_fp \<noteq> []"
    by (simp_all add: fresh_fp_def stream_of_def quiet_limits_def)
  then show ?thesis
    by (simp add: pakka_close_def fresh_pak_simps publish_def fresh_files_def pakka_platform_rename_noreplace_def
        quiet_env_simps fun_eq_iff)
qed

lemma fresh_can_open: "can_open quiet_env ((\<lambda>_. None)(ascii ''n'' \<mapsto> Regular (f_data fresh_fp))) (ascii ''n'') mode"
  by (simp add: can_open_def quiet_env_simps file_bytes_def fresh_fp_def quiet_limits_def OS_PATH_MAX_def ascii_def)

lemma close_then_open_witness:
  "\<exists>fs' q g. pakka_close without_zip quiet_env fresh_files (Some fresh_pak) = (PAKKA_OK, fs')
    \<and> pakka_open_ex without_zip quiet_env fs' (Some (ascii ''n'')) (Some PAKKA_OPEN_READ_WRITE) (Some PAKKA_FORMAT_PAK) = (PAKKA_OK, Some q)
    \<and> fp q = Some g \<and> archive_wf q \<and> listing fs' g q = []"
proof -
  have ex: "fresh_files (pak_path fresh_pak) \<noteq> None" by (simp add: fresh_files_def fresh_pak_simps)
  have im: "dirty fresh_pak \<or> image_of fresh_pak (f_data fresh_fp)" using fresh_image by simp
  have n: "length (entries fresh_pak) \<le> PAKFILE_MAX_ENTRIES" by (simp add: fresh_pak_simps)
  have co: "can_open quiet_env ((\<lambda>_. None)(ascii ''n'' \<mapsto> Regular (f_data fresh_fp))) (new_pakpath fresh_pak) PAKKA_OPEN_READ_WRITE"
    by (simp only: fresh_pak_simps fresh_can_open)
  have h: "hint_fits PAKKA_FORMAT_PAK (format fresh_pak)" by (simp add: hint_fits_def fresh_pak_simps)
  from close_then_open [OF fresh_pak_wf fresh_pak_simps(1,2,3) quiet_fresh ex im fresh_closes n co h, of without_zip]
  show ?thesis using fresh_closes by (auto simp: fresh_pak_simps listing_def)
qed

lemma close_never_overwrites_witness:
  "\<exists>s fs'. pakka_close without_zip quiet_env (fresh_files(ascii ''n'' \<mapsto> Regular [1])) (Some fresh_pak) = (s, fs')
    \<and> s \<noteq> PAKKA_OK \<and> fs' (ascii ''n'') = Some (Regular [1])"
proof -
  let ?fs = "fresh_files(ascii ''n'' \<mapsto> Regular [1])"
  obtain s fs' where r: "pakka_close without_zip quiet_env ?fs (Some fresh_pak) = (s, fs')" by fastforce
  have "?fs (pak_path fresh_pak) \<noteq> None" "?fs (new_pakpath fresh_pak) \<noteq> None" "new_pakpath fresh_pak \<noteq> tmp_pakpath fresh_pak"
    by (simp_all add: fresh_pak_simps fresh_files_def)
  from close_never_overwrites [OF fresh_pak_wf fresh_pak_simps(1,2,3) quiet_fresh this r] r show ?thesis
    by (simp add: fresh_pak_simps)
qed

lemma create_spec_witness:
  "\<exists>a fs' f. pakka_create without_zip quiet_env (\<lambda>_. None) (Some (ascii ''n'')) (Some PAKKA_FORMAT_SIN) 0 = (PAKKA_OK, Some a, fs')
    \<and> archive_wf a \<and> format a = PAKKA_FORMAT_SIN \<and> entries a = [] \<and> fp a = Some f \<and> image_of a (f_data f)"
proof -
  have nz: "\<not> pakka_format_is_zip PAKKA_FORMAT_SIN" by (simp add: pakka_format_is_zip_def)
  have "fst (pakka_create without_zip quiet_env (\<lambda>_. None) (Some (ascii ''n'')) (Some PAKKA_FORMAT_SIN) 0) = PAKKA_OK"
    by (simp add: pakka_create_def quiet_env_simps pakka_platform_stat_def pakka_platform_lstat_def
        pakka_platform_mkstemp_open_def mkstemp_open_in_dir_def mkstemp_at_def dirname_def rstrip_slashes_def
        OS_PATH_MAX_def Let_def ascii_def quiet_env_def quiet_limits_def)
      (simp add: create_in_scratch_def nz write_pak_header_eq io_status_def fwrite_all_def fwrite_def quiet_env_def quiet_limits_def header_bytes_def init_pak_header_def created_handle_def calloc_archive_def
        created_format_def pakka_format_is_wad_def u32_le_def ascii_def PAKFILE_HEADER_SIZE_def Let_def stream_of_def)
  then obtain a fs' where
    r: "pakka_create without_zip quiet_env (\<lambda>_. None) (Some (ascii ''n'')) (Some PAKKA_FORMAT_SIN) 0 = (PAKKA_OK, a, fs')"
    by (metis prod.collapse)
  then obtain b where b: "a = Some b"
    by (auto simp: pakka_create_def create_in_scratch_def nz Let_def split: if_splits option.splits prod.splits)
  from create_spec [where fs = "\<lambda>_. None", OF quiet_fresh nz r [unfolded b]] r b show ?thesis
    by (auto simp: created_format_def)
qed

text \<open>The archive the sample commit writes is a header, one payload of two bytes and one directory slot.\<close>

lemma sample_commit_length:
  assumes r: "pakka_commit without_zip quiet_env sample_disk (Some sample_dirty) = (PAKKA_OK, Some a', fs')"
  shows "length (file_bytes fs' []) = 78"
proof -
  let ?t = "[0x2E, 0x2F] @ ascii ''pakkaXXXXXX''" and ?l = quiet_limits
  have mk: "pakka_platform_mkstemp_open quiet_env sample_disk [] (ascii ''pakkaXXXXXX'') =
      (Some (?t, stream_of ?l []), sample_disk(?t \<mapsto> Regular []))"
    by (simp add: pakka_platform_mkstemp_open_def mkstemp_open_in_dir_def mkstemp_at_def dirname_def rstrip_slashes_def
        quiet_env_def sample_disk_def OS_PATH_MAX_def ascii_def Let_def)
  have sk: "fseek_set (stream_of ?l []) PAKFILE_HEADER_SIZE = (True, (stream_of ?l [])\<lparr>f_pos := 12\<rparr>)"
    by (simp add: fseek_set_def quiet_limits_def PAKFILE_HEADER_SIZE_def)
  have "length (file_bytes (snd (snd (pakka_commit_rebuild quiet_env sample_disk sample_dirty sample_fp))) []) = 78"
    unfolding file_bytes_def pakka_commit_rebuild_def Let_def sample_dirty_simps mk option.case prod.case sk
    by (simp add: quiet_env_simps dedup_owner_def sample_entries dedup_keys_def calloc_entry_def copy_between_paks_def
      ftell_def quiet_limits_def UINT32_MAX_def pak_entry_on_disk_extent_def sample_fp_def empty_stream_def fseek_set_def
      copy_chunks_turn chunk_of_def PAKFILE_COPY_CHUNK_def fread_all_def fread_def fwrite_all_def fwrite_def splice_def
      rebuild_publish_def Let_def ascii_def file_bytes_def)
      (simp add: quiet_env_simps sample_dirty_def sample_pak_def calloc_archive_def rebuild_rename_def
      publish_def pakka_platform_rename_replace_def pakka_platform_fopen_def set_offsets_def calloc_entry_def
      sample_disk_def write_eval Let_def file_bytes_def)
  with r show ?thesis by (auto simp: pakka_commit_def sample_dirty_simps split: prod.splits)
qed

lemma commit_then_open_witness:
  "\<exists>a' fs' q g. pakka_commit without_zip quiet_env sample_disk (Some sample_dirty) = (PAKKA_OK, Some a', fs')
    \<and> pakka_open_ex without_zip quiet_env fs' (Some []) (Some PAKKA_OPEN_READ) (Some PAKKA_FORMAT_PAK) = (PAKKA_OK, Some q)
    \<and> fp q = Some g \<and> listing fs' g q = [(ascii ''b.cfg'', Some [4, 5])]"
proof -
  obtain a' fs' where r: "pakka_commit without_zip quiet_env sample_disk (Some sample_dirty) = (PAKKA_OK, Some a', fs')"
    by (rule sample_committed)
  have p: "pak_path sample_dirty = []" by (rule sample_dirty_simps)
  have ex: "sample_disk (pak_path sample_dirty) \<noteq> None" by (simp add: sample_dirty_simps)
  have n: "length (entries sample_dirty) \<le> PAKFILE_MAX_ENTRIES"
    by (simp add: sample_entries PAKFILE_MAX_ENTRIES_def)
  have co: "can_open quiet_env fs' (pak_path sample_dirty) PAKKA_OPEN_READ"
    unfolding can_open_def p sample_commit_length [OF r] by (simp add: quiet_env_simps quiet_limits_def OS_PATH_MAX_def)
  have h: "hint_fits PAKKA_FORMAT_PAK (format sample_dirty)"
    by (simp add: hint_fits_def sample_dirty_def sample_pak_def calloc_archive_def)
  have l: "listing sample_disk sample_fp sample_dirty = [(ascii ''b.cfg'', Some [4, 5])]"
    by (simp add: listing_def sample_entries entry_content_def stored_bytes_def calloc_entry_def is_staged_def
        sample_fp_def pak_entry_on_disk_extent_def ascii_def payload_bytes_def empty_stream_def)
  from commit_then_open [OF sample_dirty_wf sample_dirty_simps(1,2) quiet_fresh ex r n co h, of without_zip] r
  show ?thesis unfolding p l by blast
qed

lemma open_spec_witness:
  "\<exists>fs q g. pakka_open_ex without_zip quiet_env fs (Some (ascii ''n'')) (Some PAKKA_OPEN_READ_WRITE) (Some PAKKA_FORMAT_PAK)
      = (PAKKA_OK, Some q) \<and> archive_wf q \<and> writable q \<and> fp q = Some g \<and> f_data g = f_data fresh_fp"
proof -
  let ?fs = "(\<lambda>_. None)(ascii ''n'' \<mapsto> Regular (f_data fresh_fp))"
  have reg: "?fs (ascii ''n'') = Some (Regular (f_data fresh_fp))" by simp
  have "holds_listing (f_data fresh_fp) (format fresh_pak) (listing fresh_files fresh_fp fresh_pak)"
    by (rule holds_listingI [OF fresh_pak_wf fresh_pak_simps(1)]) (simp_all add: fresh_pak_simps fresh_image)
  moreover have "length (listing fresh_files fresh_fp fresh_pak) \<le> PAKFILE_MAX_ENTRIES" "hint_fits PAKKA_FORMAT_PAK (format fresh_pak)"
    by (simp_all add: listing_def fresh_pak_simps hint_fits_def)
  ultimately obtain q g where o: "pakka_open_ex without_zip quiet_env ?fs (Some (ascii ''n'')) (Some PAKKA_OPEN_READ_WRITE)
      (Some PAKKA_FORMAT_PAK) = (PAKKA_OK, Some q)" "format q = PAKKA_FORMAT_PAK"
    using stored_opens [OF _ _ reg fresh_can_open] fresh_pak_simps by metis
  have z: "zip_keeps_label (z_open without_zip quiet_env)"
    by (simp add: zip_keeps_label_def without_zip_def)
  have nz: "\<not> pakka_format_is_zip (format q)" by (simp add: o(2) pakka_format_is_zip_def)
  from open_spec [OF z o(1) nz reg] o(1) show ?thesis by blast
qed

end
