(* ===== verification/Zip_State.thy ===== *)
theory Zip_State
  imports Zip_Parse Lifecycle_Props
begin

text \<open>
  The invariant of an open ZIP archive, what its entries hold, and the copy loop of the rebuild: it lays
  the entries out one behind the other, each as local header, name and payload, and records the places.
\<close>

section \<open>What an entry holds\<close>

text \<open>The stored bytes of an entry, compressed or not, and what a client can tell of it without the codec.\<close>

definition zip_bytes :: "files \<Rightarrow> cfile \<Rightarrow> pentry \<Rightarrow> u8 list" where
  "zip_bytes fs f e =
     (case pending_source e of
        Some source \<Rightarrow> file_bytes fs source
      | None \<Rightarrow> (case pending_data e of
          Some d \<Rightarrow> d
        | None \<Rightarrow> take (unat (pk3_compressed_size e)) (drop (unat (pk3_payload_offset e)) (f_data f))))"

definition zip_view :: "files \<Rightarrow> cfile \<Rightarrow> pentry \<Rightarrow> cstring \<times> u16 \<times> u32 \<times> u32 \<times> u8 list" where
  "zip_view fs f e = (filename e, pk3_method e, crc32 e, entry_length e, zip_bytes fs f e)"

definition zip_listing :: "files \<Rightarrow> cfile \<Rightarrow> archive \<Rightarrow> (cstring \<times> u16 \<times> u32 \<times> u32 \<times> u8 list) list" where
  "zip_listing fs f a = map (zip_view fs f) (entries a)"

section \<open>The invariant\<close>

definition zip_kind_wf :: "pentry \<Rightarrow> bool" where
  "zip_kind_wf e \<longleftrightarrow> c_string (filename e) \<and> length (filename e) < PAKKA_ENTRY_NAME_SIZE
     \<and> pk3_method e \<in> {PK3_METHOD_STORED, PK3_METHOD_DEFLATE} \<and> \<not> dk_is_compressed e
     \<and> (pk3_method e = PK3_METHOD_STORED \<longrightarrow> pk3_compressed_size e = entry_length e)"

definition zip_staged_wf :: "pentry \<Rightarrow> bool" where
  "zip_staged_wf e \<longleftrightarrow> (pending_source e = None \<or> pending_data e = None)
     \<and> (pending_source e \<noteq> None \<longrightarrow> pk3_method e = PK3_METHOD_STORED)
     \<and> (pk3_method e \<noteq> PK3_METHOD_STORED \<longrightarrow> pk3_compressed_size e \<noteq> 0)
     \<and> (\<forall>d. pending_data e = Some d \<longrightarrow> length d = unat (pk3_compressed_size e))"

definition zip_archive_wf :: "archive \<Rightarrow> bool" where
  "zip_archive_wf a \<longleftrightarrow> pakka_format_is_zip (format a)
     \<and> unat (num_entries a) = length (entries a) \<and> names_distinct (entries a)
     \<and> (\<forall>e \<in> set (entries a). zip_kind_wf e
          \<and> (if is_staged e then zip_staged_wf e
             else \<forall>f. fp a = Some f \<longrightarrow> placed (f_data f) (unat (pk3_cdr_offset a)) e))
     \<and> ((\<exists>e \<in> set (entries a). is_staged e) \<longrightarrow> dirty a) \<and> (dirty a \<longrightarrow> needs_rebuild a)
     \<and> (\<forall>f. fp a = Some f \<longrightarrow> unat (pk3_cdr_offset a) \<le> length (f_data f))"

section \<open>Layout\<close>

definition zip_local :: "files \<Rightarrow> cfile \<Rightarrow> pentry \<Rightarrow> u8 list" where
  "zip_local fs f e = pk3_lfh_of e @ filename e @ zip_bytes fs f e"

definition zip_blob :: "files \<Rightarrow> cfile \<Rightarrow> pentry list \<Rightarrow> u8 list" where
  "zip_blob fs f es = concat (map (zip_local fs f) es)"

definition zip_extent :: "pentry \<Rightarrow> nat" where
  "zip_extent e = PK3_LFH_SIZE + length (filename e) + unat (pk3_compressed_size e)"

fun zip_place :: "nat \<Rightarrow> pentry list \<Rightarrow> pentry list" where
  "zip_place p [] = []"
| "zip_place p (e # es) = pk3_moved e (of_nat p) # zip_place (p + zip_extent e) es"

lemma length_lfh [simp]: "length (pk3_lfh_of e) = PK3_LFH_SIZE" "length (pk3_cdr_of e) = PK3_CDR_SIZE"
  by (simp_all add: pk3_lfh_of_def pk3_build_lfh_def pk3_cdr_of_def pk3_build_cdr_def PK3_LFH_SIZE_def
      PK3_CDR_SIZE_def PK3_LFH_SIGNATURE_def PK3_CDR_SIGNATURE_def)

lemma name_len: "length (filename e) < PAKKA_ENTRY_NAME_SIZE \<Longrightarrow> unat (pk3_name_len e) = length (filename e)"
  by (simp add: pk3_name_len_def PAKKA_ENTRY_NAME_SIZE_def unsigned_of_nat take_bit_nat_eq_self)

lemma name_len_kind: "zip_kind_wf e \<Longrightarrow> unat (pk3_name_len e) = length (filename e)"
  by (rule name_len) (simp add: zip_kind_wf_def)

lemma pk3_moved_simps [simp]:
  "filename (pk3_moved e p) = filename e" "pk3_method (pk3_moved e p) = pk3_method e"
  "crc32 (pk3_moved e p) = crc32 e" "entry_length (pk3_moved e p) = entry_length e"
  "pk3_compressed_size (pk3_moved e p) = pk3_compressed_size e" "pk3_lfh_offset (pk3_moved e p) = p"
  "pending_source (pk3_moved e p) = pending_source e" "pending_data (pk3_moved e p) = pending_data e"
  "is_staged (pk3_moved e p) = is_staged e" "dk_is_compressed (pk3_moved e p) = dk_is_compressed e"
  "offset (pk3_moved e p) = pk3_payload_offset (pk3_moved e p)"
  by (simp_all add: pk3_moved_def Let_def is_staged_def)

lemma zip_place_length [simp]: "length (zip_place p es) = length es"
  by (induction es arbitrary: p) simp_all

lemma zip_place_map: "(\<And>e p. g (pk3_moved e p) = g e) \<Longrightarrow> map g (zip_place p es) = map g es"
  by (induction es arbitrary: p) simp_all

lemma zip_bytes_data: "f_data g = f_data f \<Longrightarrow> zip_bytes fs g e = zip_bytes fs f e"
  by (simp add: zip_bytes_def cong: option.case_cong)

lemma zip_bytes_files: "(\<And>q. file_bytes gs q = file_bytes fs q) \<Longrightarrow> zip_bytes gs f e = zip_bytes fs f e"
  by (simp add: zip_bytes_def cong: option.case_cong)

section \<open>One payload\<close>

text \<open>A payload that is copied is the stored bytes; a staged source is copied only while it is the regular
  file whose size and checksum were recorded.\<close>

lemma pk3_copy_payload_OK:
  assumes r: "pk3_copy_payload env fs e ffd t = (PAKKA_OK, ffd', t')" and st: "is_staged e \<Longrightarrow> zip_staged_wf e"
  shows "t' = f_put t (zip_bytes fs ffd e) \<and> length (zip_bytes fs ffd e) = unat (pk3_compressed_size e)
    \<and> f_data ffd' = f_data ffd
    \<and> (\<forall>p. pending_source e = Some p \<longrightarrow> fs p = Some (Regular (file_bytes fs p))
         \<and> crc32 e = pakka_crc32_update 0 (file_bytes fs p))"
proof (cases "pending_source e")
  case (Some source)
  obtain b where b: "fs source = Some (Regular b)" "length b = unat (pk3_compressed_size e)"
    using r Some by (auto simp: pk3_copy_defs pakka_platform_lstat_def
        split: if_splits option.splits node.splits)
  then have l: "pakka_platform_lstat env fs source = Some (Regular b)" "\<not> pakka_platform_is_reparse_or_symlink env fs source"
    using r Some by (auto simp: pk3_copy_defs pakka_platform_is_reparse_or_symlink_def
        pakka_platform_lstat_def split: if_splits option.splits)
  obtain li where op: "pakka_platform_fopen env fs source False = Some (stream_of li b)"
    using r Some b l by (auto simp: pk3_copy_defs pakka_platform_fopen_def split: option.splits)
  obtain s crc t1 where c: "copy_crc (stream_of li b) t (unat (pk3_compressed_size e)) 0 = (s, crc, t1)"
    using prod_cases3 by blast
  with r Some b l op have OK: "s = PAKKA_OK" "crc = crc32 e" "t' = t1" "ffd' = ffd"
    by (auto simp: pk3_copy_defs split: if_splits)
  from copy_crc_OK [OF c [unfolded OK(1)]] obtain bs where
    bs: "length bs = unat (pk3_compressed_size e)" "unat (pk3_compressed_size e) = 0 \<or> f_has (stream_of li b) bs"
      "t1 = f_put t bs" "crc = pakka_crc32_update 0 bs" by blast
  have "source_of (stream_of li b) b" by (simp add: source_of_def)
  with bs(1,2) b(2) have "bs = b" using source_has by (cases "b = []") auto
  with bs OK b Some show ?thesis by (simp add: regular_bytes zip_bytes_def)
next
  case no: None
  show ?thesis
  proof (cases "pending_data e")
    case (Some data)
    with r no have "t' = f_put t data" "ffd' = ffd"
      by (auto simp: pk3_copy_defs fwrite_all_True split: prod.splits if_splits)
    with Some no st show ?thesis by (simp add: zip_bytes_def is_staged_def zip_staged_wf_def)
  next
    case None
    let ?p = "unat (pk3_payload_offset e)" and ?n = "unat (pk3_compressed_size e)"
    obtain ok1 f1 where sk: "fseek_set ffd ?p = (ok1, f1)" by fastforce
    have ok1: "ok1" using r no None sk by (auto simp: pk3_copy_defs split: if_splits)
    then have f1: "f1 = ffd\<lparr>f_pos := ?p\<rparr>" using sk by (auto simp: fseek_set_def split: if_splits)
    have c: "copy_chunks f1 t ?n = (PAKKA_OK, ffd', t')"
      using r no None sk ok1 by (simp add: pk3_copy_defs)
    from copy_chunks_OK [OF c] obtain bs where bs: "length bs = ?n" "bs = [] \<or> f_has f1 bs"
      "t' = f_put t bs" "ffd' = f_skip f1 ?n" by auto
    then have "bs = zip_bytes fs ffd e" using no None by (auto simp: f1 f_has_def zip_bytes_def)
    with bs no None show ?thesis by (simp add: f1)
  qed
qed

lemma pk3_copy_payload_frame: "pk3_copy_payload env fs e ffd t = (s, ffd', t') \<Longrightarrow> f_data ffd' = f_data ffd"
  using fseek_data copy_chunks_frame
  by (auto simp: pk3_copy_defs Let_def split: if_splits option.splits prod.splits node.splits)

section \<open>The loop\<close>

definition zip_sources_ok :: "files \<Rightarrow> pentry list \<Rightarrow> bool" where
  "zip_sources_ok fs es \<longleftrightarrow> (\<forall>e \<in> set es. \<forall>p. pending_source e = Some p \<longrightarrow>
     fs p = Some (Regular (file_bytes fs p)) \<and> length (file_bytes fs p) = unat (pk3_compressed_size e)
     \<and> crc32 e = pakka_crc32_update 0 (file_bytes fs p))"

definition zip_sized :: "files \<Rightarrow> cfile \<Rightarrow> pentry \<Rightarrow> bool" where
  "zip_sized fs f e \<longleftrightarrow> length (zip_bytes fs f e) = unat (pk3_compressed_size e)"

lemma unat_u32_add: "unat (x :: u32) + n \<le> UINT32_MAX \<Longrightarrow> unat (x + of_nat n) = unat x + n"
  by (simp add: UINT32_MAX_def unat_word_ariths unat_of_nat_u32)

lemma moved_payload:
  assumes "zip_kind_wf e" "unat p + zip_extent e \<le> UINT32_MAX"
  shows "unat (pk3_payload_offset (pk3_moved e p)) = unat p + PK3_LFH_SIZE + length (filename e)"
    "unat (pk3_payload_offset (pk3_moved e p) + pk3_compressed_size e) = unat p + zip_extent e"
proof -
  have u: "ucast (pk3_name_len e) = (of_nat (length (filename e)) :: u32)"
    using name_len_kind [OF assms(1)] by (metis of_nat_unat)
  have p: "pk3_payload_offset (pk3_moved e p) = p + of_nat (PK3_LFH_SIZE + length (filename e))"
    by (simp add: pk3_moved_def Let_def u add.assoc)
  show "unat (pk3_payload_offset (pk3_moved e p)) = unat p + PK3_LFH_SIZE + length (filename e)"
    unfolding p using assms(2) by (subst unat_u32_add) (simp_all add: zip_extent_def)
  have "pk3_payload_offset (pk3_moved e p) + pk3_compressed_size e = p + of_nat (zip_extent e)"
    unfolding p zip_extent_def by (simp add: add.assoc)
  then show "unat (pk3_payload_offset (pk3_moved e p) + pk3_compressed_size e) = unat p + zip_extent e"
    using assms(2) by (simp add: unat_u32_add del: of_nat_add)
qed

lemma zip_extent_local: "zip_sized fs f e \<Longrightarrow> length (zip_local fs f e) = zip_extent e"
  by (simp add: zip_local_def zip_extent_def zip_sized_def)

lemma rebuild_loop_OK:
  "pk3_rebuild_loop env fs moved cur es ffd t = (PAKKA_OK, cur', es', ffd', t') \<Longrightarrow>
   f_data ffd = f_data f \<Longrightarrow> \<forall>e \<in> set es. zip_kind_wf e \<and> (is_staged e \<longrightarrow> zip_staged_wf e) \<Longrightarrow>
   es' = moved @ zip_place (unat cur) es \<and> t' = f_put t (zip_blob fs f es)
     \<and> unat cur' = unat cur + length (zip_blob fs f es) \<and> list_all (zip_sized fs f) es
     \<and> zip_sources_ok fs es \<and> f_data ffd' = f_data f"
proof (induction es arbitrary: moved cur ffd t)
  case Nil
  then show ?case by (simp add: zip_blob_def zip_sources_ok_def)
next
  case (Cons e es)
  have k: "zip_kind_wf e" "is_staged e \<Longrightarrow> zip_staged_wf e" using Cons.prems(3) by auto
  note nl = name_len_kind [OF k(1)]
  obtain ok t1 where w: "andthen (fwrite_all t (pk3_lfh_of e)) (\<lambda>t. fwrite_all t (filename e)) = (ok, t1)"
    by fastforce
  obtain s ffd1 t2 where c: "pk3_copy_payload env fs e ffd t1 = (s, ffd1, t2)" using prod_cases3 by blast
  let ?e = "pk3_moved e cur"
  have fit: "unat cur + zip_extent e \<le> UINT32_MAX" and ok: "ok" and s: "s = PAKKA_OK"
    and r: "pk3_rebuild_loop env fs (moved @ [?e]) (pk3_payload_offset ?e + pk3_compressed_size e) es ffd1 t2
        = (PAKKA_OK, cur', es', ffd', t')"
    using Cons.prems(1) w c by (auto simp: nl zip_extent_def Let_def add.assoc split: if_splits)
  from w ok have t1: "t1 = f_put t (pk3_lfh_of e @ filename e)" by (simp add: andthen_writes)
  note C = pk3_copy_payload_OK [OF c [unfolded s] k(2)]
  have sb: "zip_bytes fs ffd e = zip_bytes fs f e" by (rule zip_bytes_data [OF Cons.prems(2)])
  have t2: "t2 = f_put t (zip_local fs f e)"
    using C by (simp add: sb t1 f_put_append [symmetric] zip_local_def)
  have sz: "zip_sized fs f e" using C by (simp add: zip_sized_def sb)
  have d: "f_data ffd1 = f_data f" using C Cons.prems(2) by simp
  note m = moved_payload [OF k(1) fit]
  from Cons.IH [OF r d] Cons.prems(3)
  have IH: "es' = (moved @ [?e]) @ zip_place (unat cur + zip_extent e) es" "t' = f_put t2 (zip_blob fs f es)"
    "unat cur' = unat cur + zip_extent e + length (zip_blob fs f es)" "list_all (zip_sized fs f) es"
    "zip_sources_ok fs es" "f_data ffd' = f_data f"
    by (simp_all add: m(2))
  have "zip_sources_ok fs (e # es)" using IH(5) C by (auto simp: zip_sources_ok_def zip_bytes_def)
  with IH sz show ?case
    by (simp add: t2 zip_blob_def zip_extent_local f_put_append [symmetric])
qed

text \<open>On any branch only the offsets change.\<close>

definition entry_core :: "pentry \<Rightarrow> pentry" where
  "entry_core e = e\<lparr>pk3_lfh_offset := 0, pk3_payload_offset := 0, offset := 0\<rparr>"

lemma entry_core_moved [simp]: "entry_core (pk3_moved e p) = entry_core e"
  by (simp add: entry_core_def pk3_moved_def Let_def)

lemma rebuild_loop_frame:
  "pk3_rebuild_loop env fs moved cur es ffd t = (s, cur', es', ffd', t') \<Longrightarrow>
   f_data ffd' = f_data ffd \<and> length es' = length moved + length es
   \<and> map entry_core es' = map entry_core (moved @ es)"
proof (induction es arbitrary: moved cur ffd t)
  case (Cons e es)
  obtain ok t1 where w: "andthen (fwrite_all t (pk3_lfh_of e)) (\<lambda>t. fwrite_all t (take (unat (pk3_name_len e)) (filename e))) = (ok, t1)"
    by fastforce
  obtain s1 ffd1 t2 where c: "pk3_copy_payload env fs e ffd t1 = (s1, ffd1, t2)" using prod_cases3 by blast
  let ?e = "pk3_moved e cur"
  consider (stop) "es' = moved @ e # es" "ffd' = ffd \<or> ffd' = ffd1"
    | (go) "pk3_rebuild_loop env fs (moved @ [?e]) (pk3_payload_offset ?e + pk3_compressed_size ?e) es ffd1 t2
        = (s, cur', es', ffd', t')"
    using Cons.prems w c by (auto simp: Let_def split: if_splits)
  then show ?case
  proof cases
    case stop
    with pk3_copy_payload_frame [OF c] show ?thesis by auto
  next
    case go
    with Cons.IH [OF go] pk3_copy_payload_frame [OF c] show ?thesis by simp
  qed
qed simp

end
