(* ===== verification/Zip_Commit.thy ===== *)
theory Zip_Commit
  imports Zip_State
begin

text \<open>
  What a commit of a ZIP archive does: a rebuild that succeeds writes an image of the entries, with the
  names, checksums, sizes and stored bytes they had; one that fails before the rename leaves the archive
  file as it was and puts the offsets in the handle back.
\<close>

section \<open>The directory on disk\<close>

definition zip_row :: "pentry \<Rightarrow> u8 list" where
  "zip_row e = pk3_cdr_of e @ filename e"

definition zip_rows :: "pentry list \<Rightarrow> u8 list" where
  "zip_rows es = concat (map zip_row es)"

lemma zip_rows_simps [simp]: "zip_rows [] = []" "zip_rows (e # es) = pk3_cdr_of e @ filename e @ zip_rows es"
  by (simp_all add: zip_rows_def zip_row_def)

lemma write_cdr_OK:
  "pk3_write_cdr es sz count f = (True, sz', count', f') \<Longrightarrow> \<forall>e \<in> set es. zip_kind_wf e \<Longrightarrow>
   f' = f_put f (zip_rows es) \<and> sz' = sz + of_nat (length (zip_rows es)) \<and> count' = count + of_nat (length es)"
proof (induction es arbitrary: sz count f)
  case (Cons e es)
  have nl: "unat (pk3_name_len e) = length (filename e)" using Cons.prems(2) by (auto intro: name_len_kind)
  have u: "ucast (pk3_name_len e) = (of_nat (length (filename e)) :: u32)" using nl by (metis of_nat_unat)
  obtain ok f1 where w: "andthen (fwrite_all f (pk3_cdr_of e)) (\<lambda>t. fwrite_all t (filename e)) = (ok, f1)"
    by fastforce
  with Cons.prems(1) have ok: "ok" and r: "pk3_write_cdr es (sz + of_nat PK3_CDR_SIZE + of_nat (length (filename e)))
      (count + 1) f1 = (True, sz', count', f')"
    by (auto simp: nl u split: if_splits)
  have "f1 = f_put f (pk3_cdr_of e @ filename e)" using w ok by (simp add: andthen_writes)
  with Cons.IH [OF r] Cons.prems(2) show ?case by (simp add: f_put_append ac_simps)
qed simp

lemma cdr_fits: "\<not> pk3_cdr_too_large tot es \<Longrightarrow> es \<noteq> [] \<Longrightarrow> tot + length (zip_rows es) \<le> UINT32_MAX"
proof (induction es arbitrary: tot)
  case (Cons e es)
  then show ?case
    using Cons.IH [of "tot + (PK3_CDR_SIZE + length (filename e))"] by (cases "es = []") (auto simp: Let_def add.assoc)
qed simp

lemma write_trailer_OK:
  assumes w: "pk3_write_trailer es c f = (True, sz, f')" and k: "\<forall>e \<in> set es. zip_kind_wf e"
    and fit: "length (zip_rows es) \<le> UINT32_MAX" and n: "length es \<le> 0xFFFF"
  shows "f' = f_put f (zip_rows es @ pk3_build_eocd c (of_nat (length (zip_rows es))) (of_nat (length es)))
    \<and> unat sz = length (zip_rows es)"
proof -
  obtain ok sz1 count f1 where d: "pk3_write_cdr es 0 0 f = (ok, sz1, count, f1)" using prod_cases4 by blast
  with w have ok: "ok" by (auto simp: pk3_write_trailer_def split: if_splits)
  note D = write_cdr_OK [OF d [unfolded ok [THEN eqTrueI]] k]
  have "(ucast (of_nat (length es) :: u32) :: u16) = of_nat (length es)"
    using n by (simp add: unsigned_of_nat take_bit_nat_eq_self)
  with w d ok D have "f' = f_put f1 (pk3_build_eocd c (of_nat (length (zip_rows es))) (of_nat (length es)))" "sz = sz1"
    by (auto simp: pk3_write_trailer_def fwrite_all_True split: prod.splits)
  with D fit show ?thesis by (simp add: f_put_append UINT32_MAX_def unat_of_nat_u32)
qed

section \<open>Images\<close>

text \<open>The local header, name and payload of an entry are where its offsets say, before the directory.\<close>

definition zip_local_at :: "u8 list \<Rightarrow> nat \<Rightarrow> pentry \<Rightarrow> bool" where
  "zip_local_at b c e \<longleftrightarrow> holds_at b (unat (pk3_lfh_offset e)) (pk3_lfh_of e @ filename e)
     \<and> unat (pk3_payload_offset e) = unat (pk3_lfh_offset e) + PK3_LFH_SIZE + length (filename e)
     \<and> unat (pk3_payload_offset e) + unat (pk3_compressed_size e) \<le> c
     \<and> offset e = pk3_payload_offset e"

text \<open>The bytes are an image of the entries with the directory at \<open>c\<close>.\<close>

definition zip_image :: "pentry list \<Rightarrow> nat \<Rightarrow> u8 list \<Rightarrow> bool" where
  "zip_image es c b \<longleftrightarrow> c + length (zip_rows es) + PK3_EOCD_SIZE \<le> UINT32_MAX
     \<and> (\<exists>blob. length blob = c
          \<and> b = blob @ zip_rows es @ pk3_build_eocd (of_nat c) (of_nat (length (zip_rows es))) (of_nat (length es)))
     \<and> (\<forall>e \<in> set es. zip_local_at b c e)
     \<and> (es = [] \<longrightarrow> c = 0) \<and> (es \<noteq> [] \<longrightarrow> (\<exists>e \<in> set es. pk3_lfh_offset e = 0))"

lemma length_eocd [simp]: "length (pk3_build_eocd x y z) = PK3_EOCD_SIZE"
  by (simp add: pk3_build_eocd_def PK3_EOCD_SIZE_def PK3_EOCD_SIGNATURE_def)

lemma eocd_not_Nil [simp]: "pk3_build_eocd x y z \<noteq> []"
  by (simp add: pk3_build_eocd_def PK3_EOCD_SIGNATURE_def)

lemma zip_image_length: "zip_image es c b \<Longrightarrow> length b = c + length (zip_rows es) + PK3_EOCD_SIZE"
  by (auto simp: zip_image_def)

lemma local_at_placed:
  assumes l: "zip_local_at b c e" and k: "zip_kind_wf e"
  shows "placed b c e"
proof -
  have "pk3_lfh_of e = PK3_LFH_SIGNATURE @ drop 4 (pk3_lfh_of e)"
    by (simp add: pk3_lfh_of_def pk3_build_lfh_def PK3_LFH_SIGNATURE_def)
  with l have "holds_at b (unat (pk3_lfh_offset e)) PK3_LFH_SIGNATURE"
    unfolding zip_local_at_def by (metis holds_at_append)
  with l k show ?thesis by (simp add: zip_local_at_def placed_def zip_kind_wf_def)
qed

lemma clear_zip_simps [simp]:
  "pk3_lfh_of (clear_pending e) = pk3_lfh_of e" "pk3_cdr_of (clear_pending e) = pk3_cdr_of e"
  "zip_kind_wf (clear_pending e) = zip_kind_wf e" "zip_local_at b c (clear_pending e) = zip_local_at b c e"
  "pk3_lfh_of (pk3_moved e p) = pk3_lfh_of e" "zip_kind_wf (pk3_moved e p) = zip_kind_wf e"
  "placed b c (clear_pending e) = placed b c e"
  by (simp_all add: clear_pending_def pk3_lfh_of_def pk3_cdr_of_def zip_kind_wf_def zip_local_at_def
      placed_def pk3_name_len_def)

lemma zip_rows_clear [simp]: "zip_rows (map clear_pending es) = zip_rows es"
  by (induction es) simp_all

lemma place_kind: "\<forall>e \<in> set es. zip_kind_wf e \<Longrightarrow> \<forall>e \<in> set (zip_place p es). zip_kind_wf e"
  by (induction es arbitrary: p) auto

text \<open>The entries laid out behind \<open>pre\<close> lie in the bytes as they were placed.\<close>

lemma place_local:
  assumes "\<forall>e \<in> set es. zip_kind_wf e" "list_all (zip_sized fs f) es" "p = length pre"
    "p + length (zip_blob fs f es) \<le> UINT32_MAX" "b = pre @ zip_blob fs f es @ rest"
  shows "\<forall>e \<in> set (zip_place p es). zip_local_at b (p + length (zip_blob fs f es)) e"
    "f_data g = b \<Longrightarrow> map (\<lambda>e. zip_view gs g (clear_pending e)) (zip_place p es) = map (zip_view fs f) es"
proof -
  have "(\<forall>e \<in> set (zip_place p es). zip_local_at b (p + length (zip_blob fs f es)) e) \<and>
    (f_data g = b \<longrightarrow> map (\<lambda>e. zip_view gs g (clear_pending e)) (zip_place p es) = map (zip_view fs f) es)"
    using assms
  proof (induction es arbitrary: p pre)
    case (Cons e es)
    let ?e = "pk3_moved e (of_nat p)" and ?q = "p + zip_extent e" and ?B = "zip_blob fs f es"
    have k: "zip_kind_wf e" and sz: "zip_sized fs f e" using Cons.prems(1,2) by auto
    note xl = zip_extent_local [OF sz]
    have bl: "zip_blob fs f (e # es) = zip_local fs f e @ ?B" by (simp add: zip_blob_def)
    have lb: "length (zip_blob fs f (e # es)) = zip_extent e + length ?B" by (simp add: bl xl)
    have fit: "p + zip_extent e \<le> UINT32_MAX" using Cons.prems(4) by (simp add: lb)
    then have up: "unat (of_nat p :: u32) = p" by (simp add: UINT32_MAX_def unat_of_nat_u32)
    have pay: "unat (pk3_payload_offset ?e) = p + PK3_LFH_SIZE + length (filename e)"
      using moved_payload(1) [OF k, of "of_nat p"] fit up by simp
    have b: "b = pre @ (pk3_lfh_of e @ filename e) @ (zip_bytes fs f e @ ?B @ rest)"
      using Cons.prems(5) by (simp add: bl zip_local_def)
    have at: "zip_local_at b (p + length (zip_blob fs f (e # es))) ?e"
      using pay up Cons.prems(3) holds_at_self [of pre "pk3_lfh_of e @ filename e" "zip_bytes fs f e @ ?B @ rest"]
      by (simp add: zip_local_at_def up lb zip_extent_def b)
    have vw: "zip_view gs g (clear_pending ?e) = zip_view fs f e" if "f_data g = b"
    proof -
      have "drop (unat (pk3_payload_offset ?e)) b = zip_bytes fs f e @ ?B @ rest"
        unfolding pay b using Cons.prems(3) by simp
      then show ?thesis using sz that
        by (simp add: zip_view_def zip_bytes_def [of gs] clear_pending_def zip_sized_def)
    qed
    have q: "?q = length (pre @ zip_local fs f e)" using Cons.prems(3) by (simp add: xl)
    have "?q + length ?B \<le> UINT32_MAX" using Cons.prems(4) by (simp add: lb)
    moreover have "b = (pre @ zip_local fs f e) @ ?B @ rest" using Cons.prems(5) by (simp add: bl)
    ultimately have IH: "\<forall>e \<in> set (zip_place ?q es). zip_local_at b (?q + length ?B) e"
      "f_data g = b \<Longrightarrow> map (\<lambda>e. zip_view gs g (clear_pending e)) (zip_place ?q es) = map (zip_view fs f) es"
      using Cons.IH [OF _ _ q] Cons.prems(1,2) by auto
    from IH at vw show ?case by (simp add: lb add.assoc)
  qed simp
  then show "\<forall>e \<in> set (zip_place p es). zip_local_at b (p + length (zip_blob fs f es)) e"
    "f_data g = b \<Longrightarrow> map (\<lambda>e. zip_view gs g (clear_pending e)) (zip_place p es) = map (zip_view fs f) es"
    by blast+
qed


section \<open>Rolling back\<close>

lemma entry_core_restore: "entry_core d = entry_core e \<Longrightarrow>
  d\<lparr>pk3_lfh_offset := x, pk3_payload_offset := y, offset := z\<rparr> = e\<lparr>pk3_lfh_offset := x, pk3_payload_offset := y, offset := z\<rparr>"
  by (cases d; cases e) (simp add: entry_core_def)

lemma rollback_entries:
  "map entry_core es' = map entry_core es \<Longrightarrow>
   map2 (\<lambda>e (lfh, payload, off). e\<lparr>pk3_lfh_offset := lfh, pk3_payload_offset := payload, offset := off\<rparr>) es'
     (map (\<lambda>e. (pk3_lfh_offset e, pk3_payload_offset e, offset e)) es) = es"
proof (induction es' es rule: list_induct2')
  case (4 d ds e es)
  have "e\<lparr>pk3_lfh_offset := pk3_lfh_offset e, pk3_payload_offset := pk3_payload_offset e, offset := offset e\<rparr> = e"
    by (cases e) simp
  with 4 entry_core_restore [of d e] show ?case by simp
qed simp_all

section \<open>The outcomes of a rebuild\<close>

definition zip_relaid :: "archive \<Rightarrow> u32 \<Rightarrow> archive" where
  "zip_relaid a cdr = a\<lparr>entries := map clear_pending (zip_place 0 (entries a)), pk3_cdr_offset := cdr,
     dirty := False, needs_rebuild := False\<rparr>"

text \<open>The new archive is in place.\<close>

definition zip_done :: "env \<Rightarrow> files \<Rightarrow> archive \<Rightarrow> cfile \<Rightarrow> status \<Rightarrow> archive \<Rightarrow> files \<Rightarrow> bool" where
  "zip_done env fs a f s a' fs' \<longleftrightarrow> (\<exists>c b. fs' (pak_path a) = Some (Regular b)
     \<and> zip_image (entries (zip_relaid a c)) (unat c) b
     \<and> (\<forall>g gs. f_data g = b \<longrightarrow> zip_archive_wf (zip_relaid a c\<lparr>fp := Some g\<rparr>)
          \<and> zip_listing gs g (zip_relaid a c) = zip_listing fs f a)
     \<and> (case pakka_platform_fopen env fs' (pak_path a) True of
          None \<Rightarrow> s = PAKKA_ERR_IO \<and> a' = zip_relaid a c\<lparr>fp := None\<rparr>
        | Some g \<Rightarrow> s = PAKKA_OK \<and> a' = zip_relaid a c\<lparr>fp := Some g, file_size := of_nat (length b)\<rparr> \<and> f_data g = b))"


lemma rollback_undo:
  assumes "map entry_core es' = map entry_core (entries a)"
  shows "pk3_rebuild_rollback_offsets (a\<lparr>entries := es', pk3_cdr_offset := c, fp := x\<rparr>)
      (map (\<lambda>e. (pk3_lfh_offset e, pk3_payload_offset e, offset e)) (entries a)) (pk3_cdr_offset a) = a\<lparr>fp := x\<rparr>"
  using rollback_entries [OF assms] by (simp add: pk3_rebuild_rollback_offsets_def)

lemma place_core: "map entry_core (zip_place p es) = map entry_core es"
  by (rule zip_place_map) simp

lemma relaid_image:
  assumes wf: "zip_archive_wf a" and sz: "list_all (zip_sized fs f) (entries a)"
    and c: "unat c = length (zip_blob fs f (entries a))"
    and fit: "unat c + length (zip_rows (zip_place 0 (entries a))) + PK3_EOCD_SIZE \<le> UINT32_MAX"
    and b: "b = zip_blob fs f (entries a) @ zip_rows (zip_place 0 (entries a)) @ pk3_build_eocd c
        (of_nat (length (zip_rows (zip_place 0 (entries a))))) (of_nat (length (entries a)))"
  shows "zip_image (entries (zip_relaid a c)) (unat c) b
    \<and> (\<forall>g gs. f_data g = b \<longrightarrow> zip_archive_wf (zip_relaid a c\<lparr>fp := Some g\<rparr>)
         \<and> zip_listing gs g (zip_relaid a c) = zip_listing fs f a)"
proof -
  let ?es = "entries a" and ?ps = "zip_place 0 (entries a)"
  define rest where "rest = zip_rows ?ps @ pk3_build_eocd c (of_nat (length (zip_rows ?ps))) (of_nat (length ?es))"
  have k: "\<forall>e \<in> set ?es. zip_kind_wf e" using wf by (simp add: zip_archive_wf_def)
  have b2: "b = [] @ zip_blob fs f ?es @ rest" by (simp add: b rest_def)
  have f0: "0 + length (zip_blob fs f ?es) \<le> UINT32_MAX" using fit c by simp
  note L = place_local [OF k sz list.size(3) [symmetric] f0 b2]
  have at: "\<forall>e \<in> set ?ps. zip_local_at b (unat c) e" using L(1) c by simp
  have oc: "of_nat (length (zip_blob fs f ?es)) = c" unfolding c [symmetric] by simp
  have z: "?es = [] \<longrightarrow> unat c = 0" using c by (simp add: zip_blob_def)
  have hd0: "?es \<noteq> [] \<longrightarrow> (\<exists>e \<in> set (map clear_pending ?ps). pk3_lfh_offset e = 0)"
    by (cases ?es) (simp_all add: clear_pending_def)
  have "\<exists>blob. length blob = unat c \<and> b = blob @ zip_rows (map clear_pending ?ps)
      @ pk3_build_eocd (of_nat (unat c)) (of_nat (length (zip_rows (map clear_pending ?ps)))) (of_nat (length (map clear_pending ?ps)))"
    using c by (intro exI [of _ "zip_blob fs f ?es"]) (simp add: b oc)
  then have im: "zip_image (map clear_pending ?ps) (unat c) b"
    unfolding zip_image_def using fit at z hd0 by (simp, cases ?es) simp_all
  have lb: "unat c \<le> length b" using c by (simp add: b)
  have wf': "zip_archive_wf (zip_relaid a c\<lparr>fp := Some g\<rparr>)" if g: "f_data g = b" for g
  proof -
    have "names_distinct (map clear_pending ?ps)"
      using wf zip_place_map [of filename 0 ?es] by (simp add: zip_archive_wf_def names_distinct_def comp_def)
    moreover have "\<forall>e \<in> set ?ps. zip_kind_wf e \<and> placed b (unat c) e"
      using at place_kind [OF k] local_at_placed by blast
    ultimately show ?thesis
      using wf g lb by (simp add: zip_archive_wf_def zip_relaid_def)
  qed
  have "zip_listing gs g (zip_relaid a c) = zip_listing fs f a" if "f_data g = b" for g gs
    using L(2) [OF that, of gs] by (simp add: zip_listing_def zip_relaid_def comp_def)
  with im wf' show ?thesis by (simp add: zip_relaid_def)
qed


lemma pk3_publish_cases:
  assumes wf: "zip_archive_wf a" and n: "length (entries a) \<le> 0xFFFF"
    and sz: "list_all (zip_sized fs f) (entries a)" and cur: "unat cur = length (zip_blob fs f (entries a))"
    and t: "t = f_put (stream_of l []) (zip_blob fs f (entries a))"
    and d: "f_data ffd = f_data f" and ne: "tmp \<noteq> pak_path a"
    and undo: "undo = (\<lambda>x. pk3_rebuild_rollback_offsets x
        (map (\<lambda>e. (pk3_lfh_offset e, pk3_payload_offset e, offset e)) (entries a)) (pk3_cdr_offset a))"
    and r: "pk3_rebuild_publish env fs1 (a\<lparr>entries := zip_place 0 (entries a), pk3_cdr_offset := cur\<rparr>) undo ffd tmp
        (pak_path a) t = (s, a', fs')"
  shows "rebuild_kept a f s a' \<and> (\<forall>q. q \<noteq> tmp \<longrightarrow> fs' q = fs1 q)
    \<or> rename_refused env a s a' fs' \<and> (\<forall>q. q \<noteq> tmp \<longrightarrow> fs' q = snd (publish env fs1 (pak_path a) ffd) q)
    \<or> zip_done env fs a f s a' fs' \<and> (\<forall>q. q \<noteq> tmp \<longrightarrow> q \<noteq> pak_path a \<longrightarrow> fs' q = fs1 q)"
proof -
  let ?es = "entries a" and ?ps = "zip_place 0 (entries a)" and ?tg = "pak_path a"
  let ?a1 = "a\<lparr>entries := ?ps, pk3_cdr_offset := cur\<rparr>"
  have u: "(undo ?a1)\<lparr>fp := x\<rparr> = a\<lparr>fp := x\<rparr>" "undo (?a1\<lparr>fp := None\<rparr>)\<lparr>fp := x\<rparr> = a\<lparr>fp := x\<rparr>" for x
    using rollback_entries [OF place_core [of 0 ?es]] by (simp_all add: undo pk3_rebuild_rollback_offsets_def)
  have kept: "rebuild_kept a f s ((undo ?a1)\<lparr>fp := Some ffd\<rparr>)" if "s \<noteq> PAKKA_OK"
    using that d by (auto simp: u rebuild_kept_def)
  show ?thesis
  proof (cases "pk3_cdr_too_large (unat cur + PK3_EOCD_SIZE) ?ps")
    case True
    with r kept show ?thesis by (auto simp: pk3_rebuild_publish_def Let_def drop_scratch_other)
  next
    case False
    have fit: "unat cur + length (zip_rows ?ps) + PK3_EOCD_SIZE \<le> UINT32_MAX"
    proof (cases "?es = []")
      case True
      then show ?thesis using cur by (simp add: zip_blob_def PK3_EOCD_SIZE_def UINT32_MAX_def)
    next
      case ne: False
      then have "?ps \<noteq> []" by (cases ?es) simp_all
      from cdr_fits [OF False this] show ?thesis by simp
    qed
    obtain ok sz1 t1 where w: "pk3_write_trailer ?ps cur t = (ok, sz1, t1)" using prod_cases3 by blast
    obtain fl fs2 where p2: "publish env fs1 tmp t1 = (fl, fs2)" by fastforce
    obtain cl fs3 where p3: "publish env fs2 tmp t1 = (cl, fs3)" by fastforce
    have o2: "fs2 q = fs1 q" "fs3 q = fs1 q" if "q \<noteq> tmp" for q
      using publish_other [OF p2 that] publish_other [OF p3 that] by simp_all
    have r1: "(s, a', fs') = (if \<not> ok then (PAKKA_ERR_IO, (undo ?a1)\<lparr>fp := Some ffd\<rparr>, drop_scratch env fs1 tmp t1)
        else if \<not> fl then (PAKKA_ERR_IO, (undo ?a1)\<lparr>fp := Some ffd\<rparr>, drop_scratch env fs2 tmp t1)
        else if \<not> cl \<or> e_fault env Fault_commit_fclose_tmp
        then (PAKKA_ERR_IO, (undo ?a1)\<lparr>fp := Some ffd\<rparr>, pakka_platform_remove env fs3 tmp)
        else pk3_rebuild_rename env fs3 ?a1 undo ffd tmp ?tg sz1)"
      using r [symmetric] False w p2 p3 by (cases ok; cases fl) (simp_all add: pk3_rebuild_publish_def Let_def split del: if_split)
    show ?thesis
    proof (cases "ok \<and> fl \<and> cl \<and> \<not> e_fault env Fault_commit_fclose_tmp")
      case F: False
      with r1 have "s \<noteq> PAKKA_OK" "a' = (undo ?a1)\<lparr>fp := Some ffd\<rparr>" "\<forall>q. q \<noteq> tmp \<longrightarrow> fs' q = fs1 q"
        using o2 by (auto simp: drop_scratch_other split: if_splits)
      with kept show ?thesis by blast
    next
      case True
      then have r2: "pk3_rebuild_rename env fs3 ?a1 undo ffd tmp ?tg sz1 = (s, a', fs')" using r1 by simp
      have kp: "\<forall>e \<in> set ?ps. zip_kind_wf e" using wf by (intro place_kind) (simp add: zip_archive_wf_def)
      have "length (zip_rows ?ps) \<le> UINT32_MAX" using fit by simp
      from write_trailer_OK [OF w [simplified True] kp this] n True
      have W: "t1 = f_put t (zip_rows ?ps @ pk3_build_eocd cur (of_nat (length (zip_rows ?ps))) (of_nat (length ?es)))"
        "unat sz1 = length (zip_rows ?ps)" by simp_all
      define b where "b = f_data t1"
      have b: "b = zip_blob fs f ?es @ zip_rows ?ps @ pk3_build_eocd cur (of_nat (length (zip_rows ?ps))) (of_nat (length ?es))"
        by (simp add: b_def W(1) t f_put_append [symmetric] splice_def)
      note I = relaid_image [OF wf sz cur fit b]
      have lb: "length b = unat cur + length (zip_rows ?ps) + PK3_EOCD_SIZE" using cur by (simp add: b)
      have fsz: "ucast cur + ucast sz1 + of_nat PK3_EOCD_SIZE = (of_nat (length b) :: u64)"
        by (simp add: lb W(2) [symmetric])
      obtain oc fs4 where p4: "publish env fs3 ?tg ffd = (oc, fs4)" by fastforce
      have sc: "fs3 tmp = Some (Regular b)" using publish_ok [of env fs2 tmp t1 fs3] p3 True by (simp add: b_def)
      have s4: "fs4 tmp = Some (Regular b)" using publish_other [OF p4 ne] sc by simp
      have o4: "fs4 q = snd (publish env fs1 ?tg ffd) q" if "q \<noteq> tmp" for q
        using p4 o2(2) [OF that] o2(2) [OF ne [symmetric]] by (auto simp: publish_def file_bytes_def)
      have q4: "fs4 q = fs1 q" if "q \<noteq> tmp" "q \<noteq> ?tg" for q
        using publish_other [OF p4 that(2)] o2(2) [OF that(1)] by simp
      let ?ok = "oc \<and> \<not> e_fault env Fault_commit_fclose_orig \<and> \<not> e_fault env Fault_commit_rename \<and> e_rename env tmp ?tg"
      show ?thesis
      proof (cases ?ok)
        case False
        then have "(s, a', fs') = (PAKKA_ERR_IO, (undo (?a1\<lparr>fp := None\<rparr>))\<lparr>fp := pakka_platform_fopen env
            (pakka_platform_remove env fs4 tmp) ?tg True\<rparr>, pakka_platform_remove env fs4 tmp)"
          using r2 s4 by (auto simp: pk3_rebuild_rename_def p4 Let_def pakka_platform_rename_replace_def split: if_splits)
        then have "rename_refused env a s a' fs'" "\<forall>q. q \<noteq> tmp \<longrightarrow> fs' q = fs4 q"
          by (auto simp: rename_refused_def u(2))
        then show ?thesis using o4 by auto
      next
        case ok: True
        define fs5 where "fs5 = fs4(?tg := Some (Regular b), tmp := None)"
        have rn: "pakka_platform_rename_replace env fs4 tmp ?tg = (True, fs5)"
          using ok s4 ne by (simp add: pakka_platform_rename_replace_def fs5_def)
        have f5: "fs5 ?tg = Some (Regular b)" using ne by (simp add: fs5_def)
        have c: "(?a1\<lparr>fp := None, entries := map clear_pending ?ps, dirty := False, needs_rebuild := False\<rparr>)
            = zip_relaid a cur\<lparr>fp := None\<rparr>" by (simp add: zip_relaid_def)
        have res: "(s, a', fs') = (case pakka_platform_fopen env fs5 ?tg True of
            None \<Rightarrow> (PAKKA_ERR_IO, zip_relaid a cur\<lparr>fp := None\<rparr>, fs5)
          | Some h \<Rightarrow> (PAKKA_OK, zip_relaid a cur\<lparr>fp := Some h, file_size := of_nat (length b)\<rparr>, fs5))"
          using r2 ok by (auto simp: pk3_rebuild_rename_def p4 Let_def rn fsz zip_relaid_def split: option.splits)
        then have fs': "fs' = fs5" by (simp split: option.splits)
        have dat: "f_data h = b" if "pakka_platform_fopen env fs5 ?tg True = Some h" for h
          using that f5 by (auto simp: pakka_platform_fopen_def)
        have "case pakka_platform_fopen env fs5 ?tg True of
            None \<Rightarrow> s = PAKKA_ERR_IO \<and> a' = zip_relaid a cur\<lparr>fp := None\<rparr>
          | Some g \<Rightarrow> s = PAKKA_OK \<and> a' = zip_relaid a cur\<lparr>fp := Some g, file_size := of_nat (length b)\<rparr> \<and> f_data g = b"
          using res dat by (cases "pakka_platform_fopen env fs5 ?tg True") simp_all
        then have "zip_done env fs a f s a' fs'" using f5 I unfolding zip_done_def fs' by blast
        moreover have "fs' q = fs1 q" if "q \<noteq> tmp" "q \<noteq> ?tg" for q
          using q4 [OF that] that by (simp add: fs' fs5_def)
        ultimately show ?thesis by blast
      qed
    qed
  qed
qed


lemma zip_done_files:
  assumes "\<And>q. file_bytes gs q = file_bytes fs q" "zip_done env gs a f s a' fs'"
  shows "zip_done env fs a f s a' fs'"
proof -
  have "zip_view gs f e = zip_view fs f e" for e using zip_bytes_files [OF assms(1)] by (simp add: zip_view_def)
  then have "zip_listing gs f a = zip_listing fs f a" by (simp add: zip_listing_def)
  with assms(2) show ?thesis by (simp add: zip_done_def)
qed

lemma zip_archive_wf_staged: "zip_archive_wf a \<Longrightarrow> \<forall>e \<in> set (entries a). zip_kind_wf e \<and> (is_staged e \<longrightarrow> zip_staged_wf e)"
  by (auto simp: zip_archive_wf_def split: if_splits)

lemma pk3_rebuild_cases:
  assumes wf: "zip_archive_wf a" and fp: "fp a = Some f" and fr: "mkstemp_fresh env" and ex: "fs (pak_path a) \<noteq> None"
    and n: "length (entries a) \<le> 0xFFFF" and r: "pk3_commit_rebuild env fs a f = (s, a', fs')"
  shows "rebuild_kept a f s a' \<and> untouched fs fs'
    \<or> rename_refused env a s a' fs' \<and> (\<exists>g fs1. f_data g = f_data f \<and> untouched fs fs1
        \<and> (\<forall>q. fs q \<noteq> None \<longrightarrow> fs' q = snd (publish env fs1 (pak_path a) g) q))
    \<or> zip_done env fs a f s a' fs' \<and> (\<exists>fs1. untouched fs fs1 \<and> (\<forall>q. file_bytes fs1 q = file_bytes fs q)
        \<and> zip_sources_ok fs1 (entries a))
      \<and> (\<forall>q. q \<noteq> pak_path a \<longrightarrow> fs q \<noteq> None \<longrightarrow> fs' q = fs q)"
proof -
  let ?tg = "pak_path a"
  define undo where "undo = (\<lambda>x. pk3_rebuild_rollback_offsets x
      (map (\<lambda>e. (pk3_lfh_offset e, pk3_payload_offset e, offset e)) (entries a)) (pk3_cdr_offset a))"
  have same: "rebuild_kept a f s a" "rebuild_kept a f s (a\<lparr>fp := Some g\<rparr>)" if "s \<noteq> PAKKA_OK" "f_data g = f_data f" for g
    using that fp_update_id [OF fp] unfolding rebuild_kept_def by metis+
  show ?thesis
  proof (cases "entries a \<noteq> [] \<and> e_oom env A_rollback")
    case True
    with r have "s \<noteq> PAKKA_OK" "a' = a" "fs' = fs" by (auto simp: pk3_commit_rebuild_def)
    with same(1) [of f] show ?thesis by (simp add: untouched_def)
  next
    case nb: False
    obtain m fs1 where mk: "pakka_platform_mkstemp_open env fs ?tg (ascii ''pakkaXXXXXX'') = (m, fs1)" by fastforce
    show ?thesis
    proof (cases m)
      case None
      with r nb mk have "s \<noteq> PAKKA_OK" "a' = a" "fs' = fs1" by (auto simp: pk3_commit_rebuild_def Let_def)
      moreover have "untouched fs fs1"
        using mkstemp_open_NoneD [OF _ fr] mk None by (simp add: untouched_def)
      ultimately show ?thesis using same(1) [of f] by simp
    next
      case (Some st)
      obtain tmp t0 where st: "st = (tmp, t0)" by fastforce
      from mkstemp_open_SomeD [OF mk [unfolded Some st] fr] obtain l where
        M: "fs tmp = None" "t0 = stream_of l []" "untouched fs fs1" by (auto simp: untouched_def)
      have ne: "tmp \<noteq> ?tg" using M(1) ex by auto
      have nsc: "q \<noteq> tmp" if "fs q \<noteq> None" for q using M(1) that by auto
      have fb: "file_bytes fs1 q = file_bytes fs q" for q by (rule mkstemp_open_bytes [OF mk fr])
      have ud: "untouched fs (drop_scratch env fs1 tmp t)" for t
        using M(3) nsc by (simp add: untouched_def drop_scratch_other)
      obtain cs cur es ffd t where lp: "pk3_rebuild_loop env fs1 [] 0 (entries a) f t0 = (cs, cur, es, ffd, t)"
        using prod_cases5 by blast
      have L: "f_data ffd = f_data f" "map entry_core es = map entry_core (entries a)"
        using rebuild_loop_frame [OF lp] by simp_all
      have step: "(s, a', fs') = (if cs \<noteq> PAKKA_OK
          then (cs, (undo (a\<lparr>entries := es\<rparr>))\<lparr>fp := Some ffd\<rparr>, drop_scratch env fs1 tmp t)
          else pk3_rebuild_publish env fs1 (a\<lparr>entries := es, pk3_cdr_offset := cur\<rparr>) undo ffd tmp ?tg t)"
        using r [symmetric] nb mk lp unfolding Some st by (cases cs) (auto simp: pk3_commit_rebuild_def Let_def undo_def)
      show ?thesis
      proof (cases "cs = PAKKA_OK")
        case False
        have "(undo (a\<lparr>entries := es\<rparr>))\<lparr>fp := Some ffd\<rparr> = a\<lparr>fp := Some ffd\<rparr>"
          using rollback_entries [OF L(2)] by (simp add: undo_def pk3_rebuild_rollback_offsets_def)
        with step False have "s \<noteq> PAKKA_OK" "a' = a\<lparr>fp := Some ffd\<rparr>" "fs' = drop_scratch env fs1 tmp t" by simp_all
        with same(2) [OF _ L(1)] ud show ?thesis by simp
      next
        case True
        from rebuild_loop_OK [OF lp [unfolded True] refl zip_archive_wf_staged [OF wf]]
        have R: "es = zip_place 0 (entries a)" "t = f_put t0 (zip_blob fs1 f (entries a))"
          "unat cur = length (zip_blob fs1 f (entries a))" "list_all (zip_sized fs1 f) (entries a)"
          "zip_sources_ok fs1 (entries a)" by simp_all
        have pub: "pk3_rebuild_publish env fs1 (a\<lparr>entries := zip_place 0 (entries a), pk3_cdr_offset := cur\<rparr>)
            undo ffd tmp ?tg t = (s, a', fs')"
          using step True R(1) by simp
        from pk3_publish_cases [OF wf n R(4,3) R(2) [unfolded M(2)] L(1) ne undo_def pub]
        consider (kept) "rebuild_kept a f s a'" "\<forall>q. q \<noteq> tmp \<longrightarrow> fs' q = fs1 q"
          | (refused) "rename_refused env a s a' fs'" "\<forall>q. q \<noteq> tmp \<longrightarrow> fs' q = snd (publish env fs1 ?tg ffd) q"
          | (new) "zip_done env fs1 a f s a' fs'" "\<forall>q. q \<noteq> tmp \<longrightarrow> q \<noteq> ?tg \<longrightarrow> fs' q = fs1 q"
          by blast
        then show ?thesis
        proof cases
          case kept
          with M(3) nsc show ?thesis by (simp add: untouched_def)
        next
          case refused
          then have "\<forall>q. fs q \<noteq> None \<longrightarrow> fs' q = snd (publish env fs1 ?tg ffd) q" using nsc by blast
          with refused(1) L(1) M(3) show ?thesis by blast
        next
          case new
          have "zip_done env fs a f s a' fs'" by (rule zip_done_files [OF fb new(1)])
          moreover have "\<forall>q. q \<noteq> ?tg \<longrightarrow> fs q \<noteq> None \<longrightarrow> fs' q = fs q"
            using new(2) nsc M(3) by (simp add: untouched_def)
          ultimately show ?thesis using M(3) fb R(5) by blast
        qed
      qed
    qed
  qed
qed

section \<open>Commit\<close>

lemma zip_commit_cases:
  assumes wf: "zip_archive_wf a" and fp: "fp a = Some f"
    and r: "pakka_commit (pk3_ops D) env fs (Some a) = (s, Some a', fs')"
  shows "a' = a \<and> fs' = fs \<and> (s = PAKKA_OK \<longrightarrow> \<not> dirty a)
    \<or> dirty a \<and> length (entries a) \<le> 0xFFFF \<and> pk3_commit_rebuild env fs a f = (s, a', fs')"
proof -
  have "num_entries a > 0xFFFF \<longleftrightarrow> length (entries a) > 0xFFFF"
    using wf by (simp add: zip_archive_wf_def word_less_nat_alt)
  with assms show ?thesis
    by (auto simp: pakka_commit_def pk3_ops_def pakka_pk3_commit_impl_def zip_archive_wf_def not_less
        split: if_splits prod.splits)
qed

lemma zip_file_size [simp]:
  "zip_archive_wf (a\<lparr>file_size := x\<rparr>) = zip_archive_wf a" "zip_listing fs f (a\<lparr>file_size := x\<rparr>) = zip_listing fs f a"
  "zip_listing fs f (a\<lparr>fp := y\<rparr>) = zip_listing fs f a"
  by (simp_all add: zip_archive_wf_def zip_listing_def)

lemma zip_commit_OK:
  assumes wf: "zip_archive_wf a" and fp: "fp a = Some f" and d: "dirty a"
    and fr: "mkstemp_fresh env" and ex: "fs (pak_path a) \<noteq> None"
    and r: "pakka_commit (pk3_ops D) env fs (Some a) = (PAKKA_OK, Some a', fs')"
  shows "\<exists>g. fp a' = Some g \<and> zip_archive_wf a' \<and> zip_listing fs' g a' = zip_listing fs f a
    \<and> \<not> dirty a' \<and> \<not> needs_rebuild a' \<and> list_all (\<lambda>e. \<not> is_staged e) (entries a')
    \<and> fs' (pak_path a) = Some (Regular (f_data g)) \<and> file_size a' = of_nat (length (f_data g))
    \<and> zip_image (entries a') (unat (pk3_cdr_offset a')) (f_data g)
    \<and> (\<forall>q. q \<noteq> pak_path a \<longrightarrow> fs q \<noteq> None \<longrightarrow> fs' q = fs q)
    \<and> entries a' = map clear_pending (zip_place 0 (entries a))"
proof -
  from zip_commit_cases [OF wf fp r] d have n: "length (entries a) \<le> 0xFFFF"
    and rb: "pk3_commit_rebuild env fs a f = (PAKKA_OK, a', fs')" by auto
  from pk3_rebuild_cases [OF wf fp fr ex n rb]
  have z: "zip_done env fs a f PAKKA_OK a' fs'" and oth: "\<forall>q. q \<noteq> pak_path a \<longrightarrow> fs q \<noteq> None \<longrightarrow> fs' q = fs q"
    by (auto simp: rebuild_kept_def rename_refused_def)
  from z obtain c b where Z: "fs' (pak_path a) = Some (Regular b)"
    "zip_image (entries (zip_relaid a c)) (unat c) b"
    "\<And>g gs. f_data g = b \<Longrightarrow> zip_archive_wf (zip_relaid a c\<lparr>fp := Some g\<rparr>)
          \<and> zip_listing gs g (zip_relaid a c) = zip_listing fs f a"
    "case pakka_platform_fopen env fs' (pak_path a) True of
          None \<Rightarrow> PAKKA_OK = PAKKA_ERR_IO \<and> a' = zip_relaid a c\<lparr>fp := None\<rparr>
        | Some g \<Rightarrow> PAKKA_OK = PAKKA_OK \<and> a' = zip_relaid a c\<lparr>fp := Some g, file_size := of_nat (length b)\<rparr> \<and> f_data g = b"
    unfolding zip_done_def by blast
  then obtain g where g: "a' = zip_relaid a c\<lparr>fp := Some g, file_size := of_nat (length b)\<rparr>" "f_data g = b"
    by (auto split: option.splits)
  have ns: "list_all (\<lambda>e. \<not> is_staged e) (entries a')"
    by (simp add: g(1) zip_relaid_def list_all_iff)
  have "fp a' = Some g" "\<not> dirty a'" "\<not> needs_rebuild a'" "file_size a' = of_nat (length b)"
    "pk3_cdr_offset a' = c" "entries a' = entries (zip_relaid a c)"
    "entries a' = map clear_pending (zip_place 0 (entries a))"
    by (simp_all add: g(1) zip_relaid_def)
  moreover have "zip_archive_wf a'" "zip_listing fs' g a' = zip_listing fs f a"
    using Z(3) [OF g(2)] by (simp_all add: g(1))
  ultimately show ?thesis using Z(1,2) g(2) ns oth by auto
qed

text \<open>C25: a commit of a ZIP archive that reports success keeps every entry with its name, place, method,
  checksum, size and stored bytes; nothing stays staged; the file holds exactly the bytes the handle
  reads from, an image of the entries (local headers, payloads, directory and end record at the places
  the handle has); no other file that existed has changed.\<close>

theorem zip_commit_spec:
  assumes wf: "zip_archive_wf a" and fp: "fp a = Some f" and d: "dirty a"
    and fr: "mkstemp_fresh env" and ex: "fs (pak_path a) \<noteq> None"
    and r: "pakka_commit (pk3_ops D) env fs (Some a) = (PAKKA_OK, Some a', fs')"
  shows "\<exists>g. fp a' = Some g \<and> zip_archive_wf a' \<and> zip_listing fs' g a' = zip_listing fs f a
    \<and> \<not> dirty a' \<and> \<not> needs_rebuild a' \<and> list_all (\<lambda>e. \<not> is_staged e) (entries a')
    \<and> fs' (pak_path a) = Some (Regular (f_data g)) \<and> file_size a' = of_nat (length (f_data g))
    \<and> zip_image (entries a') (unat (pk3_cdr_offset a')) (f_data g)
    \<and> (\<forall>q. q \<noteq> pak_path a \<longrightarrow> fs q \<noteq> None \<longrightarrow> fs' q = fs q)"
  using zip_commit_OK [OF assms] by blast


end
