(* ===== verification/Zip_Ready.thy ===== *)
theory Zip_Ready
  imports Zip_Commit
begin

text \<open>
  When a commit of a ZIP archive must succeed: with the memory, a scratch file with room for the image, a
  readable archive, unchanged sources and a rename that goes through, it returns \<open>PAKKA_OK\<close>.
\<close>

section \<open>Progress of the loops\<close>

lemma copy_crc_has:
  "f_has src bs \<Longrightarrow> f_fits dst bs \<Longrightarrow>
   copy_crc src dst (length bs) crc = (PAKKA_OK, pakka_crc32_update crc bs, f_put dst bs)"
proof (induction "length bs" arbitrary: src dst bs crc rule: less_induct)
  case less
  show ?case
  proof (cases "bs = []")
    case False
    let ?c = "chunk_of (length bs)"
    define x y where "x = take ?c bs" and "y = drop ?c bs"
    have b: "bs = x @ y" and lx: "length x = ?c" and ly: "length y = length bs - ?c"
      by (simp_all add: x_def y_def)
    have x: "f_has src x" "f_has (f_skip src ?c) y" "f_fits dst x" "f_fits (f_put dst x) y"
      using less.prems f_has_append [of src x y] f_fits_append [of dst x y] lx by (simp_all add: b [symmetric])
    have "length y < length bs" using ly False by (simp add: chunk_of_def PAKFILE_COPY_CHUNK_def)
    from less.hyps [OF this x(2,4), of "pakka_crc32_update crc x"]
    have "copy_crc (f_skip src ?c) (f_put dst x) (length bs - ?c) (pakka_crc32_update crc x) =
      (PAKKA_OK, pakka_crc32_update crc bs, f_put dst bs)"
      using ly lx f_put_append [of dst x y] crc.update_append [of crc x y] by (simp add: b [symmetric])
    moreover have "fread_all src ?c = (Some x, f_skip src ?c)" "fwrite_all dst x = (True, f_put dst x)"
      using x lx by (simp_all add: fread_all_has fwrite_all_True)
    ultimately show ?thesis
      using False by (simp add: copy_crc_turn)
  qed (simp add: crc.update_Nil)
qed

text \<open>A staged source that can be read and is what was added.\<close>

definition source_ready :: "env \<Rightarrow> files \<Rightarrow> pentry \<Rightarrow> path \<Rightarrow> bool" where
  "source_ready env fs e p \<longleftrightarrow> e_stat env p \<and> (\<exists>b l. fs p = Some (Regular b)
     \<and> length b = unat (pk3_compressed_size e) \<and> crc32 e = pakka_crc32_update 0 b
     \<and> e_limits env False p = Some l \<and> length b \<le> l_readable l)"

lemma copy_payload_ready:
  assumes st: "is_staged e \<Longrightarrow> zip_staged_wf e"
    and disk: "\<not> is_staged e \<Longrightarrow> unat (pk3_payload_offset e) + unat (pk3_compressed_size e) \<le> length (f_data ffd)"
    and src: "\<And>p. pending_source e = Some p \<Longrightarrow> source_ready env fs e p"
    and f: "f_seekable ffd" "length (f_data ffd) \<le> f_readable ffd"
    and room: "f_pos t + unat (pk3_compressed_size e) \<le> f_room t"
  shows "\<exists>g t'. pk3_copy_payload env fs e ffd t = (PAKKA_OK, g, t') \<and> f_same_env ffd g"
proof (cases "pending_source e")
  case (Some p)
  from src [OF Some] obtain b l where b: "e_stat env p" "fs p = Some (Regular b)" "length b = unat (pk3_compressed_size e)"
    "crc32 e = pakka_crc32_update 0 b" "e_limits env False p = Some l" "length b \<le> l_readable l"
    unfolding source_ready_def by blast
  have "f_has (stream_of l b) b" using b(6) by (simp add: f_has_def)
  from copy_crc_has [OF this, of t 0] room b(3)
  have "copy_crc (stream_of l b) t (length b) 0 = (PAKKA_OK, pakka_crc32_update 0 b, f_put t b)"
    by (simp add: f_fits_def)
  with Some b show ?thesis
    by (simp add: pk3_copy_defs pakka_platform_is_reparse_or_symlink_def pakka_platform_lstat_def
        pakka_platform_fopen_def)
next
  case no: None
  show ?thesis
  proof (cases "pending_data e")
    case (Some d)
    with no st have "length d = unat (pk3_compressed_size e)" by (simp add: is_staged_def zip_staged_wf_def)
    with room have "fwrite_all t d = (True, f_put t d)" by (simp add: fwrite_all_True f_fits_def)
    with no Some show ?thesis by (simp add: pk3_copy_defs)
  next
    case None
    let ?p = "unat (pk3_payload_offset e)" and ?n = "unat (pk3_compressed_size e)"
    let ?b = "take ?n (drop ?p (f_data ffd))" and ?f = "ffd\<lparr>f_pos := ?p\<rparr>"
    have le: "?p + ?n \<le> length (f_data ffd)" using disk no None by (simp add: is_staged_def)
    then have lb: "length ?b = ?n" by simp
    have "f_has ?f ?b" "f_fits t ?b" using le f(2) room lb by (simp_all add: f_has_def f_fits_def)
    from copy_chunks_has [OF this] have "copy_chunks ?f t ?n = (PAKKA_OK, f_skip ?f ?n, f_put t ?b)" by (simp only: lb)
    with no None f(1) show ?thesis
      by (simp add: pk3_copy_defs fseek_set_def f_same_env_def)
  qed
qed


text \<open>The condition on one entry; \<open>zip_extents\<close> is what all of them take up in front of the directory.\<close>

definition entry_ready :: "env \<Rightarrow> files \<Rightarrow> cfile \<Rightarrow> pentry \<Rightarrow> bool" where
  "entry_ready env fs f e \<longleftrightarrow> zip_kind_wf e \<and> (is_staged e \<longrightarrow> zip_staged_wf e)
     \<and> (\<not> is_staged e \<longrightarrow> unat (pk3_payload_offset e) + unat (pk3_compressed_size e) \<le> length (f_data f))
     \<and> (\<forall>p. pending_source e = Some p \<longrightarrow> source_ready env fs e p)"

definition zip_extents :: "pentry list \<Rightarrow> nat" where
  "zip_extents es = sum_list (map zip_extent es)"

lemma rebuild_loop_ready:
  "\<forall>e \<in> set es. entry_ready env fs f e \<Longrightarrow> f_data ffd = f_data f \<Longrightarrow> f_seekable ffd \<Longrightarrow>
   length (f_data ffd) \<le> f_readable ffd \<Longrightarrow> unat cur = f_pos t \<Longrightarrow> f_pos t + zip_extents es \<le> f_room t \<Longrightarrow>
   f_pos t + zip_extents es \<le> UINT32_MAX \<Longrightarrow>
   \<exists>cur' es' g t'. pk3_rebuild_loop env fs moved cur es ffd t = (PAKKA_OK, cur', es', g, t') \<and> f_same_env ffd g"
proof (induction es arbitrary: moved cur ffd t)
  case (Cons e es)
  have e: "zip_kind_wf e" "is_staged e \<Longrightarrow> zip_staged_wf e" "\<And>p. pending_source e = Some p \<Longrightarrow> source_ready env fs e p"
    "\<not> is_staged e \<Longrightarrow> unat (pk3_payload_offset e) + unat (pk3_compressed_size e) \<le> length (f_data ffd)"
    using Cons.prems(1,2) by (simp_all add: entry_ready_def)
  note nl = name_len_kind [OF e(1)]
  have x: "zip_extents (e # es) = zip_extent e + zip_extents es" by (simp add: zip_extents_def)
  define h where "h = pk3_lfh_of e @ filename e"
  have lh: "length h + unat (pk3_compressed_size e) = zip_extent e" by (simp add: h_def zip_extent_def)
  let ?t = "f_put t h"
  have fit: "f_fits t h" using Cons.prems(6) x lh by (simp add: f_fits_def)
  have w: "andthen (fwrite_all t (pk3_lfh_of e)) (\<lambda>t. fwrite_all t (filename e)) = (True, ?t)"
    using fit unfolding andthen_writes h_def f_fits_append by simp
  have room: "f_pos ?t + unat (pk3_compressed_size e) \<le> f_room ?t" using Cons.prems(6) x lh by simp
  obtain g t1 where c: "pk3_copy_payload env fs e ffd ?t = (PAKKA_OK, g, t1)" "f_same_env ffd g"
    using copy_payload_ready [OF e(2,4,3) Cons.prems(3,4) room] by blast
  note C = pk3_copy_payload_OK [OF c(1) e(2)]
  have lim: "unat cur + zip_extent e \<le> UINT32_MAX" using Cons.prems(5,7) x by simp
  let ?e = "pk3_moved e cur"
  note m = moved_payload(2) [OF e(1) lim]
  have t1: "f_pos t1 = f_pos t + zip_extent e" "f_room t1 = f_room t" using C lh by simp_all
  have g: "f_data g = f_data f" "f_seekable g" "length (f_data g) \<le> f_readable g"
    using C c(2) Cons.prems(2-4) by (simp_all add: f_same_env_def)
  have cur: "unat (pk3_payload_offset ?e + pk3_compressed_size e) = f_pos t1" using m t1 Cons.prems(5) by simp
  have r: "\<forall>e \<in> set es. entry_ready env fs f e" "f_pos t1 + zip_extents es \<le> f_room t1"
    "f_pos t1 + zip_extents es \<le> UINT32_MAX"
    using Cons.prems(1,6,7) x t1 by simp_all
  from Cons.IH [OF r(1) g cur r(2,3), of "moved @ [?e]"]
  obtain cur' es' g' t' where "pk3_rebuild_loop env fs (moved @ [?e]) (pk3_payload_offset ?e + pk3_compressed_size e) es g t1
      = (PAKKA_OK, cur', es', g', t')" "f_same_env g g'"
    by blast
  moreover have "\<not> UINT32_MAX < unat cur + (PK3_LFH_SIZE + length (filename e) + unat (pk3_compressed_size e))"
    using lim by (simp add: zip_extent_def)
  moreover have "f_same_env ffd g'" by (rule f_same_env_trans [OF c(2) calculation(2)])
  ultimately show ?case using w c(1) by (simp add: nl)
qed simp

lemma write_cdr_ready:
  "\<forall>e \<in> set es. zip_kind_wf e \<Longrightarrow> f_pos f + length (zip_rows es) \<le> f_room f \<Longrightarrow>
   \<exists>sz' count' g. pk3_write_cdr es sz count f = (True, sz', count', g)"
proof (induction es arbitrary: sz count f)
  case (Cons e es)
  have nl: "unat (pk3_name_len e) = length (filename e)" using Cons.prems(1) by (auto intro: name_len_kind)
  have "andthen (fwrite_all f (pk3_cdr_of e)) (\<lambda>t. fwrite_all t (filename e)) = (True, f_put f (pk3_cdr_of e @ filename e))"
    using Cons.prems(2) by (auto simp: andthen_writes f_fits_def)
  with Cons.IH [of "f_put f (pk3_cdr_of e @ filename e)"] Cons.prems show ?case by (simp add: nl Let_def)
qed simp

lemma cdr_small: "tot + length (zip_rows es) \<le> UINT32_MAX \<Longrightarrow> \<not> pk3_cdr_too_large tot es"
  by (induction es arbitrary: tot) (auto simp: Let_def)

lemma zip_rows_place [simp]: "length (zip_rows (zip_place p es)) = length (zip_rows es)"
  by (induction es arbitrary: p) simp_all

lemma zip_blob_length: "list_all (zip_sized fs f) es \<Longrightarrow> length (zip_blob fs f es) = zip_extents es"
  by (induction es) (simp_all add: zip_blob_def zip_extents_def zip_extent_local)

section \<open>The commit\<close>

definition zip_total :: "archive \<Rightarrow> nat" where
  "zip_total a = zip_extents (entries a) + length (zip_rows (entries a)) + PK3_EOCD_SIZE"

definition scratch_template :: "archive \<Rightarrow> path" where
  "scratch_template a = dirname (pak_path a) @ [0x2F] @ ascii ''pakkaXXXXXX''"

text \<open>What the system has to grant.\<close>

definition zip_commit_ready :: "env \<Rightarrow> files \<Rightarrow> archive \<Rightarrow> cfile \<Rightarrow> bool" where
  "zip_commit_ready env fs a f \<longleftrightarrow> (\<forall>x. \<not> e_oom env x) \<and> (\<forall>h. \<not> e_fault env h)
     \<and> length (pak_path a) < OS_PATH_MAX \<and> length (scratch_template a) < OS_PATH_MAX
     \<and> (\<exists>tmp l. e_mkstemp env fs (scratch_template a) = Some tmp \<and> e_scratch env tmp = Some l \<and> l_close_ok l
          \<and> zip_total a \<le> l_room l \<and> e_rename env tmp (pak_path a))
     \<and> f_seekable f \<and> length (f_data f) \<le> f_readable f \<and> f_close_ok f
     \<and> e_limits env True (pak_path a) \<noteq> None
     \<and> zip_total a \<le> UINT32_MAX \<and> length (entries a) \<le> 0xFFFF
     \<and> (\<forall>e \<in> set (entries a). \<forall>p. pending_source e = Some p \<longrightarrow> source_ready env fs e p)"

lemma source_ready_untouched: "untouched fs gs \<Longrightarrow> source_ready env fs e p \<Longrightarrow> source_ready env gs e p"
  by (auto simp: source_ready_def untouched_def)

lemma publish_ready:
  assumes wf: "zip_archive_wf a" and rd: "zip_commit_ready env fs a f" and ne: "tmp \<noteq> pak_path a"
    and cur: "unat cur = zip_extents (entries a)" and t: "f_pos t = zip_extents (entries a)" "zip_total a \<le> f_room t" "f_close_ok t"
    and ffd: "f_close_ok ffd" and rn: "e_rename env tmp (pak_path a)"
  shows "fst (pk3_rebuild_publish env fs1 (a\<lparr>entries := zip_place 0 (entries a), pk3_cdr_offset := cur\<rparr>) undo ffd tmp
        (pak_path a) t) = PAKKA_OK"
proof -
  let ?ps = "zip_place 0 (entries a)" and ?tg = "pak_path a"
  have k: "\<forall>e \<in> set ?ps. zip_kind_wf e" using wf by (intro place_kind) (simp add: zip_archive_wf_def)
  have big: "\<not> pk3_cdr_too_large (unat cur + PK3_EOCD_SIZE) ?ps"
    using rd cur by (intro cdr_small) (simp add: zip_commit_ready_def zip_total_def)
  have "f_pos t + length (zip_rows ?ps) \<le> f_room t" using t by (simp add: zip_total_def)
  from write_cdr_ready [OF k this, of 0 0] obtain sz count t1 where
    w: "pk3_write_cdr ?ps 0 0 t = (True, sz, count, t1)" by blast
  have t1: "t1 = f_put t (zip_rows ?ps)" using write_cdr_OK [OF w k] by simp
  define eo where "eo = pk3_build_eocd cur sz (ucast count)"
  have "f_fits t1 eo" using t by (simp add: f_fits_def t1 eo_def zip_total_def)
  then have "fwrite_all t1 eo = (True, f_put t1 eo)" by (simp add: fwrite_all_True)
  then have tr: "pk3_write_trailer ?ps cur t = (True, sz, f_put t1 eo)"
    by (simp add: pk3_write_trailer_def w eo_def [symmetric])
  define t2 where "t2 = f_put t1 eo"
  have cl: "f_close_ok t2" using t(3) by (simp add: t2_def t1)
  obtain fs2 where p2: "publish env fs1 tmp t2 = (True, fs2)" using cl by (auto simp: publish_def)
  have s2: "fs2 tmp = Some (Regular (f_data t2))" by (rule publish_ok [OF p2])
  have p3: "publish env fs2 tmp t2 = (True, fs2)" using publish_clean [where fs = fs2, OF s2] cl by simp
  obtain fs4 where p4: "publish env fs2 ?tg ffd = (True, fs4)" using ffd by (auto simp: publish_def)
  have s4: "fs4 tmp = Some (Regular (f_data t2))" using publish_other [OF p4 ne] s2 by simp
  have fl: "\<not> e_fault env h" for h using rd by (simp add: zip_commit_ready_def)
  have rr: "pakka_platform_rename_replace env fs4 tmp ?tg = (True, fs4(?tg := Some (Regular (f_data t2)), tmp := None))"
    using rn s4 ne by (simp add: pakka_platform_rename_replace_def)
  obtain l where "e_limits env True ?tg = Some l" using rd by (auto simp: zip_commit_ready_def)
  then have "\<exists>h. pakka_platform_fopen env (fs4(?tg := Some (Regular (f_data t2)), tmp := None)) ?tg True = Some h"
    using ne by (simp add: pakka_platform_fopen_def)
  then show ?thesis
    using big tr p2 p3 p4 fl rr
    by (simp add: pk3_rebuild_publish_def Let_def t2_def [symmetric] pk3_rebuild_rename_def split: option.split)
qed


lemma scratch_opens:
  assumes rd: "zip_commit_ready env fs a f" and fr: "mkstemp_fresh env"
  shows "\<exists>tmp l fs1. pakka_platform_mkstemp_open env fs (pak_path a) (ascii ''pakkaXXXXXX'') = (Some (tmp, stream_of l []), fs1)
    \<and> l_close_ok l \<and> zip_total a \<le> l_room l \<and> e_rename env tmp (pak_path a) \<and> untouched fs fs1 \<and> fs tmp = None"
proof -
  from rd obtain tmp l where s: "e_mkstemp env fs (scratch_template a) = Some tmp" "e_scratch env tmp = Some l"
    "l_close_ok l" "zip_total a \<le> l_room l" "e_rename env tmp (pak_path a)"
    and p: "length (pak_path a) < OS_PATH_MAX" "length (scratch_template a) < OS_PATH_MAX"
    unfolding zip_commit_ready_def by blast
  have mk: "pakka_platform_mkstemp_open env fs (pak_path a) (ascii ''pakkaXXXXXX'')
      = (Some (tmp, stream_of l []), fs(tmp := Some (Regular [])))"
    using s p by (simp add: pakka_platform_mkstemp_open_def mkstemp_open_in_dir_def mkstemp_at_def
        scratch_template_def)
  from mkstemp_open_SomeD [OF mk fr] have "fs tmp = None"
    "\<forall>q. fs q \<noteq> None \<longrightarrow> (fs(tmp := Some (Regular []))) q = fs q" by blast+
  with mk s(3-5) show ?thesis unfolding untouched_def by blast
qed

lemma commit_progress:
  assumes wf: "zip_archive_wf a" and fp: "fp a = Some f" and w: "writable a" and d: "dirty a"
    and fr: "mkstemp_fresh env" and ex: "fs (pak_path a) \<noteq> None" and rd: "zip_commit_ready env fs a f"
  shows "\<exists>a' fs'. pakka_commit (pk3_ops D) env fs (Some a) = (PAKKA_OK, Some a', fs')"
proof -
  let ?es = "entries a"
  from scratch_opens [OF rd fr] obtain tmp l fs1 where
    mk: "pakka_platform_mkstemp_open env fs (pak_path a) (ascii ''pakkaXXXXXX'') = (Some (tmp, stream_of l []), fs1)"
    and l: "l_close_ok l" "zip_total a \<le> l_room l" "e_rename env tmp (pak_path a)"
    and u: "untouched fs fs1" "fs tmp = None" by blast
  have ne: "tmp \<noteq> pak_path a" using u(2) ex by auto
  have er: "entry_ready env fs1 f e" if e: "e \<in> set ?es" for e
  proof -
    have "unat (pk3_payload_offset e) + unat (pk3_compressed_size e) \<le> length (f_data f)" if "\<not> is_staged e"
      using wf e that fp by (force simp: zip_archive_wf_def placed_def)
    moreover have "source_ready env fs1 e p" if "pending_source e = Some p" for p
      using rd e that source_ready_untouched [OF u(1)] by (simp add: zip_commit_ready_def)
    ultimately show ?thesis using zip_archive_wf_staged [OF wf] e by (simp add: entry_ready_def)
  qed
  have f: "f_seekable f" "length (f_data f) \<le> f_readable f" "f_close_ok f" "zip_total a \<le> UINT32_MAX"
    using rd by (simp_all add: zip_commit_ready_def)
  have "zip_extents ?es \<le> zip_total a" by (simp add: zip_total_def)
  with er f l(2) obtain cur es' g t where
    lp: "pk3_rebuild_loop env fs1 [] 0 ?es f (stream_of l []) = (PAKKA_OK, cur, es', g, t)" "f_same_env f g"
    using rebuild_loop_ready [of ?es env fs1 f f 0 "stream_of l []" "[]"] by auto
  from rebuild_loop_OK [OF lp(1) refl zip_archive_wf_staged [OF wf]]
  have L: "es' = zip_place 0 ?es" "t = f_put (stream_of l []) (zip_blob fs1 f ?es)"
    "unat cur = length (zip_blob fs1 f ?es)" "list_all (zip_sized fs1 f) ?es" by simp_all
  note bl = zip_blob_length [OF L(4)]
  define undo where "undo = (\<lambda>x. pk3_rebuild_rollback_offsets x
      (map (\<lambda>e. (pk3_lfh_offset e, pk3_payload_offset e, offset e)) ?es) (pk3_cdr_offset a))"
  have "unat cur = zip_extents ?es" "f_pos t = zip_extents ?es" "zip_total a \<le> f_room t" "f_close_ok t"
    using L bl l by simp_all
  moreover have "f_close_ok g" using lp(2) f(3) by (simp add: f_same_env_def)
  ultimately have ok: "fst (pk3_rebuild_publish env fs1 (a\<lparr>entries := zip_place 0 ?es, pk3_cdr_offset := cur\<rparr>) undo g tmp
        (pak_path a) t) = PAKKA_OK"
    using publish_ready [OF wf rd ne] l(3) by blast
  have mem: "\<not> e_oom env x" for x using rd by (simp add: zip_commit_ready_def)
  have "pk3_commit_rebuild env fs a f = pk3_rebuild_publish env fs1 (a\<lparr>entries := zip_place 0 ?es, pk3_cdr_offset := cur\<rparr>)
      undo g tmp (pak_path a) t"
    by (simp add: pk3_commit_rebuild_def mem mk lp(1) L(1) undo_def Let_def)
  then obtain a' fs' where rb: "pk3_commit_rebuild env fs a f = (PAKKA_OK, a', fs')"
    using ok by (metis prod.collapse)
  have "num_entries a \<le> 0xFFFF"
    using wf rd by (simp add: zip_archive_wf_def zip_commit_ready_def word_le_nat_alt)
  then have "pakka_commit (pk3_ops D) env fs (Some a) = (PAKKA_OK, Some a', fs')"
    using rb wf d w fp by (simp add: pakka_commit_def pk3_ops_def pakka_pk3_commit_impl_def zip_archive_wf_def not_le [symmetric])
  then show ?thesis by blast
qed

text \<open>C27: a commit of a ZIP archive goes through when the system grants what it needs: memory, a scratch
  file with room for the image, a readable archive, sources that are still what was added, a rename and
  a reopening that work, and an image below 4 GiB with at most 65535 entries.\<close>

theorem zip_commit_succeeds:
  assumes "zip_archive_wf a" "fp a = Some f" "writable a" "dirty a"
    and "mkstemp_fresh env" "fs (pak_path a) \<noteq> None" "zip_commit_ready env fs a f"
  shows "\<exists>a' fs'. pakka_commit (pk3_ops D) env fs (Some a) = (PAKKA_OK, Some a', fs')"
  by (rule commit_progress [OF assms])


section \<open>A sample archive\<close>

text \<open>An empty archive to which an entry has been added.\<close>

definition zip_entry :: pentry where
  "zip_entry = calloc_entry\<lparr>filename := ascii ''a.cfg'', crc32 := pakka_crc32_update 0 [0x41, 0x41, 0x42],
     pk3_compressed_size := 3, entry_length := 3, pending_data := Some [0x41, 0x41, 0x42]\<rparr>"

definition zip_fp :: cfile where
  "zip_fp = stream_of quiet_limits (pk3_build_eocd 0 0 0)"

definition sample_zip :: archive where
  "sample_zip = calloc_archive\<lparr>format := PAKKA_FORMAT_PK3, num_entries := 1, entries := [zip_entry],
     fp := Some zip_fp, writable := True, dirty := True, needs_rebuild := True\<rparr>"

definition zip_disk :: files where
  "zip_disk = (\<lambda>_. None)([] \<mapsto> Regular (f_data zip_fp))"

lemma sample_zip_simps [simp]:
  "fp sample_zip = Some zip_fp" "dirty sample_zip" "writable sample_zip" "pak_path sample_zip = []"
  "entries sample_zip = [zip_entry]" "zip_disk [] = Some (Regular (f_data zip_fp))" "format sample_zip = PAKKA_FORMAT_PK3"
  by (simp_all add: sample_zip_def calloc_archive_def pak_path_def zip_disk_def)

lemma zip_entry_simps [simp]:
  "filename zip_entry = ascii ''a.cfg''" "pending_source zip_entry = None" "pending_data zip_entry = Some [0x41, 0x41, 0x42]"
  "pk3_compressed_size zip_entry = 3" "entry_length zip_entry = 3" "is_staged zip_entry" "pk3_method zip_entry = 0"
  "dk_is_compressed zip_entry = False"
  by (simp_all add: zip_entry_def calloc_entry_def is_staged_def)

lemma zip_file_bytes: "zip_bytes fs f zip_entry = [0x41, 0x41, 0x42]"
  by (simp add: zip_bytes_def)

lemma sample_zip_wf: "zip_archive_wf sample_zip"
proof -
  have "zip_kind_wf zip_entry" "zip_staged_wf zip_entry"
    by (simp_all add: zip_kind_wf_def zip_staged_wf_def c_string_def ascii_def PAKKA_ENTRY_NAME_SIZE_def
        PK3_METHOD_STORED_def)
  moreover have "num_entries sample_zip = 1" "needs_rebuild sample_zip" "pk3_cdr_offset sample_zip = 0"
    by (simp_all add: sample_zip_def calloc_archive_def)
  ultimately show ?thesis
    by (simp add: zip_archive_wf_def pakka_format_is_zip_def names_distinct_def)
qed

lemma sample_zip_ready: "zip_commit_ready quiet_env zip_disk sample_zip zip_fp"
proof -
  have n: "length (ascii ''a.cfg'') = 5" "length (ascii ''pakkaXXXXXX'') = 11" by (simp_all add: ascii_def)
  have t: "zip_total sample_zip = 30 + 5 + 3 + (46 + 5) + 22"
    by (simp add: zip_total_def zip_extents_def zip_extent_def PK3_LFH_SIZE_def PK3_CDR_SIZE_def PK3_EOCD_SIZE_def n)
  have d: "dirname [] = [0x2E]" by (simp add: dirname_def rstrip_slashes_def)
  have f: "f_seekable zip_fp" "f_close_ok zip_fp" "f_readable zip_fp = 1000000" "length (f_data zip_fp) = 22"
    by (simp_all add: zip_fp_def quiet_limits_def PK3_EOCD_SIZE_def)
  have m: "e_mkstemp quiet_env zip_disk (scratch_template sample_zip) = Some (scratch_template sample_zip)"
    by (simp add: quiet_env_def zip_disk_def scratch_template_def)
  show ?thesis
    unfolding zip_commit_ready_def using f t n m
    by (auto simp: quiet_env_simps d scratch_template_def OS_PATH_MAX_def UINT32_MAX_def quiet_limits_def quiet_env_def)
qed

lemma sample_zip_committed:
  obtains a' fs' where "pakka_commit (pk3_ops D) quiet_env zip_disk (Some sample_zip) = (PAKKA_OK, Some a', fs')"
  using commit_progress [where D = D, OF sample_zip_wf _ _ _ quiet_fresh _ sample_zip_ready] by auto

lemma zip_commit_succeeds_witness:
  "\<exists>a' fs'. pakka_commit (pk3_ops (vendored sample_codec)) quiet_env zip_disk (Some sample_zip) = (PAKKA_OK, Some a', fs')"
  by (rule zip_commit_succeeds [OF sample_zip_wf _ _ _ quiet_fresh _ sample_zip_ready]) simp_all

lemma zip_commit_spec_witness:
  "\<exists>a' fs' g. pakka_commit (pk3_ops (vendored sample_codec)) quiet_env zip_disk (Some sample_zip) = (PAKKA_OK, Some a', fs')
    \<and> fp a' = Some g \<and> zip_listing fs' g a' = zip_listing zip_disk zip_fp sample_zip
    \<and> zip_image (entries a') (unat (pk3_cdr_offset a')) (f_data g)"
proof -
  obtain a' fs' where r: "pakka_commit (pk3_ops (vendored sample_codec)) quiet_env zip_disk (Some sample_zip) = (PAKKA_OK, Some a', fs')"
    by (rule sample_zip_committed)
  have ex: "zip_disk (pak_path sample_zip) \<noteq> None" by simp
  from zip_commit_spec [OF sample_zip_wf sample_zip_simps(1,2) quiet_fresh ex r] r show ?thesis by blast
qed


end
