(* ===== verification/Zip_Reader.thy ===== *)
theory Zip_Reader
  imports Zip_Ready Reader_Props
begin

text \<open>
  Reading a ZIP archive: what an entry decodes to, readers as cursors into it for every format, and
  reading a whole entry.
\<close>

section \<open>What an entry reads as\<close>

text \<open>Stored bytes are the contents; compressed ones must inflate to the declared length and be consumed
  to the end.\<close>

definition zip_decode :: "deflate_ops \<Rightarrow> u16 \<Rightarrow> u32 \<Rightarrow> u8 list \<Rightarrow> u8 list option" where
  "zip_decode D method ulen b =
     (if method = PK3_METHOD_STORED then Some b
      else (let (s, out, used) = d_inflate D b (ulen \<noteq> 0) (unat ulen) in
            if s = PAKKA_OK \<and> length out = unat ulen \<and> used = length b then Some out else None))"

definition zip_content :: "deflate_ops \<Rightarrow> files \<Rightarrow> cfile \<Rightarrow> pentry \<Rightarrow> u8 list option" where
  "zip_content D fs f e = zip_decode D (pk3_method e) (entry_length e) (zip_bytes fs f e)"

lemma pk3_inflate_OK:
  assumes r: "pk3_inflate D env b ulen = (PAKKA_OK, x)" and m: "m \<noteq> PK3_METHOD_STORED"
  shows "\<exists>c. zip_decode D m ulen b = Some c \<and> length c = unat ulen \<and> x = (if ulen = 0 then None else Some c)"
proof (cases "ulen = 0")
  case True
  then show ?thesis using r m by (auto simp: pk3_inflate_def zip_decode_def Let_def split: prod.splits if_splits)
next
  case False
  then show ?thesis using r m by (auto simp: pk3_inflate_def zip_decode_def Let_def split: prod.splits if_splits)
qed

section \<open>Cursors\<close>

lemma zip_read_step:
  assumes fp: "fp a = Some f" and at: "reader_at f r c k" and go: "remaining r \<noteq> 0" "0 < len"
    and r: "pakka_pk3_reader_read_impl r a len = (s, got, r', a')"
  shows "\<exists>g. a' = a\<lparr>fp := Some g\<rparr> \<and> f_data g = f_data f
    \<and> got = take (length got) (drop k c) \<and> reader_at g r' c (k + length got)
    \<and> (if s = PAKKA_OK then length got = min len (length c - k)
       else s = PAKKA_ERR_IO \<and> (length got < min len (length c - k) \<or> \<not> f_seekable f))"
proof -
  have rm: "unat (remaining r) = length c - k" "k \<le> length c" using at by (auto simp: reader_at_def)
  let ?n = "if len > length c - k then length c - k else len"
  have n: "?n = min len (length c - k)" "0 < ?n" "?n \<le> length c - k"
    using go rm(1) unat_gt_0 [of "remaining r"] by (simp_all add: min_def)
  show ?thesis
  proof (cases "inflated_buf r")
    case (Some b)
    then have b: "b = c" "inflated_cursor r = k" using at by (auto simp: reader_at_def)
    have res: "s = PAKKA_OK" "got = take ?n (drop k c)" "a' = a"
      "r' = r\<lparr>inflated_cursor := k + ?n, remaining := remaining r - of_nat ?n\<rparr>"
      using r go(1) Some b rm(1) unfolding pakka_pk3_reader_read_impl_def Let_def by auto
    have l: "length got = ?n" unfolding res(2) using n(3) by simp
    have "unat (remaining r - of_nat ?n) = length c - k - ?n"
      using unat_consume [of ?n "remaining r"] rm n(3) by metis
    moreover have "k + ?n \<le> length c" using n(3) rm(2) by linarith
    ultimately have "reader_at f r' c (k + ?n)" using Some b by (simp add: reader_at_def res(4) split del: if_split)
    then show ?thesis
      using res(1,2,3) l n(1) fp_update_id [OF fp] by (intro exI [of _ f]) (simp split del: if_split)
  next
    case None
    obtain ok f1 where sk: "fseek_set f (unat (next_offset r)) = (ok, f1)" by fastforce
    show ?thesis
    proof (cases ok)
      case False
      with sk have "\<not> f_seekable f" "f1 = f" by (auto simp: fseek_set_def split: if_splits)
      with False r sk at None go(1) fp show ?thesis
        by (intro exI [of _ f]) (simp add: pakka_pk3_reader_read_impl_def)
    next
      case True
      with sk have f1: "f1 = f\<lparr>f_pos := unat (next_offset r)\<rparr>" by (simp add: fseek_set_True)
      obtain x f2 where rd: "fread_all f1 ?n = (x, f2)" by fastforce
      have d2: "f_data f2 = f_data f" using fread_all_data [OF rd] f1 by simp
      show ?thesis
      proof (cases x)
        case no: None
        have "s = PAKKA_ERR_IO" "got = []" "r' = r" "a' = a\<lparr>fp := Some f2\<rparr>"
          using r go(1) None fp sk True rd rm(1) n(2) no
          unfolding pakka_pk3_reader_read_impl_def Let_def by (auto split: if_splits)
        then show ?thesis using d2 at reader_at_data [OF d2] n(1,2) by (intro exI [of _ f2]) simp
      next
        case (Some b)
        have res: "s = PAKKA_OK" "got = b" "a' = a\<lparr>fp := Some f2\<rparr>"
          "r' = r\<lparr>next_offset := next_offset r + of_nat ?n, remaining := remaining r - of_nat ?n\<rparr>"
          using r go(1) None fp sk True rd rm(1) n(2) Some
          unfolding pakka_pk3_reader_read_impl_def Let_def by (auto split: if_splits)
        from fread_all_Some [OF rd [unfolded Some] n(2)] have h: "f_has f1 b" "length b = ?n" by auto
        have pre: "take (length c - k) (drop (unat (next_offset r)) (f_data f)) = drop k c"
          using at None by (simp add: reader_at_def)
        have "b = take ?n (drop (unat (next_offset r)) (f_data f))"
          using h f1 by (simp add: f_has_def split del: if_split)
        also have "\<dots> = take ?n (take (length c - k) (drop (unat (next_offset r)) (f_data f)))"
          using n(3) by (simp add: min_absorb1 split del: if_split)
        finally have "got = take ?n (drop k c)" unfolding pre res(2) .
        moreover have "reader_at f2 r' c (k + ?n)"
          using reader_advance [OF at None n(3)] reader_at_data [OF d2] unfolding res(4) by simp
        ultimately show ?thesis using res(1,3) d2 h(2) n(1) res(2) by (intro exI [of _ f2]) (simp split del: if_split)
      qed
    qed
  qed
qed

lemma zip_cursor_read:
  assumes fp: "fp a = Some f" and z: "pakka_format_is_zip (format a)" and at: "reader_at f r c k"
  shows "cursor_read (pk3_ops D) a f r c k len"
proof (cases "remaining r = 0 \<or> len = 0")
  case True
  have "min len (length c - k) = 0" using True at by (auto simp: reader_at_def)
  then show ?thesis
    unfolding cursor_read_def using True at fp_update_id [OF fp] fp
    by (intro allI impI exI [of _ f]) (auto simp: pakka_reader_read_def)
next
  case False
  show ?thesis
    unfolding cursor_read_def
  proof (intro allI impI)
    fix s got r' a'
    assume r: "pakka_reader_read (pk3_ops D) (Some r) (Some a) len = (s, got, Some r', Some a')"
    obtain s1 g1 r1 a1 where i: "pakka_pk3_reader_read_impl r a len = (s1, g1, r1, a1)" using prod_cases4 by blast
    then have eq: "s = s1" "got = g1" "r' = r1" "a' = a1"
      using r fp z False by (auto simp: pakka_reader_read_def pk3_ops_def)
    from False have go: "remaining r \<noteq> 0" "0 < len" by auto
    show "\<exists>g. a' = a\<lparr>fp := Some g\<rparr> \<and> f_data g = f_data f
          \<and> got = take (length got) (drop k c) \<and> reader_at g r' c (k + length got)
          \<and> (if s = PAKKA_OK then length got = min len (length c - k)
             else s = PAKKA_ERR_IO \<and> (length got < min len (length c - k) \<or> \<not> f_seekable f))"
      unfolding eq by (rule zip_read_step [OF fp at go i])
  qed
qed

text \<open>The contract of readers for every format the library reads.\<close>

interpretation reads: served_readers Z "\<lambda>fmt. pakka_format_is_zip fmt \<longrightarrow> Z = pk3_ops D" for Z D
proof unfold_locales
  fix a :: archive and f r c k len
  assume "fp a = Some f" "pakka_format_is_zip (format a) \<longrightarrow> Z = pk3_ops D" "reader_at f r c k"
  then show "cursor_read Z a f r c k len"
    using zip_cursor_read pak_cursor_read by (cases "pakka_format_is_zip (format a)") blast+
qed (rule pakka_reader_read_Some)

text \<open>C16: a read hands out the next bytes of the entry, whatever the format of the archive and whether the
  entry was compressed: as many as asked for or are left when it succeeds, fewer and an I/O error when
  the stream comes up short; in both cases the bytes are the right ones, the reader moves on by as many,
  and the archive differs in nothing but the position of its stream.\<close>

theorem reader_read_spec:
  assumes a: "fp a = Some f" "pakka_format_is_zip (format a) \<longrightarrow> Z = pk3_ops D" and at: "reader_at f r c k"
    and r: "pakka_reader_read Z (Some r) (Some a) len = (s, got, Some r', Some a')"
  shows "\<exists>g. a' = a\<lparr>fp := Some g\<rparr> \<and> f_data g = f_data f
    \<and> got = take (length got) (drop k c) \<and> reader_at g r' c (k + length got)
    \<and> (if s = PAKKA_OK then length got = min len (length c - k)
       else s = PAKKA_ERR_IO \<and> (length got < min len (length c - k) \<or> \<not> f_seekable f))"
  using reads.serves [OF assms(1-3)] r unfolding cursor_read_def by blast

lemma reader_read_spec_witness:
  "\<exists>r' a' g. pakka_reader_read without_zip (Some sample_reader) (Some sample_pak) 2 = (PAKKA_OK, [1, 2], Some r', Some a')
    \<and> a' = sample_pak\<lparr>fp := Some g\<rparr> \<and> reader_at g r' [1, 2, 3] 2"
proof -
  obtain r' a' where r: "pakka_reader_read without_zip (Some sample_reader) (Some sample_pak) 2 = (PAKKA_OK, [1, 2], Some r', Some a')"
    using sample_reads by blast
  have z: "pakka_format_is_zip (format sample_pak) \<longrightarrow> without_zip = pk3_ops (vendored sample_codec)"
    using sample_find(4) by simp
  from reader_read_spec [OF sample_pak_fp z sample_reader_at r] r show ?thesis
    by (auto simp: numeral_2_eq_2)
qed

text \<open>C17: readers that are open at the same time do not disturb each other: in whatever order a client
  reads from them, the bytes it got from one reader are the next bytes of that reader's entry, in order
  and without gaps, although all of them share the one stream of the archive. This holds for archives of
  every format, compressed and plain entries mixed.\<close>

theorem interleaved_readers:
  assumes "fp a = Some f" "pakka_format_is_zip (format a) \<longrightarrow> Z = pk3_ops D"
    and "\<forall>i < length rs. reader_at f (rs ! i) (cs ! i) (ks ! i)" "length ks = length rs"
    and "\<forall>(i, n) \<in> set sched. i < length rs" "j < length rs"
  shows "\<exists>m. bytes_of j (read_schedule Z sched rs a) = take m (drop (ks ! j) (cs ! j))"
  using reads.schedule_bytes [OF assms] by blast

lemma interleaved_readers_witness:
  "\<exists>m. bytes_of 1 (read_schedule without_zip [(0, 2), (1, 1), (0, 1), (1, 2)] [sample_reader, sample_reader] sample_pak)
    = take m [1, 2, 3]"
proof -
  have z: "pakka_format_is_zip (format sample_pak) \<longrightarrow> without_zip = pk3_ops (vendored sample_codec)"
    using sample_find(4) by simp
  have "\<forall>i < length [sample_reader, sample_reader].
      reader_at sample_fp ([sample_reader, sample_reader] ! i) ([[1, 2, 3], [1, 2, 3]] ! i) ([0, 0] ! i)"
    using sample_reader_at by (auto simp: less_Suc_eq)
  from interleaved_readers [OF sample_pak_fp z this, of "[(0, 2), (1, 1), (0, 1), (1, 2)]" 1] show ?thesis
    by simp
qed

section \<open>Opening an entry\<close>

lemma zip_stored_length:
  assumes k: "zip_kind_wf e" and st: "is_staged e \<Longrightarrow> zip_staged_wf e" "source_intact fs e"
    and pl: "\<not> is_staged e \<Longrightarrow> placed (f_data f) c e" "c \<le> length (f_data f)"
  shows "length (zip_bytes fs f e) = unat (pk3_compressed_size e)"
proof (cases "is_staged e")
  case True
  then show ?thesis
    using st k by (auto simp: zip_bytes_def zip_staged_wf_def zip_kind_wf_def is_staged_def source_intact_def
        split: option.splits)
next
  case False
  then have "unat (pk3_payload_offset e) + unat (pk3_compressed_size e) \<le> length (f_data f)"
    using pl by (simp add: placed_def)
  with False show ?thesis by (simp add: zip_bytes_def is_staged_def)
qed

text \<open>The reader stands at the start of the contents of \<open>e\<close>.\<close>

definition zip_opened :: "deflate_ops \<Rightarrow> files \<Rightarrow> cfile \<Rightarrow> pentry \<Rightarrow> cfile \<Rightarrow> reader \<Rightarrow> bool" where
  "zip_opened D fs f e g r \<longleftrightarrow>
     (\<exists>c. reader_at g r c 0 \<and> zip_content D fs f e = Some c \<and> length c = unat (entry_length e))"

lemma zip_openedI:
  "reader_at g r c 0 \<Longrightarrow> zip_content D fs f e = Some c \<Longrightarrow> length c = unat (entry_length e) \<Longrightarrow> zip_opened D fs f e g r"
  by (auto simp: zip_opened_def)

lemma zip_inflated_opened:
  assumes b: "b = zip_bytes fs f e" and m: "pk3_method e \<noteq> PK3_METHOD_STORED"
    and i: "pk3_inflate D env b (entry_length e) = (PAKKA_OK, x)"
    and r0: "unat (remaining r) = unat (entry_length e)" "inflated_cursor r = 0" "unat (next_offset r) < 2 ^ 33"
  shows "zip_opened D fs f e g (r\<lparr>inflated_buf := x\<rparr>)"
proof -
  from pk3_inflate_OK [OF i m] obtain c where c: "zip_decode D (pk3_method e) (entry_length e) b = Some c"
    "length c = unat (entry_length e)" "x = (if entry_length e = 0 then None else Some c)" by blast
  have "reader_at g (r\<lparr>inflated_buf := x\<rparr>) c 0"
    using r0 c(2,3) by (cases "entry_length e = 0") (simp_all add: reader_at_def)
  then show ?thesis by (rule zip_openedI) (use c b in \<open>simp_all add: zip_content_def\<close>)
qed

lemma pk3_open_pending_spec:
  assumes k: "zip_kind_wf e" and st: "is_staged e" "zip_staged_wf e" "source_intact fs e"
    and r0: "unat (remaining r) = unat (entry_length e)" "inflated_cursor r = 0" "unat (next_offset r) < 2 ^ 33"
      "inflated_buf r = None"
    and op: "pk3_open_pending D env fs r e = (PAKKA_OK, r')"
  shows "zip_opened D fs f e g r'"
proof -
  let ?n = "unat (pk3_compressed_size e)" and ?b = "zip_bytes fs f e"
  have l: "length ?b = ?n" by (rule zip_stored_length [OF k st(2,3) _ le_refl]) (use st(1) in simp)
  show ?thesis
  proof (cases "?n = 0")
    case True
    then have m: "pk3_method e = PK3_METHOD_STORED" "entry_length e = 0"
      using st(2) k by (auto simp: zip_staged_wf_def zip_kind_wf_def unat_eq_0)
    have r': "r' = r\<lparr>remaining := 0\<rparr>" using op True by (simp add: pk3_open_pending_def)
    have "reader_at g r' [] 0" by (rule reader_at_empty) (use r0 r' in simp_all)
    moreover have "zip_content D fs f e = Some []" using l True m by (simp add: zip_content_def zip_decode_def)
    ultimately show ?thesis by (rule zip_openedI) (simp add: m)
  next
    case nz: False
    obtain s b where pb: "(case pending_source e of Some source \<Rightarrow> read_pending_source env fs source ?n
      | None \<Rightarrow> (PAKKA_OK, take ?n (case_option [] id (pending_data e)))) = (s, b)" by fastforce
    have s: "s = PAKKA_OK" using op nz pb by (auto simp: pk3_open_pending_def Let_def split: if_splits)
    have b: "b = ?b"
    proof (cases "pending_source e")
      case None
      with st(1,2) pb show ?thesis by (auto simp: zip_bytes_def is_staged_def zip_staged_wf_def)
    next
      case (Some q)
      then have "pk3_compressed_size e = entry_length e" using st(2) k by (simp add: zip_staged_wf_def zip_kind_wf_def)
      with Some pb s st(3) read_pending_source_OK [of env fs q ?n b] show ?thesis
        by (simp add: zip_bytes_def source_intact_def)
    qed
    show ?thesis
    proof (cases "pk3_method e = PK3_METHOD_DEFLATE")
      case True
      obtain s2 x where i: "pk3_inflate D env b (entry_length e) = (s2, x)" by fastforce
      then have res: "s2 = PAKKA_OK" "r' = r\<lparr>inflated_buf := x\<rparr>"
        using op nz pb s True by (auto simp: pk3_open_pending_def Let_def split: if_splits)
      have "pk3_method e \<noteq> PK3_METHOD_STORED" using True by (simp add: PK3_METHOD_DEFLATE_def PK3_METHOD_STORED_def)
      from zip_inflated_opened [OF b this i [unfolded res(1)] r0(1-3)] show ?thesis by (simp add: res(2))
    next
      case False
      then have m: "pk3_method e = PK3_METHOD_STORED" "pk3_compressed_size e = entry_length e"
        using k by (auto simp: zip_kind_wf_def)
      have r': "r' = r\<lparr>inflated_buf := Some b\<rparr>"
        using op nz pb s False by (auto simp: pk3_open_pending_def Let_def split: if_splits)
      have "reader_at g r' b 0" using r0 b l m(2) by (simp add: r' reader_at_def)
      then show ?thesis by (rule zip_openedI) (use b l m in \<open>simp_all add: zip_content_def zip_decode_def\<close>)
    qed
  qed
qed

lemma pk3_load_compressed_spec:
  assumes r: "pk3_load_compressed env f e = (s, b, g)" and n: "pk3_compressed_size e \<noteq> 0"
  shows "f_data g = f_data f \<and> (s = PAKKA_OK \<longrightarrow> \<not> is_staged e \<longrightarrow> b = zip_bytes fs f e \<and> length b = unat (pk3_compressed_size e))"
proof -
  have p: "0 < unat (pk3_compressed_size e)" using n by (simp add: unat_gt_0)
  obtain ok f1 where sk: "fseek_set f (unat (pk3_payload_offset e)) = (ok, f1)" by fastforce
  obtain x f2 where rd: "fread_all f1 (unat (pk3_compressed_size e)) = (x, f2)" by fastforce
  have d1: "f_data f1 = f_data f" using sk by (auto simp: fseek_set_def split: if_splits)
  have d2: "f_data f2 = f_data f" using fread_all_data [OF rd] d1 by simp
  have d: "f_data g = f_data f"
    using r sk rd d1 d2 by (auto simp: pk3_load_compressed_def split: if_splits option.splits)
  have "b = zip_bytes fs f e \<and> length b = unat (pk3_compressed_size e)" if "s = PAKKA_OK" "\<not> is_staged e"
  proof -
    have x: "ok" "x = Some b"
      using r that(1) sk rd by (auto simp: pk3_load_compressed_def split: if_splits option.splits)
    have "f_pos f1 = unat (pk3_payload_offset e)" using sk x(1) by (simp add: fseek_set_True)
    with fread_all_Some [OF rd [unfolded x(2)] p] d1 that(2) show ?thesis
      by (auto simp: f_has_def zip_bytes_def is_staged_def)
  qed
  with d show ?thesis by blast
qed

lemma pk3_open_entry_spec:
  assumes wf: "zip_archive_wf a" and fp: "fp a = Some f" and e: "e \<in> set (entries a)" and si: "source_intact fs e"
    and op: "pakka_pk3_open_entry_impl D env fs a r e = (s, r', a')"
  shows "\<exists>g. a' = a\<lparr>fp := Some g\<rparr> \<and> f_data g = f_data f \<and> (s = PAKKA_OK \<longrightarrow> zip_opened D fs f e g r')"
proof -
  have k: "zip_kind_wf e" and sw: "is_staged e \<Longrightarrow> zip_staged_wf e"
    and pl: "\<not> is_staged e \<Longrightarrow> placed (f_data f) (unat (pk3_cdr_offset a)) e"
    and cd: "unat (pk3_cdr_offset a) \<le> length (f_data f)"
    using wf e fp by (auto simp: zip_archive_wf_def)
  define r1 where "r1 = r\<lparr>next_offset := ucast (pk3_payload_offset e), remaining := ucast (entry_length e),
                 inflated_buf := None, inflated_cursor := 0\<rparr>"
  have R: "unat (remaining r1) = unat (entry_length e)" "inflated_cursor r1 = 0" "unat (next_offset r1) < 2 ^ 33"
      "inflated_buf r1 = None" "unat (next_offset r1) = unat (pk3_payload_offset e)"
    using unat_remaining by (simp_all add: r1_def)
  note id = fp_update_id [OF fp]
  note op' = op [unfolded pakka_pk3_open_entry_impl_def Let_def r1_def [symmetric]]
  show ?thesis
  proof (cases "over_cap a (entry_length e) (pk3_compressed_size e)")
    case True
    with op' have "s \<noteq> PAKKA_OK" "a' = a" by auto
    then show ?thesis by (intro exI [of _ f]) (simp add: id)
  next
    case cap: False
    show ?thesis
    proof (cases "is_staged e")
      case True
      obtain s2 r2 where p: "pk3_open_pending D env fs r1 e = (s2, r2)" by fastforce
      then have res: "s = s2" "r' = r2" "a' = a" using op' cap True by (auto simp: is_staged_def)
      have "zip_opened D fs f e f r'" if "s = PAKKA_OK"
        by (rule pk3_open_pending_spec [OF k True sw [OF True] si R(1-4)]) (use p res that in simp)
      then show ?thesis using res by (intro exI [of _ f]) (simp add: id)
    next
      case ns: False
      then have np: "\<not> (pending_source e \<noteq> None \<or> pending_data e \<noteq> None)" by (simp add: is_staged_def)
      have l: "length (zip_bytes fs f e) = unat (pk3_compressed_size e)"
        by (rule zip_stored_length [OF k _ si pl cd]) (use ns in simp_all)
      show ?thesis
      proof (cases "pk3_method e = PK3_METHOD_STORED")
        case True
        then have m: "pk3_compressed_size e = entry_length e" using k by (simp add: zip_kind_wf_def)
        have res: "s = PAKKA_OK" "r' = r1" "a' = a" using op' cap np True by auto
        have "unat (next_offset r1) + unat (entry_length e) < 2 ^ 34"
          using R(3) unat_u32_bound [of "entry_length e"] by simp
        then have "reader_at f r1 (zip_bytes fs f e) 0"
          using R l m ns by (simp add: reader_at_def) (simp add: zip_bytes_def is_staged_def)
        then have "zip_opened D fs f e f r1"
          by (rule zip_openedI) (use True l m in \<open>simp_all add: zip_content_def zip_decode_def\<close>)
        with res show ?thesis by (intro exI [of _ f]) (simp add: id)
      next
        case m: False
        show ?thesis
        proof (cases "pk3_compressed_size e = 0")
          case True
          with op' cap np m have "s \<noteq> PAKKA_OK" "a' = a" by auto
          then show ?thesis by (intro exI [of _ f]) (simp add: id)
        next
          case nz: False
          obtain s2 b g where ld: "pk3_load_compressed env f e = (s2, b, g)" using prod_cases3 by blast
          note L = pk3_load_compressed_spec [OF ld nz, of fs]
          obtain s3 x where i: "pk3_inflate D env b (entry_length e) = (s3, x)" by fastforce
          show ?thesis
          proof (cases "s2 = PAKKA_OK \<and> s3 = PAKKA_OK")
            case True
            have res: "s = PAKKA_OK" "r' = r1\<lparr>inflated_buf := x\<rparr>" "a' = a\<lparr>fp := Some g\<rparr>"
              using op' cap np m nz fp ld i True by auto
            have b: "b = zip_bytes fs f e" using L True ns by simp
            have i': "pk3_inflate D env b (entry_length e) = (PAKKA_OK, x)" using i True by simp
            from zip_inflated_opened [OF b m i' R(1-3)] L show ?thesis
              by (intro exI [of _ g]) (simp add: res)
          next
            case False
            then have "s \<noteq> PAKKA_OK" "a' = a\<lparr>fp := Some g\<rparr>"
              using op' cap np m nz fp ld i by (auto split: if_splits)
            with L show ?thesis by blast
          qed
        qed
      qed
    qed
  qed
qed

lemma zip_opens_at:
  assumes wf: "zip_archive_wf a" and fp: "fp a = Some f" and e: "e \<in> set (entries a)" and si: "source_intact fs e"
  shows "opens_at (pk3_ops D) env fs a f e (\<lambda>c. zip_content D fs f e = Some c \<and> length c = unat (entry_length e))"
  unfolding opens_at_def
proof (intro allI impI)
  fix s rd a1
  assume r: "pakka_open_entry_handle (pk3_ops D) env fs (Some a) (Some e) = (s, rd, a1)"
  have z: "pakka_format_is_zip (format a)" using wf by (simp add: zip_archive_wf_def)
  define r0 where "r0 = calloc_reader\<lparr>next_offset := ucast (offset e), remaining := ucast (entry_length e)\<rparr>"
  note r' = r [unfolded pakka_open_entry_handle_def Let_def r0_def [symmetric]]
  obtain s1 r1 a2 where i: "pakka_pk3_open_entry_impl D env fs a r0 e = (s1, r1, a2)" using prod_cases3 by blast
  from pk3_open_entry_spec [OF wf fp e si i] obtain g where
    g: "a2 = a\<lparr>fp := Some g\<rparr>" "f_data g = f_data f" "s1 = PAKKA_OK \<longrightarrow> zip_opened D fs f e g r1" by blast
  show "\<exists>g. a1 = Some (a\<lparr>fp := Some g\<rparr>) \<and> f_data g = f_data f \<and>
      (if s = PAKKA_OK
       then \<exists>r c. rd = Some r \<and> reader_at g r c 0 \<and> zip_content D fs f e = Some c \<and> length c = unat (entry_length e)
       else rd = None)"
  proof (cases "e_oom env A_reader")
    case True
    with r' fp show ?thesis by (intro exI [of _ f]) (simp add: fp_update_id [OF fp])
  next
    case False
    then have res: "s = s1" "a1 = Some a2" "rd = (if s1 = PAKKA_OK then Some r1 else None)"
      using r' fp z i [unfolded r0_def] by (auto simp: pk3_ops_def split: if_splits)
    with g show ?thesis by (intro exI [of _ g]) (auto simp: zip_opened_def)
  qed
qed

text \<open>C30: reading a whole entry of a ZIP archive gives exactly what its bytes, staged or in the file, decode
  to, of the length the entry declares, and NULL for an entry of length zero; on every error, a stream
  that does not inflate to the declared length among them, there is no data. The archive differs in
  nothing but the position of its stream.\<close>

theorem zip_read_entry_alloc_spec:
  assumes wf: "zip_archive_wf a" and fp: "fp a = Some f" and e: "find_entry a n = Some e" and si: "source_intact fs e"
    and r: "pakka_read_entry_alloc (pk3_ops D) env fs (Some a) (Some n) = (s, data, a1)"
  shows "(\<exists>g. a1 = Some (a\<lparr>fp := Some g\<rparr>) \<and> f_data g = f_data f)
    \<and> (if s = PAKKA_OK \<and> entry_length e \<noteq> 0
       then data = zip_content D fs f e \<and> length (the data) = unat (entry_length e) else data = None)"
proof -
  have m: "e \<in> set (entries a)" using e find_entry_from_filename by (simp add: find_entry_def)
  have k: "pakka_format_is_zip (format a) \<longrightarrow> pk3_ops D = pk3_ops D" by simp
  from reads.read_entry [OF fp k e zip_opens_at [OF wf fp m si] r] show ?thesis by (auto split: if_splits)
qed

end
