(* ===== verification/Zip_Edit.thy ===== *)
theory Zip_Edit
  imports Zip_Reader
begin

text \<open>
  Changing a ZIP archive: the queued adds, delete, rename and copy keep the invariant and change the
  names and contents of the archive by exactly what they are asked to.
\<close>

definition zip_files :: "deflate_ops \<Rightarrow> files \<Rightarrow> cfile \<Rightarrow> archive \<Rightarrow> (cstring \<times> u8 list option) list" where
  "zip_files D fs f a = map (\<lambda>e. (filename e, zip_content D fs f e)) (entries a)"

text \<open>The names and contents are a function of what a commit keeps.\<close>

lemma zip_files_listing:
  "zip_files D fs f a = map (\<lambda>(n, m, c, l, b). (n, zip_decode D m l b)) (zip_listing fs f a)"
  by (simp add: zip_files_def zip_listing_def zip_view_def zip_content_def)

lemma zip_listing_files: "zip_listing gs g b = zip_listing fs f a \<Longrightarrow> zip_files D gs g b = zip_files D fs f a"
  by (simp add: zip_files_listing)

lemma zip_preflight:
  assumes "pak_add_preflight a n = PAKKA_OK" "zip_archive_wf a"
  shows "length n < PAKKA_ENTRY_NAME_SIZE \<and> pakka_unsafe_entry_name (Some n) = Ok False \<and> find_entry a n = None"
  using assms
  by (auto simp: pak_add_preflight_def pak_entry_name_cap_def Let_def zip_archive_wf_def pakka_format_is_zip_def
      pakka_format_is_wad_def split: if_splits)

section \<open>Linking\<close>

lemma zip_link:
  assumes wf: "zip_archive_wf a" and n: "find_entry a (filename e) = None" and k: "zip_kind_wf e"
    and st: "if is_staged e then zip_staged_wf e
      else \<forall>f. fp a = Some f \<longrightarrow> placed (f_data f) (unat (pk3_cdr_offset a)) e"
    and sz: "Suc (length (entries a)) < 2 ^ 32"
  shows "zip_archive_wf (pk3_link_pending_entry a e)"
proof -
  have "names_distinct (entries a @ [e])"
    using dir.valid_add [of "entries a" e] wf n by (simp add: zip_archive_wf_def find_entry_def)
  moreover have "unat (num_entries a + 1) = Suc (length (entries a))"
    using wf sz by (intro unat_inc) (simp_all add: zip_archive_wf_def)
  ultimately show ?thesis
    using wf k st unfolding zip_archive_wf_def pk3_link_pending_entry_def by auto
qed

text \<open>What a client sees of a successful add.\<close>

definition zip_added :: "deflate_ops \<Rightarrow> files \<Rightarrow> archive \<Rightarrow> cstring \<Rightarrow> u8 list \<Rightarrow> archive \<Rightarrow> bool" where
  "zip_added D fs a n p a' \<longleftrightarrow> zip_archive_wf a' \<and> dirty a' \<and> needs_rebuild a'
     \<and> (\<exists>e. a' = pk3_link_pending_entry a e \<and> filename e = n \<and> crc32 e = pakka_crc32_update 0 p
          \<and> unat (entry_length e) = length p \<and> is_staged e \<and> source_intact fs e
          \<and> (\<forall>f. zip_content D fs f e = Some p))"

lemma zip_added_files: "zip_added D fs a n p a' \<Longrightarrow> zip_files D fs f a' = zip_files D fs f a @ [(n, Some p)]"
  by (auto simp: zip_added_def zip_files_def pk3_link_pending_entry_def)

lemma zip_addedI:
  assumes wf: "zip_archive_wf a" and pre: "pak_add_preflight a n = PAKKA_OK" and cs: "c_string n"
    and sz: "Suc (length (entries a)) < 2 ^ 32"
    and e: "filename e = n" "crc32 e = pakka_crc32_update 0 p" "unat (entry_length e) = length p" "is_staged e"
      "source_intact fs e" "zip_staged_wf e" "pk3_method e \<in> {PK3_METHOD_STORED, PK3_METHOD_DEFLATE}"
      "\<not> dk_is_compressed e" "pk3_method e = PK3_METHOD_STORED \<longrightarrow> pk3_compressed_size e = entry_length e"
    and c: "\<And>f. zip_content D fs f e = Some p"
  shows "zip_added D fs a n p (pk3_link_pending_entry a e)"
proof -
  note p = zip_preflight [OF pre wf]
  have k: "zip_kind_wf e" using e p cs by (simp add: zip_kind_wf_def)
  have "zip_archive_wf (pk3_link_pending_entry a e)"
    by (rule zip_link [OF wf _ k _ sz]) (use e p in simp_all)
  then show ?thesis
    using e c by (auto simp: zip_added_def pk3_link_pending_entry_def)
qed

section \<open>The payload of an add\<close>

definition pending_entry :: "cstring \<Rightarrow> u32 \<Rightarrow> nat \<Rightarrow> pentry" where
  "pending_entry n crc len = calloc_entry\<lparr>filename := n, pk3_method := PK3_METHOD_STORED, crc32 := crc,
     pk3_compressed_size := of_nat len, entry_length := of_nat len\<rparr>"

lemma pending_entry_simps [simp]:
  "filename (pending_entry n crc len) = n" "pk3_method (pending_entry n crc len) = PK3_METHOD_STORED"
  "crc32 (pending_entry n crc len) = crc" "pk3_compressed_size (pending_entry n crc len) = of_nat len"
  "entry_length (pending_entry n crc len) = of_nat len" "pending_source (pending_entry n crc len) = None"
  "pending_data (pending_entry n crc len) = None" "dk_is_compressed (pending_entry n crc len) = False"
  by (simp_all add: pending_entry_def calloc_entry_def)

lemma alloc_pending_OK:
  "pk3_alloc_pending_entry env n crc len = (PAKKA_OK, e) \<Longrightarrow> e = pending_entry n crc len \<and> len < 2 ^ 32"
  by (auto simp: pk3_alloc_pending_entry_def pending_entry_def UINT32_MAX_def split: if_splits)

lemma unat_len: "len < 2 ^ 32 \<Longrightarrow> unat (of_nat len :: u32) = len"
  by (rule unat_of_nat_u32)

lemma added_plain:
  assumes wf: "zip_archive_wf a" and pre: "pak_add_preflight a n = PAKKA_OK" and cs: "c_string n"
    and sz: "Suc (length (entries a)) < 2 ^ 32" and l: "length p < 2 ^ 32" and c: "crc = pakka_crc32_update 0 p"
  shows "zip_added D fs a n p (pk3_link_pending_entry a (pending_entry n crc (length p)\<lparr>pending_data := Some p\<rparr>))"
  using l c unat_len [OF l]
  by (intro zip_addedI [OF wf pre cs sz])
    (simp_all add: is_staged_def source_intact_def zip_staged_wf_def zip_content_def zip_decode_def zip_bytes_def)

lemma added_source:
  assumes wf: "zip_archive_wf a" and pre: "pak_add_preflight a n = PAKKA_OK" and cs: "c_string n"
    and sz: "Suc (length (entries a)) < 2 ^ 32" and l: "length p < 2 ^ 32" and c: "crc = pakka_crc32_update 0 p"
    and q: "file_bytes fs q = p"
  shows "zip_added D fs a n p (pk3_link_pending_entry a (pending_entry n crc (length p)\<lparr>pending_source := Some q\<rparr>))"
  using l c q unat_len [OF l]
  by (intro zip_addedI [OF wf pre cs sz])
    (simp_all add: is_staged_def source_intact_def zip_staged_wf_def zip_content_def zip_decode_def zip_bytes_def)

lemma added_packed:
  assumes wf: "zip_archive_wf a" and pre: "pak_add_preflight a n = PAKKA_OK" and cs: "c_string n"
    and sz: "Suc (length (entries a)) < 2 ^ 32" and l: "length p < 2 ^ 32" and c: "crc = pakka_crc32_update 0 p"
    and D: "deflate_contract D" "d_compress D oom p = (PAKKA_OK, Some enc)"
  shows "zip_added D fs a n p (pk3_link_pending_entry a
    (pending_entry n crc (length p)\<lparr>pk3_method := PK3_METHOD_DEFLATE, pk3_compressed_size := of_nat (length enc),
       pending_data := Some enc\<rparr>))"
proof -
  have d: "enc \<noteq> []" "length enc < length p" "d_inflate D enc True (length p) = (PAKKA_OK, p, length enc)"
    using D unfolding deflate_contract_def by blast+
  then have le: "length enc < 2 ^ 32" and p0: "(of_nat (length p) :: u32) \<noteq> 0"
    and e0: "(of_nat (length enc) :: u32) \<noteq> 0"
    using l unat_len [of "length p"] unat_len [of "length enc"] by (auto simp: unat_eq_0 [symmetric])
  show ?thesis
    using l c unat_len [OF l] unat_len [OF le] d p0 e0
    by (intro zip_addedI [OF wf pre cs sz])
      (simp_all add: is_staged_def source_intact_def zip_staged_wf_def zip_content_def zip_decode_def zip_bytes_def
        PK3_METHOD_DEFLATE_def PK3_METHOD_STORED_def)
qed

section \<open>Adding a buffer\<close>

lemma pk3_encode_cases:
  assumes "pk3_encode D env e b = (s, e')"
  shows "s \<noteq> PAKKA_OK \<or> s = PAKKA_OK \<and> e' = e
    \<or> (\<exists>enc. s = PAKKA_OK \<and> d_compress D (e_oom env) b = (PAKKA_OK, Some enc)
        \<and> e' = e\<lparr>pk3_method := PK3_METHOD_DEFLATE, pk3_compressed_size := of_nat (length enc), pending_data := Some enc\<rparr>)"
  using assms by (auto simp: pk3_encode_def split: prod.splits if_splits option.splits)

lemma pk3_add_memory_cases:
  assumes wf: "zip_archive_wf a" and pre: "pak_add_preflight a n = PAKKA_OK" and cs: "c_string n"
    and sz: "Suc (length (entries a)) < 2 ^ 32" and D: "deflate_contract D"
    and r: "pakka_pk3_add_memory_impl D env a n p = (s, a')"
  shows "if s = PAKKA_OK then zip_added D fs a n p a' else a' = a"
proof -
  let ?crc = "if p \<noteq> [] then pakka_crc32_update 0 p else 0"
  have crc: "?crc = pakka_crc32_update 0 p" using crc.update_Nil by auto
  obtain s1 e where al: "pk3_alloc_pending_entry env n ?crc (length p) = (s1, e)" by fastforce
  obtain s2 e2 where en: "(if p \<noteq> [] \<and> pk3_compression a = PK3_METHOD_DEFLATE then pk3_encode D env e p
      else (PAKKA_OK, e)) = (s2, e2)" by fastforce
  note r' = r [unfolded pakka_pk3_add_memory_impl_def Let_def al prod.case en]
  show ?thesis
  proof (cases "s = PAKKA_OK")
    case False
    with r' show ?thesis by (auto split: if_splits)
  next
    case True
    then have s12: "s1 = PAKKA_OK" "s2 = PAKKA_OK" using r' by (auto split: if_splits)
    note e = alloc_pending_OK [OF al [unfolded s12(1)]]
    have "e2 = e \<or> (\<exists>enc. d_compress D (e_oom env) p = (PAKKA_OK, Some enc)
        \<and> e2 = e\<lparr>pk3_method := PK3_METHOD_DEFLATE, pk3_compressed_size := of_nat (length enc), pending_data := Some enc\<rparr>)"
      using en pk3_encode_cases [of D env e p s2 e2] s12(2) by (auto split: if_splits)
    then show ?thesis
    proof (elim disjE exE conjE)
      assume "e2 = e"
      then have "a' = pk3_link_pending_entry a (pending_entry n ?crc (length p)\<lparr>pending_data := Some p\<rparr>)"
        using r' True s12 e by (auto split: if_splits)
      with added_plain [OF wf pre cs sz _ crc] e True show ?thesis by simp
    next
      fix enc
      assume c: "d_compress D (e_oom env) p = (PAKKA_OK, Some enc)"
        and e2: "e2 = e\<lparr>pk3_method := PK3_METHOD_DEFLATE, pk3_compressed_size := of_nat (length enc), pending_data := Some enc\<rparr>"
      then have "a' = pk3_link_pending_entry a e2" using r' True s12 by (auto split: if_splits)
      with added_packed [OF wf pre cs sz _ crc D c] e e2 True show ?thesis by simp
    qed
  qed
qed

section \<open>Adding a file\<close>

lemma fread_end:
  assumes "fread f n = ([], g)" "0 < n" "\<not> f_error g"
  shows "drop (f_pos f) (f_data f) = []"
  using assms by (auto simp: fread_def Let_def min_def split: if_splits)

lemma pk3_scan_source_OK:
  "pk3_scan_source src crc tot = (PAKKA_OK, c, n, g) \<Longrightarrow> \<not> f_error g \<Longrightarrow>
   c = pakka_crc32_update crc (drop (f_pos src) (f_data src)) \<and> n = tot + length (drop (f_pos src) (f_data src))"
proof (induction src crc tot rule: pk3_scan_source.induct)
  case (1 src crc tot)
  obtain got src1 where rd: "fread src PAKFILE_COPY_CHUNK = (got, src1)" by fastforce
  have ch: "0 < PAKFILE_COPY_CHUNK" by (simp add: PAKFILE_COPY_CHUNK_def)
  show ?case
  proof (cases "got = []")
    case True
    have eq: "c = crc" "n = tot" "g = src1"
      using 1(2) rd True by (auto simp: pk3_scan_source.simps [of src])
    with fread_end [OF rd [unfolded True] ch] 1(3) show ?thesis by (simp add: crc.update_Nil)
  next
    case False
    have rest: "pk3_scan_source src1 (pakka_crc32_update crc got) (tot + length got) = (PAKKA_OK, c, n, g)"
      and lim: "\<not> tot + length got > UINT32_MAX"
      using 1(2) rd False by (auto simp: pk3_scan_source.simps [of src] Let_def split: if_splits)
    note IH = 1(1) [OF rd [symmetric] refl False refl refl lim rest 1(3)]
    note sh = fread_shape [OF rd]
    then have sh': "f_data src1 = f_data src" "f_pos src1 = f_pos src + length got"
      "take (length got) (drop (f_pos src) (f_data src)) = got" by auto
    have "drop (f_pos src) (f_data src) = got @ drop (length got) (drop (f_pos src) (f_data src))"
      using append_take_drop_id [of "length got" "drop (f_pos src) (f_data src)"] unfolding sh'(3) by simp
    then have split: "drop (f_pos src) (f_data src) = got @ drop (f_pos src1) (f_data src1)"
      unfolding sh'(1,2) drop_drop by (simp only: add.commute [of "f_pos src"])
    from IH show ?thesis unfolding split by (simp add: crc.update_append)
  qed
qed

lemma source_preflight_OK:
  "pak_add_source_preflight env fs q = PAKKA_OK \<Longrightarrow> \<exists>b. fs q = Some (Regular b)"
  by (auto simp: pak_add_source_preflight_def pakka_platform_lstat_def split: if_splits option.splits node.splits)

lemma fopen_regular:
  "pakka_platform_fopen env fs q w = Some f \<Longrightarrow> fs q = Some (Regular b) \<Longrightarrow> source_of f b"
  by (auto simp: pakka_platform_fopen_def source_of_def stream_of_def)

lemma pk3_add_captured_cases:
  assumes wf: "zip_archive_wf a" and pre: "pak_add_preflight a n = PAKKA_OK" and cs: "c_string n"
    and sz: "Suc (length (entries a)) < 2 ^ 32" and D: "deflate_contract D"
    and q: "fs q = Some (Regular p)" and l: "length p < 2 ^ 32" "p \<noteq> []"
    and r: "pk3_add_captured D env fs a q (pending_entry n crc (length p)) (length p) = (s, a')"
  shows "if s = PAKKA_OK then zip_added D fs a n p a' else a' = a"
proof (cases "s = PAKKA_OK")
  case False
  with r show ?thesis
    by (auto simp: pk3_add_captured_def Let_def split: if_splits option.splits prod.splits)
next
  case True
  then obtain src b h s2 e2 where o2: "pakka_platform_fopen env fs q False = Some src"
    and rd: "fread_all src (length p) = (Some b, h)"
    and en: "pk3_encode D env (pending_entry n crc (length p)\<lparr>crc32 := pakka_crc32_update 0 b\<rparr>) b = (s2, e2)"
    using r unfolding pk3_add_captured_def Let_def
    by (auto split: if_splits option.splits prod.splits)
  then have s2: "s2 = PAKKA_OK"
    and a': "a' = pk3_link_pending_entry a (if pending_data e2 = None then e2\<lparr>pending_data := Some b\<rparr> else e2)"
    using r True unfolding pk3_add_captured_def Let_def by (auto split: if_splits)
  have p0: "0 < length p" using l(2) by simp
  have b: "b = p" using fread_all_Some [OF rd p0] source_has [OF fopen_regular [OF o2 q]] by blast
  let ?e = "pending_entry n (pakka_crc32_update 0 p) (length p)"
  have upd: "pending_entry n crc (length p)\<lparr>crc32 := pakka_crc32_update 0 p\<rparr> = ?e"
    by (simp add: pending_entry_def)
  from pk3_encode_cases [OF en [unfolded b upd]] s2
  consider (plain) "e2 = ?e"
    | (packed) enc where "d_compress D (e_oom env) p = (PAKKA_OK, Some enc)"
        "e2 = ?e\<lparr>pk3_method := PK3_METHOD_DEFLATE, pk3_compressed_size := of_nat (length enc), pending_data := Some enc\<rparr>"
    by auto
  then have "zip_added D fs a n p a'"
  proof cases
    case plain
    then show ?thesis using added_plain [OF wf pre cs sz l(1) refl] by (simp add: a' b)
  next
    case packed
    then show ?thesis using added_packed [OF wf pre cs sz l(1) refl D] by (simp add: a')
  qed
  with True show ?thesis by simp
qed

lemma pk3_add_file_cases:
  assumes wf: "zip_archive_wf a" and pre: "pak_add_preflight a n = PAKKA_OK" and cs: "c_string n"
    and sz: "Suc (length (entries a)) < 2 ^ 32" and D: "deflate_contract D" and q: "fs q = Some (Regular p)"
    and r: "pakka_pk3_add_file_impl D env fs a q n = (s, a')"
  shows "if s = PAKKA_OK then zip_added D fs a n p a' else a' = a"
proof (cases "pakka_platform_fopen env fs q False")
  case None
  with r show ?thesis by (auto simp: pakka_pk3_add_file_impl_def split: if_splits)
next
  case (Some src)
  have so: "source_of src p" by (rule fopen_regular [OF Some q])
  have fb: "file_bytes fs q = p" using q by (simp add: file_bytes_def)
  obtain sc c m g where scan: "pk3_scan_source src 0 0 = (sc, c, m, g)" using prod_cases4 by blast
  obtain sa e where al: "pk3_alloc_pending_entry env n c m = (sa, e)" by fastforce
  consider (failed) "s \<noteq> PAKKA_OK" "a' = a"
    | (went) "sc = PAKKA_OK" "\<not> f_error g" "sa = PAKKA_OK"
        "m > 0 \<and> pk3_add_captured D env fs a q e m = (s, a')
         \<or> s = PAKKA_OK \<and> a' = pk3_link_pending_entry a (e\<lparr>pending_source := Some q\<rparr>)"
    using r unfolding pakka_pk3_add_file_impl_def Let_def Some
    by (simp add: scan al split: if_splits)
  then show ?thesis
  proof cases
    case failed
    then show ?thesis by simp
  next
    case went
    have cm: "c = pakka_crc32_update 0 p" "m = length p"
      using pk3_scan_source_OK [OF scan [unfolded went(1)] went(2)] so by (simp_all add: source_of_def)
    have e: "e = pending_entry n c (length p)" and l: "length p < 2 ^ 32"
      using alloc_pending_OK [OF al [unfolded went(3)]] cm(2) by simp_all
    from went(4) show ?thesis
    proof
      assume "m > 0 \<and> pk3_add_captured D env fs a q e m = (s, a')"
      then have "p \<noteq> []" "pk3_add_captured D env fs a q (pending_entry n c (length p)) (length p) = (s, a')"
        using cm(2) e by auto
      then show ?thesis using pk3_add_captured_cases [where p = p and fs = fs and q = q, OF wf pre cs sz D q l] by blast
    next
      assume "s = PAKKA_OK \<and> a' = pk3_link_pending_entry a (e\<lparr>pending_source := Some q\<rparr>)"
      with added_source [OF wf pre cs sz l cm(1) fb] e show ?thesis by simp
    qed
  qed
qed

section \<open>The calls\<close>

lemma zip_add_memory_effect:
  assumes wf: "zip_archive_wf a" and cs: "c_string n" and sz: "Suc (length (entries a)) < 2 ^ 32"
    and D: "deflate_contract D" and len: "len \<le> length d"
    and r: "pakka_add_memory (pk3_ops D) env (Some a) (Some n) (Some d) len = (s, Some a')"
  shows "if s = PAKKA_OK then zip_added D fs a n (take len d) a' else a' = a"
proof -
  have z: "pakka_format_is_zip (format a)" using wf by (simp add: zip_archive_wf_def)
  obtain s1 a1 where i: "pakka_pk3_add_memory_impl D env a n (take len d) = (s1, a1)" by fastforce
  have "s \<noteq> PAKKA_OK \<and> a' = a \<or> pak_add_preflight a n = PAKKA_OK \<and> s = s1 \<and> a' = a1"
    using r z i by (auto simp: pakka_add_memory_def pk3_ops_def Let_def split: option.splits if_splits)
  with pk3_add_memory_cases [OF wf _ cs sz D i, of fs] show ?thesis by auto
qed

lemma zip_add_file_effect:
  assumes wf: "zip_archive_wf a" and cs: "c_string n" and sz: "Suc (length (entries a)) < 2 ^ 32"
    and D: "deflate_contract D"
    and r: "pakka_add_file (pk3_ops D) env fs (Some a) (Some q) (Some n) = (s, Some a')"
  shows "if s = PAKKA_OK then \<exists>p. fs q = Some (Regular p) \<and> zip_added D fs a n p a' else a' = a"
proof -
  have z: "pakka_format_is_zip (format a)" using wf by (simp add: zip_archive_wf_def)
  obtain s1 a1 where i: "pakka_pk3_add_file_impl D env fs a q n = (s1, a1)" by fastforce
  have "s \<noteq> PAKKA_OK \<and> a' = a
    \<or> pak_add_preflight a n = PAKKA_OK \<and> pak_add_source_preflight env fs q = PAKKA_OK \<and> s = s1 \<and> a' = a1"
    using r z i by (auto simp: pakka_add_file_def pk3_ops_def Let_def split: option.splits if_splits)
  then show ?thesis
  proof
    assume ok: "pak_add_preflight a n = PAKKA_OK \<and> pak_add_source_preflight env fs q = PAKKA_OK \<and> s = s1 \<and> a' = a1"
    then obtain p where p: "fs q = Some (Regular p)" using source_preflight_OK by blast
    from pk3_add_file_cases [OF wf _ cs sz D p i] ok p show ?thesis by auto
  qed simp
qed

text \<open>C29: adding to a ZIP archive, a buffer or a file, compressed or not, stages one new last entry whose
  contents, checksum and length are those of the bytes given; every other entry keeps its name, place
  and contents, the stream is not touched and the invariant survives. When the call fails, whatever the
  reason, the archive is exactly what it was.\<close>

theorem zip_add_spec:
  assumes wf: "zip_archive_wf a" and cs: "c_string n" and sz: "Suc (length (entries a)) < 2 ^ 32"
    and D: "deflate_contract D" and len: "len \<le> length d"
    and r: "pakka_add_memory (pk3_ops D) env (Some a) (Some n) (Some d) len = (s, Some a')
      \<and> p = take len d
      \<or> pakka_add_file (pk3_ops D) env fs (Some a) (Some q) (Some n) = (s, Some a') \<and> p = file_bytes fs q"
  shows "if s = PAKKA_OK
    then zip_archive_wf a' \<and> dirty a' \<and> needs_rebuild a' \<and> fp a' = fp a
      \<and> zip_files D fs f a' = zip_files D fs f a @ [(n, Some p)]
      \<and> crc32 (last (entries a')) = pakka_crc32_update 0 p
      \<and> unat (entry_length (last (entries a'))) = length p \<and> butlast (entries a') = entries a
    else a' = a"
proof -
  have ad: "if s = PAKKA_OK then zip_added D fs a n p a' else a' = a"
    using r
  proof
    assume m: "pakka_add_memory (pk3_ops D) env (Some a) (Some n) (Some d) len = (s, Some a') \<and> p = take len d"
    then show ?thesis using zip_add_memory_effect [OF wf cs sz D len, of env s a' fs] by simp
  next
    assume m: "pakka_add_file (pk3_ops D) env fs (Some a) (Some q) (Some n) = (s, Some a') \<and> p = file_bytes fs q"
    then show ?thesis using zip_add_file_effect [OF wf cs sz D, of env fs q s a']
      by (auto simp: file_bytes_def split: if_splits)
  qed
  show ?thesis
  proof (cases "s = PAKKA_OK")
    case True
    then have z: "zip_added D fs a n p a'" using ad by simp
    from zip_added_files [OF z] z True show ?thesis
      by (auto simp: zip_added_def pk3_link_pending_entry_def)
  qed (use ad in simp)
qed

section \<open>Delete, rename, copy\<close>

lemma zip_wf_entry: "zip_archive_wf a \<Longrightarrow> e \<in> set (entries a) \<Longrightarrow> zip_kind_wf e \<and> (if is_staged e then zip_staged_wf e
    else \<forall>f. fp a = Some f \<longrightarrow> placed (f_data f) (unat (pk3_cdr_offset a)) e)"
  by (simp add: zip_archive_wf_def)

lemma zip_delete_effect:
  assumes wf: "zip_archive_wf a" and r: "pakka_delete (Some a) (Some n) = (s, Some a')"
  shows "if s = PAKKA_OK then zip_archive_wf a' \<and> fp a' = fp a \<and> dirty a' \<and> pak_path a' = pak_path a
       \<and> (\<exists>xs e ys. entries a = xs @ e # ys \<and> entries a' = xs @ ys \<and> filename e = n \<and> n \<notin> filename ` set xs)
     else a' = a"
proof (cases "s = PAKKA_OK")
  case False
  with r show ?thesis by (auto simp: pakka_delete_def split: if_splits option.splits)
next
  case True
  with r obtain es where u: "unlink_entry (entries a) n = Some es"
    and a': "a' = a\<lparr>entries := es, num_entries := num_entries a - 1, dirty := True, needs_rebuild := True\<rparr>"
    by (auto simp: pakka_delete_def split: if_splits option.splits)
  from unlink_entry_split [OF u] obtain xs e ys where
    sp: "entries a = xs @ e # ys" "es = xs @ ys" "filename e = n" "n \<notin> filename ` set xs" by blast
  have d: "names_distinct es" using dir.valid_remove [OF _ u] wf by (simp add: zip_archive_wf_def)
  have "unat (num_entries a - 1) = length es"
    using wf sp by (intro unat_dec) (simp add: zip_archive_wf_def)
  then have "zip_archive_wf a'" using wf d sp unfolding zip_archive_wf_def a' by auto
  with True sp show ?thesis by (auto simp: a' pak_path_def)
qed

lemma zip_rename_effect:
  assumes wf: "zip_archive_wf a" and r: "pakka_rename (Some a) (Some old) (Some new) = (s, Some a')"
    and cs: "c_string new"
  shows "if s = PAKKA_OK then zip_archive_wf a' \<and> fp a' = fp a \<and> pak_path a' = pak_path a \<and> (dirty a \<longrightarrow> dirty a')
       \<and> (\<exists>xs e ys. entries a = xs @ e # ys \<and> entries a' = xs @ e\<lparr>filename := new\<rparr> # ys \<and> filename e = old
            \<and> old \<notin> filename ` set xs)
     else a' = a"
proof (cases "s = PAKKA_OK")
  case False
  with r show ?thesis by (auto simp: pakka_rename_def Let_def split: if_splits)
next
  case True
  have z: "pakka_format_is_zip (format a)" using wf by (simp add: zip_archive_wf_def)
  have m: "old \<in> filename ` set (entries a)"
    using r True by (auto simp: pakka_rename_def Let_def find_entry_None split: if_splits)
  from update_entry_split [OF m, of "\<lambda>e. e\<lparr>filename := new\<rparr>"] obtain xs e ys where
    sp: "entries a = xs @ e # ys" "filename e = old" "old \<notin> filename ` set xs"
    "update_entry (entries a) old (\<lambda>e. e\<lparr>filename := new\<rparr>) = xs @ e\<lparr>filename := new\<rparr> # ys" by blast
  show ?thesis
  proof (cases "old = new")
    case eq: True
    then have "a' = a" using r True by (auto simp: pakka_rename_def split: if_splits)
    moreover have "e = e\<lparr>filename := new\<rparr>" using sp(2) eq by simp
    ultimately show ?thesis using wf True sp by metis
  next
    case False
    then have pre: "pak_add_preflight a new = PAKKA_OK"
      and a': "a' = a\<lparr>entries := xs @ e\<lparr>filename := new\<rparr> # ys, dirty := True, needs_rebuild := True\<rparr>"
      using r True sp(4) z by (auto simp: pakka_rename_def Let_def split: if_splits)
    note p = zip_preflight [OF pre wf]
    have k: "zip_kind_wf (e\<lparr>filename := new\<rparr>)" and st: "is_staged (e\<lparr>filename := new\<rparr>) = is_staged e"
      "zip_staged_wf (e\<lparr>filename := new\<rparr>) = zip_staged_wf e" "placed d c (e\<lparr>filename := new\<rparr>) = placed d c e" for d c
      using zip_wf_entry [OF wf, of e] sp(1) p cs
      by (simp_all add: zip_kind_wf_def is_staged_def zip_staged_wf_def placed_def)
    have "names_distinct (xs @ e\<lparr>filename := new\<rparr> # ys)"
      using wf p sp(1) by (auto simp: zip_archive_wf_def names_distinct_def find_entry_None)
    then have "zip_archive_wf a'"
      using wf sp(1) k st unfolding zip_archive_wf_def a' by auto
    with True sp show ?thesis by (auto simp: a' pak_path_def)
  qed
qed

lemma zip_copy_effect:
  assumes wf: "zip_archive_wf a" and r: "pakka_copy oom (Some a) (Some src) (Some dst) = (s, Some a')"
    and cs: "c_string dst" and sz: "Suc (length (entries a)) < 2 ^ 32"
  shows "if s = PAKKA_OK then zip_archive_wf a' \<and> fp a' = fp a \<and> dirty a' \<and> pak_path a' = pak_path a
       \<and> (\<exists>e d. find_entry a src = Some e \<and> entries a' = entries a @ [d] \<and> filename d = dst
            \<and> (source_intact fs e \<longrightarrow> source_intact fs d) \<and> (\<forall>f. zip_content D fs f d = zip_content D fs f e))
     else a' = a"
proof (cases "s = PAKKA_OK")
  case False
  with r show ?thesis by (auto simp: pakka_copy_def Let_def split: if_splits option.splits)
next
  case True
  have z: "pakka_format_is_zip (format a)" using wf by (simp add: zip_archive_wf_def)
  from r True obtain e where e: "find_entry a src = Some e" and pre: "pak_add_preflight a dst = PAKKA_OK"
    by (auto simp: pakka_copy_def Let_def split: if_splits option.splits)
  note p = zip_preflight [OF pre wf]
  have ein: "e \<in> set (entries a)" using e find_entry_from_filename by (auto simp: find_entry_def)
  note ew = zip_wf_entry [OF wf ein]
  define d where "d = (calloc_entry\<lparr>filename := dst, entry_length := entry_length e, crc32 := crc32 e,
      dk_compressed_size := dk_compressed_size e, dk_is_compressed := dk_is_compressed e,
      pk3_compressed_size := pk3_compressed_size e, pk3_payload_offset := pk3_payload_offset e,
      pk3_lfh_offset := pk3_lfh_offset e, pk3_method := pk3_method e,
      offset := (if is_staged e then 0 else offset e),
      pending_data := pending_data e, pending_source := (if pending_data e = None then pending_source e else None)\<rparr>)"
  have a': "a' = pk3_link_pending_entry a d"
    using r True e pre z
    by (cases "pending_data e"; cases "pending_source e")
      (auto simp: pakka_copy_def Let_def pak_link_copy_entry_def pk3_link_pending_entry_def d_def is_staged_def
        calloc_entry_def split: if_splits)
  have df: "filename d = dst" "dk_is_compressed d = dk_is_compressed e" "entry_length d = entry_length e"
    "offset d = (if is_staged e then 0 else offset e)" "pending_data d = pending_data e"
    "pending_source d = (if pending_data e = None then pending_source e else None)" "pk3_method d = pk3_method e"
    "pk3_compressed_size d = pk3_compressed_size e" "pk3_payload_offset d = pk3_payload_offset e"
    "pk3_lfh_offset d = pk3_lfh_offset e"
    by (simp_all add: d_def)
  have one: "pending_source e = None \<or> pending_data e = None"
    using ew by (auto simp: zip_staged_wf_def is_staged_def split: if_splits)
  have st: "is_staged d = is_staged e" by (auto simp: is_staged_def df)
  have ps: "pending_source d = pending_source e" using one by (auto simp: df)
  have sw: "zip_staged_wf d = zip_staged_wf e" by (simp add: zip_staged_wf_def ps df(5,7,8))
  have pw: "\<not> is_staged e \<Longrightarrow> placed x c d = placed x c e" for x c by (simp add: placed_def df)
  have k: "zip_kind_wf d" using ew p cs by (simp add: zip_kind_wf_def df)
  have fd: "find_entry a (filename d) = None" using p df(1) by simp
  have "if is_staged d then zip_staged_wf d
      else \<forall>f. fp a = Some f \<longrightarrow> placed (f_data f) (unat (pk3_cdr_offset a)) d"
    using ew pw unfolding st sw by (auto split: if_splits)
  from zip_link [OF wf fd k this sz] have "zip_archive_wf a'" unfolding a' .
  moreover have "zip_content D fs f d = zip_content D fs f e" for f
    by (simp add: zip_content_def zip_bytes_def ps df(3,5,7-9) cong: option.case_cong)
  moreover have "source_intact fs e \<longrightarrow> source_intact fs d" by (simp add: source_intact_def ps df(3))
  ultimately show ?thesis using True e df(1) by (auto simp: a' pk3_link_pending_entry_def pak_path_def)
qed

section \<open>Samples\<close>

lemma ascii_c_string: "c_string (ascii ''p.cfg'')"
  by (simp add: c_string_def ascii_def)

text \<open>Three equal bytes are compressed to two by the sample codec.\<close>

definition packing_zip :: archive where
  "packing_zip = sample_zip\<lparr>pk3_compression := PK3_METHOD_DEFLATE\<rparr>"

definition packed_entry :: pentry where
  "packed_entry = calloc_entry\<lparr>filename := ascii ''p.cfg'', crc32 := pakka_crc32_update 0 [7, 7, 7], entry_length := 3,
     pk3_method := PK3_METHOD_DEFLATE, pk3_compressed_size := 2, pending_data := Some [7, 3]\<rparr>"

lemma packing_zip_wf: "zip_archive_wf packing_zip"
  using sample_zip_wf by (simp add: packing_zip_def zip_archive_wf_def)

lemma packing_zip_simps [simp]:
  "fp packing_zip = Some zip_fp" "writable packing_zip" "entries packing_zip = [zip_entry]"
  "format packing_zip = PAKKA_FORMAT_PK3" "pk3_compression packing_zip = PK3_METHOD_DEFLATE"
  by (simp_all add: packing_zip_def)

lemma packing_adds:
  "pakka_add_memory (pk3_ops (vendored sample_codec)) quiet_env (Some packing_zip) (Some (ascii ''p.cfg'')) (Some [7, 7, 7]) 3
    = (PAKKA_OK, Some (pk3_link_pending_entry packing_zip packed_entry))"
proof -
  have u: "pakka_unsafe_entry_name (Some (ascii ''p.cfg'')) = Ok False" by code_simp
  have n: "ascii ''a.cfg'' \<noteq> ascii ''p.cfg''" "length (ascii ''p.cfg'') = 5" by (simp_all add: ascii_def)
  have pre: "pak_add_preflight packing_zip (ascii ''p.cfg'') = PAKKA_OK"
    using n by (simp add: pak_add_preflight_def pak_entry_name_cap_def pakka_format_is_zip_def pakka_format_is_wad_def u
        find_entry_def PAKKA_ENTRY_NAME_SIZE_def)
  have run: "is_run [7, 7, 7]" by (simp add: is_run_def eval_nat_numeral)
  have c: "d_compress (vendored sample_codec) (\<lambda>_. False) [7, 7, 7] = (PAKKA_OK, Some [7, 3])"
    using run by (simp add: vendored_def vendored_compress_def sample_codec_def INT_MAX_def)
  show ?thesis
    using pre n by (simp add: pakka_add_memory_def pk3_ops_def pakka_pk3_add_memory_impl_def Let_def
        pk3_alloc_pending_entry_def UINT32_MAX_def quiet_env_simps pakka_format_is_zip_def pk3_encode_def quiet_env_def c
        packed_entry_def PAKKA_ENTRY_NAME_SIZE_def)
qed

lemma zip_add_spec_witness:
  "\<exists>a'. pakka_add_memory (pk3_ops (vendored sample_codec)) quiet_env (Some packing_zip) (Some (ascii ''p.cfg''))
      (Some [7, 7, 7]) 3 = (PAKKA_OK, Some a')
    \<and> zip_files (vendored sample_codec) zip_disk zip_fp a' =
        zip_files (vendored sample_codec) zip_disk zip_fp packing_zip @ [(ascii ''p.cfg'', Some [7, 7, 7])]"
proof -
  let ?D = "vendored sample_codec" and ?a = "pk3_link_pending_entry packing_zip packed_entry"
  have r: "pakka_add_memory (pk3_ops ?D) quiet_env (Some packing_zip) (Some (ascii ''p.cfg'')) (Some [7, 7, 7]) 3
      = (PAKKA_OK, Some ?a) \<and> [7, 7, 7] = take 3 [7, 7, 7 :: u8]
    \<or> pakka_add_file (pk3_ops ?D) quiet_env zip_disk (Some packing_zip) (Some []) (Some (ascii ''p.cfg'')) = (PAKKA_OK, Some ?a)
      \<and> [7, 7, 7 :: u8] = file_bytes zip_disk []"
    using packing_adds by simp
  have s: "Suc (length (entries packing_zip)) < 2 ^ 32" "3 \<le> length [7, 7, 7 :: u8]" by simp_all
  from zip_add_spec [OF packing_zip_wf ascii_c_string s(1) vendored_contract [OF sample_codec_inverts] s(2) r, of zip_fp] packing_adds
  show ?thesis by auto
qed

text \<open>The archive after that add, which has a compressed entry to read.\<close>

lemma zip_read_entry_alloc_spec_witness:
  "\<exists>a1. pakka_read_entry_alloc (pk3_ops (vendored sample_codec)) quiet_env zip_disk
      (Some (pk3_link_pending_entry packing_zip packed_entry)) (Some (ascii ''p.cfg'')) = (PAKKA_OK, Some [7, 7, 7], a1)"
proof -
  let ?D = "vendored sample_codec" and ?a = "pk3_link_pending_entry packing_zip packed_entry"
  let ?n = "ascii ''p.cfg''"
  from zip_add_memory_effect [OF packing_zip_wf ascii_c_string _ vendored_contract [OF sample_codec_inverts] _ packing_adds]
  have wf: "zip_archive_wf ?a" by (simp add: zip_added_def)
  have fp: "fp ?a = Some zip_fp" by (simp add: pk3_link_pending_entry_def)
  have n: "ascii ''a.cfg'' \<noteq> ?n" by (simp add: ascii_def)
  have fe: "find_entry ?a ?n = Some packed_entry" using n
    by (simp add: find_entry_def pk3_link_pending_entry_def) (simp add: packed_entry_def)
  have si: "source_intact zip_disk packed_entry" by (simp add: source_intact_def packed_entry_def calloc_entry_def)
  obtain s data a1 where r: "pakka_read_entry_alloc (pk3_ops ?D) quiet_env zip_disk (Some ?a) (Some ?n) = (s, data, a1)"
    using prod_cases3 by blast
  have rep: "replicate 3 (7 :: u8) = [7, 7, 7]" by (simp add: numeral_3_eq_3)
  have i: "pk3_inflate ?D quiet_env [7, 3] 3 = (PAKKA_OK, Some [7, 7, 7])"
    by (simp add: pk3_inflate_def vendored_def vendored_inflate_def sample_codec_def INT_MAX_def quiet_env_def rep)
  have pe: "pending_source packed_entry = None" "pending_data packed_entry = Some [7, 3]" "pk3_compressed_size packed_entry = 2"
    "entry_length packed_entry = 3" "pk3_method packed_entry = PK3_METHOD_DEFLATE" "entry_length packed_entry \<noteq> 0"
    by (simp_all add: packed_entry_def calloc_entry_def)
  have md: "max_decompressed ?a = 0" "format ?a = PAKKA_FORMAT_PK3"
    by (simp_all add: pk3_link_pending_entry_def packing_zip_def sample_zip_def calloc_archive_def)
  let ?r = "calloc_reader\<lparr>next_offset := ucast (pk3_payload_offset packed_entry), remaining := 3, inflated_buf := Some [7, 7, 7]\<rparr>"
  have op: "pakka_open_entry_handle (pk3_ops ?D) quiet_env zip_disk (Some ?a) (Some packed_entry) = (PAKKA_OK, Some ?r, Some ?a)"
    using fp md pe i by (simp add: pakka_open_entry_handle_def quiet_env_simps pakka_format_is_zip_def pk3_ops_def
        pakka_pk3_open_entry_impl_def over_cap_def pk3_open_pending_def calloc_reader_def)
  have z: "pakka_format_is_zip (format ?a)" using md(2) by (simp add: pakka_format_is_zip_def)
  have "fst (read_all_loop (pk3_ops ?D) (Some ?r) (Some ?a) 3 []) = PAKKA_OK"
    using fp z by (simp add: read_all_loop.simps pakka_reader_read_def pk3_ops_def pakka_pk3_reader_read_impl_def calloc_reader_def
        Let_def)
  then have "s = PAKKA_OK"
    using r fe op md pe by (simp add: pakka_read_entry_alloc_def pakka_find_entry_def find_entry_def Let_def pakka_entry_size_def
        alloc_over_cap_def quiet_env_simps split: prod.splits)
  moreover have "zip_content ?D zip_disk zip_fp packed_entry = Some [7, 7, 7]"
    using pe by (simp add: zip_content_def zip_bytes_def zip_decode_def PK3_METHOD_DEFLATE_def PK3_METHOD_STORED_def vendored_def
        vendored_inflate_def sample_codec_def INT_MAX_def rep)
  ultimately show ?thesis
    using zip_read_entry_alloc_spec [OF wf fp fe si r] r pe by simp
qed

end
