(* ===== verification/Zip_Reopen.thy ===== *)
theory Zip_Reopen
  imports Zip_Ready
begin

text \<open>
  Opening a ZIP archive: what opens is well formed, and the image a commit writes opens as the same
  entries.
\<close>

section \<open>Reopened entries\<close>

text \<open>The entry the parser makes of the directory row of an entry, and the one after the second pass.\<close>

definition row_entry :: "pentry \<Rightarrow> pentry" where
  "row_entry e = calloc_entry\<lparr>filename := filename e, pk3_method := pk3_method e, crc32 := crc32 e,
     pk3_compressed_size := pk3_compressed_size e, entry_length := entry_length e, offset := pk3_lfh_offset e,
     pk3_lfh_offset := pk3_lfh_offset e\<rparr>"

definition reopened :: "pentry \<Rightarrow> pentry" where
  "reopened e = (row_entry e)\<lparr>pk3_payload_offset := pk3_payload_offset e, offset := pk3_payload_offset e\<rparr>"

section \<open>Directory rows\<close>

lemma gp_flags_bits: "pk3_gp_flags_for_name name n AND 1 = 0" "pk3_gp_flags_for_name name n AND 8 = 0"
  by (simp_all add: pk3_gp_flags_for_name_def)

definition row_flags :: "pentry \<Rightarrow> u16" where
  "row_flags e = pk3_gp_flags_for_name (filename e) (unat (pk3_name_len e))"

lemma row_fields:
  assumes h: "holds_at cdr pos (pk3_cdr_of e)"
  shows "pk3_read_cdr_fields cdr pos = Ok \<lparr>r_method = pk3_method e, r_flags = row_flags e,
    r_name_len = unat (pk3_name_len e), r_extra_len = 0, r_comment_len = 0, r_crc = crc32 e,
    r_csize = pk3_compressed_size e, r_usize = entry_length e, r_ext_attrs = 0,
    r_lfh_offset = pk3_lfh_offset e, r_is_dir = False\<rparr>"
    "pk3_signature_at cdr pos PK3_CDR_SIGNATURE = Ok True"
proof -
  note h2 = h [unfolded pk3_cdr_of_def pk3_build_cdr_def holds_at_append, folded row_flags_def]
  have s: "length PK3_CDR_SIGNATURE = 4" by (simp add: PK3_CDR_SIGNATURE_def)
  note at = h2 [simplified s length_put add.assoc, simplified]
  have r: "pk3_read_u16 cdr (pos + 8) = Ok (row_flags e)" "pk3_read_u16 cdr (pos + 10) = Ok (pk3_method e)"
    "pk3_read_u32 cdr (pos + 16) = Ok (crc32 e)" "pk3_read_u32 cdr (pos + 20) = Ok (pk3_compressed_size e)"
    "pk3_read_u32 cdr (pos + 24) = Ok (entry_length e)" "pk3_read_u16 cdr (pos + 28) = Ok (pk3_name_len e)"
    "pk3_read_u16 cdr (pos + 30) = Ok 0" "pk3_read_u16 cdr (pos + 32) = Ok 0" "pk3_read_u32 cdr (pos + 38) = Ok 0"
    "pk3_read_u32 cdr (pos + 42) = Ok (pk3_lfh_offset e)"
    by (intro read_u16_at read_u32_at; use at in simp)+
  then show "pk3_read_cdr_fields cdr pos = Ok \<lparr>r_method = pk3_method e, r_flags = row_flags e,
    r_name_len = unat (pk3_name_len e), r_extra_len = 0, r_comment_len = 0, r_crc = crc32 e,
    r_csize = pk3_compressed_size e, r_usize = entry_length e, r_ext_attrs = 0,
    r_lfh_offset = pk3_lfh_offset e, r_is_dir = False\<rparr>"
    by (simp add: pk3_read_cdr_fields_def)
  have "pos + 46 \<le> length cdr" using h by (simp add: holds_at_def PK3_CDR_SIZE_def)
  then show "pk3_signature_at cdr pos PK3_CDR_SIGNATURE = Ok True"
    using signature_at [of pos cdr PK3_CDR_SIGNATURE] s at by simp
qed

text \<open>A row of a portable entry is accepted and gives the entry back.\<close>

lemma row_accepted:
  assumes h: "holds_at cdr pos (pk3_cdr_of e @ filename e)" and k: "zip_kind_wf e" and p: "portable e"
    and c: "pk3_compressed_size e \<noteq> 0xFFFFFFFF" "pk3_lfh_offset e \<noteq> 0xFFFFFFFF"
  shows "\<exists>r. pk3_validate_cdr_record cdr pos = Ok r \<and> \<not> r_is_dir r
    \<and> pk3_record_size r = PK3_CDR_SIZE + length (filename e)
    \<and> (\<exists>name. pk3_decode_entry_name cdr (pos + PK3_CDR_SIZE) (r_name_len r) (r_flags r) = Ok (Decoded name)
        \<and> pk3_entry_of r name = row_entry e)"
proof -
  let ?n = "filename e"
  have hs: "holds_at cdr pos (pk3_cdr_of e)" "holds_at cdr (pos + PK3_CDR_SIZE) ?n"
    using h by (simp_all add: holds_at_append)
  note F = row_fields [OF hs(1)]
  note nl = name_len_kind [OF k]
  define r where "r = \<lparr>r_method = pk3_method e, r_flags = row_flags e,
    r_name_len = length ?n, r_extra_len = 0, r_comment_len = 0, r_crc = crc32 e,
    r_csize = pk3_compressed_size e, r_usize = entry_length e, r_ext_attrs = 0,
    r_lfh_offset = pk3_lfh_offset e, r_is_dir = False\<rparr>"
  have nm: "?n \<noteq> []" "printable ?n" "utf8_text ?n" "length ?n < PAKKA_ENTRY_NAME_SIZE"
    using p by (auto simp: portable_def clean_name_def)
  have raw: "take (length ?n) (drop (pos + PK3_CDR_SIZE) cdr) = ?n" and le: "pos + PK3_CDR_SIZE + length ?n \<le> length cdr"
    using hs(2) by (auto simp: holds_at_def)
  have le0: "pos + PK3_CDR_SIZE \<le> length cdr" using le by simp
  have ctl: "pk3_control_loop cdr (pos + PK3_CDR_SIZE) (length ?n) = Ok False"
    using control_loop [OF le] raw nm(2) by simp
  have last: "mem_load cdr (pos + PK3_CDR_SIZE + length ?n - 1) = Ok (last ?n)"
  proof -
    have "pos + PK3_CDR_SIZE + length ?n - 1 = pos + PK3_CDR_SIZE + (length ?n - 1)" using nm(1) by (cases ?n) simp_all
    with holds_at_nth [OF hs(2), of "length ?n - 1"] nm(1) show ?thesis by (simp add: mem_load_def last_conv_nth)
  qed
  have meth: "pk3_method e = PK3_METHOD_STORED \<or> pk3_method e = PK3_METHOD_DEFLATE" using k by (auto simp: zip_kind_wf_def)
  have v: "pk3_validate_cdr_record cdr pos = Ok r"
    using F le le0 gp_flags_bits [of ?n "unat (pk3_name_len e)"] nm(1,4) c p meth ctl last
    by (auto simp: pk3_validate_cdr_record_def nl r_def row_flags_def portable_def PK3_UNIX_IFMT_def PK3_UNIX_IFLNK_def)
  have "pk3_decode_entry_name cdr (pos + PK3_CDR_SIZE) (length ?n) (row_flags e)
      = Ok (Decoded (?n @ replicate (PAKKA_ENTRY_NAME_SIZE - length ?n) 0))"
    using decode_entry_name [OF le nm(4) refl, of "row_flags e"] nm(3,4) by (simp add: raw raw_text_def)
  moreover have "pk3_entry_of r (?n @ replicate m 0) = row_entry e" for m
    using cstr_padded [OF printable_c_string [OF nm(2)], of m] by (simp add: pk3_entry_of_def row_entry_def r_def)
  ultimately show ?thesis using v by (auto simp: r_def pk3_record_size_def)
qed


definition reopens :: "pentry \<Rightarrow> bool" where
  "reopens e \<longleftrightarrow> zip_kind_wf e \<and> portable e \<and> pk3_compressed_size e \<noteq> 0xFFFFFFFF \<and> pk3_lfh_offset e \<noteq> 0xFFFFFFFF"

lemma cdr_loop_rows:
  "list_all reopens es \<Longrightarrow> holds_at cdr pos (zip_rows es) \<Longrightarrow>
   pk3_cdr_loop (\<lambda>_. False) cdr i pos acc sk (length es) = Ok (pos + length (zip_rows es), acc @ map row_entry es, sk)"
proof (induction es arbitrary: i pos acc)
  case (Cons e es)
  have h: "holds_at cdr pos (pk3_cdr_of e @ filename e)"
    "holds_at cdr (pos + (PK3_CDR_SIZE + length (filename e))) (zip_rows es)"
    using Cons.prems(2) by (simp_all add: holds_at_append add.assoc)
  from row_accepted [OF h(1)] Cons.prems(1) obtain r name where
    r: "pk3_validate_cdr_record cdr pos = Ok r" "\<not> r_is_dir r" "pk3_record_size r = PK3_CDR_SIZE + length (filename e)"
    "pk3_decode_entry_name cdr (pos + PK3_CDR_SIZE) (r_name_len r) (r_flags r) = Ok (Decoded name)"
    "pk3_entry_of r name = row_entry e" by (auto simp: reopens_def)
  have "pk3_cdr_loop (\<lambda>_. False) cdr i pos acc sk (length (e # es))
      = pk3_cdr_loop (\<lambda>_. False) cdr (i + 1) (pos + (PK3_CDR_SIZE + length (filename e))) (acc @ [row_entry e]) sk (length es)"
    using r by simp
  also have "\<dots> = Ok (pos + (PK3_CDR_SIZE + length (filename e)) + length (zip_rows es), (acc @ [row_entry e]) @ map row_entry es, sk)"
    using Cons.prems(1) by (intro Cons.IH h(2)) simp
  finally show ?case by (simp add: add.assoc)
qed simp

lemma parse_rows:
  assumes "list_all reopens es"
  shows "pk3_parse_cdr (\<lambda>_. False) (zip_rows es) (length es) = Ok (map row_entry es, length es)"
  using cdr_loop_rows [OF assms, of "zip_rows es" 0 0 "[]" 0] by (simp add: pk3_parse_cdr_def holds_at_def)

section \<open>Local headers\<close>

lemma lfh_accepted:
  assumes l: "zip_local_at b (unat c) e" and k: "zip_kind_wf e" and c: "unat c \<le> UINT32_MAX"
  shows "pk3_check_lfh (pk3_lfh_of e) (row_entry e) c = Ok (pk3_payload_offset e)"
proof -
  define lfh where "lfh = pk3_lfh_of e"
  have "holds_at lfh 0 (pk3_lfh_of e)" by (simp add: holds_at_def lfh_def)
  note h2 = this [unfolded pk3_lfh_of_def pk3_build_lfh_def holds_at_append, folded row_flags_def]
  have s: "length PK3_LFH_SIGNATURE = 4" by (simp add: PK3_LFH_SIGNATURE_def)
  note at = h2 [simplified s length_put add.assoc, simplified]
  have r: "pk3_read_u16 lfh 6 = Ok (row_flags e)" "pk3_read_u16 lfh 8 = Ok (pk3_method e)"
    "pk3_read_u32 lfh 14 = Ok (crc32 e)" "pk3_read_u32 lfh 18 = Ok (pk3_compressed_size e)"
    "pk3_read_u32 lfh 22 = Ok (entry_length e)" "pk3_read_u16 lfh 26 = Ok (pk3_name_len e)" "pk3_read_u16 lfh 28 = Ok 0"
    by (intro read_u16_at read_u32_at; use at in simp)+
  have sig: "pk3_signature_at lfh 0 PK3_LFH_SIGNATURE = Ok True"
    using signature_at [of 0 lfh PK3_LFH_SIGNATURE] s at by (simp add: lfh_def PK3_LFH_SIZE_def)
  have fl: "row_flags e AND 1 = 0" "row_flags e AND 8 = 0" by (simp_all add: row_flags_def gp_flags_bits)
  define n where "n = unat (pk3_lfh_offset e) + PK3_LFH_SIZE + unat (pk3_name_len e)"
  have n: "n = unat (pk3_payload_offset e)" using l name_len_kind [OF k] by (simp add: n_def zip_local_at_def)
  have o: "of_nat n = pk3_payload_offset e" by (simp add: n)
  have fit: "n + unat (pk3_compressed_size e) \<le> unat c" "n \<le> UINT32_MAX" using l c by (simp_all add: n zip_local_at_def)
  have st: "pk3_method e = PK3_METHOD_STORED \<longrightarrow> pk3_compressed_size e = entry_length e" using k by (simp add: zip_kind_wf_def)
  have e: "pk3_method (row_entry e) = pk3_method e" "crc32 (row_entry e) = crc32 e"
    "pk3_compressed_size (row_entry e) = pk3_compressed_size e" "entry_length (row_entry e) = entry_length e"
    "pk3_lfh_offset (row_entry e) = pk3_lfh_offset e" by (simp_all add: row_entry_def)
  show ?thesis
    unfolding lfh_def [symmetric] pk3_check_lfh_def Let_def
    using r sig fl st fit by (simp add: e n_def [symmetric] o not_le [symmetric] del: of_nat_add)
qed

lemma lfh_loop_image:
  "\<forall>e \<in> set es. zip_local_at (f_data f) (unat c) e \<and> zip_kind_wf e \<Longrightarrow> unat c \<le> UINT32_MAX \<Longrightarrow> f_clean f \<Longrightarrow>
   \<exists>p. pk3_lfh_loop f (map row_entry es) c = (Ok (map reopened es), f\<lparr>f_pos := p\<rparr>)"
proof (induction es arbitrary: f)
  case Nil
  have "f = f\<lparr>f_pos := f_pos f\<rparr>" by simp
  then show ?case by (intro exI [of _ "f_pos f"]) simp
next
  case (Cons e es)
  let ?p = "unat (pk3_lfh_offset e)"
  have at: "zip_local_at (f_data f) (unat c) e" and k: "zip_kind_wf e" using Cons.prems(1) by auto
  then have h: "holds_at (f_data f) ?p (pk3_lfh_of e)" by (simp add: zip_local_at_def holds_at_append)
  then have "f_has (f\<lparr>f_pos := ?p\<rparr>) (pk3_lfh_of e)" using Cons.prems(3) by (auto simp: f_has_def holds_at_def f_clean_def)
  from fread_all_has [OF this, of PK3_LFH_SIZE] have
    rd: "fread_all (f\<lparr>f_pos := ?p\<rparr>) PK3_LFH_SIZE = (Some (pk3_lfh_of e), f\<lparr>f_pos := ?p + PK3_LFH_SIZE\<rparr>)"
    by (simp add: f_skip_def)
  have lo: "pk3_lfh_offset (row_entry e) = pk3_lfh_offset e" by (simp add: row_entry_def)
  have v: "pk3_validate_lfh f (row_entry e) c = (Ok (pk3_payload_offset e), f\<lparr>f_pos := ?p + PK3_LFH_SIZE\<rparr>)"
    using Cons.prems(3) rd lfh_accepted [OF at k Cons.prems(2)]
    by (simp add: pk3_validate_lfh_def lo fseek_set_def f_clean_def)
  have "f_clean (f\<lparr>f_pos := ?p + PK3_LFH_SIZE\<rparr>)" using Cons.prems(3) by (simp add: f_clean_def)
  with Cons.IH [of "f\<lparr>f_pos := ?p + PK3_LFH_SIZE\<rparr>"] Cons.prems obtain p where
    "pk3_lfh_loop (f\<lparr>f_pos := ?p + PK3_LFH_SIZE\<rparr>) (map row_entry es) c = (Ok (map reopened es), f\<lparr>f_pos := p\<rparr>)"
    by auto
  with v show ?case by (auto simp: reopened_def)
qed


section \<open>The end record\<close>

text \<open>Reading a stream without trouble only moves its position.\<close>

lemma f_clean_pos [simp]: "f_clean (f\<lparr>f_pos := p\<rparr>) = f_clean f"
  by (simp add: f_clean_def)

lemma clean_read: "fread_all f n = (x, g) \<Longrightarrow> f_clean f \<Longrightarrow> \<exists>p. g = f\<lparr>f_pos := p\<rparr>"
proof -
  assume r: "fread_all f n = (x, g)" and c: "f_clean f"
  then have "\<not> f_readable f < length (f_data f)" by (simp add: f_clean_def)
  with r have "g = f\<lparr>f_pos := f_pos g\<rparr>" by (cases f) (auto simp: fread_all_def fread_def Let_def split: if_splits)
  then show ?thesis ..
qed

lemma clean_seek: "f_clean f \<Longrightarrow> fseek_set f p = (True, f\<lparr>f_pos := p\<rparr>)"
  by (simp add: fseek_set_def f_clean_def)

lemma find_eocd_pos: "pk3_find_eocd f n = (r, g) \<Longrightarrow> f_clean f \<Longrightarrow> \<exists>p. g = f\<lparr>f_pos := p\<rparr>"
proof -
  assume a: "pk3_find_eocd f n = (r, g)" and c: "f_clean f"
  define m where "m = (if n > PK3_EOCD_SCAN_MAX then PK3_EOCD_SCAN_MAX else n)"
  let ?f = "f\<lparr>f_pos := n - m\<rparr>"
  obtain x f2 where rd: "fread_all ?f m = (x, f2)" by fastforce
  have c2: "f_clean ?f" using c by simp
  from clean_read [OF rd c2] have f2: "\<exists>p. f2 = f\<lparr>f_pos := p\<rparr>" by auto
  have same: "\<exists>p. f = f\<lparr>f_pos := p\<rparr>" by (rule exI [of _ "f_pos f"]) simp
  have "g = f \<or> g = f2"
    using a clean_seek [OF c, of "n - m"] rd by (auto simp: pk3_find_eocd_def Let_def m_def [symmetric] split: if_splits option.splits)
  with f2 same show ?thesis by auto
qed

lemma last_such_unique: "last_such P r \<Longrightarrow> P i \<Longrightarrow> (\<And>j. i < j \<Longrightarrow> \<not> P j) \<Longrightarrow> r = Some i"
  by (cases r) (auto simp: last_such_def not_less intro: linorder_neqE_nat)

lemma eocd_fields:
  assumes h: "holds_at d i (pk3_build_eocd c sz n)"
  shows "holds_at d i PK3_EOCD_SIGNATURE" "pk3_read_u16 d (i + 4) = Ok 0" "pk3_read_u16 d (i + 6) = Ok 0"
    "pk3_read_u16 d (i + 8) = Ok n" "pk3_read_u16 d (i + 10) = Ok n" "pk3_read_u32 d (i + 12) = Ok sz"
    "pk3_read_u32 d (i + 16) = Ok c" "pk3_read_u16 d (i + 20) = Ok 0"
proof -
  have s: "length PK3_EOCD_SIGNATURE = 4" by (simp add: PK3_EOCD_SIGNATURE_def)
  note at = h [unfolded pk3_build_eocd_def holds_at_append, simplified s length_put add.assoc, simplified]
  show "holds_at d i PK3_EOCD_SIGNATURE" "pk3_read_u16 d (i + 4) = Ok 0" "pk3_read_u16 d (i + 6) = Ok 0"
    "pk3_read_u16 d (i + 8) = Ok n" "pk3_read_u16 d (i + 10) = Ok n" "pk3_read_u32 d (i + 12) = Ok sz"
    "pk3_read_u32 d (i + 16) = Ok c" "pk3_read_u16 d (i + 20) = Ok 0"
    by (use at in simp) (intro read_u16_at read_u32_at; use at in simp)+
qed

lemma eocd_found:
  assumes d: "d = pre @ pk3_build_eocd c sz n" and f: "f_clean f" "f_data f = d"
  shows "\<exists>p. pk3_find_eocd f (length d) = (Ok (length pre), f\<lparr>f_pos := p\<rparr>)"
proof -
  have h: "holds_at d (length pre) (pk3_build_eocd c sz n)" using holds_at_self [of pre _ "[]"] by (simp add: d)
  have e: "end_record_at d (length pre)"
    using eocd_fields [OF h] by (simp add: end_record_at_def) (simp add: d)
  have l: "\<not> end_record_at d j" if "length pre < j" for j using that by (simp add: end_record_at_def d)
  from find_eocd [OF f(1) refl] obtain r g where
    r: "pk3_find_eocd f (length d) = ((case r of None \<Rightarrow> Fail PAKKA_ERR_FORMAT | Some p \<Rightarrow> Ok p), g)"
    "last_such (end_record_at d) r" unfolding f(2) by blast
  from last_such_unique [OF r(2) e l] have "r = Some (length pre)" .
  with r(1) find_eocd_pos [OF r(1) f(1)] show ?thesis by auto
qed

lemma eocd_accepted:
  assumes d: "d = pre @ pk3_build_eocd c sz n" and f: "f_clean f" "f_data f = d"
    and fit: "unat c + unat sz \<le> length pre" "n \<noteq> 0xFFFF" "sz \<noteq> 0xFFFFFFFF" "c \<noteq> 0xFFFFFFFF"
  shows "\<exists>p. pk3_validate_eocd f (length pre) = (Ok (c, sz, n), f\<lparr>f_pos := p\<rparr>)"
proof -
  let ?e = "pk3_build_eocd c sz n" and ?f = "f\<lparr>f_pos := length pre\<rparr>"
  have "f_has ?f ?e" using f by (simp add: f_has_def f_clean_def d)
  from fread_all_has [OF this, of PK3_EOCD_SIZE] have
    rd: "fread_all ?f PK3_EOCD_SIZE = (Some ?e, f\<lparr>f_pos := length pre + PK3_EOCD_SIZE\<rparr>)" by (simp add: f_skip_def)
  have "holds_at ?e 0 ?e" by (simp add: holds_at_def)
  note F = eocd_fields [OF this, simplified]
  have "unat n < 2 ^ 16" using unsigned_less [of n] by simp
  then have mx: "unat n \<le> PAKFILE_MAX_ENTRIES" by (simp add: PAKFILE_MAX_ENTRIES_def)
  have "pk3_check_eocd ?e (length pre) = Ok (c, sz, n)"
    using F fit mx by (simp add: pk3_check_eocd_def)
  with rd clean_seek [OF f(1)] show ?thesis by (auto simp: pk3_validate_eocd_def)
qed

section \<open>Opening an image\<close>

lemma rows_length_le: "\<forall>e \<in> set es. zip_kind_wf e \<Longrightarrow> length (zip_rows es) \<le> length es * 301"
  by (induction es) (auto simp: zip_kind_wf_def PAKKA_ENTRY_NAME_SIZE_def PK3_CDR_SIZE_def)

lemma rows_pos: "es \<noteq> [] \<Longrightarrow> 0 < length (zip_rows es)"
  by (cases es) (simp_all add: PK3_CDR_SIZE_def)

lemma image_reopens:
  assumes im: "zip_image es c b" and k: "\<forall>e \<in> set es. zip_kind_wf e" and p: "list_all portable es"
  shows "list_all reopens es"
proof -
  have "reopens e" if e: "e \<in> set es" for e
  proof -
    have "zip_local_at b c e" "c + PK3_EOCD_SIZE \<le> UINT32_MAX" using im e by (auto simp: zip_image_def)
    then have "unat (pk3_compressed_size e) < UINT32_MAX" "unat (pk3_lfh_offset e) < UINT32_MAX"
      by (simp_all add: zip_local_at_def PK3_EOCD_SIZE_def)
    then have "pk3_compressed_size e \<noteq> 0xFFFFFFFF" "pk3_lfh_offset e \<noteq> 0xFFFFFFFF" by (auto simp: UINT32_MAX_def)
    with e k p show ?thesis by (simp add: reopens_def list_all_iff)
  qed
  then show ?thesis by (simp add: list_all_iff)
qed

lemma image_steps:
  assumes im: "zip_image es c b" and k: "\<forall>e \<in> set es. zip_kind_wf e" and p: "list_all portable es"
    and n: "length es < 0xFFFF" and f: "f_clean f" "f_data f = b"
  shows "\<exists>p. pk3_open_steps (\<lambda>_. False) f (length b) = (Ok (of_nat c, map reopened es, length es), f\<lparr>f_pos := p\<rparr>)"
proof -
  let ?r = "zip_rows es"
  let ?c = "of_nat c :: u32" and ?sz = "of_nat (length ?r) :: u32" and ?n = "of_nat (length es) :: u16"
  from im obtain blob where B: "length blob = c" "b = (blob @ ?r) @ pk3_build_eocd ?c ?sz ?n"
    and fit: "c + length ?r + PK3_EOCD_SIZE \<le> UINT32_MAX" and at: "\<forall>e \<in> set es. zip_local_at b c e"
    by (auto simp: zip_image_def)
  have u: "unat ?c = c" "unat ?sz = length ?r" "unat ?n = length es"
    using fit n by (simp_all add: UINT32_MAX_def unat_of_nat_u32 unsigned_of_nat take_bit_nat_eq_self)
  have ne: "?n \<noteq> 0xFFFF" "?sz \<noteq> 0xFFFFFFFF" "?c \<noteq> 0xFFFFFFFF"
    using u n fit by (auto simp: UINT32_MAX_def PK3_EOCD_SIZE_def)
  from eocd_found [OF B(2) f] obtain p1 where e: "pk3_find_eocd f (length b) = (Ok (length (blob @ ?r)), f\<lparr>f_pos := p1\<rparr>)" by blast
  let ?f1 = "f\<lparr>f_pos := p1\<rparr>"
  have f1: "f_clean ?f1" "f_data ?f1 = b" using f by simp_all
  have "unat ?c + unat ?sz \<le> length (blob @ ?r)" unfolding u using B(1) by simp
  from eocd_accepted [OF B(2) f1 this ne] obtain p2 where
    v: "pk3_validate_eocd ?f1 (length (blob @ ?r)) = (Ok (?c, ?sz, ?n), f\<lparr>f_pos := p2\<rparr>)" by auto
  let ?f2 = "f\<lparr>f_pos := p2\<rparr>"
  have "\<exists>p. pk3_load_cdr (\<lambda>_. False) ?f2 ?c ?sz ?n = (Ok (map reopened es, length es), f\<lparr>f_pos := p\<rparr>)"
  proof (cases "es = []")
    case True
    then show ?thesis by (auto simp: pk3_load_cdr_def)
  next
    case False
    have z: "?n \<noteq> 0" "?sz \<noteq> 0" using u False rows_pos [OF False] by (metis length_0_conv unsigned_0 less_numeral_extra(3))+
    have mx: "unat ?sz \<le> PK3_MAX_CDR_SIZE" unfolding u using rows_length_le [OF k] n by (simp add: PK3_MAX_CDR_SIZE_def)
    let ?f3 = "f\<lparr>f_pos := c\<rparr>"
    have "f_has ?f3 ?r" using f B(1) by (simp add: f_has_def f_clean_def) (simp add: B(2))
    from fread_all_has [OF this refl] have rd: "fread_all ?f3 (length ?r) = (Some ?r, f\<lparr>f_pos := c + length ?r\<rparr>)"
      by (simp add: f_skip_def)
    have sk: "fseek_set ?f2 c = (True, ?f3)" using clean_seek [of ?f2 c] f(1) by simp
    have pr: "pk3_parse_cdr (\<lambda>_. False) ?r (length es) = Ok (map row_entry es, length es)"
      by (rule parse_rows [OF image_reopens [OF im k p]])
    let ?f4 = "f\<lparr>f_pos := c + length ?r\<rparr>"
    have "\<forall>e \<in> set es. zip_local_at (f_data ?f4) (unat ?c) e \<and> zip_kind_wf e" "unat ?c \<le> UINT32_MAX" "f_clean ?f4"
      using at k f fit u(1) by simp_all
    from lfh_loop_image [OF this] obtain p5 where
      lf: "pk3_lfh_loop ?f4 (map row_entry es) ?c = (Ok (map reopened es), f\<lparr>f_pos := p5\<rparr>)" by auto
    show ?thesis
      using z mx sk rd pr lf unfolding pk3_load_cdr_def u by auto
  qed
  with e v show ?thesis by (auto simp: pk3_open_steps_def)
qed


text \<open>The magic of an image is that of a local header, or of the end record when there is no entry.\<close>

lemma image_magic:
  assumes im: "zip_image es c b"
  shows "take 4 b \<in> {PK3_LFH_SIGNATURE, PK3_EOCD_SIGNATURE} \<and> 4 \<le> length b"
proof -
  have l: "4 \<le> length b" using zip_image_length [OF im] by (simp add: PK3_EOCD_SIZE_def)
  show ?thesis
  proof (cases "es = []")
    case True
    then have "b = pk3_build_eocd 0 0 0" using im by (auto simp: zip_image_def)
    with l show ?thesis by (simp add: pk3_build_eocd_def PK3_EOCD_SIGNATURE_def)
  next
    case False
    then obtain e where "e \<in> set es" "pk3_lfh_offset e = 0" using im by (auto simp: zip_image_def)
    then have h: "holds_at b 0 (pk3_lfh_of e)" using im by (auto simp: zip_image_def zip_local_at_def holds_at_append)
    then have "take 30 b = pk3_lfh_of e" by (simp add: holds_at_def PK3_LFH_SIZE_def)
    moreover have "take 4 b = take 4 (take 30 b)" by simp
    ultimately have "take 4 b = take 4 (pk3_lfh_of e)" by (simp only:)
    with l show ?thesis by (simp add: pk3_lfh_of_def pk3_build_lfh_def PK3_LFH_SIGNATURE_def)
  qed
qed

lemma classify_pk:
  assumes "signature q \<in> {PK3_LFH_SIGNATURE, PK3_EOCD_SIGNATURE}" "hint_in q [PAKKA_FORMAT_AUTO, PAKKA_FORMAT_PK3, PAKKA_FORMAT_PK4]"
  obtains fmt where "classify_magic q = Magic_Zip fmt" "pakka_format_is_zip fmt"
proof -
  have "\<exists>fmt. classify_magic q = Magic_Zip fmt"
    using assms by (auto simp: classify_magic_def PK3_LFH_SIGNATURE_def PK3_EOCD_SIGNATURE_def Let_def)
  then obtain fmt where "classify_magic q = Magic_Zip fmt" ..
  with classify_zip [OF this] that show ?thesis by blast
qed

lemma reopened_simps [simp]:
  "filename (reopened e) = filename e" "is_staged (reopened e) = False" "zip_kind_wf (reopened e) = zip_kind_wf (e\<lparr>dk_is_compressed := False\<rparr>)"
  "placed b c (reopened e) = placed b c (e\<lparr>offset := pk3_payload_offset e\<rparr>)"
  "pk3_method (reopened e) = pk3_method e" "crc32 (reopened e) = crc32 e" "entry_length (reopened e) = entry_length e"
  "pk3_compressed_size (reopened e) = pk3_compressed_size e" "pk3_payload_offset (reopened e) = pk3_payload_offset e"
  by (simp_all add: reopened_def row_entry_def calloc_entry_def is_staged_def zip_kind_wf_def placed_def)

lemma reopened_view: "\<not> is_staged e \<Longrightarrow> zip_view gs g (reopened e) = zip_view fs g e"
  by (simp add: zip_view_def zip_bytes_def is_staged_def reopened_def row_entry_def calloc_entry_def)

lemma zip_image_loads:
  assumes im: "zip_image es c b" and k: "\<forall>e \<in> set es. zip_kind_wf e" and p: "list_all portable es"
    and nd: "names_distinct es" and n: "length es < 0xFFFF" and f: "f_clean f" "f_data f = b"
    and mem: "\<And>x. \<not> e_oom env x" and q: "entries q = []" "fp q = None" "\<not> dirty q"
    and hint: "hint_in q [PAKKA_FORMAT_AUTO, PAKKA_FORMAT_PK3, PAKKA_FORMAT_PK4]"
  shows "\<exists>a h. load_archive (pk3_ops D) env q f = (PAKKA_OK, Some a) \<and> fp a = Some h \<and> f_data h = b
    \<and> zip_archive_wf a \<and> entries a = map reopened es"
proof -
  have lb: "length b \<le> UINT32_MAX" using zip_image_length [OF im] im by (simp add: zip_image_def)
  then have b63: "length b < 2 ^ 63" by (simp add: UINT32_MAX_def)
  note M = image_magic [OF im]
  let ?f0 = "f\<lparr>f_pos := 0, f_error := False\<rparr>" and ?f4 = "f\<lparr>f_pos := 4, f_error := False\<rparr>"
  define q1 where "q1 = q\<lparr>file_size := of_nat (length b), signature := take 4 b\<rparr>"
  have "f_has ?f0 (take 4 b)" using M f by (auto simp: f_has_def f_clean_def)
  from fread_all_has [OF this, of 4] have rd: "fread_all ?f0 PAKFILE_SIGNATURE_LEN = (Some (take 4 b), ?f4)"
    using M by (simp add: f_skip_def PAKFILE_SIGNATURE_LEN_def)
  have s1: "fseek_end f = (True, f\<lparr>f_pos := length b\<rparr>)" "ftell (f\<lparr>f_pos := length b\<rparr>) = Some (length b)"
    "rewind (f\<lparr>f_pos := length b\<rparr>) = ?f0"
    using f b63 by (simp_all add: fseek_end_def ftell_def rewind_def f_clean_def)
  have "hint_in q1 [PAKKA_FORMAT_AUTO, PAKKA_FORMAT_PK3, PAKKA_FORMAT_PK4]" "signature q1 \<in> {PK3_LFH_SIGNATURE, PK3_EOCD_SIGNATURE}"
    using hint M by (simp_all add: q1_def hint_in_def)
  from classify_pk [OF this(2,1)] obtain fmt where cm: "classify_magic q1 = Magic_Zip fmt" "pakka_format_is_zip fmt" by blast
  have f4: "f_clean ?f4" "f_data ?f4 = b" using f by (simp_all add: f_clean_def)
  from image_steps [OF im k p n f4] obtain ps where
    st: "pk3_open_steps (\<lambda>_. False) ?f4 (length b) = (Ok (of_nat c, map reopened es, length es), ?f4\<lparr>f_pos := ps\<rparr>)" by blast
  have oo: "(\<lambda>x. case x of None \<Rightarrow> e_oom env A_cdr | Some i \<Rightarrow> e_oom env (A_row i)) = (\<lambda>_. False)"
    using mem by (auto simp: fun_eq_iff split: option.split)
  have fsz: "unat (of_nat (length b) :: u64) = length b" using b63 by (simp add: unat_of_nat_u64)
  define a where "a = q1\<lparr>format := fmt, max_decompressed := PK3_DEFAULT_MAX_DECOMPRESSED, pk3_cdr_offset := of_nat c,
      entries := map reopened es, num_entries := of_nat (length es)\<rparr>"
  have op: "pakka_pk3_open_impl env (q1\<lparr>format := fmt\<rparr>) ?f4 = (PAKKA_OK, a, ?f4\<lparr>f_pos := ps\<rparr>)"
    unfolding pakka_pk3_open_impl_def Let_def oo using st q(1) by (simp add: q1_def fsz a_def)
  have lp: "load_pakfile (z_open (pk3_ops D) env) q f = (PAKKA_OK, a, ?f4\<lparr>f_pos := ps\<rparr>)"
    unfolding load_pakfile_def using s1 rd cm(1) op by (simp add: q1_def pk3_ops_def Let_def)
  have nn: "unat (num_entries a) = length (entries a)" using n by (simp add: a_def unat_of_nat_u32)
  have fn: "map filename (entries a) = map filename es" by (simp add: a_def comp_def)
  then have nda: "names_distinct (entries a)" using nd by (simp add: names_distinct_def)
  have v: "validate_no_duplicates (\<lambda>_. e_oom env A_names) a = PAKKA_OK"
    using distinct_validates [OF nn] nda mem by simp
  let ?h = "?f4\<lparr>f_pos := ps\<rparr>"
  have uc: "unat (of_nat c :: u32) = c" using im by (simp add: zip_image_def UINT32_MAX_def unat_of_nat_u32)
  have "\<forall>e \<in> set es. zip_kind_wf (e\<lparr>dk_is_compressed := False\<rparr>) \<and> placed b c (e\<lparr>offset := pk3_payload_offset e\<rparr>)"
  proof
    fix e assume e: "e \<in> set es"
    have "zip_local_at b c e" using im e by (simp add: zip_image_def)
    with k e have "zip_kind_wf e" "placed b c e" using local_at_placed by blast+
    then show "zip_kind_wf (e\<lparr>dk_is_compressed := False\<rparr>) \<and> placed b c (e\<lparr>offset := pk3_payload_offset e\<rparr>)"
      by (simp add: zip_kind_wf_def placed_def)
  qed
  moreover have "c \<le> length b" using zip_image_length [OF im] by simp
  ultimately have "zip_archive_wf (a\<lparr>fp := Some ?h\<rparr>)"
    using cm(2) nn nda f q(3) uc unfolding zip_archive_wf_def by (auto simp: a_def q1_def)
  moreover have "load_archive (pk3_ops D) env q f = (PAKKA_OK, Some (a\<lparr>fp := Some ?h\<rparr>))"
    using lp v cm(2) unfolding load_archive_def by (simp add: a_def)
  ultimately show ?thesis using f by (intro exI [of _ "a\<lparr>fp := Some ?h\<rparr>"] exI [of _ ?h]) (simp add: a_def)
qed


section \<open>What was committed opens again\<close>

definition zip_hint :: "pakka_format \<Rightarrow> bool" where
  "zip_hint hint \<longleftrightarrow> hint \<in> {PAKKA_FORMAT_AUTO, PAKKA_FORMAT_PK3, PAKKA_FORMAT_PK4}"

lemma zip_stored_opens:
  assumes im: "zip_image es c b" and k: "\<forall>e \<in> set es. zip_kind_wf e" and p: "list_all portable es"
    and nd: "names_distinct es" and n: "length es < 0xFFFF" and fs: "fs p = Some (Regular b)"
    and co: "can_open env fs p mode" and hint: "zip_hint hint"
  shows "\<exists>a h. pakka_open_ex (pk3_ops D) env fs (Some p) (Some mode) (Some hint) = (PAKKA_OK, Some a) \<and> fp a = Some h
    \<and> f_data h = b \<and> zip_archive_wf a \<and> entries a = map reopened es"
proof -
  let ?h = "opened_handle p mode hint"
  from open_reaches_load [OF fs co] obtain f where f: "f_data f = b" "f_seekable f" "length b \<le> f_readable f"
    and mem: "\<forall>x. \<not> e_oom env x"
    and op: "\<forall>Z hint. pakka_open_ex Z env fs (Some p) (Some mode) (Some hint)
          = load_archive Z env (opened_handle p mode hint) f"
    by (elim exE conjE)
  have "f_clean f" using f by (simp add: f_clean_def)
  moreover have "entries ?h = []" "fp ?h = None" "\<not> dirty ?h" "hint_in ?h [PAKKA_FORMAT_AUTO, PAKKA_FORMAT_PK3, PAKKA_FORMAT_PK4]"
    using hint by (simp_all add: opened_handle_def calloc_archive_def hint_in_def zip_hint_def)
  ultimately show ?thesis using zip_image_loads [OF im k p nd n _ f(1), of env ?h D] mem op by simp
qed

lemma zip_view_settled:
  "\<forall>e \<in> set es. \<not> is_staged e \<Longrightarrow> map (zip_view gs g) (map reopened es) = map (zip_view fs g) es"
  by (simp add: reopened_view)

lemma portable_settled: "list_all portable es \<Longrightarrow> list_all portable (map clear_pending (zip_place p es))"
  by (induction es arbitrary: p) (simp_all add: portable_def clear_pending_def)

lemma zip_committed_opens:
  assumes wf: "zip_archive_wf a" and fp: "fp a = Some f" and d: "dirty a"
    and fr: "mkstemp_fresh env" and ex: "fs (pak_path a) \<noteq> None"
    and r: "pakka_commit (pk3_ops D) env fs (Some a) = (PAKKA_OK, Some a', fs')"
    and n: "length (entries a) < 0xFFFF" and p: "list_all portable (entries a)"
    and co: "can_open env' fs' (pak_path a) mode" and hint: "zip_hint hint"
  shows "\<exists>q g. pakka_open_ex (pk3_ops D') env' fs' (Some (pak_path a)) (Some mode) (Some hint) = (PAKKA_OK, Some q)
    \<and> fp q = Some g \<and> zip_archive_wf q \<and> zip_listing fs' g q = zip_listing fs f a"
proof -
  from zip_commit_OK [OF wf fp d fr ex r] obtain g where
    g: "fp a' = Some g" "zip_archive_wf a'" "zip_listing fs' g a' = zip_listing fs f a"
    "list_all (\<lambda>e. \<not> is_staged e) (entries a')" "fs' (pak_path a) = Some (Regular (f_data g))"
    "zip_image (entries a') (unat (pk3_cdr_offset a')) (f_data g)"
    "entries a' = map clear_pending (zip_place 0 (entries a))" by blast
  have k: "\<forall>e \<in> set (entries a'). zip_kind_wf e" and nd: "names_distinct (entries a')"
    using g(2) by (simp_all add: zip_archive_wf_def)
  have l: "length (entries a') < 0xFFFF" using n g(7) by simp
  have pp: "list_all portable (entries a')" unfolding g(7) by (rule portable_settled [OF p])
  from zip_stored_opens [OF g(6) k pp nd l g(5) co hint, of D'] obtain q h where
    q: "pakka_open_ex (pk3_ops D') env' fs' (Some (pak_path a)) (Some mode) (Some hint) = (PAKKA_OK, Some q)" "fp q = Some h"
    "f_data h = f_data g" "zip_archive_wf q" "entries q = map reopened (entries a')" by blast
  have "zip_listing fs' h q = zip_listing fs' h a'"
    using g(4) zip_view_settled [of "entries a'" fs' h fs'] by (simp add: zip_listing_def q(5) list_all_iff)
  also have "\<dots> = zip_listing fs' g a'"
    by (simp add: zip_listing_def zip_view_def zip_bytes_data [OF q(3)])
  finally show ?thesis using q g(3) by auto
qed

text \<open>C24: what was committed to a ZIP archive is there when it is opened again, in any mode, under the hint
  for either suffix or none: the same entries in the same order, with names, methods, checksums, sizes
  and stored bytes. It is enough that the names are clean UTF-8 and not those of directories, that no
  size is the ZIP64 mark and that there are fewer than 65535 entries.\<close>

theorem zip_commit_then_open:
  assumes wf: "zip_archive_wf a" and fp: "fp a = Some f" and d: "dirty a"
    and fr: "mkstemp_fresh env" and ex: "fs (pak_path a) \<noteq> None"
    and r: "pakka_commit (pk3_ops D) env fs (Some a) = (PAKKA_OK, Some a', fs')"
    and n: "length (entries a) < 0xFFFF" and p: "list_all portable (entries a)"
    and co: "can_open env' fs' (pak_path a) mode" and hint: "zip_hint hint"
  shows "\<exists>q g. pakka_open_ex (pk3_ops D') env' fs' (Some (pak_path a)) (Some mode) (Some hint) = (PAKKA_OK, Some q)
    \<and> fp q = Some g \<and> zip_archive_wf q \<and> zip_listing fs' g q = zip_listing fs f a"
  by (rule zip_committed_opens [OF assms])

section \<open>What opens is well formed\<close>

lemma load_pakfile_zip:
  assumes r: "load_pakfile zo pak f = (PAKKA_OK, pak', f')" and z: "pakka_format_is_zip (format pak')"
  shows "\<exists>fmt sig g. pakka_format_is_zip fmt \<and> length (f_data f) < 2 ^ 63 \<and> f_data g = f_data f
    \<and> zo (pak\<lparr>file_size := of_nat (length (f_data f)), signature := sig, format := fmt\<rparr>) g = (PAKKA_OK, pak', f')"
proof -
  obtain so f1 where se: "fseek_end f = (so, f1)" by fastforce
  then have so: "so" using r by (cases so) (auto simp: load_pakfile_def)
  then have f1: "f1 = f\<lparr>f_pos := length (f_data f)\<rparr>" using se by (auto simp: fseek_end_def split: if_splits)
  obtain sz where sz: "ftell f1 = Some sz"
    using r se by (auto simp: load_pakfile_def split: option.splits if_splits)
  then have szv: "sz = length (f_data f)" "length (f_data f) < 2 ^ 63"
    by (auto simp: ftell_def f1 split: if_splits)
  obtain sig f2 where sig: "fread_all (rewind f1) PAKFILE_SIGNATURE_LEN = (Some sig, f2)"
    using r se so sz by (auto simp: load_pakfile_def Let_def split: option.splits prod.splits)
  define p2 where "p2 = pak\<lparr>file_size := of_nat sz, signature := sig\<rparr>"
  have d2: "f_data f2 = f_data f" using fread_all_data [OF sig] by (simp add: rewind_def f1)
  show ?thesis
  proof (cases "classify_magic p2")
    case (Magic_Zip fmt)
    then have "zo (p2\<lparr>format := fmt\<rparr>) f2 = (PAKKA_OK, pak', f')"
      using r se so sz sig by (simp add: load_pakfile_def p2_def)
    with classify_zip [OF Magic_Zip] szv d2 show ?thesis unfolding p2_def by blast
  next
    case (Magic_Pak fmt)
    obtain s p3 f3 where hf: "load_header_fields (p2\<lparr>format := fmt\<rparr>) f2 = (s, p3, f3)"
      using prod_cases3 by blast
    have "load_header_checks p3 f3 = (PAKKA_OK, pak', f')"
      using r se so sz sig Magic_Pak hf by (simp add: load_pakfile_def p2_def split: if_splits)
    then obtain x geom where "format pak' = x" "pakka_pak_geometry x = Some geom"
      by (rule load_header_checks_OK) auto
    with geometry_facts(6) z show ?thesis by blast
  next
    case (Magic_Error s)
    with r se so sz sig classify_error [of p2] show ?thesis by (auto simp: load_pakfile_def p2_def)
  qed
qed

lemma load_dir_rows_format: "load_dir_rows oom geom i n pak f = (s, pak', f') \<Longrightarrow> format pak' = format pak"
proof (induction n arbitrary: i pak f)
  case (Suc n)
  obtain e g where rd: "read_dir_entry (format pak) geom f = (e, g)" by fastforce
  show ?case
  proof (cases "oom i \<or> e = None \<or> entry_out_of_range pak (the e)")
    case True
    with Suc.prems rd show ?thesis by (cases e) (auto split: if_splits)
  next
    case False
    then obtain d where "e = Some d" by (cases e) auto
    with False Suc.prems rd obtain q where
      "load_dir_rows oom geom (i + 1) n q g = (s, pak', f')" "format q = format pak"
      by (simp add: Let_def)
    with Suc.IH show ?thesis by metis
  qed
qed simp

lemma load_directory_format: "load_directory oom pak f = (s, pak', f') \<Longrightarrow> format pak' = format pak"
  using load_dir_rows_format by (fastforce simp: load_directory_def Let_def split: if_splits option.splits prod.splits)

lemma zip_load_archive_OK:
  assumes r: "load_archive (pk3_ops D) env pak f = (PAKKA_OK, Some a)" and z: "pakka_format_is_zip (format a)"
    and pak: "entries pak = []" "\<not> dirty pak"
  shows "zip_archive_wf a \<and> same_mode a pak \<and> list_all portable (entries a) \<and> list_all (\<lambda>e. \<not> is_staged e) (entries a)
    \<and> length (entries a) < 2 ^ 16 \<and> (\<exists>g. fp a = Some g \<and> f_data g = f_data f)"
proof -
  obtain s1 p1 f1 where l: "load_pakfile (z_open (pk3_ops D) env) pak f = (s1, p1, f1)" using prod_cases3 by blast
  obtain s2 p2 f2 where d: "(if pakka_format_is_zip (format p1) then (PAKKA_OK, p1, f1)
      else load_directory (\<lambda>i. e_oom env (A_row i)) p1 f1) = (s2, p2, f2)" using prod_cases3 by blast
  have st: "s1 = PAKKA_OK" "s2 = PAKKA_OK" "validate_no_duplicates (\<lambda>_. e_oom env A_names) p2 = PAKKA_OK"
    and a: "a = p2\<lparr>fp := Some f2\<rparr>"
    using r l d by (auto simp: load_archive_def Let_def split: if_splits)
  have z1: "pakka_format_is_zip (format p1)"
  proof (rule ccontr)
    assume nz: "\<not> pakka_format_is_zip (format p1)"
    have "format p2 = format p1" using d nz st(2) load_directory_format by auto
    with nz z show False by (simp add: a)
  qed
  then have p: "p2 = p1" "f2 = f1" using d by auto
  from load_pakfile_zip [OF l [unfolded st(1)] z1] obtain fmt sig g where
    Z: "pakka_format_is_zip fmt" "length (f_data f) < 2 ^ 63" "f_data g = f_data f"
    "pakka_pk3_open_impl env (pak\<lparr>file_size := of_nat (length (f_data f)), signature := sig, format := fmt\<rparr>) g
      = (PAKKA_OK, p1, f1)"
    by (auto simp: pk3_ops_def)
  define oom where "oom = (\<lambda>x. case x of None \<Rightarrow> e_oom env A_cdr | Some i \<Rightarrow> e_oom env (A_row i))"
  define n where "n = unat (of_nat (length (f_data f)) :: u64)"
  obtain w f3 where os: "pk3_open_steps oom g n = (w, f3)" by fastforce
  note S = open_steps [OF os]
  from Z(4) os S obtain c es k where w: "w = Ok (c, es, k)"
    by (cases w) (auto simp: pakka_pk3_open_impl_def Let_def oom_def [symmetric] n_def [symmetric])
  have E: "list_all (zip_entry_wf (f_data f) (unat c)) es" "k = length es" "k < 2 ^ 16" "unat c + PK3_EOCD_SIZE \<le> length (f_data f)"
    "f_data f3 = f_data f"
    using S w Z(3) by auto
  have p1: "p1 = pak\<lparr>file_size := of_nat (length (f_data f)), signature := sig, format := fmt,
      max_decompressed := PK3_DEFAULT_MAX_DECOMPRESSED, pk3_cdr_offset := c, entries := es, num_entries := of_nat k\<rparr>" "f1 = f3"
    using Z(4) os w pak(1) by (simp_all add: pakka_pk3_open_impl_def Let_def oom_def [symmetric] n_def [symmetric])
  have nn: "unat (num_entries p1) = length (entries p1)" using E(2,3) by (simp add: p1(1) unat_of_nat_u32)
  have "\<not> pakka_format_is_wad (format p1)" using z1 by (auto simp: pakka_format_is_wad_def pakka_format_is_zip_def)
  from validate_no_duplicates_OK [OF st(3) [unfolded p(1)] nn this] have nd: "names_distinct es" by (simp add: p1(1))
  have ew: "\<forall>e \<in> set es. zip_kind_wf e \<and> \<not> is_staged e \<and> portable e \<and> placed (f_data f) (unat c) e"
    using E(1) printable_c_string
    by (auto simp: list_all_iff zip_entry_wf_def parsed_entry_def portable_def clean_name_def zip_kind_wf_def placed_def)
  have "zip_archive_wf a"
    using Z(1) nn nd ew pak(2) E(4,5) unfolding zip_archive_wf_def a p by (simp add: p1)
  moreover have "same_mode a pak" by (simp add: a p p1(1) same_mode_def)
  ultimately show ?thesis using ew E by (simp add: a p p1 list_all_iff)
qed



section \<open>Samples\<close>

text \<open>An environment that reads files of up to 4 GiB.\<close>

definition roomy_env :: env where
  "roomy_env = quiet_env\<lparr>e_limits := \<lambda>_ _. Some (quiet_limits\<lparr>l_readable := 2 ^ 32\<rparr>)\<rparr>"

lemma roomy_can_open:
  assumes "length (file_bytes fs p) \<le> UINT32_MAX" "length p < OS_PATH_MAX"
  shows "can_open roomy_env fs p mode"
  using assms by (simp add: can_open_def roomy_env_def quiet_env_def quiet_limits_def UINT32_MAX_def)

lemma sample_zip_portable: "list_all portable (entries sample_zip)"
proof -
  have "utf8_text (ascii ''a.cfg'')"
    using utf8_valid_text [of 5 "ascii ''a.cfg''"]
    by (simp add: ascii_def pakka_is_valid_utf8_def utf8_valid_loop.simps mem_load_def is_cont_def)
  then show ?thesis by (simp add: portable_def clean_name_def ascii_def printable_def PAKKA_ENTRY_NAME_SIZE_def)
qed

lemma zip_commit_then_open_witness:
  "\<exists>a' fs' q g. pakka_commit (pk3_ops (vendored sample_codec)) quiet_env zip_disk (Some sample_zip) = (PAKKA_OK, Some a', fs')
    \<and> pakka_open_ex (pk3_ops (vendored sample_codec)) roomy_env fs' (Some []) (Some PAKKA_OPEN_READ) (Some PAKKA_FORMAT_AUTO)
        = (PAKKA_OK, Some q)
    \<and> fp q = Some g \<and> zip_listing fs' g q = zip_listing zip_disk zip_fp sample_zip"
proof -
  let ?D = "vendored sample_codec"
  obtain a' fs' where r: "pakka_commit (pk3_ops ?D) quiet_env zip_disk (Some sample_zip) = (PAKKA_OK, Some a', fs')"
    by (rule sample_zip_committed)
  have ex: "zip_disk (pak_path sample_zip) \<noteq> None" by simp
  from zip_commit_OK [OF sample_zip_wf sample_zip_simps(1,2) quiet_fresh ex r] obtain g :: cfile where
    g: "fs' (pak_path sample_zip) = Some (Regular (f_data g))"
    and im: "zip_image (entries a') (unat (pk3_cdr_offset a')) (f_data g)" by blast
  have "length (f_data g) \<le> UINT32_MAX"
    using zip_image_length [OF im] im unfolding zip_image_def by simp
  moreover have "file_bytes fs' [] = f_data g" using g by (simp add: file_bytes_def)
  ultimately have "length (file_bytes fs' []) \<le> UINT32_MAX" by simp
  then have co: "can_open roomy_env fs' (pak_path sample_zip) PAKKA_OPEN_READ"
    by (intro roomy_can_open) (simp_all add: OS_PATH_MAX_def)
  have n: "length (entries sample_zip) < 0xFFFF" "zip_hint PAKKA_FORMAT_AUTO" by (simp_all add: zip_hint_def)
  from zip_commit_then_open [OF sample_zip_wf sample_zip_simps(1,2) quiet_fresh ex r n(1) sample_zip_portable co n(2), of ?D] r
  show ?thesis by auto
qed

lemma empty_image: "zip_image [] 0 (pk3_build_eocd 0 0 0)"
  by (simp add: zip_image_def PK3_EOCD_SIZE_def UINT32_MAX_def)


end
