(* ===== verification/Session.thy ===== *)
theory Session
  imports Zip_Edit Zip_Reopen
begin

text \<open>
  Sequences of calls on one handle, for archives of every format: the state a client can bring a handle
  into, and the list of names and contents such a handle stands for.
\<close>

section \<open>What a handle stands for\<close>

type_synonym contents = "(cstring \<times> u8 list option) list"

definition handle_wf :: "archive \<Rightarrow> bool" where
  "handle_wf a \<longleftrightarrow> (if pakka_format_is_zip (format a) then zip_archive_wf a else archive_wf a)"

definition contents_of :: "deflate_ops \<Rightarrow> files \<Rightarrow> cfile \<Rightarrow> archive \<Rightarrow> contents" where
  "contents_of D fs f a = (if pakka_format_is_zip (format a) then zip_files D fs f a else listing fs f a)"

lemma handle_wf_zip: "zip_archive_wf a \<Longrightarrow> handle_wf a \<and> contents_of D fs f a = zip_files D fs f a"
  by (simp add: handle_wf_def contents_of_def zip_archive_wf_def)

lemma handle_wf_pak: "archive_wf a \<Longrightarrow> handle_wf a \<and> contents_of D fs f a = listing fs f a"
  by (metis archive_wf_geometry handle_wf_def contents_of_def)

text \<open>The specification: edits of a list of named contents, of which the first of a name counts.\<close>

fun without :: "cstring \<Rightarrow> contents \<Rightarrow> contents" where
  "without n [] = []"
| "without n ((m, v) # l) = (if m = n then l else (m, v) # without n l)"

fun renamed :: "cstring \<Rightarrow> cstring \<Rightarrow> contents \<Rightarrow> contents" where
  "renamed n n' [] = []"
| "renamed n n' ((m, v) # l) = (if m = n then (n', v) # l else (m, v) # renamed n n' l)"

definition looked_up :: "contents \<Rightarrow> cstring \<Rightarrow> u8 list option" where
  "looked_up l n = (case map_of l n of Some v \<Rightarrow> v | None \<Rightarrow> None)"

lemma without_split: "n \<notin> fst ` set xs \<Longrightarrow> without n (xs @ (n, v) # ys) = xs @ ys"
  by (induction xs) auto

lemma renamed_split: "n \<notin> fst ` set xs \<Longrightarrow> renamed n n' (xs @ (n, v) # ys) = xs @ (n', v) # ys"
  by (induction xs) auto

lemma looked_up_split: "n \<notin> fst ` set xs \<Longrightarrow> looked_up (xs @ (n, v) # ys) n = v"
  by (simp add: looked_up_def map_add_def map_of_eq_None_iff [THEN iffD2])

datatype call =
    Add_memory cstring "u8 list"
  | Add_file path cstring
  | Delete cstring
  | Rename cstring cstring
  | Copy cstring cstring
  | Commit

fun effect :: "files \<Rightarrow> call \<Rightarrow> contents \<Rightarrow> contents" where
  "effect fs (Add_memory n d) l = l @ [(n, Some d)]"
| "effect fs (Add_file q n) l = l @ [(n, Some (file_bytes fs q))]"
| "effect fs (Delete n) l = without n l"
| "effect fs (Rename n n') l = renamed n n' l"
| "effect fs (Copy n n') l = l @ [(n', looked_up l n)]"
| "effect fs Commit l = l"

section \<open>The calls\<close>

fun perform :: "deflate_ops \<Rightarrow> env \<Rightarrow> (nat \<Rightarrow> bool) \<Rightarrow> call \<Rightarrow> archive \<Rightarrow> files \<Rightarrow> status \<times> archive option \<times> files" where
  "perform D env oom (Add_memory n d) a fs =
     (let (s, x) = pakka_add_memory (pk3_ops D) env (Some a) (Some n) (Some d) (length d) in (s, x, fs))"
| "perform D env oom (Add_file q n) a fs =
     (let (s, x) = pakka_add_file (pk3_ops D) env fs (Some a) (Some q) (Some n) in (s, x, fs))"
| "perform D env oom (Delete n) a fs = (let (s, x) = pakka_delete (Some a) (Some n) in (s, x, fs))"
| "perform D env oom (Rename n n') a fs = (let (s, x) = pakka_rename (Some a) (Some n) (Some n') in (s, x, fs))"
| "perform D env oom (Copy n n') a fs = (let (s, x) = pakka_copy oom (Some a) (Some n) (Some n') in (s, x, fs))"
| "perform D env oom Commit a fs = pakka_commit (pk3_ops D) env fs (Some a)"

text \<open>The names a call brings in are C strings, which is what a \<^verbatim>\<open>char *\<close> can hold.\<close>

fun call_ok :: "call \<Rightarrow> bool" where
  "call_ok (Add_memory n d) = c_string n"
| "call_ok (Add_file q n) = c_string n"
| "call_ok (Rename n n') = c_string n'"
| "call_ok (Copy n n') = c_string n'"
| "call_ok c = True"

section \<open>The file of a handle stays the same\<close>

lemmas open_calls = pakka_add_memory_def pakka_add_file_def pakka_delete_def pakka_rename_def pakka_copy_def

lemma pak_path_update [simp]:
  "pak_path (a\<lparr>fp := f\<rparr>) = pak_path a" "pak_path (a\<lparr>entries := es\<rparr>) = pak_path a"
  "pak_path (a\<lparr>payload_end := x\<rparr>) = pak_path a" "pak_path (a\<lparr>file_size := x\<rparr>) = pak_path a"
  "pak_path (a\<lparr>dirty := b\<rparr>) = pak_path a" "pak_path (a\<lparr>needs_rebuild := b\<rparr>) = pak_path a"
  "pak_path (a\<lparr>pk3_cdr_offset := y\<rparr>) = pak_path a" "pak_path (a\<lparr>diroffset := y\<rparr>) = pak_path a"
  "pak_path (a\<lparr>dirlength := y\<rparr>) = pak_path a" "pak_path (a\<lparr>num_entries := y\<rparr>) = pak_path a"
  by (simp_all add: pak_path_def)

lemma link_path [simp]:
  "pak_path (pk3_link_pending_entry a e) = pak_path a" "pak_path (pak_link_staged_entry a e) = pak_path a"
  "pak_path (pak_link_copy_entry a e b) = pak_path a" "pak_path (link_appended a e p x) = pak_path a"
  by (simp_all add: pk3_link_pending_entry_def pak_link_staged_entry_def pak_link_copy_entry_def
      link_appended_def Let_def)

lemma add_memory_path:
  "pakka_add_memory Z env (Some a) (Some n) (Some d) len = (s, Some a') \<Longrightarrow> \<not> pakka_format_is_zip (format a) \<Longrightarrow>
   pak_path a' = pak_path a"
  by (auto simp: pakka_add_memory_def stage_memory_def append_memory_def Let_def split: if_splits option.splits prod.splits)

lemma stage_file_path: "stage_file env a q n src sz buf enc = (s, a') \<Longrightarrow> pak_path a' = pak_path a"
  by (auto simp: stage_file_def Let_def split: if_splits option.splits prod.splits)

lemma append_file_path: "append_file env a f n src sz buf enc = (s, a') \<Longrightarrow> pak_path a' = pak_path a"
  by (auto simp: append_file_def Let_def split: if_splits prod.splits)

lemma add_file_path:
  "pakka_add_file Z env fs (Some a) (Some q) (Some n) = (s, Some a') \<Longrightarrow> \<not> pakka_format_is_zip (format a) \<Longrightarrow>
   pak_path a' = pak_path a"
  by (auto simp: pakka_add_file_def Let_def split: if_splits option.splits prod.splits
      dest: stage_file_path append_file_path)

lemma edit_path:
  "pakka_delete (Some a) (Some n) = (s, Some a') \<Longrightarrow> pak_path a' = pak_path a"
  "pakka_rename (Some a) (Some n) (Some n') = (s, Some a') \<Longrightarrow> pak_path a' = pak_path a"
  "pakka_copy oom (Some a) (Some n) (Some n') = (s, Some a') \<Longrightarrow> pak_path a' = pak_path a"
  by (auto simp: pakka_delete_def pakka_rename_def pakka_copy_def Let_def split: if_splits option.splits)

lemma write_directory_path: "write_pak_directory b a f = (s, a', g) \<Longrightarrow> pak_path a' = pak_path a"
  by (auto simp: write_pak_directory_def Let_def split: if_splits option.splits prod.splits)

lemma commit_in_place_path: "commit_in_place env fs a f = (PAKKA_OK, a', fs') \<Longrightarrow> pak_path a' = pak_path a"
  by (auto simp: commit_in_place_def Let_def split: if_splits prod.splits dest!: write_directory_path)

lemma rebuild_rename_path:
  "rebuild_rename env fs a undo g t q = (PAKKA_OK, a', fs') \<Longrightarrow> pak_path a' = pak_path a"
  by (auto simp: rebuild_rename_def Let_def split: if_splits option.splits prod.splits)

lemma rebuild_publish_path:
  "rebuild_publish env fs a g t q offs pe' h = (PAKKA_OK, a', fs') \<Longrightarrow> pak_path a' = pak_path a"
  by (auto simp: rebuild_publish_def Let_def split: if_splits prod.splits dest!: write_directory_path rebuild_rename_path)

lemma commit_rebuild_path: "pakka_commit_rebuild env fs a f = (PAKKA_OK, a', fs') \<Longrightarrow> pak_path a' = pak_path a"
  by (auto simp: pakka_commit_rebuild_def Let_def split: if_splits option.splits prod.splits dest: rebuild_publish_path)

lemma pk3_rename_path:
  "pk3_rebuild_rename env fs a undo g t q n = (PAKKA_OK, a', fs') \<Longrightarrow> pak_path a' = pak_path a"
  by (auto simp: pk3_rebuild_rename_def Let_def split: if_splits option.splits prod.splits)

lemma pk3_publish_path:
  "pk3_rebuild_publish env fs a undo g t q h = (PAKKA_OK, a', fs') \<Longrightarrow> pak_path a' = pak_path a"
  by (auto simp: pk3_rebuild_publish_def Let_def split: if_splits prod.splits dest!: pk3_rename_path)

lemma pk3_commit_rebuild_path: "pk3_commit_rebuild env fs a f = (PAKKA_OK, a', fs') \<Longrightarrow> pak_path a' = pak_path a"
  by (auto simp: pk3_commit_rebuild_def Let_def split: if_splits option.splits prod.splits dest!: pk3_publish_path)

lemma commit_path:
  assumes "pakka_commit (pk3_ops D) env fs (Some a) = (PAKKA_OK, Some a', fs')" "handle_wf a"
  shows "pak_path a' = pak_path a"
proof -
  have z: "pakka_format_is_zip (format a) \<Longrightarrow> dirty a \<longrightarrow> needs_rebuild a"
    using assms(2) by (simp add: handle_wf_def zip_archive_wf_def)
  show ?thesis
    using assms(1) z
    by (auto simp: pakka_commit_def pk3_ops_def pakka_pk3_commit_impl_def Let_def
        split: if_splits option.splits prod.splits
        dest: commit_in_place_path commit_rebuild_path pk3_commit_rebuild_path)
qed

section \<open>One call\<close>

text \<open>What holds between calls: the handle is well formed, has a stream, its file is there, and it stands
  for \<open>l\<close>.\<close>

definition stands_for :: "deflate_ops \<Rightarrow> archive \<Rightarrow> files \<Rightarrow> contents \<Rightarrow> bool" where
  "stands_for D a fs l \<longleftrightarrow> handle_wf a \<and> fs (pak_path a) \<noteq> None \<and> (\<exists>f. fp a = Some f \<and> contents_of D fs f a = l)"

lemma stands_forI:
  "handle_wf a \<Longrightarrow> fs (pak_path a) \<noteq> None \<Longrightarrow> fp a = Some f \<Longrightarrow> contents_of D fs f a = l \<Longrightarrow> stands_for D a fs l"
  by (auto simp: stands_for_def)

lemma delete_stands:
  assumes st: "stands_for D a fs l" and r: "pakka_delete (Some a) (Some n) = (s, Some a')"
  shows "stands_for D a' fs (if s = PAKKA_OK then without n l else l)"
proof -
  obtain f where f: "fp a = Some f" "contents_of D fs f a = l" and ex: "fs (pak_path a) \<noteq> None" and wf: "handle_wf a"
    using st by (auto simp: stands_for_def)
  have ex': "fs (pak_path a') \<noteq> None" using ex edit_path(1) [OF r] by simp
  show ?thesis
  proof (cases "pakka_format_is_zip (format a)")
    case True
    then have zw: "zip_archive_wf a" and fl: "zip_files D fs f a = l" using wf f by (simp_all add: handle_wf_def contents_of_def)
    from zip_delete_effect [OF zw r] show ?thesis
    proof (cases "s = PAKKA_OK")
      case True
      then obtain xs e ys where E: "zip_archive_wf a'" "fp a' = fp a" "entries a = xs @ e # ys" "entries a' = xs @ ys"
        "filename e = n" "n \<notin> filename ` set xs" using zip_delete_effect [OF zw r] by auto
      have "n \<notin> fst ` set (map (\<lambda>e. (filename e, zip_content D fs f e)) xs)" using E(6) by auto
      from without_split [OF this] have "zip_files D fs f a' = without n l"
        using E(3-5) fl by (auto simp: zip_files_def)
      with True E(1,2) f(1) ex' handle_wf_zip [OF E(1), of D fs f] show ?thesis by (intro stands_forI [of _ _ f]) simp_all
    qed (use st in auto)
  next
    case False
    then have pw: "archive_wf a" and fl: "listing fs f a = l" using wf f by (simp_all add: handle_wf_def contents_of_def)
    from delete_effect [OF pw r, of fs f] have E: "archive_wf a'" and
      D: "if s = PAKKA_OK then (\<exists>xs v ys. listing fs f a = xs @ (n, v) # ys \<and> listing fs f a' = xs @ ys \<and> n \<notin> fst ` set xs)
        \<and> fp a' = fp a else a' = a" by (auto split: if_splits)
    then have "fp a' = fp a \<and> listing fs f a' = (if s = PAKKA_OK then without n l else l)"
      using fl without_split by (auto split: if_splits)
    with E f(1) ex' handle_wf_pak [OF E, of D fs f] show ?thesis by (intro stands_forI [of _ _ f]) simp_all
  qed
qed

lemma rename_stands:
  assumes st: "stands_for D a fs l" and r: "pakka_rename (Some a) (Some n) (Some n') = (s, Some a')" and cs: "c_string n'"
  shows "stands_for D a' fs (if s = PAKKA_OK then renamed n n' l else l)"
proof -
  obtain f where f: "fp a = Some f" "contents_of D fs f a = l" and ex: "fs (pak_path a) \<noteq> None" and wf: "handle_wf a"
    using st by (auto simp: stands_for_def)
  have ex': "fs (pak_path a') \<noteq> None" using ex edit_path(2) [OF r] by simp
  show ?thesis
  proof (cases "pakka_format_is_zip (format a)")
    case True
    then have zw: "zip_archive_wf a" and fl: "zip_files D fs f a = l" using wf f by (simp_all add: handle_wf_def contents_of_def)
    show ?thesis
    proof (cases "s = PAKKA_OK")
      case True
      then obtain xs e ys where E: "zip_archive_wf a'" "fp a' = fp a" "entries a = xs @ e # ys"
        "entries a' = xs @ e\<lparr>filename := n'\<rparr> # ys"
        "filename e = n" "n \<notin> filename ` set xs" using zip_rename_effect [OF zw r cs] by auto
      have c: "zip_content D fs f (e\<lparr>filename := n'\<rparr>) = zip_content D fs f e"
        by (simp add: zip_content_def zip_bytes_def cong: option.case_cong)
      have "n \<notin> fst ` set (map (\<lambda>e. (filename e, zip_content D fs f e)) xs)" using E(6) by auto
      from renamed_split [OF this] have "zip_files D fs f a' = renamed n n' l"
        using E(3-5) fl c by (auto simp: zip_files_def)
      with True E(1,2) f(1) ex' handle_wf_zip [OF E(1), of D fs f] show ?thesis by (intro stands_forI [of _ _ f]) simp_all
    next
      case False
      with zip_rename_effect [OF zw r cs] st show ?thesis by simp
    qed
  next
    case False
    then have pw: "archive_wf a" and fl: "listing fs f a = l" using wf f by (simp_all add: handle_wf_def contents_of_def)
    from rename_effect [OF pw r cs, of fs f] have E: "archive_wf a'" and
      D: "if s = PAKKA_OK then (\<exists>xs v ys. listing fs f a = xs @ (n, v) # ys \<and> listing fs f a' = xs @ (n', v) # ys
        \<and> n \<notin> fst ` set xs) \<and> fp a' = fp a else a' = a" by (auto split: if_splits)
    then have "fp a' = fp a \<and> listing fs f a' = (if s = PAKKA_OK then renamed n n' l else l)"
      using fl renamed_split by (auto split: if_splits)
    with E f(1) ex' handle_wf_pak [OF E, of D fs f] show ?thesis by (intro stands_forI [of _ _ f]) simp_all
  qed
qed

lemma copy_stands:
  assumes st: "stands_for D a fs l" and r: "pakka_copy oom (Some a) (Some n) (Some n') = (s, Some a')" and cs: "c_string n'"
    and sz: "Suc (length (entries a)) < 2 ^ 32"
  shows "stands_for D a' fs (if s = PAKKA_OK then l @ [(n', looked_up l n)] else l)"
proof -
  obtain f where f: "fp a = Some f" "contents_of D fs f a = l" and ex: "fs (pak_path a) \<noteq> None" and wf: "handle_wf a"
    using st by (auto simp: stands_for_def)
  have ex': "fs (pak_path a') \<noteq> None" using ex edit_path(3) [OF r] by simp
  have look: "find_entry a n = Some e \<Longrightarrow> looked_up (map (\<lambda>e. (filename e, c e)) (entries a)) n = c e" for c e
  proof -
    assume "find_entry a n = Some e"
    from find_entry_split [OF this [unfolded find_entry_def]] obtain xs ys where
      sp: "entries a = xs @ e # ys" "filename e = n" "n \<notin> filename ` set xs" by blast
    have "n \<notin> fst ` set (map (\<lambda>e. (filename e, c e)) xs)" using sp(3) by auto
    from looked_up_split [OF this, of "c e"] show ?thesis by (simp add: sp(1,2))
  qed
  show ?thesis
  proof (cases "pakka_format_is_zip (format a)")
    case True
    then have zw: "zip_archive_wf a" and fl: "zip_files D fs f a = l" using wf f by (simp_all add: handle_wf_def contents_of_def)
    show ?thesis
    proof (cases "s = PAKKA_OK")
      case True
      then obtain e d where E: "zip_archive_wf a'" "fp a' = fp a" "find_entry a n = Some e" "entries a' = entries a @ [d]"
        "filename d = n'" "zip_content D fs f d = zip_content D fs f e"
        using zip_copy_effect [where D = D and fs = fs, OF zw r cs sz] by auto
      have "zip_files D fs f a' = l @ [(n', looked_up l n)]"
        using E(4-6) look [OF E(3), of "zip_content D fs f"] fl by (simp add: zip_files_def)
      with True E(1,2) f(1) ex' handle_wf_zip [OF E(1), of D fs f] show ?thesis by (intro stands_forI [of _ _ f]) simp_all
    next
      case False
      with zip_copy_effect [OF zw r cs sz] st show ?thesis by simp
    qed
  next
    case False
    then have pw: "archive_wf a" and fl: "listing fs f a = l" using wf f by (simp_all add: handle_wf_def contents_of_def)
    from copy_effect [OF pw r cs sz, of fs f] have E: "archive_wf a'" and
      G: "if s = PAKKA_OK then (\<exists>e. find_entry a n = Some e \<and> listing fs f a' = l @ [(n', entry_content fs f e)])
        \<and> fp a' = fp a else a' = a" using fl by (auto split: if_splits)
    then have "fp a' = fp a \<and> listing fs f a' = (if s = PAKKA_OK then l @ [(n', looked_up l n)] else l)"
      using fl look [of _ "entry_content fs f"] by (auto simp: listing_def split: if_splits)
    with E f(1) ex' handle_wf_pak [OF E, of D fs f] show ?thesis by (intro stands_forI [of _ _ f]) simp_all
  qed
qed

lemma zip_added_stands:
  assumes st: "stands_for D a fs l" and z: "pakka_format_is_zip (format a)"
    and ad: "if s = PAKKA_OK then zip_added D fs a n p a' else a' = a"
  shows "stands_for D a' fs (if s = PAKKA_OK then l @ [(n, Some p)] else l)"
proof (cases "s = PAKKA_OK")
  case True
  obtain f where f: "fp a = Some f" "zip_files D fs f a = l" and ex: "fs (pak_path a) \<noteq> None"
    using st z by (auto simp: stands_for_def contents_of_def)
  from True ad have z: "zip_added D fs a n p a'" by simp
  then have E: "zip_archive_wf a'" "fp a' = fp a" "pak_path a' = pak_path a"
    by (auto simp: zip_added_def) (auto simp: pk3_link_pending_entry_def)
  show ?thesis
    using True f ex E zip_added_files [OF z, of f] handle_wf_zip [OF E(1), of D fs f]
    by (intro stands_forI [of _ _ f]) simp_all
qed (use ad st in simp)

lemma add_memory_stands:
  assumes st: "stands_for D a fs l" and D: "deflate_contract D" and cs: "c_string n"
    and sz: "Suc (length (entries a)) < 2 ^ 32"
    and r: "pakka_add_memory (pk3_ops D) env (Some a) (Some n) (Some p) (length p) = (s, Some a')"
  shows "stands_for D a' fs (if s = PAKKA_OK then l @ [(n, Some p)] else l)"
proof (cases "pakka_format_is_zip (format a)")
  case True
  then have "zip_archive_wf a" using st by (simp add: stands_for_def handle_wf_def)
  from zip_add_memory_effect [OF this cs sz D _ r, of fs] show ?thesis
    by (intro zip_added_stands [OF st True]) (auto split: if_splits)
next
  case False
  then obtain f where f: "fp a = Some f" "listing fs f a = l" and ex: "fs (pak_path a) \<noteq> None" and pw: "archive_wf a"
    using st by (auto simp: stands_for_def handle_wf_def contents_of_def)
  from add_memory_effect [OF pw f(1) cs sz _ r, of fs] obtain f' where
    E: "archive_wf a'" "fp a' = Some f'" "listing fs f' a' = (if s = PAKKA_OK then l @ [(n, Some p)] else l)"
    using f(2) by (cases "s = PAKKA_OK") (auto simp: listing_def)
  with ex add_memory_path [OF r False] handle_wf_pak [OF E(1), of D fs f'] show ?thesis
    by (intro stands_forI [of _ _ f']) simp_all
qed

lemma add_file_stands:
  assumes st: "stands_for D a fs l" and D: "deflate_contract D" and cs: "c_string n"
    and sz: "Suc (length (entries a)) < 2 ^ 32"
    and r: "pakka_add_file (pk3_ops D) env fs (Some a) (Some q) (Some n) = (s, Some a')"
  shows "stands_for D a' fs (if s = PAKKA_OK then l @ [(n, Some (file_bytes fs q))] else l)"
proof (cases "pakka_format_is_zip (format a)")
  case True
  then have "zip_archive_wf a" using st by (simp add: stands_for_def handle_wf_def)
  from zip_add_file_effect [OF this cs sz D r] show ?thesis
    by (intro zip_added_stands [OF st True]) (auto simp: regular_bytes split: if_splits)
next
  case False
  then obtain f where f: "fp a = Some f" "listing fs f a = l" and ex: "fs (pak_path a) \<noteq> None" and pw: "archive_wf a"
    using st by (auto simp: stands_for_def handle_wf_def contents_of_def)
  from add_file_effect [OF pw f(1) cs sz r] obtain f' where
    E: "archive_wf a'" "fp a' = Some f'"
      "listing fs f' a' = (if s = PAKKA_OK then l @ [(n, Some (file_bytes fs q))] else l)"
    using f(2) by (cases "s = PAKKA_OK") (auto simp: listing_def regular_bytes)
  with ex add_file_path [OF r False] handle_wf_pak [OF E(1), of D fs f'] show ?thesis
    by (intro stands_forI [of _ _ f']) simp_all
qed

lemma commit_stands:
  assumes st: "stands_for D a fs l" and fr: "mkstemp_fresh env"
    and r: "pakka_commit (pk3_ops D) env fs (Some a) = (PAKKA_OK, Some a', fs')"
  shows "stands_for D a' fs' l"
proof -
  obtain f where f: "fp a = Some f" "contents_of D fs f a = l" and ex: "fs (pak_path a) \<noteq> None" and wf: "handle_wf a"
    using st by (auto simp: stands_for_def)
  note pp = commit_path [OF r wf]
  show ?thesis
  proof (cases "dirty a")
    case False
    then have "a' = a \<and> fs' = fs" using r
      by (auto simp: pakka_commit_def pk3_ops_def pakka_pk3_commit_impl_def Let_def split: if_splits prod.splits)
    with st show ?thesis by simp
  next
    case True
    show ?thesis
    proof (cases "pakka_format_is_zip (format a)")
      case z: True
      then have zw: "zip_archive_wf a" and fl: "zip_files D fs f a = l" using wf f by (simp_all add: handle_wf_def contents_of_def)
      from zip_commit_OK [OF zw f(1) True fr ex r] obtain g where
        E: "fp a' = Some g" "zip_archive_wf a'" "zip_listing fs' g a' = zip_listing fs f a" "fs' (pak_path a) \<noteq> None" by auto
      with pp fl zip_listing_files [OF E(3), of D] handle_wf_zip [OF E(2), of D fs' g] show ?thesis
        by (intro stands_forI [of _ _ g]) simp_all
    next
      case z: False
      then have pw: "archive_wf a" and fl: "listing fs f a = l" using wf f by (simp_all add: handle_wf_def contents_of_def)
      from commit_OK [OF pw f(1) True fr ex r] obtain g where
        E: "fp a' = Some g" "archive_wf a'" "listing fs' g a' = listing fs f a" "fs' (pak_path a) \<noteq> None" by auto
      with pp fl handle_wf_pak [OF E(2), of D fs' g] show ?thesis by (intro stands_forI [of _ _ g]) simp_all
    qed
  qed
qed

section \<open>Sessions\<close>

text \<open>What is left alone while a handle is in use: its own file and the files it has yet to read.\<close>

definition keeps_inputs :: "archive \<Rightarrow> files \<Rightarrow> files \<Rightarrow> bool" where
  "keeps_inputs a fs fs' \<longleftrightarrow> (fs (pak_path a) \<noteq> None \<longrightarrow> fs' (pak_path a) \<noteq> None)
     \<and> (\<forall>e \<in> set (entries a). \<forall>q. pending_source e = Some q \<longrightarrow> file_bytes fs' q = file_bytes fs q)"

lemma keeps_inputs_stands:
  assumes st: "stands_for D a fs l" and k: "keeps_inputs a fs fs'"
  shows "stands_for D a fs' l"
proof -
  obtain f where f: "fp a = Some f" "contents_of D fs f a = l" and ex: "fs (pak_path a) \<noteq> None" and wf: "handle_wf a"
    using st by (auto simp: stands_for_def)
  have c: "entry_content fs' f e = entry_content fs f e" "zip_content D fs' f e = zip_content D fs f e"
    if "e \<in> set (entries a)" for e
    using k that by (auto simp: keeps_inputs_def entry_content_def stored_bytes_def zip_content_def zip_bytes_def
        split: option.splits cong: option.case_cong)
  have "contents_of D fs' f a = l"
    using f(2) c by (auto simp: contents_of_def listing_def zip_files_def)
  with wf ex k f(1) show ?thesis by (intro stands_forI [of _ _ f]) (auto simp: keeps_inputs_def)
qed

text \<open>A session: calls that are carried out change the specified list by their effect, calls that are refused
  (other than a commit, after which the handle may have lost its stream) leave it, and the rest of the
  system may change other files between calls.\<close>

inductive session :: "deflate_ops \<Rightarrow> archive \<times> files \<times> contents \<Rightarrow> archive \<times> files \<times> contents \<Rightarrow> bool"
  for D x where
  start: "session D x x"
| carried_out: "session D x (a, fs, l) \<Longrightarrow> call_ok c \<Longrightarrow> mkstemp_fresh env \<Longrightarrow> Suc (length (entries a)) < 2 ^ 32 \<Longrightarrow>
    perform D env oom c a fs = (PAKKA_OK, Some a', fs') \<Longrightarrow> session D x (a', fs', effect fs c l)"
| refused: "session D x (a, fs, l) \<Longrightarrow> call_ok c \<Longrightarrow> c \<noteq> Commit \<Longrightarrow> Suc (length (entries a)) < 2 ^ 32 \<Longrightarrow>
    perform D env oom c a fs = (s, Some a', fs') \<Longrightarrow> s \<noteq> PAKKA_OK \<Longrightarrow> session D x (a', fs', l)"
| elsewhere: "session D x (a, fs, l) \<Longrightarrow> keeps_inputs a fs fs' \<Longrightarrow> session D x (a, fs', l)"

lemma call_stands:
  assumes st: "stands_for D a fs l" and D: "deflate_contract D" and c: "call_ok c"
    and sz: "Suc (length (entries a)) < 2 ^ 32" and r: "perform D env oom c a fs = (s, Some a', fs')"
    and k: "c = Commit \<Longrightarrow> s = PAKKA_OK \<and> mkstemp_fresh env"
  shows "stands_for D a' fs' (if s = PAKKA_OK then effect fs c l else l)"
proof (cases c)
  case (Add_memory n d)
  with r c add_memory_stands [OF st D _ sz, of n env d s a'] show ?thesis by (auto split: prod.splits)
next
  case (Add_file q n)
  with r c add_file_stands [OF st D _ sz, of n env q s a'] show ?thesis by (auto split: prod.splits)
next
  case (Delete n)
  with r delete_stands [OF st, of n s a'] show ?thesis by (auto split: prod.splits)
next
  case (Rename n n')
  with r c rename_stands [OF st, of n n' s a'] show ?thesis by (auto split: prod.splits)
next
  case (Copy n n')
  with r c copy_stands [OF st _ _ sz, of oom n n' s a'] show ?thesis by (auto split: prod.splits)
next
  case Commit
  with k have "s = PAKKA_OK" "mkstemp_fresh env" by simp_all
  with Commit r commit_stands [OF st, of env a' fs'] show ?thesis by simp
qed

lemma session_stands:
  assumes "session D x y" "deflate_contract D" "stands_for D (fst x) (fst (snd x)) (snd (snd x))"
  shows "stands_for D (fst y) (fst (snd y)) (snd (snd y))"
  using assms
proof (induction rule: session.induct)
  case (carried_out a fs l c env oom a' fs')
  with call_stands [of D a fs l c env oom PAKKA_OK a' fs'] show ?case by simp
next
  case (refused a fs l c env oom s a' fs')
  with call_stands [of D a fs l c env oom s a' fs'] show ?case by simp
next
  case (elsewhere a fs l fs')
  with keeps_inputs_stands [of D a fs l fs'] show ?case by simp
qed simp

text \<open>C31: a handle of any format, used by any sequence of adds, deletes, renames, copies and commits, behaves
  as a list of named contents: a call that succeeds changes the list by exactly its specified edit, one
  that is refused leaves it, a commit changes nothing a client sees, and in every state so reached the
  handle is well formed, has its stream and its file, and reading its entries gives the list.\<close>

theorem session_refines_list:
  assumes "session D (a0, fs0, l0) (a, fs, l)" "deflate_contract D" "stands_for D a0 fs0 l0"
  shows "stands_for D a fs l"
  using session_stands [OF assms(1,2)] assms(3) by simp

definition small_list :: contents where
  "small_list = [(ascii ''a.cfg'', Some [0x41, 0x41, 0x42])]"

lemma packing_stands: "stands_for (vendored sample_codec) packing_zip zip_disk small_list"
proof -
  have "pak_path packing_zip = []" by (simp add: packing_zip_def pak_path_def sample_zip_def calloc_archive_def)
  moreover have "zip_files D zip_disk zip_fp packing_zip = small_list" for D
    by (simp add: zip_files_def small_list_def zip_content_def zip_decode_def zip_bytes_def zip_entry_def calloc_entry_def
        PK3_METHOD_STORED_def PK3_METHOD_DEFLATE_def)
  ultimately show ?thesis using handle_wf_zip [OF packing_zip_wf]
    by (intro stands_forI [of _ _ zip_fp]) simp_all
qed

lemma session_refines_list_witness:
  "\<exists>a. session (vendored sample_codec) (packing_zip, zip_disk, small_list) (a, zip_disk, [(ascii ''p.cfg'', Some [7, 7, 7])])
     \<and> stands_for (vendored sample_codec) a zip_disk [(ascii ''p.cfg'', Some [7, 7, 7])]"
proof -
  let ?D = "vendored sample_codec" and ?b = "pk3_link_pending_entry packing_zip packed_entry"
  let ?S = "session ?D (packing_zip, zip_disk, small_list)"
  have n: "ascii ''a.cfg'' \<noteq> ascii ''p.cfg''" by (simp add: ascii_def)
  have 1: "perform ?D quiet_env oom (Add_memory (ascii ''p.cfg'') [7, 7, 7]) packing_zip zip_disk = (PAKKA_OK, Some ?b, zip_disk)" for oom
    using packing_adds by (simp add: numeral_3_eq_3)
  have s1: "?S (?b, zip_disk, effect zip_disk (Add_memory (ascii ''p.cfg'') [7, 7, 7]) small_list)"
    by (rule carried_out [OF start _ quiet_fresh _ 1]) (simp_all add: ascii_c_string)
  obtain a where 2: "perform ?D quiet_env oom (Delete (ascii ''a.cfg'')) ?b zip_disk = (PAKKA_OK, Some a, zip_disk)" for oom
    by (simp add: pakka_delete_def pk3_link_pending_entry_def packing_zip_def sample_zip_def)
  have "?S (a, zip_disk, effect zip_disk (Delete (ascii ''a.cfg'')) (effect zip_disk (Add_memory (ascii ''p.cfg'') [7, 7, 7]) small_list))"
    by (rule carried_out [OF s1 _ quiet_fresh _ 2]) (simp_all add: pk3_link_pending_entry_def)
  then have S: "?S (a, zip_disk, [(ascii ''p.cfg'', Some [7, 7, 7])])" by (simp add: small_list_def)
  from session_refines_list [OF S vendored_contract [OF sample_codec_inverts] packing_stands] S show ?thesis by blast
qed

end
