(* ===== verification/Cli_Options.thy ===== *)
theory Cli_Options
  imports Pak_Types
begin

text \<open>
  The options of the command line tool (\<^verbatim>\<open>src/cli.c\<close>): the pass that takes the long options out of \<^verbatim>\<open>argv\<close>,
  the loop over \<^verbatim>\<open>getopt\<close>, and the checks at the end of \<^verbatim>\<open>parseopts\<close>.

  A computation of the tool either goes on with a value or ends the process with an exit status. What
  \<^verbatim>\<open>usage\<close>, \<^verbatim>\<open>help\<close> and \<^verbatim>\<open>pakka_die\<close> print is not modelled: the first two and every error end with status
  1, \<^verbatim>\<open>version\<close> ends with status 0.
\<close>

section \<open>Computations that may end the process\<close>

datatype 'a cli = Exit nat | Go 'a

fun cli_bind :: "'a cli \<Rightarrow> ('a \<Rightarrow> 'b cli) \<Rightarrow> 'b cli" where
  "cli_bind (Exit n) f = Exit n"
| "cli_bind (Go x) f = f x"

lemma cli_bind_cong [fundef_cong]:
  "m = m' \<Longrightarrow> (\<And>x. m' = Go x \<Longrightarrow> f x = g x) \<Longrightarrow> cli_bind m f = cli_bind m' g"
  by (cases m) auto

lemma cli_bind_Go_iff: "cli_bind m f = Go y \<longleftrightarrow> (\<exists>x. m = Go x \<and> f x = Go y)"
  by (cases m) auto

section \<open>Options\<close>

datatype cli_mode = PAK_EXTRACT | PAK_CREATE | PAK_ADD | PAK_REMOVE | PAK_LIST | PAK_VERIFY

text \<open>The mode 0 and the null pointers are \<open>None\<close>; the parallel arrays of \<^verbatim>\<open>--as\<close> are a list of pairs.\<close>

record opts =
  opt_mode :: "cli_mode option"
  opt_pakfile :: "path option"
  opt_destination :: "path option"
  opt_paths :: "path list"
  opt_tree :: bool
  opt_deep :: bool
  opt_compress :: bool
  opt_aliased :: "(cstring \<times> path) list"
  opt_format :: pakka_format

definition no_opts :: opts where
  "no_opts = \<lparr>opt_mode = None, opt_pakfile = None, opt_destination = None, opt_paths = [], opt_tree = False,
     opt_deep = False, opt_compress = False, opt_aliased = [], opt_format = PAKKA_FORMAT_AUTO\<rparr>"

definition setmodetype :: "opts \<Rightarrow> cli_mode \<Rightarrow> opts cli" where
  "setmodetype opts mode = (if opt_mode opts = None then Go (opts\<lparr>opt_mode := Some mode\<rparr>) else Exit 1)"

definition format_named :: "cstring \<Rightarrow> pakka_format option" where
  "format_named name =
     (if name = ascii ''pak'' \<or> name = ascii ''goldsrc'' \<or> name = ascii ''hl'' then Some PAKKA_FORMAT_PAK
      else if name = ascii ''sin'' then Some PAKKA_FORMAT_SIN
      else if name = ascii ''daikatana'' \<or> name = ascii ''dk'' then Some PAKKA_FORMAT_DAIKATANA
      else if name = ascii ''iwad'' then Some PAKKA_FORMAT_IWAD
      else if name = ascii ''pwad'' then Some PAKKA_FORMAT_PWAD
      else if name = ascii ''pk3'' then Some PAKKA_FORMAT_PK3
      else if name = ascii ''pk4'' then Some PAKKA_FORMAT_PK4
      else if name = ascii ''auto'' then Some PAKKA_FORMAT_AUTO
      else None)"

section \<open>The long options\<close>

text \<open>Growing the two arrays of \<^verbatim>\<open>--as\<close>; \<open>oom\<close> tells which capacity cannot be had.\<close>

definition grow_aliases :: "(nat \<Rightarrow> bool) \<Rightarrow> opts \<Rightarrow> nat \<Rightarrow> nat cli" where
  "grow_aliases oom opts as_capacity =
     (if length (opt_aliased opts) \<ge> as_capacity then
        (let as_capacity = (if as_capacity \<noteq> 0 then as_capacity * 2 else 4)
         in if oom as_capacity then Exit 1 else Go as_capacity)
      else Go as_capacity)"

datatype long_kind =
    Option_end | Long_help | Long_version | Long_tree | Long_verify | Long_deep | Long_compress | Long_format | Long_as
  | No_long_option

text \<open>The chain of string comparisons.\<close>

definition long_option :: "bool \<Rightarrow> cstring \<Rightarrow> long_kind" where
  "long_option option_end arg =
     (if option_end then No_long_option
      else if arg = ascii ''--'' then Option_end
      else if arg = ascii ''--help'' then Long_help
      else if arg = ascii ''--version'' then Long_version
      else if arg = ascii ''--tree'' then Long_tree
      else if arg = ascii ''--verify'' then Long_verify
      else if arg = ascii ''--deep'' then Long_deep
      else if arg = ascii ''--compress'' then Long_compress
      else if arg = ascii ''--format'' then Long_format
      else if arg = ascii ''--as'' then Long_as
      else No_long_option)"

text \<open>The pass over \<^verbatim>\<open>argv[1]\<close>, \<open>\<dots>\<close>; \<open>kept\<close> is what has been moved to the front, \<^verbatim>\<open>argv[1]\<close> to \<^verbatim>\<open>argv[dst - 1]\<close>.\<close>

fun strip_long_options ::
  "(nat \<Rightarrow> bool) \<Rightarrow> cstring list \<Rightarrow> bool \<Rightarrow> nat \<Rightarrow> cstring list \<Rightarrow> opts \<Rightarrow> (cstring list \<times> opts) cli" where
  "strip_long_options oom [] option_end as_capacity kept opts = Go (kept, opts)"
| "strip_long_options oom (arg # rest) option_end as_capacity kept opts =
     (case long_option option_end arg of
        Option_end \<Rightarrow> strip_long_options oom rest True as_capacity (kept @ [arg]) opts
      | Long_help \<Rightarrow> Exit 1
      | Long_version \<Rightarrow> Exit 0
      | Long_tree \<Rightarrow> strip_long_options oom rest option_end as_capacity kept (opts\<lparr>opt_tree := True\<rparr>)
      | Long_verify \<Rightarrow>
          cli_bind (setmodetype opts PAK_VERIFY) (strip_long_options oom rest option_end as_capacity kept)
      | Long_deep \<Rightarrow> strip_long_options oom rest option_end as_capacity kept (opts\<lparr>opt_deep := True\<rparr>)
      | Long_compress \<Rightarrow> strip_long_options oom rest option_end as_capacity kept (opts\<lparr>opt_compress := True\<rparr>)
      | Long_format \<Rightarrow>
          (case rest of
             [] \<Rightarrow> Exit 1
           | name # rest' \<Rightarrow>
               (case format_named name of
                  None \<Rightarrow> Exit 1
                | Some f \<Rightarrow> strip_long_options oom rest' option_end as_capacity kept (opts\<lparr>opt_format := f\<rparr>)))
      | Long_as \<Rightarrow>
          (case rest of
             entry # source # rest' \<Rightarrow>
               cli_bind (grow_aliases oom opts as_capacity) (\<lambda>as_capacity.
                 strip_long_options oom rest' option_end as_capacity kept
                   (opts\<lparr>opt_aliased := opt_aliased opts @ [(entry, source)]\<rparr>))
           | _ \<Rightarrow> Exit 1)
      | No_long_option \<Rightarrow> strip_long_options oom rest option_end as_capacity (kept @ [arg]) opts)"

section \<open>The short options\<close>

text \<open>\<^verbatim>\<open>getopt\<close> of the C library with the option string \<^verbatim>\<open>lxcadhVC:\<close>, together with the switch over its results.
  \<open>cluster\<close> is the rest of the option argument in progress. Where \<^verbatim>\<open>getopt\<close> permutes (glibc), arguments that
  are no options are passed over and come after the options; where it does not (POSIX, BSD), the first of
  them ends the options. \<^verbatim>\<open>--\<close> always does. The result is what stands from \<^verbatim>\<open>optind\<close> on.\<close>

definition short_mode :: "u8 \<Rightarrow> cli_mode option" where
  "short_mode c =
     (if c = 0x6C then Some PAK_LIST else if c = 0x78 then Some PAK_EXTRACT else if c = 0x63 then Some PAK_CREATE
      else if c = 0x61 then Some PAK_ADD else if c = 0x64 then Some PAK_REMOVE else None)"

fun getopt_loop :: "bool \<Rightarrow> cstring \<Rightarrow> cstring list \<Rightarrow> cstring list \<Rightarrow> opts \<Rightarrow> (cstring list \<times> opts) cli" where
  "getopt_loop permute (c # cluster) args passed opts =
     (case short_mode c of
        Some mode \<Rightarrow> cli_bind (setmodetype opts mode) (getopt_loop permute cluster args passed)
      | None \<Rightarrow>
          if c = 0x43 then
            (if cluster \<noteq> [] then getopt_loop permute [] args passed (opts\<lparr>opt_destination := Some cluster\<rparr>)
             else (case args of
                 [] \<Rightarrow> Exit 1
               | optarg # args' \<Rightarrow> getopt_loop permute [] args' passed (opts\<lparr>opt_destination := Some optarg\<rparr>)))
          else if c = 0x68 then Exit 1
          else if c = 0x56 then Exit 0
          else Exit 1)"
| "getopt_loop permute [] [] passed opts = Go (passed, opts)"
| "getopt_loop permute [] (arg # args) passed opts =
     (if arg = ascii ''--'' then Go (passed @ args, opts)
      else if 2 \<le> length arg \<and> hd arg = 0x2D then getopt_loop permute (tl arg) args passed opts
      else if permute then getopt_loop permute [] args (passed @ [arg]) opts
      else Go (passed @ arg # args, opts))"

section \<open>The whole command line\<close>

definition skip_dashes :: "cstring list \<Rightarrow> cstring list" where
  "skip_dashes args = (case args of a # r \<Rightarrow> if a = ascii ''--'' then r else args | [] \<Rightarrow> [])"

definition take_positionals :: "(nat \<Rightarrow> bool) \<Rightarrow> cstring list \<Rightarrow> opts \<Rightarrow> opts cli" where
  "take_positionals oom args opts =
     (case skip_dashes args of
        [] \<Rightarrow> Go opts
      | pakfile # r \<Rightarrow>
          (let opts = opts\<lparr>opt_pakfile := Some pakfile\<rparr>; paths = skip_dashes r in
           if paths \<noteq> [] \<and> oom (length paths) then Exit 1 else Go (opts\<lparr>opt_paths := paths\<rparr>)))"

definition check_opts :: "opts \<Rightarrow> opts cli" where
  "check_opts opts =
     (if opt_mode opts = None then Exit 1
      else if opt_pakfile opts = None \<or> opt_pakfile opts = Some [] then Exit 1
      else if opt_tree opts \<and> opt_mode opts \<noteq> Some PAK_LIST then Exit 1
      else if opt_aliased opts \<noteq> [] \<and> opt_mode opts \<noteq> Some PAK_ADD \<and> opt_mode opts \<noteq> Some PAK_CREATE then Exit 1
      else if opt_mode opts = Some PAK_ADD \<and> opt_paths opts = [] \<and> opt_aliased opts = [] then Exit 1
      else if opt_mode opts = Some PAK_REMOVE \<and> opt_paths opts = [] then Exit 1
      else Go opts)"

definition parseopts :: "bool \<Rightarrow> (nat \<Rightarrow> bool) \<Rightarrow> cstring list \<Rightarrow> opts \<Rightarrow> opts cli" where
  "parseopts permute oom argv opts =
     cli_bind (strip_long_options oom (tl argv) False 0 [] opts) (\<lambda>(kept, opts).
       if kept = [] then Exit 1
       else cli_bind (getopt_loop permute [] kept [] opts) (\<lambda>(args, opts).
         cli_bind (take_positionals oom args opts) check_opts))"

text \<open>The format of a new archive: \<^verbatim>\<open>--format\<close>, or else the extension.\<close>

definition sniff_format :: "path \<Rightarrow> pakka_format" where
  "sniff_format pakfile =
     (let plen = length pakfile; ext = drop (plen - 4) pakfile; any = (\<lambda>i l u. ext ! i = l \<or> ext ! i = u) in
      if plen \<ge> 4 \<and> ext ! 0 = 0x2E \<and> any 1 0x77 0x57 \<and> any 2 0x61 0x41 \<and> any 3 0x64 0x44 then PAKKA_FORMAT_PWAD
      else if plen \<ge> 4 \<and> ext ! 0 = 0x2E \<and> any 1 0x73 0x53 \<and> any 2 0x69 0x49 \<and> any 3 0x6E 0x4E then PAKKA_FORMAT_SIN
      else if plen \<ge> 4 \<and> ext ! 0 = 0x2E \<and> any 1 0x70 0x50 \<and> any 2 0x6B 0x4B \<and> ext ! 3 = 0x33 then PAKKA_FORMAT_PK3
      else if plen \<ge> 4 \<and> ext ! 0 = 0x2E \<and> any 1 0x70 0x50 \<and> any 2 0x6B 0x4B \<and> ext ! 3 = 0x34 then PAKKA_FORMAT_PK4
      else PAKKA_FORMAT_PAK)"

section \<open>The options the tool works with\<close>

definition opts_wf :: "opts \<Rightarrow> bool" where
  "opts_wf opts \<longleftrightarrow> opt_mode opts \<noteq> None \<and> (\<exists>p. opt_pakfile opts = Some p \<and> p \<noteq> [])
     \<and> (opt_tree opts \<longrightarrow> opt_mode opts = Some PAK_LIST)
     \<and> (opt_aliased opts \<noteq> [] \<longrightarrow> opt_mode opts \<in> {Some PAK_ADD, Some PAK_CREATE})
     \<and> (opt_mode opts = Some PAK_ADD \<longrightarrow> opt_paths opts \<noteq> [] \<or> opt_aliased opts \<noteq> [])
     \<and> (opt_mode opts = Some PAK_REMOVE \<longrightarrow> opt_paths opts \<noteq> [])"

lemma check_opts_iff: "check_opts opts = Go opts' \<longleftrightarrow> opts_wf opts \<and> opts' = opts"
  by (cases "opt_pakfile opts") (auto simp: check_opts_def opts_wf_def)

lemma parseopts_wf: "parseopts permute oom argv opts = Go opts' \<Longrightarrow> opts_wf opts'"
  by (auto simp: parseopts_def cli_bind_Go_iff check_opts_iff split: if_splits)

section \<open>Writing options as a command line\<close>

definition format_name :: "pakka_format \<Rightarrow> cstring" where
  "format_name f =
     (case f of PAKKA_FORMAT_AUTO \<Rightarrow> ascii ''auto'' | PAKKA_FORMAT_PAK \<Rightarrow> ascii ''pak''
      | PAKKA_FORMAT_PK3 \<Rightarrow> ascii ''pk3'' | PAKKA_FORMAT_PK4 \<Rightarrow> ascii ''pk4'' | PAKKA_FORMAT_SIN \<Rightarrow> ascii ''sin''
      | PAKKA_FORMAT_DAIKATANA \<Rightarrow> ascii ''daikatana'' | PAKKA_FORMAT_IWAD \<Rightarrow> ascii ''iwad''
      | PAKKA_FORMAT_PWAD \<Rightarrow> ascii ''pwad'')"

definition mode_args :: "cli_mode \<Rightarrow> cstring list" where
  "mode_args m =
     (case m of PAK_VERIFY \<Rightarrow> [ascii ''--verify''] | PAK_LIST \<Rightarrow> [ascii ''-l''] | PAK_EXTRACT \<Rightarrow> [ascii ''-x'']
      | PAK_CREATE \<Rightarrow> [ascii ''-c''] | PAK_ADD \<Rightarrow> [ascii ''-a''] | PAK_REMOVE \<Rightarrow> [ascii ''-d''])"

definition long_args :: "opts \<Rightarrow> cstring list" where
  "long_args opts =
     (if opt_tree opts then [ascii ''--tree''] else []) @ (if opt_deep opts then [ascii ''--deep''] else [])
     @ (if opt_compress opts then [ascii ''--compress''] else []) @ [ascii ''--format'', format_name (opt_format opts)]
     @ concat (map (\<lambda>(e, s). [ascii ''--as'', e, s]) (opt_aliased opts))"

definition destination_args :: "path option \<Rightarrow> cstring list" where
  "destination_args d =
     (case d of None \<Rightarrow> [] | Some d \<Rightarrow> if d = [] then [ascii ''-C'', []] else [ascii ''-C'' @ d])"

definition command_line :: "cstring \<Rightarrow> opts \<Rightarrow> cstring list" where
  "command_line prog opts =
     prog # long_args opts @ mode_args (the (opt_mode opts)) @ destination_args (opt_destination opts)
       @ [ascii ''--'', ascii ''--'', the (opt_pakfile opts), ascii ''--''] @ opt_paths opts"

lemma long_option_simps [simp]:
  "long_option True arg = No_long_option" "long_option False (ascii ''--'') = Option_end"
  "long_option False (ascii ''--tree'') = Long_tree" "long_option False (ascii ''--verify'') = Long_verify"
  "long_option False (ascii ''--deep'') = Long_deep" "long_option False (ascii ''--compress'') = Long_compress"
  "long_option False (ascii ''--format'') = Long_format" "long_option False (ascii ''--as'') = Long_as"
  by (simp_all add: long_option_def ascii_def)

lemma long_option_other [simp]:
  "long_option False [] = No_long_option" "c \<noteq> 0x2D \<Longrightarrow> long_option False (0x2D # c # s) = No_long_option"
  by (simp_all add: long_option_def ascii_def)

lemma long_option_mode:
  "long_option False (ascii ''-l'') = No_long_option" "long_option False (ascii ''-x'') = No_long_option"
  "long_option False (ascii ''-c'') = No_long_option" "long_option False (ascii ''-a'') = No_long_option"
  "long_option False (ascii ''-d'') = No_long_option" "long_option False (ascii ''-C'') = No_long_option"
  by (simp_all add: long_option_def ascii_def)

lemma format_named_name [simp]: "format_named (format_name f) = Some f"
  by (cases f) (simp_all add: format_named_def format_name_def ascii_def)

lemma strip_after_dashes: "strip_long_options oom args True cap kept opts = Go (kept @ args, opts)"
  by (induction args arbitrary: kept) simp_all

lemma strip_aliases:
  "\<exists>cap'. strip_long_options (\<lambda>_. False) (concat (map (\<lambda>(e, s). [ascii ''--as'', e, s]) ps) @ rest) False cap kept opts
     = strip_long_options (\<lambda>_. False) rest False cap' kept (opts\<lparr>opt_aliased := opt_aliased opts @ ps\<rparr>)"
proof (induction ps arbitrary: cap opts)
  case Nil
  show ?case by (intro exI [of _ cap]) simp
next
  case (Cons p ps)
  obtain e s where p: "p = (e, s)" by fastforce
  have "\<exists>c. grow_aliases (\<lambda>_. False) opts cap = Go c" by (simp add: grow_aliases_def Let_def)
  then obtain c where c: "grow_aliases (\<lambda>_. False) opts cap = Go c" by blast
  from Cons.IH [of c "opts\<lparr>opt_aliased := opt_aliased opts @ [(e, s)]\<rparr>"] show ?case
    by (simp add: p c)
qed

text \<open>The options after the long ones, with what is left of the command line.\<close>

definition long_part :: "opts \<Rightarrow> opts" where
  "long_part opts = no_opts\<lparr>opt_tree := opt_tree opts, opt_deep := opt_deep opts, opt_compress := opt_compress opts,
     opt_aliased := opt_aliased opts, opt_format := opt_format opts\<rparr>"

lemma strip_long_args:
  "\<exists>cap. strip_long_options (\<lambda>_. False) (long_args opts @ rest) False 0 [] no_opts
     = strip_long_options (\<lambda>_. False) rest False cap [] (long_part opts)"
proof -
  let ?o = "no_opts\<lparr>opt_tree := opt_tree opts, opt_deep := opt_deep opts, opt_compress := opt_compress opts,
      opt_format := opt_format opts\<rparr>"
  have "strip_long_options (\<lambda>_. False) (long_args opts @ rest) False 0 [] no_opts
      = strip_long_options (\<lambda>_. False) (concat (map (\<lambda>(e, s). [ascii ''--as'', e, s]) (opt_aliased opts)) @ rest)
          False 0 [] ?o"
    by (cases "opt_tree opts"; cases "opt_deep opts"; cases "opt_compress opts") (simp_all add: long_args_def no_opts_def)
  moreover have "?o\<lparr>opt_aliased := opt_aliased ?o @ opt_aliased opts\<rparr> = long_part opts"
    by (simp add: no_opts_def long_part_def)
  ultimately show ?thesis using strip_aliases [of "opt_aliased opts" rest 0 "[]" ?o] by metis
qed

lemma ascii_C: "ascii ''-C'' @ d = 0x2D # 0x43 # d"
  by (simp add: ascii_def)

lemma strip_destination:
  "strip_long_options oom (destination_args d @ rest) False cap kept opts
     = strip_long_options oom rest False cap (kept @ destination_args d) opts"
  using ascii_C [of "[]"] by (auto simp: destination_args_def ascii_C split: option.split)

lemma strip_mode:
  "opt_mode opts = None \<Longrightarrow> strip_long_options oom (mode_args m @ rest) False cap [] opts
     = (if m = PAK_VERIFY then strip_long_options oom rest False cap [] (opts\<lparr>opt_mode := Some m\<rparr>)
        else strip_long_options oom rest False cap (mode_args m) opts)"
  by (cases m) (simp_all add: mode_args_def setmodetype_def long_option_mode)

lemma getopt_mode:
  "m \<noteq> PAK_VERIFY \<Longrightarrow> opt_mode opts = None \<Longrightarrow>
   getopt_loop permute [] (mode_args m @ rest) passed opts = getopt_loop permute [] rest passed (opts\<lparr>opt_mode := Some m\<rparr>)"
  by (cases m) (simp_all add: mode_args_def setmodetype_def ascii_def short_mode_def)

lemma getopt_destination:
  "opt_destination opts = None \<Longrightarrow>
   getopt_loop permute [] (destination_args d @ ascii ''--'' # rest) passed opts = Go (passed @ rest, opts\<lparr>opt_destination := d\<rparr>)"
  using ascii_C [of "[]"]
  by (cases d) (auto simp: destination_args_def ascii_C short_mode_def, auto simp: ascii_def)

lemma dashes_skipped: "skip_dashes (ascii ''--'' # r) = r"
  by (simp add: skip_dashes_def)

lemma parse_command_line:
  assumes "opts_wf opts"
  shows "parseopts permute (\<lambda>_. False) (command_line prog opts) no_opts = Go opts"
proof -
  obtain p m where p: "opt_pakfile opts = Some p" and m: "opt_mode opts = Some m" using assms by (auto simp: opts_wf_def)
  let ?d = "destination_args (opt_destination opts)"
  let ?tail = "ascii ''--'' # ascii ''--'' # p # ascii ''--'' # opt_paths opts"
  let ?o1 = "if m = PAK_VERIFY then (long_part opts)\<lparr>opt_mode := Some m\<rparr> else long_part opts"
  let ?kept = "(if m = PAK_VERIFY then [] else mode_args m) @ ?d @ ?tail"
  let ?o2 = "(long_part opts)\<lparr>opt_mode := Some m, opt_destination := opt_destination opts\<rparr>"
  have n: "opt_mode (long_part opts) = None" "opt_destination (long_part opts) = None"
    by (simp_all add: long_part_def no_opts_def)
  obtain cap where "strip_long_options (\<lambda>_. False) (tl (command_line prog opts)) False 0 [] no_opts
      = strip_long_options (\<lambda>_. False) (mode_args m @ ?d @ ?tail) False cap [] (long_part opts)"
    using strip_long_args [of opts "mode_args m @ ?d @ ?tail"] p m by (auto simp: command_line_def)
  also have "\<dots> = Go (?kept, ?o1)"
    using n by (simp add: strip_mode strip_destination strip_after_dashes)
  finally have 1: "strip_long_options (\<lambda>_. False) (tl (command_line prog opts)) False 0 [] no_opts = Go (?kept, ?o1)" .
  have "getopt_loop permute [] ?kept [] ?o1
      = getopt_loop permute [] (?d @ ?tail) [] ((long_part opts)\<lparr>opt_mode := Some m\<rparr>)"
    using getopt_mode [of m "long_part opts" permute "?d @ ?tail" "[]"] n by simp
  also have "\<dots> = Go (ascii ''--'' # p # ascii ''--'' # opt_paths opts, ?o2)"
    using n by (subst getopt_destination) simp_all
  finally have 2: "getopt_loop permute [] ?kept [] ?o1 = \<dots>" .
  have 3: "?o2\<lparr>opt_pakfile := Some p, opt_paths := opt_paths opts\<rparr> = opts"
    using p m by (intro opts.equality) (simp_all add: long_part_def)
  have 4: "take_positionals (\<lambda>_. False) (ascii ''--'' # p # ascii ''--'' # opt_paths opts) ?o2 = Go opts"
    using 3 by (simp add: take_positionals_def dashes_skipped)
  have k: "?kept \<noteq> []" by simp
  have 5: "parseopts permute (\<lambda>_. False) (command_line prog opts) no_opts = check_opts opts"
    unfolding parseopts_def 1 cli_bind.simps prod.case if_not_P [OF k] 2 4 ..
  show ?thesis unfolding 5 using assms by (simp add: check_opts_iff)
qed

text \<open>C40: the options that pass the checks of the command line are exactly the consistent ones (one mode, a
  non-empty archive name, modifiers only with their modes, something to add or delete), and each of them
  can be given: \<open>command_line\<close> writes any of them, with any strings as names and paths, so that the tool
  reads back exactly these options, whether or not the system's \<^verbatim>\<open>getopt\<close> permutes.\<close>

theorem command_line_roundtrip:
  "(opts_wf opts \<longleftrightarrow> parseopts permute (\<lambda>_. False) (command_line prog opts) no_opts = Go opts)
   \<and> (opts_wf opts \<longleftrightarrow> (\<exists>argv. parseopts permute (\<lambda>_. False) argv no_opts = Go opts))"
  using parse_command_line parseopts_wf by metis

text \<open>A long option is taken out wherever it stands, also where it is the argument of \<^verbatim>\<open>-C\<close>: the next
  argument then becomes the destination, and the archive name is missing.\<close>

lemma destination_spelled_like_option:
  "parseopts permute oom [ascii ''pakka'', ascii ''-l'', ascii ''-C'', ascii ''--tree'', ascii ''a.pak''] no_opts = Exit 1"
proof -
  have "long_option False (ascii ''a.pak'') = No_long_option" by (simp add: long_option_def ascii_def)
  then show ?thesis
    by (simp add: parseopts_def long_option_mode) (simp add: ascii_def short_mode_def setmodetype_def no_opts_def take_positionals_def
        skip_dashes_def check_opts_def)
qed

end
