(* ===== verification/Cli_List.thy ===== *)
theory Cli_List
  imports Cli_Options Utf8 "HOL-Library.List_Lexorder" "HOL-Library.Multiset"
begin

text \<open>
  What the command line tool prints of an archive: names made fit for a terminal, the plain list, and the
  tree (\<^verbatim>\<open>src/cli.c\<close>). A \<^verbatim>\<open>treenode_t\<close> and its child list are a datatype; a node that is changed through a
  pointer is rebuilt in its place.
\<close>

section \<open>Names on a terminal\<close>

definition control_byte :: "u8 \<Rightarrow> bool" where
  "control_byte c \<longleftrightarrow> c < 0x20 \<or> c = 0x7F"

definition pakka_fprint_sanitized :: "cstring \<Rightarrow> u8 list" where
  "pakka_fprint_sanitized s =
     (let n = PAKKA_ENTRY_NAME_SIZE * 4 + 1 in
      case pakka_utf8_substitute_invalid s (replicate n 0) n 0x3F of
        Ok (_, buf) \<Rightarrow> map (\<lambda>c. if control_byte c then 0x3F else c) (cstr buf)
      | _ \<Rightarrow> [])"

definition pakka_sanitize_name :: "nat \<Rightarrow> cstring \<Rightarrow> cstring" where
  "pakka_sanitize_name dstsz src = map (\<lambda>c. if control_byte c then 0x3F else c) (take (dstsz - 1) src)"

section \<open>The plain list\<close>

text \<open>\<^verbatim>\<open>%u\<close> and its relatives.\<close>

fun decimal :: "nat \<Rightarrow> u8 list" where
  "decimal n = (if n < 10 then [of_nat (48 + n)] else decimal (n div 10) @ [of_nat (48 + n mod 10)])"

declare decimal.simps [simp del]

definition list_line :: "pentry \<Rightarrow> u8 list" where
  "list_line e = pakka_fprint_sanitized (filename e) @ ascii '' ('' @ decimal (unat (pakka_entry_size (Some e)))
     @ ascii '' bytes)'' @ [0x0A]"

definition op_list :: "archive \<Rightarrow> u8 list" where
  "op_list pak =
     (if pakka_entry_count (Some pak) = 0 then ascii ''Pak is empty'' @ [0x0A]
      else concat (map list_line (entries pak)))"

section \<open>The tree\<close>

definition PAK_TREE_MAX_DEPTH :: nat where "PAK_TREE_MAX_DEPTH = 100"

datatype treenode = Treenode (node_name: cstring) (node_is_dir: bool) (node_children: "treenode list")

definition create_tree_node :: "cstring \<Rightarrow> bool \<Rightarrow> treenode" where
  "create_tree_node name is_dir = Treenode name is_dir []"

fun find_tree_dir :: "treenode list \<Rightarrow> cstring \<Rightarrow> treenode option" where
  "find_tree_dir [] name = None"
| "find_tree_dir (current # next) name =
     (if node_is_dir current \<and> node_name current = name then Some current else find_tree_dir next name)"

fun insert_tree_child :: "treenode list \<Rightarrow> treenode \<Rightarrow> treenode list" where
  "insert_tree_child [] node = [node]"
| "insert_tree_child (current # next) node =
     (if node_name current \<le> node_name node then current # insert_tree_child next node
      else node # current # next)"

text \<open>Writing through the pointer \<open>find_tree_dir\<close> returned.\<close>

fun put_tree_dir :: "treenode list \<Rightarrow> cstring \<Rightarrow> treenode \<Rightarrow> treenode list" where
  "put_tree_dir [] name node = []"
| "put_tree_dir (current # next) name node =
     (if node_is_dir current \<and> node_name current = name then node # next
      else current # put_tree_dir next name node)"

text \<open>The loop over the components; \<open>None\<close> is the end of the process on a path nested too deep.\<close>

fun insert_tree_components ::
  "nat \<Rightarrow> cstring list \<Rightarrow> treenode list \<Rightarrow> u32 \<Rightarrow> u32 \<Rightarrow> (treenode list \<times> u32 \<times> u32) option" where
  "insert_tree_components depth [] parent dir_count file_count = Some (parent, dir_count, file_count)"
| "insert_tree_components depth [component] parent dir_count file_count =
     (if depth \<ge> PAK_TREE_MAX_DEPTH then None
      else Some (insert_tree_child parent (create_tree_node component False), dir_count, file_count + 1))"
| "insert_tree_components depth (component # next # rest) parent dir_count file_count =
     (if depth \<ge> PAK_TREE_MAX_DEPTH then None
      else
        (let (dir, parent, dir_count) =
           (case find_tree_dir parent component of
              Some dir \<Rightarrow> (dir, parent, dir_count)
            | None \<Rightarrow>
                (let dir = create_tree_node component True
                 in (dir, insert_tree_child parent dir, dir_count + 1)))
         in case insert_tree_components (depth + 1) (next # rest) (node_children dir) dir_count file_count of
              None \<Rightarrow> None
            | Some (children, dir_count, file_count) \<Rightarrow>
                Some (put_tree_dir parent component (Treenode component True children), dir_count, file_count)))"

text \<open>The tokens of \<^verbatim>\<open>strtok\<close>: the non-empty parts between slashes.\<close>

definition path_components :: "cstring \<Rightarrow> cstring list" where
  "path_components path = filter (\<lambda>c. c \<noteq> []) (split_at (\<lambda>c. c = 0x2F) path)"

definition insert_tree_path ::
  "cstring \<Rightarrow> treenode list \<times> u32 \<times> u32 \<Rightarrow> (treenode list \<times> u32 \<times> u32) option" where
  "insert_tree_path path = (\<lambda>(root, dir_count, file_count).
     if path = [] then Some (root, dir_count, file_count)
     else insert_tree_components 0 (path_components path) root dir_count file_count)"

fun build_tree :: "pentry list \<Rightarrow> treenode list \<times> u32 \<times> u32 \<Rightarrow> (treenode list \<times> u32 \<times> u32) option" where
  "build_tree [] t = Some t"
| "build_tree (entry # rest) t =
     (case insert_tree_path (filename entry) t of None \<Rightarrow> None | Some t' \<Rightarrow> build_tree rest t')"

definition PAK_TREE_BRANCH_MID :: "u8 list" where
  "PAK_TREE_BRANCH_MID = [0xE2, 0x94, 0x9C, 0xE2, 0x94, 0x80, 0xE2, 0x94, 0x80, 0x20]"

definition PAK_TREE_BRANCH_LAST :: "u8 list" where
  "PAK_TREE_BRANCH_LAST = [0xE2, 0x94, 0x94, 0xE2, 0x94, 0x80, 0xE2, 0x94, 0x80, 0x20]"

definition PAK_TREE_PREFIX_MID :: "u8 list" where
  "PAK_TREE_PREFIX_MID = [0xE2, 0x94, 0x82, 0x20, 0x20, 0x20]"

definition PAK_TREE_PREFIX_LAST :: "u8 list" where
  "PAK_TREE_PREFIX_LAST = [0x20, 0x20, 0x20, 0x20]"

fun print_tree_children :: "treenode list \<Rightarrow> u8 list \<Rightarrow> u8 list" where
  "print_tree_children [] margin = []"
| "print_tree_children (Treenode name is_dir children # next) margin =
     (let branch = (if next = [] then PAK_TREE_BRANCH_LAST else PAK_TREE_BRANCH_MID);
          margin_suffix = (if next = [] then PAK_TREE_PREFIX_LAST else PAK_TREE_PREFIX_MID)
      in margin @ branch @ pakka_fprint_sanitized name @ [0x0A]
         @ (if is_dir then print_tree_children children (margin @ margin_suffix) else [])
         @ print_tree_children next margin)"

definition print_tree_summary :: "u32 \<Rightarrow> u32 \<Rightarrow> u8 list" where
  "print_tree_summary dir_count file_count =
     [0x0A] @ decimal (unat dir_count) @ ascii '' director'' @ (if dir_count = 1 then ascii ''y'' else ascii ''ies'')
     @ ascii '', '' @ decimal (unat file_count) @ ascii '' file'' @ (if file_count = 1 then [] else ascii ''s'') @ [0x0A]"

definition op_list_tree :: "archive \<Rightarrow> u8 list cli" where
  "op_list_tree pak =
     (case build_tree (entries pak) ([], 0, 0) of
        None \<Rightarrow> Exit 1
      | Some (root, dir_count, file_count) \<Rightarrow>
          Go (ascii ''.'' @ [0x0A]
            @ (if pakka_entry_count (Some pak) > 0 then print_tree_children root [] else [])
            @ print_tree_summary dir_count file_count))"

section \<open>Output is text\<close>

definition shown :: "u8 \<Rightarrow> u8" where
  "shown c = (if control_byte c then 0x3F else c)"

lemma shown_encode: "scalar cp \<Longrightarrow> map shown (utf8_encode cp) = utf8_encode (if cp < 32 \<or> cp = 127 then 63 else cp)"
proof -
  have lo: "shown (word_of_nat n) = word_of_nat (if n < 32 \<or> n = 127 then 63 else n)" if "n < 128" for n
  proof -
    have u: "unat (word_of_nat n :: u8) = n" using that by (simp add: unat_of_nat_u8)
    have "control_byte (word_of_nat n) \<longleftrightarrow> n < 32 \<or> n = 127"
      using u u8_value [of 127 "word_of_nat n"] by (auto simp: control_byte_def word_less_nat_alt u8_eq_iff)
    then show ?thesis by (simp add: shown_def)
  qed
  have hi: "shown (word_of_nat n) = word_of_nat n" if "128 \<le> n" "n < 256" for n
  proof -
    have u: "unat (word_of_nat n :: u8) = n" using that by (simp add: unat_of_nat_u8)
    then show ?thesis using that by (simp add: shown_def control_byte_def word_less_nat_alt u8_eq_iff)
  qed
  assume s: "scalar cp"
  show ?thesis
  proof (cases "cp < 128")
    case True
    then show ?thesis using lo [OF True] by (simp add: utf8_encode_def)
  next
    case False
    have m: "x mod 64 < 64" for x :: nat by simp
    have "cp < 0x800 \<Longrightarrow> cp div 64 < 32" "cp < 0x10000 \<Longrightarrow> cp div 4096 < 16" "cp div 262144 < 8"
      using s by (simp_all add: scalar_def less_mult_imp_div_less) (linarith)
    moreover have "shown (numeral k + word_of_nat n) = numeral k + word_of_nat n"
      if "128 \<le> (numeral k :: nat)" "numeral k + n < 256" for k n
      using hi [of "numeral k + n"] that by simp
    ultimately show ?thesis using False by (auto simp: utf8_encode_def less_imp_le)
  qed
qed

lemma utf8_text_shown: "utf8_text b \<Longrightarrow> utf8_text (map shown b)"
proof -
  assume "utf8_text b"
  then obtain cps where c: "\<forall>cp \<in> set cps. scalar cp" "b = concat (map utf8_encode cps)" by (auto simp: utf8_text_def)
  have "utf8_text (map shown (concat (map utf8_encode cps)))" using c(1)
  proof (induction cps)
    case (Cons cp cps)
    let ?cp = "if cp < 32 \<or> cp = 127 then 63 else cp"
    have "scalar ?cp" using Cons.prems by (auto simp: scalar_def)
    with Cons show ?case by (auto simp: shown_encode intro!: utf8_text_append utf8_text_encode)
  qed simp
  with c(2) show ?thesis by simp
qed

definition screen_text :: "u8 list \<Rightarrow> bool" where
  "screen_text b \<longleftrightarrow> utf8_text b \<and> list_all (\<lambda>c. \<not> control_byte c) b"

lemma printable_parts [simp]:
  "screen_text []" "screen_text a \<Longrightarrow> screen_text b \<Longrightarrow> screen_text (a @ b)"
  by (simp_all add: screen_text_def utf8_text_append)

lemma shown_ok: "\<not> control_byte (shown c)"
  by (simp add: shown_def control_byte_def)

lemma sanitized_printable: "c_string s \<Longrightarrow> screen_text (pakka_fprint_sanitized s)"
proof -
  assume s: "c_string s"
  let ?n = "PAKKA_ENTRY_NAME_SIZE * 4 + 1"
  obtain sub d where d: "pakka_utf8_substitute_invalid s (replicate ?n 0) ?n 0x3F = Ok (sub, d)" "utf8_text (cstr d)"
    using utf8_substitute_spec [of s ?n "replicate ?n 0" "0x3F"] s by auto
  then have "pakka_fprint_sanitized s = map shown (cstr d)"
    by (simp add: pakka_fprint_sanitized_def Let_def shown_def [abs_def])
  then show ?thesis using utf8_text_shown [OF d(2)] by (simp add: screen_text_def list_all_iff shown_ok)
qed

text \<open>A name that is screen_text already is printed as it is.\<close>

lemma sanitized_id:
  assumes "c_string s" "screen_text s" "length s \<le> 1024"
  shows "pakka_fprint_sanitized s = s"
proof -
  let ?n = "PAKKA_ENTRY_NAME_SIZE * 4 + 1"
  have n: "length s < ?n" using assms(3) by (simp add: PAKKA_ENTRY_NAME_SIZE_def)
  obtain sub d where d: "pakka_utf8_substitute_invalid s (replicate ?n 0) ?n 0x3F = Ok (sub, d)" "cstr d = s"
    using utf8_substitute_spec [of s ?n "replicate ?n 0" "0x3F"] assms n by (auto simp: screen_text_def)
  then have "pakka_fprint_sanitized s = map shown s"
    by (simp add: pakka_fprint_sanitized_def Let_def shown_def [abs_def])
  also have "\<dots> = s" using assms(2) by (intro map_idI) (auto simp: screen_text_def list_all_iff shown_def)
  finally show ?thesis .
qed

lemma printable_ascii: "list_all (\<lambda>c. 0x20 \<le> c \<and> c < 0x7F) b \<Longrightarrow> screen_text b"
proof (induction b)
  case (Cons c b)
  then have c: "32 \<le> unat c" "unat c < 127" by (simp_all add: word_le_nat_alt word_less_nat_alt)
  have "utf8_text (utf8_encode (unat c))" using c by (intro utf8_text_encode) (simp add: scalar_def)
  moreover have "utf8_encode (unat c) = [c]" using c by (simp add: utf8_encode_def)
  moreover have "\<not> control_byte c" using c by (auto simp: control_byte_def word_less_nat_alt)
  ultimately have "screen_text [c]" by (simp add: screen_text_def)
  with Cons show ?case using printable_parts(2) [of "[c]" b] by simp
qed simp

lemma decimal_printable: "screen_text (decimal n)"
proof (induction n rule: decimal.induct)
  case (1 n)
  have d: "screen_text [of_nat (48 + k) :: u8]" if "k < 10" for k
  proof -
    have "unat (of_nat (48 + k) :: u8) = 48 + k" using that by (intro unat_of_nat_u8) simp
    then show ?thesis using that by (intro printable_ascii) (simp add: word_le_nat_alt word_less_nat_alt)
  qed
  show ?case
  proof (cases "n < 10")
    case True
    with d [OF True] show ?thesis by (simp add: decimal.simps [of n])
  next
    case False
    with 1 d [of "n mod 10"] show ?thesis by (simp add: decimal.simps [of n])
  qed
qed

text \<open>A sequence of lines, each of them screen_text.\<close>

definition lines_of :: "u8 list list \<Rightarrow> u8 list" where
  "lines_of ls = concat (map (\<lambda>l. l @ [0x0A]) ls)"

lemma lines_of_simps [simp]: "lines_of [] = []" "lines_of (l # ls) = l @ 0x0A # lines_of ls"
  "lines_of (ls @ ms) = lines_of ls @ lines_of ms"
  by (simp_all add: lines_of_def)

section \<open>The tree holds the entries\<close>

text \<open>The files and the directories of a tree, each as the components that lead to it.\<close>

fun tree_files :: "treenode list \<Rightarrow> cstring list list" where
  "tree_files [] = []"
| "tree_files (Treenode n d cs # ts) = (if d then map ((#) n) (tree_files cs) else [[n]]) @ tree_files ts"

fun tree_dirs :: "treenode list \<Rightarrow> cstring list list" where
  "tree_dirs [] = []"
| "tree_dirs (Treenode n d cs # ts) = (if d then [n] # map ((#) n) (tree_dirs cs) else []) @ tree_dirs ts"

text \<open>Siblings are sorted by name, no two directories among them have the same name, files have no children.\<close>

fun tree_wf :: "treenode list \<Rightarrow> bool" where
  "tree_wf [] = True"
| "tree_wf (Treenode n d cs # ts) =
     (list_all (\<lambda>t. n \<le> node_name t \<and> (d \<and> node_is_dir t \<longrightarrow> node_name t \<noteq> n)) ts
      \<and> (\<not> d \<longrightarrow> cs = []) \<and> tree_wf cs \<and> tree_wf ts)"

lemma tree_append [simp]:
  "tree_files (xs @ ys) = tree_files xs @ tree_files ys" "tree_dirs (xs @ ys) = tree_dirs xs @ tree_dirs ys"
  by (induction xs rule: tree_files.induct) simp_all

lemma find_tree_dir_split:
  "find_tree_dir ts n = Some d \<Longrightarrow> \<exists>xs cs ys. ts = xs @ d # ys \<and> d = Treenode n True cs
     \<and> (\<forall>t. put_tree_dir ts n t = xs @ t # ys)"
proof (induction ts)
  case (Cons t ts)
  show ?case
  proof (cases "node_is_dir t \<and> node_name t = n")
    case True
    with Cons.prems show ?thesis
      by (cases t) (intro exI [of _ "[]"] exI [of _ "node_children t"] exI [of _ ts], auto)
  next
    case False
    with Cons obtain xs cs ys where "ts = xs @ d # ys" "d = Treenode n True cs" "\<forall>t. put_tree_dir ts n t = xs @ t # ys"
      by auto
    with False show ?thesis by (intro exI [of _ "t # xs"] exI [of _ cs] exI [of _ ys]) auto
  qed
qed simp

lemma find_tree_dir_None: "find_tree_dir ts n = None \<longleftrightarrow> (\<forall>t \<in> set ts. node_is_dir t \<longrightarrow> node_name t \<noteq> n)"
  by (induction ts) auto

lemma insert_tree_child_split: "\<exists>xs ys. ts = xs @ ys \<and> insert_tree_child ts t = xs @ t # ys"
proof (induction ts)
  case (Cons x ts)
  then obtain xs ys where IH: "ts = xs @ ys" "insert_tree_child ts t = xs @ t # ys" by blast
  show ?case
  proof (cases "node_name x \<le> node_name t")
    case True
    with IH show ?thesis by (intro exI [of _ "x # xs"] exI [of _ ys]) simp
  next
    case False
    then show ?thesis by (intro exI [of _ "[]"] exI [of _ "x # ts"]) simp
  qed
qed simp

text \<open>What replacing a node does to the lists, in whichever place it is.\<close>

lemma tree_replace:
  assumes "tree_wf (xs @ Treenode n d cs # ys)" "tree_wf cs'" "\<not> d \<longrightarrow> cs' = []"
  shows "tree_wf (xs @ Treenode n d cs' # ys)"
  using assms by (induction xs rule: tree_wf.induct) (auto simp: list_all_iff)

lemma tree_wf_insert:
  "tree_wf ts \<Longrightarrow> tree_wf [t] \<Longrightarrow> node_is_dir t \<longrightarrow> find_tree_dir ts (node_name t) = None \<Longrightarrow>
   tree_wf (insert_tree_child ts t)"
proof (induction ts rule: tree_wf.induct)
  case (1)
  then show ?case by simp
next
  case (2 n d cs ts)
  obtain m e ds where t: "t = Treenode m e ds" by (cases t)
  obtain xs ys where s: "ts = xs @ ys" "insert_tree_child ts t = xs @ t # ys" using insert_tree_child_split by blast
  show ?case
  proof (cases "n \<le> m")
    case True
    have IH: "tree_wf (insert_tree_child ts t)" using 2 t by (intro 2(2)) (auto split: if_splits)
    have "list_all (\<lambda>u. n \<le> node_name u \<and> (d \<and> node_is_dir u \<longrightarrow> node_name u \<noteq> n)) (insert_tree_child ts t)"
      using 2(3,5) True t unfolding s(2) by (auto simp: s(1) list_all_iff split: if_splits)
    with IH True 2(3) show ?thesis by (simp add: t)
  next
    case False
    then have lt: "m \<le> n" "m \<noteq> n" by auto
    have "\<forall>u \<in> set ts. m \<le> node_name u \<and> node_name u \<noteq> m"
      using 2(3) lt by (auto simp: list_all_iff dest: order_trans)
    with False lt 2(3,4) show ?thesis by (auto simp: t list_all_iff)
  qed
qed

lemma tree_dirs_heads: "x \<in> set (tree_dirs ts) \<Longrightarrow> x \<noteq> [] \<and> (\<exists>t \<in> set ts. node_is_dir t \<and> node_name t = hd x)"
  by (induction ts rule: tree_dirs.induct) (auto split: if_splits)

lemma tree_dirs_distinct: "tree_wf ts \<Longrightarrow> distinct (tree_dirs ts)"
proof (induction ts rule: tree_wf.induct)
  case (2 n d cs ts)
  have "\<forall>y \<in> set (tree_dirs ts). d \<longrightarrow> hd y \<noteq> n"
    using 2(3) tree_dirs_heads [of _ ts] by (fastforce simp: list_all_iff)
  moreover have "[] \<notin> set (tree_dirs cs)" using tree_dirs_heads [of "[]" cs] by auto
  ultimately show ?case using 2 by (auto simp: distinct_map)
qed simp

definition proper_prefixes :: "cstring list \<Rightarrow> cstring list set" where
  "proper_prefixes p = {take k p | k. 0 < k \<and> k < length p}"

lemma proper_prefixes_simps [simp]:
  "proper_prefixes [] = {}" "proper_prefixes [c] = {}"
  "proper_prefixes (c # d # r) = insert [c] ((#) c ` proper_prefixes (d # r))"
proof -
  show "proper_prefixes (c # d # r) = insert [c] ((#) c ` proper_prefixes (d # r))"
  proof (intro set_eqI iffI)
    fix x assume "x \<in> proper_prefixes (c # d # r)"
    then obtain k where k: "x = take k (c # d # r)" "0 < k" "k < length (c # d # r)" by (auto simp: proper_prefixes_def)
    then obtain j where "k = Suc j" by (cases k) auto
    with k show "x \<in> insert [c] ((#) c ` proper_prefixes (d # r))"
      by (cases j) (auto simp: proper_prefixes_def intro!: image_eqI exI [of _ j])
  next
    fix x assume "x \<in> insert [c] ((#) c ` proper_prefixes (d # r))"
    then show "x \<in> proper_prefixes (c # d # r)"
      by (auto simp: proper_prefixes_def intro: exI [of _ "1 :: nat"]) (rule_tac x = "Suc k" in exI, simp)
  qed
qed (auto simp: proper_prefixes_def)

text \<open>One path: it is one more file, its proper prefixes are directories, and the counters count.\<close>

definition path_added ::
  "cstring list \<Rightarrow> treenode list \<Rightarrow> u32 \<Rightarrow> u32 \<Rightarrow> treenode list \<times> u32 \<times> u32 \<Rightarrow> bool" where
  "path_added p ts dc fc = (\<lambda>(ts', dc', fc'). tree_wf ts'
     \<and> mset (tree_files ts') = (if p = [] then {#} else {#p#}) + mset (tree_files ts)
     \<and> set (tree_dirs ts') = proper_prefixes p \<union> set (tree_dirs ts)
     \<and> dc' + of_nat (length (tree_dirs ts)) = dc + of_nat (length (tree_dirs ts'))
     \<and> fc' + of_nat (length (tree_files ts)) = fc + of_nat (length (tree_files ts')))"

lemma count_shift:
  fixes a :: u32
  assumes "a + l = b + l'" "b + d = c + (x + l)"
  shows "a + d = c + (x + l')"
proof -
  have "a + d + l = (a + l) + d" by (simp only: ac_simps)
  also have "\<dots> = (b + d) + l'" unfolding assms(1) by (simp only: ac_simps)
  also have "\<dots> = c + (x + l') + l" unfolding assms(2) by (simp only: ac_simps)
  finally show ?thesis by simp
qed

lemma length_mset_eq: "mset xs = mset ys \<Longrightarrow> length xs = length ys"
  by (rule mset_eq_length)

lemma insert_components:
  "if p \<noteq> [] \<and> depth + length p > PAK_TREE_MAX_DEPTH then insert_tree_components depth p ts dc fc = None
   else tree_wf ts \<longrightarrow> (\<exists>r. insert_tree_components depth p ts dc fc = Some r \<and> path_added p ts dc fc r)"
proof (induction depth p ts dc fc rule: insert_tree_components.induct)
  case (1 depth ts dc fc)
  then show ?case by (simp add: path_added_def)
next
  case (2 depth c ts dc fc)
  obtain xs ys where s: "ts = xs @ ys" "insert_tree_child ts (Treenode c False []) = xs @ Treenode c False [] # ys"
    using insert_tree_child_split by blast
  have "tree_wf ts \<Longrightarrow> tree_wf (insert_tree_child ts (Treenode c False []))" by (rule tree_wf_insert) simp_all
  then have w: "tree_wf ts \<Longrightarrow> tree_wf (xs @ Treenode c False [] # ys)" by (simp only: s(2))
  have eq: "insert_tree_components depth [c] ts dc fc
      = (if depth \<ge> PAK_TREE_MAX_DEPTH then None else Some (xs @ Treenode c False [] # ys, dc, fc + 1))"
    by (simp add: create_tree_node_def s(2))
  have "tree_wf ts \<Longrightarrow> path_added [c] ts dc fc (xs @ Treenode c False [] # ys, dc, fc + 1)"
    using w by (auto simp: path_added_def s(1) algebra_simps)
  then show ?case unfolding eq by simp
next
  case (3 depth c next' rest ts dc fc)
  let ?q = "next' # rest"
  obtain dir ts1 dc1 where D: "(case find_tree_dir ts c of Some dir \<Rightarrow> (dir, ts, dc)
      | None \<Rightarrow> (let dir = create_tree_node c True in (dir, insert_tree_child ts dir, dc + 1))) = (dir, ts1, dc1)"
    using prod_cases3 by blast
  have split: "\<exists>xs cs ys. ts1 = xs @ Treenode c True cs # ys \<and> dir = Treenode c True cs
      \<and> (\<forall>t. put_tree_dir ts1 c t = xs @ t # ys)
      \<and> (tree_wf ts \<longrightarrow> tree_wf ts1) \<and> mset (tree_files ts1) = mset (tree_files ts)
      \<and> set (tree_dirs ts1) = insert [c] (set (tree_dirs ts))
      \<and> dc1 + of_nat (length (tree_dirs ts)) = dc + of_nat (length (tree_dirs ts1))"
  proof (cases "find_tree_dir ts c")
    case (Some d)
    then have e: "dir = d" "ts1 = ts" "dc1 = dc" using D by simp_all
    from find_tree_dir_split [OF Some] obtain xs cs ys where
      s: "ts = xs @ d # ys" "d = Treenode c True cs" "\<forall>t. put_tree_dir ts c t = xs @ t # ys" by blast
    have "[c] \<in> set (tree_dirs ts)" by (simp add: s(1,2))
    with s show ?thesis unfolding e by (intro exI [of _ xs] exI [of _ cs] exI [of _ ys]) (simp add: insert_absorb)
  next
    case None
    then have e: "dir = Treenode c True []" "ts1 = insert_tree_child ts dir" "dc1 = dc + 1"
      using D by (auto simp: create_tree_node_def Let_def)
    obtain xs ys where s: "ts = xs @ ys" "ts1 = xs @ dir # ys" using insert_tree_child_split e(2) by metis
    have "\<forall>t \<in> set xs. node_is_dir t \<longrightarrow> node_name t \<noteq> c" using None s(1) by (auto simp: find_tree_dir_None)
    then have "put_tree_dir (xs @ dir # ys) c t = xs @ t # ys" for t by (induction xs) (auto simp: e(1))
    moreover have "tree_wf ts \<Longrightarrow> tree_wf ts1" using None unfolding e(2) by (intro tree_wf_insert) (simp_all add: e(1))
    ultimately show ?thesis using s e(1,3) by (intro exI [of _ xs] exI [of _ "[]"] exI [of _ ys]) auto
  qed
  then obtain xs cs ys where S: "ts1 = xs @ Treenode c True cs # ys" "dir = Treenode c True cs"
    "\<And>t. put_tree_dir ts1 c t = xs @ t # ys" "tree_wf ts \<Longrightarrow> tree_wf ts1"
    "mset (tree_files ts1) = mset (tree_files ts)" "set (tree_dirs ts1) = insert [c] (set (tree_dirs ts))"
    "dc1 + of_nat (length (tree_dirs ts)) = dc + of_nat (length (tree_dirs ts1))" by blast
  show ?case
  proof (cases "depth \<ge> PAK_TREE_MAX_DEPTH")
    case True
    then show ?thesis by simp
  next
    case False
    let ?r = "insert_tree_components (depth + 1) ?q cs dc1 fc"
    have IH: "if depth + 1 + length ?q > PAK_TREE_MAX_DEPTH then ?r = None
        else tree_wf cs \<longrightarrow> (\<exists>r. ?r = Some r \<and> path_added ?q cs dc1 fc r)"
      using 3 [OF False D [symmetric] refl refl] unfolding S(2) treenode.sel by (auto split: if_splits)
    have eq: "insert_tree_components depth (c # ?q) ts dc fc = (case ?r of None \<Rightarrow> None
        | Some (children, dc', fc') \<Rightarrow> Some (xs @ Treenode c True children # ys, dc', fc'))"
      using False D S(2,3) by (simp split: option.split)
    show ?thesis
    proof (cases "depth + 1 + length ?q > PAK_TREE_MAX_DEPTH")
      case True
      with IH eq show ?thesis by simp
    next
      case fits: False
      have "\<exists>r. insert_tree_components depth (c # ?q) ts dc fc = Some r \<and> path_added (c # ?q) ts dc fc r"
        if wf: "tree_wf ts"
      proof -
        have w1: "tree_wf (xs @ Treenode c True cs # ys)" using S(1,4) wf by simp
        then have "tree_wf cs" by (induction xs rule: tree_wf.induct) auto
        then obtain cs' dc' fc' where R: "?r = Some (cs', dc', fc')" "path_added ?q cs dc1 fc (cs', dc', fc')"
          using IH fits by (auto split: if_splits)
        then have P: "tree_wf cs'" "mset (tree_files cs') = add_mset ?q (mset (tree_files cs))"
          "set (tree_dirs cs') = proper_prefixes ?q \<union> set (tree_dirs cs)"
          "dc' + of_nat (length (tree_dirs cs)) = dc1 + of_nat (length (tree_dirs cs'))"
          "fc' + of_nat (length (tree_files cs)) = fc + of_nat (length (tree_files cs'))"
          by (auto simp: path_added_def)
        have len: "length (tree_dirs (xs @ Treenode c True k # ys)) = Suc (length (tree_dirs xs) + length (tree_dirs ys)) + length (tree_dirs k)"
          "length (tree_files (xs @ Treenode c True k # ys)) = length (tree_files xs) + length (tree_files ys) + length (tree_files k)"
          for k by simp_all
        have "tree_wf (xs @ Treenode c True cs' # ys)" using tree_replace [OF w1 P(1)] by simp
        moreover have "mset (tree_files (xs @ Treenode c True cs' # ys)) = add_mset (c # ?q) (mset (tree_files ts))"
          using P(2) unfolding S(5) [symmetric] S(1) by simp
        moreover have "set (tree_dirs (xs @ Treenode c True cs' # ys)) = (#) c ` proper_prefixes ?q \<union> set (tree_dirs ts1)"
          by (simp add: S(1) P(3) image_Un ac_simps)
        then have "set (tree_dirs (xs @ Treenode c True cs' # ys)) = proper_prefixes (c # ?q) \<union> set (tree_dirs ts)"
          by (simp add: S(6))
        moreover have "dc' + of_nat (length (tree_dirs ts))
            = dc + of_nat (length (tree_dirs (xs @ Treenode c True cs' # ys)))"
          using S(7) unfolding S(1) len of_nat_add by (rule count_shift [OF P(4)])
        moreover have "length (tree_files ts) = length (tree_files (xs @ Treenode c True cs # ys))"
          using length_mset_eq [OF S(5)] unfolding S(1) by simp
        then have "fc + of_nat (length (tree_files ts))
            = fc + of_nat (length (tree_files xs) + length (tree_files ys) + length (tree_files cs))"
          unfolding len by simp
        then have "fc' + of_nat (length (tree_files ts))
            = fc + of_nat (length (tree_files (xs @ Treenode c True cs' # ys)))"
          unfolding len of_nat_add by (rule count_shift [OF P(5)])
        ultimately show ?thesis using eq R(1) by (simp add: path_added_def)
      qed
      with fits show ?thesis by simp
    qed
  qed
qed

lemma insert_path:
  "if length (path_components n) > PAK_TREE_MAX_DEPTH then insert_tree_path n (ts, dc, fc) = None
   else tree_wf ts \<longrightarrow> (\<exists>r. insert_tree_path n (ts, dc, fc) = Some r \<and> path_added (path_components n) ts dc fc r)"
proof (cases "n = []")
  case True
  then show ?thesis by (simp add: insert_tree_path_def path_components_def path_added_def)
next
  case False
  with insert_components [of "path_components n" 0 ts dc fc] show ?thesis
    by (auto simp: insert_tree_path_def split: if_splits)
qed

definition entry_components :: "pentry list \<Rightarrow> cstring list list" where
  "entry_components es = map (\<lambda>e. path_components (filename e)) es"

lemma build_tree_iff:
  "tree_wf ts \<Longrightarrow> dc = of_nat (length (tree_dirs ts)) \<Longrightarrow> fc = of_nat (length (tree_files ts)) \<Longrightarrow>
   (case build_tree es (ts, dc, fc) of
      None \<Rightarrow> list_ex (\<lambda>p. length p > PAK_TREE_MAX_DEPTH) (entry_components es)
    | Some (ts', dc', fc') \<Rightarrow> list_all (\<lambda>p. length p \<le> PAK_TREE_MAX_DEPTH) (entry_components es) \<and> tree_wf ts'
        \<and> mset (tree_files ts') = mset (tree_files ts) + mset (filter (\<lambda>p. p \<noteq> []) (entry_components es))
        \<and> set (tree_dirs ts') = set (tree_dirs ts) \<union> (\<Union>p \<in> set (entry_components es). proper_prefixes p)
        \<and> dc' = of_nat (length (tree_dirs ts')) \<and> fc' = of_nat (length (tree_files ts')))"
proof (induction es arbitrary: ts dc fc)
  case (Cons e es)
  let ?p = "path_components (filename e)"
  show ?case
  proof (cases "length ?p > PAK_TREE_MAX_DEPTH")
    case True
    with insert_path [of "filename e" ts dc fc] show ?thesis by (simp add: entry_components_def)
  next
    case False
    with insert_path [of "filename e" ts dc fc] Cons.prems(1) obtain ts1 dc1 fc1 where
      r: "insert_tree_path (filename e) (ts, dc, fc) = Some (ts1, dc1, fc1)"
      "path_added ?p ts dc fc (ts1, dc1, fc1)" by auto
    then have P: "tree_wf ts1" "mset (tree_files ts1) = (if ?p = [] then {#} else {#?p#}) + mset (tree_files ts)"
      "set (tree_dirs ts1) = proper_prefixes ?p \<union> set (tree_dirs ts)"
      "dc1 = of_nat (length (tree_dirs ts1))" "fc1 = of_nat (length (tree_files ts1))"
      using Cons.prems(2,3) by (auto simp: path_added_def)
    from Cons.IH [OF P(1,4,5)] show ?thesis
      unfolding P(2,3) using False r(1)
      by (auto simp: entry_components_def ac_simps split: option.splits)
  qed
qed (simp add: entry_components_def)

text \<open>C38: the tree the tool builds from an archive holds the entries: the paths of its files are, as a
  multiset, the component lists of the entry names, its directories are exactly their proper prefixes,
  each once, siblings are sorted with no directory twice, and the two counts of the summary are the
  numbers of directories and files (modulo $2^{32}$, the width of the counters). It gives up exactly when a
  name has more than 100 components.\<close>

theorem list_tree_spec:
  "case build_tree (entries a) ([], 0, 0) of
     None \<Rightarrow> list_ex (\<lambda>p. length p > 100) (entry_components (entries a))
   | Some (root, dir_count, file_count) \<Rightarrow>
       list_all (\<lambda>p. length p \<le> 100) (entry_components (entries a)) \<and> tree_wf root
       \<and> mset (tree_files root) = mset (filter (\<lambda>p. p \<noteq> []) (entry_components (entries a)))
       \<and> set (tree_dirs root) = (\<Union>p \<in> set (entry_components (entries a)). proper_prefixes p)
       \<and> distinct (tree_dirs root)
       \<and> dir_count = of_nat (length (tree_dirs root)) \<and> file_count = of_nat (length (tree_files root))"
  using build_tree_iff [of "[]" 0 0 "entries a"] tree_dirs_distinct
  by (auto simp: PAK_TREE_MAX_DEPTH_def split: option.splits)

section \<open>The output\<close>

lemma ascii_printable [simp]:
  "screen_text (ascii '' ('')" "screen_text (ascii '' bytes)'')" "screen_text (ascii ''Pak is empty'')" "screen_text (ascii ''.'')"
  "screen_text (ascii '' director'')" "screen_text (ascii ''y'')" "screen_text (ascii ''ies'')" "screen_text (ascii '', '')"
  "screen_text (ascii '' file'')" "screen_text (ascii ''s'')"
  by (rule printable_ascii, simp add: ascii_def)+

lemma list_line: "c_string (filename e) \<Longrightarrow> \<exists>l. list_line e = l @ [0x0A] \<and> screen_text l"
proof (intro exI conjI)
  assume "c_string (filename e)"
  then show "screen_text (pakka_fprint_sanitized (filename e) @ ascii '' ('' @ decimal (unat (pakka_entry_size (Some e)))
     @ ascii '' bytes)'')" by (intro printable_parts ascii_printable sanitized_printable decimal_printable)
qed (simp add: list_line_def)

lemma list_lines:
  "list_all (\<lambda>e. c_string (filename e)) es \<Longrightarrow>
   \<exists>ls. concat (map list_line es) = lines_of ls \<and> list_all screen_text ls \<and> length ls = length es"
proof (induction es)
  case (Cons e es)
  then obtain ls where ls: "concat (map list_line es) = lines_of ls" "list_all screen_text ls" "length ls = length es" by auto
  from Cons.prems obtain l where "list_line e = l @ [0x0A]" "screen_text l" using list_line [of e] by auto
  with ls show ?case by (intro exI [of _ "l # ls"]) simp
qed (simp add: exI [of _ "[]"])

lemma branch_printable:
  "screen_text PAK_TREE_BRANCH_MID" "screen_text PAK_TREE_BRANCH_LAST" "screen_text PAK_TREE_PREFIX_MID"
  "screen_text PAK_TREE_PREFIX_LAST"
proof -
  have e: "[0xE2, 0x94, 0x9C] = utf8_encode 0x251C" "[0xE2, 0x94, 0x94] = utf8_encode 0x2514"
    "[0xE2, 0x94, 0x80] = utf8_encode 0x2500" "[0xE2, 0x94, 0x82] = utf8_encode 0x2502"
    by (simp_all add: utf8_encode_def)
  have p: "screen_text [0xE2, 0x94, 0x9C]" "screen_text [0xE2, 0x94, 0x94]" "screen_text [0xE2, 0x94, 0x80]"
    "screen_text [0xE2, 0x94, 0x82]"
    unfolding screen_text_def by (simp_all add: control_byte_def, unfold e) (auto intro!: utf8_text_encode simp: scalar_def)
  have sp: "screen_text [0x20]" by (rule printable_ascii) simp
  have a: "PAK_TREE_BRANCH_MID = [0xE2, 0x94, 0x9C] @ [0xE2, 0x94, 0x80] @ [0xE2, 0x94, 0x80] @ [0x20]"
    "PAK_TREE_BRANCH_LAST = [0xE2, 0x94, 0x94] @ [0xE2, 0x94, 0x80] @ [0xE2, 0x94, 0x80] @ [0x20]"
    "PAK_TREE_PREFIX_MID = [0xE2, 0x94, 0x82] @ [0x20] @ [0x20] @ [0x20]"
    "PAK_TREE_PREFIX_LAST = [0x20] @ [0x20] @ [0x20] @ [0x20]"
    by (simp_all add: PAK_TREE_BRANCH_MID_def PAK_TREE_BRANCH_LAST_def PAK_TREE_PREFIX_MID_def PAK_TREE_PREFIX_LAST_def)
  show "screen_text PAK_TREE_BRANCH_MID" "screen_text PAK_TREE_BRANCH_LAST" "screen_text PAK_TREE_PREFIX_MID"
    "screen_text PAK_TREE_PREFIX_LAST"
    unfolding a by (intro printable_parts p sp)+
qed

text \<open>The names in a tree of C strings.\<close>

fun tree_names :: "treenode list \<Rightarrow> cstring list" where
  "tree_names [] = []"
| "tree_names (Treenode n d cs # ts) = n # tree_names cs @ tree_names ts"

lemma tree_lines:
  "list_all c_string (tree_names ts) \<Longrightarrow> tree_wf ts \<Longrightarrow> screen_text margin \<Longrightarrow>
   \<exists>ls. print_tree_children ts margin = lines_of ls \<and> list_all screen_text ls
     \<and> length ls = length (tree_dirs ts) + length (tree_files ts)"
proof (induction ts margin rule: print_tree_children.induct)
  case (2 n d cs ts margin)
  let ?b = "if ts = [] then PAK_TREE_BRANCH_LAST else PAK_TREE_BRANCH_MID"
  let ?m = "margin @ (if ts = [] then PAK_TREE_PREFIX_LAST else PAK_TREE_PREFIX_MID)"
  have l: "screen_text (margin @ ?b @ pakka_fprint_sanitized n)" and m: "screen_text ?m"
    using 2(3,5) by (auto intro!: printable_parts branch_printable sanitized_printable)
  obtain ms where ms: "print_tree_children ts margin = lines_of ms" "list_all screen_text ms"
    "length ms = length (tree_dirs ts) + length (tree_files ts)"
    using 2(2) [OF refl refl] 2(3-5) by auto
  show ?case
  proof (cases d)
    case True
    obtain ks where ks: "print_tree_children cs ?m = lines_of ks" "list_all screen_text ks"
      "length ks = length (tree_dirs cs) + length (tree_files cs)"
      using 2(1) [OF refl refl True] 2(3,4) m by auto
    show ?thesis using True l ks ms
      by (intro exI [of _ "(margin @ ?b @ pakka_fprint_sanitized n) # ks @ ms"]) (simp add: Let_def)
  next
    case False
    show ?thesis using False l ms
      by (intro exI [of _ "(margin @ ?b @ pakka_fprint_sanitized n) # ms"]) (simp add: Let_def)
  qed
qed (simp add: exI [of _ "[]"])

lemma tree_names_append [simp]: "tree_names (xs @ ys) = tree_names xs @ tree_names ys"
  by (induction xs rule: tree_names.induct) simp_all

lemma insert_child_names: "set (tree_names (insert_tree_child ts t)) = set (tree_names [t]) \<union> set (tree_names ts)"
proof -
  obtain xs ys where "ts = xs @ ys" "insert_tree_child ts t = xs @ t # ys" using insert_tree_child_split by blast
  then show ?thesis by (cases t) auto
qed

lemma put_dir_names: "set (tree_names (put_tree_dir ts n t)) \<subseteq> set (tree_names [t]) \<union> set (tree_names ts)"
proof (induction ts)
  case (Cons x ts)
  then show ?case by (cases x; cases t) auto
qed simp

lemma find_dir_names: "find_tree_dir ts n = Some d \<Longrightarrow> set (tree_names (node_children d)) \<subseteq> set (tree_names ts)"
  using find_tree_dir_split [of ts n d] by auto

lemma insert_components_names:
  "insert_tree_components depth p ts dc fc = Some (ts', dc', fc') \<Longrightarrow> set (tree_names ts') \<subseteq> set p \<union> set (tree_names ts)"
proof (induction depth p ts dc fc arbitrary: ts' dc' fc' rule: insert_tree_components.induct)
  case (2 depth c ts dc fc)
  then show ?case by (auto simp: insert_child_names create_tree_node_def split: if_splits)
next
  case (3 depth c d rest ts dc fc)
  obtain dir ts1 dc1 where D: "(case find_tree_dir ts c of Some dir \<Rightarrow> (dir, ts, dc)
      | None \<Rightarrow> (let dir = create_tree_node c True in (dir, insert_tree_child ts dir, dc + 1))) = (dir, ts1, dc1)"
    using prod_cases3 by blast
  have n: "set (tree_names ts1) \<subseteq> insert c (set (tree_names ts))" "set (tree_names (node_children dir)) \<subseteq> set (tree_names ts)"
    using D find_dir_names [of ts c]
    by (auto simp: insert_child_names create_tree_node_def Let_def split: option.splits)
  from 3(2) obtain cs dc2 fc2 where dp: "\<not> depth \<ge> PAK_TREE_MAX_DEPTH"
    and r: "insert_tree_components (depth + 1) (d # rest) (node_children dir) dc1 fc = Some (cs, dc2, fc2)"
    and t: "ts' = put_tree_dir ts1 c (Treenode c True cs)"
    using D by (auto split: if_splits option.splits)
  have "set (tree_names cs) \<subseteq> set (d # rest) \<union> set (tree_names (node_children dir))"
    by (rule 3(1) [OF dp D [symmetric] refl refl r])
  with n put_dir_names [of ts1 c "Treenode c True cs"] show ?case by (auto simp: t)
qed simp

lemma components_c_string: "c_string n \<Longrightarrow> list_all c_string (path_components n)"
  using split_at_subset [of "\<lambda>c. c = 0x2F" n] by (auto simp: path_components_def c_string_def list_all_iff)

lemma build_tree_names:
  "build_tree es (ts, dc, fc) = Some (ts', dc', fc') \<Longrightarrow> list_all (\<lambda>e. c_string (filename e)) es \<Longrightarrow>
   list_all c_string (tree_names ts) \<Longrightarrow> list_all c_string (tree_names ts')"
proof (induction es arbitrary: ts dc fc)
  case (Cons e es)
  then obtain ts1 dc1 fc1 where r: "insert_tree_path (filename e) (ts, dc, fc) = Some (ts1, dc1, fc1)"
    "build_tree es (ts1, dc1, fc1) = Some (ts', dc', fc')" by (auto split: option.splits)
  have "set (tree_names ts1) \<subseteq> set (path_components (filename e)) \<union> set (tree_names ts)"
    using r(1) insert_components_names [of 0 "path_components (filename e)" ts dc fc]
    by (auto simp: insert_tree_path_def split: if_splits)
  with Cons.prems components_c_string [of "filename e"] have "list_all c_string (tree_names ts1)"
    by (auto simp: list_all_iff)
  with Cons.IH [OF r(2)] Cons.prems show ?case by simp
qed simp

lemma summary_lines:
  "\<exists>l. print_tree_summary dc fc = [0x0A] @ l @ [0x0A] \<and> screen_text l"
  unfolding print_tree_summary_def
  by (intro exI [of _ "decimal (unat dc) @ ascii '' director'' @ (if dc = 1 then ascii ''y'' else ascii ''ies'')
     @ ascii '', '' @ decimal (unat fc) @ ascii '' file'' @ (if fc = 1 then [] else ascii ''s'')"])
    (simp add: decimal_printable)

text \<open>C39: whatever bytes the names of an archive hold, the list and the tree are lines of valid UTF-8 without
  control characters: an entry name cannot move the cursor, colour the terminal or forge a line. The list
  has one line for each entry, the tree one for each directory and file besides its root, a blank line
  and the summary.\<close>

theorem listing_is_text:
  assumes "list_all (\<lambda>e. c_string (filename e)) (entries a)" "unat (num_entries a) = length (entries a)"
  shows "(\<exists>ls. op_list a = lines_of ls \<and> list_all screen_text ls \<and> length ls = max 1 (length (entries a)))
    \<and> (case op_list_tree a of Exit n \<Rightarrow> n = 1
       | Go out \<Rightarrow> \<exists>ls root dc fc. out = lines_of ls \<and> list_all screen_text ls
           \<and> build_tree (entries a) ([], 0, 0) = Some (root, dc, fc)
           \<and> length ls = length (tree_dirs root) + length (tree_files root) + 3)"
proof
  show "\<exists>ls. op_list a = lines_of ls \<and> list_all screen_text ls \<and> length ls = max 1 (length (entries a))"
  proof (cases "entries a = []")
    case True
    then show ?thesis using assms(2)
      by (intro exI [of _ "[ascii ''Pak is empty'']"]) (simp add: op_list_def pakka_entry_count_def)
  next
    case False
    obtain ls where "concat (map list_line (entries a)) = lines_of ls" "list_all screen_text ls" "length ls = length (entries a)"
      using list_lines [OF assms(1)] by blast
    with False assms(2) show ?thesis
      by (intro exI [of _ ls]) (cases "entries a"; simp add: op_list_def pakka_entry_count_def)
  qed
next
  show "case op_list_tree a of Exit n \<Rightarrow> n = 1
       | Go out \<Rightarrow> \<exists>ls root dc fc. out = lines_of ls \<and> list_all screen_text ls
           \<and> build_tree (entries a) ([], 0, 0) = Some (root, dc, fc)
           \<and> length ls = length (tree_dirs root) + length (tree_files root) + 3"
  proof (cases "build_tree (entries a) ([], 0, 0)")
    case None
    then show ?thesis by (simp add: op_list_tree_def)
  next
    case (Some r)
    then obtain root dc fc where b: "build_tree (entries a) ([], 0, 0) = Some (root, dc, fc)" by (cases r) auto
    have w: "tree_wf root" "mset (tree_files root) = mset (filter (\<lambda>p. p \<noteq> []) (entry_components (entries a)))"
      "set (tree_dirs root) = (\<Union>p \<in> set (entry_components (entries a)). proper_prefixes p)"
      using build_tree_iff [of "[]" 0 0 "entries a"] b by auto
    have nm: "list_all c_string (tree_names root)" using build_tree_names [OF b assms(1)] by simp
    obtain ls where ls: "print_tree_children root [] = lines_of ls" "list_all screen_text ls"
      "length ls = length (tree_dirs root) + length (tree_files root)"
      using tree_lines [OF nm w(1) printable_parts(1)] by blast
    have root0: "root = []" if "entries a = []" using b that by simp
    obtain l where l: "print_tree_summary dc fc = [0x0A] @ l @ [0x0A]" "screen_text l" using summary_lines by blast
    let ?out = "[ascii ''.''] @ ls @ [[], l]"
    have "op_list_tree a = Go (lines_of ?out)"
      using b ls(1) l(1) assms(2) root0 by (cases "entries a") (auto simp: op_list_tree_def pakka_entry_count_def)
    moreover have "list_all screen_text ?out" using ls(2) l(2) by simp
    ultimately show ?thesis using b ls(3)
      by (auto intro!: exI [of _ ?out])
  qed
qed

text \<open>A name with an escape sequence and a byte that is no UTF-8.\<close>

definition rude_pak :: archive where
  "rude_pak = calloc_archive\<lparr>format := PAKKA_FORMAT_PAK, num_entries := 1,
     entries := [calloc_entry\<lparr>filename := ascii ''d/'' @ [0x1B, 0xFF], offset := 12, entry_length := 7\<rparr>]\<rparr>"

lemma listing_is_text_witness:
  "(\<exists>ls. op_list rude_pak = lines_of ls \<and> list_all screen_text ls \<and> length ls = 1)
   \<and> (\<exists>ls. op_list_tree rude_pak = Go (lines_of ls) \<and> list_all screen_text ls \<and> length ls = 5)"
proof -
  have e: "entries rude_pak = [calloc_entry\<lparr>filename := ascii ''d/'' @ [0x1B, 0xFF], offset := 12, entry_length := 7\<rparr>]"
    "num_entries rude_pak = 1" by (simp_all add: rude_pak_def)
  have b: "build_tree (entries rude_pak) ([], 0, 0) = Some ([Treenode [0x64] True [Treenode [0x1B, 0xFF] False []]], 1, 1)"
    by (simp add: e insert_tree_path_def path_components_def ascii_def PAK_TREE_MAX_DEPTH_def create_tree_node_def Let_def)
  have "list_all (\<lambda>e. c_string (filename e)) (entries rude_pak)" "unat (num_entries rude_pak) = length (entries rude_pak)"
    by (simp_all add: e c_string_def ascii_def)
  from listing_is_text [OF this] b show ?thesis
    by (cases "op_list_tree rude_pak") (auto simp: e op_list_tree_def)
qed

end
