(* ===== verification/Extract_Target.thy ===== *)
theory Extract_Target
  imports Platform
begin

text \<open>
  The calls of \<^verbatim>\<open>src/platform.c\<close> the command line tool makes besides those of the library: the destination
  directory, reading a directory, and opening a file below the destination without following a link
  (the POSIX half, with \<^verbatim>\<open>openat\<close>). A descriptor of a directory is the path that led to it.

  A record \<open>host\<close> extends what the system may answer: \<open>h_open\<close> tells which directories and files can be
  opened, \<open>h_mkdir\<close> which directories can be made, \<open>h_fdopen\<close> which descriptors get a stream and with which
  limits, \<open>h_readdir\<close> what a directory lists and whether the listing ends in an error.
\<close>

datatype cli_site = C_destination | C_select | C_match | C_norms | C_norm nat

record host =
  h_env :: env
  h_cwd :: "path option"
  h_realpath :: "path \<Rightarrow> path option"
  h_open :: "path \<Rightarrow> bool"
  h_mkdir :: "path \<Rightarrow> bool"
  h_fdopen :: "path \<Rightarrow> limits option"
  h_readdir :: "files \<Rightarrow> path \<Rightarrow> (cstring list \<times> bool) option"
  h_oom :: "cli_site \<Rightarrow> bool"

section \<open>The code\<close>

text \<open>The name of a directory's member. Paths that come from \<^verbatim>\<open>realpath\<close> or \<^verbatim>\<open>getcwd\<close> end in a slash only when they
  are the root.\<close>

definition member_path :: "path \<Rightarrow> cstring \<Rightarrow> path" where
  "member_path d s = (if d = [0x2F] then d @ s else d @ 0x2F # s)"

definition open_directory :: "host \<Rightarrow> files \<Rightarrow> path \<Rightarrow> bool" where
  "open_directory h fs d \<longleftrightarrow> fs d = Some Directory \<and> h_open h d"

text \<open>\<^verbatim>\<open>openat\<close> with \<^verbatim>\<open>O_WRONLY | O_CREAT | O_TRUNC | O_NOFOLLOW\<close>, then \<^verbatim>\<open>fdopen\<close>.\<close>

definition open_leaf :: "host \<Rightarrow> files \<Rightarrow> path \<Rightarrow> (path \<times> cfile) option \<times> files" where
  "open_leaf h fs p =
     (case fs p of
        Some Symlink \<Rightarrow> (None, fs)
      | Some Directory \<Rightarrow> (None, fs)
      | Some Special \<Rightarrow>
          (if h_open h p then map_option (\<lambda>l. (p, stream_of l [])) (h_fdopen h p) else None, fs)
      | _ \<Rightarrow>
          if \<not> h_open h p then (None, fs)
          else (map_option (\<lambda>l. (p, stream_of l [])) (h_fdopen h p), fs(p := Some (Regular []))))"

text \<open>The loop over the segments of the name, from the directory reached so far.\<close>

fun extract_descend :: "host \<Rightarrow> files \<Rightarrow> path \<Rightarrow> cstring list \<Rightarrow> (path \<times> cfile) option \<times> files" where
  "extract_descend h fs dir [] = (None, fs)"
| "extract_descend h fs dir [leaf] =
     (if leaf = [] then (None, fs)
      else if length leaf \<ge> OS_PATH_MAX then (None, fs)
      else open_leaf h fs (member_path dir leaf))"
| "extract_descend h fs dir (seg # next # rest) =
     (if seg = [] then extract_descend h fs dir (next # rest)
      else if length seg \<ge> OS_PATH_MAX then (None, fs)
      else
        (let sub = member_path dir seg in
         if fs sub = None then
           (if \<not> h_mkdir h sub then (None, fs)
            else
              (let fs1 = fs(sub := Some Directory)
               in if open_directory h fs1 sub then extract_descend h fs1 sub (next # rest) else (None, fs1)))
         else if open_directory h fs sub then extract_descend h fs sub (next # rest)
         else (None, fs)))"

definition pakka_platform_open_extract_target ::
  "host \<Rightarrow> files \<Rightarrow> path \<Rightarrow> cstring \<Rightarrow> (path \<times> cfile) option \<times> files" where
  "pakka_platform_open_extract_target h fs dest rel_path =
     (if open_directory h fs dest then extract_descend h fs dest (segments rel_path) else (None, fs))"

text \<open>\<^verbatim>\<open>fclose\<close> of the stream. What is written to a device or a pipe does not stay in it.\<close>

definition close_target :: "host \<Rightarrow> files \<Rightarrow> path \<Rightarrow> cfile \<Rightarrow> bool \<times> files" where
  "close_target h fs p f =
     (if fs p = Some Special then (f_close_ok f, fs) else publish (h_env h) fs p f)"

section \<open>Where it goes\<close>

fun below :: "path \<Rightarrow> cstring list \<Rightarrow> path" where
  "below dir [] = dir"
| "below dir (s # ss) = below (member_path dir s) ss"

definition plain_segment :: "cstring \<Rightarrow> bool" where
  "plain_segment s \<longleftrightarrow> s \<noteq> [] \<and> s \<noteq> [0x2E] \<and> s \<noteq> [0x2E, 0x2E] \<and> list_all (\<lambda>c. \<not> is_sep c) s"

text \<open>What a step of an extraction may do to the files: make directories and write files below the
  destination, on ways that go through directories only; a link is never written to nor passed.\<close>

definition kept_outside :: "path \<Rightarrow> files \<Rightarrow> files \<Rightarrow> bool" where
  "kept_outside dest fs fs' \<longleftrightarrow>
     (\<forall>q. fs q = Some Directory \<or> fs q = Some Symlink \<or> fs q = Some Special \<longrightarrow> fs' q = fs q)
     \<and> (\<forall>q. fs' q \<noteq> fs q \<longrightarrow> (\<exists>ss s. q = below dest (ss @ [s]) \<and> list_all plain_segment (ss @ [s])
          \<and> (\<forall>k \<le> length ss. fs' (below dest (take k ss)) = Some Directory)))"

lemma below_append: "below dir (xs @ ys) = below (below dir xs) ys"
  by (induction xs arbitrary: dir) simp_all

lemma kept_outside_refl [simp]: "kept_outside dest fs fs"
  by (simp add: kept_outside_def)

lemma kept_outside_trans:
  assumes a: "kept_outside dest fs gs" and b: "kept_outside dest gs hs"
  shows "kept_outside dest fs hs"
proof -
  have keep: "hs q = gs q" if "gs q = Some Directory \<or> gs q = Some Symlink \<or> gs q = Some Special" for q
    using b that unfolding kept_outside_def by blast
  have "hs q = fs q" if "fs q = Some Directory \<or> fs q = Some Symlink \<or> fs q = Some Special" for q
    using a keep [of q] that unfolding kept_outside_def by metis
  moreover have "\<exists>ss s. q = below dest (ss @ [s]) \<and> list_all plain_segment (ss @ [s])
      \<and> (\<forall>k \<le> length ss. hs (below dest (take k ss)) = Some Directory)" if ne: "hs q \<noteq> fs q" for q
  proof (cases "hs q = gs q")
    case True
    with ne a obtain ss s where "q = below dest (ss @ [s])" "list_all plain_segment (ss @ [s])"
      "\<forall>k \<le> length ss. gs (below dest (take k ss)) = Some Directory" unfolding kept_outside_def by metis
    with keep show ?thesis by metis
  next
    case False
    with b show ?thesis unfolding kept_outside_def by blast
  qed
  ultimately show ?thesis unfolding kept_outside_def by blast
qed

text \<open>One change below the destination: a new directory, or bytes into a file.\<close>

lemma kept_outside_update:
  assumes "list_all plain_segment (ss @ [s])" "\<forall>k \<le> length ss. fs (below dest (take k ss)) = Some Directory"
    and "fs (below dest (ss @ [s])) = None \<or> (\<exists>b. fs (below dest (ss @ [s])) = Some (Regular b))"
  shows "kept_outside dest fs (fs(below dest (ss @ [s]) := x))"
  unfolding kept_outside_def
proof (intro conjI allI impI)
  fix q assume "fs q = Some Directory \<or> fs q = Some Symlink \<or> fs q = Some Special"
  then show "(fs(below dest (ss @ [s]) := x)) q = fs q" using assms(3) by auto
next
  fix q assume "(fs(below dest (ss @ [s]) := x)) q \<noteq> fs q"
  then have "q = below dest (ss @ [s])" by (auto split: if_splits)
  moreover have "below dest (take k ss) \<noteq> below dest (ss @ [s])" if "k \<le> length ss" for k
    using assms(2,3) that by auto
  ultimately show "\<exists>ss' s'. q = below dest (ss' @ [s']) \<and> list_all plain_segment (ss' @ [s'])
      \<and> (\<forall>k \<le> length ss'. (fs(below dest (ss @ [s]) := x)) (below dest (take k ss')) = Some Directory)"
    using assms(1,2) by (intro exI [of _ ss] exI [of _ s]) auto
qed

lemma open_leaf_cases:
  assumes "open_leaf h fs p = (r, fs')"
  shows "fs' = fs \<and> r = None \<or> fs p = Some Special \<and> fs' = fs \<and> (\<forall>x. r = Some x \<longrightarrow> (\<exists>l. x = (p, stream_of l [])))
    \<or> (fs p = None \<or> (\<exists>b. fs p = Some (Regular b))) \<and> fs' = fs(p := Some (Regular []))
      \<and> (\<forall>x. r = Some x \<longrightarrow> (\<exists>l. x = (p, stream_of l [])))"
  using assms by (auto simp: open_leaf_def split: option.splits node.splits if_splits)

text \<open>A way of plain segments is followed to its end, through directories.\<close>

definition descended ::
  "path \<Rightarrow> files \<Rightarrow> cstring list \<Rightarrow> (path \<times> cfile) option \<Rightarrow> files \<Rightarrow> bool" where
  "descended dest fs way r fs' \<longleftrightarrow> kept_outside dest fs fs'
     \<and> (\<forall>q. fs q \<noteq> None \<and> q \<noteq> below dest way \<longrightarrow> fs' q = fs q)
     \<and> (\<forall>p f. r = Some (p, f) \<longrightarrow> p = below dest way \<and> (\<exists>l. f = stream_of l [])
          \<and> (\<forall>k < length way. fs' (below dest (take k way)) = Some Directory)
          \<and> (fs' p = Some (Regular []) \<or> fs' p = Some Special))"

lemma descended_trans:
  "kept_outside dest fs gs \<Longrightarrow> \<forall>q. fs q \<noteq> None \<longrightarrow> gs q = fs q \<Longrightarrow> descended dest gs way r fs' \<Longrightarrow>
   descended dest fs way r fs'"
  unfolding descended_def
proof (elim conjE, intro conjI)
  assume k: "\<forall>q. fs q \<noteq> None \<longrightarrow> gs q = fs q" and d: "\<forall>q. gs q \<noteq> None \<and> q \<noteq> below dest way \<longrightarrow> fs' q = gs q"
  show "\<forall>q. fs q \<noteq> None \<and> q \<noteq> below dest way \<longrightarrow> fs' q = fs q"
  proof (intro allI impI, elim conjE)
    fix q assume "fs q \<noteq> None" "q \<noteq> below dest way"
    with k d show "fs' q = fs q" by force
  qed
qed (rule kept_outside_trans)

lemma descended_same [simp]: "descended dest fs way None fs"
  by (simp add: descended_def)

lemma open_leaf_descended:
  assumes r: "open_leaf h fs (below dest (ss @ [leaf])) = (r, fs')" and pl: "list_all plain_segment (ss @ [leaf])"
    and d: "\<forall>k \<le> length ss. fs (below dest (take k ss)) = Some Directory"
  shows "descended dest fs (ss @ [leaf]) r fs'"
proof -
  let ?p = "below dest (ss @ [leaf])"
  have k: "fs (below dest (take k (ss @ [leaf]))) = Some Directory" if "k < length (ss @ [leaf])" for k
    using d that by (simp add: less_Suc_eq_le)
  define plain where "plain \<longleftrightarrow> fs ?p = None \<or> (\<exists>b. fs ?p = Some (Regular b))"
  from open_leaf_cases [OF r, folded plain_def] show ?thesis
  proof (elim disjE conjE)
    assume pn: plain and u: "fs' = fs(?p := Some (Regular []))" "\<forall>x. r = Some x \<longrightarrow> (\<exists>l. x = (?p, stream_of l []))"
    have "kept_outside dest fs fs'"
      unfolding u(1) by (rule kept_outside_update [OF pl d]) (use pn in \<open>simp add: plain_def\<close>)
    moreover have "fs' (below dest (take j (ss @ [leaf]))) = Some Directory" if j: "j < length (ss @ [leaf])" for j
      using k [OF j] pn by (auto simp: u(1) plain_def)
    moreover have "fs' ?p = Some (Regular [])" "\<forall>q. q \<noteq> ?p \<longrightarrow> fs' q = fs q" by (simp_all add: u(1))
    ultimately show ?thesis using u(2) unfolding descended_def by blast
  next
    assume "fs' = fs" "r = None"
    then show ?thesis by simp
  next
    assume "fs ?p = Some Special" "fs' = fs" "\<forall>x. r = Some x \<longrightarrow> (\<exists>l. x = (?p, stream_of l []))"
    with k show ?thesis unfolding descended_def by auto
  qed
qed

lemma extract_descend_spec:
  "extract_descend h fs (below dest ss) segs = (r, fs') \<Longrightarrow> list_all plain_segment (ss @ segs) \<Longrightarrow> segs \<noteq> [] \<Longrightarrow>
   \<forall>k \<le> length ss. fs (below dest (take k ss)) = Some Directory \<Longrightarrow> descended dest fs (ss @ segs) r fs'"
proof (induction segs arbitrary: ss fs)
  case (Cons seg segs)
  let ?sub = "below dest (ss @ [seg])"
  have m: "member_path (below dest ss) seg = ?sub" by (simp add: below_append)
  have pl: "list_all plain_segment (ss @ [seg])" "list_all plain_segment ((ss @ [seg]) @ segs)" and sg: "seg \<noteq> []"
    using Cons.prems(2) by simp_all (simp add: plain_segment_def)
  show ?case
  proof (cases segs)
    case Nil
    then have "fs' = fs \<and> r = None \<or> open_leaf h fs ?sub = (r, fs')"
      using Cons.prems(1) unfolding Nil extract_descend.simps m by (simp split: if_splits)
    then show ?thesis
    proof
      assume "open_leaf h fs ?sub = (r, fs')"
      from open_leaf_descended [OF this pl(1) Cons.prems(4)] Nil show ?thesis by simp
    qed simp
  next
    case (Cons nxt rest)
    have step: "descended dest gs (ss @ seg # segs) r fs'"
      if r: "extract_descend h gs ?sub segs = (r, fs')" and d: "gs ?sub = Some Directory"
        and up: "\<forall>k \<le> length ss. gs (below dest (take k ss)) = Some Directory" for gs
    proof -
      have "\<forall>k \<le> length (ss @ [seg]). gs (below dest (take k (ss @ [seg]))) = Some Directory"
        using up d by (auto simp: le_Suc_eq)
      from Cons.IH [OF r pl(2) _ this] Cons show ?thesis by simp
    qed
    let ?gs = "fs(?sub := Some Directory)"
    have eq: "extract_descend h fs (below dest ss) (seg # segs) =
        (if length seg \<ge> OS_PATH_MAX then (None, fs)
         else if fs ?sub = None then
           (if \<not> h_mkdir h ?sub then (None, fs)
            else if h_open h ?sub then extract_descend h ?gs ?sub segs else (None, ?gs))
         else if fs ?sub = Some Directory \<and> h_open h ?sub then extract_descend h fs ?sub segs
         else (None, fs))"
      using sg by (simp add: Cons m open_directory_def Let_def)
    define sub where "sub = ?sub"
    have "fs' = fs \<and> r = None \<or> fs sub = None \<and> r = None \<and> fs' = fs(sub := Some Directory)
        \<or> fs sub = None \<and> extract_descend h (fs(sub := Some Directory)) sub segs = (r, fs')
        \<or> fs sub = Some Directory \<and> extract_descend h fs sub segs = (r, fs')"
      using Cons.prems(1) unfolding eq sub_def [symmetric]
      by (cases "length seg \<ge> OS_PATH_MAX"; cases "fs sub = None"; cases "h_mkdir h sub"; cases "h_open h sub";
          cases "fs sub = Some Directory") simp_all
    then show ?thesis
      unfolding sub_def
    proof (elim disjE conjE)
      assume "fs' = fs" "r = None"
      then show ?thesis by simp
    next
      assume n: "fs ?sub = None" and e: "r = None" "fs' = ?gs"
      have "kept_outside dest fs ?gs" by (rule kept_outside_update [OF pl(1) Cons.prems(4)]) (simp add: n)
      moreover have "?gs q = fs q" if "fs q \<noteq> None" for q using n that by auto
      ultimately show ?thesis unfolding descended_def e by blast
    next
      assume n: "fs ?sub = None" and d: "extract_descend h ?gs ?sub segs = (r, fs')"
      have "\<forall>k \<le> length ss. ?gs (below dest (take k ss)) = Some Directory" using Cons.prems(4) n by auto
      from step [OF d fun_upd_same this] have dd: "descended dest ?gs (ss @ seg # segs) r fs'" .
      show ?thesis
        by (rule descended_trans [OF kept_outside_update [OF pl(1) Cons.prems(4)] _ dd]) (use n in auto)
    next
      assume "fs ?sub = Some Directory" "extract_descend h fs ?sub segs = (r, fs')"
      from step [OF this(2,1) Cons.prems(4)] show ?thesis .
    qed
  qed
qed simp

text \<open>The way is determined by the path it leads to.\<close>

lemma segments_chain: "list_all (\<lambda>c. \<not> is_sep c) s \<Longrightarrow> list_all plain_segment ss \<Longrightarrow>
    segments (s @ concat (map ((#) 0x2F) ss)) = s # ss"
proof (induction ss arbitrary: s)
  case Nil
  then show ?case by (simp add: segments_def split_at_whole list_all_iff)
next
  case (Cons t ss)
  have "segments (s @ 0x2F # (t @ concat (map ((#) 0x2F) ss))) = s # segments (t @ concat (map ((#) 0x2F) ss))"
    using Cons.prems(1) unfolding segments_def by (intro split_at_piece) (auto simp: list_all_iff is_sep_def)
  with Cons show ?case by (simp add: plain_segment_def)
qed

lemma below_concat:
  "list_all plain_segment ss \<Longrightarrow> ss \<noteq> [] \<Longrightarrow> below dest ss = (if dest = [0x2F] then [] else dest) @ concat (map ((#) 0x2F) ss)"
proof (induction ss arbitrary: dest)
  case (Cons s ss)
  have ne: "member_path dest s \<noteq> [0x2F]"
    using Cons.prems(1) by (cases dest) (auto simp: member_path_def plain_segment_def)
  show ?case
  proof (cases ss)
    case Nil
    then show ?thesis by (simp add: member_path_def)
  next
    case (Cons t ts)
    with Cons.IH [of "member_path dest s"] Cons.prems ne show ?thesis by (simp add: member_path_def)
  qed
qed simp

lemma below_inj:
  assumes "below dest ss = below dest ts" "list_all plain_segment ss" "list_all plain_segment ts" "ss \<noteq> []" "ts \<noteq> []"
  shows "ss = ts"
proof -
  have "concat (map ((#) 0x2F) ss) = concat (map ((#) 0x2F) ts)"
    using assms(1) below_concat [OF assms(2,4)] below_concat [OF assms(3,5)] by (simp split: if_splits)
  then have "[] # ss = [] # ts" using segments_chain [of "[]" ss] segments_chain [of "[]" ts] assms(2,3) by simp
  then show ?thesis by simp
qed

text \<open>Opening the target of an accepted name, and closing it.\<close>

lemma open_target_spec:
  assumes "pakka_platform_open_extract_target h fs dest n = (r, fs')" "list_all plain_segment (segments n)"
  shows "descended dest fs (segments n) r fs'"
proof (cases "open_directory h fs dest")
  case True
  then have d: "fs dest = Some Directory" "extract_descend h fs (below dest []) (segments n) = (r, fs')"
    using assms(1) by (simp_all add: pakka_platform_open_extract_target_def open_directory_def)
  from extract_descend_spec [OF d(2)] assms(2) d(1) show ?thesis by (simp add: segments_def)
next
  case False
  with assms(1) show ?thesis by (simp add: pakka_platform_open_extract_target_def)
qed

lemma close_target_spec:
  assumes "close_target h fs p f = (closed, fs')" "fs p = Some (Regular b) \<or> fs p = Some Special"
  shows "(\<forall>q. q \<noteq> p \<longrightarrow> fs' q = fs q)
    \<and> (if fs p = Some Special then fs' = fs else (\<exists>b. fs' p = Some (Regular b)) \<and> (closed \<longrightarrow> fs' p = Some (Regular (f_data f))))"
  using assms by (auto simp: close_target_def publish_def split: if_splits)

end
