(* ===== verification/Cli_Extract.thy ===== *)
theory Cli_Extract
  imports Cli_List Extract_Target Session
begin

text \<open>
  Extraction by the command line tool (\<^verbatim>\<open>op_extract\<close> of \<^verbatim>\<open>src/cli.c\<close>): the destination, the choice of the
  entries, the refusal of unsafe and of colliding names, and the writing of the files.
\<close>

section \<open>The code\<close>

text \<open>\<^verbatim>\<open>realpath\<close> and \<^verbatim>\<open>getcwd\<close> name no link, so that \<^verbatim>\<open>stat\<close> finds a directory where there is one.\<close>

definition extract_destination :: "host \<Rightarrow> files \<Rightarrow> path option \<Rightarrow> path cli" where
  "extract_destination h fs destination =
     (if h_oom h C_destination then Exit 1
      else
        (case (case destination of Some d \<Rightarrow> h_realpath h d | None \<Rightarrow> h_cwd h) of
           None \<Rightarrow> Exit 1
         | Some realdest \<Rightarrow>
             if pakka_platform_lstat (h_env h) fs realdest \<noteq> Some Directory then Exit 1 else Go realdest))"

text \<open>One entry against the paths: whether it is chosen, and \<^verbatim>\<open>path_matched\<close> afterwards.\<close>

fun match_paths :: "bool \<Rightarrow> cstring \<Rightarrow> path list \<Rightarrow> bool list \<Rightarrow> bool \<times> bool list" where
  "match_paths wad name (p # paths) (m # path_matched) =
     (let (matched, rest) = match_paths wad name paths path_matched in
      if name = p \<and> \<not> (wad \<and> m) then (True, True # rest) else (matched, m # rest))"
| "match_paths wad name _ path_matched = (False, path_matched)"

fun select_entries :: "bool \<Rightarrow> path list \<Rightarrow> pentry list \<Rightarrow> bool list \<Rightarrow> (bool list \<times> bool list) cli" where
  "select_entries wad paths [] path_matched = Go ([], path_matched)"
| "select_entries wad paths (entry # rest) path_matched =
     (let name = filename entry;
          (matched, path_matched) =
            (if paths = [] then (True, path_matched) else match_paths wad name paths path_matched)
      in if matched \<and> pakka_unsafe_entry_name (Some name) \<noteq> Ok False then Exit 1
         else cli_bind (select_entries wad paths rest path_matched)
           (\<lambda>(should_extract, path_matched). Go (matched # should_extract, path_matched)))"

definition substituted :: "cstring \<Rightarrow> cstring option" where
  "substituted name =
     (let n = PAKKA_ENTRY_NAME_SIZE * 4 + 1 in
      case pakka_utf8_substitute_invalid name (replicate n 0) n 0x5F of
        Ok (True, sanitized) \<Rightarrow> Some (cstr sanitized)
      | _ \<Rightarrow> None)"

definition disk_name :: "cstring \<Rightarrow> cstring" where
  "disk_name name = (case substituted name of Some sanitized \<Rightarrow> sanitized | None \<Rightarrow> name)"

fun extract_norms :: "host \<Rightarrow> nat \<Rightarrow> pentry list \<Rightarrow> cstring list cli" where
  "extract_norms h k [] = Go []"
| "extract_norms h k (entry # rest) =
     (let cmp_name = disk_name (filename entry); cmp_len = length cmp_name in
      if h_oom h (C_norm k) then Exit 1
      else (case pakka_normalize_entry_name cmp_name (replicate (cmp_len + 1) 0) (cmp_len + 1) of
          Ok norm \<Rightarrow> cli_bind (extract_norms h (k + 1) rest) (\<lambda>norms. Go (cstr norm # norms))
        | _ \<Rightarrow> Exit 1))"

definition check_collisions :: "host \<Rightarrow> pentry list \<Rightarrow> unit cli" where
  "check_collisions h selected =
     (if length selected > 1 then
        (if h_oom h C_norms then Exit 1
         else cli_bind (extract_norms h 0 selected) (\<lambda>norms.
           if adjacent_equal (sort norms) then Exit 1 else Go ()))
      else Go ())"

text \<open>The three passes that choose; the result is the list of the entries to be written.\<close>

definition extract_preflight :: "host \<Rightarrow> archive \<Rightarrow> path list \<Rightarrow> pentry list cli" where
  "extract_preflight h pak paths =
     (if h_oom h C_select then Exit 1
      else if paths \<noteq> [] \<and> h_oom h C_match then Exit 1
      else cli_bind (select_entries (pakka_format_is_wad (format pak)) paths (entries pak)
             (replicate (length paths) False)) (\<lambda>(should_extract, path_matched).
        if \<not> list_all (\<lambda>m. m) path_matched then Exit 1
        else
          (let selected = map fst (filter snd (zip (entries pak) should_extract))
           in cli_bind (check_collisions h selected) (\<lambda>_. Go selected))))"

text \<open>The loop that copies an entry into its file; \<open>None\<close> is the result of a loop that does not end. The
  result says whether the end was reached without an error.\<close>

partial_function (option) extract_copy ::
  "zip_ops \<Rightarrow> reader option \<Rightarrow> archive option \<Rightarrow> cfile \<Rightarrow> (bool \<times> archive option \<times> cfile) option" where
  "extract_copy Z rd archive tfd =
     (let (s, buf, rd, archive) = pakka_reader_read Z rd archive PAKFILE_COPY_CHUNK in
      if s \<noteq> PAKKA_OK then Some (False, archive, tfd)
      else if buf = [] then Some (True, archive, tfd)
      else
        (let (nwritten, tfd) = fwrite tfd buf
         in if nwritten \<noteq> length buf then Some (False, archive, tfd)
            else extract_copy Z rd archive tfd))"

declare extract_copy.simps [code]

text \<open>One entry: open the target, copy unless the entry is empty, close. A failure ends the process after
  the target was closed.\<close>

definition extract_entry ::
  "zip_ops \<Rightarrow> host \<Rightarrow> path \<Rightarrow> pentry \<Rightarrow> archive option \<Rightarrow> files \<Rightarrow> (bool \<times> archive option \<times> files) option" where
  "extract_entry Z h realdest entry archive fs =
     (case pakka_platform_open_extract_target h fs realdest (disk_name (filename entry)) of
        (None, fs1) \<Rightarrow> Some (False, archive, fs1)
      | (Some (target, tfd), fs1) \<Rightarrow>
          Option.bind
            (if pakka_entry_size (Some entry) > 0 then
               (let (s, rd, archive) = pakka_open_entry_handle Z (h_env h) fs1 archive (Some entry)
                in if s \<noteq> PAKKA_OK then Some (False, archive, tfd) else extract_copy Z rd archive tfd)
             else Some (True, archive, tfd))
            (\<lambda>(copied, archive, tfd).
               let (closed, fs2) = close_target h fs1 target tfd in Some (copied \<and> closed, archive, fs2)))"

fun extract_entries ::
  "zip_ops \<Rightarrow> host \<Rightarrow> path \<Rightarrow> pentry list \<Rightarrow> archive option \<Rightarrow> files \<Rightarrow> (bool \<times> archive option \<times> files) option" where
  "extract_entries Z h realdest [] archive fs = Some (True, archive, fs)"
| "extract_entries Z h realdest (entry # rest) archive fs =
     Option.bind (extract_entry Z h realdest entry archive fs) (\<lambda>(written, archive, fs).
       if \<not> written then Some (False, archive, fs) else extract_entries Z h realdest rest archive fs)"

definition op_extract ::
  "zip_ops \<Rightarrow> host \<Rightarrow> archive \<Rightarrow> path option \<Rightarrow> path list \<Rightarrow> files \<Rightarrow> (unit cli \<times> archive option \<times> files) option" where
  "op_extract Z h pak destination paths fs =
     (case extract_destination h fs destination of
        Exit n \<Rightarrow> Some (Exit n, Some pak, fs)
      | Go realdest \<Rightarrow>
          if pakka_entry_count (Some pak) = 0 then
            Some (if paths \<noteq> [] then Exit 1 else Go (), Some pak, fs)
          else
            (case extract_preflight h pak paths of
               Exit n \<Rightarrow> Some (Exit n, Some pak, fs)
             | Go selected \<Rightarrow>
                 Option.bind (extract_entries Z h realdest selected (Some pak) fs) (\<lambda>(written, archive, fs).
                   Some (if written then Go () else Exit 1, archive, fs))))"

end
