(* ===== verification/Cli_Run.thy ===== *)
theory Cli_Run
  imports Cli_Options Cli_Extract Pak_Verify
begin

text \<open>
  The command line tool as a whole (\<^verbatim>\<open>src/cli.c\<close>): adding files and folders, removing, verifying, and
  \<^verbatim>\<open>cli_run\<close>, which opens or creates the archive, carries out the operation and closes.

  What the tool prints besides the two listings is not modelled. A process that ends while its archive
  is open still writes out the buffers of the stream, as \<^verbatim>\<open>exit\<close> of the C library does; it does not
  commit.
\<close>

section \<open>Adding\<close>

definition ADD_FOLDER_MAX_DEPTH :: nat where "ADD_FOLDER_MAX_DEPTH = 100"

definition build_filename :: "nat \<Rightarrow> path \<Rightarrow> cstring \<Rightarrow> path option" where
  "build_filename dest_size basedir name =
     (let needs_sep = (basedir \<noteq> [] \<and> last basedir \<noteq> 0x2F \<and> last basedir \<noteq> 0x5C);
          dest = basedir @ (if needs_sep then [0x2F] else []) @ name
      in if length dest \<ge> dest_size then None else Some dest)"

text \<open>\<^verbatim>\<open>pakka_add_file\<close> followed by \<^verbatim>\<open>fail_from_err\<close>.\<close>

definition cli_add_file ::
  "zip_ops \<Rightarrow> host \<Rightarrow> files \<Rightarrow> archive option \<Rightarrow> path \<Rightarrow> cstring \<Rightarrow> unit cli \<times> archive option" where
  "cli_add_file Z h fs pak source name =
     (let (s, pak) = pakka_add_file Z (h_env h) fs pak (Some source) (Some name)
      in (if s \<noteq> PAKKA_OK then Exit 1 else Go (), pak))"

text \<open>What decreases in a walk: the depth is bounded, so it ends even where the folders form a cycle.\<close>

fun walk_rank ::
  "(zip_ops \<times> host \<times> files \<times> path \<times> nat \<times> archive option)
   + (zip_ops \<times> host \<times> files \<times> path \<times> nat \<times> cstring list \<times> bool \<times> archive option) \<Rightarrow> nat \<times> nat" where
  "walk_rank (Inl (_, _, _, _, depth, _)) = (2 * (ADD_FOLDER_MAX_DEPTH - depth), 0)"
| "walk_rank (Inr (_, _, _, _, depth, names, _, _)) =
     (if ADD_FOLDER_MAX_DEPTH \<le> depth then 1 else 2 * (ADD_FOLDER_MAX_DEPTH - depth) - 1, length names)"

text \<open>The folder and the loop over what \<^verbatim>\<open>readdir\<close> hands out. A name that does not fit the buffer ends the
  loop like an error of the system.\<close>

function cli_add_folder_r ::
  "zip_ops \<Rightarrow> host \<Rightarrow> files \<Rightarrow> path \<Rightarrow> nat \<Rightarrow> archive option \<Rightarrow> unit cli \<times> archive option"
and add_folder_loop ::
  "zip_ops \<Rightarrow> host \<Rightarrow> files \<Rightarrow> path \<Rightarrow> nat \<Rightarrow> cstring list \<Rightarrow> bool \<Rightarrow> archive option \<Rightarrow> unit cli \<times> archive option" where
  "cli_add_folder_r Z h fs path depth pak =
     (if depth \<ge> ADD_FOLDER_MAX_DEPTH then (Exit 1, pak)
      else (case h_readdir h fs path of
          None \<Rightarrow> (Exit 1, pak)
        | Some (names, failed) \<Rightarrow> add_folder_loop Z h fs path depth names failed pak))"
| "add_folder_loop Z h fs path depth [] failed pak = (if failed then Exit 1 else Go (), pak)"
| "add_folder_loop Z h fs path depth (name # names) failed pak =
     (if length name + 1 > OS_PATH_MAX then (Exit 1, pak)
      else if name = ascii ''..'' \<or> name = ascii ''.'' then add_folder_loop Z h fs path depth names failed pak
      else (case build_filename OS_PATH_MAX path name of
          None \<Rightarrow> (Exit 1, pak)
        | Some tmp \<Rightarrow>
            if pakka_platform_is_reparse_or_symlink (h_env h) fs tmp
            then add_folder_loop Z h fs path depth names failed pak
            else (case pakka_platform_lstat (h_env h) fs tmp of
                None \<Rightarrow> (Exit 1, pak)
              | Some sb \<Rightarrow>
                  (let (r, pak) =
                     (case sb of
                        Directory \<Rightarrow> cli_add_folder_r Z h fs tmp (depth + 1) pak
                      | Regular _ \<Rightarrow> cli_add_file Z h fs pak tmp tmp
                      | _ \<Rightarrow> (Go (), pak))
                   in case r of
                        Exit n \<Rightarrow> (Exit n, pak)
                      | Go _ \<Rightarrow> add_folder_loop Z h fs path depth names failed pak))))"
  by pat_completeness auto

termination
  by (relation "measures [\<lambda>x. fst (walk_rank x), \<lambda>x. snd (walk_rank x)]") auto

definition cli_add_path ::
  "zip_ops \<Rightarrow> host \<Rightarrow> files \<Rightarrow> archive option \<Rightarrow> path \<Rightarrow> unit cli \<times> archive option" where
  "cli_add_path Z h fs pak path =
     (if pakka_platform_is_reparse_or_symlink (h_env h) fs path then (Exit 1, pak)
      else (case pakka_platform_lstat (h_env h) fs path of
          None \<Rightarrow> (Exit 1, pak)
        | Some Directory \<Rightarrow> cli_add_folder_r Z h fs path 0 pak
        | Some (Regular _) \<Rightarrow> cli_add_file Z h fs pak path path
        | Some _ \<Rightarrow> (Exit 1, pak)))"

text \<open>A loop that carries the archive along and stops at the first failure.\<close>

fun cli_each :: "('a \<Rightarrow> archive option \<Rightarrow> unit cli \<times> archive option) \<Rightarrow> 'a list \<Rightarrow> archive option
    \<Rightarrow> unit cli \<times> archive option" where
  "cli_each act [] pak = (Go (), pak)"
| "cli_each act (x # xs) pak =
     (case act x pak of (Exit n, pak) \<Rightarrow> (Exit n, pak) | (Go _, pak) \<Rightarrow> cli_each act xs pak)"

definition cli_commit :: "zip_ops \<Rightarrow> host \<Rightarrow> files \<Rightarrow> archive option \<Rightarrow> unit cli \<times> archive option \<times> files" where
  "cli_commit Z h fs pak =
     (let (s, pak, fs) = pakka_commit Z (h_env h) fs pak in (if s \<noteq> PAKKA_OK then Exit 1 else Go (), pak, fs))"

definition op_add ::
  "zip_ops \<Rightarrow> host \<Rightarrow> files \<Rightarrow> archive option \<Rightarrow> path list \<Rightarrow> (cstring \<times> path) list
    \<Rightarrow> unit cli \<times> archive option \<times> files" where
  "op_add Z h fs pak paths aliased =
     (case cli_each (\<lambda>path pak. cli_add_path Z h fs pak path) paths pak of
        (Exit n, pak) \<Rightarrow> (Exit n, pak, fs)
      | (Go _, pak) \<Rightarrow>
          (case cli_each (\<lambda>(entry, source) pak. cli_add_file Z h fs pak source entry) aliased pak of
             (Exit n, pak) \<Rightarrow> (Exit n, pak, fs)
           | (Go _, pak) \<Rightarrow> cli_commit Z h fs pak))"

section \<open>Removing and verifying\<close>

definition op_remove ::
  "zip_ops \<Rightarrow> host \<Rightarrow> files \<Rightarrow> archive option \<Rightarrow> path list \<Rightarrow> unit cli \<times> archive option \<times> files" where
  "op_remove Z h fs pak paths =
     (case cli_each (\<lambda>name pak. let (s, pak) = pakka_delete pak (Some name) in (if s \<noteq> PAKKA_OK then Exit 1 else Go (), pak))
        paths pak of
        (Exit n, pak) \<Rightarrow> (Exit n, pak, fs)
      | (Go _, pak) \<Rightarrow> cli_commit Z h fs pak)"

text \<open>After a failed check the archive is closed before the process ends.\<close>

definition op_verify ::
  "zip_ops \<Rightarrow> host \<Rightarrow> files \<Rightarrow> archive option \<Rightarrow> bool \<Rightarrow> unit cli \<times> archive option \<times> files" where
  "op_verify Z h fs pak deep =
     (let (s, reports, pak) = pakka_verify Z (h_env h) pak (if deep then 1 else 0) in
      if s \<noteq> PAKKA_OK then (let (_, fs) = pakka_close Z (h_env h) fs pak in (Exit 1, None, fs))
      else (Go (), pak, fs))"

section \<open>The process\<close>

text \<open>What \<^verbatim>\<open>exit\<close> does to the stream of an archive that is still open.\<close>

definition exit_flush :: "host \<Rightarrow> archive option \<Rightarrow> files \<Rightarrow> files" where
  "exit_flush h archive fs =
     (case archive of
        None \<Rightarrow> fs
      | Some a \<Rightarrow> (case fp a of
            Some f \<Rightarrow> if writable a then snd (publish (h_env h) fs (pak_path a) f) else fs
          | None \<Rightarrow> fs))"

text \<open>The switch over the mode, with the listing it writes.\<close>

definition run_mode ::
  "zip_ops \<Rightarrow> host \<Rightarrow> opts \<Rightarrow> cli_mode \<Rightarrow> archive \<Rightarrow> files \<Rightarrow> (unit cli \<times> u8 list \<times> archive option \<times> files) option" where
  "run_mode Z h opts mode pak fs =
     (case mode of
        PAK_LIST \<Rightarrow>
          Some (if opt_tree opts
                then (case op_list_tree pak of Exit n \<Rightarrow> (Exit n, [], Some pak, fs) | Go out \<Rightarrow> (Go (), out, Some pak, fs))
                else (Go (), op_list pak, Some pak, fs))
      | PAK_EXTRACT \<Rightarrow>
          map_option (\<lambda>(r, archive, fs). (r, [], archive, fs)) (op_extract Z h pak (opt_destination opts) (opt_paths opts) fs)
      | PAK_REMOVE \<Rightarrow> (let (r, archive, fs) = op_remove Z h fs (Some pak) (opt_paths opts) in Some (r, [], archive, fs))
      | PAK_VERIFY \<Rightarrow> (let (r, archive, fs) = op_verify Z h fs (Some pak) (opt_deep opts) in Some (r, [], archive, fs))
      | _ \<Rightarrow> (let (r, archive, fs) = op_add Z h fs (Some pak) (opt_paths opts) (opt_aliased opts)
              in Some (r, [], archive, fs)))"

text \<open>The checks of \<^verbatim>\<open>--compress\<close> before any file is opened.\<close>

definition compress_refused :: "opts \<Rightarrow> cli_mode \<Rightarrow> bool" where
  "compress_refused opts mode \<longleftrightarrow> opt_compress opts
     \<and> (mode \<noteq> PAK_CREATE \<and> mode \<noteq> PAK_ADD
        \<or> opt_format opts \<in> {PAKKA_FORMAT_PAK, PAKKA_FORMAT_SIN, PAKKA_FORMAT_DAIKATANA, PAKKA_FORMAT_IWAD, PAKKA_FORMAT_PWAD})"

definition cli_open :: "zip_ops \<Rightarrow> host \<Rightarrow> files \<Rightarrow> opts \<Rightarrow> cli_mode \<Rightarrow> path \<Rightarrow> status \<times> archive option \<times> files" where
  "cli_open Z h fs opts mode pakfile =
     (if mode = PAK_CREATE then
        pakka_create Z (h_env h) fs (Some pakfile)
          (Some (if opt_format opts = PAKKA_FORMAT_AUTO then sniff_format pakfile else opt_format opts)) 0
      else
        (let (s, pak) = pakka_open_ex Z (h_env h) fs (Some pakfile)
               (Some (if mode = PAK_ADD \<or> mode = PAK_REMOVE then PAKKA_OPEN_READ_WRITE_ATOMIC else PAKKA_OPEN_READ))
               (Some (opt_format opts))
         in (s, pak, fs)))"

definition run_opts :: "zip_ops \<Rightarrow> host \<Rightarrow> opts \<Rightarrow> files \<Rightarrow> (nat \<times> u8 list \<times> files) option" where
  "run_opts Z h opts fs =
     (case (opt_mode opts, opt_pakfile opts) of
        (Some mode, Some pakfile) \<Rightarrow>
          if compress_refused opts mode then Some (1, [], fs)
          else
            (let (s, pak, fs) = cli_open Z h fs opts mode pakfile in
             case pak of
               Some a \<Rightarrow>
                 if s \<noteq> PAKKA_OK then Some (1, [], fs)
                 else
                   (let (s, pak) = (if opt_compress opts then pakka_set_compression pak 8 else (PAKKA_OK, pak)) in
                    if s \<noteq> PAKKA_OK then Some (1, [], exit_flush h pak fs)
                    else
                      Option.bind (run_mode Z h opts mode (the pak) fs) (\<lambda>(r, out, pak, fs).
                        case r of
                          Exit n \<Rightarrow> Some (n, out, exit_flush h pak fs)
                        | Go _ \<Rightarrow>
                            (let (s, fs) = pakka_close Z (h_env h) fs pak
                             in Some (if s \<noteq> PAKKA_OK then 1 else 0, out, fs))))
             | None \<Rightarrow> Some (1, [], fs))
      | _ \<Rightarrow> Some (1, [], fs))"

text \<open>\<^verbatim>\<open>main\<close>. \<open>permute\<close> and \<open>oom\<close> are those of \<open>parseopts\<close>; the result is the exit status, the listing and
  the files.\<close>

definition cli_run ::
  "zip_ops \<Rightarrow> bool \<Rightarrow> (nat \<Rightarrow> bool) \<Rightarrow> host \<Rightarrow> cstring list \<Rightarrow> files \<Rightarrow> (nat \<times> u8 list \<times> files) option" where
  "cli_run Z permute oom h argv fs =
     (case parseopts permute oom argv no_opts of
        Exit n \<Rightarrow> Some (n, [], fs)
      | Go opts \<Rightarrow> run_opts Z h opts fs)"

end
