(* ===== verification/Extract_Props.thy ===== *)
theory Extract_Props
  imports Cli_Extract
begin

text \<open>
  What an extraction does: it chooses the right entries, never writes outside the destination, returns,
  and when it succeeds every chosen entry is in a file of its own with its contents.
\<close>

section \<open>Names on disk\<close>

definition subst_byte :: "u8 \<Rightarrow> u8 \<Rightarrow> u8 \<Rightarrow> bool" where
  "subst_byte fill a b \<longleftrightarrow> b = a \<or> 0x80 \<le> a \<and> b = fill"

lemma seq_len_zero_high: "pakka_utf8_seq_len s n = Ok 0 \<Longrightarrow> n \<noteq> 0 \<Longrightarrow> s \<noteq> [] \<Longrightarrow> 0x80 \<le> s ! 0"
  by (auto simp: pakka_utf8_seq_len_def mem_load_def not_less split: if_splits)

lemma subst_loop_bytes:
  "utf8_subst_loop src (length src) cap fill i i sub dst = Ok (k, sub', d) \<Longrightarrow> i \<le> length src \<Longrightarrow> length src < cap \<Longrightarrow>
   cap \<le> length dst \<Longrightarrow> list_all2 (subst_byte fill) (take i src) (take i dst) \<Longrightarrow>
   k = length src \<and> list_all2 (subst_byte fill) src (take k d) \<and> length d = length dst"
proof (induction "length src - i" arbitrary: i sub dst rule: less_induct)
  case less
  show ?case
  proof (cases "i < length src")
    case False
    with less.prems show ?thesis by (auto simp: utf8_subst_loop.simps)
  next
    case True
    obtain m where m: "pakka_utf8_seq_len (drop i src) (length src - i) = Ok m" "m \<le> length src - i"
      using seq_len_total [of "length src - i" "drop i src"] by auto
    show ?thesis
    proof (cases "m = 0")
      case z: True
      have rest: "utf8_subst_loop src (length src) cap fill (i + 1) (i + 1) True (dst[i := fill]) = Ok (k, sub', d)"
        using less.prems True z m by (subst (asm) utf8_subst_loop.simps) (simp add: mem_store_ok)
      have "0x80 \<le> src ! i" using seq_len_zero_high [OF m(1) [unfolded z]] True by simp
      then have "list_all2 (subst_byte fill) (take (i + 1) src) (take (i + 1) (dst[i := fill]))"
        using less.prems True by (simp add: take_Suc_conv_app_nth list_all2_append subst_byte_def)
      moreover have "length src - (i + 1) < length src - i" using True by simp
      ultimately show ?thesis using less.hyps [OF _ rest] less.prems True by auto
    next
      case nz: False
      let ?d = "take i dst @ take m (drop i src) @ drop (i + m) dst"
      have c: "mem_copy dst i src i m = Ok ?d" using m(2) True less.prems by (simp add: mem_copy_ok)
      have fits: "\<not> cap \<le> i + m" using m(2) True less.prems(3) by linarith
      have rest: "utf8_subst_loop src (length src) cap fill (i + m) (i + m) sub ?d = Ok (k, sub', d)"
        using fits less.prems True nz m c by (subst (asm) utf8_subst_loop.simps) simp
      have t: "take (i + m) ?d = take i dst @ take m (drop i src)" using m(2) True less.prems by simp
      have ref: "list_all2 (subst_byte fill) xs xs" for xs
        by (rule list_all2_refl) (simp add: subst_byte_def)
      have "list_all2 (subst_byte fill) (take (i + m) src) (take (i + m) ?d)"
        unfolding t take_add [of i m src] by (rule list_all2_appendI [OF less.prems(5) ref])
      moreover have "length src - (i + m) < length src - i" "i + m \<le> length src" "length ?d = length dst"
        using nz m(2) True less.prems(3,4) by simp_all
      ultimately show ?thesis using less.hyps [OF _ rest] less.prems(3,4) by auto
    qed
  qed
qed

lemma disk_name_bytes:
  assumes s: "c_string s" "length s < PAKKA_ENTRY_NAME_SIZE"
  shows "list_all2 (subst_byte 0x5F) s (disk_name s)"
proof -
  let ?n = "PAKKA_ENTRY_NAME_SIZE * 4 + 1"
  have ref: "list_all2 (subst_byte 0x5F) s s" by (rule list_all2_refl) (simp add: subst_byte_def)
  have l: "length s < ?n" "0 < ?n" using s(2) by simp_all
  obtain sub d where r: "pakka_utf8_substitute_invalid s (replicate ?n 0) ?n 0x5F = Ok (sub, d)"
    using utf8_substitute_spec [of s ?n "replicate ?n 0" "0x5F"] s(1) by auto
  show ?thesis
  proof (cases sub)
    case False
    with r ref show ?thesis by (simp add: disk_name_def substituted_def Let_def)
  next
    case True
    obtain k sub' d1 where k: "utf8_subst_loop s (length s) ?n 0x5F 0 0 False (replicate ?n 0) = Ok (k, sub', d1)"
      "d = d1[(if k < ?n then k else ?n - 1) := 0]" "k < ?n \<longrightarrow> k < length d1"
      using r l by (auto simp: pakka_utf8_substitute_invalid_def cbind_Ok_iff mem_store_def split: if_splits prod.splits)
    from subst_loop_bytes [OF k(1) _ l(1)] have K: "k = length s" "list_all2 (subst_byte 0x5F) s (take k d1)"
      "length d1 = ?n" by auto
    have "list_all2 (subst_byte 0x5F) s t \<Longrightarrow> 0 \<notin> set t" for t
    proof
      assume a: "list_all2 (subst_byte 0x5F) s t" "0 \<in> set t"
      then obtain i where "i < length t" "t ! i = 0" by (auto simp: in_set_conv_nth)
      with a(1) have "s ! i = 0" "i < length s" by (auto simp: list_all2_conv_all_nth subst_byte_def)
      with s(1) show False unfolding c_string_def by (metis nth_mem)
    qed
    with K have "0 \<notin> set (take k d1)" by blast
    then have "cstr d = take k d1"
      using k(2) K l cstr_append_nul [of "take k d1" "drop (Suc k) d1"]
      by (simp add: upd_conv_take_nth_drop c_string_def)
    with r True K(2) show ?thesis by (simp add: disk_name_def substituted_def Let_def)
  qed
qed

lemma subst_split:
  "list_all2 (subst_byte 0x5F) s t \<Longrightarrow> list_all2 (list_all2 (subst_byte 0x5F)) (segments s) (segments t)"
  unfolding segments_def
proof (induction s t rule: list_all2_induct)
  case (Cons a s b t)
  have "is_sep b = is_sep a" using Cons(1) by (auto simp: subst_byte_def is_sep_def)
  with Cons show ?case by (cases "split_at is_sep s"; cases "split_at is_sep t") auto
qed simp

lemma subst_same: "list_all2 (subst_byte fill) x y \<Longrightarrow> fill \<notin> set y \<Longrightarrow> y = x"
  by (induction x y rule: list_all2_induct) (auto simp: subst_byte_def)

lemma subst_base_name: "list_all2 (subst_byte 0x5F) x y \<Longrightarrow> list_all2 (subst_byte 0x5F) (base_name x) (base_name y)"
  unfolding base_name_def by (induction x y rule: list_all2_induct) (auto simp: subst_byte_def)

lemma reserved_plain: "z \<in> set win_reserved_names \<Longrightarrow> 0x5F \<notin> set z"
  by (auto simp: win_reserved_names_def ascii_def)

lemma subst_safe_segment:
  assumes r: "list_all2 (subst_byte 0x5F) x y" and safe: "safe_segment x"
  shows "safe_segment y"
proof -
  have S: "x \<noteq> []" "\<And>c. c \<in> set x \<Longrightarrow> 0x20 \<le> c \<and> c \<noteq> 0x7F \<and> c \<noteq> 0x3A" "\<not> dots_or_spaces (last x)"
    "map upper (base_name x) \<notin> set win_reserved_names"
    using safe unfolding safe_segment_def by blast+
  have l: "length x = length y" using r by (rule list_all2_lengthD)
  have ne: "y \<noteq> []" using S(1) l by auto
  have b: "y ! i = x ! i \<or> 0x80 \<le> x ! i \<and> y ! i = 0x5F" if "i < length y" for i
    using r that by (auto simp: list_all2_conv_all_nth subst_byte_def)
  have "0x20 \<le> c \<and> c \<noteq> 0x7F \<and> c \<noteq> 0x3A" if "c \<in> set y" for c
  proof -
    from that obtain i where i: "i < length y" "c = y ! i" by (auto simp: in_set_conv_nth)
    with S(2) [of "x ! i"] l b [OF i(1)] show ?thesis by (cases "y ! i = x ! i") simp_all
  qed
  moreover have "\<not> dots_or_spaces (last y)"
  proof -
    have "last y = last x \<or> last y = 0x5F" using b [of "length y - 1"] ne S(1) l by (auto simp: last_conv_nth)
    with S(3) show ?thesis by (elim disjE) (simp_all add: dots_or_spaces_def)
  qed
  moreover have "map upper (base_name y) \<notin> set win_reserved_names"
  proof
    assume res: "map upper (base_name y) \<in> set win_reserved_names"
    have "0x5F \<notin> set (base_name y)"
    proof
      assume "0x5F \<in> set (base_name y)"
      then have "upper 0x5F \<in> upper ` set (base_name y)" by (rule imageI)
      then have "0x5F \<in> set (map upper (base_name y))" by (simp add: upper_def)
      with reserved_plain [OF res] show False by (rule notE)
    qed
    with subst_same [OF subst_base_name [OF r]] have "base_name y = base_name x" .
    with res S(4) show False by simp
  qed
  ultimately show ?thesis using ne unfolding safe_segment_def by blast
qed

definition name_ok :: "cstring \<Rightarrow> bool" where
  "name_ok n \<longleftrightarrow> c_string n \<and> length n < PAKKA_ENTRY_NAME_SIZE"

lemma disk_name_safe:
  assumes "name_ok n" "safe_name n"
  shows "safe_name (disk_name n) \<and> c_string (disk_name n) \<and> list_all plain_segment (segments (disk_name n))"
proof -
  have r: "list_all2 (subst_byte 0x5F) n (disk_name n)" using disk_name_bytes assms(1) by (simp add: name_ok_def)
  have s: "safe_name (disk_name n)"
    unfolding safe_name_def
  proof
    fix y assume "y \<in> set (segments (disk_name n))"
    then obtain i where i: "i < length (segments (disk_name n))" "y = segments (disk_name n) ! i"
      by (auto simp: in_set_conv_nth)
    with subst_split [OF r] have "i < length (segments n)" "list_all2 (subst_byte 0x5F) (segments n ! i) y"
      by (auto simp: list_all2_conv_all_nth)
    with subst_safe_segment assms(2) show "safe_segment y" by (auto simp: safe_name_def)
  qed
  moreover have "c_string (disk_name n)"
    using r assms(1) by (auto simp: c_string_def name_ok_def list_all2_conv_all_nth subst_byte_def in_set_conv_nth)
  moreover have "list_all plain_segment (segments (disk_name n))"
    using s split_at_clean [of is_sep "disk_name n"] safe_segment_plain
    by (auto simp: list_all_iff plain_segment_def safe_name_def segments_def)
  ultimately show ?thesis by simp
qed

section \<open>The choice of the entries\<close>

text \<open>All entries when no path is given; otherwise the entries with one of the names, of a WAD the first of
  each name. \<open>seen\<close> holds the names passed so far.\<close>

fun chosen :: "bool \<Rightarrow> path list \<Rightarrow> cstring set \<Rightarrow> pentry list \<Rightarrow> pentry list" where
  "chosen wad paths seen [] = []"
| "chosen wad paths seen (e # es) =
     (if paths = [] \<or> filename e \<in> set paths \<and> \<not> (wad \<and> filename e \<in> seen)
      then e # chosen wad paths (insert (filename e) seen) es
      else chosen wad paths (insert (filename e) seen) es)"

lemma chosen_subset: "set (chosen wad paths seen es) \<subseteq> set es"
  by (induction es arbitrary: seen) auto

lemma match_paths_seen:
  "match_paths wad n paths (map (\<lambda>p. p \<in> seen) paths)
     = (n \<in> set paths \<and> \<not> (wad \<and> n \<in> seen), map (\<lambda>p. p \<in> insert n seen) paths)"
  by (induction paths) auto

lemma select_entries_spec:
  "select_entries wad paths es (map (\<lambda>p. p \<in> seen) paths) = Go (sel, pm) \<Longrightarrow>
   length sel = length es \<and> map fst (filter snd (zip es sel)) = chosen wad paths seen es
   \<and> list_all (\<lambda>e. pakka_unsafe_entry_name (Some (filename e)) = Ok False) (chosen wad paths seen es)
   \<and> pm = map (\<lambda>p. p \<in> seen \<or> p \<in> filename ` set es) paths"
proof (induction es arbitrary: seen sel pm)
  case (Cons e es)
  let ?m = "paths = [] \<or> filename e \<in> set paths \<and> \<not> (wad \<and> filename e \<in> seen)"
  have eq: "(if paths = [] then (True, map (\<lambda>p. p \<in> seen) paths)
      else match_paths wad (filename e) paths (map (\<lambda>p. p \<in> seen) paths))
      = (?m, map (\<lambda>p. p \<in> insert (filename e) seen) paths)"
    by (simp add: match_paths_seen)
  from Cons.prems obtain sel' pm' where
    ok: "\<not> (?m \<and> pakka_unsafe_entry_name (Some (filename e)) \<noteq> Ok False)"
    and r: "select_entries wad paths es (map (\<lambda>p. p \<in> insert (filename e) seen) paths) = Go (sel', pm')"
    and s: "sel = ?m # sel'" "pm = pm'"
    unfolding select_entries.simps Let_def eq by (auto simp: cli_bind_Go_iff split: if_splits)
  from Cons.IH [OF r] ok s show ?case by auto
qed simp

lemma chosen_found: "list_all (\<lambda>m. m) (map (\<lambda>p. p \<in> {} \<or> p \<in> N) paths) \<longleftrightarrow> set paths \<subseteq> N"
  by (auto simp: list_all_iff)

text \<open>The files of two chosen entries are different.\<close>

definition entry_way :: "pentry \<Rightarrow> cstring list" where
  "entry_way e = segments (disk_name (filename e))"

definition entry_target :: "path \<Rightarrow> pentry \<Rightarrow> path" where
  "entry_target dest e = below dest (entry_way e)"

lemma extract_norms_ways:
  "extract_norms h k es = Go norms \<Longrightarrow> \<forall>e \<in> set es. name_ok (filename e) \<and> safe_name (filename e) \<Longrightarrow>
   norms = map (\<lambda>w. join_segments (map (\<lambda>x. rstrip (map lower x)) w)) (map entry_way es)"
proof (induction es arbitrary: k norms)
  case (Cons e es)
  let ?n = "disk_name (filename e)"
  have n: "safe_name ?n" "c_string ?n" using disk_name_safe Cons.prems(2) by auto
  obtain d norms' where d: "pakka_normalize_entry_name ?n (replicate (length ?n + 1) 0) (length ?n + 1) = Ok d"
    and r: "extract_norms h (k + 1) es = Go norms'" and e: "norms = cstr d # norms'"
    using Cons.prems(1) by (auto simp: Let_def cli_bind_Go_iff split: if_splits cres.splits)
  have "cstr d = join_segments (map (\<lambda>x. rstrip (map lower x)) (segments ?n))"
    using normalize_entry_name_spec [of ?n "length ?n + 1" "replicate (length ?n + 1) 0"] n d safe_name_last [OF n(1)]
    by auto
  then show ?case using Cons.IH [OF r] Cons.prems(2) by (simp add: e entry_way_def)
qed simp

lemma extract_preflight_spec:
  assumes r: "extract_preflight h a paths = Go sel" and ok: "\<forall>e \<in> set (entries a). name_ok (filename e)"
  shows "sel = chosen (pakka_format_is_wad (format a)) paths {} (entries a)
    \<and> set paths \<subseteq> filename ` set (entries a) \<and> (\<forall>e \<in> set sel. name_ok (filename e) \<and> safe_name (filename e))
    \<and> distinct (map entry_way sel)"
proof -
  have i: "replicate (length paths) False = map (\<lambda>p. p \<in> {}) paths" by (simp add: map_replicate_const)
  let ?c = "chosen (pakka_format_is_wad (format a)) paths {} (entries a)"
  let ?sel = "\<lambda>se. map fst (filter snd (zip (entries a) se))"
  from r have "\<exists>x. select_entries (pakka_format_is_wad (format a)) paths (entries a) (replicate (length paths) False) = Go x
      \<and> (case x of (se, pm) \<Rightarrow> if \<not> list_all (\<lambda>m. m) pm then Exit 1
           else cli_bind (check_collisions h (?sel se)) (\<lambda>_. Go (?sel se))) = Go sel"
    unfolding extract_preflight_def Let_def
    by (cases "h_oom h C_select"; cases "paths \<noteq> [] \<and> h_oom h C_match") (simp_all only: cli_bind_Go_iff if_True if_False cli.distinct simp_thms)
  then obtain se pm where
    s0: "select_entries (pakka_format_is_wad (format a)) paths (entries a) (replicate (length paths) False) = Go (se, pm)"
    and k: "(if \<not> list_all (\<lambda>m. m) pm then Exit 1
           else cli_bind (check_collisions h (?sel se)) (\<lambda>_. Go (?sel se))) = Go sel" by auto
  have p: "list_all (\<lambda>m. m) pm" using k by (cases "list_all (\<lambda>m. m) pm") simp_all
  then have k': "cli_bind (check_collisions h (?sel se)) (\<lambda>_. Go (?sel se)) = Go sel" using k by simp
  have c: "check_collisions h (?sel se) = Go ()" and e: "sel = ?sel se"
    using k' by (cases "check_collisions h (?sel se)"; simp)+
  note S = select_entries_spec [OF s0 [unfolded i]]
  have sel: "sel = ?c" using S e by simp
  have safe: "\<forall>e \<in> set sel. name_ok (filename e) \<and> safe_name (filename e)"
  proof
    fix e assume e: "e \<in> set sel"
    then have "name_ok (filename e)" using ok chosen_subset [of _ paths "{}" "entries a"] unfolding sel by blast
    moreover have "pakka_unsafe_entry_name (Some (filename e)) = Ok False" using S e unfolding sel by (simp add: list_all_iff)
    ultimately show "name_ok (filename e) \<and> safe_name (filename e)"
      using unsafe_entry_name_iff [of "filename e"] by (simp add: name_ok_def)
  qed
  have "set paths \<subseteq> filename ` set (entries a)"
    using p S chosen_found [of "filename ` set (entries a)" paths] by simp
  moreover have "distinct (map entry_way sel)"
  proof (cases "length sel > 1")
    case True
    then obtain norms where n: "extract_norms h 0 sel = Go norms" "\<not> adjacent_equal (sort norms)"
      using c e by (auto simp: check_collisions_def cli_bind_Go_iff split: if_splits)
    then have "distinct norms" using adjacent_equal_sorted [of "sort norms"] by simp
    then show ?thesis
      unfolding extract_norms_ways [OF n(1) safe] by (rule distinct_map [THEN iffD1, THEN conjunct1])
  next
    case False
    then show ?thesis by (cases sel) auto
  qed
  ultimately show ?thesis using sel safe by simp
qed

section \<open>Nothing outside the destination\<close>

lemma extract_entry_parts:
  assumes "extract_entry Z h dest e ar fs = Some (w, ar', fs')"
    and "pakka_platform_open_extract_target h fs dest (disk_name (filename e)) = (Some (p, f), fs1)"
  shows "\<exists>cp tfd closed. (if pakka_entry_size (Some e) > 0 then
               (let (s, rd, archive) = pakka_open_entry_handle Z (h_env h) fs1 ar (Some e)
                in if s \<noteq> PAKKA_OK then Some (False, archive, f) else extract_copy Z rd archive f)
             else Some (True, ar, f)) = Some (cp, ar', tfd)
     \<and> close_target h fs1 p tfd = (closed, fs') \<and> w = (cp \<and> closed)"
proof -
  from assms obtain cp ar1 tfd where
    1: "(if pakka_entry_size (Some e) > 0 then
               (let (s, rd, archive) = pakka_open_entry_handle Z (h_env h) fs1 ar (Some e)
                in if s \<noteq> PAKKA_OK then Some (False, archive, f) else extract_copy Z rd archive f)
             else Some (True, ar, f)) = Some (cp, ar1, tfd)"
    and 2: "(let (closed, fs2) = close_target h fs1 p tfd in Some (cp \<and> closed, ar1, fs2)) = Some (w, ar', fs')"
    unfolding extract_entry_def by (auto simp: bind_eq_Some_conv)
  obtain closed fs2 where "close_target h fs1 p tfd = (closed, fs2)" by fastforce
  with 1 2 show ?thesis by auto
qed

lemma extract_entry_outside:
  assumes r: "extract_entry Z h dest e ar fs = Some (w, ar', fs')" and pl: "list_all plain_segment (entry_way e)"
  shows "kept_outside dest fs fs' \<and> (\<forall>q. fs q \<noteq> None \<and> q \<noteq> entry_target dest e \<longrightarrow> fs' q = fs q)"
proof -
  obtain tgt fs1 where o1: "pakka_platform_open_extract_target h fs dest (disk_name (filename e)) = (tgt, fs1)" by fastforce
  from open_target_spec [OF o1] pl have d: "descended dest fs (entry_way e) tgt fs1" by (simp add: entry_way_def)
  show ?thesis
  proof (cases tgt)
    case None
    with r o1 d show ?thesis by (simp add: extract_entry_def descended_def entry_target_def)
  next
    case (Some pf)
    obtain p f where pf: "pf = (p, f)" by fastforce
    with d Some have D: "kept_outside dest fs fs1" "\<forall>q. fs q \<noteq> None \<and> q \<noteq> entry_target dest e \<longrightarrow> fs1 q = fs q"
      "p = entry_target dest e" "\<forall>k < length (entry_way e). fs1 (below dest (take k (entry_way e))) = Some Directory"
      "fs1 p = Some (Regular []) \<or> fs1 p = Some Special"
      by (auto simp: descended_def entry_target_def)
    obtain tfd closed where cl: "close_target h fs1 p tfd = (closed, fs')"
      using extract_entry_parts [OF r o1 [unfolded Some pf]] by blast
    note C = close_target_spec [OF cl D(5)]
    obtain ss s where ss: "entry_way e = ss @ [s]" by (cases "entry_way e" rule: rev_cases) (auto simp: entry_way_def segments_def)
    have t: "take k (entry_way e) = take k ss" if "k \<le> length ss" for k using that by (simp add: ss)
    have up: "\<forall>k \<le> length ss. fs1 (below dest (take k ss)) = Some Directory" using D(4) t by (simp add: ss less_Suc_eq_le)
    have "kept_outside dest fs1 fs'"
    proof (cases "fs1 p = Some Special")
      case True
      then have "fs' = fs1" using C by simp
      then show ?thesis by simp
    next
      case False
      then have "fs' = fs1(p := fs' p)" using C by auto
      moreover have "kept_outside dest fs1 (fs1(below dest (ss @ [s]) := fs' p))"
        using D(3,5) False pl by (intro kept_outside_update [OF _ up]) (auto simp: ss entry_target_def)
      ultimately show ?thesis using D(3) by (simp add: ss entry_target_def)
    qed
    with D(1) have "kept_outside dest fs fs'" by (rule kept_outside_trans)
    moreover have "fs' q = fs q" if "fs q \<noteq> None" "q \<noteq> entry_target dest e" for q
      using C D(2,3) that by simp
    ultimately show ?thesis by simp
  qed
qed

lemma extract_entries_outside:
  "extract_entries Z h dest es ar fs = Some (w, ar', fs') \<Longrightarrow> \<forall>e \<in> set es. list_all plain_segment (entry_way e) \<Longrightarrow>
   kept_outside dest fs fs' \<and> (\<forall>q. fs q \<noteq> None \<and> q \<notin> entry_target dest ` set es \<longrightarrow> fs' q = fs q)"
proof (induction es arbitrary: ar fs)
  case (Cons e es)
  obtain w1 ar1 fs1 where s: "extract_entry Z h dest e ar fs = Some (w1, ar1, fs1)"
    and rest: "if w1 then extract_entries Z h dest es ar1 fs1 = Some (w, ar', fs') else fs' = fs1"
    using Cons.prems(1) by (auto simp: bind_eq_Some_conv split: if_splits)
  from extract_entry_outside [OF s] Cons.prems(2)
  have k: "kept_outside dest fs fs1" "\<And>q. fs q \<noteq> None \<Longrightarrow> q \<noteq> entry_target dest e \<Longrightarrow> fs1 q = fs q" by auto
  show ?case
  proof (cases w1)
    case True
    then have r: "extract_entries Z h dest es ar1 fs1 = Some (w, ar', fs')" using rest by simp
    from Cons.IH [OF r] Cons.prems(2)
    have i: "kept_outside dest fs1 fs'" "\<And>q. fs1 q \<noteq> None \<Longrightarrow> q \<notin> entry_target dest ` set es \<Longrightarrow> fs' q = fs1 q" by auto
    have "fs' q = fs q" if "fs q \<noteq> None" "q \<notin> entry_target dest ` set (e # es)" for q
      using k(2) [of q] i(2) [of q] that by simp
    with kept_outside_trans [OF k(1) i(1)] show ?thesis by blast
  next
    case False
    with rest k show ?thesis by simp
  qed
qed simp

text \<open>C32: whatever the archive holds, whatever was asked for and however the extraction ends, it leaves
  everything outside the destination as it was: what has changed lies below the destination, on a way of
  plain names that goes through directories only; no symbolic link is followed or replaced, and an
  existing directory or device stays what it is. A failure before the destination is known changes
  nothing at all.\<close>

theorem extract_stays_below:
  assumes r: "op_extract Z h a destination paths fs = Some (res, ar, fs')"
    and names: "list_all (\<lambda>e. name_ok (filename e)) (entries a)"
  shows "case extract_destination h fs destination of
      Exit n \<Rightarrow> fs' = fs \<and> res = Exit n
    | Go dest \<Rightarrow> kept_outside dest fs fs'"
proof (cases "extract_destination h fs destination")
  case (Exit n)
  with r show ?thesis by (simp add: op_extract_def)
next
  case (Go dest)
  have "kept_outside dest fs fs'"
  proof (cases "extract_preflight h a paths")
    case (Exit n)
    with Go r show ?thesis by (auto simp: op_extract_def split: if_splits)
  next
    case sel: (Go sel)
    have "\<forall>e \<in> set (entries a). name_ok (filename e)" using names by (simp add: list_all_iff)
    with extract_preflight_spec [OF sel] disk_name_safe
    have S: "\<forall>e \<in> set sel. list_all plain_segment (entry_way e)" unfolding entry_way_def by blast
    show ?thesis
    proof (cases "pakka_entry_count (Some a) = 0")
      case True
      with Go r show ?thesis by (auto simp: op_extract_def split: if_splits)
    next
      case False
      with Go sel r obtain w where "extract_entries Z h dest sel (Some a) fs = Some (w, ar, fs')"
        by (auto simp: op_extract_def bind_eq_Some_conv)
      from extract_entries_outside [OF this S] show ?thesis by simp
    qed
  qed
  with Go show ?thesis by simp
qed

section \<open>The files of an extraction that succeeds\<close>

text \<open>What the copy has written so far is the first part of the contents.\<close>

definition copied_to :: "cfile \<Rightarrow> u8 list \<Rightarrow> nat \<Rightarrow> bool" where
  "copied_to out c k \<longleftrightarrow> f_data out = take k c \<and> f_pos out = k \<and> k \<le> length c"

lemma copied_to_write:
  assumes "copied_to out c k" "fwrite out buf = (n, out')" "n = length buf" "buf = take (length buf) (drop k c)"
  shows "copied_to out' c (k + length buf)"
proof -
  have b: "length buf \<le> length c - k"
    using assms(4) by (metis length_drop length_take min.cobounded1 min.commute)
  have "k \<le> length c" using assms(1) by (simp add: copied_to_def)
  with b have l: "k + length buf \<le> length c" by linarith
  have "out' = out\<lparr>f_data := splice (f_data out) (f_pos out) buf, f_pos := f_pos out + length buf,
      f_error := f_error out\<rparr>"
    using assms(2,3) by (auto simp: fwrite_def Let_def)
  moreover have "splice (take k c) k buf = take (k + length buf) c"
    using l assms(4) by (simp add: splice_def take_add)
  ultimately show ?thesis using assms(1) l by (simp add: copied_to_def)
qed

context served_readers
begin

lemma extract_copy_spec:
  "fp a = Some f \<Longrightarrow> kind (format a) \<Longrightarrow> reader_at f r c k \<Longrightarrow> copied_to out c k \<Longrightarrow>
   \<exists>ok g out'. extract_copy Z (Some r) (Some a) out = Some (ok, Some (a\<lparr>fp := Some g\<rparr>), out')
     \<and> f_data g = f_data f \<and> (ok \<longrightarrow> f_data out' = c)"
proof (induction "length c - k" arbitrary: r a f out k rule: less_induct)
  case less
  obtain s got r1 a1 where rd: "pakka_reader_read Z (Some r) (Some a) PAKFILE_COPY_CHUNK = (s, got, Some r1, Some a1)"
    using answers [OF less.prems(1,2)] by blast
  from serves [OF less.prems(1-3)] rd obtain g where
    g: "a1 = a\<lparr>fp := Some g\<rparr>" "f_data g = f_data f" "got = take (length got) (drop k c)" "reader_at g r1 c (k + length got)"
    and i0: "if s = PAKKA_OK then length got = min PAKFILE_COPY_CHUNK (length c - k)
      else s = PAKKA_ERR_IO \<and> (length got < min PAKFILE_COPY_CHUNK (length c - k) \<or> \<not> f_seekable f)"
    unfolding cursor_read_def by blast
  have i: "length got = min PAKFILE_COPY_CHUNK (length c - k)" if "s = PAKKA_OK" using i0 that by simp
  obtain n out1 where w: "fwrite out got = (n, out1)" by fastforce
  have eq: "extract_copy Z (Some r) (Some a) out =
      (if s \<noteq> PAKKA_OK then Some (False, Some a1, out) else if got = [] then Some (True, Some a1, out)
       else if n \<noteq> length got then Some (False, Some a1, out1) else extract_copy Z (Some r1) (Some a1) out1)"
    by (subst extract_copy.simps) (simp add: rd w)
  show ?case
  proof (cases "s = PAKKA_OK \<and> got \<noteq> [] \<and> n = length got")
    case True
    have c1: "copied_to out1 c (k + length got)" using copied_to_write [OF less.prems(4) w _ g(3)] True by simp
    have "k + length got \<le> length c" using c1 by (simp add: copied_to_def)
    then have m: "length c - (k + length got) < length c - k" using True by (cases got) auto
    from less.hyps [OF m _ _ g(4) c1, of a1] g(1) less.prems(2)
    obtain ok h out' where "extract_copy Z (Some r1) (Some a1) out1 = Some (ok, Some (a1\<lparr>fp := Some h\<rparr>), out')"
      "f_data h = f_data g" "ok \<longrightarrow> f_data out' = c" by auto
    with eq True g(1,2) show ?thesis by auto
  next
    case False
    have "f_data out = c" if "s = PAKKA_OK" "got = []"
    proof -
      have "length c - k = 0" using i [OF that(1)] that(2) by (simp add: PAKFILE_COPY_CHUNK_def)
      with less.prems(4) show ?thesis by (simp add: copied_to_def)
    qed
    with eq False g(1,2) show ?thesis by auto
  qed
qed

end

text \<open>The contents of an entry, for archives of every format.\<close>

definition content_in :: "deflate_ops \<Rightarrow> files \<Rightarrow> cfile \<Rightarrow> archive \<Rightarrow> pentry \<Rightarrow> u8 list option" where
  "content_in D fs f a e = (if pakka_format_is_zip (format a) then zip_content D fs f e else entry_content fs f e)"

lemma contents_of_in: "contents_of D fs f a = map (\<lambda>e. (filename e, content_in D fs f a e)) (entries a)"
  by (simp add: contents_of_def content_in_def zip_files_def listing_def)

lemma handle_opens_at:
  assumes wf: "handle_wf a" and fp: "fp a = Some f" and e: "e \<in> set (entries a)" "\<not> is_staged e"
  shows "opens_at (pk3_ops D) env fs a f e (\<lambda>c. content_in D fs f a e = Some c)"
proof (cases "pakka_format_is_zip (format a)")
  case True
  then have z: "zip_archive_wf a" using wf by (simp add: handle_wf_def)
  have si: "source_intact fs e" using e(2) by (simp add: source_intact_def is_staged_def)
  from zip_opens_at [OF z fp e(1) si, of D env] True show ?thesis
    unfolding opens_at_def content_in_def by (auto split: if_splits) (metis (no_types, lifting))+
next
  case False
  then have z: "archive_wf a" using wf by (simp add: handle_wf_def)
  have si: "source_intact fs e" using e(2) by (simp add: source_intact_def is_staged_def)
  show ?thesis
    unfolding opens_at_def
  proof (intro allI impI)
    fix s rd a1
    assume r: "pakka_open_entry_handle (pk3_ops D) env fs (Some a) (Some e) = (s, rd, a1)"
    from open_handle_spec [OF z fp e(1) si r] obtain g where
      g: "a1 = Some (a\<lparr>fp := Some g\<rparr>)" "f_data g = f_data f"
        "if s = PAKKA_OK then \<exists>r. rd = Some r \<and> opened_at fs f e r g else rd = None" by blast
    then show "\<exists>g. a1 = Some (a\<lparr>fp := Some g\<rparr>) \<and> f_data g = f_data f \<and>
        (if s = PAKKA_OK then \<exists>r c. rd = Some r \<and> reader_at g r c 0 \<and> content_in D fs f a e = Some c else rd = None)"
      using e(2) False by (intro exI [of _ g]) (auto simp: opened_at_def content_in_def)
  qed
qed

text \<open>Contents that are not staged depend on nothing but the data of the stream.\<close>

lemma content_in_stream:
  "\<not> is_staged e \<Longrightarrow> f_data g = f_data f \<Longrightarrow> content_in D fs' g (a\<lparr>fp := x\<rparr>) e = content_in D fs f a e"
  by (auto simp: content_in_def entry_content_def stored_bytes_def zip_content_def zip_bytes_def is_staged_def payload_bytes_def)

definition extracted_bytes :: "deflate_ops \<Rightarrow> files \<Rightarrow> cfile \<Rightarrow> archive \<Rightarrow> pentry \<Rightarrow> u8 list option" where
  "extracted_bytes D fs f a e = (if entry_length e = 0 then Some [] else content_in D fs f a e)"

lemma same_fp: "fp a = Some f \<Longrightarrow> a\<lparr>fp := Some f\<rparr> = (a :: archive)"
  by simp

lemma handle_wf_data:
  "handle_wf a \<Longrightarrow> fp a = Some f \<Longrightarrow> f_data g = f_data f \<Longrightarrow> handle_wf (a\<lparr>fp := Some g\<rparr>)"
  by (auto simp: handle_wf_def zip_archive_wf_def archive_wf_def pe_def)

lemma extract_entry_copy:
  assumes wf: "handle_wf a" and fp: "fp a = Some f" and e: "e \<in> set (entries a)" "\<not> is_staged e"
  shows "\<exists>cp g tfd. (if pakka_entry_size (Some e) > 0 then
               (let (s, rd, archive) = pakka_open_entry_handle (pk3_ops D) env fs1 (Some a) (Some e)
                in if s \<noteq> PAKKA_OK then Some (False, archive, stream_of l []) else extract_copy (pk3_ops D) rd archive (stream_of l []))
             else Some (True, Some a, stream_of l [])) = Some (cp, Some (a\<lparr>fp := Some g\<rparr>), tfd)
     \<and> f_data g = f_data f \<and> (cp \<longrightarrow> extracted_bytes D fs f a e = Some (f_data tfd))"
proof (cases "entry_length e = 0")
  case True
  then show ?thesis using fp
    by (intro exI [of _ True] exI [of _ f] exI [of _ "stream_of l []"])
      (simp add: pakka_entry_size_def extracted_bytes_def stream_of_def)
next
  case False
  then have nz: "pakka_entry_size (Some e) > 0"
    using unat_ucast_u32_u64 [of "entry_length e"] by (auto simp: pakka_entry_size_def word_gt_0 unat_eq_zero)
  obtain s rd a1 where o: "pakka_open_entry_handle (pk3_ops D) env fs1 (Some a) (Some e) = (s, rd, a1)"
    by (metis prod_cases3)
  from handle_opens_at [OF wf fp e, of D env fs1] o obtain g where
    g: "a1 = Some (a\<lparr>fp := Some g\<rparr>)" "f_data g = f_data f"
    and i: "if s = PAKKA_OK then \<exists>r c. rd = Some r \<and> reader_at g r c 0 \<and> content_in D fs1 f a e = Some c else rd = None"
    unfolding opens_at_def by blast
  show ?thesis
  proof (cases "s = PAKKA_OK")
    case True
    with i obtain r c where r: "rd = Some r" "reader_at g r c 0" "content_in D fs1 f a e = Some c" by auto
    have c: "extracted_bytes D fs f a e = Some c"
      using r(3) content_in_stream [OF e(2), of f f D fs1 "Some f" a fs] False same_fp [OF fp]
      by (simp add: extracted_bytes_def)
    have "copied_to (stream_of l []) c 0" by (simp add: copied_to_def stream_of_def)
    from reads.extract_copy_spec [of "a\<lparr>fp := Some g\<rparr>" g "pk3_ops D" D, OF _ _ r(2) this]
    obtain ok h out' where "extract_copy (pk3_ops D) (Some r) (Some (a\<lparr>fp := Some g\<rparr>)) (stream_of l []) = Some (ok, Some (a\<lparr>fp := Some h\<rparr>), out')"
      "f_data h = f_data g" "ok \<longrightarrow> f_data out' = c" by auto
    with nz o g r(1) True c show ?thesis by auto
  next
    case False
    with nz o g show ?thesis by auto
  qed
qed

lemma extract_entry_result:
  assumes wf: "handle_wf a" and fp: "fp a = Some f" and e: "e \<in> set (entries a)" "\<not> is_staged e"
    and pl: "list_all plain_segment (entry_way e)"
  shows "\<exists>w g fs'. extract_entry (pk3_ops D) h dest e (Some a) fs = Some (w, Some (a\<lparr>fp := Some g\<rparr>), fs') \<and> f_data g = f_data f
    \<and> (w \<longrightarrow> (\<exists>c. extracted_bytes D fs f a e = Some c
          \<and> (fs' (entry_target dest e) = Some (Regular c) \<or> fs' (entry_target dest e) = Some Special)))"
proof -
  obtain tgt fs1 where o1: "pakka_platform_open_extract_target h fs dest (disk_name (filename e)) = (tgt, fs1)" by fastforce
  from open_target_spec [OF o1] pl have d: "descended dest fs (entry_way e) tgt fs1" by (simp add: entry_way_def)
  show ?thesis
  proof (cases tgt)
    case None
    with o1 same_fp [OF fp] show ?thesis unfolding extract_entry_def
      by (intro exI [of _ False] exI [of _ f] exI [of _ fs1]) simp
  next
    case (Some pf)
    with d obtain l where pf: "pf = (entry_target dest e, stream_of l [])"
      "fs1 (entry_target dest e) = Some (Regular []) \<or> fs1 (entry_target dest e) = Some Special"
      by (cases pf) (auto simp: descended_def entry_target_def)
    from extract_entry_copy [OF wf fp e, of D "h_env h" fs1 l fs] obtain cp g tfd where
      m: "(if pakka_entry_size (Some e) > 0 then
               (let (s, rd, archive) = pakka_open_entry_handle (pk3_ops D) (h_env h) fs1 (Some a) (Some e)
                in if s \<noteq> PAKKA_OK then Some (False, archive, stream_of l []) else extract_copy (pk3_ops D) rd archive (stream_of l []))
             else Some (True, Some a, stream_of l [])) = Some (cp, Some (a\<lparr>fp := Some g\<rparr>), tfd)"
      "f_data g = f_data f" "cp \<longrightarrow> extracted_bytes D fs f a e = Some (f_data tfd)" by blast
    obtain closed fs2 where cl: "close_target h fs1 (entry_target dest e) tfd = (closed, fs2)" by fastforce
    have "extract_entry (pk3_ops D) h dest e (Some a) fs = Some (cp \<and> closed, Some (a\<lparr>fp := Some g\<rparr>), fs2)"
      unfolding extract_entry_def o1 Some pf(1) by (simp add: m(1) cl)
    with close_target_spec [OF cl pf(2)] m(2,3) show ?thesis by (auto split: if_splits)
  qed
qed

definition holds :: "files \<Rightarrow> path \<Rightarrow> u8 list \<Rightarrow> bool" where
  "holds fs p c \<longleftrightarrow> fs p = Some (Regular c) \<or> fs p = Some Special"

lemma extracted_bytes_stream:
  "\<not> is_staged e \<Longrightarrow> f_data g = f_data f \<Longrightarrow> extracted_bytes D fs' g (a\<lparr>fp := x\<rparr>) e = extracted_bytes D fs f a e"
  by (simp add: extracted_bytes_def content_in_stream)

lemma entry_way_nonempty: "entry_way e \<noteq> []"
  by (auto simp: entry_way_def segments_def)

lemma entry_target_distinct:
  assumes "distinct (map entry_way (e # es))" "\<forall>e \<in> set (e # es). list_all plain_segment (entry_way e)"
  shows "entry_target dest e \<notin> entry_target dest ` set es"
proof
  assume "entry_target dest e \<in> entry_target dest ` set es"
  then obtain x where x: "x \<in> set es" "below dest (entry_way e) = below dest (entry_way x)" by (auto simp: entry_target_def)
  with below_inj [OF x(2)] assms(2) entry_way_nonempty have "entry_way e = entry_way x" by simp
  with x(1) assms(1) show False by auto
qed

lemma extract_entries_result:
  "handle_wf a \<Longrightarrow> fp a = Some f \<Longrightarrow> \<forall>e \<in> set es. e \<in> set (entries a) \<and> \<not> is_staged e \<Longrightarrow>
   \<forall>e \<in> set es. list_all plain_segment (entry_way e) \<Longrightarrow> distinct (map entry_way es) \<Longrightarrow>
   \<exists>w g fs'. extract_entries (pk3_ops D) h dest es (Some a) fs = Some (w, Some (a\<lparr>fp := Some g\<rparr>), fs') \<and> f_data g = f_data f
    \<and> (w \<longrightarrow> (\<forall>e \<in> set es. \<exists>c. extracted_bytes D fs0 f a e = Some c \<and> holds fs' (entry_target dest e) c))"
proof (induction es arbitrary: a f fs)
  case Nil
  then show ?case using same_fp [OF Nil(2)] by (intro exI [of _ True] exI [of _ f] exI [of _ fs]) simp
next
  case (Cons e es)
  have e: "e \<in> set (entries a)" "\<not> is_staged e" "list_all plain_segment (entry_way e)" using Cons.prems(3,4) by simp_all
  from extract_entry_result [OF Cons.prems(1,2) e, of D h dest fs] obtain w1 g1 fs1 where
    s: "extract_entry (pk3_ops D) h dest e (Some a) fs = Some (w1, Some (a\<lparr>fp := Some g1\<rparr>), fs1)" "f_data g1 = f_data f"
    and c: "w1 \<longrightarrow> (\<exists>c. extracted_bytes D fs f a e = Some c \<and> holds fs1 (entry_target dest e) c)"
    unfolding holds_def by blast
  show ?case
  proof (cases w1)
    case False
    with s show ?thesis by auto
  next
    case True
    let ?a = "a\<lparr>fp := Some g1\<rparr>"
    have wf1: "handle_wf ?a" by (rule handle_wf_data [OF Cons.prems(1,2) s(2)])
    have fp1: "fp ?a = Some g1" by simp
    have m1: "\<forall>e \<in> set es. e \<in> set (entries ?a) \<and> \<not> is_staged e" using Cons.prems(3) by simp
    have p1: "\<forall>e \<in> set es. list_all plain_segment (entry_way e)" and d1: "distinct (map entry_way es)"
      using Cons.prems(4,5) by simp_all
    from Cons.IH [OF wf1 fp1 m1 p1 d1, of fs1] obtain w g fs' where
      r: "extract_entries (pk3_ops D) h dest es (Some ?a) fs1 = Some (w, Some (a\<lparr>fp := Some g\<rparr>), fs')" "f_data g = f_data g1"
      and i: "w \<longrightarrow> (\<forall>x \<in> set es. \<exists>c. extracted_bytes D fs0 g1 ?a x = Some c \<and> holds fs' (entry_target dest x) c)" by auto
    from c True obtain b where b: "extracted_bytes D fs f a e = Some b" "holds fs1 (entry_target dest e) b" by blast
    have "fs' (entry_target dest e) = fs1 (entry_target dest e)"
      using extract_entries_outside [OF r(1) p1] entry_target_distinct [OF Cons.prems(5,4), of dest] b(2)
      by (auto simp: holds_def)
    then have first: "holds fs' (entry_target dest e) b" using b(2) by (simp add: holds_def)
    have b0: "extracted_bytes D fs0 f a e = Some b"
      using b(1) extracted_bytes_stream [OF e(2), of f f D fs "Some f" a fs0] same_fp [OF Cons.prems(2)] by simp
    have others: "extracted_bytes D fs0 g1 ?a x = extracted_bytes D fs0 f a x" if "x \<in> set es" for x
      using Cons.prems(3) that by (intro extracted_bytes_stream s(2)) simp
    have "extract_entries (pk3_ops D) h dest (e # es) (Some a) fs = Some (w, Some (a\<lparr>fp := Some g\<rparr>), fs')"
      by (simp add: s(1) True r(1))
    moreover have "w \<longrightarrow> (\<forall>x \<in> set (e # es). \<exists>c. extracted_bytes D fs0 f a x = Some c \<and> holds fs' (entry_target dest x) c)"
      using i first b0 others by simp
    ultimately show ?thesis using r(2) s(2) by (metis (no_types, lifting))
  qed
qed

text \<open>The whole operation on a handle without staged edits.\<close>

lemma op_extract_result:
  assumes wf: "handle_wf a" and fp: "fp a = Some f" and st: "\<forall>e \<in> set (entries a). \<not> is_staged e"
    and names: "\<forall>e \<in> set (entries a). name_ok (filename e)"
  shows "\<exists>res g fs'. op_extract (pk3_ops D) h a destination paths fs = Some (res, Some (a\<lparr>fp := Some g\<rparr>), fs')
    \<and> f_data g = f_data f
    \<and> (res = Go () \<longrightarrow> (\<exists>dest. extract_destination h fs destination = Go dest
         \<and> set paths \<subseteq> filename ` set (entries a)
         \<and> (let sel = chosen (pakka_format_is_wad (format a)) paths {} (entries a) in
              distinct (map (entry_target dest) sel)
              \<and> (\<forall>e \<in> set sel. safe_name (filename e)
                   \<and> (\<exists>c. extracted_bytes D fs f a e = Some c \<and> holds fs' (entry_target dest e) c)))))"
proof -
  note same = same_fp [OF fp]
  let ?sel = "chosen (pakka_format_is_wad (format a)) paths {} (entries a)"
  have stop: ?thesis if "op_extract (pk3_ops D) h a destination paths fs = Some (Exit n, Some a, fs)" for n
    using that same by (intro exI [of _ "Exit n"] exI [of _ f] exI [of _ fs]) simp
  show ?thesis
  proof (cases "extract_destination h fs destination")
    case (Exit n)
    then show ?thesis by (intro stop [of n]) (simp add: op_extract_def)
  next
    case dest: (Go dest)
    have count: "pakka_entry_count (Some a) = 0 \<longleftrightarrow> entries a = []"
      using wf by (auto simp: pakka_entry_count_def handle_wf_def zip_archive_wf_def archive_wf_def split: if_splits)
    show ?thesis
    proof (cases "entries a = []")
      case True
      show ?thesis
      proof (cases "paths = []")
        case False
        with True dest count show ?thesis by (intro stop [of 1]) (simp add: op_extract_def)
      next
        case p: True
        then have "op_extract (pk3_ops D) h a destination paths fs = Some (Go (), Some (a\<lparr>fp := Some f\<rparr>), fs)"
          using True dest count same by (simp add: op_extract_def)
        with dest p True show ?thesis by (intro exI [of _ "Go ()"] exI [of _ f] exI [of _ fs]) simp
      qed
    next
      case False
      then have nz: "pakka_entry_count (Some a) \<noteq> 0" using count by simp
      show ?thesis
      proof (cases "extract_preflight h a paths")
        case (Exit n)
        with dest nz show ?thesis by (intro stop [of n]) (simp add: op_extract_def)
      next
        case (Go sel)
        from extract_preflight_spec [OF Go names] have S: "sel = ?sel" "set paths \<subseteq> filename ` set (entries a)"
          "\<forall>e \<in> set sel. name_ok (filename e) \<and> safe_name (filename e)" "distinct (map entry_way sel)" by auto
        have pl: "\<forall>e \<in> set sel. list_all plain_segment (entry_way e)"
          using S(3) disk_name_safe unfolding entry_way_def by blast
        have m: "\<forall>e \<in> set sel. e \<in> set (entries a) \<and> \<not> is_staged e"
          using chosen_subset [of "pakka_format_is_wad (format a)" paths "{}" "entries a"] st S(1) by auto
        have inj: "inj_on (below dest) (entry_way ` set sel)"
          using below_inj pl entry_way_nonempty by (intro inj_onI) blast
        have "distinct (map (below dest) (map entry_way sel))" using S(4) inj by (simp only: distinct_map list.set_map)
        then have "distinct (map (entry_target dest) sel)" by (simp add: entry_target_def [abs_def] comp_def)
        from extract_entries_result [OF wf fp m pl S(4), of D h dest fs fs] obtain w g fs' where
          r: "extract_entries (pk3_ops D) h dest sel (Some a) fs = Some (w, Some (a\<lparr>fp := Some g\<rparr>), fs')" "f_data g = f_data f"
          "w \<longrightarrow> (\<forall>e \<in> set sel. \<exists>c. extracted_bytes D fs f a e = Some c \<and> holds fs' (entry_target dest e) c)" by blast
        with \<open>distinct (map (entry_target dest) sel)\<close> dest nz Go r S show ?thesis
          by (intro exI [of _ "if w then Go () else Exit 1"] exI [of _ g] exI [of _ fs'])
            (simp add: op_extract_def Let_def)
      qed
    qed
  qed
qed

lemma op_extract_names:
  assumes "handle_wf a" shows "\<forall>e \<in> set (entries a). name_ok (filename e)"
proof
  fix e assume e: "e \<in> set (entries a)"
  show "name_ok (filename e)"
  proof (cases "pakka_format_is_zip (format a)")
    case True
    then show ?thesis using assms e by (simp add: handle_wf_def zip_archive_wf_def zip_kind_wf_def name_ok_def)
  next
    case False
    then obtain g where "pakka_pak_geometry (format a) = Some g" "name_fits g e"
      using assms e by (auto simp: handle_wf_def archive_wf_def entry_wf_def)
    then show ?thesis
      by (cases "format a") (auto simp: name_fits_def name_ok_def PAKKA_ENTRY_NAME_SIZE_def)
  qed
qed

text \<open>C33: an extraction that reports success has found every path that was asked for, and every entry it
  had to write (all of them, or those with the given names, of a WAD the first of each name) has a safe
  name and a target of its own, which at the end holds the entry's decoded contents, unless a device or
  pipe was there to take them.\<close>

theorem extract_spec:
  assumes r: "op_extract (pk3_ops D) h a destination paths fs = Some (Go (), ar, fs')"
    and wf: "handle_wf a" "fp a = Some f" "\<forall>e \<in> set (entries a). \<not> is_staged e"
  shows "\<exists>dest. extract_destination h fs destination = Go dest
    \<and> set paths \<subseteq> filename ` set (entries a)
    \<and> (let sel = chosen (pakka_format_is_wad (format a)) paths {} (entries a) in
         distinct (map (entry_target dest) sel)
         \<and> (\<forall>e \<in> set sel. safe_name (filename e)
              \<and> (\<exists>c. extracted_bytes D fs f a e = Some c \<and> holds fs' (entry_target dest e) c)))"
  using op_extract_result [OF wf op_extract_names [OF wf(1)], of D h destination paths fs] r by auto

text \<open>C34: an extraction returns, whatever the archive holds and the system answers: the copy loop of every
  entry ends, also when reads fail or a compressed stream is damaged, and the archive's handle is what it
  was but for the position of its stream.\<close>

theorem extract_returns:
  assumes "handle_wf a" "fp a = Some f" "\<forall>e \<in> set (entries a). \<not> is_staged e"
  shows "\<exists>res g fs'. op_extract (pk3_ops D) h a destination paths fs = Some (res, Some (a\<lparr>fp := Some g\<rparr>), fs')
    \<and> f_data g = f_data f"
  using op_extract_result [OF assms op_extract_names [OF assms(1)], of D h destination paths fs] by blast

section \<open>A sample\<close>

lemma disk_name_ascii:
  assumes "name_ok s" "\<forall>c \<in> set s. c < 0x80" shows "disk_name s = s"
proof -
  have "list_all2 (subst_byte 0x5F) s (disk_name s)" using disk_name_bytes assms(1) by (simp add: name_ok_def)
  then have "list_all2 (=) s (disk_name s)"
    by (rule list.rel_mono_strong) (use assms(2) in \<open>auto simp: subst_byte_def not_less [symmetric]\<close>)
  then show ?thesis by (simp add: list.rel_eq)
qed

definition out_host :: host where
  "out_host = \<lparr>h_env = quiet_env, h_cwd = Some (ascii ''/out''), h_realpath = Some, h_open = \<lambda>_. True,
     h_mkdir = \<lambda>_. True, h_fdopen = \<lambda>_. Some quiet_limits, h_readdir = \<lambda>_ _. Some ([], False), h_oom = \<lambda>_. False\<rparr>"

definition out_disk :: files where
  "out_disk = (\<lambda>_. None)(ascii ''/out'' \<mapsto> Directory)"

definition b_entry :: pentry where
  "b_entry = calloc_entry\<lparr>filename := ascii ''b.cfg'', offset := 15, entry_length := 2\<rparr>"

abbreviation sample_ops :: zip_ops where
  "sample_ops \<equiv> pk3_ops (vendored sample_codec)"

lemma sample_selected: "extract_preflight out_host sample_pak [ascii ''b.cfg''] = Go [b_entry]"
  by code_simp

lemma sample_destination: "extract_destination out_host out_disk None = Go (ascii ''/out'')"
  by code_simp

lemma sample_open:
  "case pakka_platform_open_extract_target out_host out_disk (ascii ''/out'') (ascii ''b.cfg'') of
     (r, fs) \<Rightarrow> r = Some (ascii ''/out/b.cfg'', stream_of quiet_limits []) \<and> fs (ascii ''/out/b.cfg'') = Some (Regular [])"
  by code_simp

lemma sample_copy:
  "case pakka_open_entry_handle sample_ops quiet_env fs (Some sample_pak) (Some b_entry) of
     (s, rd, ar) \<Rightarrow> s = PAKKA_OK \<and> (case extract_copy sample_ops rd ar (stream_of quiet_limits []) of
        Some (ok, _, f) \<Rightarrow> ok \<and> f_data f = [4, 5] \<and> f_close_ok f
      | None \<Rightarrow> False)"
  by code_simp

lemma sample_extracts:
  "\<exists>ar fs'. op_extract sample_ops out_host sample_pak None [ascii ''b.cfg''] out_disk = Some (Go (), ar, fs')
     \<and> fs' (ascii ''/out/b.cfg'') = Some (Regular [4, 5])"
proof -
  have dn: "disk_name (filename b_entry) = ascii ''b.cfg''"
    by (simp add: b_entry_def) (rule disk_name_ascii; simp add: name_ok_def c_string_def ascii_def PAKKA_ENTRY_NAME_SIZE_def)
  obtain fs1 where 1: "pakka_platform_open_extract_target out_host out_disk (ascii ''/out'') (ascii ''b.cfg'')
      = (Some (ascii ''/out/b.cfg'', stream_of quiet_limits []), fs1)" "fs1 (ascii ''/out/b.cfg'') = Some (Regular [])"
    using sample_open by (auto split: prod.splits)
  obtain rd ar ar' tfd where 2: "pakka_open_entry_handle sample_ops quiet_env fs1 (Some sample_pak) (Some b_entry) = (PAKKA_OK, rd, ar)"
    "extract_copy sample_ops rd ar (stream_of quiet_limits []) = Some (True, ar', tfd)" "f_data tfd = [4, 5]" "f_close_ok tfd"
    using sample_copy [of fs1] by (auto split: prod.splits option.splits)
  have sz: "pakka_entry_size (Some b_entry) > 0" by (simp add: pakka_entry_size_def b_entry_def)
  have ho: "h_env out_host = quiet_env" by (simp add: out_host_def)
  define fs2 where "fs2 = fs1(ascii ''/out/b.cfg'' \<mapsto> Regular [4, 5])"
  have cl: "close_target out_host fs1 (ascii ''/out/b.cfg'') tfd = (True, fs2)"
    using 1(2) 2(3,4) by (simp add: close_target_def publish_def fs2_def)
  have "extract_entry sample_ops out_host (ascii ''/out'') b_entry (Some sample_pak) out_disk = Some (True, ar', fs2)"
    by (simp add: extract_entry_def dn 1(1) sz ho 2(1,2) cl)
  then have "extract_entries sample_ops out_host (ascii ''/out'') [b_entry] (Some sample_pak) out_disk = Some (True, ar', fs2)"
    by simp
  moreover have "pakka_entry_count (Some sample_pak) \<noteq> 0" by (simp add: pakka_entry_count_def sample_pak_def)
  ultimately have "op_extract sample_ops out_host sample_pak None [ascii ''b.cfg''] out_disk = Some (Go (), ar', fs2)"
    unfolding op_extract_def sample_destination cli.case sample_selected by simp
  then show ?thesis by (auto simp: fs2_def)
qed

lemma sample_extract_setting:
  "handle_wf sample_pak" "fp sample_pak = Some sample_fp" "\<forall>e \<in> set (entries sample_pak). \<not> is_staged e"
  using handle_wf_pak [OF sample_pak_wf] by (simp_all add: sample_pak_fp) (simp add: sample_pak_def is_staged_def calloc_entry_def)

text \<open>The sample meets what the three properties ask for.\<close>

lemma extract_spec_witness:
  "\<exists>ar fs'. op_extract sample_ops out_host sample_pak None [ascii ''b.cfg''] out_disk = Some (Go (), ar, fs')
     \<and> [ascii ''b.cfg''] = map filename (chosen False [ascii ''b.cfg''] {} (entries sample_pak))
     \<and> (\<exists>dest. extract_destination out_host out_disk None = Go dest)"
proof -
  obtain ar fs' where r: "op_extract sample_ops out_host sample_pak None [ascii ''b.cfg''] out_disk = Some (Go (), ar, fs')"
    using sample_extracts by blast
  from extract_spec [OF r sample_extract_setting] r show ?thesis by (auto simp: sample_pak_simps calloc_entry_def)
qed

lemma extract_returns_witness:
  "\<exists>res g fs'. op_extract sample_ops out_host sample_pak None [ascii ''b.cfg''] out_disk
      = Some (res, Some (sample_pak\<lparr>fp := Some g\<rparr>), fs') \<and> f_data g = f_data sample_fp"
  by (rule extract_returns [OF sample_extract_setting])

lemma extract_stays_below_witness:
  "\<exists>ar fs'. op_extract sample_ops out_host sample_pak None [ascii ''b.cfg''] out_disk = Some (Go (), ar, fs')
     \<and> fs' (ascii ''/out/b.cfg'') = Some (Regular [4, 5]) \<and> kept_outside (ascii ''/out'') out_disk fs'"
proof -
  obtain ar fs' where r: "op_extract sample_ops out_host sample_pak None [ascii ''b.cfg''] out_disk = Some (Go (), ar, fs')"
    "fs' (ascii ''/out/b.cfg'') = Some (Regular [4, 5])"
    using sample_extracts by blast
  have "list_all (\<lambda>e. name_ok (filename e)) (entries sample_pak)"
    using op_extract_names [OF sample_extract_setting(1)] by (simp add: list_all_iff)
  from extract_stays_below [OF r(1) this] r show ?thesis by (auto simp: sample_destination)
qed

end
