(* ===== verification/Run_Props.thy ===== *)
theory Run_Props
  imports Cli_Run Extract_Props
begin

text \<open>
  What a run of the tool does to the archive file: which files an add takes, and what \<^verbatim>\<open>-a\<close> and \<^verbatim>\<open>-d\<close> leave
  behind, from the command line to the bytes on disk.
\<close>

section \<open>Which files an add takes\<close>

inductive in_folder :: "host \<Rightarrow> files \<Rightarrow> path \<Rightarrow> path \<Rightarrow> bool" for h fs where
  plain_file: "h_readdir h fs d = Some (names, e) \<Longrightarrow> n \<in> set names \<Longrightarrow> n \<noteq> ascii ''..'' \<Longrightarrow> n \<noteq> ascii ''.'' \<Longrightarrow>
    build_filename OS_PATH_MAX d n = Some q \<Longrightarrow> pakka_platform_lstat (h_env h) fs q = Some (Regular b) \<Longrightarrow> in_folder h fs d q"
| sub_folder: "h_readdir h fs d = Some (names, e) \<Longrightarrow> n \<in> set names \<Longrightarrow> n \<noteq> ascii ''..'' \<Longrightarrow> n \<noteq> ascii ''.'' \<Longrightarrow>
    build_filename OS_PATH_MAX d n = Some sub \<Longrightarrow> pakka_platform_lstat (h_env h) fs sub = Some Directory \<Longrightarrow>
    in_folder h fs sub q \<Longrightarrow> in_folder h fs d q"

definition member :: "host \<Rightarrow> files \<Rightarrow> path \<Rightarrow> cstring \<Rightarrow> path \<Rightarrow> bool" where
  "member h fs d n q \<longleftrightarrow> n \<noteq> ascii ''..'' \<and> n \<noteq> ascii ''.''
     \<and> (\<exists>t. build_filename OS_PATH_MAX d n = Some t
          \<and> (q = t \<and> (\<exists>b. pakka_platform_lstat (h_env h) fs t = Some (Regular b))
             \<or> pakka_platform_lstat (h_env h) fs t = Some Directory \<and> in_folder h fs t q))"

lemma in_folder_member:
  "in_folder h fs d q \<longleftrightarrow> (\<exists>names e. h_readdir h fs d = Some (names, e) \<and> (\<exists>n \<in> set names. member h fs d n q))"
proof
  assume "in_folder h fs d q"
  then show "\<exists>names e. h_readdir h fs d = Some (names, e) \<and> (\<exists>n \<in> set names. member h fs d n q)"
    by cases (auto simp: member_def)
next
  assume "\<exists>names e. h_readdir h fs d = Some (names, e) \<and> (\<exists>n \<in> set names. member h fs d n q)"
  then show "in_folder h fs d q" unfolding member_def by (blast intro: plain_file sub_folder)
qed

abbreviation add_each :: "zip_ops \<Rightarrow> host \<Rightarrow> files \<Rightarrow> (cstring \<times> path) list \<Rightarrow> archive option \<Rightarrow> unit cli \<times> archive option" where
  "add_each Z h fs \<equiv> cli_each (\<lambda>(entry, source) pak. cli_add_file Z h fs pak source entry)"

lemma cli_each_append:
  "cli_each act (xs @ ys) pak =
     (case cli_each act xs pak of (Exit n, pak) \<Rightarrow> (Exit n, pak) | (Go _, pak) \<Rightarrow> cli_each act ys pak)"
  by (induction xs arbitrary: pak) (auto split: cli.splits prod.splits)

lemma add_each_Exit: "add_each Z h fs xs pak = (r, pak') \<Longrightarrow> r \<noteq> Exit 0"
  by (induction xs arbitrary: pak) (auto simp: cli_add_file_def split: cli.splits prod.splits if_splits)

text \<open>A part of the run is the same as adding the files of a list, one after the other.\<close>

definition adds :: "zip_ops \<Rightarrow> host \<Rightarrow> files \<Rightarrow> (path \<Rightarrow> bool) \<Rightarrow> archive option \<Rightarrow> unit cli \<times> archive option \<Rightarrow> bool" where
  "adds Z h fs P pak res \<longleftrightarrow> (\<exists>ps r. add_each Z h fs (map (\<lambda>q. (q, q)) ps) pak = (r, snd res) \<and> (\<forall>q \<in> set ps. P q)
     \<and> (fst res = Go () \<longrightarrow> r = Go () \<and> (\<forall>q. P q \<longrightarrow> q \<in> set ps)) \<and> fst res \<noteq> Exit 0)"

lemma adds_none: "(\<And>q. r = Go () \<Longrightarrow> \<not> P q) \<Longrightarrow> r \<noteq> Exit 0 \<Longrightarrow> adds Z h fs P pak (r, pak)"
  by (auto simp: adds_def intro!: exI [of _ "[]"])

lemma adds_one: "adds Z h fs (\<lambda>q. q = p) pak (cli_add_file Z h fs pak p p)"
  by (cases "cli_add_file Z h fs pak p p")
    (auto simp: adds_def cli_add_file_def intro!: exI [of _ "[p]"] split: cli.splits prod.splits)

lemma adds_then:
  assumes "adds Z h fs P pak (r, pak1)" "r = Go () \<Longrightarrow> adds Z h fs Q pak1 res" "\<And>n. r = Exit n \<Longrightarrow> res = (Exit n, pak1)"
  shows "adds Z h fs (\<lambda>q. P q \<or> Q q) pak res"
proof (cases "r = Go ()")
  case True
  from assms(1) True obtain ps where 1: "add_each Z h fs (map (\<lambda>q. (q, q)) ps) pak = (Go (), pak1)"
    "\<forall>q \<in> set ps. P q" "\<forall>q. P q \<longrightarrow> q \<in> set ps" by (auto simp: adds_def)
  from assms(2) [OF True] obtain qs r2 where 2: "add_each Z h fs (map (\<lambda>q. (q, q)) qs) pak1 = (r2, snd res)"
    "\<forall>q \<in> set qs. Q q" "fst res = Go () \<longrightarrow> r2 = Go () \<and> (\<forall>q. Q q \<longrightarrow> q \<in> set qs)" "fst res \<noteq> Exit 0" by (auto simp: adds_def)
  show ?thesis
    unfolding adds_def using 1 2 by (intro exI [of _ "ps @ qs"] exI [of _ r2]) (auto simp: cli_each_append)
next
  case False
  then obtain n where "r = Exit n" by (cases r) auto
  with assms(1,3) show ?thesis by (auto simp: adds_def)
qed

lemma adds_cong: "adds Z h fs P pak res \<Longrightarrow> (\<And>q. P q = Q q) \<Longrightarrow> adds Z h fs Q pak res"
  by (simp add: adds_def)

lemma walk_adds:
  "adds Z h fs (in_folder h fs path) pak (cli_add_folder_r Z h fs path depth pak)"
  "adds Z h fs (\<lambda>q. \<exists>n \<in> set names. member h fs path n q) pak (add_folder_loop Z h fs path depth names failed pak)"
proof (induction Z h fs path depth pak and Z h fs path depth names failed pak
    rule: cli_add_folder_r_add_folder_loop.induct)
  case (1 Z h fs path depth pak)
  show ?case
  proof (cases "depth \<ge> ADD_FOLDER_MAX_DEPTH \<or> h_readdir h fs path = None")
    case True
    then show ?thesis by (auto intro!: adds_none)
  next
    case False
    then obtain names failed where r: "h_readdir h fs path = Some (names, failed)" "\<not> depth \<ge> ADD_FOLDER_MAX_DEPTH" by auto
    have "cli_add_folder_r Z h fs path depth pak = add_folder_loop Z h fs path depth names failed pak"
      using r by simp
    with adds_cong [OF 1(1) [OF r(2,1) refl]] r show ?thesis by (simp add: in_folder_member)
  qed
next
  case (2 Z h fs path depth failed pak)
  show ?case by (auto intro!: adds_none)
next
  case (3 Z h fs path depth name names failed pak)
  let ?loop = "add_folder_loop Z h fs path depth names failed"
  let ?M = "\<lambda>q. \<exists>n \<in> set names. member h fs path n q"
  have skip: ?case if "add_folder_loop Z h fs path depth (name # names) failed pak = ?loop pak" "\<And>q. \<not> member h fs path name q"
      "adds Z h fs ?M pak (?loop pak)"
    using that by (auto intro: adds_cong)
  have stop: ?case if "add_folder_loop Z h fs path depth (name # names) failed pak = (Exit 1, pak)"
    unfolding that by (rule adds_none) simp_all
  consider (long) "length name + 1 > OS_PATH_MAX"
    | (dots) "\<not> length name + 1 > OS_PATH_MAX" "name = ascii ''..'' \<or> name = ascii ''.''"
    | (name) "\<not> length name + 1 > OS_PATH_MAX" "\<not> (name = ascii ''..'' \<or> name = ascii ''.'')" by blast
  then show ?case
  proof cases
    case long
    then show ?thesis by (intro stop) simp
  next
    case dots
    then show ?thesis using 3(1) [OF dots] by (intro skip) (auto simp: member_def)
  next
    case name
    show ?thesis
    proof (cases "build_filename OS_PATH_MAX path name")
      case None
      with name show ?thesis by (intro stop) simp
    next
      case (Some t)
      note b = Some
      show ?thesis
      proof (cases "pakka_platform_is_reparse_or_symlink (h_env h) fs t")
        case True
        then have "pakka_platform_lstat (h_env h) fs t = Some Symlink" by (simp add: pakka_platform_is_reparse_or_symlink_def)
        with True b name 3(2) [OF name b True] show ?thesis by (intro skip) (auto simp: member_def)
      next
        case ns: False
        show ?thesis
        proof (cases "pakka_platform_lstat (h_env h) fs t")
          case None
          with name b ns show ?thesis by (intro stop) simp
        next
          case (Some sb)
          define step where "step = (case sb of Directory \<Rightarrow> cli_add_folder_r Z h fs t (depth + 1) pak
              | Regular _ \<Rightarrow> cli_add_file Z h fs pak t t | _ \<Rightarrow> (Go (), pak))"
          obtain r pak1 where s: "step = (r, pak1)" by fastforce
          have eq: "add_folder_loop Z h fs path depth (name # names) failed pak
              = (case r of Exit n \<Rightarrow> (Exit n, pak1) | Go _ \<Rightarrow> ?loop pak1)"
            using name b ns Some s [unfolded step_def] by simp
          have "adds Z h fs (member h fs path name) pak step"
          proof (cases sb)
            case Directory
            have "adds Z h fs (in_folder h fs t) pak (cli_add_folder_r Z h fs t (depth + 1) pak)"
              by (rule 3(3) [OF name b ns Some Directory])
            with Directory name b Some show ?thesis unfolding step_def by (auto simp: member_def elim!: adds_cong)
          next
            case (Regular x)
            with name b Some show ?thesis unfolding step_def
              by (auto simp: member_def intro: adds_cong [OF adds_one])
          qed (use name b Some in \<open>auto simp: step_def member_def intro!: adds_none\<close>)
          then have one: "adds Z h fs (member h fs path name) pak (r, pak1)" by (simp add: s)
          have two: "adds Z h fs ?M pak1 (?loop pak1)" if "r = Go ()"
            by (rule 3(4) [OF name b ns Some refl s [unfolded step_def, symmetric] that])
          have "adds Z h fs (\<lambda>q. member h fs path name q \<or> ?M q) pak (case r of Exit n \<Rightarrow> (Exit n, pak1) | Go _ \<Rightarrow> ?loop pak1)"
            by (rule adds_then [OF one]) (use two in simp_all)
          then show ?thesis unfolding eq by (rule adds_cong) simp
        qed
      qed
    qed
  qed
qed

text \<open>The files that the arguments of an add name, directly or as folders.\<close>

definition taken :: "host \<Rightarrow> files \<Rightarrow> path list \<Rightarrow> path \<Rightarrow> bool" where
  "taken h fs paths q \<longleftrightarrow> (\<exists>p \<in> set paths. q = p \<and> (\<exists>b. pakka_platform_lstat (h_env h) fs p = Some (Regular b))
     \<or> pakka_platform_lstat (h_env h) fs p = Some Directory \<and> in_folder h fs p q)"

lemma path_adds: "adds Z h fs (taken h fs [p]) pak (cli_add_path Z h fs pak p)"
proof (cases "pakka_platform_lstat (h_env h) fs p")
  case None
  then show ?thesis by (auto simp: cli_add_path_def intro!: adds_none)
next
  case (Some sb)
  then show ?thesis
    using walk_adds(1) [of Z h fs p pak 0] adds_one [of Z h fs p pak]
    by (cases sb) (auto simp: cli_add_path_def pakka_platform_is_reparse_or_symlink_def taken_def intro!: adds_none
        elim!: adds_cong simp del: cli_add_folder_r.simps)
qed

lemma paths_add: "adds Z h fs (taken h fs paths) pak (cli_each (\<lambda>path pak. cli_add_path Z h fs pak path) paths pak)"
proof (induction paths arbitrary: pak)
  case Nil
  then show ?case by (auto simp: taken_def intro!: adds_none)
next
  case (Cons p paths)
  obtain r pak1 where s: "cli_add_path Z h fs pak p = (r, pak1)" by fastforce
  have "adds Z h fs (taken h fs [p]) pak (r, pak1)" using path_adds [of Z h fs p pak] s by simp
  then have "adds Z h fs (\<lambda>q. taken h fs [p] q \<or> taken h fs paths q) pak
      (case r of Exit n \<Rightarrow> (Exit n, pak1) | Go _ \<Rightarrow> cli_each (\<lambda>path pak. cli_add_path Z h fs pak path) paths pak1)"
    by (rule adds_then) (use Cons in simp_all)
  moreover have "cli_each (\<lambda>path pak. cli_add_path Z h fs pak path) (p # paths) pak
      = (case r of Exit n \<Rightarrow> (Exit n, pak1) | Go _ \<Rightarrow> cli_each (\<lambda>path pak. cli_add_path Z h fs pak path) paths pak1)"
    by (simp add: s split: cli.split)
  ultimately show ?case by (auto simp: taken_def elim: adds_cong)
qed

text \<open>So an add is a list of calls of \<^verbatim>\<open>pakka_add_file\<close> and, when they all succeed, a commit.\<close>

lemma op_add_files:
  assumes r: "op_add Z h fs pak paths aliased = (r, pak', fs')"
  shows "\<exists>xs r1 pak1. add_each Z h fs xs pak = (r1, pak1)
    \<and> (\<forall>(n, q) \<in> set xs. n = q \<and> taken h fs paths q \<or> (n, q) \<in> set aliased)
    \<and> ((\<exists>ps. xs = map (\<lambda>q. (q, q)) ps @ aliased \<and> (\<forall>q. q \<in> set ps \<longleftrightarrow> taken h fs paths q))
         \<and> r1 = Go () \<and> cli_commit Z h fs pak1 = (r, pak', fs')
       \<or> (\<exists>n. r = Exit n \<and> n \<noteq> 0) \<and> pak' = pak1 \<and> fs' = fs)"
proof -
  obtain rp pakp where p: "cli_each (\<lambda>path pak. cli_add_path Z h fs pak path) paths pak = (rp, pakp)" by fastforce
  from paths_add [of Z h fs paths pak] p obtain ps r0 where
    ps: "add_each Z h fs (map (\<lambda>q. (q, q)) ps) pak = (r0, pakp)" "\<forall>q \<in> set ps. taken h fs paths q"
    "rp = Go () \<longrightarrow> r0 = Go () \<and> (\<forall>q. taken h fs paths q \<longrightarrow> q \<in> set ps)" "rp \<noteq> Exit 0" by (auto simp: adds_def)
  show ?thesis
  proof (cases rp)
    case (Exit n)
    with r p ps(1,2,4) show ?thesis
      by (intro exI [of _ "map (\<lambda>q. (q, q)) ps"] exI [of _ r0] exI [of _ pakp]) (auto simp: op_add_def)
  next
    case (Go u)
    obtain ra paka where a: "add_each Z h fs aliased pakp = (ra, paka)" by fastforce
    have all: "add_each Z h fs (map (\<lambda>q. (q, q)) ps @ aliased) pak = (ra, paka)"
      using ps(1,3) Go a by (simp add: cli_each_append)
    have in_all: "\<forall>(n, q) \<in> set (map (\<lambda>q. (q, q)) ps @ aliased). n = q \<and> taken h fs paths q \<or> (n, q) \<in> set aliased"
      using ps(2) by auto
    have iff: "q \<in> set ps \<longleftrightarrow> taken h fs paths q" for q using ps(2,3) Go by auto
    have "ra = Go () \<and> cli_commit Z h fs paka = (r, pak', fs') \<or> (\<exists>n. r = Exit n \<and> n \<noteq> 0) \<and> pak' = paka \<and> fs' = fs"
      using r p Go a add_each_Exit [OF a] by (cases ra) (auto simp: op_add_def)
    with all in_all iff show ?thesis
      by (intro exI [of _ "map (\<lambda>q. (q, q)) ps @ aliased"] exI [of _ ra] exI [of _ paka]) blast
  qed
qed

section \<open>The handle of an edit\<close>

text \<open>While a run edits a PAK-class archive, the file on disk is what it was, the stream reads it, and the
  entries stand for the edited list.\<close>

definition edited :: "archive \<Rightarrow> files \<Rightarrow> contents \<Rightarrow> archive \<Rightarrow> contents \<Rightarrow> bool" where
  "edited a0 fs l0 a l \<longleftrightarrow> archive_wf a \<and> same_paths a a0 \<and> fp a = fp a0
     \<and> (\<exists>f. fp a = Some f \<and> listing fs f a = l \<and> fs (pak_path a) = Some (Regular (f_data f)))
     \<and> (dirty a \<or> l = l0)"

lemma editedI:
  "archive_wf a \<Longrightarrow> same_paths a a0 \<Longrightarrow> fp a = fp a0 \<Longrightarrow> fp a = Some f \<Longrightarrow> listing fs f a = l \<Longrightarrow>
   fs (pak_path a) = Some (Regular (f_data f)) \<Longrightarrow> dirty a \<or> l = l0 \<Longrightarrow> edited a0 fs l0 a l"
  unfolding edited_def by blast

lemma stage_file_frame: "stage_file env a q n src sz buf enc = (s, a') \<Longrightarrow> same_paths a' a"
  by (auto simp: stage_file_def pak_link_staged_entry_def same_paths_def Let_def split: if_splits option.splits prod.splits)

lemma add_file_frame:
  "pakka_add_file Z env fs (Some a) (Some q) (Some n) = (s, x) \<Longrightarrow> \<not> pakka_format_is_zip (format a) \<Longrightarrow> atomic_commit a \<Longrightarrow>
   \<exists>a'. x = Some a' \<and> same_paths a' a"
  by (auto simp: pakka_add_file_def Let_def same_paths_def split: if_splits option.splits prod.splits
      dest!: stage_file_frame [unfolded same_paths_def])

lemma delete_frame: "pakka_delete (Some a) (Some n) = (s, x) \<Longrightarrow> \<exists>a'. x = Some a' \<and> same_paths a' a"
  by (auto simp: pakka_delete_def Let_def same_paths_def split: if_splits option.splits)

lemma same_paths_trans: "same_paths a b \<Longrightarrow> same_paths b c \<Longrightarrow> same_paths a c"
  by (simp add: same_paths_def)

lemma edited_delete:
  assumes e: "edited a0 fs l0 a l" and r: "pakka_delete (Some a) (Some n) = (s, x)"
  shows "\<exists>a'. x = Some a' \<and> edited a0 fs l0 a' (if s = PAKKA_OK then without n l else l)
    \<and> (s = PAKKA_OK \<longrightarrow> dirty a' \<and> n \<in> fst ` set l)"
proof -
  obtain f where E: "archive_wf a" "same_paths a a0" "fp a = fp a0" "fp a = Some f" "listing fs f a = l"
    "fs (pak_path a) = Some (Regular (f_data f))" "dirty a \<or> l = l0" using e unfolding edited_def by blast
  obtain a' where a': "x = Some a'" "same_paths a' a" using delete_frame [OF r] by blast
  note D = delete_effect [OF E(1) r [unfolded a'(1)], of fs f]
  note P = same_paths_trans [OF a'(2) E(2)] same_paths_pak_path [OF a'(2)]
  show ?thesis
  proof (cases "s = PAKKA_OK")
    case True
    then obtain xs v ys where "listing fs f a = xs @ (n, v) # ys" "listing fs f a' = xs @ ys" "n \<notin> fst ` set xs"
      "dirty a'" "fp a' = fp a" "archive_wf a'" using D by auto
    moreover from this E(5) have "n \<in> fst ` set l" by force
    ultimately show ?thesis using E P True a'(1) without_split [of n xs v ys]
      by (intro exI [of _ a'] conjI editedI [of _ _ f]) simp_all
  next
    case False
    with D e a'(1) show ?thesis by simp
  qed
qed

lemma edited_add:
  assumes e: "edited a0 fs l0 a l" and at: "atomic_commit a0" and cs: "c_string n" and sz: "Suc (length l) < 2 ^ 32"
    and r: "pakka_add_file Z env fs (Some a) (Some q) (Some n) = (s, x)"
  shows "\<exists>a'. x = Some a' \<and> edited a0 fs l0 a' (if s = PAKKA_OK then l @ [(n, Some (file_bytes fs q))] else l)
    \<and> (s = PAKKA_OK \<longrightarrow> dirty a')"
proof -
  obtain f where E: "archive_wf a" "same_paths a a0" "fp a = fp a0" "fp a = Some f" "listing fs f a = l"
    "fs (pak_path a) = Some (Regular (f_data f))" "dirty a \<or> l = l0" using e unfolding edited_def by blast
  have at1: "atomic_commit a" "\<not> pakka_format_is_zip (format a)"
    using at E(2) archive_wf_geometry [OF E(1)] by (auto simp: same_paths_def)
  obtain a' where a': "x = Some a'" "same_paths a' a" using add_file_frame [OF r at1(2,1)] by blast
  have "Suc (length (entries a)) < 2 ^ 32" using sz E(5) listing_length [of fs f a] by simp
  note D = add_file_effect [OF E(1,4) cs this r [unfolded a'(1)]]
  note P = same_paths_trans [OF a'(2) E(2)] same_paths_pak_path [OF a'(2)]
  show ?thesis
  proof (cases "s = PAKKA_OK")
    case True
    with D at1(1) obtain b where "fs q = Some (Regular b)" "archive_wf a'" "fp a' = Some f" "dirty a'"
      "listing fs f a' = l @ [(n, Some b)]" using E(5) by auto
    with E P True a'(1) show ?thesis
      by (intro exI [of _ a'] conjI editedI [of _ _ f]) (simp_all add: regular_bytes)
  next
    case False
    with D at1(1) obtain f' where "a' = a\<lparr>fp := Some f'\<rparr>" "f' = f" by auto
    with E(4) have "a' = a" by simp
    with False e a'(1) show ?thesis by simp
  qed
qed

text \<open>Loops of edits. Whatever they come to, what is on disk has not changed.\<close>

definition keeps_disk :: "archive \<Rightarrow> files \<Rightarrow> archive option \<Rightarrow> bool" where
  "keeps_disk a0 fs pak \<longleftrightarrow> (\<exists>a f. pak = Some a \<and> same_paths a a0 \<and> fp a = Some f \<and> fs (pak_path a) = Some (Regular (f_data f)))"

lemma edited_keeps: "edited a0 fs l0 a l \<Longrightarrow> keeps_disk a0 fs (Some a)"
  unfolding edited_def keeps_disk_def by blast

lemma keeps_flush: "keeps_disk a0 fs pak \<Longrightarrow> exit_flush h pak fs = fs"
  by (auto simp: keeps_disk_def exit_flush_def publish_clean)

fun removable :: "cstring list \<Rightarrow> contents \<Rightarrow> bool" where
  "removable [] l = True"
| "removable (n # ns) l = (n \<in> fst ` set l \<and> removable ns (without n l))"

lemma edited_deletes:
  "edited a0 fs l0 a l \<Longrightarrow>
   cli_each (\<lambda>name pak. let (s, pak) = pakka_delete pak (Some name) in (if s \<noteq> PAKKA_OK then Exit 1 else Go (), pak))
     ns (Some a) = (r, pak) \<Longrightarrow>
   \<exists>a' l'. pak = Some a' \<and> edited a0 fs l0 a' l' \<and> r \<noteq> Exit 0
     \<and> (r = Go () \<longrightarrow> l' = fold without ns l \<and> removable ns l \<and> (ns \<noteq> [] \<longrightarrow> dirty a'))"
proof (induction ns arbitrary: a l)
  case Nil
  then show ?case by (auto intro!: exI [of _ l])
next
  case (Cons n ns)
  obtain s x where d: "pakka_delete (Some a) (Some n) = (s, x)" by fastforce
  from edited_delete [OF Cons.prems(1) d] obtain a1 where
    a1: "x = Some a1" "edited a0 fs l0 a1 (if s = PAKKA_OK then without n l else l)" "s = PAKKA_OK \<longrightarrow> dirty a1 \<and> n \<in> fst ` set l" by blast
  show ?case
  proof (cases "s = PAKKA_OK")
    case True
    then have e1: "edited a0 fs l0 a1 (without n l)" using a1(2) by simp
    have rest: "cli_each (\<lambda>name pak. let (s, pak) = pakka_delete pak (Some name) in (if s \<noteq> PAKKA_OK then Exit 1 else Go (), pak))
        ns (Some a1) = (r, pak)"
      using Cons.prems(2) d a1(1) True by simp
    from Cons.IH [OF e1 rest] obtain a' l' where
      "pak = Some a'" "edited a0 fs l0 a' l'" "r \<noteq> Exit 0"
      "r = Go () \<longrightarrow> l' = fold without ns (without n l) \<and> removable ns (without n l) \<and> (ns \<noteq> [] \<longrightarrow> dirty a')"
      by blast
    moreover have "ns = [] \<Longrightarrow> pak = Some a1" using rest by simp
    ultimately show ?thesis using a1(3) True by (intro exI [of _ a'] exI [of _ l']) (cases ns; auto)
  next
    case False
    with Cons.prems(2) d a1 show ?thesis by auto
  qed
qed

lemma edited_adds:
  "edited a0 fs l0 a l \<Longrightarrow> atomic_commit a0 \<Longrightarrow> \<forall>(n, q) \<in> set xs. c_string n \<Longrightarrow> length l + length xs < 2 ^ 32 \<Longrightarrow>
   add_each Z h fs xs (Some a) = (r, pak) \<Longrightarrow>
   \<exists>a' l'. pak = Some a' \<and> edited a0 fs l0 a' l'
     \<and> (r = Go () \<longrightarrow> l' = l @ map (\<lambda>(n, q). (n, Some (file_bytes fs q))) xs \<and> (xs \<noteq> [] \<longrightarrow> dirty a'))"
proof (induction xs arbitrary: a l)
  case Nil
  then show ?case by (auto intro!: exI [of _ l])
next
  case (Cons x xs)
  obtain n q where x: "x = (n, q)" by fastforce
  obtain s y where d: "pakka_add_file Z (h_env h) fs (Some a) (Some q) (Some n) = (s, y)" by fastforce
  have n: "c_string n" "Suc (length l) < 2 ^ 32" using Cons.prems(3,4) x by simp_all
  from edited_add [OF Cons.prems(1,2) n d] obtain a1 where
    a1: "y = Some a1" "edited a0 fs l0 a1 (if s = PAKKA_OK then l @ [(n, Some (file_bytes fs q))] else l)"
    "s = PAKKA_OK \<longrightarrow> dirty a1" by blast
  show ?case
  proof (cases "s = PAKKA_OK")
    case True
    then have e1: "edited a0 fs l0 a1 (l @ [(n, Some (file_bytes fs q))])" using a1(2) by simp
    have rest: "add_each Z h fs xs (Some a1) = (r, pak)"
      using Cons.prems(5) d a1(1) True x by (simp add: cli_add_file_def)
    have cs: "\<forall>(n, q) \<in> set xs. c_string n" "length (l @ [(n, Some (file_bytes fs q))]) + length xs < 2 ^ 32"
      using Cons.prems(3,4) by auto
    from Cons.IH [OF e1 Cons.prems(2) cs rest] obtain a' l' where
      "pak = Some a'" "edited a0 fs l0 a' l'"
      "r = Go () \<longrightarrow> l' = (l @ [(n, Some (file_bytes fs q))]) @ map (\<lambda>(n, q). (n, Some (file_bytes fs q))) xs \<and> (xs \<noteq> [] \<longrightarrow> dirty a')"
      by blast
    moreover have "xs = [] \<Longrightarrow> pak = Some a1" using rest by simp
    ultimately show ?thesis using a1(3) True x by (intro exI [of _ a'] exI [of _ l']) (cases xs; auto)
  next
    case False
    with Cons.prems(5) d a1 x show ?thesis by (auto simp: cli_add_file_def)
  qed
qed

section \<open>The end of a run\<close>

text \<open>The file holds an archive of the format with this list; \<open>stored_opens\<close> says that it opens as such.\<close>

definition archive_at :: "files \<Rightarrow> path \<Rightarrow> pakka_format \<Rightarrow> contents \<Rightarrow> bool" where
  "archive_at fs p fmt l \<longleftrightarrow> (\<exists>b. fs p = Some (Regular b) \<and> holds_listing b fmt l)"

definition run_end :: "zip_ops \<Rightarrow> host \<Rightarrow> unit cli \<times> archive option \<times> files \<Rightarrow> nat \<times> files" where
  "run_end Z h = (\<lambda>(r, pak, fs). case r of
       Exit n \<Rightarrow> (n, exit_flush h pak fs)
     | Go _ \<Rightarrow> (let (s, fs) = pakka_close Z (h_env h) fs pak in (if s \<noteq> PAKKA_OK then 1 else 0, fs)))"

lemma close_clean:
  "keeps_disk a0 fs (Some a) \<Longrightarrow> \<not> dirty a \<Longrightarrow> \<not> is_new a0 \<Longrightarrow> pakka_close Z env fs (Some a) = (PAKKA_OK, fs)"
  by (auto simp: keeps_disk_def pakka_close_def publish_clean same_paths_def)

lemma commit_end:
  assumes e: "edited a0 fs l0 a l" and m: "atomic_commit a0" "\<not> is_new a0" "mkstemp_fresh (h_env h)"
    and r: "run_end Z h (cli_commit Z h fs (Some a)) = (n, fs')"
  shows "if \<not> dirty a then n = 0 \<and> fs' = fs
    else n = 0 \<and> archive_at fs' (pak_path a0) (format a0) l
      \<or> n \<noteq> 0 \<and> (fs' (pak_path a0) = fs (pak_path a0) \<or> archive_at fs' (pak_path a0) (format a0) l)"
proof -
  obtain f where E: "archive_wf a" "same_paths a a0" "fp a = Some f" "listing fs f a = l"
    "fs (pak_path a) = Some (Regular (f_data f))" using e unfolding edited_def by blast
  have sp: "pak_path a = pak_path a0" "format a = format a0" "atomic_commit a" "writable a = writable a0"
    using E(2) m(1) same_paths_pak_path [OF E(2)] by (simp_all add: same_paths_def)
  obtain s x fs1 where c: "pakka_commit Z (h_env h) fs (Some a) = (s, x, fs1)" using prod_cases3 by blast
  obtain a1 where x: "x = Some a1" using c pakka_commit_Some [of Z "h_env h" fs a] by auto
  note cases = pakka_commit_cases [OF c [unfolded x] E(1,3)]
  show ?thesis
  proof (cases "dirty a")
    case False
    with cases have "s = PAKKA_OK" "a1 = a" "fs1 = fs" by auto
    with r c x False close_clean [OF edited_keeps [OF e] False m(2), of Z "h_env h"] show ?thesis
      by (simp add: run_end_def cli_commit_def)
  next
    case True
    consider (refused) "s = PAKKA_ERR_INVALID_ARGUMENT" "a1 = a" "fs1 = fs"
      | (rebuild) "pakka_commit_rebuild (h_env h) fs a f = (s, a1, fs1)"
      using cases True sp(3) by auto
    then show ?thesis
    proof cases
      case refused
      with r c x keeps_flush [OF edited_keeps [OF e]] have "n = 1 \<and> fs' = fs"
        by (auto simp: run_end_def cli_commit_def)
      with True show ?thesis by simp
    next
      case rebuild
      from commit_rebuild_disk [OF E(1,3) m(3) E(5) rebuild] show ?thesis
      proof
        assume k: "s \<noteq> PAKKA_OK \<and> untouched fs fs1 \<and> (\<exists>x. a1 = a\<lparr>fp := x\<rparr> \<and> (x = None \<or> f_data (the x) = f_data f))"
        then have u: "fs1 (pak_path a) = Some (Regular (f_data f))" using E(5) by (simp add: untouched_def)
        from k obtain y where y: "a1 = a\<lparr>fp := y\<rparr>" "y = None \<or> f_data (the y) = f_data f" by blast
        have "exit_flush h (Some a1) fs1 = fs1"
          using u y by (cases y) (auto simp: exit_flush_def publish_clean)
        with k r c x have "n = 1 \<and> fs' = fs1" by (simp add: run_end_def cli_commit_def)
        with u E(5) sp(1) True show ?thesis by simp
      next
        assume k: "rebuild_done (h_env h) fs a f s a1 fs1 \<and> sources_ok fs a
          \<and> (\<forall>q. q \<noteq> pak_path a \<longrightarrow> fs q \<noteq> None \<longrightarrow> fs1 q = fs q)"
        then obtain c0 b where B: "fs1 (pak_path a) = Some (Regular b)" "image_of (settled c0) b"
          "\<forall>g gs. f_data g = b \<longrightarrow> archive_wf (settled c0\<lparr>fp := Some g\<rparr>) \<and> listing gs g (settled c0) = listing fs f a"
          "\<exists>offs pend x y. c0 = relaid a offs pend x y"
          "case pakka_platform_fopen (h_env h) fs1 (pak_path a) True of
             None \<Rightarrow> s = PAKKA_ERR_IO \<and> a1 = c0\<lparr>fp := None\<rparr>
           | Some g \<Rightarrow> s = PAKKA_OK \<and> a1 = settled c0\<lparr>fp := Some g\<rparr> \<and> f_data g = b"
          unfolding rebuild_done_def by blast
        have fmt: "format (settled c0) = format a0" using B(4) sp(2) by (auto simp: settled_def relaid_def)
        have ns: "\<forall>e \<in> set (entries (settled c0)). \<not> is_staged e"
          by (auto simp: settled_def clear_pending_def is_staged_def)
        have at: "archive_at fs1 (pak_path a0) (format a0) l"
          unfolding archive_at_def holds_listing_def sp(1) [symmetric] E(4) [symmetric] using B(1-3) fmt ns by blast
        show ?thesis
        proof (cases "pakka_platform_fopen (h_env h) fs1 (pak_path a) True")
          case None
          with B(5) r c x have "n = 1 \<and> fs' = fs1" by (auto simp: run_end_def cli_commit_def exit_flush_def)
          with at True show ?thesis by simp
        next
          case (Some g)
          with B(5) have S: "s = PAKKA_OK" "a1 = settled c0\<lparr>fp := Some g\<rparr>" "f_data g = b" by auto
          have "same_paths a1 a" using B(4) by (auto simp: S(2) settled_def relaid_def same_paths_def)
          then have "same_paths a1 a0" "pak_path a1 = pak_path a" using E(2) same_paths_trans same_paths_pak_path by blast+
          then have "keeps_disk a0 fs1 (Some a1)" using B(1) S by (simp add: keeps_disk_def)
          moreover have "\<not> dirty a1" by (simp add: S(2) settled_def)
          ultimately have "n = 0 \<and> fs' = fs1"
            using close_clean [of a0 fs1 a1 Z "h_env h"] m(2) r c x S(1) by (simp add: run_end_def cli_commit_def)
          with at True show ?thesis by simp
        qed
      qed
    qed
  qed
qed

section \<open>Runs\<close>

text \<open>An opened PAK-class archive is at the start of an edit.\<close>

lemma pk3_ops_keeps_label: "zip_keeps_label (z_open (pk3_ops D) env)"
  by (auto simp: zip_keeps_label_def pk3_ops_def pakka_pk3_open_impl_def Let_def split: prod.splits cres.splits)

lemma open_edited:
  assumes o: "pakka_open_ex (pk3_ops D) env fs (Some p) (Some PAKKA_OPEN_READ_WRITE_ATOMIC) (Some hint) = (PAKKA_OK, Some a)"
    and nz: "\<not> pakka_format_is_zip (format a)" and reg: "fs p = Some (Regular b)" and fp: "fp a = Some f"
  shows "edited a fs (listing fs f a) a (listing fs f a) \<and> atomic_commit a \<and> \<not> is_new a \<and> pak_path a = p \<and> \<not> dirty a
    \<and> length (listing fs f a) \<le> PAKFILE_MAX_ENTRIES"
proof -
  have z: "zip_keeps_label (z_open (pk3_ops D) env)" by (rule pk3_ops_keeps_label)
  from open_facts [OF z o nz reg] show ?thesis
    using reg fp by (auto simp: edited_def same_paths_def listing_length)
qed

lemma run_opts_edit:
  assumes run: "run_opts Z h opts fs = Some (n, out, fs')"
    and m: "opt_mode opts = Some m" "m \<in> {PAK_ADD, PAK_REMOVE}" "opt_pakfile opts = Some p"
    and o: "pakka_open_ex Z (h_env h) fs (Some p) (Some PAKKA_OPEN_READ_WRITE_ATOMIC) (Some (opt_format opts)) = (PAKKA_OK, Some a)"
    and nz: "\<not> pakka_format_is_zip (format a)" and k: "keeps_disk a fs (Some a)"
  shows "out = [] \<and> (n = 1 \<and> fs' = fs
    \<or> (n, fs') = run_end Z h (if m = PAK_ADD then op_add Z h fs (Some a) (opt_paths opts) (opt_aliased opts)
         else op_remove Z h fs (Some a) (opt_paths opts)))"
proof (cases "compress_refused opts m")
  case True
  with run m show ?thesis by (simp add: run_opts_def)
next
  case False
  have c: "cli_open Z h fs opts m p = (PAKKA_OK, Some a, fs)" using m(2) o by (auto simp: cli_open_def)
  show ?thesis
  proof (cases "opt_compress opts")
    case True
    have "pakka_set_compression (Some a) 8 = (PAKKA_ERR_INVALID_ARGUMENT, Some a)"
      using nz by (simp add: pakka_set_compression_def)
    with run m c False True keeps_flush [OF k, of h] show ?thesis by (auto simp: run_opts_def)
  next
    case nc: False
    obtain r pak fs1 where res: "(if m = PAK_ADD then op_add Z h fs (Some a) (opt_paths opts) (opt_aliased opts)
         else op_remove Z h fs (Some a) (opt_paths opts)) = (r, pak, fs1)" using prod_cases3 by blast
    have "run_mode Z h opts m a fs = Some (r, [], pak, fs1)"
      using m(2) res by (auto simp: run_mode_def)
    with run m c False nc have "out = [] \<and> (n, fs') = run_end Z h (r, pak, fs1)"
      by (cases r) (auto simp: run_opts_def run_end_def Let_def split: prod.splits)
    then show ?thesis unfolding res by blast
  qed
qed

lemma run_end_exit: "keeps_disk a0 fs pak \<Longrightarrow> run_end Z h (Exit n, pak, fs) = (n, fs)"
  by (simp add: run_end_def keeps_flush)

text \<open>What is left of the file: the edited archive when the run succeeds; otherwise the file is as it was,
  or, when only the reopening after the commit failed, already the edited archive.\<close>

definition run_leaves :: "files \<Rightarrow> path \<Rightarrow> pakka_format \<Rightarrow> contents \<Rightarrow> nat \<Rightarrow> files \<Rightarrow> bool" where
  "run_leaves fs p fmt l n fs' \<longleftrightarrow>
     (if n = 0 then archive_at fs' p fmt l else fs' p = fs p \<or> archive_at fs' p fmt l)"

text \<open>C35: \<^verbatim>\<open>pakka -d\<close> on a PAK-class archive, from the command line to the file: exit status 0 means that every
  name was there to be removed and the file now holds the archive without the first entry of each; any
  other status leaves the file as it was, whatever the system refused, except that a failed reopening
  can come after the finished commit. There is no state in between.\<close>

theorem cli_remove_spec:
  assumes argv: "parseopts permute oom argv no_opts = Go opts"
    and m: "opt_mode opts = Some PAK_REMOVE" "opt_pakfile opts = Some p"
    and o: "pakka_open_ex (pk3_ops D) (h_env h) fs (Some p) (Some PAKKA_OPEN_READ_WRITE_ATOMIC) (Some (opt_format opts))
      = (PAKKA_OK, Some a)" "\<not> pakka_format_is_zip (format a)" "fp a = Some f"
    and sys: "fs p = Some (Regular b)" "mkstemp_fresh (h_env h)"
    and run: "cli_run (pk3_ops D) permute oom h argv fs = Some (n, out, fs')"
  shows "out = [] \<and> (n = 0 \<longrightarrow> removable (opt_paths opts) (listing fs f a))
    \<and> run_leaves fs p (format a) (fold without (opt_paths opts) (listing fs f a)) n fs'"
proof -
  let ?l = "listing fs f a"
  have wf: "opt_paths opts \<noteq> []" using parseopts_wf [OF argv] m(1) by (simp add: opts_wf_def)
  from open_edited [OF o(1,2) sys(1) o(3)] have E: "edited a fs ?l a ?l" and A: "atomic_commit a" "\<not> is_new a" "pak_path a = p"
    by auto
  have ro: "run_opts (pk3_ops D) h opts fs = Some (n, out, fs')" using run argv by (simp add: cli_run_def)
  from run_opts_edit [OF ro m(1) _ m(2) o(1,2) edited_keeps [OF E]] have out: "out = []" and
    R: "n = 1 \<and> fs' = fs \<or> (n, fs') = run_end (pk3_ops D) h (op_remove (pk3_ops D) h fs (Some a) (opt_paths opts))" by auto
  from R show ?thesis
  proof
    assume "n = 1 \<and> fs' = fs"
    with out show ?thesis by (simp add: run_leaves_def)
  next
    assume e: "(n, fs') = run_end (pk3_ops D) h (op_remove (pk3_ops D) h fs (Some a) (opt_paths opts))"
    obtain r pak where d: "cli_each (\<lambda>name pak. let (s, pak) = pakka_delete pak (Some name) in (if s \<noteq> PAKKA_OK then Exit 1 else Go (), pak))
        (opt_paths opts) (Some a) = (r, pak)" by fastforce
    from edited_deletes [OF E d] obtain a' l' where
      D: "pak = Some a'" "edited a fs ?l a' l'" "r \<noteq> Exit 0"
      "r = Go () \<longrightarrow> l' = fold without (opt_paths opts) ?l \<and> removable (opt_paths opts) ?l \<and> dirty a'" using wf by blast
    show ?thesis
    proof (cases r)
      case (Exit i)
      with e d D run_end_exit [OF edited_keeps [OF D(2)], of "pk3_ops D" h i] have "n \<noteq> 0 \<and> fs' = fs"
        by (simp add: op_remove_def)
      with out show ?thesis by (simp add: run_leaves_def)
    next
      case (Go u)
      with e d D(1) have "run_end (pk3_ops D) h (cli_commit (pk3_ops D) h fs (Some a')) = (n, fs')" by (simp add: op_remove_def)
      from commit_end [OF D(2) A(1,2) sys(2) this] D(4) Go A(3) out show ?thesis by (auto simp: run_leaves_def)
    qed
  qed
qed

text \<open>What an add of paths and pairs leaves of the file: the archive with the files \<open>xs\<close> appended, which are
  all the files the arguments name when the status is 0, and some of them otherwise. The names have to be C
  strings, and the entries must not outnumber what the 32-bit count of the handle can hold.\<close>

definition add_leaves :: "host \<Rightarrow> files \<Rightarrow> path list \<Rightarrow> (cstring \<times> path) list \<Rightarrow> path \<Rightarrow> pakka_format \<Rightarrow> contents
    \<Rightarrow> nat \<Rightarrow> files \<Rightarrow> bool" where
  "add_leaves h fs paths aliased p fmt l n fs' \<longleftrightarrow>
     (\<exists>xs. (\<forall>(e, q) \<in> set xs. e = q \<and> taken h fs paths q \<or> (e, q) \<in> set aliased)
      \<and> (n = 0 \<longrightarrow> (\<exists>ps. xs = map (\<lambda>q. (q, q)) ps @ aliased \<and> (\<forall>q. q \<in> set ps \<longleftrightarrow> taken h fs paths q)))
      \<and> (length l + length xs < 2 ^ 32 \<and> (\<forall>(e, q) \<in> set xs. c_string e) \<longrightarrow>
           (if n = 0 \<and> xs = [] then fs' p = fs p
            else run_leaves fs p fmt (l @ map (\<lambda>(e, q). (e, Some (file_bytes fs q))) xs) n fs')))"

text \<open>The operation and the end of the process, on an archive that is as it was opened.\<close>

lemma op_add_leaves:
  assumes E: "edited a fs l a l" and A: "atomic_commit a" "\<not> is_new a" "\<not> dirty a" and sys: "mkstemp_fresh (h_env h)"
    and e: "(n, fs') = run_end (pk3_ops D) h (op_add (pk3_ops D) h fs (Some a) paths aliased)"
  shows "add_leaves h fs paths aliased (pak_path a) (format a) l n fs'"
proof -
  obtain r pak fs1 where ad: "op_add (pk3_ops D) h fs (Some a) paths aliased = (r, pak, fs1)"
    using prod_cases3 by blast
  from op_add_files [OF ad] obtain xs r1 pak1 where
    X: "add_each (pk3_ops D) h fs xs (Some a) = (r1, pak1)"
    "\<forall>(n, q) \<in> set xs. n = q \<and> taken h fs paths q \<or> (n, q) \<in> set aliased"
    "(\<exists>ps. xs = map (\<lambda>q. (q, q)) ps @ aliased \<and> (\<forall>q. q \<in> set ps \<longleftrightarrow> taken h fs paths q))
       \<and> r1 = Go () \<and> cli_commit (pk3_ops D) h fs pak1 = (r, pak, fs1)
     \<or> (\<exists>n. r = Exit n \<and> n \<noteq> 0) \<and> pak = pak1 \<and> fs1 = fs" by blast
  let ?l' = "l @ map (\<lambda>(e, q). (e, Some (file_bytes fs q))) xs"
  have ed: "\<exists>a' l'. pak1 = Some a' \<and> edited a fs l a' l' \<and> (r1 = Go () \<longrightarrow> l' = ?l' \<and> (xs \<noteq> [] \<longrightarrow> dirty a'))"
    if "length l + length xs < 2 ^ 32" "\<forall>(e, q) \<in> set xs. c_string e"
    using edited_adds [OF E A(1) that(2,1) X(1)] .
  have n0: "\<exists>ps. xs = map (\<lambda>q. (q, q)) ps @ aliased \<and> (\<forall>q. q \<in> set ps \<longleftrightarrow> taken h fs paths q)"
    if "n = 0"
    using X(3) e ad that by (auto simp: run_end_def)
  have fin: "if n = 0 \<and> xs = [] then fs' (pak_path a) = fs (pak_path a) else run_leaves fs (pak_path a) (format a) ?l' n fs'"
    if b: "length l + length xs < 2 ^ 32" "\<forall>(e, q) \<in> set xs. c_string e"
  proof -
    from ed [OF b] obtain a' l' where D: "pak1 = Some a'" "edited a fs l a' l'"
      "r1 = Go () \<longrightarrow> l' = ?l' \<and> (xs \<noteq> [] \<longrightarrow> dirty a')" by blast
    from X(3) show ?thesis
    proof (elim disjE)
      assume c: "(\<exists>ps. xs = map (\<lambda>q. (q, q)) ps @ aliased \<and> (\<forall>q. q \<in> set ps \<longleftrightarrow> taken h fs paths q))
        \<and> r1 = Go () \<and> cli_commit (pk3_ops D) h fs pak1 = (r, pak, fs1)"
      then have "run_end (pk3_ops D) h (cli_commit (pk3_ops D) h fs (Some a')) = (n, fs')" using e ad D(1) by simp
      note CE = commit_end [OF D(2) A(1,2) sys this]
      show ?thesis
      proof (cases "xs = []")
        case True
        then have "a' = a" using X(1) D(1) by simp
        with CE A(3) True show ?thesis by simp
      next
        case False
        with CE D(3) c show ?thesis by (auto simp: run_leaves_def)
      qed
    next
      assume x: "(\<exists>n. r = Exit n \<and> n \<noteq> 0) \<and> pak = pak1 \<and> fs1 = fs"
      then obtain i where "r = Exit i" "i \<noteq> 0" by blast
      with e ad x D(1) run_end_exit [OF edited_keeps [OF D(2)], of "pk3_ops D" h i] have "n \<noteq> 0 \<and> fs' = fs" by simp
      then show ?thesis by (simp add: run_leaves_def)
    qed
  qed
  from X(2) n0 fin show ?thesis unfolding add_leaves_def by blast
qed


section \<open>Sample runs\<close>

lemma run_opts_total:
  "opt_mode opts = Some m \<Longrightarrow> m \<noteq> PAK_EXTRACT \<Longrightarrow> \<exists>n out fs'. run_opts Z h opts fs = Some (n, out, fs')"
proof -
  assume m: "opt_mode opts = Some m" "m \<noteq> PAK_EXTRACT"
  have mode: "\<exists>r out pak fs2. run_mode Z h opts m a fs1 = Some (r, out, pak, fs2)" for a fs1
    using m(2) by (cases m) (simp_all add: run_mode_def split_beta split: cli.split)
  let ?F = "\<lambda>(r, out, pak, fs). case r of Exit n \<Rightarrow> Some (n, out, exit_flush h pak fs)
      | Go _ \<Rightarrow> (let (s, fs) = pakka_close Z (h_env h) fs pak in Some (if s \<noteq> PAKKA_OK then 1 else 0, out, fs))"
  have fin: "\<exists>n out fs'. Option.bind (run_mode Z h opts m a fs1) ?F = Some (n, out, fs')" for a fs1
  proof -
    obtain r out pak fs2 where "run_mode Z h opts m a fs1 = Some (r, out, pak, fs2)" using mode by blast
    then show ?thesis by (cases r) (simp_all add: split_beta)
  qed
  show ?thesis
    using m(1) fin by (auto simp: run_opts_def Let_def split: option.split prod.split)
qed

definition small_pak_disk :: "u8 list \<Rightarrow> files" where
  "small_pak_disk b = (\<lambda>_. None)(ascii ''n'' \<mapsto> Regular b, ascii ''x'' \<mapsto> Regular [7])"

text \<open>The bytes a commit of the sample archive left, in a file that opens.\<close>

lemma small_pak_opens:
  "\<exists>b a f. pakka_open_ex Z quiet_env (small_pak_disk b) (Some (ascii ''n'')) (Some PAKKA_OPEN_READ_WRITE_ATOMIC)
      (Some PAKKA_FORMAT_PAK) = (PAKKA_OK, Some a)
    \<and> \<not> pakka_format_is_zip (format a) \<and> format a = PAKKA_FORMAT_PAK \<and> fp a = Some f
    \<and> listing (small_pak_disk b) f a = [(ascii ''b.cfg'', Some [4, 5])]"
proof -
  obtain a' fs' where r: "pakka_commit without_zip quiet_env sample_disk (Some sample_dirty) = (PAKKA_OK, Some a', fs')"
    by (rule sample_committed)
  have p: "pak_path sample_dirty = []" by (rule sample_dirty_simps)
  have ex: "sample_disk (pak_path sample_dirty) \<noteq> None" by (simp add: sample_dirty_simps)
  have l: "listing sample_disk sample_fp sample_dirty = [(ascii ''b.cfg'', Some [4, 5])]"
    by (simp add: listing_def sample_entries entry_content_def stored_bytes_def calloc_entry_def is_staged_def
        sample_fp_def pak_entry_on_disk_extent_def ascii_def payload_bytes_def empty_stream_def)
  from commit_OK [OF sample_dirty_wf sample_dirty_simps(1,2) quiet_fresh ex r] obtain g where
    g: "fp a' = Some g" "archive_wf a'" "listing fs' g a' = listing sample_disk sample_fp sample_dirty"
    "list_all (\<lambda>e. \<not> is_staged e) (entries a')" "fs' [] = Some (Regular (f_data g))" "image_of a' (f_data g)"
    unfolding p by blast
  have fmt: "format a' = PAKKA_FORMAT_PAK"
    using pakka_commit_format [OF r sample_dirty_wf sample_dirty_simps(1) quiet_fresh ex]
    by (simp add: sample_dirty_def sample_pak_def)
  have h: "holds_listing (f_data g) PAKKA_FORMAT_PAK [(ascii ''b.cfg'', Some [4, 5])]"
    using holds_listingI [OF g(2,1,4,6), of fs'] g(3) l fmt by simp
  have len: "length (f_data g) = 78" using sample_commit_length [OF r] g(5) by (simp add: file_bytes_def)
  let ?fs = "small_pak_disk (f_data g)"
  have reg: "?fs (ascii ''n'') = Some (Regular (f_data g))" by (simp add: small_pak_disk_def ascii_def)
  have co: "can_open quiet_env ?fs (ascii ''n'') PAKKA_OPEN_READ_WRITE_ATOMIC"
    using reg len by (simp add: can_open_def file_bytes_def quiet_env_simps quiet_limits_def OS_PATH_MAX_def ascii_def)
  have "length [(ascii ''b.cfg'', Some [4, 5 :: u8])] \<le> PAKFILE_MAX_ENTRIES" "hint_fits PAKKA_FORMAT_PAK PAKKA_FORMAT_PAK"
    by (simp_all add: PAKFILE_MAX_ENTRIES_def hint_fits_def)
  from stored_opens [OF h this(1) reg co this(2), of Z] obtain a f where
    "pakka_open_ex Z quiet_env ?fs (Some (ascii ''n'')) (Some PAKKA_OPEN_READ_WRITE_ATOMIC) (Some PAKKA_FORMAT_PAK)
      = (PAKKA_OK, Some a)" "fp a = Some f" "listing ?fs f a = [(ascii ''b.cfg'', Some [4, 5])]" "format a = PAKKA_FORMAT_PAK"
    by blast
  then show ?thesis
    by (intro exI [of _ "f_data g"] exI [of _ a] exI [of _ f]) (simp add: pakka_format_is_zip_def)
qed

definition remove_argv :: "cstring list" where
  "remove_argv = map ascii [''pakka'', ''-d'', ''--format'', ''pak'', ''n'', ''b.cfg'']"

definition add_argv :: "cstring list" where
  "add_argv = map ascii [''pakka'', ''-a'', ''n'', ''x'', ''--format'', ''pak'']"

definition edit_opts :: "cli_mode \<Rightarrow> cstring \<Rightarrow> opts" where
  "edit_opts m x = no_opts\<lparr>opt_mode := Some m, opt_pakfile := Some (ascii ''n''), opt_paths := [x], opt_format := PAKKA_FORMAT_PAK\<rparr>"

lemma edit_opts_simps [simp]:
  "opt_mode (edit_opts m x) = Some m" "opt_pakfile (edit_opts m x) = Some (ascii ''n'')" "opt_paths (edit_opts m x) = [x]"
  "opt_aliased (edit_opts m x) = []" "opt_format (edit_opts m x) = PAKKA_FORMAT_PAK"
  by (simp_all add: edit_opts_def no_opts_def)

lemma sample_argv:
  "parseopts True (\<lambda>_. False) remove_argv no_opts = Go (edit_opts PAK_REMOVE (ascii ''b.cfg''))"
  "parseopts True (\<lambda>_. False) add_argv no_opts = Go (edit_opts PAK_ADD (ascii ''x''))"
  by (simp_all add: parseopts_def remove_argv_def add_argv_def long_option_def ascii_def format_named_def short_mode_def
      setmodetype_def take_positionals_def skip_dashes_def check_opts_def edit_opts_def no_opts_def Let_def)

lemma sample_run:
  "m \<noteq> PAK_EXTRACT \<Longrightarrow> parseopts True (\<lambda>_. False) argv no_opts = Go (edit_opts m x) \<Longrightarrow>
   \<exists>n out fs'. cli_run Z True (\<lambda>_. False) h argv fs = Some (n, out, fs')"
  using run_opts_total [of "edit_opts m x" m Z h fs] by (simp add: cli_run_def)

lemma cli_remove_spec_witness:
  "\<exists>b n out fs'. cli_run (pk3_ops (vendored sample_codec)) True (\<lambda>_. False) out_host remove_argv (small_pak_disk b) = Some (n, out, fs')
     \<and> out = [] \<and> run_leaves (small_pak_disk b) (ascii ''n'') PAKKA_FORMAT_PAK [] n fs'"
proof -
  let ?Z = "pk3_ops (vendored sample_codec)"
  obtain b a f where o: "pakka_open_ex ?Z quiet_env (small_pak_disk b) (Some (ascii ''n'')) (Some PAKKA_OPEN_READ_WRITE_ATOMIC)
      (Some PAKKA_FORMAT_PAK) = (PAKKA_OK, Some a)" "\<not> pakka_format_is_zip (format a)" "format a = PAKKA_FORMAT_PAK" "fp a = Some f"
    "listing (small_pak_disk b) f a = [(ascii ''b.cfg'', Some [4, 5])]"
    using small_pak_opens by blast
  have h: "h_env out_host = quiet_env" by (simp add: out_host_def)
  have reg: "small_pak_disk b (ascii ''n'') = Some (Regular b)" by (simp add: small_pak_disk_def ascii_def)
  obtain n out fs' where r: "cli_run ?Z True (\<lambda>_. False) out_host remove_argv (small_pak_disk b) = Some (n, out, fs')"
    using sample_run [OF _ sample_argv(1)] by blast
  from cli_remove_spec [OF sample_argv(1) _ _ _ o(2,4) reg _ r] o h quiet_fresh r show ?thesis
    by (intro exI [of _ b] exI [of _ n] exI [of _ out] exI [of _ fs']) simp
qed


end
