(* ===== verification/Verify_Props.thy ===== *)
theory Verify_Props
  imports Extract_Props Pak_Verify
begin

text \<open>
  What \<open>pakka_verify\<close> vouches for when it reports no error.
\<close>

section \<open>One entry\<close>

definition decodes :: "deflate_ops \<Rightarrow> cfile \<Rightarrow> archive \<Rightarrow> pentry \<Rightarrow> bool" where
  "decodes D f a e \<longleftrightarrow> (\<exists>c. content_in D (\<lambda>_. None) f a e = Some c \<and> length c = unat (entry_length e)
     \<and> (pakka_format_is_zip (format a) \<longrightarrow> pakka_crc32_update 0 c = crc32 e))"

lemma decodes_stream: "\<not> is_staged e \<Longrightarrow> f_data g = f_data f \<Longrightarrow> decodes D g (a\<lparr>fp := x\<rparr>) e = decodes D f a e"
  using content_in_stream [of e g f D "\<lambda>_. None" x a "\<lambda>_. None"] by (simp add: decodes_def)

lemma read_chunks_data: "read_chunks f n = (ok, g) \<Longrightarrow> f_data g = f_data f"
proof (induction n arbitrary: f rule: less_induct)
  case (less n)
  show ?case
  proof (cases "0 < n")
    case False
    with less.prems show ?thesis by (simp add: read_chunks.simps)
  next
    case True
    obtain b f1 where r: "fread_all f (chunk_of n) = (b, f1)" by fastforce
    note d = fread_all_data [OF r]
    show ?thesis
    proof (cases b)
      case None
      with less.prems r d True show ?thesis by (simp add: read_chunks_turn)
    next
      case (Some x)
      have "n - chunk_of n < n" using True by (simp add: chunk_of_def PAKFILE_COPY_CHUNK_def)
      with less.IH [of "n - chunk_of n" f1] less.prems r d True Some show ?thesis by (simp add: read_chunks_turn)
    qed
  qed
qed

lemma seek_data: "fseek_set f n = (ok, g) \<Longrightarrow> f_data g = f_data f"
  by (auto simp: fseek_set_def split: if_splits)

text \<open>The deep checks.\<close>

lemma fread_none: "fread_all f 0 = (Some b, g) \<Longrightarrow> b = []"
  by (auto simp: fread_all_def fread_def Let_def)

lemma load_compressed_empty:
  assumes r: "pk3_load_compressed env f e = (s, b, g)" and n: "pk3_compressed_size e = 0"
  shows "f_data g = f_data f \<and> (s = PAKKA_OK \<longrightarrow> b = [])"
proof -
  obtain ok f1 where sk: "fseek_set f (unat (pk3_payload_offset e)) = (ok, f1)" by fastforce
  obtain x f2 where rd: "fread_all f1 0 = (x, f2)" by fastforce
  have "f_data f1 = f_data f" "f_data f2 = f_data f1" using seek_data [OF sk] fread_all_data [OF rd] by simp_all
  with r sk rd n fread_none [of f1] show ?thesis
    by (auto simp: pk3_load_compressed_def split: if_splits option.splits)
qed

lemma load_compressed_bytes:
  assumes "pk3_load_compressed env f e = (s, b, g)"
  shows "f_data g = f_data f \<and> (s = PAKKA_OK \<longrightarrow> \<not> is_staged e \<longrightarrow> b = zip_bytes fs f e \<and> length b = unat (pk3_compressed_size e))"
proof (cases "pk3_compressed_size e = 0")
  case True
  with load_compressed_empty [OF assms] show ?thesis by (auto simp: zip_bytes_def is_staged_def)
next
  case False
  with pk3_load_compressed_spec [OF assms] show ?thesis by blast
qed

lemma deep_zip:
  assumes r: "pakka_pk3_deep_verify_entry D env a e = (s, a')" and fp: "fp a = Some f"
    and z: "pakka_format_is_zip (format a)" and k: "zip_kind_wf e" and st: "\<not> is_staged e"
  shows "\<exists>g. a' = a\<lparr>fp := Some g\<rparr> \<and> f_data g = f_data f
    \<and> (s = PAKKA_OK \<and> \<not> (pk3_compressed_size e = 0 \<and> entry_length e = 0) \<longrightarrow> decodes D f a e)"
proof -
  note id = same_fp [OF fp]
  have ns: "pending_source e = None" "pending_data e = None" using st by (simp_all add: is_staged_def)
  show ?thesis
  proof (cases "over_cap a (entry_length e) (pk3_compressed_size e) \<or> entry_length e = 0 \<and> pk3_compressed_size e = 0")
    case True
    with r ns id have "a' = a \<and> (s = PAKKA_OK \<longrightarrow> entry_length e = 0 \<and> pk3_compressed_size e = 0)"
      by (auto simp: pakka_pk3_deep_verify_entry_def split: if_splits)
    then show ?thesis using id by (intro exI [of _ f]) auto
  next
    case False
    obtain s1 b g where ld: "pk3_load_compressed env f e = (s1, b, g)" using prod_cases3 by blast
    have nc: "\<not> over_cap a (entry_length e) (pk3_compressed_size e)" "(entry_length e = 0 \<and> pk3_compressed_size e = 0) = False"
      using False by auto
    have eq: "pakka_pk3_deep_verify_entry D env a e =
        (if s1 \<noteq> PAKKA_OK then (s1, a\<lparr>fp := Some g\<rparr>)
         else if pk3_method e = PK3_METHOD_STORED then
           (if pakka_crc32_update 0 b \<noteq> crc32 e then PAKKA_ERR_FORMAT else PAKKA_OK, a\<lparr>fp := Some g\<rparr>)
         else (let (s, inflated) = pk3_inflate D env b (entry_length e) in
           (if s \<noteq> PAKKA_OK then s
            else (case inflated of None \<Rightarrow> if crc32 e = 0 then PAKKA_OK else PAKKA_ERR_FORMAT
              | Some out \<Rightarrow> if pakka_crc32_update 0 out \<noteq> crc32 e then PAKKA_ERR_FORMAT else PAKKA_OK), a\<lparr>fp := Some g\<rparr>)))"
      unfolding pakka_pk3_deep_verify_entry_def nc(2) using nc(1) by (simp add: ns fp ld Let_def split_beta split: option.split)
    note L = load_compressed_bytes [OF ld, of "\<lambda>_. None"]
    let ?a = "a\<lparr>fp := Some g\<rparr>"
    show ?thesis
    proof (cases "s1 = PAKKA_OK")
      case no: False
      with r eq have "s = s1 \<and> a' = ?a" by simp
      with no L show ?thesis by blast
    next
      case True
      then have b: "b = zip_bytes (\<lambda>_. None) f e" "length b = unat (pk3_compressed_size e)" using L st by auto
      show ?thesis
      proof (cases "pk3_method e = PK3_METHOD_STORED")
        case m: True
        with r eq True have R: "a' = ?a" "s = PAKKA_OK \<Longrightarrow> pakka_crc32_update 0 b = crc32 e"
          by (auto split: if_splits)
        have "decodes D f a e" if "s = PAKKA_OK"
          using R(2) [OF that] b m k z by (auto simp: decodes_def content_in_def zip_content_def zip_decode_def zip_kind_wf_def)
        with R(1) L show ?thesis by blast
      next
        case m: False
        obtain s2 x where inf: "pk3_inflate D env b (entry_length e) = (s2, x)" by fastforce
        with r eq True m have R: "a' = ?a"
          "s = PAKKA_OK \<Longrightarrow> s2 = PAKKA_OK \<and> (case x of None \<Rightarrow> crc32 e = 0 | Some out \<Rightarrow> pakka_crc32_update 0 out = crc32 e)"
          by (auto split: if_splits option.splits)
        have "decodes D f a e" if ok: "s = PAKKA_OK"
        proof -
          from pk3_inflate_OK [OF inf [unfolded R(2) [OF ok, THEN conjunct1]] m] obtain c where
            c: "zip_decode D (pk3_method e) (entry_length e) b = Some c" "length c = unat (entry_length e)"
            "x = (if entry_length e = 0 then None else Some c)" by blast
          have "pakka_crc32_update 0 c = crc32 e"
            using R(2) [OF ok] c(2,3) by (cases "entry_length e = 0") (auto simp: pakka_crc32_update_def)
          with c(1,2) b(1) z show ?thesis by (simp add: decodes_def content_in_def zip_content_def)
        qed
        with R(1) L show ?thesis by blast
      qed
    qed
  qed
qed

lemma deep_dk:
  assumes r: "verify_dk_deep env a f e = (s, g)" and z: "\<not> pakka_format_is_zip (format a)"
    and dk: "dk_is_compressed e" and st: "\<not> is_staged e" and l: "entry_end e \<le> length (f_data f)"
  shows "f_data g = f_data f \<and> (s = PAKKA_OK \<longrightarrow> decodes D f a e)"
proof -
  let ?n = "unat (dk_compressed_size e)" and ?m = "unat (entry_length e)"
  have x: "pak_entry_on_disk_extent e = dk_compressed_size e" using dk by (simp add: pak_entry_on_disk_extent_def)
  obtain cm f1 where cm: "(if dk_compressed_size e > 0 then
        (let (sought, f1) = fseek_set f (unat (offset e)) in
         if \<not> sought then (None, f1) else fread_all f1 ?n)
      else (Some [], f)) = (cm, f1)" by fastforce
  have d1: "f_data f1 = f_data f"
    using cm seek_data fread_all_data by (fastforce split: if_splits prod.splits)
  have g: "f_data g = f_data f"
    using r d1 unfolding verify_dk_deep_def Let_def cm [unfolded Let_def]
    by (auto split: if_splits option.splits cres.splits)
  have "decodes D f a e" if ok: "s = PAKKA_OK"
  proof -
    obtain b where b: "cm = Some b"
      using r ok unfolding verify_dk_deep_def Let_def cm [unfolded Let_def]
      by (cases cm) (auto split: if_splits)
    note B = dk_payload_read [OF dk cm [unfolded b]]
    then have lb: "length b = ?n" by blast
    have nz: "dk_compressed_size e > 0 \<longleftrightarrow> ?n > 0" "entry_length e > 0 \<longleftrightarrow> ?m > 0"
      by (simp_all add: unat_gt_0 word_gt_0)
    have io: "pakka_dk_inflate (if dk_compressed_size e > 0 then Some b else None) ?n
        (if entry_length e > 0 then Some (replicate ?m 0) else None) ?m = pakka_dk_inflate (Some b) (length b) (Some (replicate ?m 0)) ?m"
      unfolding nz lb by (rule inflate_optional [OF lb])
    define X Y where "X = (if dk_compressed_size e > 0 then Some b else None)"
      and "Y = (if entry_length e > 0 then Some (replicate ?m (0 :: u8)) else None)"
    have inf: "(case pakka_dk_inflate X ?n Y ?m of Ok _ \<Rightarrow> (PAKKA_OK, f1) | Fail dv \<Rightarrow> (dv, f1) | Fault \<Rightarrow> (PAKKA_ERR_FORMAT, f1)) = (PAKKA_OK, g)"
      using r ok unfolding verify_dk_deep_def Let_def cm [unfolded Let_def] b option.case prod.case X_def [symmetric] Y_def [symmetric]
      by (simp split: if_splits)
    have "pakka_dk_inflate X ?n Y ?m = pakka_dk_inflate (Some b) (length b) (Some (replicate ?m 0)) ?m"
      unfolding X_def Y_def by (rule io)
    with inf inflate_Fail [of b ?m]
    obtain y where y: "pakka_dk_inflate (Some b) (length b) (Some (replicate ?m 0)) ?m = Ok y"
      by (cases "pakka_dk_inflate (Some b) (length b) (Some (replicate ?m 0)) ?m") auto
    from inflate_Ok [OF y] have "entry_content (\<lambda>_. None) f e = Some y" "length y = ?m"
      using dk st B by (simp_all add: entry_content_def stored_bytes_def is_staged_def)
    with z show ?thesis by (simp add: decodes_def content_in_def)
  qed
  with g show ?thesis by blast
qed

lemma plain_decodes:
  assumes "\<not> pakka_format_is_zip (format a)" "\<not> dk_is_compressed e" "\<not> is_staged e" "entry_end e \<le> length (f_data f)"
  shows "decodes D f a e"
  using assms by (simp add: decodes_def content_in_def entry_content_def stored_bytes_def is_staged_def payload_bytes_def
      pak_entry_on_disk_extent_def entry_end_def)

text \<open>What an entry that passes is known to be. One that is empty on both sides is not looked at.\<close>

definition vouched :: "deflate_ops \<Rightarrow> bool \<Rightarrow> cfile \<Rightarrow> archive \<Rightarrow> pentry \<Rightarrow> bool" where
  "vouched D deep f a e \<longleftrightarrow> safe_name (filename e)
     \<and> (\<not> is_staged e \<and> \<not> (snd (verify_extent a e) = 0 \<and> entry_length e = 0)
        \<and> (deep \<or> \<not> pakka_format_is_zip (format a) \<and> \<not> dk_is_compressed e) \<longrightarrow> decodes D f a e)"

definition passed :: "verify_state \<Rightarrow> bool" where
  "passed st \<longleftrightarrow> snd st = PAKKA_OK"

lemma passed_simps [simp]:
  "passed (verify_report sev s n st) = passed st" "s \<noteq> PAKKA_OK \<Longrightarrow> \<not> passed (verify_record_error s n st)"
  by (cases st; auto simp: passed_def verify_report_def verify_record_error_def)+

lemma verify_entry_spec:
  assumes wf: "handle_wf a" and fp: "fp a = Some f" and e: "e \<in> set (entries a)"
    and r: "verify_entry (pk3_ops D) env deep a f e st = (st', a')"
  shows "\<exists>g. a' = a\<lparr>fp := Some g\<rparr> \<and> f_data g = f_data f \<and> (passed st' \<longrightarrow> passed st \<and> vouched D deep f a e)"
proof -
  note id = same_fp [OF fp]
  obtain off len where x: "verify_extent a e = (off, len)" by fastforce
  have nm: "name_ok (filename e)" using op_extract_names [OF wf] e by blast
  show ?thesis
  proof (cases "pakka_unsafe_entry_name (Some (filename e)) \<noteq> Ok False")
    case True
    with r x id show ?thesis by (intro exI [of _ f]) (auto simp: verify_entry_def)
  next
    case False
    then have safe: "safe_name (filename e)" "(pakka_unsafe_entry_name (Some (filename e)) \<noteq> Ok False) = False"
      using unsafe_entry_name_iff [of "filename e"] nm by (auto simp: name_ok_def)
    show ?thesis
    proof (cases "is_staged e \<or> len = 0 \<and> entry_length e = 0")
      case True
      then have "st' = verify_report PAKKA_REPORT_INFO PAKKA_OK (filename e) st \<and> a' = a"
        using r x unfolding verify_entry_def Let_def safe(2) by (auto simp: is_staged_def split: if_splits)
      with True safe(1) x id show ?thesis by (intro exI [of _ f]) (auto simp: vouched_def)
    next
      case go: False
      then have st0: "(pending_source e \<noteq> None \<or> pending_data e \<noteq> None) = False" "(len = 0 \<and> entry_length e = 0) = False"
        and st: "\<not> is_staged e" by (auto simp: is_staged_def)
      obtain ok f1 where sk: "fseek_set f (unat off) = (ok, f1)" by fastforce
      note d1 = seek_data [OF sk]
      obtain full f2 where rd: "read_chunks f1 (unat len) = (full, f2)" by fastforce
      have d2: "f_data f2 = f_data f" using read_chunks_data [OF rd] d1 by simp
      let ?a = "a\<lparr>fp := Some f2\<rparr>" and ?n = "filename e"
      let ?info = "verify_report PAKKA_REPORT_INFO PAKKA_OK ?n st"
      have eq: "verify_entry (pk3_ops D) env deep a f e st =
          (if \<not> ok then (verify_record_error PAKKA_ERR_IO ?n st, a\<lparr>fp := Some f1\<rparr>)
           else if \<not> full then (verify_record_error PAKKA_ERR_IO ?n st, ?a)
           else if pakka_format_is_zip (format a) then
             (if deep then
                (let (dv, a3) = pakka_pk3_deep_verify_entry D env ?a e in
                 if dv \<noteq> PAKKA_OK then (verify_record_error dv ?n st, a3) else (?info, a3))
              else (?info, ?a))
           else if format a = PAKKA_FORMAT_DAIKATANA \<and> dk_is_compressed e \<and> deep then
             (let (dv, f3) = verify_dk_deep env ?a f2 e in
              if dv \<noteq> PAKKA_OK then (verify_record_error dv ?n st, a\<lparr>fp := Some f3\<rparr>) else (?info, a\<lparr>fp := Some f3\<rparr>))
           else (?info, ?a))"
        unfolding verify_entry_def Let_def safe(2) x prod.case st0 sk rd by (simp add: pk3_ops_def split_beta)
      have v: "vouched D deep f a e" if "decodes D f a e" using that safe(1) by (simp add: vouched_def)
      show ?thesis
      proof (cases "ok \<and> full")
        case False
        with r eq d1 d2 show ?thesis by (auto split: if_splits)
      next
        case both: True
        show ?thesis
        proof (cases "pakka_format_is_zip (format a)")
          case z: True
          show ?thesis
          proof (cases deep)
            case False
            then have "vouched D deep f a e" using safe(1) z by (simp add: vouched_def)
            with r eq both z False d2 show ?thesis by auto
          next
            case deep: True
            obtain dv a3 where dz: "pakka_pk3_deep_verify_entry D env ?a e = (dv, a3)" by fastforce
            have zk: "zip_kind_wf e" using wf z e by (simp add: handle_wf_def zip_archive_wf_def)
            have xl: "len = pk3_compressed_size e" using x z by (simp add: verify_extent_def)
            from deep_zip [OF dz _ _ zk st] z obtain g where
              g: "a3 = ?a\<lparr>fp := Some g\<rparr>" "f_data g = f_data f2"
              "dv = PAKKA_OK \<and> \<not> (pk3_compressed_size e = 0 \<and> entry_length e = 0) \<longrightarrow> decodes D f2 ?a e" by auto
            have "dv = PAKKA_OK \<Longrightarrow> vouched D deep f a e"
              using g(3) go xl v decodes_stream [OF st d2, of D "Some f2" a] by auto
            moreover have "st' = (if dv \<noteq> PAKKA_OK then verify_record_error dv ?n st else ?info) \<and> a' = a3"
              using r eq both z deep dz by (auto split: if_splits)
            ultimately show ?thesis using g(1,2) d2 by (intro exI [of _ g]) auto
          qed
        next
          case nz: False
          then have "archive_wf a" using wf by (simp add: handle_wf_def)
          then have "disk_wf (format a) (pe a) e" "pe a \<le> length (f_data f)" and dkf: "dk_is_compressed e \<longrightarrow> format a = PAKKA_FORMAT_DAIKATANA"
            using e st fp by (auto simp: archive_wf_def entry_wf_def)
          then have l: "entry_end e \<le> length (f_data f)" by (simp add: disk_wf_def)
          show ?thesis
          proof (cases "dk_is_compressed e")
            case False
            have "vouched D deep f a e" by (rule v [OF plain_decodes [OF nz False st l]])
            with r eq both nz False d2 show ?thesis by auto
          next
            case dk: True
            show ?thesis
            proof (cases deep)
              case False
              then have "vouched D deep f a e" using safe(1) dk by (simp add: vouched_def)
              with r eq both nz False d2 show ?thesis by auto
            next
              case deep: True
              obtain dv f3 where dd: "verify_dk_deep env ?a f2 e = (dv, f3)" by fastforce
              from deep_dk [OF dd _ dk st] nz l d2 have D: "f_data f3 = f_data f2" "dv = PAKKA_OK \<longrightarrow> decodes D f2 ?a e" by auto
              have "dv = PAKKA_OK \<Longrightarrow> vouched D deep f a e"
                using D(2) v decodes_stream [OF st d2, of D "Some f2" a] by auto
              moreover have "st' = (if dv \<noteq> PAKKA_OK then verify_record_error dv ?n st else ?info) \<and> a' = a\<lparr>fp := Some f3\<rparr>"
                using r eq both nz deep dd dk dkf by (auto split: if_splits)
              ultimately show ?thesis using D(1) d2 by (intro exI [of _ f3]) auto
            qed
          qed
        qed
      qed
    qed
  qed
qed

lemma vouched_stream:
  "f_data g = f_data f \<Longrightarrow> vouched D deep g (a\<lparr>fp := x\<rparr>) e = vouched D deep f a e"
  using decodes_stream [of e g f D x a] by (auto simp: vouched_def verify_extent_def)

lemma verify_entries_spec:
  "handle_wf a \<Longrightarrow> fp a = Some f \<Longrightarrow> \<forall>e \<in> set es. e \<in> set (entries a) \<Longrightarrow>
   verify_entries (pk3_ops D) env deep a es st = (st', a') \<Longrightarrow>
   \<exists>g. a' = a\<lparr>fp := Some g\<rparr> \<and> f_data g = f_data f \<and> (passed st' \<longrightarrow> passed st \<and> (\<forall>e \<in> set es. vouched D deep f a e))"
proof (induction es arbitrary: a f st)
  case Nil
  then show ?case using same_fp [OF Nil(2)] by (intro exI [of _ f]) auto
next
  case (Cons e es)
  obtain st1 a1 where s: "verify_entry (pk3_ops D) env deep a f e st = (st1, a1)" by fastforce
  have e: "e \<in> set (entries a)" using Cons.prems(3) by simp
  from verify_entry_spec [OF Cons.prems(1,2) e s] obtain g where
    g: "a1 = a\<lparr>fp := Some g\<rparr>" "f_data g = f_data f" "passed st1 \<longrightarrow> passed st \<and> vouched D deep f a e" by blast
  let ?a = "a\<lparr>fp := Some g\<rparr>"
  have wf1: "handle_wf ?a" by (rule handle_wf_data [OF Cons.prems(1,2) g(2)])
  have rest: "verify_entries (pk3_ops D) env deep ?a es st1 = (st', a')" using Cons.prems(2,4) s g(1) by simp
  from Cons.IH [OF wf1 _ _ rest] Cons.prems(3) obtain h where
    h: "a' = a\<lparr>fp := Some h\<rparr>" "f_data h = f_data g" "passed st' \<longrightarrow> passed st1 \<and> (\<forall>e \<in> set es. vouched D deep g ?a e)" by auto
  then show ?case using g(2,3) vouched_stream [OF g(2)] by (intro exI [of _ h]) auto
qed

section \<open>Collisions\<close>

lemma collision_scan_passed:
  "passed (collision_scan wad rs st) \<Longrightarrow> passed st \<and> (wad \<or> \<not> adjacent_equal (map fst rs))"
proof (induction wad rs st rule: collision_scan.induct)
  case (1 wad r1 r2 rs st)
  then show ?case by (cases "fst r1 = fst r2"; cases wad) auto
qed auto

lemma sorted_keys_distinct: "\<not> adjacent_equal (map fst (sort_key fst rs)) \<Longrightarrow> distinct (map fst rs)"
  for rs :: "(cstring \<times> cstring) list"
proof -
  assume n: "\<not> adjacent_equal (map fst (sort_key fst rs))"
  have "distinct (map fst (sort_key fst rs))"
    using n adjacent_equal_sorted [OF sorted_sort_key [of fst rs]] by blast
  moreover have "mset (map fst (sort_key fst rs)) = mset (map fst rs)" by simp
  ultimately show ?thesis using mset_eq_imp_distinct_iff by blast
qed

text \<open>The name a file system that folds case and separators, and drops trailing dots and spaces, sees.\<close>

definition folded :: "cstring \<Rightarrow> cstring list" where
  "folded n = map (\<lambda>x. rstrip (map lower x)) (segments n)"

lemma collision_records_norms:
  "collision_records env i es = Some rs \<Longrightarrow> \<forall>e \<in> set es. name_ok (filename e) \<and> safe_name (filename e) \<Longrightarrow>
   map fst rs = map (\<lambda>e. join_segments (folded (filename e))) es"
proof (induction es arbitrary: i rs)
  case (Cons e es)
  let ?n = "filename e"
  have n: "safe_name ?n" "c_string ?n" using Cons.prems(2) by (simp_all add: name_ok_def)
  obtain d rs' where d: "pakka_normalize_entry_name ?n (replicate (length ?n + 1) 0) (length ?n + 1) = Ok d"
    and r: "collision_records env (i + 1) es = Some rs'" and e: "rs = (cstr d, ?n) # rs'"
    using Cons.prems(1) by (auto simp: Let_def split: if_splits cres.splits)
  have "cstr d = join_segments (folded ?n)"
    using normalize_entry_name_spec [of ?n "length ?n + 1" "replicate (length ?n + 1) 0"] n d safe_name_last [OF n(1)]
    by (auto simp: folded_def)
  with Cons.IH [OF r] Cons.prems(2) show ?case by (simp add: e)
qed simp

lemma folded_distinct: "distinct (map (\<lambda>e. join_segments (folded (filename e))) es) \<Longrightarrow> distinct (map (folded \<circ> filename) es)"
  using distinct_map [of join_segments "map (folded \<circ> filename) es"] by (simp add: comp_def)

section \<open>The whole archive\<close>

text \<open>C37: an archive that \<open>pakka_verify\<close> passes has safe names only and, unless it is a WAD, no two names
  that agree up to case, separators and trailing dots and spaces. Every entry on disk that is not stored
  compressed has all its bytes; and after a deep check every entry, compressed or not, decodes to
  exactly its declared length, in a ZIP archive with exactly its recorded checksum. (Entries of length 0 that
  take up no space are not looked at.) The check leaves the handle as it was but for the position
  of its stream.\<close>

theorem verify_spec:
  assumes wf: "handle_wf a" and fp: "fp a = Some f"
    and r: "pakka_verify (pk3_ops D) env (Some a) flags = (PAKKA_OK, reps, ar)"
  shows "(\<exists>g. ar = Some (a\<lparr>fp := Some g\<rparr>) \<and> f_data g = f_data f)
    \<and> (\<forall>e \<in> set (entries a). vouched D (flags AND 1 \<noteq> 0) f a e)
    \<and> (pakka_format_is_wad (format a) \<or> distinct (map (folded \<circ> filename) (entries a)))"
proof -
  obtain rp fe a1 where v: "verify_entries (pk3_ops D) env (flags AND 1 \<noteq> 0) a (entries a) ([], PAKKA_OK) = ((rp, fe), a1)"
    by (metis prod.exhaust)
  define st where "st = (rp, fe)"
  from verify_entries_spec [OF wf fp _ v] obtain g where
    g: "a1 = a\<lparr>fp := Some g\<rparr>" "f_data g = f_data f"
    "passed st \<longrightarrow> (\<forall>e \<in> set (entries a). vouched D (flags AND 1 \<noteq> 0) f a e)" unfolding st_def by auto
  have flags: "\<not> flags AND NOT 1 \<noteq> 0"
    using r by (auto simp: pakka_verify_def split: if_splits)
  note unf = pakka_verify_def option.case Let_def v prod.case fp option.distinct
  show ?thesis
  proof (cases "length (entries a) > 1")
    case False
    then have ar: "passed st" "ar = Some a1" using r flags unfolding unf by (simp_all add: passed_def st_def)
    have "distinct (map (folded \<circ> filename) (entries a))"
      using False by (cases "entries a") auto
    with ar g show ?thesis by blast
  next
    case True
    obtain recs where recs: "collision_records env 0 (entries a) = Some recs"
      and sc: "passed (collision_scan (pakka_format_is_wad (format a)) (sort_key fst recs) st)" "ar = Some a1"
      using r flags True unfolding unf
      by (cases "collision_records env 0 (entries a)") (auto simp: passed_def st_def split: if_splits prod.splits)
    note P = collision_scan_passed [OF sc(1)]
    have all: "\<forall>e \<in> set (entries a). vouched D (flags AND 1 \<noteq> 0) f a e" using P g(3) by blast
    have "distinct (map (folded \<circ> filename) (entries a))" if "\<not> pakka_format_is_wad (format a)"
    proof -
      have "distinct (map fst recs)" using P that sorted_keys_distinct by blast
      moreover have "\<forall>e \<in> set (entries a). name_ok (filename e) \<and> safe_name (filename e)"
        using all op_extract_names [OF wf] by (auto simp: vouched_def)
      ultimately show ?thesis using collision_records_norms [OF recs] folded_distinct by simp
    qed
    with all g(1,2) sc(2) show ?thesis by blast
  qed
qed

lemma sample_verified:
  "case pakka_verify sample_ops quiet_env (Some sample_pak) 1 of (s, _) \<Rightarrow> s = PAKKA_OK"
  by code_simp

lemma verify_spec_witness:
  "\<exists>reps ar. pakka_verify sample_ops quiet_env (Some sample_pak) 1 = (PAKKA_OK, reps, ar)
     \<and> list_all (vouched (vendored sample_codec) True sample_fp sample_pak) (entries sample_pak)
     \<and> distinct (map (folded \<circ> filename) (entries sample_pak))"
proof -
  obtain reps ar where r: "pakka_verify sample_ops quiet_env (Some sample_pak) 1 = (PAKKA_OK, reps, ar)"
    using sample_verified by (auto split: prod.splits)
  have "\<not> pakka_format_is_wad (format sample_pak)" by (simp add: sample_pak_def pakka_format_is_wad_def)
  with verify_spec [OF sample_extract_setting(1,2) r] r show ?thesis by (auto simp: list_all_iff)
qed

end
