(* ===== verification/Spec2Isabelle.thy ===== *)
theory Spec2Isabelle
  imports Utf8 Pak_Reader Pak_Verify Pak_Lifecycle Commit_Props Reader_Props Session
    Cli_Options Cli_List Run_Props Verify_Props
begin

text \<open>
  A verification of libpakka, a C library for the archives of the Quake family of games: PAK, the PAK
  variants of SiN and Daikatana, IWAD and PWAD, and the ZIP based PK3 and PK4, and of its command line tool.

  \<^bold>\<open>The program.\<close> A client opens or creates an archive and gets a handle (\<^verbatim>\<open>struct pakka_archive\<close>, here the
  record \<open>archive\<close>): the format, the list of entries, a stream on the file, and flags. Adds, deletes,
  renames and copies change the list; the bytes of an add go into the file at once or are staged in the
  handle. A commit writes the directory in place, or rebuilds the archive in a scratch file that is
  renamed over the original. Readers share the stream of the handle. \<^verbatim>\<open>src/pakfile.c\<close> does this for the
  PAK class and dispatches to \<^verbatim>\<open>src/pk3file.c\<close> for ZIP, which uses one of the two DEFLATE backends under
  \<^verbatim>\<open>src/deflate/\<close>; both rest on \<^verbatim>\<open>src/platform.c\<close> for files, and on \<^verbatim>\<open>src/common.c\<close>,
  \<^verbatim>\<open>src/filesystem.c\<close> and \<^verbatim>\<open>src/dk_codec.c\<close> for fields, checksums, UTF-8 and the Daikatana codec. The command
  line tool \<^verbatim>\<open>src/cli.c\<close> is a client: it parses its arguments, opens or creates one archive, lists, extracts,
  adds, removes or verifies, and closes it.

  \<^bold>\<open>The model.\<close> Each function of the C code is a HOL function of the same name; loops and long functions
  are split at their natural seams and the parts named after what they do. Integers have the width of
  the code (\<open>u8\<close>, \<open>u16\<close>, \<open>u32\<close>, \<open>u64\<close>); sizes the code keeps in \<^verbatim>\<open>size_t\<close> are naturals where they cannot
  wrap. A \<^verbatim>\<open>char\<close> string is the bytes before its NUL. A handle that is mutated is passed in and handed
  back. A status is a value of \<open>status\<close>; an access outside a C buffer is the result \<open>Fault\<close>, so that bounds
  are statements of the form \<open>\<noteq> Fault\<close>. Allocation failures, limits of files and the fault hooks of the
  test build are fields of a record \<open>env\<close> that the theorems quantify over; each allocation has its own
  \<open>site\<close>, so any of them can fail alone. Streams (\<open>cfile\<close>, theory \<open>Stdio\<close>) have a content, a position, a
  number of bytes that can be read and written before an error, and flags; a file system is a map from
  paths to nodes (theory \<open>Platform\<close>). What \<^verbatim>\<open>fclose\<close> leaves in a file when it fails is arbitrary.

  \<^bold>\<open>Theories and sources.\<close>
  \<^item> \<open>Pakka_Prelude\<close>: words, statuses, results of fallible code, C memory, shared lemmas.
  \<^item> \<open>Checksum\<close>, \<open>Utf8\<close>, \<open>Stdio\<close> (part): \<^verbatim>\<open>src/common.c\<close>, \<^verbatim>\<open>src/filesystem.c\<close>. The table-driven CRC-32 is
    the bitwise one and finds any changed byte; the UTF-8 validator accepts exactly the encodings of
    scalar values.
  \<^item> \<open>Dk_Codec\<close>: \<^verbatim>\<open>src/dk_codec.c\<close>. Both directions stay in their buffers, the decoder is a reference
    decoder, and decoding inverts encoding.
  \<^item> \<open>Entry_Names\<close>: the name checks of \<^verbatim>\<open>src/pakfile.c\<close>. Accepted names stay below the extraction
    directory on every host; normal forms collide exactly up to case and separator.
  \<^item> \<open>Pak_Types\<close>: \<^verbatim>\<open>src/include/pakka.h\<close>, \<^verbatim>\<open>src/common.h\<close>. \<open>Pak_Format\<close>, \<open>Disk_Image\<close>: header and directory of
    the PAK class, written and read; round trip and bounds.
  \<^item> \<open>Platform\<close>: the POSIX half of \<^verbatim>\<open>src/platform.c\<close>. \<open>Streams\<close>: the copy loops.
  \<^item> \<open>Archive_Ops\<close>, \<open>Archive_Add\<close>, \<open>Pak_Reader\<close>, \<open>Pak_Commit\<close>, \<open>Pak_Verify\<close>, \<open>Pak_Lifecycle\<close>: the calls of
    \<^verbatim>\<open>src/pakfile.c\<close>. \<open>Zip_Interface\<close>: its calls into \<^verbatim>\<open>src/pk3file.c\<close>, a record of operations.
  \<^item> \<open>Archive_State\<close> (the invariant \<open>archive_wf\<close>; delete, rename, copy), \<open>Add_Props\<close>, \<open>Reader_Props\<close>,
    \<open>Commit_Props\<close>, \<open>Lifecycle_Props\<close>: what these calls do to the names and contents of an archive of the
    PAK class, on every branch.
  \<^item> \<open>Deflate\<close>: both backends, over parameters for the third-party codecs and their documented behaviour.
  \<^item> \<open>Zip_Format\<close>, \<open>Zip_Ops\<close>: the functions of \<^verbatim>\<open>src/pk3file.c\<close>; \<open>pk3_ops\<close> is the instance of the interface.
    \<open>Zip_Names\<close>, \<open>Zip_Parse\<close> (the parser reads within its buffers), \<open>Zip_State\<close> (the invariant
    \<open>zip_archive_wf\<close>), \<open>Zip_Commit\<close>, \<open>Zip_Ready\<close>, \<open>Zip_Reopen\<close>, \<open>Zip_Reader\<close>, \<open>Zip_Edit\<close>: commit, reopening,
    readers and edits.
  \<^item> \<open>Session\<close>: any sequence of calls on a handle of any format refines the edits of a list of named contents.
  \<^item> \<open>Verify_Props\<close>: what an archive that \<open>pakka_verify\<close> passes is known to hold.
  \<^item> \<open>Cli_Options\<close>, \<open>Cli_List\<close>, \<open>Cli_Extract\<close>, \<open>Cli_Run\<close>: \<^verbatim>\<open>src/cli.c\<close>, over \<open>Extract_Target\<close>, the directory calls of
    \<^verbatim>\<open>src/platform.c\<close>. The options are read as they are written; the listings are plain text and the tree is
    that of the names. \<open>Extract_Props\<close>: extraction ends, stays below its destination and writes the
    contents of the entries. \<open>Run_Props\<close>: from the command line to the archive on disk, for \<^verbatim>\<open>-d\<close> and \<^verbatim>\<open>-a\<close>.

  \<^bold>\<open>Interfaces.\<close> The entry list is a \<open>keyed_store\<close>, the CRC a \<open>checksum\<close> (chunks may be chosen freely),
  the fields are \<open>fixed_codec\<close>s, and readers of every format meet \<open>served_readers\<close>; the locales are
  interpreted on the functions of the model.

  \<^bold>\<open>Loops.\<close> Nothing has fuel. The loops are structural, or decrease a measure: the bytes left to copy, the
  directory depth, which the code bounds by 100, then the names left in a listing. The copy loop of the
  extraction (\<open>extract_copy\<close>) is a \<open>partial_function\<close>, and \<open>extract_returns\<close> shows that it ends.

  \<^bold>\<open>Not modelled.\<close> The texts of messages and the fields of \<^verbatim>\<open>pakka_error_t\<close> other than the status; freeing of
  memory; the Win32 half of \<^verbatim>\<open>src/platform.c\<close> and \<^verbatim>\<open>wmain\<close>; the extraction target for systems without \<^verbatim>\<open>openat\<close>;
  the third-party codecs. What a directory lists, \<^verbatim>\<open>realpath\<close> and \<^verbatim>\<open>getcwd\<close> are parameters. Concurrent changes
  of the file system during one call are not modelled, changes between two calls are: a staged source is
  checked again when it is read. An open stream has its own data, so an extraction over the open archive
  file itself is outside the model.
\<close>

end
